(* ===== verification/Js_Prelude.thy ===== *)
theory Js_Prelude
  imports Main
begin

text \<open>
  What every component of the development shares: the error values a JavaScript
  operation can end with, the pieces of the JavaScript standard library that the
  modelled code calls (strings, number formatting, rounding, array search and
  splicing), and the simp collections the component theories add to.
  Strings are lists of one-byte code units; the modelled code handles ASCII text.
\<close>

section \<open>Collections and results\<close>

named_theorems js_simps \<open>facts about the JavaScript library functions below\<close>

text \<open>
  An operation that may throw returns a sum: the exception on the left, its result on
  the right.  \<open>TypeError\<close> is the engine's own exception (a property read from
  \<open>undefined\<close>); \<open>Thrown\<close> carries a string the code throws itself.
\<close>

datatype js_error = TypeError | Thrown string

type_synonym 'a js_result = "js_error + 'a"

fun js_bind :: "'a js_result \<Rightarrow> ('a \<Rightarrow> 'b js_result) \<Rightarrow> 'b js_result" where
  "js_bind (Inl e) f = Inl e"
| "js_bind (Inr x) f = f x"

lemma js_bind_Inr_iff:
  "js_bind m f = Inr y \<longleftrightarrow> (\<exists>x. m = Inr x \<and> f x = Inr y)"
  by (cases m) auto

lemma js_bind_Inl_iff:
  "js_bind m f = Inl e \<longleftrightarrow> m = Inl e \<or> (\<exists>x. m = Inr x \<and> f x = Inl e)"
  by (cases m) auto

section \<open>Numbers\<close>

text \<open>
  \<open>Math.round (n / d)\<close> for integers and \<open>0 < d\<close>: the closest integer, halves rounded
  up; \<open>js_rem\<close> is the operator \<open>%\<close>, whose result has the sign of the dividend.
\<close>

definition js_round_div :: "int \<Rightarrow> int \<Rightarrow> int" where
  "js_round_div n d = (2 * n + d) div (2 * d)"

definition js_rem :: "int \<Rightarrow> int \<Rightarrow> int" where
  "js_rem a b = sgn a * (\<bar>a\<bar> mod \<bar>b\<bar>)"

definition js_trunc_div :: "int \<Rightarrow> int \<Rightarrow> int" where
  "js_trunc_div a b = sgn a * (\<bar>a\<bar> div b)"

definition js_ceil_div :: "int \<Rightarrow> int \<Rightarrow> int" where
  "js_ceil_div n d = - ((- n) div d)"

lemma js_rem_nonneg [js_simps]: "0 \<le> a \<Longrightarrow> 0 < b \<Longrightarrow> js_rem a b = a mod b"
  by (cases "a = 0") (simp_all add: js_rem_def)

lemma js_round_div_exact [js_simps]: "0 < d \<Longrightarrow> js_round_div (k * d) d = k"
proof -
  assume d: "0 < d"
  have "(2 * (k * d) + d) div (2 * d) = (d + k * (2 * d)) div (2 * d)"
    by (simp add: algebra_simps)
  also have "\<dots> = k + d div (2 * d)"
    using d by (subst div_mult_self1) auto
  also have "d div (2 * d) = 0"
    using d by simp
  finally show ?thesis by (simp add: js_round_div_def)
qed

lemma js_round_div_near:
  assumes "0 < d" and "2 * \<bar>e\<bar> < d"
  shows "js_round_div (k * d + e) d = k"
proof -
  have "(2 * (k * d + e) + d) div (2 * d) = ((2 * e + d) + k * (2 * d)) div (2 * d)"
    by (simp add: algebra_simps)
  also have "\<dots> = k + (2 * e + d) div (2 * d)"
    using assms(1) by (subst div_mult_self1) auto
  also have "(2 * e + d) div (2 * d) = 0"
    using assms by (intro div_pos_pos_trivial) auto
  finally show ?thesis by (simp add: js_round_div_def)
qed

section \<open>Strings\<close>

definition is_digit :: "char \<Rightarrow> bool" where
  "is_digit c \<longleftrightarrow> c \<in> set ''0123456789''"

fun digit_char :: "nat \<Rightarrow> char" where
  "digit_char n = ''0123456789'' ! (n mod 10)"

definition digit_val :: "char \<Rightarrow> nat" where
  "digit_val c = (of_char c :: nat) - 48"

text \<open>\<open>'' + n\<close> for an integer: its decimal digits, with a sign when negative.\<close>

fun show_nat :: "nat \<Rightarrow> string" where
  "show_nat n = (if n < 10 then [digit_char n] else show_nat (n div 10) @ [digit_char (n mod 10)])"

declare show_nat.simps [simp del]

definition show_int :: "int \<Rightarrow> string" where
  "show_int i = (if i < 0 then CHR ''-'' # show_nat (nat (- i)) else show_nat (nat i))"

text \<open>\<open>parseInt (s, 10)\<close> on a string of digits.\<close>

definition parse_digits :: "string \<Rightarrow> nat" where
  "parse_digits s = fold (\<lambda>c n. n * 10 + digit_val c) s 0"

text \<open>
  \<open>parseInt (s, 10)\<close>: leading blanks, an optional sign, then as many digits as there are;
  \<open>None\<close> is \<open>NaN\<close>.
\<close>

definition is_blank :: "char \<Rightarrow> bool" where
  "is_blank c \<longleftrightarrow> (of_char c :: nat) \<in> {9, 10, 11, 12, 13, 32}"

fun strip_sign :: "string \<Rightarrow> bool \<times> string" where
  "strip_sign (c # cs) = (if c = CHR ''-'' then (True, cs) else if c = CHR ''+'' then (False, cs) else (False, c # cs))"
| "strip_sign [] = (False, [])"

definition js_parse_int :: "string \<Rightarrow> int option" where
  "js_parse_int s =
     (let (neg, r) = strip_sign (dropWhile is_blank s); ds = takeWhile is_digit r
      in if ds = [] then None else Some (if neg then - int (parse_digits ds) else int (parse_digits ds)))"

text \<open>\<open>toLowerCase\<close> on ASCII.\<close>

definition lower_char :: "char \<Rightarrow> char" where
  "lower_char c = (let n = (of_char c :: nat) in if 65 \<le> n \<and> n \<le> 90 then char_of (n + 32) else c)"

abbreviation to_lower :: "string \<Rightarrow> string" where
  "to_lower \<equiv> map lower_char"

lemma digit_cases:
  assumes "n < 10"
  shows "n = 0 \<or> n = 1 \<or> n = 2 \<or> n = 3 \<or> n = 4 \<or> n = 5 \<or> n = 6 \<or> n = 7 \<or> n = 8 \<or> n = (9::nat)"
  using assms by arith

lemma is_digit_digit_char [simp]: "is_digit (digit_char n)"
proof -
  have "n mod 10 < 10" by simp
  from digit_cases [OF this] show ?thesis by (auto simp: is_digit_def)
qed

lemma digit_val_digit_char [simp]: "digit_val (digit_char n) = n mod 10"
proof -
  have "n mod 10 < 10" by simp
  from digit_cases [OF this] show ?thesis by (auto simp: digit_val_def)
qed

lemma parse_digits_snoc [js_simps]: "parse_digits (s @ [c]) = parse_digits s * 10 + digit_val c"
  by (simp add: parse_digits_def)

lemma parse_digits_show_nat [js_simps]: "parse_digits (show_nat n) = n"
proof (induction n rule: show_nat.induct)
  case (1 n)
  show ?case
  proof (cases "n < 10")
    case True
    then show ?thesis
      by (subst show_nat.simps) (simp add: parse_digits_def del: digit_char.simps)
  next
    case False
    with 1 show ?thesis
      by (subst show_nat.simps) (simp add: parse_digits_snoc del: digit_char.simps)
  qed
qed

lemma show_nat_digits [js_simps]: "list_all is_digit (show_nat n)"
proof (induction n rule: show_nat.induct)
  case (1 n)
  then show ?case
    by (subst show_nat.simps) (simp del: digit_char.simps)
qed

lemma show_nat_nonempty [simp]: "show_nat n \<noteq> []"
  by (subst show_nat.simps) simp

lemma length_show_nat_le: "n < 10 ^ k \<Longrightarrow> 0 < k \<Longrightarrow> length (show_nat n) \<le> k"
proof (induction k arbitrary: n)
  case 0
  then show ?case by simp
next
  case (Suc k)
  show ?case
  proof (cases "n < 10")
    case True
    then show ?thesis by (subst show_nat.simps) simp
  next
    case False
    with Suc.prems have "0 < k" by (cases k) auto
    moreover from Suc.prems have "n div 10 < 10 ^ k" by auto
    ultimately have "length (show_nat (n div 10)) \<le> k" by (rule Suc.IH [rotated])
    with False show ?thesis by (subst show_nat.simps) simp
  qed
qed

lemma length_show_nat: "10 ^ k \<le> n \<Longrightarrow> n < 10 ^ Suc k \<Longrightarrow> length (show_nat n) = Suc k"
proof (induction k arbitrary: n)
  case 0
  then show ?case by (subst show_nat.simps) simp
next
  case (Suc k)
  then have "10 ^ k \<le> n div 10" "n div 10 < 10 ^ Suc k" by auto
  then have "length (show_nat (n div 10)) = Suc k" by (rule Suc.IH)
  moreover have "(10::nat) \<le> 10 ^ Suc k" by simp
  then have "\<not> n < 10" using Suc.prems(1) by linarith
  ultimately show ?case by (subst show_nat.simps) simp
qed

text \<open>\<open>while (num.length < len) num = '0' + num\<close>.\<close>

definition pad_zero :: "nat \<Rightarrow> string \<Rightarrow> string" where
  "pad_zero len num = replicate (len - length num) (CHR ''0'') @ num"

lemma parse_digits_zero: "parse_digits (CHR ''0'' # s) = parse_digits s"
  by (simp add: parse_digits_def digit_val_def)

lemma parse_digits_pad_zero [js_simps]: "parse_digits (pad_zero len s) = parse_digits s"
proof -
  have "parse_digits (replicate k (CHR ''0'') @ s) = parse_digits s" for k
    by (induction k) (simp_all add: parse_digits_zero)
  then show ?thesis by (simp add: pad_zero_def)
qed

lemma is_digit_zero: "is_digit (CHR ''0'')"
  by (simp add: is_digit_def)

lemma pad_zero_digits [js_simps]: "list_all is_digit s \<Longrightarrow> list_all is_digit (pad_zero len s)"
proof -
  assume "list_all is_digit s"
  moreover have "list_all is_digit (replicate k (CHR ''0''))" for k
    by (induction k) (simp_all add: is_digit_zero)
  ultimately show ?thesis by (simp add: pad_zero_def)
qed

lemma length_pad_zero [js_simps]: "length (pad_zero len s) = max len (length s)"
  by (simp add: pad_zero_def)

section \<open>Arrays\<close>

text \<open>
  \<open>$.inArray (x, xs)\<close>: the first index of \<open>x\<close>, or \<open>-1\<close>; \<open>remove_at i xs\<close> is
  \<open>xs.splice (i, 1)\<close> for an index in range.
\<close>

fun in_array_from :: "'a \<Rightarrow> 'a list \<Rightarrow> int \<Rightarrow> int" where
  "in_array_from x [] i = -1"
| "in_array_from x (y # ys) i = (if x = y then i else in_array_from x ys (i + 1))"

abbreviation in_array :: "'a \<Rightarrow> 'a list \<Rightarrow> int" where
  "in_array x xs \<equiv> in_array_from x xs 0"

fun opt_list :: "'a option \<Rightarrow> 'a list" where
  "opt_list None = []"
| "opt_list (Some x) = [x]"

lemma set_opt_list [simp]: "set (opt_list m) = set_option m"
  by (cases m) simp_all

definition remove_at :: "nat \<Rightarrow> 'a list \<Rightarrow> 'a list" where
  "remove_at i xs = take i xs @ drop (Suc i) xs"

lemma in_array_from_absent: "x \<notin> set xs \<Longrightarrow> in_array_from x xs i = -1"
  by (induction xs arbitrary: i) auto

lemma in_array_from_present: "x \<in> set xs \<Longrightarrow> i \<le> in_array_from x xs i"
proof (induction xs arbitrary: i)
  case (Cons y ys)
  then show ?case using Cons.IH [of "i + 1"] by fastforce
qed simp

lemma in_array_ge_0 [js_simps]: "0 \<le> in_array x xs \<longleftrightarrow> x \<in> set xs"
  using in_array_from_absent [of x xs 0] in_array_from_present [of x xs 0] by force

lemma length_remove_at [js_simps]: "i < length xs \<Longrightarrow> length (remove_at i xs) = length xs - 1"
  by (simp add: remove_at_def)

end
