(* ===== verification/Exclusive_View.thy ===== *)
theory Exclusive_View
  imports Js_Prelude
begin

text \<open>
  The contract shared by the parts of the interface that show one of several panels at a
  time: the figures of a report page, the tabs and the accordion widgets.  A view has the
  kinds of panel it can show and the set of kinds it shows; selecting a kind the view can show
  leaves exactly that kind shown and takes none away from what it can show.
\<close>

locale exclusive_view =
  fixes select :: "'k \<Rightarrow> 's \<Rightarrow> 's"
    and shown :: "'s \<Rightarrow> 'k set"
    and kinds :: "'s \<Rightarrow> 'k set"
  assumes kinds_select: "k \<in> kinds s \<Longrightarrow> kinds (select k s) = kinds s"
    and shown_select: "k \<in> kinds s \<Longrightarrow> shown (select k s) = {k}"
begin

lemma kinds_fold: "set ks \<subseteq> kinds s \<Longrightarrow> kinds (fold select ks s) = kinds s"
  by (induction ks arbitrary: s) (simp_all add: kinds_select)

text \<open>After any selections, the last one alone is shown.\<close>

lemma shown_fold_last:
  assumes "ks \<noteq> []" and "set ks \<subseteq> kinds s"
  shows "shown (fold select ks s) = {last ks}"
proof -
  from assms(1) obtain ks' k where ks: "ks = ks' @ [k]" by (metis append_butlast_last_id)
  have "k \<in> kinds (fold select ks' s)" using assms(2) ks by (simp add: kinds_fold)
  then show ?thesis using ks by (simp add: shown_select)
qed

lemma select_absorbs: "j \<in> kinds s \<Longrightarrow> k \<in> kinds s \<Longrightarrow> shown (select k (select j s)) = shown (select k s)"
  by (simp add: shown_select kinds_select)

end

end
