(* ===== verification/Report_Figures.thy ===== *)
theory Report_Figures
  imports Exclusive_View
begin

text \<open>
  The page script of a Polygraph report, \<open>src/loganalyzers/ReportFigures.js\<close>.
  A report page holds figures (\<open>.ReportFigure\<close> tables, written by
  \<open>ReportFigure.cc\<close>), each with one \<open>tr[type]\<close> row per plotter (a static image, an
  interactive plot).  The script adds one control link per row, shows one type of row at
  a time, loads the script of an interactive figure when that type is first shown and
  builds the jqPlot plot when the loaded script calls \<open>createInteractive\<close>.

  The part of the DOM the script reads and writes is explicit: rows with their \<open>type\<close>,
  \<open>src\<close>, visibility and plot target, links with their \<open>type\<close> and \<open>href\<close>.  The call
  \<open>$.jqplot(targetId, data, options)\<close> is the parameter \<open>jqp\<close>, which may throw.
\<close>

section \<open>State\<close>

record fig_row =
  row_type :: string
  row_src :: string
  row_visible :: bool
  row_target :: "string option"

record fig_link =
  link_type :: string
  link_href :: "string option"

text \<open>\<open>fig_help_handlers\<close> counts the click handlers bound to the figure's help link, 0 before
  there is one.\<close>

record figure =
  fig_key :: string
  fig_rows :: "fig_row list"
  fig_links :: "fig_link list"
  fig_help_handlers :: nat

text \<open>The options of the call of \<open>resizable\<close> on the box around a plot.\<close>

record resizable_setup =
  rs_delay :: int
  rs_helper :: string
  rs_min_width :: int
  rs_min_height :: int

text \<open>The help dialog: not created yet, closed, or open (with the number of times it was
  recentred while open).\<close>

datatype help_dialog = NoDialog | DialogClosed | DialogOpen nat

text \<open>
  Plots are objects shared by \<open>TheFigures\<close> and the \<open>resizestop\<close> handlers, so they live in a
  store (\<open>the_plots\<close>) and are named by their index there.
\<close>

record 'p page =
  the_plots :: "'p list"
  the_figures :: "string \<rightharpoonup> nat"
  the_resizables :: "string \<rightharpoonup> resizable_setup"
  resize_handlers :: "(string \<times> nat) list"
  the_last_id :: nat
  the_help :: help_dialog
  the_page :: "figure list"
  the_requests :: "string list"

section \<open>Switching the shown type\<close>

text \<open>
  \<open>change\<close>: the handler of a control link.  A link without \<open>href\<close> is the selected one
  and does nothing.  Otherwise every other type gets its \<open>href\<close> back and its rows
  hidden, the type of the link loses its \<open>href\<close> and has its rows shown.
\<close>

definition change_links :: "string \<Rightarrow> fig_link list \<Rightarrow> fig_link list" where
  "change_links type ls = map (\<lambda>l. l\<lparr>link_href := (if link_type l \<noteq> type then Some ''#'' else None)\<rparr>) ls"

definition change_rows :: "string \<Rightarrow> fig_row list \<Rightarrow> fig_row list" where
  "change_rows type rs = map (\<lambda>r. r\<lparr>row_visible := (row_type r = type)\<rparr>) rs"

definition change_figure :: "string \<Rightarrow> figure \<Rightarrow> figure" where
  "change_figure type fig =
     fig\<lparr>fig_links := change_links type (fig_links fig), fig_rows := change_rows type (fig_rows fig)\<rparr>"

text \<open>
  The only show handler is the one of \<open>interactive\<close>: unless the figure of this key has
  been built, ask for the script named by the first interactive row.
\<close>

definition interactive_src :: "figure \<Rightarrow> string option" where
  "interactive_src fig = map_option row_src (List.find (\<lambda>r. row_type r = ''interactive'') (fig_rows fig))"

definition show_interactive :: "figure \<Rightarrow> 'p page \<Rightarrow> 'p page" where
  "show_interactive fig s =
     (if the_figures s (fig_key fig) = None
      then (case interactive_src fig of
              None \<Rightarrow> s
            | Some url \<Rightarrow> s\<lparr>the_requests := the_requests s @ [url]\<rparr>)
      else s)"

definition show_handler :: "string \<Rightarrow> figure \<Rightarrow> 'p page \<Rightarrow> 'p page" where
  "show_handler type fig s = (if type = ''interactive'' then show_interactive fig s else s)"

text \<open>\<open>change_click i j\<close>: the click on link \<open>j\<close> of figure \<open>i\<close> of the page.\<close>

definition change_click :: "nat \<Rightarrow> nat \<Rightarrow> 'p page \<Rightarrow> 'p page" where
  "change_click i j s =
     (if i < length (the_page s) \<and> j < length (fig_links (the_page s ! i))
      then (let fig = the_page s ! i; target = fig_links fig ! j in
            case link_href target of
              None \<Rightarrow> s
            | Some _ \<Rightarrow>
                (let type = link_type target; fig' = change_figure type fig
                 in show_handler type fig' (s\<lparr>the_page := (the_page s)[i := fig']\<rparr>)))
      else s)"

section \<open>Controls and start-up\<close>

text \<open>
  \<open>addControls\<close>: one link per typed row, in row order, then a click on the first one.
  The loop of \<open>init\<close> runs it on every figure of the page.
\<close>

definition append_controls :: "figure \<Rightarrow> figure" where
  "append_controls fig =
     fig\<lparr>fig_links := fig_links fig @
          map (\<lambda>r. \<lparr>link_type = row_type r, link_href = Some ''#''\<rparr>) (fig_rows fig),
         fig_help_handlers := 1\<rparr>"

definition add_controls :: "nat \<Rightarrow> 'p page \<Rightarrow> 'p page" where
  "add_controls i s =
     (let fig = the_page s ! i; first = length (fig_links fig)
      in change_click i first (s\<lparr>the_page := (the_page s)[i := append_controls fig]\<rparr>))"

text \<open>\<open>createHelp\<close> builds the dialog with \<open>autoOpen: false\<close> and binds \<open>showHelp\<close> to the help
  links of the page, which \<open>addControls\<close> has already done for each link it made.\<close>

definition bind_help :: "figure \<Rightarrow> figure" where
  "bind_help fig =
     (if fig_help_handlers fig = 0 then fig else fig\<lparr>fig_help_handlers := Suc (fig_help_handlers fig)\<rparr>)"

definition create_help :: "'p page \<Rightarrow> 'p page" where
  "create_help s = s\<lparr>the_help := DialogClosed, the_page := map bind_help (the_page s)\<rparr>"

definition rf_init :: "'p page \<Rightarrow> 'p page" where
  "rf_init s = create_help (fold add_controls [0 ..< length (the_page s)] s)"

text \<open>\<open>showHelp\<close>: open the dialog, or recentre it when it is open.  Before \<open>createHelp\<close>
  there is no dialog object to call.  \<open>help_click i\<close> is a click on the help link of figure
  \<open>i\<close>, which runs every handler bound to it; \<open>close_help\<close> is the reader closing the dialog.\<close>

fun show_help :: "'p page \<Rightarrow> 'p page js_result" where
  "show_help s =
     (case the_help s of
        NoDialog \<Rightarrow> Inl TypeError
      | DialogOpen n \<Rightarrow> Inr (s\<lparr>the_help := DialogOpen (Suc n)\<rparr>)
      | DialogClosed \<Rightarrow> Inr (s\<lparr>the_help := DialogOpen 0\<rparr>))"

fun show_help_times :: "nat \<Rightarrow> 'p page \<Rightarrow> 'p page js_result" where
  "show_help_times 0 s = Inr s"
| "show_help_times (Suc n) s = js_bind (show_help s) (show_help_times n)"

definition help_click :: "nat \<Rightarrow> 'p page \<Rightarrow> 'p page js_result" where
  "help_click i s =
     (if i < length (the_page s) then show_help_times (fig_help_handlers (the_page s ! i)) s else Inr s)"

definition close_help :: "'p page \<Rightarrow> 'p page" where
  "close_help s = (case the_help s of DialogOpen _ \<Rightarrow> s\<lparr>the_help := DialogClosed\<rparr> | _ \<Rightarrow> s)"

section \<open>The options of an interactive figure\<close>

record marker = marker_size :: nat marker_style :: string

record series_line =
  line_label :: "string option"
  line_yaxis :: string
  line_marker :: "marker option"

record text_options = font_size :: string text_color :: string

record axis_options =
  axis_label :: "string option"
  axis_min :: "int option"
  axis_max :: "int option"
  axis_canvas_label :: bool
  axis_hide_gridline :: bool

record legend_options =
  legend_location :: string
  legend_placement :: string
  legend_columns :: nat

record figure_options =
  label_x1 :: "string option"
  label_y1 :: "string option"
  label_y2 :: "string option"
  data_style :: string

record plot_options =
  axes_pad :: int
  axes_text :: text_options
  xaxis :: axis_options
  yaxis :: axis_options
  y2axis :: axis_options
  cursor_zoom :: bool
  cursor_tooltip :: bool
  grid_border :: int
  series_colors :: "string list"
  line_width :: int
  show_line :: "bool option"
  show_marker :: "bool option"
  legend :: "legend_options option"
  series :: "series_line list"

definition initial_plot_options :: "figure_options \<Rightarrow> series_line list \<Rightarrow> plot_options" where
  "initial_plot_options opts lines =
     \<lparr>axes_pad = 0,
      axes_text = \<lparr>font_size = ''12px'', text_color = ''#000000''\<rparr>,
      xaxis = \<lparr>axis_label = label_x1 opts, axis_min = None, axis_max = None,
               axis_canvas_label = False, axis_hide_gridline = False\<rparr>,
      yaxis = \<lparr>axis_label = label_y1 opts, axis_min = None, axis_max = None,
               axis_canvas_label = True, axis_hide_gridline = False\<rparr>,
      y2axis = \<lparr>axis_label = label_y2 opts, axis_min = None, axis_max = None,
                axis_canvas_label = True, axis_hide_gridline = True\<rparr>,
      cursor_zoom = True, cursor_tooltip = False, grid_border = 0,
      series_colors = [''#0080ff'', ''#ff0000'', ''#00c000'', ''#c000ff''],
      line_width = 2, show_line = None, show_marker = None, legend = None, series = lines\<rparr>"

text \<open>
  An axis whose label ends in a percent sign runs from 0 to 100.  Reading \<open>substr\<close> of a
  missing label throws; on an empty label \<open>substr\<close> gives the empty string.
\<close>

definition percent_axis :: "axis_options \<Rightarrow> axis_options js_result" where
  "percent_axis ax =
     (case axis_label ax of
        None \<Rightarrow> Inl TypeError
      | Some lab \<Rightarrow>
          Inr (if drop (length lab - 1) lab = ''%'' then ax\<lparr>axis_min := Some 0, axis_max := Some 100\<rparr> else ax))"

definition percent_axes :: "plot_options \<Rightarrow> plot_options js_result" where
  "percent_axes p =
     js_bind (percent_axis (xaxis p)) (\<lambda>x.
     js_bind (percent_axis (yaxis p)) (\<lambda>y.
     js_bind (percent_axis (y2axis p)) (\<lambda>y2.
       Inr (p\<lparr>xaxis := x, yaxis := y, y2axis := y2\<rparr>))))"

definition has_label :: "series_line \<Rightarrow> bool" where
  "has_label l = (case line_label l of None \<Rightarrow> False | Some lab \<Rightarrow> lab \<noteq> '''')"

definition add_legend :: "series_line list \<Rightarrow> plot_options \<Rightarrow> plot_options" where
  "add_legend lines p =
     (if length (filter has_label lines) > 0
      then p\<lparr>legend := Some \<lparr>legend_location = ''s'', legend_placement = ''outsideGrid'', legend_columns = 4\<rparr>\<rparr>
      else p)"

definition add_data_style :: "string \<Rightarrow> plot_options \<Rightarrow> plot_options" where
  "add_data_style st p =
     (if st = ''points'' then p\<lparr>show_line := Some False\<rparr> else p\<lparr>show_marker := Some False\<rparr>)"

definition series_markers :: "marker list" where
  "series_markers =
     [\<lparr>marker_size = 6, marker_style = ''plus''\<rparr>, \<lparr>marker_size = 6, marker_style = ''x''\<rparr>,
      \<lparr>marker_size = 6, marker_style = ''square''\<rparr>, \<lparr>marker_size = 8, marker_style = ''filledSquare''\<rparr>]"

fun set_markers :: "marker list \<Rightarrow> series_line list \<Rightarrow> series_line list" where
  "set_markers (m # ms) (l # ls) = l\<lparr>line_marker := Some m\<rparr> # set_markers ms ls"
| "set_markers _ ls = ls"

definition plot_options_of :: "figure_options \<Rightarrow> series_line list \<Rightarrow> plot_options js_result" where
  "plot_options_of opts lines =
     js_bind (percent_axes (initial_plot_options opts lines)) (\<lambda>p.
       let p' = add_data_style (data_style opts) (add_legend lines p)
       in Inr (p'\<lparr>series := set_markers series_markers (series p')\<rparr>))"

section \<open>Building an interactive figure\<close>

text \<open>
  \<open>createInteractive\<close>: the target of every interactive row of this key gets a fresh id,
  whatever happens afterwards; the plot is stored under the key only when computing the
  options and the call of \<open>$.jqplot\<close> did not throw.  \<open>outer\<close> is the outer size of the box
  around the plot at that moment.
\<close>

definition target_name :: "nat \<Rightarrow> string" where
  "target_name n = ''ReportFigure-'' @ show_nat n"

definition name_rows :: "string \<Rightarrow> fig_row list \<Rightarrow> fig_row list" where
  "name_rows tid rs =
     map (\<lambda>r. if row_type r = ''interactive'' then r\<lparr>row_target := Some tid\<rparr> else r) rs"

definition name_target :: "string \<Rightarrow> string \<Rightarrow> figure list \<Rightarrow> figure list" where
  "name_target key tid figs =
     map (\<lambda>f. if fig_key f = key then f\<lparr>fig_rows := name_rows tid (fig_rows f)\<rparr> else f) figs"

definition create_interactive ::
  "(string \<Rightarrow> 'd \<Rightarrow> plot_options \<Rightarrow> 'p js_result) \<Rightarrow> string \<Rightarrow> series_line list \<Rightarrow> 'd \<Rightarrow> figure_options \<Rightarrow>
   int \<times> int \<Rightarrow> 'p page \<Rightarrow> 'p page \<times> unit js_result" where
  "create_interactive jqp key lines data opts outer s =
     (let tid = target_name (the_last_id s);
          s1 = s\<lparr>the_last_id := Suc (the_last_id s), the_page := name_target key tid (the_page s)\<rparr>
      in case js_bind (plot_options_of opts lines) (jqp tid data) of
           Inl e \<Rightarrow> (s1, Inl e)
         | Inr plot \<Rightarrow>
             (s1\<lparr>the_plots := the_plots s1 @ [plot],
                 the_resizables := (the_resizables s1)(key \<mapsto>
                   \<lparr>rs_delay = 20, rs_helper = ''ReportFigureResizableHelper'',
                    rs_min_width = fst outer, rs_min_height = snd outer\<rparr>),
                 resize_handlers := resize_handlers s1 @ [(key, length (the_plots s1))],
                 the_figures := (the_figures s1)(key \<mapsto> length (the_plots s1))\<rparr>, Inr ()))"

text \<open>\<open>resizestop\<close> on the box of figure \<open>key\<close>: each handler bound to it replots its plot.\<close>

definition resize_stop :: "('p \<Rightarrow> 'p) \<Rightarrow> string \<Rightarrow> 'p page \<Rightarrow> 'p page" where
  "resize_stop replot key s =
     s\<lparr>the_plots := fold (\<lambda>(k, n) ps. if k = key then ps[n := replot (ps ! n)] else ps)
                        (resize_handlers s) (the_plots s)\<rparr>"

section \<open>The page as a state machine\<close>

text \<open>
  After \<open>init\<close> the page moves by clicks on control links and help links, by the reader
  closing the help dialog or resizing a figure, and by a loaded script calling
  \<open>createInteractive\<close>.
\<close>

inductive rf_step ::
  "(string \<Rightarrow> 'd \<Rightarrow> plot_options \<Rightarrow> 'p js_result) \<Rightarrow> ('p \<Rightarrow> 'p) \<Rightarrow> 'p page \<Rightarrow> 'p page \<Rightarrow> bool"
  for jqp replot where
  link_clicked: "rf_step jqp replot s (change_click i j s)"
| help_clicked: "help_click i s = Inr t \<Longrightarrow> rf_step jqp replot s t"
| help_closed: "rf_step jqp replot s (close_help s)"
| script_loaded: "rf_step jqp replot s (fst (create_interactive jqp key lines data opts outer s))"
| resized: "rf_step jqp replot s (resize_stop replot key s)"

inductive rf_reachable ::
  "(string \<Rightarrow> 'd \<Rightarrow> plot_options \<Rightarrow> 'p js_result) \<Rightarrow> ('p \<Rightarrow> 'p) \<Rightarrow> 'p page \<Rightarrow> 'p page \<Rightarrow> bool"
  for jqp replot s0 where
  start: "rf_reachable jqp replot s0 (rf_init s0)"
| step: "rf_reachable jqp replot s0 s \<Longrightarrow> rf_step jqp replot s t \<Longrightarrow> rf_reachable jqp replot s0 t"

section \<open>Switching: what a click leaves\<close>

definition shown_types :: "figure \<Rightarrow> string set" where
  "shown_types fig = row_type ` set (filter row_visible (fig_rows fig))"

definition fig_types :: "figure \<Rightarrow> string set" where
  "fig_types fig = row_type ` set (fig_rows fig)"

lemma fig_types_conv: "fig_types fig = set (map row_type (fig_rows fig))"
  by (simp add: fig_types_def)

lemma fig_types_change_figure [simp]: "fig_types (change_figure type fig) = fig_types fig"
  by (simp add: fig_types_def change_figure_def change_rows_def image_image)

lemma shown_types_change_figure: "type \<in> fig_types fig \<Longrightarrow> shown_types (change_figure type fig) = {type}"
proof -
  assume "type \<in> fig_types fig"
  then obtain r where r: "r \<in> set (fig_rows fig)" "type = row_type r"
    by (auto simp: fig_types_def)
  have "shown_types (change_figure type fig) = row_type ` {q \<in> set (fig_rows fig). row_type q = type}"
    by (simp add: shown_types_def change_figure_def change_rows_def filter_map comp_def image_image)
  with r show ?thesis by auto
qed

interpretation fv: exclusive_view change_figure shown_types fig_types
  by unfold_locales (simp_all add: shown_types_change_figure)

text \<open>A figure in order: a single type is shown, all of its rows are, and exactly the links
  of that type are inert.\<close>

definition shows_only :: "string \<Rightarrow> figure \<Rightarrow> bool" where
  "shows_only type fig \<longleftrightarrow>
     (\<forall>l \<in> set (fig_links fig). link_href l = (if link_type l = type then None else Some ''#'')) \<and>
     (\<forall>r \<in> set (fig_rows fig). row_visible r \<longleftrightarrow> row_type r = type)"

definition settled :: "figure \<Rightarrow> bool" where
  "settled fig \<longleftrightarrow>
     map link_type (fig_links fig) = map row_type (fig_rows fig) \<and>
     (fig_rows fig \<noteq> [] \<longrightarrow> (\<exists>type \<in> fig_types fig. shows_only type fig))"

lemma change_figure_shows_only: "shows_only type (change_figure type fig)"
  by (simp add: shows_only_def change_figure_def change_links_def change_rows_def)

lemma change_figure_frame [simp]:
  "fig_key (change_figure type fig) = fig_key fig"
  "map row_type (fig_rows (change_figure type fig)) = map row_type (fig_rows fig)"
  "map row_src (fig_rows (change_figure type fig)) = map row_src (fig_rows fig)"
  "map row_target (fig_rows (change_figure type fig)) = map row_target (fig_rows fig)"
  "map link_type (fig_links (change_figure type fig)) = map link_type (fig_links fig)"
  by (simp_all add: change_figure_def change_links_def change_rows_def comp_def)

lemma settled_change_figure:
  assumes links: "map link_type (fig_links fig) = map row_type (fig_rows fig)"
    and type: "type \<in> link_type ` set (fig_links fig)"
  shows "settled (change_figure type fig)"
proof -
  from type links have "type \<in> set (map row_type (fig_rows fig))"
    by (metis list.set_map)
  then have "type \<in> fig_types (change_figure type fig)"
    by (simp add: fig_types_def change_figure_def change_rows_def image_image)
  with change_figure_shows_only links show ?thesis
    unfolding settled_def by (metis change_figure_frame(2,5))
qed

lemma the_page_show_handler [simp]: "the_page (show_handler type fig s) = the_page s"
  by (simp add: show_handler_def show_interactive_def split: option.splits)

lemma show_handler_frame [simp]:
  "the_figures (show_handler type fig s) = the_figures s"
  "the_last_id (show_handler type fig s) = the_last_id s"
  "the_help (show_handler type fig s) = the_help s"
  by (simp_all add: show_handler_def show_interactive_def split: option.splits)

lemma change_click_frame [simp]:
  "the_figures (change_click i j s) = the_figures s"
  "the_last_id (change_click i j s) = the_last_id s"
  "the_help (change_click i j s) = the_help s"
  "length (the_page (change_click i j s)) = length (the_page s)"
  by (simp_all add: change_click_def Let_def split: option.splits)

lemma change_click_page:
  "the_page (change_click i j s) =
     (if i < length (the_page s) \<and> j < length (fig_links (the_page s ! i)) \<and>
         link_href (fig_links (the_page s ! i) ! j) \<noteq> None
      then (the_page s)[i := change_figure (link_type (fig_links (the_page s ! i) ! j)) (the_page s ! i)]
      else the_page s)"
  by (simp add: change_click_def Let_def split: option.splits)

section \<open>The page after start-up\<close>

lemma add_controls_frame [simp]:
  "the_figures (add_controls i s) = the_figures s"
  "the_last_id (add_controls i s) = the_last_id s"
  "length (the_page (add_controls i s)) = length (the_page s)"
  by (simp_all add: add_controls_def Let_def)

lemma add_controls_page:
  assumes i: "i < length (the_page s)" and fresh: "fig_links (the_page s ! i) = []"
  shows "the_page (add_controls i s) =
    (the_page s)[i := (case fig_rows (the_page s ! i) of
        [] \<Rightarrow> append_controls (the_page s ! i)
      | r # _ \<Rightarrow> change_figure (row_type r) (append_controls (the_page s ! i)))]"
  using i fresh
  by (cases "fig_rows (the_page s ! i)")
    (simp_all add: add_controls_def change_click_page append_controls_def)

lemma append_controls_frame [simp]:
  "fig_key (append_controls fig) = fig_key fig"
  "fig_rows (append_controls fig) = fig_rows fig"
  "fig_links fig = [] \<Longrightarrow> map link_type (fig_links (append_controls fig)) = map row_type (fig_rows fig)"
  by (simp_all add: append_controls_def comp_def)

lemma add_controls_settled:
  assumes i: "i < length (the_page s)" and fresh: "fig_links (the_page s ! i) = []"
  shows "settled (the_page (add_controls i s) ! i)"
proof (cases "fig_rows (the_page s ! i)")
  case Nil
  then show ?thesis
    using i fresh by (simp add: add_controls_page settled_def append_controls_def)
next
  case (Cons r rs)
  let ?fig = "append_controls (the_page s ! i)"
  have "row_type r \<in> link_type ` set (fig_links ?fig)"
    using Cons by (simp add: append_controls_def)
  moreover have "map link_type (fig_links ?fig) = map row_type (fig_rows ?fig)"
    using fresh by simp
  ultimately have "settled (change_figure (row_type r) ?fig)"
    by (intro settled_change_figure)
  then show ?thesis using i fresh Cons by (simp add: add_controls_page)
qed

definition fresh_page :: "'p page \<Rightarrow> bool" where
  "fresh_page s \<longleftrightarrow>
     the_figures s = Map.empty \<and> resize_handlers s = [] \<and> the_last_id s = 0 \<and> the_requests s = [] \<and>
     (\<forall>fig \<in> set (the_page s). fig_links fig = [] \<and> (\<forall>r \<in> set (fig_rows fig). row_target r = None))"

lemma add_controls_other:
  assumes "i < length (the_page s)" and "fig_links (the_page s ! i) = []" and "k \<noteq> i"
  shows "the_page (add_controls i s) ! k = the_page s ! k"
  using assms by (simp add: add_controls_page)

lemma fold_add_controls:
  assumes "\<And>i. i < length (the_page s) \<Longrightarrow> fig_links (the_page s ! i) = []" and "n \<le> length (the_page s)"
  shows "length (the_page (fold add_controls [0 ..< n] s)) = length (the_page s) \<and>
    (\<forall>i < n. settled (the_page (fold add_controls [0 ..< n] s) ! i)) \<and>
    (\<forall>i < length (the_page s). n \<le> i \<longrightarrow> the_page (fold add_controls [0 ..< n] s) ! i = the_page s ! i)"
  using assms(2)
proof (induction n)
  case 0
  then show ?case by simp
next
  case (Suc n)
  let ?t = "fold add_controls [0 ..< n] s"
  from Suc have IH: "length (the_page ?t) = length (the_page s)"
    "\<And>i. i < n \<Longrightarrow> settled (the_page ?t ! i)"
    "\<And>i. i < length (the_page s) \<Longrightarrow> n \<le> i \<Longrightarrow> the_page ?t ! i = the_page s ! i"
    by auto
  have n: "n < length (the_page ?t)" using Suc.prems IH(1) by simp
  have fresh: "fig_links (the_page ?t ! n) = []"
    using IH(3) [of n] assms(1) [of n] Suc.prems by simp
  have "settled (the_page (add_controls n ?t) ! i)" if "i < Suc n" for i
    using that IH(2) [of i] add_controls_settled [OF n fresh] add_controls_other [OF n fresh, of i]
    by (cases "i = n") auto
  moreover have "the_page (add_controls n ?t) ! i = the_page s ! i"
    if "i < length (the_page s)" "Suc n \<le> i" for i
    using that IH(3) [of i] add_controls_other [OF n fresh, of i] by simp
  ultimately show ?case using IH(1) by simp
qed

lemma bind_help_frame [simp]:
  "fig_key (bind_help fig) = fig_key fig" "fig_rows (bind_help fig) = fig_rows fig"
  "fig_links (bind_help fig) = fig_links fig"
  by (simp_all add: bind_help_def)

lemma settled_bind_help [simp]: "settled (bind_help fig) = settled fig"
  by (simp add: settled_def shows_only_def fig_types_def)

lemma rf_init_settled:
  assumes "fresh_page s"
  shows "\<forall>fig \<in> set (the_page (rf_init s)). settled fig"
proof -
  let ?n = "length (the_page s)"
  from assms have "\<And>i. i < ?n \<Longrightarrow> fig_links (the_page s ! i) = []"
    by (auto simp: fresh_page_def)
  from fold_add_controls [OF this, of ?n]
  show ?thesis by (auto simp: rf_init_def create_help_def in_set_conv_nth)
qed

section \<open>What every step keeps\<close>

lemma change_click_settled:
  assumes "\<forall>fig \<in> set (the_page s). settled fig"
  shows "\<forall>fig \<in> set (the_page (change_click i j s)). settled fig"
proof (cases "i < length (the_page s) \<and> j < length (fig_links (the_page s ! i)) \<and>
    link_href (fig_links (the_page s ! i) ! j) \<noteq> None")
  case True
  let ?fig = "the_page s ! i"
  have "settled ?fig" using assms True by simp
  then have "settled (change_figure (link_type (fig_links ?fig ! j)) ?fig)"
    using True by (intro settled_change_figure) (simp_all add: settled_def)
  then show ?thesis
    using assms True set_update_subset_insert [of "the_page s" i] by (auto simp: change_click_page)
next
  case False
  then have "the_page (change_click i j s) = the_page s" unfolding change_click_page by (rule if_not_P)
  with assms show ?thesis by simp
qed

lemma name_rows_frame [simp]:
  "map row_type (name_rows tid rs) = map row_type rs"
  "map row_src (name_rows tid rs) = map row_src rs"
  "map row_visible (name_rows tid rs) = map row_visible rs"
  by (simp_all add: name_rows_def)

lemma name_rows_ball:
  "(\<forall>r \<in> set (name_rows tid rs). row_visible r \<longleftrightarrow> row_type r = t) \<longleftrightarrow>
   (\<forall>r \<in> set rs. row_visible r \<longleftrightarrow> row_type r = t)"
  by (induction rs) (auto simp: name_rows_def)

lemma name_rows_Nil [simp]: "name_rows tid rs = [] \<longleftrightarrow> rs = []"
  by (simp add: name_rows_def)

lemma name_target_settled:
  assumes "\<forall>fig \<in> set figs. settled fig"
  shows "\<forall>fig \<in> set (name_target key tid figs). settled fig"
proof -
  have "settled (f\<lparr>fig_rows := name_rows tid (fig_rows f)\<rparr>)" if f: "settled f" for f
  proof -
    have types: "fig_types (f\<lparr>fig_rows := name_rows tid (fig_rows f)\<rparr>) = fig_types f"
      unfolding fig_types_conv by (simp del: list.set_map set_map)
    from f show ?thesis
      unfolding settled_def types shows_only_def by (simp add: name_rows_ball)
  qed
  with assms show ?thesis by (auto simp: name_target_def)
qed

lemma create_interactive_page:
  "the_page (fst (create_interactive jqp key lines data opts outer s)) =
     name_target key (target_name (the_last_id s)) (the_page s)"
  by (simp add: create_interactive_def Let_def split: sum.splits)

text \<open>The help dialog and the resize handlers touch one field each.\<close>

lemma show_help_only: "show_help s = Inr t \<Longrightarrow> t = s\<lparr>the_help := the_help t\<rparr>"
  by (auto split: help_dialog.splits)

lemma show_help_times_only: "show_help_times n s = Inr t \<Longrightarrow> t = s\<lparr>the_help := the_help t\<rparr>"
proof (induction n arbitrary: s)
  case (Suc n)
  then obtain u where "show_help s = Inr u" and u: "show_help_times n u = Inr t"
    by (auto simp: js_bind_Inr_iff simp del: show_help.simps)
  then have "u = s\<lparr>the_help := the_help u\<rparr>" by (simp only: show_help_only)
  moreover have "t = u\<lparr>the_help := the_help t\<rparr>" by (rule Suc.IH [OF u])
  ultimately show ?case by (metis page.update_convs(6) page.surjective)
qed simp

lemma help_click_only: "help_click i s = Inr t \<Longrightarrow> t = s\<lparr>the_help := the_help t\<rparr>"
  unfolding help_click_def by (auto split: if_splits dest: show_help_times_only)

lemma help_click_frame:
  assumes "help_click i s = Inr t"
  shows "the_page t = the_page s" "the_last_id t = the_last_id s" "the_requests t = the_requests s"
    "the_plots t = the_plots s" "the_figures t = the_figures s" "resize_handlers t = resize_handlers s"
  using help_click_only [OF assms] by (metis page.select_convs page.update_convs page.surjective)+

lemma close_help_frame [simp]:
  "the_page (close_help s) = the_page s" "the_last_id (close_help s) = the_last_id s"
  "the_requests (close_help s) = the_requests s" "the_plots (close_help s) = the_plots s"
  "the_figures (close_help s) = the_figures s" "resize_handlers (close_help s) = resize_handlers s"
  by (simp_all add: close_help_def split: help_dialog.splits)

lemma resize_stop_frame [simp]:
  "the_page (resize_stop replot key s) = the_page s" "the_last_id (resize_stop replot key s) = the_last_id s"
  "the_requests (resize_stop replot key s) = the_requests s"
  "the_figures (resize_stop replot key s) = the_figures s"
  "resize_handlers (resize_stop replot key s) = resize_handlers s"
  by (simp_all add: resize_stop_def)

lemma rf_step_settled:
  assumes "rf_step jqp replot s t" and "\<forall>fig \<in> set (the_page s). settled fig"
  shows "\<forall>fig \<in> set (the_page t). settled fig"
  using assms
proof (induction rule: rf_step.induct)
  case (link_clicked s i j)
  then show ?case by (rule change_click_settled)
next
  case (script_loaded s key lines data opts outer)
  then show ?case unfolding create_interactive_page by (rule name_target_settled)
qed (simp_all add: help_click_frame)

section \<open>Plot targets\<close>

text \<open>The ids given so far, with the key of the figure that carries them.\<close>

definition target_shape :: "figure \<Rightarrow> string \<times> string option list" where
  "target_shape f = (fig_key f, map row_target (fig_rows f))"

definition targets :: "figure list \<Rightarrow> (string \<times> string) set" where
  "targets figs = (\<Union>(k, ts) \<in> set (map target_shape figs). {(k, tid) | tid. Some tid \<in> set ts})"

lemma targets_iff:
  "(k, tid) \<in> targets figs \<longleftrightarrow>
     (\<exists>f \<in> set figs. k = fig_key f \<and> (\<exists>r \<in> set (fig_rows f). row_target r = Some tid))"
proof -
  have "Some tid \<in> row_target ` R \<longleftrightarrow> (\<exists>r \<in> R. row_target r = Some tid)" for R :: "fig_row set"
    by (metis imageE image_eqI)
  moreover have "(k, tid) \<in> targets figs \<longleftrightarrow>
      (\<exists>f \<in> set figs. k = fig_key f \<and> Some tid \<in> row_target ` set (fig_rows f))"
    by (auto simp: targets_def target_shape_def)
  ultimately show ?thesis by simp
qed

lemma target_shape_change_figure [simp]: "target_shape (change_figure type f) = target_shape f"
  by (simp add: target_shape_def)

lemma target_shape_append_controls [simp]: "target_shape (append_controls f) = target_shape f"
  by (simp add: target_shape_def)

lemma map_update_same: "i < length xs \<Longrightarrow> g x = g (xs ! i) \<Longrightarrow> map g (xs[i := x]) = map g xs"
  by (metis list_update_id map_update)

lemma targets_cong: "map target_shape figs = map target_shape figs' \<Longrightarrow> targets figs = targets figs'"
  by (simp only: targets_def)

text \<open>Whatever a view \<open>g\<close> of a figure reads, if \<open>change\<close> and \<open>addControls\<close> keep it for one
  figure then clicks and start-up keep it for the page.\<close>

lemma change_click_map:
  assumes "\<And>type f. g (change_figure type f) = g f"
  shows "map g (the_page (change_click i j s)) = map g (the_page s)"
  by (simp add: change_click_page map_update_same assms del: map_update)

lemma rf_init_map:
  fixes s :: "'p page"
  assumes change: "\<And>type f. g (change_figure type f) = g f"
    and append: "\<And>f. g (append_controls f) = g f"
    and bind: "\<And>f. g (bind_help f) = g f"
  shows "map g (the_page (rf_init s)) = map g (the_page s)"
proof -
  have add: "map g (the_page (add_controls i t)) = map g (the_page t)" if "i < length (the_page t)"
    for i and t :: "'p page"
    using that by (simp add: add_controls_def Let_def change_click_map [OF change] map_update_same append)
  have "map g (the_page (fold add_controls is t)) = map g (the_page t)"
    if "\<forall>i \<in> set is. i < length (the_page t)" for "is" and t :: "'p page"
    using that by (induction "is" arbitrary: t) (simp_all add: add)
  then show ?thesis by (simp add: rf_init_def create_help_def bind comp_def)
qed

lemma target_shape_bind_help [simp]: "target_shape (bind_help f) = target_shape f"
  by (simp add: target_shape_def)

lemmas change_click_shape = change_click_map [of target_shape, OF target_shape_change_figure]
lemmas rf_init_shape = rf_init_map [of target_shape, OF target_shape_change_figure target_shape_append_controls
  target_shape_bind_help]

lemma targets_name_target:
  "targets (name_target key tid figs) \<subseteq> insert (key, tid) (targets figs)"
proof -
  have "(k, t) = (key, tid) \<or> (k, t) \<in> targets figs" if "(k, t) \<in> targets (name_target key tid figs)" for k t
    using that by (fastforce simp: targets_iff name_target_def name_rows_def split: if_splits)
  then show ?thesis by auto
qed

lemma show_nat_inj: "show_nat m = show_nat n \<Longrightarrow> m = n"
  by (metis parse_digits_show_nat)

lemma target_name_inj: "target_name m = target_name n \<longleftrightarrow> m = n"
  by (auto simp: target_name_def dest: show_nat_inj)

definition targets_inv :: "'p page \<Rightarrow> bool" where
  "targets_inv s \<longleftrightarrow>
     (\<forall>(k, tid) \<in> targets (the_page s). \<exists>n < the_last_id s. tid = target_name n) \<and>
     (\<forall>(k, tid) \<in> targets (the_page s). \<forall>(k', tid') \<in> targets (the_page s). tid = tid' \<longrightarrow> k = k')"

lemma targets_inv_same:
  "targets_inv s \<Longrightarrow> map target_shape (the_page t) = map target_shape (the_page s) \<Longrightarrow>
   the_last_id t = the_last_id s \<Longrightarrow> targets_inv t"
  by (simp add: targets_inv_def targets_cong [of "the_page t" "the_page s"])

lemma create_interactive_last_id:
  "the_last_id (fst (create_interactive jqp key lines data opts outer s)) = Suc (the_last_id s)"
  by (simp add: create_interactive_def Let_def split: sum.splits)

lemma targets_inv_create:
  assumes "targets_inv s"
  shows "targets_inv (fst (create_interactive jqp key lines data opts outer s))"
proof -
  let ?t = "fst (create_interactive jqp key lines data opts outer s)"
  let ?tid = "target_name (the_last_id s)"
  have sub: "targets (the_page ?t) \<subseteq> insert (key, ?tid) (targets (the_page s))"
    unfolding create_interactive_page by (rule targets_name_target)
  have old: "\<exists>n < the_last_id s. tid = target_name n" if "(k, tid) \<in> targets (the_page s)" for k tid
    using assms that by (auto simp: targets_inv_def)
  then have fresh: "(k, ?tid) \<notin> targets (the_page s)" for k
    using target_name_inj by (metis less_irrefl)
  have "\<exists>n < the_last_id ?t. tid = target_name n" if "(k, tid) \<in> targets (the_page ?t)" for k tid
    using sub that old less_SucI unfolding create_interactive_last_id by blast
  moreover have "k = k'" if "(k, tid) \<in> targets (the_page ?t)" "(k', tid) \<in> targets (the_page ?t)" for k k' tid
  proof -
    from that sub have "(k, tid) = (key, ?tid) \<or> (k, tid) \<in> targets (the_page s)"
      "(k', tid) = (key, ?tid) \<or> (k', tid) \<in> targets (the_page s)" by auto
    then show ?thesis using fresh assms unfolding targets_inv_def by blast
  qed
  ultimately show ?thesis unfolding targets_inv_def by blast
qed

lemma rf_step_targets:
  assumes "rf_step jqp replot s t" and "targets_inv s"
  shows "targets_inv t"
  using assms
proof (induction rule: rf_step.induct)
  case (link_clicked s i j)
  then show ?case by (rule targets_inv_same) (simp_all add: change_click_shape)
next
  case (help_clicked i s t)
  then show ?case by (intro targets_inv_same [of s t]) (simp_all add: help_click_frame)
next
  case (help_closed s)
  then show ?case by (rule targets_inv_same) simp_all
next
  case (resized s key)
  then show ?case by (rule targets_inv_same) simp_all
next
  case (script_loaded s key lines data opts outer)
  then show ?case by (rule targets_inv_create)
qed

section \<open>Requests\<close>

definition src_shape :: "figure \<Rightarrow> (string \<times> string) list" where
  "src_shape f = map (\<lambda>r. (row_type r, row_src r)) (fig_rows f)"

lemma interactive_src_shape: "interactive_src f = map_of (src_shape f) ''interactive''"
proof -
  have "map_option row_src (List.find (\<lambda>r. row_type r = k) rs) = map_of (map (\<lambda>r. (row_type r, row_src r)) rs) k"
    for k and rs :: "fig_row list"
    by (induction rs) auto
  then show ?thesis by (simp add: interactive_src_def src_shape_def)
qed

lemma src_shape_frame [simp]:
  "src_shape (change_figure type f) = src_shape f"
  "src_shape (append_controls f) = src_shape f"
  "src_shape (bind_help f) = src_shape f"
  "src_shape (f\<lparr>fig_rows := name_rows tid (fig_rows f)\<rparr>) = src_shape f"
  by (auto simp: src_shape_def change_figure_def change_rows_def name_rows_def)

lemma src_shape_name_target: "map src_shape (name_target key tid figs) = map src_shape figs"
  by (simp add: name_target_def)

definition script_srcs :: "figure list \<Rightarrow> string set" where
  "script_srcs figs = {u. Some u \<in> (\<lambda>sh. map_of sh ''interactive'') ` set (map src_shape figs)}"

lemma script_srcs_nth: "f \<in> set figs \<Longrightarrow> interactive_src f = Some u \<Longrightarrow> u \<in> script_srcs figs"
  by (force simp: script_srcs_def interactive_src_shape)

lemma script_srcs_cong: "map src_shape figs = map src_shape figs' \<Longrightarrow> script_srcs figs = script_srcs figs'"
  by (simp only: script_srcs_def)

text \<open>What a click adds to the requests.\<close>

definition requested :: "'p page \<Rightarrow> figure \<Rightarrow> string \<Rightarrow> string option" where
  "requested s fig type =
     (if type = ''interactive'' \<and> the_figures s (fig_key fig) = None then interactive_src fig else None)"

lemma show_handler_requests:
  "the_requests (show_handler type fig s) = the_requests s @ opt_list (requested s fig type)"
  by (simp add: requested_def show_handler_def show_interactive_def split: option.splits)

lemma requested_change_figure [simp]:
  "requested (s\<lparr>the_page := pg\<rparr>) (change_figure t fig) type = requested s fig type"
  by (simp add: requested_def interactive_src_shape)

lemma change_click_requests:
  "the_requests (change_click i j s) = the_requests s @ opt_list
     (if i < length (the_page s) \<and> j < length (fig_links (the_page s ! i)) \<and>
         link_href (fig_links (the_page s ! i) ! j) \<noteq> None
      then requested s (the_page s ! i) (link_type (fig_links (the_page s ! i) ! j)) else None)"
  by (cases "link_href (fig_links (the_page s ! i) ! j)")
    (simp_all add: change_click_def Let_def show_handler_requests)

lemma requested_srcs: "fig \<in> set (the_page s) \<Longrightarrow> requested s fig type = Some u \<Longrightarrow> u \<in> script_srcs (the_page s)"
  by (simp add: requested_def script_srcs_nth split: if_splits)

definition requests_inv :: "'p page \<Rightarrow> bool" where
  "requests_inv s \<longleftrightarrow> set (the_requests s) \<subseteq> script_srcs (the_page s)"

lemma script_srcs_change_click [simp]: "script_srcs (the_page (change_click i j s)) = script_srcs (the_page s)"
  by (intro script_srcs_cong change_click_map) simp

lemma requests_inv_click: "requests_inv s \<Longrightarrow> requests_inv (change_click i j s)"
  unfolding requests_inv_def change_click_requests script_srcs_change_click
  by (auto simp: elem_set intro: requested_srcs [OF nth_mem] split: if_splits)

lemma create_interactive_requests:
  "the_requests (fst (create_interactive jqp key lines data opts outer s)) = the_requests s"
  by (simp add: create_interactive_def Let_def split: sum.splits)

lemma rf_step_requests:
  assumes "rf_step jqp replot s t" and "requests_inv s"
  shows "requests_inv t"
  using assms
proof (induction rule: rf_step.induct)
  case (link_clicked s i j)
  then show ?case by (rule requests_inv_click)
next
  case (script_loaded s key lines data opts outer)
  have "script_srcs (the_page (fst (create_interactive jqp key lines data opts outer s))) = script_srcs (the_page s)"
    by (intro script_srcs_cong) (simp add: create_interactive_page src_shape_name_target)
  then show ?case using script_loaded by (simp add: requests_inv_def create_interactive_requests)
qed (simp_all add: requests_inv_def help_click_frame)

lemma add_controls_requests:
  assumes "requests_inv s" and "i < length (the_page s)"
  shows "requests_inv (add_controls i s)"
proof -
  let ?s = "s\<lparr>the_page := (the_page s)[i := append_controls (the_page s ! i)]\<rparr>"
  have "script_srcs (the_page ?s) = script_srcs (the_page s)"
    using assms(2) by (intro script_srcs_cong) (simp add: map_update_same del: map_update)
  then have "requests_inv ?s" using assms(1) by (simp add: requests_inv_def)
  then show ?thesis by (simp add: add_controls_def Let_def requests_inv_click)
qed

lemma rf_init_requests:
  fixes s :: "'p page"
  assumes "the_requests s = []"
  shows "requests_inv (rf_init s)"
proof -
  have "requests_inv (fold add_controls is t)"
    if "\<forall>i \<in> set is. i < length (the_page t)" "requests_inv t" for "is" and t :: "'p page"
    using that by (induction "is" arbitrary: t) (simp_all add: add_controls_requests)
  from this [of "[0 ..< length (the_page s)]" s] assms
  have "requests_inv (fold add_controls [0 ..< length (the_page s)] s)" by (simp add: requests_inv_def)
  moreover have "script_srcs (map bind_help figs) = script_srcs figs" for figs
    by (intro script_srcs_cong) simp
  ultimately show ?thesis by (simp add: rf_init_def create_help_def requests_inv_def)
qed

section \<open>Properties\<close>

lemmas rf_reachable_keeps = rf_init_settled rf_init_shape rf_init_requests
  rf_step_settled rf_step_targets rf_step_requests

lemma rf_init_frame [simp]:
  "the_figures (rf_init s) = the_figures s" "the_last_id (rf_init s) = the_last_id s"
proof -
  have "the_figures (fold add_controls is t) = the_figures t \<and> the_last_id (fold add_controls is t) = the_last_id t"
    for "is" and t :: "'a page"
    by (induction "is" arbitrary: t) simp_all
  then show "the_figures (rf_init s) = the_figures s" "the_last_id (rf_init s) = the_last_id s"
    by (simp_all add: rf_init_def create_help_def)
qed

lemma rf_init_targets:
  assumes "fresh_page s"
  shows "targets_inv (rf_init s)"
proof -
  have "targets (the_page (rf_init s)) = targets (the_page s)"
    by (rule targets_cong) (rule rf_init_shape)
  also have "targets (the_page s) = {}"
    using assms by (auto simp: fresh_page_def targets_iff)
  finally show ?thesis by (simp add: targets_inv_def)
qed

lemma rf_reachable_invariants:
  assumes "rf_reachable jqp replot s0 s" and "fresh_page s0"
  shows "(\<forall>fig \<in> set (the_page s). settled fig) \<and> targets_inv s \<and> requests_inv s"
  using assms
proof (induction rule: rf_reachable.induct)
  case start
  then show ?case
    by (simp add: rf_init_settled rf_init_targets rf_init_requests fresh_page_def)
next
  case (step s t)
  then show ?case using rf_step_settled rf_step_targets rf_step_requests by blast
qed

text \<open>A page with one figure, as \<open>ReportFigure.cc\<close> writes it, for the examples.\<close>

definition demo_figure :: figure where
  "demo_figure =
     \<lparr>fig_key = ''load'',
      fig_rows = [\<lparr>row_type = ''static'', row_src = [], row_visible = True, row_target = None\<rparr>,
                  \<lparr>row_type = ''interactive'', row_src = ''figures/load.js'', row_visible = False, row_target = None\<rparr>],
      fig_links = [], fig_help_handlers = 0\<rparr>"

definition demo_page :: "string page" where
  "demo_page = \<lparr>the_plots = [], the_figures = Map.empty, the_resizables = Map.empty, resize_handlers = [],
                the_last_id = 0, the_help = NoDialog,
                the_page = [demo_figure], the_requests = []\<rparr>"

definition demo_jqp :: "string \<Rightarrow> nat list \<Rightarrow> plot_options \<Rightarrow> string js_result" where
  "demo_jqp tid data p = Inr tid"

definition demo_opts :: figure_options where
  "demo_opts = \<lparr>label_x1 = Some ''time, min'', label_y1 = Some ''hit ratio, %'', label_y2 = Some [], data_style = ''lines''\<rparr>"

lemma fresh_demo: "fresh_page demo_page"
  by (simp add: fresh_page_def demo_page_def demo_figure_def)

lemmas demo_simps = demo_page_def demo_figure_def rf_init_def create_help_def add_controls_def
  append_controls_def bind_help_def change_click_def change_figure_def change_links_def change_rows_def
  show_handler_def show_interactive_def interactive_src_def Let_def

text \<open>C1: after start-up, whatever is clicked and whatever the loaded scripts do, every figure of a
  report page that has rows shows the rows of exactly one of its types, and exactly the
  control links of that type are inert.\<close>

theorem rf_one_type_shown:
  assumes "fresh_page s0" and "rf_reachable jqp replot s0 s" and "fig \<in> set (the_page s)" and "fig_rows fig \<noteq> []"
  shows "\<exists>type \<in> fig_types fig. shows_only type fig"
  using rf_reachable_invariants [OF assms(2,1)] assms(3,4) by (auto simp: settled_def)

theorem rf_one_type_shown_witness:
  "let s = change_click 0 1 (rf_init demo_page); fig = the_page s ! 0
   in \<exists>type \<in> fig_types fig. shows_only type fig"
proof -
  let ?s = "change_click 0 1 (rf_init demo_page)"
  have "rf_reachable demo_jqp id demo_page ?s"
    by (rule rf_reachable.step [OF rf_reachable.start rf_step.link_clicked])
  moreover have "the_page ?s ! 0 \<in> set (the_page ?s)" "fig_rows (the_page ?s ! 0) \<noteq> []"
    by (simp_all add: demo_simps)
  ultimately have "\<exists>type \<in> fig_types (the_page ?s ! 0). shows_only type (the_page ?s ! 0)"
    using rf_one_type_shown [OF fresh_demo, of demo_jqp id] by blast
  then show ?thesis by (simp only: Let_def)
qed

text \<open>C2: the ids \<open>createInteractive\<close> gives to plot targets are never shared by figures of
  different keys, over any run of the page, also when building a plot throws.\<close>

theorem rf_targets_separate:
  assumes "fresh_page s0" and "rf_reachable jqp replot s0 s"
    and "(k, tid) \<in> targets (the_page s)" and "(k', tid) \<in> targets (the_page s)"
  shows "k = k' \<and> (\<exists>n < the_last_id s. tid = target_name n)"
  using rf_reachable_invariants [OF assms(2,1)] assms(3,4) unfolding targets_inv_def by blast

theorem rf_targets_separate_witness:
  "let s = fst (create_interactive demo_jqp ''load'' [] [] demo_opts (500, 300) (rf_init demo_page))
   in (''load'', ''ReportFigure-0'') \<in> targets (the_page s) \<and>
      (\<exists>n < the_last_id s. ''ReportFigure-0'' = target_name n)"
proof -
  let ?s = "fst (create_interactive demo_jqp ''load'' [] [] demo_opts (500, 300) (rf_init demo_page))"
  have r: "rf_reachable demo_jqp id demo_page ?s"
    by (rule rf_reachable.step [OF rf_reachable.start rf_step.script_loaded])
  have "target_name 0 = ''ReportFigure-0''"
    by (simp add: target_name_def show_nat.simps)
  then have t: "(''load'', ''ReportFigure-0'') \<in> targets (the_page ?s)"
    by (simp add: create_interactive_page targets_iff demo_simps name_target_def name_rows_def)
  from rf_targets_separate [OF fresh_demo r t t] t show ?thesis unfolding Let_def by blast
qed

text \<open>C5: the page only ever requests scripts that the \<open>src\<close> of an interactive row of one of its
  figures names.\<close>

theorem rf_requests_are_figure_scripts:
  assumes "fresh_page s0" and "rf_reachable jqp replot s0 s" and "url \<in> set (the_requests s)"
  shows "\<exists>fig \<in> set (the_page s). interactive_src fig = Some url"
proof -
  from rf_reachable_invariants [OF assms(2,1)] assms(3) have "url \<in> script_srcs (the_page s)"
    by (auto simp: requests_inv_def)
  then show ?thesis by (auto simp: script_srcs_def interactive_src_shape)
qed

theorem rf_requests_are_figure_scripts_witness:
  "\<exists>fig \<in> set (the_page (change_click 0 1 (rf_init demo_page))). interactive_src fig = Some ''figures/load.js''"
proof -
  let ?s = "change_click 0 1 (rf_init demo_page)"
  have r: "rf_reachable demo_jqp id demo_page ?s"
    by (rule rf_reachable.step [OF rf_reachable.start rf_step.link_clicked])
  have "''figures/load.js'' \<in> set (the_requests ?s)"
    by (simp add: demo_simps)
  from rf_requests_are_figure_scripts [OF fresh_demo r this] show ?thesis .
qed

definition ends_with_percent :: "string option \<Rightarrow> bool" where
  "ends_with_percent lab \<longleftrightarrow> (\<exists>s. lab = Some (s @ ''%''))"

lemma drop_last_percent: "drop (length lab - 1) lab = ''%'' \<longleftrightarrow> ends_with_percent (Some lab)"
  by (cases lab rule: rev_cases) (auto simp: ends_with_percent_def)

lemma percent_axis_alt:
  "percent_axis ax =
     (if axis_label ax = None then Inl TypeError
      else Inr (if ends_with_percent (axis_label ax) then ax\<lparr>axis_min := Some 0, axis_max := Some 100\<rparr> else ax))"
  unfolding percent_axis_def drop_last_percent by (auto split: option.splits)

lemma percent_axes_Inr:
  "percent_axes p = Inr q \<longleftrightarrow>
     (\<exists>x y y2. percent_axis (xaxis p) = Inr x \<and> percent_axis (yaxis p) = Inr y \<and>
        percent_axis (y2axis p) = Inr y2 \<and> q = p\<lparr>xaxis := x, yaxis := y, y2axis := y2\<rparr>)"
  by (auto simp: percent_axes_def js_bind_Inr_iff)

lemma length_set_markers [simp]: "length (set_markers ms ls) = length ls"
  by (induction ms ls rule: set_markers.induct) simp_all

lemma nth_set_markers:
  "k < length ls \<Longrightarrow>
   set_markers ms ls ! k = (if k < length ms then (ls ! k)\<lparr>line_marker := Some (ms ! k)\<rparr> else ls ! k)"
  by (induction ms ls arbitrary: k rule: set_markers.induct) (auto simp: nth_Cons split: nat.splits)

definition axis_as_labelled :: "axis_options \<Rightarrow> bool" where
  "axis_as_labelled ax \<longleftrightarrow>
     (axis_min ax, axis_max ax) =
       (if ends_with_percent (axis_label ax) then (Some 0, Some 100) else (None, None))"

lemma percent_axis_as_labelled:
  "percent_axis ax = Inr ax' \<Longrightarrow> axis_min ax = None \<Longrightarrow> axis_max ax = None \<Longrightarrow> axis_as_labelled ax'"
  by (auto simp: percent_axis_alt axis_as_labelled_def split: if_splits)

lemma plot_options_Inr:
  assumes "plot_options_of opts lines = Inr p"
  obtains q where "percent_axes (initial_plot_options opts lines) = Inr q"
    "p = (let p' = add_data_style (data_style opts) (add_legend lines q)
          in p'\<lparr>series := set_markers series_markers (series p')\<rparr>)"
  using assms by (auto simp: plot_options_of_def js_bind_Inr_iff Let_def)

lemma options_frame [simp]:
  "xaxis (add_data_style st p) = xaxis p" "yaxis (add_data_style st p) = yaxis p"
  "y2axis (add_data_style st p) = y2axis p" "series (add_data_style st p) = series p"
  "legend (add_data_style st p) = legend p"
  "xaxis (add_legend ls p) = xaxis p" "yaxis (add_legend ls p) = yaxis p"
  "y2axis (add_legend ls p) = y2axis p" "series (add_legend ls p) = series p"
  "show_line (add_legend ls p) = show_line p" "show_marker (add_legend ls p) = show_marker p"
  by (simp_all add: add_data_style_def add_legend_def)

text \<open>C3: when the options of an interactive figure can be computed, each of the three axes is
  fixed to 0..100 exactly when its label ends in a percent sign, there is a legend exactly
  when some line has a non-empty label, exactly one of lines and markers is switched off,
  and the first four lines get the four distinct markers.\<close>

theorem plot_options_spec:
  assumes "plot_options_of opts lines = Inr p"
  shows "axis_as_labelled (xaxis p) \<and> axis_as_labelled (yaxis p) \<and> axis_as_labelled (y2axis p) \<and>
    (legend p \<noteq> None \<longleftrightarrow> (\<exists>l \<in> set lines. has_label l)) \<and>
    (if data_style opts = ''points'' then (show_line p, show_marker p) = (Some False, None)
     else (show_line p, show_marker p) = (None, Some False)) \<and>
    length (series p) = length lines \<and>
    (\<forall>k < length lines. line_label (series p ! k) = line_label (lines ! k) \<and>
       line_marker (series p ! k) = (if k < 4 then Some (series_markers ! k) else line_marker (lines ! k)))"
proof -
  obtain q where q: "percent_axes (initial_plot_options opts lines) = Inr q"
    and p: "p = (let p' = add_data_style (data_style opts) (add_legend lines q)
                 in p'\<lparr>series := set_markers series_markers (series p')\<rparr>)"
    using assms by (rule plot_options_Inr)
  have base: "series q = lines" "legend q = None" "show_line q = None" "show_marker q = None"
    using q by (auto simp: percent_axes_Inr initial_plot_options_def)
  have "axis_as_labelled (xaxis q)" "axis_as_labelled (yaxis q)" "axis_as_labelled (y2axis q)"
    using q percent_axis_as_labelled by (auto simp: percent_axes_Inr initial_plot_options_def)
  then have "axis_as_labelled (xaxis p)" "axis_as_labelled (yaxis p)" "axis_as_labelled (y2axis p)"
    using p by (simp_all add: Let_def)
  moreover have "legend p \<noteq> None \<longleftrightarrow> (\<exists>l \<in> set lines. has_label l)"
    using p base by (auto simp: Let_def add_legend_def filter_empty_conv)
  moreover have "if data_style opts = ''points'' then (show_line p, show_marker p) = (Some False, None)
      else (show_line p, show_marker p) = (None, Some False)"
    using p base by (simp add: Let_def add_data_style_def)
  moreover have "series p = set_markers series_markers lines"
    using p base by (simp add: Let_def)
  moreover have "length series_markers = 4" by (simp add: series_markers_def)
  ultimately show ?thesis by (simp add: nth_set_markers)
qed

theorem plot_options_spec_witness:
  "\<exists>p. plot_options_of demo_opts [\<lparr>line_label = Some ''hits'', line_yaxis = ''yaxis'', line_marker = None\<rparr>] = Inr p \<and>
     axis_as_labelled (yaxis p) \<and> legend p \<noteq> None"
proof -
  let ?l = "\<lparr>line_label = Some ''hits'', line_yaxis = ''yaxis'', line_marker = None\<rparr>"
  obtain p where p: "plot_options_of demo_opts [?l] = Inr p"
    by (simp add: plot_options_of_def percent_axes_def percent_axis_def initial_plot_options_def
        demo_opts_def Let_def)
  from plot_options_spec [OF p] p show ?thesis by (auto simp: has_label_def)
qed

text \<open>C4: building a figure throws exactly when an axis label is missing or \<open>$.jqplot\<close> throws;
  then no plot is registered, and otherwise exactly the plot of the fresh target is
  registered under the key; the target id is used up in both cases.\<close>

theorem create_interactive_outcome:
  "the_last_id (fst (create_interactive jqp key lines data opts outer s)) = Suc (the_last_id s) \<and>
   (case create_interactive jqp key lines data opts outer s of
      (t, Inl e) \<Rightarrow> the_figures t = the_figures s \<and> the_plots t = the_plots s \<and>
         (if None \<in> {label_x1 opts, label_y1 opts, label_y2 opts} then e = TypeError
          else \<exists>p. plot_options_of opts lines = Inr p \<and> jqp (target_name (the_last_id s)) data p = Inl e)
    | (t, Inr _) \<Rightarrow> None \<notin> {label_x1 opts, label_y1 opts, label_y2 opts} \<and>
         (\<exists>p plot. plot_options_of opts lines = Inr p \<and>
            jqp (target_name (the_last_id s)) data p = Inr plot \<and>
            the_plots t = the_plots s @ [plot] \<and>
            the_figures t = (the_figures s)(key \<mapsto> length (the_plots s))))"
proof -
  have total: "plot_options_of opts lines = Inl TypeError"
    if "None \<in> {label_x1 opts, label_y1 opts, label_y2 opts}"
    using that
    by (auto simp: plot_options_of_def percent_axes_def percent_axis_alt initial_plot_options_def)
  have ok: "\<exists>p. plot_options_of opts lines = Inr p"
    if "None \<notin> {label_x1 opts, label_y1 opts, label_y2 opts}"
    using that
    by (cases "label_x1 opts"; cases "label_y1 opts"; cases "label_y2 opts")
      (auto simp: plot_options_of_def percent_axes_def percent_axis_alt initial_plot_options_def Let_def)
  show ?thesis
  proof (cases "None \<in> {label_x1 opts, label_y1 opts, label_y2 opts}")
    case True
    with total show ?thesis by (simp add: create_interactive_def Let_def)
  next
    case False
    with ok obtain p where "plot_options_of opts lines = Inr p" by blast
    with False show ?thesis
      by (cases "jqp (target_name (the_last_id s)) data p") (simp_all add: create_interactive_def Let_def)
  qed
qed

section \<open>Loading is not tracked\<close>

lemma change_click_live:
  assumes "i < length (the_page s)" and "j < length (fig_links (the_page s ! i))"
    and "link_href (fig_links (the_page s ! i) ! j) \<noteq> None"
  shows "the_page (change_click i j s) =
      (the_page s)[i := change_figure (link_type (fig_links (the_page s ! i) ! j)) (the_page s ! i)]"
    and "the_requests (change_click i j s) =
      the_requests s @ opt_list (requested s (the_page s ! i) (link_type (fig_links (the_page s ! i) ! j)))"
  using assms by (simp_all only: change_click_page change_click_requests) simp_all

lemma change_figure_link:
  assumes "j < length (fig_links fig)"
  shows "link_href (fig_links (change_figure t fig) ! j) = None \<longleftrightarrow> link_type (fig_links fig ! j) = t"
    and "link_type (fig_links (change_figure t fig) ! j) = link_type (fig_links fig ! j)"
    and "length (fig_links (change_figure t fig)) = length (fig_links fig)"
  using assms by (simp_all add: change_figure_def change_links_def)

text \<open>while the script of an interactive figure is on its way nothing records that it has been
  asked for, so showing the figure, switching away and showing it again asks for the script,
  and in the end builds the plot, a second time.\<close>

theorem rf_double_request:
  assumes i: "i < length (the_page s)" and fig: "fig = the_page s ! i"
    and away: "shows_only t0 fig" "t0 \<noteq> ''interactive''"
    and jI: "jI < length (fig_links fig)" "link_type (fig_links fig ! jI) = ''interactive''"
    and jS: "jS < length (fig_links fig)" "link_type (fig_links fig ! jS) = t0"
    and loading: "the_figures s (fig_key fig) = None" "interactive_src fig = Some url"
  shows "the_requests (change_click i jI (change_click i jS (change_click i jI s))) =
         the_requests s @ [url, url]"
proof -
  let ?s1 = "change_click i jI s" and ?f1 = "change_figure ''interactive'' fig"
  let ?s2 = "change_click i jS ?s1" and ?f2 = "change_figure t0 ?f1"
  have src: "interactive_src ?f1 = Some url" "interactive_src ?f2 = Some url"
    using loading by (simp_all add: interactive_src_shape)
  have live: "link_href (fig_links fig ! jI) \<noteq> None"
    using away jI by (auto simp: shows_only_def)
  have s1: "the_page ?s1 = (the_page s)[i := ?f1]" "the_requests ?s1 = the_requests s @ [url]"
    using change_click_live [OF i, of jI] jI live fig loading by (simp_all add: requested_def)
  have live1: "link_href (fig_links ?f1 ! jS) \<noteq> None"
    using change_figure_link [OF jS(1), of "''interactive''"] jS away by simp
  have s2: "the_page ?s2 = (the_page s)[i := ?f2]" "the_requests ?s2 = the_requests s @ [url]"
    using change_click_live [of i ?s1 jS] i s1 live1 jS away change_figure_link [OF jS(1), of "''interactive''"]
    by (simp_all add: requested_def)
  have jI1: "jI < length (fig_links ?f1)" "link_type (fig_links ?f1 ! jI) = ''interactive''"
    using jI change_figure_link [OF jI(1), of "''interactive''"] by simp_all
  then have "link_href (fig_links ?f2 ! jI) \<noteq> None" "link_type (fig_links ?f2 ! jI) = ''interactive''"
    "jI < length (fig_links ?f2)"
    using away change_figure_link [OF jI1(1), of t0] by simp_all
  then show ?thesis
    using change_click_live [of i ?s2 jI] i s2 src loading by (simp add: requested_def)
qed

theorem rf_double_request_witness:
  "the_requests (change_click 0 1 (change_click 0 0 (change_click 0 1 (rf_init demo_page)))) =
     [''figures/load.js'', ''figures/load.js'']"
proof -
  let ?s = "rf_init demo_page"
  have "the_requests ?s = []" by (simp add: demo_simps)
  moreover have "the_requests (change_click 0 1 (change_click 0 0 (change_click 0 1 ?s))) =
      the_requests ?s @ [''figures/load.js'', ''figures/load.js'']"
    by (rule rf_double_request [of 0 ?s "the_page ?s ! 0" "''static''" 1 0])
      (simp_all add: demo_simps shows_only_def)
  ultimately show ?thesis by simp
qed

section \<open>Resizing\<close>

definition handlers_inv :: "'p page \<Rightarrow> bool" where
  "handlers_inv s \<longleftrightarrow>
     (\<forall>(k, n) \<in> set (resize_handlers s). n < length (the_plots s)) \<and>
     distinct (map snd (resize_handlers s)) \<and>
     (\<forall>k n. the_figures s k = Some n \<longrightarrow> (k, n) \<in> set (resize_handlers s))"

definition run_handlers :: "('p \<Rightarrow> 'p) \<Rightarrow> string \<Rightarrow> (string \<times> nat) list \<Rightarrow> 'p list \<Rightarrow> 'p list" where
  "run_handlers replot key hs = fold (\<lambda>(k, n) ps. if k = key then ps[n := replot (ps ! n)] else ps) hs"

lemma length_run_handlers [simp]: "length (run_handlers replot key hs ps) = length ps"
  unfolding run_handlers_def by (induction hs arbitrary: ps) auto

lemma nth_run_handlers:
  assumes "distinct (map snd hs)" and "\<forall>(k, n) \<in> set hs. n < length ps" and "m < length ps"
  shows "run_handlers replot key hs ps ! m = (if (key, m) \<in> set hs then replot (ps ! m) else ps ! m)"
  using assms
proof (induction hs arbitrary: ps)
  case Nil
  then show ?case by (simp add: run_handlers_def)
next
  case (Cons h hs)
  obtain k n where h: "h = (k, n)" by (cases h)
  let ?ps = "if k = key then ps[n := replot (ps ! n)] else ps"
  have "run_handlers replot key (h # hs) ps ! m = run_handlers replot key hs ?ps ! m"
    by (simp add: run_handlers_def h)
  also have "\<dots> = (if (key, m) \<in> set hs then replot (?ps ! m) else ?ps ! m)"
    using Cons by (intro Cons.IH) auto
  also have "\<dots> = (if (key, m) \<in> set (h # hs) then replot (ps ! m) else ps ! m)"
  proof (cases "m = n")
    case True
    then have "(key, m) \<notin> set hs" using Cons.prems(1) h by (force simp: image_iff)
    then show ?thesis using True h Cons.prems(3) by simp
  next
    case False
    then show ?thesis using h by simp
  qed
  finally show ?case .
qed

lemma resize_stop_plots: "the_plots (resize_stop replot key s) = run_handlers replot key (resize_handlers s) (the_plots s)"
  by (simp add: resize_stop_def run_handlers_def)

lemma handlers_inv_create:
  assumes "handlers_inv s"
  shows "handlers_inv (fst (create_interactive jqp key lines data opts outer s))"
proof -
  have below: "\<forall>(k, n) \<in> set (resize_handlers s). n < length (the_plots s)"
    and "distinct (map snd (resize_handlers s))"
    and reg: "\<forall>k n. the_figures s k = Some n \<longrightarrow> (k, n) \<in> set (resize_handlers s)"
    using assms by (simp_all add: handlers_inv_def)
  moreover from below have "length (the_plots s) \<notin> set (map snd (resize_handlers s))" by auto
  ultimately show ?thesis
    by (auto simp: handlers_inv_def create_interactive_def Let_def split: sum.splits)
qed

lemma change_click_handlers [simp]:
  "the_plots (change_click i j s) = the_plots s" "resize_handlers (change_click i j s) = resize_handlers s"
  by (cases "link_href (fig_links (the_page s ! i) ! j)",
      simp_all add: change_click_def Let_def show_handler_def show_interactive_def split: option.splits)+

lemma rf_step_handlers:
  assumes "rf_step jqp replot s t" and "handlers_inv s"
  shows "handlers_inv t"
  using assms
proof (induction rule: rf_step.induct)
  case (script_loaded s key lines data opts outer)
  then show ?case by (rule handlers_inv_create)
qed (simp_all add: handlers_inv_def help_click_frame resize_stop_plots)

lemma rf_init_handlers:
  assumes "fresh_page s"
  shows "handlers_inv (rf_init s)"
proof -
  have "resize_handlers (fold add_controls is t) = resize_handlers t" for "is" and t :: "'a page"
    by (induction "is" arbitrary: t) (simp_all add: add_controls_def Let_def)
  then have "resize_handlers (rf_init s) = []" "the_figures (rf_init s) = Map.empty"
    using assms by (simp_all add: fresh_page_def, simp add: rf_init_def create_help_def)
  then show ?thesis by (simp add: handlers_inv_def)
qed

lemma rf_reachable_handlers:
  assumes "rf_reachable jqp replot s0 s" and "fresh_page s0"
  shows "handlers_inv s"
  using assms by (induction rule: rf_reachable.induct) (simp_all add: rf_init_handlers rf_step_handlers)

text \<open>resizing the box of a figure replots the plot registered for it exactly once, and leaves
  alone every plot that was not built for this figure.\<close>

theorem rf_resize_replots:
  assumes "fresh_page s0" and "rf_reachable jqp replot s0 s" and "the_figures s key = Some n"
  shows "the_plots (resize_stop replot key s) ! n = replot (the_plots s ! n) \<and>
    (\<forall>m < length (the_plots s). (key, m) \<notin> set (resize_handlers s) \<longrightarrow>
       the_plots (resize_stop replot key s) ! m = the_plots s ! m)"
proof -
  have inv: "handlers_inv s" using assms by (intro rf_reachable_handlers)
  then have "(key, n) \<in> set (resize_handlers s)" using assms(3) by (simp add: handlers_inv_def)
  moreover from this inv have "n < length (the_plots s)" by (auto simp: handlers_inv_def)
  ultimately show ?thesis
    using inv by (simp add: resize_stop_plots nth_run_handlers handlers_inv_def)
qed

theorem rf_resize_replots_witness:
  "let s = fst (create_interactive demo_jqp ''load'' [] [] demo_opts (500, 300) (rf_init demo_page))
   in the_plots (resize_stop tl ''load'' s) ! 0 = ''eportFigure-0''"
proof -
  let ?s = "fst (create_interactive demo_jqp ''load'' [] [] demo_opts (500, 300) (rf_init demo_page))"
  have r: "rf_reachable demo_jqp tl demo_page ?s"
    by (rule rf_reachable.step [OF rf_reachable.start rf_step.script_loaded])
  have plots: "the_plots ?s = [''ReportFigure-0'']" and reg: "the_figures ?s ''load'' = Some 0"
    by (simp_all add: create_interactive_def plot_options_of_def percent_axes_def percent_axis_alt
        initial_plot_options_def demo_opts_def demo_jqp_def Let_def target_name_def show_nat.simps demo_simps)
  from rf_resize_replots [OF fresh_demo r reg] plots show ?thesis unfolding Let_def by simp
qed

section \<open>The help dialog\<close>

definition help_inv :: "'p page \<Rightarrow> bool" where
  "help_inv s \<longleftrightarrow> the_help s \<noteq> NoDialog \<and> list_all (\<lambda>f. fig_help_handlers f = 2) (the_page s)"

lemma show_help_times_help:
  "the_help s \<noteq> NoDialog \<Longrightarrow> show_help_times n s = Inr t \<Longrightarrow> the_help t \<noteq> NoDialog"
proof (induction n arbitrary: s)
  case (Suc n)
  then obtain u where "show_help s = Inr u" "show_help_times n u = Inr t"
    by (auto simp: js_bind_Inr_iff simp del: show_help.simps)
  then show ?case using Suc.IH [of u] by (auto split: help_dialog.splits)
qed simp

lemma list_all_update: "list_all P xs \<Longrightarrow> P x \<Longrightarrow> list_all P (xs[i := x])"
  unfolding list_all_iff using set_update_subset_insert [of xs i x] by blast

lemma help_handlers_change_figure [simp]: "fig_help_handlers (change_figure t f) = fig_help_handlers f"
  by (simp add: change_figure_def)

lemma change_click_help_handlers:
  "map fig_help_handlers (the_page (change_click i j s)) = map fig_help_handlers (the_page s)"
  by (rule change_click_map) simp

lemma list_all_handlers: "list_all (\<lambda>f. fig_help_handlers f = n) figs \<longleftrightarrow> list_all (\<lambda>m. m = n) (map fig_help_handlers figs)"
  by (simp add: list_all_iff)

lemma rf_step_help:
  assumes "rf_step jqp replot s t" and "help_inv s"
  shows "help_inv t"
  using assms
proof (induction rule: rf_step.induct)
  case (link_clicked s i j)
  then show ?case by (simp add: help_inv_def list_all_handlers change_click_help_handlers)
next
  case (help_clicked i s t)
  then have "the_help t \<noteq> NoDialog"
    by (auto simp: help_inv_def help_click_def split: if_splits dest: show_help_times_help)
  then show ?case using help_clicked by (simp add: help_inv_def help_click_frame)
next
  case (script_loaded s key lines data opts outer)
  have "the_help (fst (create_interactive jqp key lines data opts outer s)) = the_help s"
    by (simp add: create_interactive_def Let_def split: sum.splits)
  moreover have "map fig_help_handlers (name_target key tid figs) = map fig_help_handlers figs" for tid figs
    by (simp add: name_target_def)
  ultimately show ?case using script_loaded
    by (simp add: help_inv_def list_all_handlers create_interactive_page)
qed (auto simp: help_inv_def resize_stop_def close_help_def split: help_dialog.splits)

lemma rf_init_help: "help_inv (rf_init s)"
proof -
  have handlers: "map fig_help_handlers (the_page (add_controls i t)) = (map fig_help_handlers (the_page t))[i := 1]"
    for i and t :: "'a page"
    by (simp add: add_controls_def Let_def change_click_help_handlers map_update append_controls_def)
  have "list_all (\<lambda>m. m = 1) (map fig_help_handlers (the_page (fold add_controls [0 ..< n] t)))"
    if "n = length (the_page t)" for n and t :: "'a page"
  proof -
    have "map fig_help_handlers (the_page (fold add_controls [0 ..< k] t)) =
        replicate k 1 @ drop k (map fig_help_handlers (the_page t))" if "k \<le> length (the_page t)" for k
      using that
      by (induction k) (simp_all add: handlers list_update_append Cons_nth_drop_Suc [symmetric] replicate_append_same)
    with that show ?thesis by (simp add: list_all_length)
  qed
  then show ?thesis
    by (simp add: help_inv_def rf_init_def create_help_def list_all_iff bind_help_def)
qed

text \<open>on a page that has been started a click on a help link never throws and leaves the dialog
  open; the two handlers each link ends up with both run, so opening it also recentres it.\<close>

theorem rf_help_opens:
  assumes "rf_reachable jqp replot s0 s" and "i < length (the_page s)"
  shows "\<exists>n. help_click i s = Inr (s\<lparr>the_help := DialogOpen n\<rparr>) \<and>
    n = (case the_help s of DialogOpen k \<Rightarrow> k + 2 | _ \<Rightarrow> 1)"
proof -
  from assms(1) have "help_inv s"
    by (induction rule: rf_reachable.induct) (simp_all add: rf_init_help rf_step_help)
  then have two: "fig_help_handlers (the_page s ! i) = 2" and "the_help s \<noteq> NoDialog"
    using assms(2) by (simp_all add: help_inv_def list_all_length)
  then show ?thesis using assms(2)
    by (cases "the_help s") (simp_all add: help_click_def numeral_2_eq_2)
qed

theorem rf_help_opens_witness:
  "\<exists>n. help_click 0 (rf_init demo_page) = Inr ((rf_init demo_page)\<lparr>the_help := DialogOpen n\<rparr>) \<and> n = 1"
  using rf_help_opens [OF rf_reachable.start [of demo_jqp id demo_page], of 0] by (simp add: demo_simps)

end
