(* ===== verification/Js_Date.thy ===== *)
theory Js_Date
  imports Js_Prelude
begin

text \<open>
  The part of the JavaScript \<open>Date\<close> object that the date picker uses, after section 15.9.1
  of ECMAScript 5.  A \<open>Date\<close> is its time value, an integer number of milliseconds of UTC;
  the host's time zone is a parameter (a constant offset and a daylight saving offset that
  may depend on the time in any way).  Time values outside the range of \<open>TimeClip\<close> are
  not modelled.
\<close>

section \<open>Days, years and months\<close>

definition ms_per_day :: int where "ms_per_day = 86400000"
definition ms_per_hour :: int where "ms_per_hour = 3600000"

definition leap_year :: "int \<Rightarrow> bool" where
  "leap_year y \<longleftrightarrow> y mod 4 = 0 \<and> (y mod 100 \<noteq> 0 \<or> y mod 400 = 0)"

text \<open>The number of the first day of a year, day 0 being the first of January 1970.\<close>

definition day_from_year :: "int \<Rightarrow> int" where
  "day_from_year y = 365 * (y - 1970) + (y - 1969) div 4 - (y - 1901) div 100 + (y - 1601) div 400"

text \<open>The year of a day, by the cycles of 400, 100, 4 and 1 years since the year 1.\<close>

definition year_from_day :: "int \<Rightarrow> int" where
  "year_from_day d =
     (let n = d + 719162;
          n400 = n div 146097; r = n mod 146097;
          n100 = min 3 (r div 36524); r100 = r - 36524 * n100;
          n4 = r100 div 1461; r4 = r100 mod 1461;
          n1 = min 3 (r4 div 365)
      in 400 * n400 + 100 * n100 + 4 * n4 + n1 + 1)"

text \<open>The day within the year on which a month (0 to 11) starts; month 12 ends the year.\<close>

definition month_start :: "bool \<Rightarrow> int \<Rightarrow> int" where
  "month_start leap m =
     [0, 31, 59, 90, 120, 151, 181, 212, 243, 273, 304, 334, 365] ! nat m + (if leap \<and> 2 \<le> m then 1 else 0)"

definition month_from_yday :: "bool \<Rightarrow> int \<Rightarrow> int" where
  "month_from_yday leap k =
     (if k < month_start leap 1 then 0 else if k < month_start leap 2 then 1
      else if k < month_start leap 3 then 2 else if k < month_start leap 4 then 3
      else if k < month_start leap 5 then 4 else if k < month_start leap 6 then 5
      else if k < month_start leap 7 then 6 else if k < month_start leap 8 then 7
      else if k < month_start leap 9 then 8 else if k < month_start leap 10 then 9
      else if k < month_start leap 11 then 10 else 11)"

definition days_in_month :: "int \<Rightarrow> int \<Rightarrow> int" where
  "days_in_month y m = month_start (leap_year y) (m + 1) - month_start (leap_year y) m"

text \<open>\<open>MakeDay\<close>: months and dates outside their range run over into other months.\<close>

definition make_day :: "int \<Rightarrow> int \<Rightarrow> int \<Rightarrow> int" where
  "make_day y m dt =
     (let ym = y + m div 12; mn = m mod 12
      in day_from_year ym + month_start (leap_year ym) mn + dt - 1)"

definition month_of_day :: "int \<Rightarrow> int" where
  "month_of_day d = (let y = year_from_day d in month_from_yday (leap_year y) (d - day_from_year y))"

definition date_of_day :: "int \<Rightarrow> int" where
  "date_of_day d =
     (let y = year_from_day d; k = d - day_from_year y
      in k - month_start (leap_year y) (month_from_yday (leap_year y) k) + 1)"

definition weekday :: "int \<Rightarrow> int" where
  "weekday d = (d + 4) mod 7"

section \<open>The calendar is consistent\<close>

lemma day_from_year_alt: "day_from_year y = 365 * (y - 1) + (y - 1) div 4 - (y - 1) div 100 + (y - 1) div 400 - 719162"
proof -
  have "(y - 1969) div 4 = (y - 1) div 4 - 492" "(y - 1901) div 100 = (y - 1) div 100 - 19"
    "(y - 1601) div 400 = (y - 1) div 400 - 4"
    using div_mult_self1 [of 4 "y - 1" "- 492"] div_mult_self1 [of 100 "y - 1" "- 19"]
      div_mult_self1 [of 400 "y - 1" "- 4"] by (simp_all add: algebra_simps)
  then show ?thesis by (simp add: day_from_year_def)
qed

lemma div_step: "0 < k \<Longrightarrow> y div k - (y - 1) div k = (if y mod k = 0 then 1 else (0::int))"
proof -
  assume k: "0 < k"
  let ?q = "y div k" and ?r = "y mod k"
  have y: "y = k * ?q + ?r" by simp
  have r: "0 \<le> ?r" "?r < k" using k by simp_all
  show ?thesis
  proof (cases "?r = 0")
    case True
    then have "y - 1 = k * (?q - 1) + (k - 1)" using y by (simp add: algebra_simps)
    then have "(y - 1) div k = ?q - 1" using k by (intro int_div_pos_eq [of "y - 1" k "?q - 1" "k - 1"]) auto
    with True show ?thesis by simp
  next
    case False
    then have "y - 1 = k * ?q + (?r - 1)" using y by simp
    then have "(y - 1) div k = ?q" using r False by (intro int_div_pos_eq [of "y - 1" k ?q "?r - 1"]) auto
    with False show ?thesis by simp
  qed
qed

lemma day_from_year_Suc: "day_from_year (y + 1) = day_from_year y + (if leap_year y then 366 else 365)"
proof -
  have "y mod 100 = y mod 400 mod 100" and "y mod 4 = y mod 100 mod 4"
    by (simp_all add: mod_mod_cancel)
  then have "y mod 400 = 0 \<Longrightarrow> y mod 100 = 0" and "y mod 100 = 0 \<Longrightarrow> y mod 4 = 0"
    by simp_all
  moreover have "day_from_year (y + 1) - day_from_year y =
      365 + (y div 4 - (y - 1) div 4) - (y div 100 - (y - 1) div 100) + (y div 400 - (y - 1) div 400)"
    by (simp add: day_from_year_alt)
  then have "day_from_year (y + 1) - day_from_year y =
      365 + (if y mod 4 = 0 then 1 else 0) - (if y mod 100 = 0 then 1 else 0) + (if y mod 400 = 0 then 1 else 0)"
    by (simp only: div_step zero_less_numeral)
  ultimately show ?thesis by (simp add: leap_year_def split: if_splits)
qed

lemma day_from_year_mono: "x \<le> y \<Longrightarrow> day_from_year x + 365 * (y - x) \<le> day_from_year y"
proof (induction "nat (y - x)" arbitrary: y)
  case 0
  then show ?case by simp
next
  case (Suc n)
  then have "day_from_year x + 365 * (y - 1 - x) \<le> day_from_year (y - 1)"
    by (intro Suc.hyps(1)) simp_all
  then show ?case using day_from_year_Suc [of "y - 1"] by (simp split: if_splits)
qed

text \<open>The closed form of the year is the year: the one whose days include the day.\<close>

lemma year_of_cycles:
  assumes "0 \<le> b" "b \<le> 3" "0 \<le> c" "c \<le> 24" "0 \<le> e" "e \<le> 3"
  shows "day_from_year (400 * a + 100 * b + 4 * c + e + 1) = 146097 * a + 36524 * b + 1461 * c + 365 * e - 719162"
proof -
  let ?x = "400 * a + 100 * b + 4 * c + e"
  have "?x div 4 = 100 * a + 25 * b + c"
    by (rule int_div_pos_eq [of _ _ _ e]) (use assms in auto)
  moreover have "?x div 100 = 4 * a + b"
    by (rule int_div_pos_eq [of _ _ _ "4 * c + e"]) (use assms in auto)
  moreover have "?x div 400 = a"
    by (rule int_div_pos_eq [of _ _ _ "100 * b + 4 * c + e"]) (use assms in auto)
  ultimately show ?thesis by (simp add: day_from_year_alt)
qed

lemma year_from_day_bounds:
  "day_from_year (year_from_day d) \<le> d \<and> d < day_from_year (year_from_day d + 1)"
proof -
  define n where "n = d + 719162"
  define a where "a = n div 146097"
  define r where "r = n mod 146097"
  define b where "b = min 3 (r div 36524)"
  define r1 where "r1 = r - 36524 * b"
  define c where "c = r1 div 1461"
  define r2 where "r2 = r1 mod 1461"
  define e where "e = min 3 (r2 div 365)"
  have n: "n = 146097 * a + r" and r: "0 \<le> r" "r < 146097"
    by (simp_all add: a_def r_def)
  have b: "0 \<le> b" "b \<le> 3" and r1: "0 \<le> r1" "b < 3 \<Longrightarrow> r1 < 36524" "r1 < 36525"
    using r unfolding b_def r1_def by (auto simp: min_def)
  have c: "r1 = 1461 * c + r2" "0 \<le> r2" "r2 < 1461" "0 \<le> c" "c \<le> 24"
    using r1 by (auto simp: c_def r2_def)
  have e: "0 \<le> e" "e \<le> 3" "365 * e \<le> r2" "e < 3 \<Longrightarrow> r2 < 365 * e + 365"
    using c by (auto simp: e_def min_def)
  define y where "y = 400 * a + 100 * b + 4 * c + e + 1"
  have year: "year_from_day d = y"
    unfolding year_from_day_def Let_def y_def e_def r2_def c_def r1_def b_def r_def a_def n_def ..
  have start: "day_from_year y = d - (r2 - 365 * e)"
    using year_of_cycles [OF b c(4,5) e(1,2)] n c(1) unfolding y_def n_def r1_def by simp
  have "d < day_from_year (y + 1)"
  proof (cases "r2 < 365 * e + 365")
    case True
    then show ?thesis using start day_from_year_Suc [of y] by (simp split: if_splits)
  next
    case False
    then have "e = 3" and r2: "r2 = 1460" using e c(3) by (cases "e < 3"; simp)+
    have "c \<noteq> 24 \<or> b = 3" using r2 c(1) r1(2) b by (cases "b < 3") auto
    moreover have "y mod 4 = 0" using \<open>e = 3\<close> by (simp add: y_def)
    moreover have "c = 24" if "y mod 100 = 0"
    proof (rule ccontr)
      assume "c \<noteq> 24"
      moreover have "y = (4 * c + 4) + 100 * (4 * a + b)" using \<open>e = 3\<close> by (simp add: y_def)
      then have "y mod 100 = (4 * c + 4) mod 100" by (metis mod_mult_self2)
      ultimately show False using that c(4,5) by simp
    qed
    moreover have "b = 3 \<Longrightarrow> c = 24 \<Longrightarrow> y mod 400 = 0" using \<open>e = 3\<close> by (simp add: y_def)
    ultimately have "leap_year y" unfolding leap_year_def by auto
    then show ?thesis using start day_from_year_Suc [of y] \<open>e = 3\<close> r2 by simp
  qed
  then show ?thesis unfolding year using start e(3) by simp
qed

lemma year_from_day_unique:
  assumes "day_from_year y \<le> d" and "d < day_from_year (y + 1)"
  shows "year_from_day d = y"
proof -
  let ?z = "year_from_day d"
  have z: "day_from_year ?z \<le> d" "d < day_from_year (?z + 1)" using year_from_day_bounds by simp_all
  have False if "?z < y"
    using day_from_year_mono [of "?z + 1" y] that z assms by simp
  moreover have False if "y < ?z"
    using day_from_year_mono [of "y + 1" ?z] that z assms by simp
  ultimately show ?thesis by force
qed

lemma month_cases:
  assumes "0 \<le> m" and "m < 12"
  shows "m \<in> {0, 1, 2, 3, 4, 5, 6, 7, 8, 9, 10, 11::int}"
  using assms by simp arith

lemma month_start_simps [simp]:
  "month_start l 0 = 0" "month_start l 1 = 31" "month_start l 2 = (if l then 60 else 59)"
  "month_start l 3 = (if l then 91 else 90)" "month_start l 4 = (if l then 121 else 120)"
  "month_start l 5 = (if l then 152 else 151)" "month_start l 6 = (if l then 182 else 181)"
  "month_start l 7 = (if l then 213 else 212)" "month_start l 8 = (if l then 244 else 243)"
  "month_start l 9 = (if l then 274 else 273)" "month_start l 10 = (if l then 305 else 304)"
  "month_start l 11 = (if l then 335 else 334)" "month_start l 12 = (if l then 366 else 365)"
  by (simp_all add: month_start_def)

lemma month_from_yday_range: "0 \<le> month_from_yday l k \<and> month_from_yday l k < 12"
  by (simp add: month_from_yday_def)

lemma month_from_yday_bounds:
  assumes "0 \<le> k" and "k < month_start l 12"
  shows "month_start l (month_from_yday l k) \<le> k \<and> k < month_start l (month_from_yday l k + 1)"
  using assms by (cases l) (simp_all add: month_from_yday_def)

lemma month_from_yday_unique:
  assumes "0 \<le> m" "m < 12" and "month_start l m \<le> k" and "k < month_start l (m + 1)"
  shows "month_from_yday l k = m"
  using month_cases [OF assms(1,2)] assms(3,4) by (cases l) (auto simp: month_from_yday_def)

lemma days_in_month_cases: "0 \<le> m \<Longrightarrow> m < 12 \<Longrightarrow> 28 \<le> days_in_month y m \<and> days_in_month y m \<le> 31"
  using month_cases [of m] by (auto simp: days_in_month_def)

lemma month_in_year:
  assumes "0 \<le> m" "m < 12"
  shows "0 \<le> month_start l m \<and> month_start l (m + 1) \<le> month_start l 12"
  using month_cases [OF assms] by auto

lemma year_length: "day_from_year (y + 1) = day_from_year y + month_start (leap_year y) 12"
  using day_from_year_Suc [of y] by simp

text \<open>A day's year, month and date, and the day they name, determine each other.\<close>

lemma civil_range:
  shows "0 \<le> month_of_day d" "month_of_day d < 12" "1 \<le> date_of_day d"
    "date_of_day d \<le> days_in_month (year_from_day d) (month_of_day d)"
    "1 \<le> date_of_day d \<and> date_of_day d \<le> 31"
proof -
  let ?y = "year_from_day d" and ?l = "leap_year (year_from_day d)"
  let ?k = "d - day_from_year ?y"
  have k: "0 \<le> ?k" "?k < month_start ?l 12"
    using year_from_day_bounds [of d] year_length [of ?y] by simp_all
  show m: "0 \<le> month_of_day d" "month_of_day d < 12"
    using month_from_yday_range by (simp_all add: month_of_day_def Let_def)
  show d: "1 \<le> date_of_day d" "date_of_day d \<le> days_in_month (year_from_day d) (month_of_day d)"
    using month_from_yday_bounds [OF k]
    by (simp_all add: date_of_day_def month_of_day_def Let_def days_in_month_def)
  then show "1 \<le> date_of_day d \<and> date_of_day d \<le> 31"
    using days_in_month_cases [OF m, of "year_from_day d"] by simp
qed

lemma make_day_civil [simp]: "make_day (year_from_day d) (month_of_day d) (date_of_day d) = d"
proof -
  have "month_of_day d div 12 = 0" "month_of_day d mod 12 = month_of_day d"
    using civil_range(1,2) [of d] by simp_all
  then show ?thesis
    by (simp add: make_day_def Let_def) (simp add: date_of_day_def month_of_day_def Let_def)
qed

lemma civil_make_day:
  assumes "0 \<le> m" "m < 12" "1 \<le> dt" "dt \<le> days_in_month y m"
  shows "year_from_day (make_day y m dt) = y" "month_of_day (make_day y m dt) = m"
    "date_of_day (make_day y m dt) = dt"
proof -
  have mk: "make_day y m dt = day_from_year y + month_start (leap_year y) m + dt - 1"
    using assms(1,2) by (simp add: make_day_def Let_def)
  have in_month: "month_start (leap_year y) m + dt - 1 < month_start (leap_year y) (m + 1)"
    using assms(4) by (simp add: days_in_month_def)
  show y: "year_from_day (make_day y m dt) = y"
    using month_in_year [OF assms(1,2), of "leap_year y"] in_month assms(3) year_length [of y]
    by (intro year_from_day_unique) (simp_all add: mk)
  have "month_from_yday (leap_year y) (month_start (leap_year y) m + dt - 1) = m"
    using assms in_month by (intro month_from_yday_unique) simp_all
  moreover have "make_day y m dt - day_from_year y = month_start (leap_year y) m + dt - 1"
    by (simp add: mk)
  ultimately show "month_of_day (make_day y m dt) = m" "date_of_day (make_day y m dt) = dt"
    unfolding month_of_day_def date_of_day_def Let_def y by simp_all
qed

lemma make_day_date: "make_day y m dt = make_day y m 1 + (dt - 1)"
  by (simp add: make_day_def Let_def)

lemma make_day_year_shift: "make_day y (m + 12 * k) dt = make_day (y + k) m dt"
  by (simp add: make_day_def Let_def algebra_simps)

lemma make_day_norm: "make_day (y + m div 12) (m mod 12) dt = make_day y m dt"
  by (simp add: make_day_def Let_def)

text \<open>A date past the end of its month falls in the next one.\<close>

lemma make_day_next_month: "make_day y (m + 1) 1 = make_day y m 1 + days_in_month (y + m div 12) (m mod 12)"
proof (cases "m mod 12 = 11")
  case True
  then have m: "m + 1 = 12 * (m div 12 + 1) + 0" using mult_div_mod_eq [of 12 m] by simp
  have a: "(m + 1) div 12 = m div 12 + 1" by (rule int_div_pos_eq [OF m]) simp_all
  have b: "(m + 1) mod 12 = 0" by (rule int_mod_pos_eq [OF m]) simp_all
  show ?thesis
    using year_length [of "y + m div 12"]
    unfolding make_day_def Let_def days_in_month_def a b True by (simp add: add.assoc)
next
  case False
  moreover have "0 \<le> m mod 12" "m mod 12 < 12" by simp_all
  ultimately have r: "0 \<le> m mod 12 + 1" "m mod 12 + 1 < 12" by linarith+
  have m: "m + 1 = 12 * (m div 12) + (m mod 12 + 1)" using mult_div_mod_eq [of 12 m] by simp
  have a: "(m + 1) div 12 = m div 12" by (rule int_div_pos_eq [OF m r])
  have b: "(m + 1) mod 12 = m mod 12 + 1" by (rule int_mod_pos_eq [OF m r])
  have shift: "x + w + 1 - 1 = x + v + 1 - 1 + (w - v)" for x v w :: int
    by simp
  show ?thesis
    unfolding make_day_def Let_def days_in_month_def a b by (rule shift)
qed

section \<open>Local time\<close>

record zone =
  tza :: int
  dst :: "int \<Rightarrow> int"

definition local_time :: "zone \<Rightarrow> int \<Rightarrow> int" where
  "local_time z t = t + tza z + dst z t"

definition utc :: "zone \<Rightarrow> int \<Rightarrow> int" where
  "utc z t = t - tza z - dst z (t - tza z)"

definition local_day :: "zone \<Rightarrow> int \<Rightarrow> int" where
  "local_day z t = local_time z t div ms_per_day"

definition local_ms :: "zone \<Rightarrow> int \<Rightarrow> int" where
  "local_ms z t = local_time z t mod ms_per_day"

definition get_full_year :: "zone \<Rightarrow> int \<Rightarrow> int" where
  "get_full_year z t = year_from_day (local_day z t)"

definition get_month :: "zone \<Rightarrow> int \<Rightarrow> int" where
  "get_month z t = month_of_day (local_day z t)"

definition get_date :: "zone \<Rightarrow> int \<Rightarrow> int" where
  "get_date z t = date_of_day (local_day z t)"

definition get_day :: "zone \<Rightarrow> int \<Rightarrow> int" where
  "get_day z t = weekday (local_day z t)"

definition get_hours :: "zone \<Rightarrow> int \<Rightarrow> int" where
  "get_hours z t = local_ms z t div ms_per_hour"

text \<open>\<open>new Date (y, m, d)\<close>: years 0 to 99 mean 1900 to 1999.\<close>

definition full_year :: "int \<Rightarrow> int" where
  "full_year y = (if 0 \<le> y \<and> y \<le> 99 then 1900 + y else y)"

definition new_date :: "zone \<Rightarrow> int \<Rightarrow> int \<Rightarrow> int \<Rightarrow> int" where
  "new_date z y m d = utc z (make_day (full_year y) m d * ms_per_day)"

text \<open>The setters keep the rest of the local time; \<open>set_midnight\<close> is the four calls that
  set hours, minutes, seconds and milliseconds to 0, \<open>set_hours\<close> the one that sets hours.\<close>

definition set_hours :: "zone \<Rightarrow> int \<Rightarrow> int \<Rightarrow> int" where
  "set_hours z h t = utc z (local_day z t * ms_per_day + h * ms_per_hour + local_ms z t mod ms_per_hour)"

definition set_date :: "zone \<Rightarrow> int \<Rightarrow> int \<Rightarrow> int" where
  "set_date z d t = utc z (make_day (get_full_year z t) (get_month z t) d * ms_per_day + local_ms z t)"

definition set_month :: "zone \<Rightarrow> int \<Rightarrow> int \<Rightarrow> int" where
  "set_month z m t = utc z (make_day (get_full_year z t) m (get_date z t) * ms_per_day + local_ms z t)"

definition set_minutes :: "zone \<Rightarrow> int \<Rightarrow> int \<Rightarrow> int" where
  "set_minutes z m t = utc z (local_day z t * ms_per_day +
     (local_ms z t div ms_per_hour) * ms_per_hour + m * 60000 + local_ms z t mod 60000)"

definition set_seconds :: "zone \<Rightarrow> int \<Rightarrow> int \<Rightarrow> int" where
  "set_seconds z s t = utc z (local_day z t * ms_per_day +
     (local_ms z t div 60000) * 60000 + s * 1000 + local_ms z t mod 1000)"

definition set_milliseconds :: "zone \<Rightarrow> int \<Rightarrow> int \<Rightarrow> int" where
  "set_milliseconds z m t = utc z (local_day z t * ms_per_day + (local_ms z t div 1000) * 1000 + m)"

lemma local_fields_range:
  "0 \<le> get_month z t" "get_month z t < 12" "1 \<le> get_date z t" "get_date z t \<le> 31"
  "get_date z t \<le> days_in_month (get_full_year z t) (get_month z t)" "0 \<le> get_day z t" "get_day z t < 7"
  using civil_range [of "local_day z t"]
  by (simp_all add: get_month_def get_date_def get_day_def get_full_year_def weekday_def)

text \<open>
  What is asked of a zone: daylight saving is off or on, and on it adds a fixed amount of at
  most an hour.  Nothing is said about when it changes.
\<close>

definition zone_ok :: "zone \<Rightarrow> bool" where
  "zone_ok z \<longleftrightarrow> (\<exists>h. 0 \<le> h \<and> h \<le> ms_per_hour \<and> (\<forall>t. dst z t = 0 \<or> dst z t = h))"

lemma local_time_utc: "local_time z (utc z t) = t - dst z (t - tza z) + dst z (t - tza z - dst z (t - tza z))"
  by (simp add: local_time_def utc_def)

definition utc_zone :: zone where "utc_zone = \<lparr>tza = 0, dst = (\<lambda>_. 0)\<rparr>"

lemma utc_local_day: "t = d * 86400000 + e \<Longrightarrow> 0 \<le> e \<Longrightarrow> e < 86400000 \<Longrightarrow> local_day utc_zone t = d"
  unfolding local_day_def local_time_def utc_zone_def ms_per_day_def
  by simp

lemma utc_zone_ok: "zone_ok utc_zone"
  by (auto simp: zone_ok_def utc_zone_def ms_per_hour_def)

end
