(* ===== verification/Dp_Format.thy ===== *)
theory Dp_Format
  imports Js_Date
begin

text \<open>
  The date arithmetic and the date formats of the date picker,
  \<open>jquery.ui.datepicker.js\<close>: \<open>_daylightSavingAdjust\<close>, \<open>_getDaysInMonth\<close>, \<open>iso8601Week\<close>,
  \<open>parseDate\<close>, \<open>formatDate\<close> and \<open>_possibleChars\<close>.  The index \<open>iFormat\<close> of the source
  is the rest of the format here; \<open>iValue\<close> is kept, since error messages show it.
  The zone \<open>z\<close> and the current time \<open>now\<close> (each \<open>new Date ()\<close>) are arguments.
\<close>

section \<open>Days and weeks\<close>

definition daylight_saving_adjust :: "zone \<Rightarrow> int \<Rightarrow> int" where
  "daylight_saving_adjust z t = set_hours z (if get_hours z t > 12 then get_hours z t + 2 else 0) t"

definition get_days_in_month :: "zone \<Rightarrow> int \<Rightarrow> int \<Rightarrow> int" where
  "get_days_in_month z year month = 32 - get_date z (daylight_saving_adjust z (new_date z year month 32))"

definition get_first_day_of_month :: "zone \<Rightarrow> int \<Rightarrow> int \<Rightarrow> int" where
  "get_first_day_of_month z year month = get_day z (new_date z year month 1)"

definition no_weekends :: "zone \<Rightarrow> int \<Rightarrow> bool \<times> string" where
  "no_weekends z t = (let day = get_day z t in (day > 0 \<and> day < 6, ''''))"

text \<open>The Thursday of the ISO week, then the number of whole weeks since the first of January.\<close>

definition iso8601_week :: "zone \<Rightarrow> int \<Rightarrow> int" where
  "iso8601_week z t =
     (let check = set_date z (get_date z t + 4 - (if get_day z t = 0 then 7 else get_day z t)) t;
          time = check;
          check1 = set_date z 1 (set_month z 0 check)
      in js_round_div (time - check1) 86400000 div 7 + 1)"

section \<open>Settings\<close>

text \<open>
  \<open>shortYearCutoff\<close> is a number, or a string that is added to the current year's last two
  digits.  A setting that is missing, 0 or the empty string is replaced by the default.
\<close>

datatype cutoff = CNum int | CStr string

record format_settings =
  set_cutoff :: "cutoff option"
  set_day_names_short :: "string list option"
  set_day_names :: "string list option"
  set_month_names_short :: "string list option"
  set_month_names :: "string list option"

record format_config =
  cfg_cutoff :: cutoff
  day_names_short :: "string list"
  day_names :: "string list"
  month_names_short :: "string list"
  month_names :: "string list"

definition default_config :: format_config where
  "default_config =
     \<lparr>cfg_cutoff = CStr ''+10'',
      day_names_short = [''Sun'', ''Mon'', ''Tue'', ''Wed'', ''Thu'', ''Fri'', ''Sat''],
      day_names = [''Sunday'', ''Monday'', ''Tuesday'', ''Wednesday'', ''Thursday'', ''Friday'', ''Saturday''],
      month_names_short = [''Jan'', ''Feb'', ''Mar'', ''Apr'', ''May'', ''Jun'', ''Jul'', ''Aug'', ''Sep'', ''Oct'',
        ''Nov'', ''Dec''],
      month_names = [''January'', ''February'', ''March'', ''April'', ''May'', ''June'', ''July'', ''August'',
        ''September'', ''October'', ''November'', ''December'']\<rparr>"

definition cutoff_truthy :: "cutoff \<Rightarrow> bool" where
  "cutoff_truthy c = (case c of CNum n \<Rightarrow> n \<noteq> 0 | CStr s \<Rightarrow> s \<noteq> [])"

definition or_default :: "'a option \<Rightarrow> 'a \<Rightarrow> 'a" where
  "or_default m d = (case m of None \<Rightarrow> d | Some x \<Rightarrow> x)"

definition resolve_config :: "format_settings option \<Rightarrow> format_config" where
  "resolve_config so =
     (case so of None \<Rightarrow> default_config
      | Some s \<Rightarrow>
          \<lparr>cfg_cutoff = (case set_cutoff s of None \<Rightarrow> cfg_cutoff default_config
             | Some c \<Rightarrow> if cutoff_truthy c then c else cfg_cutoff default_config),
           day_names_short = or_default (set_day_names_short s) (day_names_short default_config),
           day_names = or_default (set_day_names s) (day_names default_config),
           month_names_short = or_default (set_month_names_short s) (month_names_short default_config),
           month_names = or_default (set_month_names s) (month_names default_config)\<rparr>)"

text \<open>\<open>None\<close> is \<open>NaN\<close>, with which no comparison holds.\<close>

definition cutoff_value :: "zone \<Rightarrow> int \<Rightarrow> cutoff \<Rightarrow> int option" where
  "cutoff_value z now c =
     (case c of CNum n \<Rightarrow> Some n
      | CStr s \<Rightarrow> map_option (\<lambda>k. js_rem (get_full_year z now) 100 + k) (js_parse_int s))"

definition ticks_to_1970 :: int where
  "ticks_to_1970 = ((1970 - 1) * 365 + 1970 div 4 - 1970 div 100 + 1970 div 400) * 24 * 60 * 60 * 10000000"

section \<open>Reading a date\<close>

definition look_ahead :: "char \<Rightarrow> string \<Rightarrow> bool \<times> string" where
  "look_ahead m fmt = (case fmt of c # cs \<Rightarrow> if c = m then (True, cs) else (False, fmt) | [] \<Rightarrow> (False, fmt))"

text \<open>The variables of \<open>parseDate\<close>: the position and the four fields, -1 when not set.\<close>

record parse_state =
  i_value :: nat
  p_year :: int
  p_month :: int
  p_day :: int
  p_doy :: int

definition number_size :: "char \<Rightarrow> bool \<Rightarrow> nat" where
  "number_size m doubled =
     (if m = CHR ''@'' then 14 else if m = CHR ''!'' then 20
      else if m = CHR ''y'' \<and> doubled then 4 else if m = CHR ''o'' then 3 else 2)"

definition get_number :: "string \<Rightarrow> char \<Rightarrow> bool \<Rightarrow> nat \<Rightarrow> (int \<times> nat) js_result" where
  "get_number val m doubled i =
     (let num = takeWhile is_digit (take (number_size m doubled) (drop i val))
      in if num = [] then Inl (Thrown (''Missing number at position '' @ show_nat i))
         else Inr (int (parse_digits num), i + length num))"

text \<open>Names are tried from the longest to the shortest, equal lengths in their order.\<close>

definition sorted_names :: "string list \<Rightarrow> (nat \<times> string) list" where
  "sorted_names names = sort_key (\<lambda>p. - int (length (snd p))) (enumerate 0 names)"

definition name_matches :: "string \<Rightarrow> nat \<Rightarrow> string \<Rightarrow> bool" where
  "name_matches val i name \<longleftrightarrow> to_lower (take (length name) (drop i val)) = to_lower name"

definition get_name :: "string \<Rightarrow> string list \<Rightarrow> nat \<Rightarrow> (int \<times> nat) js_result" where
  "get_name val names i =
     (case List.find (\<lambda>p. name_matches val i (snd p)) (sorted_names names) of
        Some (k, name) \<Rightarrow> Inr (int k + 1, i + length name)
      | None \<Rightarrow> Inl (Thrown (''Unknown name at position '' @ show_nat i)))"

definition check_literal :: "string \<Rightarrow> char \<Rightarrow> nat \<Rightarrow> nat js_result" where
  "check_literal val c i =
     (if i < length val \<and> val ! i = c then Inr (i + 1)
      else Inl (Thrown (''Unexpected literal at position '' @ show_nat i)))"

definition set_from_time :: "zone \<Rightarrow> int \<Rightarrow> parse_state \<Rightarrow> parse_state" where
  "set_from_time z t st =
     st\<lparr>p_year := get_full_year z t, p_month := get_month z t + 1, p_day := get_date z t\<rparr>"

text \<open>One switch case of the loop: the token \<open>c\<close>, the rest of the format behind it.\<close>

definition parse_token ::
  "zone \<Rightarrow> format_config \<Rightarrow> string \<Rightarrow> char \<Rightarrow> string \<Rightarrow> parse_state \<Rightarrow> (string \<times> bool \<times> parse_state) js_result" where
  "parse_token z cfg val c cs st =
     (let (doubled, rest) = look_ahead c cs; i = i_value st in
      if c = CHR ''d'' then
        js_bind (get_number val c doubled i) (\<lambda>(n, j). Inr (rest, False, st\<lparr>p_day := n, i_value := j\<rparr>))
      else if c = CHR ''D'' then
        js_bind (get_name val (if doubled then day_names cfg else day_names_short cfg) i)
          (\<lambda>(n, j). Inr (rest, False, st\<lparr>i_value := j\<rparr>))
      else if c = CHR ''o'' then
        js_bind (get_number val c doubled i) (\<lambda>(n, j). Inr (rest, False, st\<lparr>p_doy := n, i_value := j\<rparr>))
      else if c = CHR ''m'' then
        js_bind (get_number val c doubled i) (\<lambda>(n, j). Inr (rest, False, st\<lparr>p_month := n, i_value := j\<rparr>))
      else if c = CHR ''M'' then
        js_bind (get_name val (if doubled then month_names cfg else month_names_short cfg) i)
          (\<lambda>(n, j). Inr (rest, False, st\<lparr>p_month := n, i_value := j\<rparr>))
      else if c = CHR ''y'' then
        js_bind (get_number val c doubled i) (\<lambda>(n, j). Inr (rest, False, st\<lparr>p_year := n, i_value := j\<rparr>))
      else if c = CHR ''@'' then
        js_bind (get_number val c doubled i)
          (\<lambda>(n, j). Inr (rest, False, (set_from_time z n st)\<lparr>i_value := j\<rparr>))
      else if c = CHR ''!'' then
        js_bind (get_number val c doubled i)
          (\<lambda>(n, j). Inr (rest, False, (set_from_time z (js_trunc_div (n - ticks_to_1970) 10000) st)\<lparr>i_value := j\<rparr>))
      else if c = CHR 0x27 then
        (if doubled then js_bind (check_literal val c i) (\<lambda>j. Inr (rest, False, st\<lparr>i_value := j\<rparr>))
         else Inr (cs, True, st))
      else js_bind (check_literal val c i) (\<lambda>j. Inr (cs, False, st\<lparr>i_value := j\<rparr>)))"

text \<open>Inside quotes: a quote ends them unless it is doubled, anything else stands for itself.\<close>

definition parse_quoted ::
  "string \<Rightarrow> char \<Rightarrow> string \<Rightarrow> parse_state \<Rightarrow> (string \<times> bool \<times> parse_state) js_result" where
  "parse_quoted val c cs st =
     (let (doubled, rest) = (if c = CHR 0x27 then look_ahead c cs else (True, cs)) in
      if c = CHR 0x27 \<and> \<not> doubled then Inr (cs, False, st)
      else js_bind (check_literal val c (i_value st)) (\<lambda>j. Inr (rest, True, st\<lparr>i_value := j\<rparr>)))"

lemma look_ahead_length: "length (snd (look_ahead m fmt)) \<le> length fmt"
  by (simp add: look_ahead_def split: list.split)

lemma look_ahead_shorter: "look_ahead m fmt = (b, rest) \<Longrightarrow> length rest \<le> length fmt"
  using look_ahead_length [of m fmt] by simp

lemma parse_token_shorter: "parse_token z cfg val c cs st = Inr (rest, lit, st') \<Longrightarrow> length rest \<le> length cs"
  by (auto simp: parse_token_def Let_def js_bind_Inr_iff dest: look_ahead_shorter split: prod.splits if_splits)

lemma parse_quoted_shorter: "parse_quoted val c cs st = Inr (rest, lit, st') \<Longrightarrow> length rest \<le> length cs"
  by (auto simp: parse_quoted_def Let_def js_bind_Inr_iff dest: look_ahead_shorter split: prod.splits if_splits)

function parse_loop :: "zone \<Rightarrow> format_config \<Rightarrow> string \<Rightarrow> string \<Rightarrow> bool \<Rightarrow> parse_state \<Rightarrow> parse_state js_result" where
  "parse_loop z cfg val [] literal st = Inr st"
| "parse_loop z cfg val (c # cs) literal st =
     (case (if literal then parse_quoted val c cs st else parse_token z cfg val c cs st) of
        Inl e \<Rightarrow> Inl e
      | Inr (rest, literal', st') \<Rightarrow> parse_loop z cfg val rest literal' st')"
  by pat_completeness auto
termination
  by (relation "measure (\<lambda>(z, cfg, val, fmt, literal, st). length fmt)")
    (auto simp: less_Suc_eq_le split: if_splits dest: parse_token_shorter parse_quoted_shorter)

text \<open>A year of the current century, or of the one before when past the cut-off.\<close>

definition adjust_year :: "zone \<Rightarrow> int \<Rightarrow> int option \<Rightarrow> int \<Rightarrow> int" where
  "adjust_year z now limit year =
     (if year = -1 then get_full_year z now
      else if year < 100 then
        year + (get_full_year z now - js_rem (get_full_year z now) 100) +
        (case limit of Some c \<Rightarrow> if year \<le> c then 0 else -100 | None \<Rightarrow> -100)
      else year)"

lemma get_days_in_month_pos: "1 \<le> get_days_in_month z year month"
  using local_fields_range(4) [of z "daylight_saving_adjust z (new_date z year month 32)"]
  by (simp add: get_days_in_month_def)

text \<open>The month and date of a day of the year.\<close>

function doy_loop :: "zone \<Rightarrow> int \<Rightarrow> int \<Rightarrow> int \<Rightarrow> int \<times> int" where
  "doy_loop z year month day =
     (if day \<le> get_days_in_month z year (month - 1) then (month, day)
      else doy_loop z year (month + 1) (day - get_days_in_month z year (month - 1)))"
  by pat_completeness auto
termination
proof (relation "measure (\<lambda>(z, year, month, day). nat day)")
  fix z year month and day :: int
  assume "\<not> day \<le> get_days_in_month z year (month - 1)"
  then show "((z, year, month + 1, day - get_days_in_month z year (month - 1)), (z, year, month, day))
      \<in> measure (\<lambda>(z, year, month, day). nat day)"
    using get_days_in_month_pos [of z year "month - 1"] by simp
qed simp

declare doy_loop.simps [simp del]

definition finish_parse :: "zone \<Rightarrow> int \<Rightarrow> int option \<Rightarrow> parse_state \<Rightarrow> int js_result" where
  "finish_parse z now limit st =
     (let year = adjust_year z now limit (p_year st);
          (month, day) = (if p_doy st > -1 then doy_loop z year 1 (p_doy st) else (p_month st, p_day st));
          date = daylight_saving_adjust z (new_date z year (month - 1) day)
      in if get_full_year z date \<noteq> year \<or> get_month z date + 1 \<noteq> month \<or> get_date z date \<noteq> day
         then Inl (Thrown ''Invalid date'') else Inr date)"

definition parse_start :: parse_state where
  "parse_start = \<lparr>i_value = 0, p_year = -1, p_month = -1, p_day = -1, p_doy = -1\<rparr>"

text \<open>\<open>parseDate\<close>; \<open>Inr None\<close> is its \<open>null\<close>, a missing argument is \<open>None\<close>.\<close>

definition parse_date ::
  "zone \<Rightarrow> int \<Rightarrow> string option \<Rightarrow> string option \<Rightarrow> format_settings option \<Rightarrow> int option js_result" where
  "parse_date z now fmt val settings =
     (case (fmt, val) of
        (Some f, Some v) \<Rightarrow>
          if v = [] then Inr None
          else (let cfg = resolve_config settings; limit = cutoff_value z now (cfg_cutoff cfg) in
            js_bind (parse_loop z cfg v f False parse_start) (\<lambda>st.
              if i_value st < length v
              then Inl (Thrown (''Extra/unparsed characters found in date: '' @ drop (i_value st) v))
              else js_bind (finish_parse z now limit st) (\<lambda>t. Inr (Some t))))
      | _ \<Rightarrow> Inl (Thrown ''Invalid arguments''))"

section \<open>Writing a date\<close>

definition format_number :: "bool \<Rightarrow> int \<Rightarrow> nat \<Rightarrow> string" where
  "format_number doubled n len = (if doubled then pad_zero len (show_int n) else show_int n)"

text \<open>An index past the names reads \<open>undefined\<close>.\<close>

definition name_at :: "string list \<Rightarrow> int \<Rightarrow> string" where
  "name_at names k = (if 0 \<le> k \<and> nat k < length names then names ! nat k else ''undefined'')"

definition day_of_year :: "zone \<Rightarrow> int \<Rightarrow> int" where
  "day_of_year z t =
     js_round_div (new_date z (get_full_year z t) (get_month z t) (get_date z t) - new_date z (get_full_year z t) 0 0)
       86400000"

text \<open>\<open>getYear () % 100\<close> with a zero in front when it is below 10.\<close>

definition short_year :: "zone \<Rightarrow> int \<Rightarrow> string" where
  "short_year z t =
     (let yy = js_rem (get_full_year z t - 1900) 100 in (if yy < 10 then ''0'' else []) @ show_int yy)"

definition format_token :: "zone \<Rightarrow> format_config \<Rightarrow> int \<Rightarrow> char \<Rightarrow> string \<Rightarrow> string \<times> string \<times> bool" where
  "format_token z cfg t c cs =
     (let (doubled, rest) = look_ahead c cs in
      if c = CHR ''d'' then (format_number doubled (get_date z t) 2, rest, False)
      else if c = CHR ''D'' then
        (name_at (if doubled then day_names cfg else day_names_short cfg) (get_day z t), rest, False)
      else if c = CHR ''o'' then (format_number doubled (day_of_year z t) 3, rest, False)
      else if c = CHR ''m'' then (format_number doubled (get_month z t + 1) 2, rest, False)
      else if c = CHR ''M'' then
        (name_at (if doubled then month_names cfg else month_names_short cfg) (get_month z t), rest, False)
      else if c = CHR ''y'' then (if doubled then show_int (get_full_year z t) else short_year z t, rest, False)
      else if c = CHR ''@'' then (show_int t, cs, False)
      else if c = CHR ''!'' then (show_int (t * 10000 + ticks_to_1970), cs, False)
      else if c = CHR 0x27 then (if doubled then ([c], rest, False) else ([], cs, True))
      else ([c], cs, False))"

definition format_quoted :: "char \<Rightarrow> string \<Rightarrow> string \<times> string \<times> bool" where
  "format_quoted c cs =
     (let (doubled, rest) = (if c = CHR 0x27 then look_ahead c cs else (True, cs)) in
      if c = CHR 0x27 \<and> \<not> doubled then ([], cs, False) else ([c], rest, True))"

lemma format_token_shorter: "format_token z cfg t c cs = (out, rest, lit) \<Longrightarrow> length rest \<le> length cs"
  by (auto simp: format_token_def Let_def dest: look_ahead_shorter split: prod.splits if_splits)

lemma format_quoted_shorter: "format_quoted c cs = (out, rest, lit) \<Longrightarrow> length rest \<le> length cs"
  by (auto simp: format_quoted_def Let_def dest: look_ahead_shorter split: prod.splits if_splits)

function format_loop :: "zone \<Rightarrow> format_config \<Rightarrow> int \<Rightarrow> string \<Rightarrow> bool \<Rightarrow> string" where
  "format_loop z cfg t [] literal = []"
| "format_loop z cfg t (c # cs) literal =
     (case (if literal then format_quoted c cs else format_token z cfg t c cs) of
        (out, rest, literal') \<Rightarrow> out @ format_loop z cfg t rest literal')"
  by pat_completeness auto
termination
  by (relation "measure (\<lambda>(z, cfg, t, fmt, literal). length fmt)")
    (auto simp: less_Suc_eq_le split: if_splits dest: format_token_shorter [OF sym] format_quoted_shorter [OF sym])

definition format_date :: "zone \<Rightarrow> string \<Rightarrow> int option \<Rightarrow> format_settings option \<Rightarrow> string" where
  "format_date z fmt date settings =
     (case date of None \<Rightarrow> [] | Some t \<Rightarrow> format_loop z (resolve_config settings) t fmt False)"

section \<open>The characters of a format\<close>

text \<open>\<open>_possibleChars\<close>: \<open>None\<close> accepts anything.\<close>

function possible_chars_loop :: "string \<Rightarrow> bool \<Rightarrow> string \<Rightarrow> string option" where
  "possible_chars_loop [] literal chars = Some chars"
| "possible_chars_loop (c # cs) literal chars =
     (if literal then
        (if c = CHR 0x27 \<and> \<not> fst (look_ahead c cs) then possible_chars_loop cs False chars
         else possible_chars_loop (if c = CHR 0x27 then snd (look_ahead c cs) else cs) True (chars @ [c]))
      else if c \<in> set ''dmy@'' then possible_chars_loop cs False (chars @ ''0123456789'')
      else if c \<in> set ''DM'' then None
      else if c = CHR 0x27 then
        (if fst (look_ahead c cs) then possible_chars_loop (snd (look_ahead c cs)) False (chars @ [c])
         else possible_chars_loop cs True chars)
      else possible_chars_loop cs False (chars @ [c]))"
  by pat_completeness auto
termination
  by (relation "measure (\<lambda>(fmt, literal, chars). length fmt)") (auto simp: less_Suc_eq_le look_ahead_length)

definition possible_chars :: "string \<Rightarrow> string option" where
  "possible_chars fmt = possible_chars_loop fmt False []"

section \<open>Midnights\<close>

text \<open>
  \<open>midnight z D\<close> is the time value the picker uses for local day \<open>D\<close>: midnight, or one
  hour past it where midnight does not exist.
\<close>

definition midnight :: "zone \<Rightarrow> int \<Rightarrow> int" where
  "midnight z d = daylight_saving_adjust z (utc z (d * ms_per_day))"

lemma adjust_new_date: "daylight_saving_adjust z (new_date z y m d) = midnight z (make_day (full_year y) m d)"
  by (simp add: midnight_def new_date_def)

lemma div_eq_nearby: "0 < (k::int) \<Longrightarrow> 0 \<le> e \<Longrightarrow> e < k \<Longrightarrow> (d * k + e) div k = d \<and> (d * k + e) mod k = e"
  by (simp add: div_pos_pos_trivial)

lemma div_eq_before: "0 < (k::int) \<Longrightarrow> 0 < e \<Longrightarrow> e \<le> k \<Longrightarrow> (d * k - e) div k = d - 1 \<and> (d * k - e) mod k = k - e"
proof -
  assume *: "0 < k" "0 < e" "e \<le> k"
  have "d * k - e = (d - 1) * k + (k - e)" by (simp add: algebra_simps)
  moreover from div_eq_nearby [of k "k - e" "d - 1"] *
  have "((d - 1) * k + (k - e)) div k = d - 1 \<and> ((d - 1) * k + (k - e)) mod k = k - e" by linarith
  ultimately show ?thesis by (simp only:)
qed

text \<open>The instant chosen for a day, by cases on what the zone does around midnight.\<close>

lemma local_time_midnight:
  assumes "zone_ok z"
  obtains e where "local_time z (midnight z d) = d * ms_per_day + e"
    and "0 \<le> e" "e \<le> 2 * ms_per_hour"
proof -
  obtain h where h: "0 \<le> h" "h \<le> ms_per_hour" "\<And>t. dst z t = 0 \<or> dst z t = h"
    using assms by (auto simp: zone_ok_def)
  define L where "L = d * ms_per_day"
  define u where "u = L - tza z"
  let ?t = "utc z L"
  have t: "?t = u - dst z u" by (simp add: utc_def u_def)
  have loc: "local_time z ?t = L - dst z u + dst z (u - dst z u)"
    by (simp add: local_time_utc u_def)
  have hour: "ms_per_day = 24 * ms_per_hour" "0 < ms_per_hour" by (simp_all add: ms_per_day_def ms_per_hour_def)
  show thesis
  proof (cases "dst z u = 0 \<or> dst z (u - dst z u) = h")
    case True
    then have same: "local_time z ?t = L" using loc h(3) [of u] by auto
    then have "get_hours z ?t = 0" "local_day z ?t = d" "local_ms z ?t = 0"
      using hour by (simp_all add: get_hours_def local_ms_def local_day_def L_def)
    then have "daylight_saving_adjust z ?t = ?t"
      by (simp add: daylight_saving_adjust_def set_hours_def L_def)
    with same hour(2) show thesis by (intro that [of 0]) (simp_all add: midnight_def L_def)
  next
    case False
    then have dst: "dst z u = h" "dst z (u - h) = 0" "0 < h" using h(3) [of u] h(3) [of "u - h"] h(1) by auto
    then have before: "local_time z ?t = L - h" using loc by simp
    then have "local_day z ?t = d - 1" "local_ms z ?t = ms_per_day - h"
      using div_eq_before [of ms_per_day h d] dst(3) h(2) hour by (simp_all add: local_day_def local_ms_def L_def)
    moreover from this have "local_ms z ?t = 23 * ms_per_hour + (ms_per_hour - h)"
      using hour by simp
    then have "get_hours z ?t = 23" "local_ms z ?t mod ms_per_hour = ms_per_hour - h"
      using div_eq_nearby [of ms_per_hour "ms_per_hour - h" 23] dst(3) h(2) hour(2)
      by (simp_all only: get_hours_def)
    ultimately have adj: "daylight_saving_adjust z ?t = utc z ((d - 1) * ms_per_day + 25 * ms_per_hour + (ms_per_hour - h))"
      by (simp add: daylight_saving_adjust_def set_hours_def)
    have "(d - 1) * ms_per_day + 25 * ms_per_hour + (ms_per_hour - h) = L + (2 * ms_per_hour - h)"
      using hour by (simp add: L_def algebra_simps)
    with adj have "daylight_saving_adjust z ?t = utc z (L + (2 * ms_per_hour - h))"
      by (simp only:)
    moreover define v where "v = u + (2 * ms_per_hour - h)"
    ultimately have "local_time z (daylight_saving_adjust z ?t) =
        L + (2 * ms_per_hour - h - dst z v + dst z (v - dst z v))"
      by (simp add: local_time_utc v_def u_def algebra_simps)
    then have loc': "local_time z (midnight z d) = d * ms_per_day +
        (2 * ms_per_hour - h - dst z v + dst z (v - dst z v))"
      by (simp add: midnight_def L_def)
    have range: "0 \<le> dst z x" "dst z x \<le> h" for x using h(1) h(3) [of x] by auto
    have lo: "0 \<le> 2 * ms_per_hour - h - dst z v + dst z (v - dst z v)"
      using range(2) [of v] range(1) [of "v - dst z v"] h(2) by linarith
    have hi: "2 * ms_per_hour - h - dst z v + dst z (v - dst z v) \<le> 2 * ms_per_hour"
      using range(2) [of "v - dst z v"] range(1) [of v] by linarith
    show thesis by (rule that [OF loc' lo hi])
  qed
qed

end
