(* ===== verification/Dp_Dates.thy ===== *)
theory Dp_Dates
  imports Dp_Format
begin

text \<open>
  What the date arithmetic of the picker computes: the chosen instants lie on the right local
  days, in order; the month lengths, the day of the year and the week numbers are those of the
  calendar.
\<close>

section \<open>Midnights lie on their days, in order\<close>

lemma local_day_midnight [js_simps]:
  assumes "zone_ok z"
  shows "local_day z (midnight z d) = d"
proof -
  obtain e where "local_time z (midnight z d) = d * ms_per_day + e" "0 \<le> e" "e \<le> 2 * ms_per_hour"
    using local_time_midnight [OF assms] .
  then show ?thesis
    using div_eq_nearby [of ms_per_day e d] by (simp add: local_day_def ms_per_day_def ms_per_hour_def)
qed

lemma zone_ok_dst: "zone_ok z \<Longrightarrow> 0 \<le> dst z t \<and> dst z t \<le> ms_per_hour"
  by (auto simp: zone_ok_def) (metis le_numeral_extra(3) order_trans)+

lemma midnight_bounds:
  assumes "zone_ok z"
  shows "d * ms_per_day - tza z - ms_per_hour \<le> midnight z d"
    and "midnight z d \<le> d * ms_per_day - tza z + 2 * ms_per_hour"
proof -
  obtain e where "local_time z (midnight z d) = d * ms_per_day + e" "0 \<le> e" "e \<le> 2 * ms_per_hour"
    using local_time_midnight [OF assms] .
  with zone_ok_dst [OF assms, of "midnight z d"]
  show "d * ms_per_day - tza z - ms_per_hour \<le> midnight z d"
    and "midnight z d \<le> d * ms_per_day - tza z + 2 * ms_per_hour"
    by (simp_all add: local_time_def)
qed

lemma midnight_mono:
  assumes "zone_ok z" and "d < d'"
  shows "midnight z d < midnight z d'"
proof -
  have "(d + 1) * ms_per_day \<le> d' * ms_per_day"
    using assms(2) by (intro mult_right_mono) (simp_all add: ms_per_day_def)
  then show ?thesis
    using midnight_bounds(2) [OF assms(1), of d] midnight_bounds(1) [OF assms(1), of d']
    by (simp add: ms_per_day_def ms_per_hour_def)
qed

lemma midnight_le_iff [js_simps]: "zone_ok z \<Longrightarrow> midnight z d \<le> midnight z d' \<longleftrightarrow> d \<le> d'"
  using midnight_mono [of z d d'] midnight_mono [of z d' d] by (cases d d' rule: linorder_cases) auto

lemma midnight_less_iff [js_simps]: "zone_ok z \<Longrightarrow> midnight z d < midnight z d' \<longleftrightarrow> d < d'"
  using midnight_le_iff [of z d' d] by (simp add: not_le [symmetric])

lemma midnight_eq_iff [js_simps]: "zone_ok z \<Longrightarrow> midnight z d = midnight z d' \<longleftrightarrow> d = d'"
  using midnight_le_iff [of z d d'] midnight_le_iff [of z d' d] by auto

lemma midnight_fields [js_simps]:
  assumes "zone_ok z"
  shows "get_full_year z (midnight z d) = year_from_day d" "get_month z (midnight z d) = month_of_day d"
    "get_date z (midnight z d) = date_of_day d" "get_day z (midnight z d) = weekday d"
  using assms by (simp_all add: get_full_year_def get_month_def get_date_def get_day_def js_simps)

lemma fields_local_day: "make_day (get_full_year z t) (get_month z t) (get_date z t) = local_day z t"
  by (simp add: get_full_year_def get_month_def get_date_def)

section \<open>The length of a month\<close>

lemma get_days_in_month_calendar:
  assumes "zone_ok z"
  shows "get_days_in_month z y m = days_in_month (full_year y + m div 12) (m mod 12)"
proof -
  let ?n = "days_in_month (full_year y + m div 12) (m mod 12)"
  let ?y = "full_year y + (m + 1) div 12" and ?m = "(m + 1) mod 12"
  have n: "28 \<le> ?n" "?n \<le> 31" using days_in_month_cases [of "m mod 12"] by simp_all
  have "28 \<le> days_in_month ?y ?m" using days_in_month_cases [of ?m ?y] by simp
  moreover have "make_day (full_year y) m 32 = make_day ?y ?m (32 - ?n)"
    using make_day_next_month [of "full_year y" m] make_day_date [of "full_year y" m 32]
      make_day_date [of ?y ?m "32 - ?n"] make_day_norm [of "full_year y" "m + 1" 1] by simp
  ultimately have "date_of_day (make_day (full_year y) m 32) = 32 - ?n"
    using civil_make_day(3) [of ?m "32 - ?n" ?y] n by simp
  then show ?thesis
    by (simp add: get_days_in_month_def adjust_new_date midnight_fields assms)
qed

section \<open>The day of the year\<close>

lemma new_date_near:
  assumes "zone_ok z"
  obtains e where "new_date z y m d = make_day (full_year y) m d * ms_per_day - tza z - e"
    and "0 \<le> e" "e \<le> ms_per_hour"
  using zone_ok_dst [OF assms] by (intro that) (auto simp: new_date_def utc_def)

lemma day_of_year_correct:
  assumes "zone_ok z" and "get_full_year z t \<notin> {0..99}"
  shows "day_of_year z t = local_day z t - day_from_year (get_full_year z t) + 1"
proof -
  let ?y = "get_full_year z t"
  have y: "full_year ?y = ?y" using assms(2) by (auto simp: full_year_def)
  obtain e where e: "new_date z ?y (get_month z t) (get_date z t) = local_day z t * ms_per_day - tza z - e"
    "0 \<le> e" "e \<le> ms_per_hour"
    using new_date_near [OF assms(1), of ?y "get_month z t" "get_date z t"] y by (metis fields_local_day)
  obtain e' where e': "new_date z ?y 0 0 = make_day ?y 0 0 * ms_per_day - tza z - e'"
    "0 \<le> e'" "e' \<le> ms_per_hour"
    using new_date_near [OF assms(1), of ?y 0 0] y by metis
  have "make_day ?y 0 0 = day_from_year ?y - 1" by (simp add: make_day_def)
  then have "new_date z ?y (get_month z t) (get_date z t) - new_date z ?y 0 0 =
      (local_day z t - day_from_year ?y + 1) * 86400000 + (e' - e)"
    using e(1) e'(1) by (simp add: ms_per_day_def algebra_simps)
  moreover have "2 * \<bar>e' - e\<bar> < 86400000" using e(2,3) e'(2,3) by (simp add: ms_per_hour_def)
  ultimately show ?thesis
    using js_round_div_near [of 86400000 "e' - e" "local_day z t - day_from_year ?y + 1"]
    by (simp add: day_of_year_def)
qed

lemma day_of_year_range:
  assumes "zone_ok z" and "get_full_year z t \<notin> {0..99}"
  shows "1 \<le> day_of_year z t" "day_of_year z t \<le> 366"
  using year_from_day_bounds [of "local_day z t"] day_from_year_Suc [of "get_full_year z t"]
  by (simp_all add: day_of_year_correct [OF assms] get_full_year_def split: if_splits)

text \<open>The loop of \<open>parseDate\<close> finds the month and date that a day number runs over to.\<close>

lemma doy_loop_correct:
  assumes "zone_ok z" and "1 \<le> k" and "doy_loop z y m k = (m', d')"
  shows "make_day (full_year y) (m' - 1) d' = make_day (full_year y) (m - 1) k \<and> m \<le> m' \<and> 1 \<le> d' \<and>
    d' \<le> days_in_month (full_year y + (m' - 1) div 12) ((m' - 1) mod 12)"
  using assms
proof (induction z y m k rule: doy_loop.induct)
  case (1 z y m k)
  let ?n = "get_days_in_month z y (m - 1)"
  have n: "?n = days_in_month (full_year y + (m - 1) div 12) ((m - 1) mod 12)"
    by (rule get_days_in_month_calendar) (rule 1)
  show ?case
  proof (cases "k \<le> ?n")
    case True
    then have "m' = m" "d' = k" using 1(4) by (simp_all add: doy_loop.simps [of z y m k])
    with True 1(3) n show ?thesis by simp
  next
    case False
    then have "doy_loop z y (m + 1) (k - ?n) = (m', d')"
      using 1(4) by (subst (asm) doy_loop.simps) simp
    with False 1(1,2) have IH: "make_day (full_year y) (m' - 1) d' = make_day (full_year y) (m + 1 - 1) (k - ?n)"
      "m + 1 \<le> m'" "1 \<le> d'" "d' \<le> days_in_month (full_year y + (m' - 1) div 12) ((m' - 1) mod 12)"
      by auto
    have "make_day (full_year y) m (k - ?n) = make_day (full_year y) (m - 1) k"
      using make_day_next_month [of "full_year y" "m - 1"] make_day_date [of "full_year y" m "k - ?n"]
        make_day_date [of "full_year y" "m - 1" k] n by simp
    with IH show ?thesis by simp
  qed
qed

lemma doy_loop_day_of_year:
  assumes z: "zone_ok z" and y: "get_full_year z t \<notin> {0..99}"
  shows "doy_loop z (get_full_year z t) 1 (day_of_year z t) = (get_month z t + 1, get_date z t)"
proof -
  let ?y = "get_full_year z t"
  obtain m d where md: "doy_loop z ?y 1 (day_of_year z t) = (m, d)" by force
  have fy: "full_year ?y = ?y" using y by (auto simp: full_year_def)
  have loop: "make_day ?y (m - 1) d = make_day ?y 0 (day_of_year z t)" "1 \<le> m" "1 \<le> d"
    "d \<le> days_in_month (?y + (m - 1) div 12) ((m - 1) mod 12)"
    using doy_loop_correct [OF z day_of_year_range(1) [OF z y] md] fy by simp_all
  have day: "make_day ?y 0 (day_of_year z t) = local_day z t"
    by (simp add: day_of_year_correct [OF z y] make_day_def)
  let ?y' = "?y + (m - 1) div 12" and ?m' = "(m - 1) mod 12"
  have eq: "make_day ?y' ?m' d = local_day z t" using loop(1) day make_day_norm [of ?y "m - 1" d] by simp
  have "year_from_day (local_day z t) = ?y'" "month_of_day (local_day z t) = ?m'" "date_of_day (local_day z t) = d"
    using civil_make_day [of ?m' d ?y'] loop(3,4) by (simp_all add: eq)
  then have "?y = ?y'" "get_month z t = ?m'" "get_date z t = d"
    by (simp_all only: get_full_year_def get_month_def get_date_def)
  moreover from this have "m - 1 = ?m'" using mult_div_mod_eq [of 12 "m - 1"] by simp
  ultimately show ?thesis by (simp add: md)
qed

section \<open>Week numbers\<close>

text \<open>The Monday that starts the week of a day.\<close>

definition week_monday :: "int \<Rightarrow> int" where
  "week_monday d = d - (d + 3) mod 7"

text \<open>No local midnight falls in a gap of the zone.\<close>

definition midnights_exist :: "zone \<Rightarrow> bool" where
  "midnights_exist z \<longleftrightarrow> (\<forall>d. local_time z (utc z (d * ms_per_day)) = d * ms_per_day)"

lemma midnight_exists:
  assumes "midnights_exist z"
  shows "local_day z (utc z (d * ms_per_day)) = d" "local_ms z (utc z (d * ms_per_day)) = 0"
    "midnight z d = utc z (d * ms_per_day)"
proof -
  have "local_time z (utc z (d * ms_per_day)) = d * ms_per_day"
    using assms by (simp add: midnights_exist_def)
  then show *: "local_day z (utc z (d * ms_per_day)) = d" "local_ms z (utc z (d * ms_per_day)) = 0"
    by (simp_all add: local_day_def local_ms_def ms_per_day_def)
  then show "midnight z d = utc z (d * ms_per_day)"
    by (simp add: midnight_def daylight_saving_adjust_def set_hours_def get_hours_def)
qed

lemma set_date_midnight:
  assumes "midnights_exist z"
  shows "set_date z k (midnight z d) = midnight z (make_day (year_from_day d) (month_of_day d) k)"
    and "set_month z k (midnight z d) = midnight z (make_day (year_from_day d) k (date_of_day d))"
  by (simp_all add: set_date_def set_month_def midnight_exists [OF assms] get_full_year_def get_month_def get_date_def)

lemma thursday_of_week: "d + 4 - (if weekday d = 0 then 7 else weekday d) = week_monday d + 3"
proof -
  define q r where "q = (d + 3) div 7" and "r = (d + 3) mod 7"
  have d: "d + 3 = 7 * q + r" and r: "0 \<le> r" "r < 7" by (simp_all add: q_def r_def)
  have "(d + 4) mod 7 = (if r = 6 then 0 else r + 1)"
  proof (cases "r = 6")
    case True
    with d have "d + 4 = 7 * (q + 1) + 0" by simp
    then have "(d + 4) mod 7 = 0" by (rule int_mod_pos_eq) simp_all
    with True show ?thesis by simp
  next
    case False
    with d r have "d + 4 = 7 * q + (r + 1)" "0 \<le> r + 1" "r + 1 < 7" by simp_all
    then have "(d + 4) mod 7 = r + 1" by (rule int_mod_pos_eq)
    with False show ?thesis by simp
  qed
  then show ?thesis using r by (simp add: weekday_def week_monday_def r_def [symmetric])
qed

lemma midnight_days_apart:
  assumes "zone_ok z" and "midnights_exist z"
  shows "js_round_div (midnight z a - midnight z b) 86400000 = a - b"
proof -
  let ?e = "dst z (b * ms_per_day - tza z) - dst z (a * ms_per_day - tza z)"
  have "midnight z a - midnight z b = (a - b) * 86400000 + ?e"
    by (simp add: midnight_exists(3) [OF assms(2)] utc_def) (simp add: ms_per_day_def algebra_simps)
  moreover have "2 * \<bar>?e\<bar> < 86400000"
    using zone_ok_dst [OF assms(1), of "b * ms_per_day - tza z"] zone_ok_dst [OF assms(1), of "a * ms_per_day - tza z"]
    unfolding ms_per_hour_def by arith
  ultimately show ?thesis using js_round_div_near [of 86400000 ?e "a - b"] by (simp only: zero_less_numeral)
qed

lemma iso8601_week_closed:
  assumes "zone_ok z" and exist: "midnights_exist z"
  shows "iso8601_week z (midnight z d) =
    (week_monday d + 3 - day_from_year (year_from_day (week_monday d + 3))) div 7 + 1"
proof -
  let ?th = "week_monday d + 3"
  let ?y = "year_from_day ?th"
  have fields: "get_date z (midnight z x) = date_of_day x" "get_day z (midnight z x) = weekday x" for x
    by (simp_all add: get_date_def get_day_def midnight_exists [OF exist])
  have "make_day (year_from_day d) (month_of_day d) (date_of_day d + k) = d + k" for k
    using make_day_date [of "year_from_day d" "month_of_day d" "date_of_day d + k"]
      make_day_date [of "year_from_day d" "month_of_day d" "date_of_day d"] by simp
  from this [of "4 - (if weekday d = 0 then 7 else weekday d)"]
  have check: "set_date z (date_of_day d + 4 - (if weekday d = 0 then 7 else weekday d)) (midnight z d) = midnight z ?th"
    unfolding set_date_midnight [OF exist] thursday_of_week [symmetric] by (simp only: add_diff_eq)
  let ?j = "make_day ?y 0 (date_of_day ?th)"
  have dt: "1 \<le> date_of_day ?th" "date_of_day ?th \<le> days_in_month ?y 0"
    using civil_range(5) [of ?th] by (simp_all add: days_in_month_def)
  have "set_date z 1 (set_month z 0 (midnight z ?th)) = midnight z (day_from_year ?y)"
    using civil_make_day [of 0 "date_of_day ?th" ?y] dt
    by (simp add: set_date_midnight [OF exist]) (simp add: make_day_def)
  moreover have "js_round_div (midnight z ?th - midnight z (day_from_year ?y)) 86400000 = ?th - day_from_year ?y"
    by (rule midnight_days_apart [OF assms])
  ultimately show ?thesis
    unfolding iso8601_week_def Let_def fields check by (simp only:)
qed

section \<open>The properties\<close>

text \<open>\<open>_getDaysInMonth\<close> gives the length of the month in the Gregorian calendar, in every
  time zone that shifts by at most an hour and for months outside 0 to 11 too (they run into
  the neighbouring years); years 0 to 99 mean 1900 to 1999, as in \<open>new Date\<close>.\<close>

theorem days_in_month_correct:
  assumes "zone_ok z"
  shows "get_days_in_month z y m = days_in_month (full_year y + m div 12) (m mod 12)"
  by (rule get_days_in_month_calendar [OF assms])

theorem days_in_month_correct_witness: "get_days_in_month utc_zone 2000 1 = 29"
  using days_in_month_correct [OF utc_zone_ok, of 2000 1] by (simp add: full_year_def days_in_month_def leap_year_def)

text \<open>C8: \<open>iso8601Week\<close> numbers weeks as ISO 8601 defines them: the week belongs to the year
  \<open>y\<close> of its Thursday, and its Monday is \<open>w - 1\<close> weeks after the Monday of the week that
  holds the 4th of January of \<open>y\<close>; \<open>w\<close> is between 1 and 53.  (For zones in which every local
  midnight exists.)\<close>

theorem iso8601_week_correct:
  assumes "zone_ok z" and "midnights_exist z"
  defines "w \<equiv> \<lambda>d. iso8601_week z (midnight z d)"
  shows "week_monday d = week_monday (make_day (year_from_day (week_monday d + 3)) 0 4) + 7 * (w d - 1) \<and>
    1 \<le> w d \<and> w d \<le> 53"
proof -
  define y where "y = year_from_day (week_monday d + 3)"
  define j where "j = day_from_year y"
  define r where "r = week_monday d + 3 - j"
  have r: "0 \<le> r" "r < 366"
    using year_from_day_bounds [of "week_monday d + 3"] day_from_year_Suc [of y]
    by (simp_all add: r_def j_def y_def split: if_splits)
  have w: "w d = r div 7 + 1"
    unfolding w_def iso8601_week_closed [OF assms(1,2)] r_def j_def y_def ..
  have "week_monday d + 3 = 7 * ((d + 3) div 7)"
    unfolding week_monday_def using mult_div_mod_eq [of 7 "d + 3"] by linarith
  then have "j + 6 = 7 * ((d + 3) div 7 - r div 7) + (6 - r mod 7)"
    using mult_div_mod_eq [of 7 r] unfolding r_def by (simp add: algebra_simps)
  moreover have "0 \<le> 6 - r mod 7" "6 - r mod 7 < 7" using pos_mod_bound [of 7 r] by simp_all
  ultimately have "(j + 6) mod 7 = 6 - r mod 7" by (rule int_mod_pos_eq)
  moreover have "make_day y 0 4 = j + 3" by (simp add: make_day_def j_def)
  moreover have weeks: "b = j + 3 - (6 - m) \<Longrightarrow> 7 * q + m = r \<Longrightarrow> r = a + 3 - j \<Longrightarrow> a = b + 7 * (q + 1 - 1)" for a b m q
    by simp
  ultimately have "week_monday (make_day y 0 4) = j + 3 - (6 - r mod 7)"
    unfolding week_monday_def by (simp only: add.assoc) simp
  then have "week_monday d = week_monday (make_day y 0 4) + 7 * (w d - 1)"
    unfolding w by (rule weeks [OF _ mult_div_mod_eq [of 7 r] r_def])
  moreover have "0 \<le> r div 7" "r div 7 \<le> 52"
    using r zdiv_mono1 [of r 365 7] by (simp_all add: pos_imp_zdiv_nonneg_iff)
  ultimately show ?thesis by (simp add: w y_def)
qed

lemma utc_zone_midnights: "midnights_exist utc_zone"
  by (simp add: midnights_exist_def utc_zone_def local_time_def utc_def)

theorem iso8601_week_correct_witness:
  "zone_ok utc_zone \<and> midnights_exist utc_zone \<and> iso8601_week utc_zone (midnight utc_zone 14610) = 53"
proof -
  have "year_from_day 14609 = 2009" by (rule year_from_day_unique; simp add: day_from_year_def)
  moreover have "make_day 2009 0 4 = 14248" by (simp add: make_day_def day_from_year_def)
  ultimately show ?thesis
    using iso8601_week_correct [OF utc_zone_ok utc_zone_midnights, of 14610] utc_zone_ok utc_zone_midnights
    by (simp add: week_monday_def)
qed

end
