(* ===== verification/Dp_Roundtrip.thy ===== *)
theory Dp_Roundtrip
  imports Dp_Dates "HOL-Library.Sublist"
begin

text \<open>
  The formats as a language of tokens: \<open>formatDate\<close> writes a format token by token and
  \<open>parseDate\<close> reads it token by token, so that a readable format gives back the day it was
  written from.  Then what \<open>parseDate\<close> accepts at all.
\<close>

section \<open>Tokens\<close>

datatype field =
    FLit char
  | FDay bool
  | FDoy bool
  | FMonth bool
  | FYear bool
  | FDayName bool
  | FMonthName bool
  | FTicks bool
  | FWindows bool

fun field_of :: "char \<Rightarrow> bool \<Rightarrow> field" where
  "field_of c doubled =
     (if c = CHR ''d'' then FDay doubled
      else if c = CHR ''D'' then FDayName doubled
      else if c = CHR ''o'' then FDoy doubled
      else if c = CHR ''m'' then FMonth doubled
      else if c = CHR ''M'' then FMonthName doubled
      else if c = CHR ''y'' then FYear doubled
      else if c = CHR ''@'' then FTicks doubled
      else if c = CHR ''!'' then FWindows doubled
      else FLit c)"

definition is_token :: "char \<Rightarrow> bool" where
  "is_token c \<longleftrightarrow> c \<in> set ''dDomMy@!''"

function tokens :: "string \<Rightarrow> bool \<Rightarrow> field list" where
  "tokens [] literal = []"
| "tokens (c # cs) literal =
     (if c = CHR 0x27 then
        (if fst (look_ahead c cs) then FLit c # tokens (snd (look_ahead c cs)) literal
         else tokens cs (\<not> literal))
      else if literal \<or> \<not> is_token c then FLit c # tokens cs literal
      else field_of c (fst (look_ahead c cs)) # tokens (snd (look_ahead c cs)) literal)"
  by pat_completeness auto
termination
  by (relation "measure (\<lambda>(fmt, literal). length fmt)") (auto simp: less_Suc_eq_le look_ahead_length)

text \<open>What a token writes and what it reads.\<close>

fun write_field :: "zone \<Rightarrow> format_config \<Rightarrow> int \<Rightarrow> field \<Rightarrow> string" where
  "write_field z cfg t (FLit c) = [c]"
| "write_field z cfg t (FDay b) = format_number b (get_date z t) 2"
| "write_field z cfg t (FDoy b) = format_number b (day_of_year z t) 3"
| "write_field z cfg t (FMonth b) = format_number b (get_month z t + 1) 2"
| "write_field z cfg t (FYear b) = (if b then show_int (get_full_year z t) else short_year z t)"
| "write_field z cfg t (FDayName b) = name_at (if b then day_names cfg else day_names_short cfg) (get_day z t)"
| "write_field z cfg t (FMonthName b) = name_at (if b then month_names cfg else month_names_short cfg) (get_month z t)"
| "write_field z cfg t (FTicks b) = show_int t"
| "write_field z cfg t (FWindows b) = show_int (t * 10000 + ticks_to_1970)"

fun read_field :: "zone \<Rightarrow> format_config \<Rightarrow> string \<Rightarrow> field \<Rightarrow> parse_state \<Rightarrow> parse_state js_result" where
  "read_field z cfg val (FLit c) st =
     js_bind (check_literal val c (i_value st)) (\<lambda>j. Inr (st\<lparr>i_value := j\<rparr>))"
| "read_field z cfg val (FDay b) st =
     js_bind (get_number val (CHR ''d'') b (i_value st)) (\<lambda>(n, j). Inr (st\<lparr>p_day := n, i_value := j\<rparr>))"
| "read_field z cfg val (FDoy b) st =
     js_bind (get_number val (CHR ''o'') b (i_value st)) (\<lambda>(n, j). Inr (st\<lparr>p_doy := n, i_value := j\<rparr>))"
| "read_field z cfg val (FMonth b) st =
     js_bind (get_number val (CHR ''m'') b (i_value st)) (\<lambda>(n, j). Inr (st\<lparr>p_month := n, i_value := j\<rparr>))"
| "read_field z cfg val (FYear b) st =
     js_bind (get_number val (CHR ''y'') b (i_value st)) (\<lambda>(n, j). Inr (st\<lparr>p_year := n, i_value := j\<rparr>))"
| "read_field z cfg val (FDayName b) st =
     js_bind (get_name val (if b then day_names cfg else day_names_short cfg) (i_value st))
       (\<lambda>(n, j). Inr (st\<lparr>i_value := j\<rparr>))"
| "read_field z cfg val (FMonthName b) st =
     js_bind (get_name val (if b then month_names cfg else month_names_short cfg) (i_value st))
       (\<lambda>(n, j). Inr (st\<lparr>p_month := n, i_value := j\<rparr>))"
| "read_field z cfg val (FTicks b) st =
     js_bind (get_number val (CHR ''@'') b (i_value st))
       (\<lambda>(n, j). Inr ((set_from_time z n st)\<lparr>i_value := j\<rparr>))"
| "read_field z cfg val (FWindows b) st =
     js_bind (get_number val (CHR ''!'') b (i_value st))
       (\<lambda>(n, j). Inr ((set_from_time z (js_trunc_div (n - ticks_to_1970) 10000) st)\<lparr>i_value := j\<rparr>))"

fun read_fields :: "zone \<Rightarrow> format_config \<Rightarrow> string \<Rightarrow> field list \<Rightarrow> parse_state \<Rightarrow> parse_state js_result" where
  "read_fields z cfg val [] st = Inr st"
| "read_fields z cfg val (f # fs) st = js_bind (read_field z cfg val f st) (read_fields z cfg val fs)"

text \<open>A doubled \<open>@\<close> or \<open>!\<close> is one token to the reader and two to the writer.\<close>

fun single_ticks :: "field \<Rightarrow> bool" where
  "single_ticks (FTicks b) = (\<not> b)"
| "single_ticks (FWindows b) = (\<not> b)"
| "single_ticks f = True"

lemma look_ahead_single: "look_ahead c cs = (False, rest) \<Longrightarrow> rest = cs"
  by (auto simp: look_ahead_def split: list.splits if_splits)

lemma format_token_field:
  assumes "is_token c" and "single_ticks (field_of c (fst (look_ahead c cs)))"
  shows "format_token z cfg t c cs =
    (write_field z cfg t (field_of c (fst (look_ahead c cs))), snd (look_ahead c cs), False)"
  using assms by (cases "look_ahead c cs") (auto simp: format_token_def is_token_def dest: look_ahead_single)

lemma parse_token_field:
  assumes "is_token c"
  shows "parse_token z cfg val c cs st =
    js_bind (read_field z cfg val (field_of c (fst (look_ahead c cs))) st)
      (\<lambda>st'. Inr (snd (look_ahead c cs), False, st'))"
proof -
  have bind: "js_bind m (\<lambda>(n, j). Inr (r, False, f n j)) =
      js_bind (js_bind m (\<lambda>(n, j). Inr (f n j))) (\<lambda>st'. Inr (r, False, st'))"
    for m :: "(int \<times> nat) js_result" and r :: string and f :: "int \<Rightarrow> nat \<Rightarrow> parse_state"
    by (cases m) (simp_all add: split_def)
  from assms show ?thesis
    by (cases "look_ahead c cs") (auto simp: parse_token_def is_token_def bind)
qed

lemma format_loop_tokens:
  "list_all single_ticks (tokens fmt literal) \<Longrightarrow>
    format_loop z cfg t fmt literal = concat (map (write_field z cfg t) (tokens fmt literal))"
proof (induction fmt literal rule: tokens.induct)
  case (2 c cs literal)
  consider (quote) "c = CHR 0x27" | (lit) "c \<noteq> CHR 0x27" "literal \<or> \<not> is_token c" | (token) "c \<noteq> CHR 0x27" "\<not> literal" "is_token c"
    by blast
  then show ?case
  proof cases
    case quote
    then show ?thesis using 2
      by (cases "look_ahead c cs") (auto simp: format_quoted_def format_token_def)
  next
    case lit
    then show ?thesis using 2
      by (cases literal) (auto simp: format_quoted_def format_token_def is_token_def split: prod.splits)
  next
    case token
    then show ?thesis using 2 by (simp add: format_token_field del: field_of.simps)
  qed
qed simp

lemma parse_loop_tokens:
  "parse_loop z cfg val fmt literal st = read_fields z cfg val (tokens fmt literal) st"
proof (induction fmt literal arbitrary: st rule: tokens.induct)
  case (2 c cs literal)
  consider (quote) "c = CHR 0x27" | (lit) "c \<noteq> CHR 0x27" "literal \<or> \<not> is_token c" | (token) "c \<noteq> CHR 0x27" "\<not> literal" "is_token c"
    by blast
  then show ?case
  proof cases
    case quote
    then show ?thesis using 2
      by (cases "look_ahead c cs"; cases "check_literal val c (i_value st)")
        (auto simp: parse_quoted_def parse_token_def)
  next
    case lit
    then show ?thesis using 2
      by (cases literal; cases "check_literal val c (i_value st)")
        (auto simp: parse_quoted_def parse_token_def is_token_def split: prod.splits)
  next
    case token
    then show ?thesis using 2
      by (cases "read_field z cfg val (field_of c (fst (look_ahead c cs))) st")
        (simp_all add: parse_token_field del: field_of.simps)
  qed
qed simp

section \<open>Reading back what a token writes\<close>

text \<open>The text behind position \<open>i\<close> is \<open>w\<close>, then \<open>r\<close>.\<close>

lemma takeWhile_prefix:
  assumes "list_all P w" and "r = [] \<or> \<not> P (hd r)"
  shows "takeWhile P (w @ r) = w"
  using assms by (induction w) (auto simp: takeWhile_eq_Nil_iff)

lemma takeWhile_take_prefix:
  assumes "list_all P w" and "length w \<le> n" and "length w = n \<or> r = [] \<or> \<not> P (hd r)"
  shows "takeWhile P (take n (w @ r)) = w"
proof -
  have "take n (w @ r) = w @ take (n - length w) r" using assms(2) by simp
  moreover have "take (n - length w) r = [] \<or> \<not> P (hd (take (n - length w) r))"
    using assms(3) by (cases r; cases "n - length w") auto
  ultimately show ?thesis using takeWhile_prefix [OF assms(1)] by metis
qed

lemma get_number_reads:
  assumes "drop i val = w @ r" and "w \<noteq> []" and "list_all is_digit w" and "length w \<le> number_size m b"
    and "length w = number_size m b \<or> r = [] \<or> \<not> is_digit (hd r)"
  shows "get_number val m b i = Inr (int (parse_digits w), i + length w)"
  using takeWhile_take_prefix [OF assms(3-5)] assms(1,2) by (simp add: get_number_def)

lemma drop_literal:
  assumes "drop i val = c # r"
  shows "check_literal val c i = Inr (i + 1)"
  using assms by (cases "i < length val") (auto simp: check_literal_def dest: arg_cong [where f = hd] simp: hd_drop_conv_nth)

text \<open>Names can be told apart when none, up to case, is a prefix of another.\<close>

definition names_ok :: "string list \<Rightarrow> bool" where
  "names_ok names \<longleftrightarrow> (\<forall>i < length names. names ! i \<noteq> [] \<and> \<not> is_digit (hd (names ! i)) \<and>
     (\<forall>j < length names. i \<noteq> j \<longrightarrow> \<not> prefix (to_lower (names ! i)) (to_lower (names ! j))))"

lemma names_okD:
  assumes "names_ok names" and "i < length names"
  shows "names ! i \<noteq> []" "\<not> is_digit (hd (names ! i))"
    "\<And>j. j < length names \<Longrightarrow> i \<noteq> j \<Longrightarrow> \<not> prefix (to_lower (names ! i)) (to_lower (names ! j))"
  using assms by (auto simp: names_ok_def)

lemma set_sorted_names: "set (sorted_names names) = {(k, names ! k) |k. k < length names}"
  by (auto simp: sorted_names_def in_set_enumerate_eq)

lemma prefix_take_cases: "take (length x) (w @ r) = y \<Longrightarrow> prefix y w \<or> prefix w y"
  by (metis append_Nil2 append_take_drop_id prefix_def prefix_same_cases take_is_prefix)

lemma to_lower_prefix: "prefix x y \<Longrightarrow> prefix (to_lower x) (to_lower y)"
  by (auto simp: prefix_def)

lemma get_name_reads:
  assumes ok: "names_ok names" and k: "k < length names" and at: "drop i val = names ! k @ r"
  shows "get_name val names i = Inr (int k + 1, i + length (names ! k))"
proof -
  have unique: "j = k" if j: "j < length names" and m: "name_matches val i (names ! j)" for j
  proof (rule ccontr)
    assume "j \<noteq> k"
    from m have "to_lower (names ! j) = to_lower (take (length (names ! j)) (names ! k @ r))"
      by (simp add: name_matches_def at)
    moreover have "prefix (take (length (names ! j)) (names ! k @ r)) (names ! k) \<or>
        prefix (names ! k) (take (length (names ! j)) (names ! k @ r))"
      using prefix_take_cases by blast
    ultimately have "prefix (to_lower (names ! j)) (to_lower (names ! k)) \<or>
        prefix (to_lower (names ! k)) (to_lower (names ! j))"
      by (metis to_lower_prefix)
    then show False using names_okD(3) [OF ok j k] names_okD(3) [OF ok k j] \<open>j \<noteq> k\<close> by blast
  qed
  have self: "name_matches val i (names ! k)" by (simp add: name_matches_def at)
  have "List.find (\<lambda>p. name_matches val i (snd p)) (sorted_names names) = Some (k, names ! k)"
  proof (cases "List.find (\<lambda>p. name_matches val i (snd p)) (sorted_names names)")
    case None
    moreover have "(k, names ! k) \<in> set (sorted_names names)" using k by (auto simp: set_sorted_names)
    ultimately show ?thesis using self by (auto simp: find_None_iff)
  next
    case (Some p)
    then have "p \<in> set (sorted_names names)" "name_matches val i (snd p)"
      by (auto simp: find_Some_iff intro: nth_mem)
    with unique show ?thesis using Some by (auto simp: set_sorted_names)
  qed
  then show ?thesis by (simp add: get_name_def)
qed

lemma format_number_reads:
  assumes "0 \<le> n" and "n < 10 ^ k" and "0 < k"
  shows "list_all is_digit (format_number b n k)" "format_number b n k \<noteq> []"
    "int (parse_digits (format_number b n k)) = n" "length (format_number b n k) \<le> k"
    "b \<Longrightarrow> length (format_number b n k) = k"
proof -
  have shown: "show_int n = show_nat (nat n)" using assms(1) by (simp add: show_int_def)
  have len: "length (show_nat (nat n)) \<le> k"
    using assms by (intro length_show_nat_le) (simp_all add: nat_less_iff)
  show "list_all is_digit (format_number b n k)" "int (parse_digits (format_number b n k)) = n"
    using assms(1) by (simp_all add: format_number_def shown js_simps)
  show "length (format_number b n k) \<le> k" "b \<Longrightarrow> length (format_number b n k) = k"
    using len by (simp_all add: format_number_def shown js_simps)
  show "format_number b n k \<noteq> []"
    by (simp add: format_number_def shown pad_zero_def)
qed

lemma short_year_number:
  assumes "1900 \<le> get_full_year z t"
  shows "short_year z t = format_number True (get_full_year z t mod 100) 2"
proof -
  have "(get_full_year z t - 1900) mod 100 = get_full_year z t mod 100"
    using mod_mult_self1 [of "get_full_year z t" "- 19" 100] by simp
  then have yy: "js_rem (get_full_year z t - 1900) 100 = get_full_year z t mod 100"
    using assms by (simp add: js_rem_nonneg)
  define n where "n = nat (get_full_year z t mod 100)"
  have n: "get_full_year z t mod 100 = int n" "n < 100" by (simp_all add: n_def nat_less_iff)
  have "length (show_nat n) = (if n < 10 then 1 else 2)"
    using n(2) less_mult_imp_div_less [of n 10 10] by (simp add: show_nat.simps [of n] show_nat.simps [of "n div 10"])
  then show ?thesis
    by (simp add: short_year_def yy n(1) format_number_def pad_zero_def show_int_def)
qed

text \<open>Tokens whose number may be shorter than what is read, and tokens that may start with a digit.\<close>

fun variable_width :: "field \<Rightarrow> bool" where
  "variable_width (FDay b) = (\<not> b)"
| "variable_width (FDoy b) = (\<not> b)"
| "variable_width (FMonth b) = (\<not> b)"
| "variable_width (FTicks b) = True"
| "variable_width f = False"

fun starts_digit :: "field \<Rightarrow> bool" where
  "starts_digit (FLit c) = is_digit c"
| "starts_digit (FDayName b) = False"
| "starts_digit (FMonthName b) = False"
| "starts_digit f = True"

fun separated :: "field list \<Rightarrow> bool" where
  "separated (f # g # fs) = ((variable_width f \<longrightarrow> \<not> starts_digit g) \<and> separated (g # fs))"
| "separated fs = True"

text \<open>What the date \<open>t\<close> and the settings have to satisfy for a token to be read back.\<close>

fun readable :: "zone \<Rightarrow> int \<Rightarrow> int option \<Rightarrow> format_config \<Rightarrow> int \<Rightarrow> field \<Rightarrow> bool" where
  "readable z now limit cfg t (FYear b) =
     (if b then 1000 \<le> get_full_year z t \<and> get_full_year z t \<le> 9999
      else 1900 \<le> get_full_year z t \<and> adjust_year z now limit (get_full_year z t mod 100) = get_full_year z t)"
| "readable z now limit cfg t (FDayName b) =
     (let names = if b then day_names cfg else day_names_short cfg in names_ok names \<and> 7 \<le> length names)"
| "readable z now limit cfg t (FMonthName b) =
     (let names = if b then month_names cfg else month_names_short cfg in names_ok names \<and> 12 \<le> length names)"
| "readable z now limit cfg t (FTicks b) = (\<not> b \<and> 0 \<le> t \<and> t < 10 ^ 14)"
| "readable z now limit cfg t (FWindows b) = False"
| "readable z now limit cfg t f = True"

text \<open>The variables of \<open>parseDate\<close> after a token that was written from \<open>t\<close>.\<close>

fun learn :: "zone \<Rightarrow> int \<Rightarrow> field \<Rightarrow> parse_state \<Rightarrow> parse_state" where
  "learn z t (FDay b) st = st\<lparr>p_day := get_date z t\<rparr>"
| "learn z t (FDoy b) st = st\<lparr>p_doy := day_of_year z t\<rparr>"
| "learn z t (FMonth b) st = st\<lparr>p_month := get_month z t + 1\<rparr>"
| "learn z t (FMonthName b) st = st\<lparr>p_month := get_month z t + 1\<rparr>"
| "learn z t (FYear b) st = st\<lparr>p_year := if b then get_full_year z t else get_full_year z t mod 100\<rparr>"
| "learn z t (FTicks b) st = set_from_time z t st"
| "learn z t f st = st"

lemma name_at_nth: "0 \<le> k \<Longrightarrow> nat k < length names \<Longrightarrow> name_at names k = names ! nat k"
  by (simp add: name_at_def)

lemma read_number:
  assumes "0 \<le> n" "n < 10 ^ k" "0 < k" and "number_size m b = k"
    and "drop i val = format_number b' n k @ r" and "b' \<or> r = [] \<or> \<not> is_digit (hd r)"
  shows "get_number val m b i = Inr (n, i + length (format_number b' n k))"
proof -
  note num = format_number_reads [OF assms(1-3), of b']
  have "get_number val m b i = Inr (int (parse_digits (format_number b' n k)), i + length (format_number b' n k))"
    using assms(4,6) num(4,5) by (intro get_number_reads [OF assms(5) num(2,1)]) auto
  then show ?thesis by (simp add: num(3))
qed

lemma read_written_number:
  assumes z: "zone_ok z" and y: "100 \<le> get_full_year z t" and ok: "readable z now limit cfg t f"
    and at: "drop (i_value st) val = write_field z cfg t f @ r"
    and sep: "variable_width f \<longrightarrow> r = [] \<or> \<not> is_digit (hd r)"
    and num: "f \<notin> range FLit" "f \<notin> range FDayName" "f \<notin> range FMonthName"
  shows "read_field z cfg val f st =
    Inr ((learn z t f st)\<lparr>i_value := i_value st + length (write_field z cfg t f)\<rparr>)"
proof (cases f)
  case (FDay b)
  then show ?thesis
    using read_number [of "get_date z t" 2 "CHR ''d''" b "i_value st" val b r] local_fields_range(3,4) [of z t] at sep
    by (cases b) (simp_all add: number_size_def)
next
  case (FDoy b)
  have y': "get_full_year z t \<notin> {0..99}" using y by simp
  then show ?thesis
    using read_number [of "day_of_year z t" 3 "CHR ''o''" b "i_value st" val b r] day_of_year_range [OF z y'] at sep FDoy
    by (cases b) (simp_all add: number_size_def)
next
  case (FMonth b)
  then show ?thesis
    using read_number [of "get_month z t + 1" 2 "CHR ''m''" b "i_value st" val b r] local_fields_range(1,2) [of z t] at sep
    by (cases b) (simp_all add: number_size_def)
next
  case (FYear b)
  show ?thesis
  proof (cases b)
    case True
    define n where "n = nat (get_full_year z t)"
    have n: "get_full_year z t = int n" "1000 \<le> n" "n < 10000" using ok FYear True by (auto simp: n_def nat_less_iff le_nat_iff)
    then have len: "length (show_nat n) = 4" using length_show_nat [of 3 n] by simp
    have "format_number True (int n) 4 = show_int (int n)"
      by (simp add: format_number_def pad_zero_def show_int_def len)
    then show ?thesis
      using read_number [of "int n" 4 "CHR ''y''" True "i_value st" val True r] at sep FYear True n
      by (simp add: number_size_def)
  next
    case False
    then show ?thesis
      using read_number [of "get_full_year z t mod 100" 2 "CHR ''y''" b "i_value st" val True r] at sep FYear ok
      by (simp add: number_size_def short_year_number)
  qed
next
  case (FTicks b)
  have "format_number False t 14 = show_int t" by (simp add: format_number_def)
  then show ?thesis
    using read_number [of t 14 "CHR ''@''" b "i_value st" val False r] at sep FTicks ok
    by (simp add: number_size_def set_from_time_def)
qed (use ok num in auto)

lemma read_written:
  assumes z: "zone_ok z" and y: "100 \<le> get_full_year z t" and ok: "readable z now limit cfg t f"
    and at: "drop (i_value st) val = write_field z cfg t f @ r"
    and sep: "variable_width f \<longrightarrow> r = [] \<or> \<not> is_digit (hd r)"
  shows "read_field z cfg val f st =
    Inr ((learn z t f st)\<lparr>i_value := i_value st + length (write_field z cfg t f)\<rparr>)"
proof (cases f)
  case (FLit c)
  then show ?thesis using at by (simp add: drop_literal)
next
  case (FDayName b)
  let ?names = "if b then day_names cfg else day_names_short cfg"
  have names: "7 \<le> length ?names" "names_ok ?names"
    using ok FDayName by (simp_all add: Let_def)
  have n: "nat (get_day z t) < length ?names" "names_ok ?names"
    using local_fields_range(6,7) [of z t] names by linarith+
  then have "drop (i_value st) val = ?names ! nat (get_day z t) @ r"
    using at FDayName local_fields_range(6) [of z t] by (simp add: name_at_nth)
  from get_name_reads [OF n(2,1) this] show ?thesis
    using FDayName n local_fields_range(6) [of z t] by (simp add: name_at_nth)
next
  case (FMonthName b)
  let ?names = "if b then month_names cfg else month_names_short cfg"
  have names: "12 \<le> length ?names" "names_ok ?names"
    using ok FMonthName by (simp_all add: Let_def)
  have n: "nat (get_month z t) < length ?names" "names_ok ?names"
    using local_fields_range(1,2) [of z t] names by linarith+
  then have "drop (i_value st) val = ?names ! nat (get_month z t) @ r"
    using at FMonthName local_fields_range(1) [of z t] by (simp add: name_at_nth)
  from get_name_reads [OF n(2,1) this] show ?thesis
    using FMonthName n local_fields_range(1) [of z t] by (simp add: name_at_nth)
qed (rule read_written_number [OF z y ok at sep]; auto)+

text \<open>What is written starts with a digit only if the token says so.\<close>

lemma write_field_head:
  assumes "readable z now limit cfg t f" and "\<not> starts_digit f"
  shows "write_field z cfg t f \<noteq> [] \<and> \<not> is_digit (hd (write_field z cfg t f))"
proof (cases f)
  case (FDayName b)
  with assms show ?thesis
    using names_okD(1,2) [of "if b then day_names cfg else day_names_short cfg" "nat (get_day z t)"]
      local_fields_range(6,7) [of z t] by (auto simp: name_at_nth Let_def split: if_splits)
next
  case (FMonthName b)
  with assms show ?thesis
    using names_okD(1,2) [of "if b then month_names cfg else month_names_short cfg" "nat (get_month z t)"]
      local_fields_range(1,2) [of z t] by (auto simp: name_at_nth Let_def split: if_splits)
qed (use assms in auto)

lemma read_fields_written:
  assumes "zone_ok z" and "100 \<le> get_full_year z t"
  shows "\<lbrakk>\<forall>f\<in>set fs. readable z now limit cfg t f; separated fs;
    drop (i_value st) val = concat (map (write_field z cfg t) fs)\<rbrakk> \<Longrightarrow>
    read_fields z cfg val fs st = Inr ((fold (learn z t) fs st)
      \<lparr>i_value := i_value st + length (concat (map (write_field z cfg t) fs))\<rparr>)"
proof (induction fs arbitrary: st)
  case Nil
  then show ?case by simp
next
  case (Cons f fs)
  let ?w = "write_field z cfg t f" and ?r = "concat (map (write_field z cfg t) fs)"
  have sep: "variable_width f \<longrightarrow> ?r = [] \<or> \<not> is_digit (hd ?r)"
  proof (intro impI, cases fs)
    fix g gs
    assume "variable_width f" and fs: "fs = g # gs"
    with Cons.prems have "\<not> starts_digit g" "readable z now limit cfg t g" by auto
    from write_field_head [OF this(2,1)] show "?r = [] \<or> \<not> is_digit (hd ?r)" using fs by simp
  qed simp
  let ?st = "(learn z t f st)\<lparr>i_value := i_value st + length ?w\<rparr>"
  have at: "drop (i_value st) val = ?w @ ?r" using Cons.prems(3) by simp
  have read: "read_field z cfg val f st = Inr ?st"
    using Cons.prems(1) by (intro read_written [OF assms _ at sep]) auto
  have "drop (i_value ?st) val = drop (length ?w) (drop (i_value st) val)" by (simp add: add.commute)
  also have "\<dots> = ?r" unfolding at by simp
  finally have "drop (i_value ?st) val = ?r" .
  then have "read_fields z cfg val fs ?st =
      Inr ((fold (learn z t) fs ?st)\<lparr>i_value := i_value ?st + length ?r\<rparr>)"
    using Cons.prems(1,2) by (intro Cons.IH) (auto elim: separated.elims)
  moreover have "(fold (learn z t) fs (s\<lparr>i_value := i\<rparr>))\<lparr>i_value := j\<rparr> = (fold (learn z t) fs s)\<lparr>i_value := j\<rparr>" for s i j
  proof (induction fs arbitrary: s)
    case (Cons g gs)
    have "learn z t g (s\<lparr>i_value := i\<rparr>) = (learn z t g s)\<lparr>i_value := i\<rparr>"
      by (cases g) (simp_all add: set_from_time_def)
    then show ?case using Cons by simp
  qed simp
  ultimately show ?case by (simp add: read add.assoc)
qed

section \<open>The round trip\<close>

fun sets_year :: "field \<Rightarrow> bool" where
  "sets_year (FYear b) = True"
| "sets_year (FTicks b) = True"
| "sets_year f = False"

fun sets_month :: "field \<Rightarrow> bool" where
  "sets_month (FMonth b) = True"
| "sets_month (FMonthName b) = True"
| "sets_month (FTicks b) = True"
| "sets_month f = False"

fun sets_day :: "field \<Rightarrow> bool" where
  "sets_day (FDay b) = True"
| "sets_day (FTicks b) = True"
| "sets_day f = False"

fun sets_doy :: "field \<Rightarrow> bool" where
  "sets_doy (FDoy b) = True"
| "sets_doy f = False"

text \<open>The variables agree with \<open>t\<close> where a token has set them and are -1 elsewhere.\<close>

definition agrees :: "zone \<Rightarrow> int \<Rightarrow> int option \<Rightarrow> int \<Rightarrow> bool \<Rightarrow> bool \<Rightarrow> bool \<Rightarrow> bool \<Rightarrow> parse_state \<Rightarrow> bool" where
  "agrees z now limit t y m d k st \<longleftrightarrow>
     (if y then adjust_year z now limit (p_year st) = get_full_year z t else p_year st = -1) \<and>
     p_month st = (if m then get_month z t + 1 else -1) \<and> p_day st = (if d then get_date z t else -1) \<and>
     p_doy st = (if k then day_of_year z t else -1)"

lemma agrees_learn:
  assumes "100 \<le> get_full_year z t" and "readable z now limit cfg t f" and "agrees z now limit t y m d k st"
  shows "agrees z now limit t (y \<or> sets_year f) (m \<or> sets_month f) (d \<or> sets_day f) (k \<or> sets_doy f) (learn z t f st)"
  using assms by (cases f) (auto simp: agrees_def set_from_time_def adjust_year_def split: if_splits)

lemma agrees_fold:
  assumes "100 \<le> get_full_year z t"
  shows "\<forall>f\<in>set fs. readable z now limit cfg t f \<Longrightarrow> agrees z now limit t y m d k st \<Longrightarrow>
    agrees z now limit t (y \<or> list_ex sets_year fs) (m \<or> list_ex sets_month fs) (d \<or> list_ex sets_day fs)
      (k \<or> list_ex sets_doy fs) (fold (learn z t) fs st)"
proof (induction fs arbitrary: y m d k st)
  case (Cons f fs)
  then have "agrees z now limit t (y \<or> sets_year f) (m \<or> sets_month f) (d \<or> sets_day f) (k \<or> sets_doy f) (learn z t f st)"
    by (intro agrees_learn [OF assms, where cfg = cfg]) simp_all
  from Cons.IH [OF _ this] Cons.prems(1) show ?case by (simp add: disj_assoc)
qed simp

text \<open>A format names a day when it has a year (or the current year will do) and a day of the
  year, or a day and a month.\<close>

definition complete :: "field list \<Rightarrow> bool" where
  "complete fs \<longleftrightarrow> list_ex sets_doy fs \<or> (list_ex sets_month fs \<and> list_ex sets_day fs)"

lemma full_year_id: "100 \<le> y \<Longrightarrow> full_year y = y"
  by (simp add: full_year_def)

lemma finish_parse_agrees:
  assumes z: "zone_ok z" and y: "100 \<le> get_full_year z t" and a: "agrees z now limit t sy sm sd sk st"
    and year: "sy \<or> get_full_year z now = get_full_year z t" and day: "sk \<or> (sm \<and> sd)"
  shows "finish_parse z now limit st = Inr (midnight z (local_day z t))"
proof -
  have y': "get_full_year z t \<notin> {0..99}" using y by simp
  have adj: "adjust_year z now limit (p_year st) = get_full_year z t"
    using a year by (auto simp: agrees_def adjust_year_def split: if_splits)
  have md: "(if p_doy st > -1 then doy_loop z (get_full_year z t) 1 (p_doy st) else (p_month st, p_day st)) =
      (get_month z t + 1, get_date z t)"
    using a day doy_loop_day_of_year [OF z y'] day_of_year_range(1) [OF z y']
    by (auto simp: agrees_def split: if_splits)
  have date: "daylight_saving_adjust z (new_date z (get_full_year z t) (get_month z t) (get_date z t)) =
      midnight z (local_day z t)"
    by (simp add: adjust_new_date full_year_id [OF y] fields_local_day)
  have fields: "get_full_year z (midnight z (local_day z t)) = get_full_year z t"
    "get_month z (midnight z (local_day z t)) = get_month z t" "get_date z (midnight z (local_day z t)) = get_date z t"
    using z by (simp_all add: local_day_midnight get_full_year_def get_month_def get_date_def)
  show ?thesis
    by (simp only: finish_parse_def Let_def adj md prod.case) (simp add: date fields)
qed

lemma write_field_nonempty:
  assumes "zone_ok z" "100 \<le> get_full_year z t" and "readable z now limit cfg t f"
  shows "write_field z cfg t f \<noteq> []"
proof (cases "starts_digit f")
  case True
  have "get_full_year z t \<notin> {0..99}" using assms(2) by simp
  from day_of_year_range [OF assms(1) this] local_fields_range [of z t] show ?thesis
    using True assms(3) by (cases f) (auto simp: format_number_def show_int_def pad_zero_def short_year_def Let_def)
qed (use write_field_head [OF assms(3)] in simp)

lemma round_trip:
  assumes z: "zone_ok z" and y: "100 \<le> get_full_year z t"
    and fmt: "complete (tokens fmt False)" "separated (tokens fmt False)"
    and ok: "\<forall>f\<in>set (tokens fmt False). readable z now (cutoff_value z now (cfg_cutoff (resolve_config settings)))
      (resolve_config settings) t f"
    and year: "list_ex sets_year (tokens fmt False) \<or> get_full_year z now = get_full_year z t"
  shows "parse_date z now (Some fmt) (Some (format_date z fmt (Some t) settings)) settings =
    Inr (Some (midnight z (local_day z t)))"
proof -
  let ?cfg = "resolve_config settings" and ?fs = "tokens fmt False"
  let ?limit = "cutoff_value z now (cfg_cutoff ?cfg)" and ?w = "concat (map (write_field z (resolve_config settings) t) (tokens fmt False))"
  have "list_all single_ticks ?fs"
    unfolding list_all_iff
  proof
    fix f assume "f \<in> set ?fs"
    with ok have "readable z now ?limit ?cfg t f" by blast
    then show "single_ticks f" by (cases f) simp_all
  qed
  then have out: "format_date z fmt (Some t) settings = ?w"
    by (simp add: format_date_def format_loop_tokens)
  have "?fs \<noteq> []" using fmt(1) by (auto simp: complete_def)
  then have ne: "?w \<noteq> []" using write_field_nonempty [OF z y] ok by (cases ?fs) auto
  have start: "agrees z now ?limit t False False False False parse_start"
    by (simp add: agrees_def parse_start_def)
  let ?st = "(fold (learn z t) ?fs parse_start)\<lparr>i_value := length ?w\<rparr>"
  have loop: "parse_loop z ?cfg ?w fmt False parse_start = Inr ?st"
    using read_fields_written [OF z y ok fmt(2), of parse_start ?w]
    by (simp add: parse_loop_tokens parse_start_def)
  have "agrees z now ?limit t (list_ex sets_year ?fs) (list_ex sets_month ?fs) (list_ex sets_day ?fs)
      (list_ex sets_doy ?fs) ?st"
    using agrees_fold [OF y ok start] by (simp add: agrees_def)
  then have "finish_parse z now ?limit ?st = Inr (midnight z (local_day z t))"
    using year fmt(1) by (intro finish_parse_agrees [OF z y]) (auto simp: complete_def)
  then show ?thesis
    using ne by (simp add: out parse_date_def Let_def loop)
qed

section \<open>The standard formats\<close>

text \<open>The constants of the picker, and its default format.\<close>

definition ATOM :: string where "ATOM = ''yy-mm-dd''"
definition COOKIE :: string where "COOKIE = ''D, dd M yy''"
definition ISO_8601 :: string where "ISO_8601 = ''yy-mm-dd''"
definition RFC_822 :: string where "RFC_822 = ''D, d M y''"
definition RFC_850 :: string where "RFC_850 = ''DD, dd-M-y''"
definition RFC_1036 :: string where "RFC_1036 = ''D, d M y''"
definition RFC_1123 :: string where "RFC_1123 = ''D, d M yy''"
definition RFC_2822 :: string where "RFC_2822 = ''D, d M yy''"
definition RSS :: string where "RSS = ''D, d M y''"
definition TICKS :: string where "TICKS = ''!''"
definition TIMESTAMP :: string where "TIMESTAMP = ''@''"
definition W3C :: string where "W3C = ''yy-mm-dd''"
definition default_date_format :: string where "default_date_format = ''mm/dd/yy''"

definition long_formats :: "string list" where
  "long_formats = [default_date_format, ATOM, COOKIE, ISO_8601, RFC_1123, RFC_2822, W3C]"

definition short_formats :: "string list" where
  "short_formats = [RFC_822, RFC_850, RFC_1036, RSS]"

fun apart :: "string list \<Rightarrow> bool" where
  "apart [] = True"
| "apart (x # xs) = (list_all (\<lambda>y. \<not> prefix x y \<and> \<not> prefix y x) xs \<and> apart xs)"

lemma apart_nth: "apart xs \<Longrightarrow> i < length xs \<Longrightarrow> j < length xs \<Longrightarrow> i \<noteq> j \<Longrightarrow> \<not> prefix (xs ! i) (xs ! j)"
proof (induction xs arbitrary: i j)
  case (Cons x xs)
  then show ?case by (cases i; cases j) (auto simp: list_all_length)
qed simp

lemma names_okI:
  assumes "map to_lower names = ls" and "apart ls" and "list_all (\<lambda>n. n \<noteq> [] \<and> \<not> is_digit (hd n)) names"
  shows "names_ok names"
  using assms(3) apart_nth [OF assms(2)] unfolding assms(1) [symmetric] by (auto simp: names_ok_def list_all_length)

lemma default_names_ok: "names_ok (day_names_short default_config)" "names_ok (day_names default_config)"
   "names_ok (month_names_short default_config)" "names_ok (month_names default_config)"
proof -
  have "map to_lower (day_names_short default_config) = [''sun'', ''mon'', ''tue'', ''wed'', ''thu'', ''fri'', ''sat'']"
    by code_simp
  then show "names_ok (day_names_short default_config)"
    by (rule names_okI) (simp_all add: default_config_def is_digit_def)
  have "map to_lower (day_names default_config) =
      [''sunday'', ''monday'', ''tuesday'', ''wednesday'', ''thursday'', ''friday'', ''saturday'']"
    by code_simp
  then show "names_ok (day_names default_config)"
    by (rule names_okI) (simp_all add: default_config_def is_digit_def)
  have "map to_lower (month_names_short default_config) =
      [''jan'', ''feb'', ''mar'', ''apr'', ''may'', ''jun'', ''jul'', ''aug'', ''sep'', ''oct'', ''nov'', ''dec'']"
    by code_simp
  then show "names_ok (month_names_short default_config)"
    by (rule names_okI) (simp_all add: default_config_def is_digit_def)
  have "map to_lower (month_names default_config) =
      [''january'', ''february'', ''march'', ''april'', ''may'', ''june'', ''july'', ''august'',
       ''september'', ''october'', ''november'', ''december'']"
    by code_simp
  then show "names_ok (month_names default_config)"
    by (rule names_okI) (simp_all add: default_config_def is_digit_def)
qed

lemma adjust_year_window:
  assumes "100 \<le> get_full_year z now" and "get_full_year z now mod 100 + k < 100" and "0 \<le> k"
    and "get_full_year z now - (99 - k) \<le> y" and "y \<le> get_full_year z now + k"
  shows "adjust_year z now (Some (get_full_year z now mod 100 + k)) (y mod 100) = y"
proof -
  define c q where "c = get_full_year z now mod 100" and "q = get_full_year z now div 100"
  have n: "get_full_year z now = 100 * q + c" and c: "0 \<le> c" "c < 100" by (simp_all add: c_def q_def)
  have w: "c + k < 100" using assms(2) by (simp only: c_def)
  have bounds: "100 * q + c - (99 - k) \<le> y" "y \<le> 100 * q + c + k" using assms(4,5) n by simp_all
  have rem: "js_rem (get_full_year z now) 100 = c" using assms(1) by (simp add: js_rem_nonneg c_def)
  show ?thesis
  proof (cases "100 * q \<le> y")
    case True
    then have "y = 100 * q + (y - 100 * q)" "0 \<le> y - 100 * q" "y - 100 * q < 100"
      using w bounds by simp_all
    then have "y mod 100 = y - 100 * q" by (rule int_mod_pos_eq)
    with True show ?thesis using bounds w c by (simp add: adjust_year_def rem [unfolded n] n)
  next
    case False
    then have "y = 100 * (q - 1) + (y - 100 * (q - 1))" "0 \<le> y - 100 * (q - 1)" "y - 100 * (q - 1) < 100"
      using w bounds c assms(3) by simp_all
    then have "y mod 100 = y - 100 * (q - 1)" by (rule int_mod_pos_eq)
    with False show ?thesis using bounds w c assms(3) by (simp add: adjust_year_def rem [unfolded n] n)
  qed
qed

lemma standard_tokens:
  "fmt \<in> set long_formats \<Longrightarrow> complete (tokens fmt False) \<and> separated (tokens fmt False) \<and>
    list_ex sets_year (tokens fmt False) \<and>
    (\<forall>f\<in>set (tokens fmt False). f \<notin> range FDoy \<and> f \<notin> range FTicks \<and> f \<notin> range FWindows \<and> f \<noteq> FYear False)"
  "fmt \<in> set short_formats \<Longrightarrow> complete (tokens fmt False) \<and> separated (tokens fmt False) \<and>
    list_ex sets_year (tokens fmt False) \<and>
    (\<forall>f\<in>set (tokens fmt False). f \<notin> range FDoy \<and> f \<notin> range FTicks \<and> f \<notin> range FWindows \<and> f \<noteq> FYear True)"
  by (auto simp: long_formats_def short_formats_def default_date_format_def ATOM_def COOKIE_def ISO_8601_def RFC_822_def
      RFC_850_def RFC_1036_def RFC_1123_def RFC_2822_def RSS_def W3C_def complete_def is_token_def is_digit_def
      look_ahead_def)

text \<open>C6: A date written by \<open>formatDate\<close> is read back by \<open>parseDate\<close> with the same format
  and settings as midnight of the same local day.  The format names a day (\<open>complete\<close>), no
  number of varying width is followed by something that may be a digit (\<open>separated\<close>), and
  each token can be read back for this date (\<open>readable\<close>: years that fit the token and the
  cut-off, names that are not prefixes of each other, time stamps of at most 14 digits).  Any
  literals, quotes, names and time zone with shifts of at most an hour are allowed.\<close>

theorem parse_format_date:
  assumes z: "zone_ok z" and y: "100 \<le> get_full_year z t"
    and fmt: "complete (tokens fmt False)" "separated (tokens fmt False)"
    and ok: "\<forall>f\<in>set (tokens fmt False). readable z now (cutoff_value z now (cfg_cutoff (resolve_config settings)))
      (resolve_config settings) t f"
    and year: "list_ex sets_year (tokens fmt False) \<or> get_full_year z now = get_full_year z t"
  shows "parse_date z now (Some fmt) (Some (format_date z fmt (Some t) settings)) settings =
    Inr (Some (midnight z (local_day z t)))"
  by (rule round_trip [OF assms])

theorem parse_format_date_witness:
  "parse_date utc_zone 0 (Some ''DD, d MM yy'') (Some (format_date utc_zone ''DD, d MM yy'' (Some 1330473600000) None)) None =
     Inr (Some (midnight utc_zone 15399))"
proof -
  let ?cfg = "resolve_config None" and ?t = "1330473600000"
  have fs: "tokens ''DD, d MM yy'' False =
      [FDayName True, FLit (CHR '',''), FLit (CHR '' ''), FDay False, FLit (CHR '' ''), FMonthName True, FLit (CHR '' ''), FYear True]"
    by code_simp
  have day: "local_day utc_zone ?t = 15399"
    by (rule utc_local_day [where e = 0]; simp)
  have y: "get_full_year utc_zone ?t = 2012"
    unfolding get_full_year_def day by (rule year_from_day_unique; simp add: day_from_year_def)
  have cfg: "?cfg = default_config"
    and len: "length (day_names default_config) = 7" "length (month_names default_config) = 12"
    by (simp_all add: resolve_config_def default_config_def)
  show ?thesis
    using parse_format_date [OF utc_zone_ok, of ?t "''DD, d MM yy''" 0 None]
    by (simp add: fs y day default_names_ok cfg len complete_def is_digit_def Let_def del: tokens.simps)
qed

text \<open>The standard formats round-trip with the default settings: the formats with a four-digit
  year for every day of the years 1000 to 9999, the formats with a two-digit year for the years
  from 1900 on that the default cut-off \<open>+10\<close> resolves (from 89 years ago to 10 years ahead,
  unless the current year ends in 90 to 99), and \<open>TIMESTAMP\<close> for the time stamps from 0 up to 14 digits.\<close>

theorem standard_formats_round_trip:
  assumes z: "zone_ok z"
    and which: "fmt \<in> set long_formats \<and> 1000 \<le> get_full_year z t \<and> get_full_year z t \<le> 9999 \<or>
      fmt \<in> set short_formats \<and> 1900 \<le> get_full_year z t \<and> 100 \<le> get_full_year z now \<and>
        get_full_year z now mod 100 < 90 \<and> get_full_year z now - 89 \<le> get_full_year z t \<and>
        get_full_year z t \<le> get_full_year z now + 10 \<or>
      fmt = TIMESTAMP \<and> 0 \<le> t \<and> t < 10 ^ 14 \<and> 100 \<le> get_full_year z t"
  shows "parse_date z now (Some fmt) (Some (format_date z fmt (Some t) None)) None =
    Inr (Some (midnight z (local_day z t)))"
proof -
  have len: "length (day_names_short default_config) = 7" "length (day_names default_config) = 7"
    "length (month_names_short default_config) = 12" "length (month_names default_config) = 12"
    by (simp_all add: default_config_def)
  have cfg: "resolve_config None = default_config" by (simp add: resolve_config_def)
  let ?limit = "cutoff_value z now (cfg_cutoff default_config)"
  have names: "readable z now ?limit default_config t f"
    if "f \<in> range FLit \<union> range FDay \<union> range FMonth \<union> range FDayName \<union> range FMonthName" for f
    using that by (auto simp: len default_names_ok Let_def)
  consider (long) "fmt \<in> set long_formats" "1000 \<le> get_full_year z t" "get_full_year z t \<le> 9999"
    | (short) "fmt \<in> set short_formats" "1900 \<le> get_full_year z t" "100 \<le> get_full_year z now"
        "get_full_year z now mod 100 + 10 < 100" "get_full_year z now - 89 \<le> get_full_year z t"
        "get_full_year z t \<le> get_full_year z now + 10"
    | (stamp) "fmt = TIMESTAMP" "0 \<le> t" "t < 10 ^ 14" "100 \<le> get_full_year z t"
    using which by auto
  then show ?thesis
  proof cases
    case long
    have "readable z now ?limit default_config t f" if "f \<in> set (tokens fmt False)" for f
      using standard_tokens(1) [OF long(1)] that long(2,3) names [of f] by (cases f) auto
    then show ?thesis
      using round_trip [OF z, of t fmt now None] standard_tokens(1) [OF long(1)] long(2) by (simp add: cfg)
  next
    case short
    have "js_parse_int ''+10'' = Some 10" by code_simp
    then have "?limit = Some (get_full_year z now mod 100 + 10)"
      using short(3) by (simp add: cutoff_value_def js_rem_nonneg default_config_def)
    then have "adjust_year z now ?limit (get_full_year z t mod 100) = get_full_year z t"
      using adjust_year_window [of z now 10 "get_full_year z t"] short by simp
    then have "readable z now ?limit default_config t f" if "f \<in> set (tokens fmt False)" for f
      using standard_tokens(2) [OF short(1)] that short(2) names [of f] by (cases f) auto
    then show ?thesis
      using round_trip [OF z, of t fmt now None] standard_tokens(2) [OF short(1)] short(2) by (simp add: cfg)
  next
    case stamp
    have "tokens TIMESTAMP False = [FTicks False]"
      by (simp add: TIMESTAMP_def is_token_def look_ahead_def)
    then show ?thesis
      using round_trip [OF z, of t fmt now None] stamp by (simp add: complete_def)
  qed
qed

text \<open>A day of 2012, written as RFC 822 text in 2020.\<close>

theorem standard_formats_round_trip_witness:
  "parse_date utc_zone 1577836800000 (Some RFC_822)
     (Some (format_date utc_zone RFC_822 (Some 1330473600000) None)) None = Inr (Some (midnight utc_zone 15399))"
proof -
  have day: "local_day utc_zone 1330473600000 = 15399" "local_day utc_zone 1577836800000 = 18262"
    by (rule utc_local_day [where e = 0]; simp)+
  have y: "get_full_year utc_zone 1330473600000 = 2012" "get_full_year utc_zone 1577836800000 = 2020"
    unfolding get_full_year_def day by (rule year_from_day_unique; simp add: day_from_year_def)+
  show ?thesis
    using standard_formats_round_trip [OF utc_zone_ok, of RFC_822 1330473600000 1577836800000]
    by (simp add: y day short_formats_def)
qed

section \<open>What is accepted\<close>

text \<open>The position never passes the end of the text.\<close>

lemma takeWhile_take_drop_length: "i \<le> length val \<Longrightarrow> i + length (takeWhile P (take n (drop i val))) \<le> length val"
  using length_takeWhile_le [of P "take n (drop i val)"] by auto

lemma get_number_end: "i \<le> length val \<Longrightarrow> get_number val m b i = Inr (n, j) \<Longrightarrow> j \<le> length val"
  using takeWhile_take_drop_length [of i val is_digit "number_size m b"]
  by (auto simp: get_number_def Let_def split: if_splits)

lemma get_name_end: "i \<le> length val \<Longrightarrow> get_name val names i = Inr (n, j) \<Longrightarrow> j \<le> length val"
proof -
  assume i: "i \<le> length val" and n: "get_name val names i = Inr (n, j)"
  then obtain p where "List.find (\<lambda>p. name_matches val i (snd p)) (sorted_names names) = Some p" "j = i + length (snd p)"
    by (auto simp: get_name_def split: option.splits prod.splits)
  then obtain name where "name_matches val i name" "j = i + length name"
    by (auto simp: find_Some_iff)
  moreover from this(1) have "length (take (length name) (drop i val)) = length name"
    unfolding name_matches_def by (metis length_map)
  ultimately show ?thesis using i by auto
qed

lemma read_field_end: "i_value st \<le> length val \<Longrightarrow> read_field z cfg val f st = Inr st' \<Longrightarrow> i_value st' \<le> length val"
proof (cases f)
  case (FLit c)
  assume "i_value st \<le> length val" "read_field z cfg val f st = Inr st'"
  with FLit show ?thesis by (auto simp: check_literal_def split: if_splits)
qed (auto simp: js_bind_Inr_iff intro: get_number_end get_name_end split del: if_split)

lemma read_fields_end: "i_value st \<le> length val \<Longrightarrow> read_fields z cfg val fs st = Inr st' \<Longrightarrow> i_value st' \<le> length val"
  by (induction fs arbitrary: st) (auto simp: js_bind_Inr_iff dest: read_field_end)

lemma finish_parse_valid:
  assumes z: "zone_ok z" and f: "finish_parse z now limit st = Inr t"
  obtains m d where "1 \<le> m" "m \<le> 12" "1 \<le> d" "d \<le> days_in_month (adjust_year z now limit (p_year st)) (m - 1)"
    and "(m, d) = (if p_doy st > -1 then doy_loop z (adjust_year z now limit (p_year st)) 1 (p_doy st) else (p_month st, p_day st))"
    and "t = midnight z (make_day (adjust_year z now limit (p_year st)) (m - 1) d)"
    and "full_year (adjust_year z now limit (p_year st)) = adjust_year z now limit (p_year st)"
proof -
  define y where "y = adjust_year z now limit (p_year st)"
  obtain m d where md: "(m, d) = (if p_doy st > -1 then doy_loop z y 1 (p_doy st) else (p_month st, p_day st))"
    by (metis surj_pair)
  have t: "t = midnight z (make_day (full_year y) (m - 1) d)" "get_full_year z t = y" "get_month z t + 1 = m" "get_date z t = d"
    using f by (auto simp: finish_parse_def Let_def y_def [symmetric] md [symmetric] adjust_new_date split: if_splits)
  have "full_year y = y"
  proof (rule ccontr)
    assume ne: "full_year y \<noteq> y"
    then have fy: "full_year y = y + 1900" by (auto simp: full_year_def split: if_splits)
    have "1 \<le> m" "m \<le> 12" "1 \<le> d" "d \<le> 31"
      using local_fields_range [of z t] t(3,4) by auto
    have "day_from_year (y + 1900) \<le> make_day (y + 1900) (m - 1) d"
      using \<open>1 \<le> m\<close> \<open>m \<le> 12\<close> \<open>1 \<le> d\<close> month_in_year [of "m - 1" "leap_year (y + 1900)"]
      by (simp add: make_day_def Let_def)
    moreover have "year_from_day (make_day (y + 1900) (m - 1) d) = y"
      using t(2) unfolding t(1) fy by (simp add: midnight_fields z)
    then have "make_day (y + 1900) (m - 1) d < day_from_year (y + 1)"
      using year_from_day_bounds [of "make_day (y + 1900) (m - 1) d"] by simp
    ultimately show False using day_from_year_mono [of "y + 1" "y + 1900"] by simp
  qed
  moreover have "1 \<le> m" "m \<le> 12" "1 \<le> d" using local_fields_range [of z t] t(3,4) by auto
  moreover have "m - 1 = get_month z t" using t(3) by simp
  then have "d \<le> days_in_month y (m - 1)"
    using local_fields_range(5) [of z t] unfolding t(2,4) by (simp only:)
  ultimately show thesis using md t(1) by (intro that [of m d]) (simp_all add: y_def)
qed

text \<open>C7: \<open>parseDate\<close> returns a date only if every token of the format was read in order and
  nothing of the text is left, and then the date is midnight of a day that exists: the month
  is between 1 and 12, the day between 1 and the length of that month, in the year read (after
  the cut-off); month and day are the ones read, or the ones the day of the year falls on.\<close>

theorem parse_date_sound:
  assumes z: "zone_ok z" and p: "parse_date z now (Some fmt) (Some val) settings = Inr (Some t)"
  shows "\<exists>st y m d. read_fields z (resolve_config settings) val (tokens fmt False) parse_start = Inr st \<and>
    i_value st = length val \<and>
    y = adjust_year z now (cutoff_value z now (cfg_cutoff (resolve_config settings))) (p_year st) \<and>
    1 \<le> m \<and> m \<le> 12 \<and> 1 \<le> d \<and> d \<le> days_in_month y (m - 1) \<and> t = midnight z (make_day y (m - 1) d) \<and>
    (if p_doy st > -1 then make_day y (m - 1) d = day_from_year y + p_doy st - 1
     else m = p_month st \<and> d = p_day st)"
proof -
  let ?cfg = "resolve_config settings"
  let ?limit = "cutoff_value z now (cfg_cutoff ?cfg)"
  obtain st where st: "read_fields z ?cfg val (tokens fmt False) parse_start = Inr st"
    "\<not> i_value st < length val" "finish_parse z now ?limit st = Inr t"
    using p by (auto simp: parse_date_def Let_def parse_loop_tokens js_bind_Inr_iff split: if_splits)
  define y where "y = adjust_year z now ?limit (p_year st)"
  have pos: "i_value st = length val"
    using read_fields_end [OF _ st(1)] st(2) by (simp add: parse_start_def)
  obtain m d where md: "1 \<le> m" "m \<le> 12" "1 \<le> d" "d \<le> days_in_month y (m - 1)"
    "(m, d) = (if p_doy st > -1 then doy_loop z y 1 (p_doy st) else (p_month st, p_day st))"
    "t = midnight z (make_day y (m - 1) d)" "full_year y = y"
    using finish_parse_valid [OF z st(3)] unfolding y_def by metis
  have "make_day y (m - 1) d = day_from_year y + p_doy st - 1" if doy: "p_doy st > -1"
  proof -
    have loop: "doy_loop z y 1 (p_doy st) = (m, d)" using md(5) doy by simp
    have "p_doy st \<noteq> 0"
    proof
      assume "p_doy st = 0"
      then have "d = 0" using loop get_days_in_month_pos [of z y 0] by (simp add: doy_loop.simps [of z y 1 0])
      with md(3) show False by simp
    qed
    with doy have "1 \<le> p_doy st" by simp
    from doy_loop_correct [OF z this loop] show ?thesis by (simp add: md(7) make_day_def)
  qed
  then show ?thesis using st(1) pos md y_def by (intro exI [of _ st] exI [of _ y] exI [of _ m] exI [of _ d]) auto
qed

theorem parse_date_sound_witness:
  "\<exists>t. parse_date utc_zone 0 (Some ISO_8601) (Some (format_date utc_zone ISO_8601 (Some 1330473600000) None)) None = Inr (Some t) \<and>
     (\<exists>y m d. t = midnight utc_zone (make_day y (m - 1) d) \<and> d \<le> days_in_month y (m - 1))"
proof -
  have "local_day utc_zone 1330473600000 = 15399"
    by (rule utc_local_day [where e = 0]; simp)
  then have y: "get_full_year utc_zone 1330473600000 = 2012"
    unfolding get_full_year_def by simp (rule year_from_day_unique; simp add: day_from_year_def)
  have fs: "tokens ISO_8601 False = [FYear True, FLit (CHR ''-''), FMonth True, FLit (CHR ''-''), FDay True]"
    by code_simp
  have p: "parse_date utc_zone 0 (Some ISO_8601) (Some (format_date utc_zone ISO_8601 (Some 1330473600000) None)) None =
      Inr (Some (midnight utc_zone (local_day utc_zone 1330473600000)))"
    by (rule round_trip [OF utc_zone_ok]) (simp_all add: y fs complete_def is_digit_def)
  from parse_date_sound [OF utc_zone_ok p] p show ?thesis by blast
qed

section \<open>The characters that can be typed\<close>

lemma digits_set: "list_all is_digit s \<Longrightarrow> set s \<subseteq> set ''0123456789''"
  by (auto simp: list_all_iff is_digit_def)

lemma show_int_digits: "0 \<le> n \<Longrightarrow> set (show_int n) \<subseteq> set ''0123456789''"
  using digits_set [OF show_nat_digits [of "nat n"]] by (simp add: show_int_def)

lemma format_number_digits: "0 \<le> n \<Longrightarrow> set (format_number b n k) \<subseteq> set ''0123456789''"
  using digits_set [OF pad_zero_digits [OF show_nat_digits [of "nat n"]]] show_int_digits [of n]
  by (simp add: format_number_def show_int_def)

lemma possible_chars_mono: "possible_chars_loop fmt lit chars = Some cs \<Longrightarrow> set chars \<subseteq> set cs"
  by (induction fmt lit chars rule: possible_chars_loop.induct) (auto split: if_splits)

lemma possible_step:
  assumes date: "0 \<le> t" "1900 \<le> get_full_year z t"
    and p: "possible_chars_loop (c # cs) lit chars = Some allowed" and c: "c \<noteq> CHR ''o''" "c \<noteq> CHR ''!''"
    and w: "(if lit then format_quoted c cs else format_token z cfg t c cs) = (out, rest, lit')"
  shows "\<exists>chars'. possible_chars_loop rest lit' chars' = Some allowed \<and> set out \<subseteq> set allowed"
proof (cases "\<not> lit \<and> c \<in> set ''dmy@''")
  case True
  then have p1: "possible_chars_loop cs False (chars @ ''0123456789'') = Some allowed" using p by auto
  define D where "D = set ''0123456789''"
  have yy: "set (short_year z t) \<subseteq> D"
    using format_number_digits [of "get_full_year z t mod 100" True 2] date(2) by (simp add: short_year_number D_def)
  have num: "0 \<le> n \<Longrightarrow> set (format_number b n 2) \<subseteq> D" "0 \<le> n \<Longrightarrow> set (show_int n) \<subseteq> D" for b n
    using format_number_digits show_int_digits unfolding D_def by blast+
  have "0 \<le> get_date z t" "0 \<le> get_month z t + 1" "0 \<le> get_full_year z t"
    using local_fields_range [of z t] date(2) by simp_all
  then have ds: "set (format_number b (get_date z t) 2) \<subseteq> D" "set (format_number b (get_month z t + 1) 2) \<subseteq> D"
      "set (show_int (get_full_year z t)) \<subseteq> D" "set (show_int t) \<subseteq> D" for b
    using num date(1) by blast+
  have "set out \<subseteq> D"
    using True w by (cases "look_ahead c cs")
      (auto simp: format_token_def split: if_splits intro: ds [THEN subsetD] yy [THEN subsetD])
  then have "set out \<subseteq> set ''0123456789''" by (simp only: D_def)
  moreover have "set ''0123456789'' \<subseteq> set allowed" using possible_chars_mono [OF p1] by auto
  moreover have "\<exists>chars'. possible_chars_loop rest lit' chars' = Some allowed"
  proof (cases "rest = cs")
    case True
    then show ?thesis using p1 w \<open>\<not> lit \<and> c \<in> set ''dmy@''\<close>
      by (cases "look_ahead c cs") (auto simp: format_token_def)
  next
    case False
    then have "cs = c # rest" "lit' = False"
      using True w by (cases cs; auto simp: format_token_def look_ahead_def split: if_splits)+
    then show ?thesis using p1 True by auto
  qed
  ultimately show ?thesis by blast
next
  case False
  show ?thesis
  proof (cases "c = CHR 0x27")
    case True
    then show ?thesis using p w
      by (cases lit; cases "look_ahead c cs")
        (auto simp: format_quoted_def format_token_def split: if_splits dest: possible_chars_mono)
  next
    case nq: False
    then have "possible_chars_loop cs lit (chars @ [c]) = Some allowed" "out = [c]" "rest = cs" "lit' = lit"
      using False p w c by (cases lit; cases "look_ahead c cs"; auto simp: format_quoted_def format_token_def split: if_splits)+
    then show ?thesis using possible_chars_mono by fastforce
  qed
qed

lemma possible_chars_loop_sound:
  assumes "0 \<le> t" and "1900 \<le> get_full_year z t"
  shows "possible_chars_loop fmt lit chars = Some cs \<Longrightarrow> CHR ''o'' \<notin> set fmt \<Longrightarrow> CHR ''!'' \<notin> set fmt \<Longrightarrow>
    set (format_loop z cfg t fmt lit) \<subseteq> set cs"
  using assms
proof (induction z cfg t fmt lit arbitrary: chars rule: format_loop.induct)
  case (2 z cfg t c cs' lit)
  obtain out rest lit' where w: "(if lit then format_quoted c cs' else format_token z cfg t c cs') = (out, rest, lit')"
    by (metis surj_pair)
  obtain chars' where "possible_chars_loop rest lit' chars' = Some cs" and out: "set out \<subseteq> set cs"
    using possible_step [OF 2(5,6,2) _ _ w] 2(3,4) by auto
  moreover have "set rest \<subseteq> set cs'"
    using w by (cases cs') (auto simp: format_quoted_def format_token_def look_ahead_def split: if_splits)
  ultimately have "set (format_loop z cfg t rest lit') \<subseteq> set cs"
    using 2(1) [OF w [symmetric] refl, of chars'] 2(3-6) by auto
  with out show ?case by (simp add: w)
qed simp

text \<open>With \<open>constrainInput\<close> the field lets only the characters of \<open>_possibleChars\<close> through:
  every character that \<open>formatDate\<close> writes is among them, for dates from 1970 and 1900 on and
  formats without the letters \<open>o\<close> and \<open>!\<close>, so such a date can be typed.\<close>

theorem possible_chars_sound:
  assumes "possible_chars fmt = Some cs" and "CHR ''o'' \<notin> set fmt" and "CHR ''!'' \<notin> set fmt"
    and "0 \<le> t" and "1900 \<le> get_full_year z t"
  shows "set (format_date z fmt (Some t) settings) \<subseteq> set cs"
  using possible_chars_loop_sound [OF assms(4,5) _ assms(2,3)] assms(1)
  by (simp add: format_date_def possible_chars_def)

theorem possible_chars_sound_witness: "set (format_date utc_zone ISO_8601 (Some 1330473600000) None) \<subseteq> set ''0123456789-''"
proof -
  have "local_day utc_zone 1330473600000 = 15399"
    by (rule utc_local_day [where e = 0]; simp)
  then have y: "get_full_year utc_zone 1330473600000 = 2012"
    unfolding get_full_year_def by simp (rule year_from_day_unique; simp add: day_from_year_def)
  obtain cs where "possible_chars ISO_8601 = Some cs" "set cs \<subseteq> set ''0123456789-''"
    by (simp add: possible_chars_def ISO_8601_def look_ahead_def)
  then show ?thesis using possible_chars_sound [of ISO_8601 cs 1330473600000 utc_zone None] y
    by (auto simp: ISO_8601_def)
qed

text \<open>The standard format \<open>TICKS\<close> admits no digit: \<open>_possibleChars\<close> has no case for \<open>!\<close> (nor for
  \<open>o\<close>), so with \<open>constrainInput\<close> not one character of a date in that format can be typed.\<close>

theorem ticks_not_typable: "possible_chars TICKS = Some ''!'' \<and> possible_chars ''o'' = Some ''o''"
  by (simp add: possible_chars_def TICKS_def)

end
