(* ===== verification/Dp_Settings.thy ===== *)
theory Dp_Settings
  imports Dp_Roundtrip
begin

text \<open>
  The settings of a date picker (\<open>jquery.ui.datepicker.js\<close>): the defaults that \<open>Datepicker\<close>
  builds, the settings of one instance, which may leave any of them undefined, and \<open>_get\<close>.
  Callbacks are client code: a setting only says whether one is set, and the widget's model
  records that it was called.
\<close>

text \<open>A date setting: \<open>null\<close>, a text (a date or offsets such as \<open>+1m +7d\<close>), a number of days, a date.\<close>

datatype date_spec = DNull | DText string | DNumber int | DDate int

record dp_options =
  default_date :: date_spec
  goto_current :: bool
  hide_if_no_prev_next :: bool
  navigation_as_date_format :: bool
  change_month :: bool
  change_year :: bool
  year_range :: string
  show_other_months :: bool
  select_other_months :: bool
  show_week :: bool
  calculate_week :: "int \<Rightarrow> int"
  short_year_cutoff :: cutoff
  min_date :: date_spec
  max_date :: date_spec
  show_anim :: string
  before_show_day :: "(int \<Rightarrow> bool \<times> string \<times> string) option"
  on_select :: bool
  on_change_month_year :: bool
  on_close :: bool
  number_of_months :: "int \<times> int"
  show_current_at_pos :: int
  step_months :: int
  step_big_months :: int
  alt_field :: bool
  alt_format :: string
  constrain_input :: bool
  show_button_panel :: bool
  auto_size :: bool
  init_disabled :: bool
  close_text :: string
  prev_text :: string
  next_text :: string
  current_text :: string
  names_month :: "string list"
  names_month_short :: "string list"
  names_day :: "string list"
  names_day_short :: "string list"
  names_day_min :: "string list"
  week_header :: string
  date_format :: string
  first_day :: int
  is_rtl :: bool
  show_month_after_year :: bool
  year_suffix :: string

record dp_settings =
  s_default_date :: "date_spec option"
  s_goto_current :: "bool option"
  s_hide_if_no_prev_next :: "bool option"
  s_navigation_as_date_format :: "bool option"
  s_change_month :: "bool option"
  s_change_year :: "bool option"
  s_year_range :: "string option"
  s_show_other_months :: "bool option"
  s_select_other_months :: "bool option"
  s_show_week :: "bool option"
  s_calculate_week :: "(int \<Rightarrow> int) option"
  s_short_year_cutoff :: "cutoff option"
  s_min_date :: "date_spec option"
  s_max_date :: "date_spec option"
  s_show_anim :: "string option"
  s_before_show_day :: "((int \<Rightarrow> bool \<times> string \<times> string) option) option"
  s_on_select :: "bool option"
  s_on_change_month_year :: "bool option"
  s_on_close :: "bool option"
  s_number_of_months :: "(int \<times> int) option"
  s_show_current_at_pos :: "int option"
  s_step_months :: "int option"
  s_step_big_months :: "int option"
  s_alt_field :: "bool option"
  s_alt_format :: "string option"
  s_constrain_input :: "bool option"
  s_show_button_panel :: "bool option"
  s_auto_size :: "bool option"
  s_init_disabled :: "bool option"
  s_close_text :: "string option"
  s_prev_text :: "string option"
  s_next_text :: "string option"
  s_current_text :: "string option"
  s_names_month :: "string list option"
  s_names_month_short :: "string list option"
  s_names_day :: "string list option"
  s_names_day_short :: "string list option"
  s_names_day_min :: "string list option"
  s_week_header :: "string option"
  s_date_format :: "string option"
  s_first_day :: "int option"
  s_is_rtl :: "bool option"
  s_show_month_after_year :: "bool option"
  s_year_suffix :: "string option"

text \<open>\<open>_get\<close>, for all settings at once: the instance's own value where it has one.\<close>

definition effective :: "dp_options \<Rightarrow> dp_settings \<Rightarrow> dp_options" where
  "effective d s =
     \<lparr>default_date = or_default (s_default_date s) (default_date d),
      goto_current = or_default (s_goto_current s) (goto_current d),
      hide_if_no_prev_next = or_default (s_hide_if_no_prev_next s) (hide_if_no_prev_next d),
      navigation_as_date_format = or_default (s_navigation_as_date_format s) (navigation_as_date_format d),
      change_month = or_default (s_change_month s) (change_month d),
      change_year = or_default (s_change_year s) (change_year d),
      year_range = or_default (s_year_range s) (year_range d),
      show_other_months = or_default (s_show_other_months s) (show_other_months d),
      select_other_months = or_default (s_select_other_months s) (select_other_months d),
      show_week = or_default (s_show_week s) (show_week d),
      calculate_week = or_default (s_calculate_week s) (calculate_week d),
      short_year_cutoff = or_default (s_short_year_cutoff s) (short_year_cutoff d),
      min_date = or_default (s_min_date s) (min_date d),
      max_date = or_default (s_max_date s) (max_date d),
      show_anim = or_default (s_show_anim s) (show_anim d),
      before_show_day = or_default (s_before_show_day s) (before_show_day d),
      on_select = or_default (s_on_select s) (on_select d),
      on_change_month_year = or_default (s_on_change_month_year s) (on_change_month_year d),
      on_close = or_default (s_on_close s) (on_close d),
      number_of_months = or_default (s_number_of_months s) (number_of_months d),
      show_current_at_pos = or_default (s_show_current_at_pos s) (show_current_at_pos d),
      step_months = or_default (s_step_months s) (step_months d),
      step_big_months = or_default (s_step_big_months s) (step_big_months d),
      alt_field = or_default (s_alt_field s) (alt_field d),
      alt_format = or_default (s_alt_format s) (alt_format d),
      constrain_input = or_default (s_constrain_input s) (constrain_input d),
      show_button_panel = or_default (s_show_button_panel s) (show_button_panel d),
      auto_size = or_default (s_auto_size s) (auto_size d),
      init_disabled = or_default (s_init_disabled s) (init_disabled d),
      close_text = or_default (s_close_text s) (close_text d),
      prev_text = or_default (s_prev_text s) (prev_text d),
      next_text = or_default (s_next_text s) (next_text d),
      current_text = or_default (s_current_text s) (current_text d),
      names_month = or_default (s_names_month s) (names_month d),
      names_month_short = or_default (s_names_month_short s) (names_month_short d),
      names_day = or_default (s_names_day s) (names_day d),
      names_day_short = or_default (s_names_day_short s) (names_day_short d),
      names_day_min = or_default (s_names_day_min s) (names_day_min d),
      week_header = or_default (s_week_header s) (week_header d),
      date_format = or_default (s_date_format s) (date_format d),
      first_day = or_default (s_first_day s) (first_day d),
      is_rtl = or_default (s_is_rtl s) (is_rtl d),
      show_month_after_year = or_default (s_show_month_after_year s) (show_month_after_year d),
      year_suffix = or_default (s_year_suffix s) (year_suffix d)\<rparr>"

text \<open>\<open>extendRemove\<close>: the properties that are given replace those of the target.\<close>

definition extend_remove :: "dp_settings \<Rightarrow> dp_settings \<Rightarrow> dp_settings" where
  "extend_remove t p =
     \<lparr>s_default_date = (case s_default_date p of None \<Rightarrow> s_default_date t | v \<Rightarrow> v),
      s_goto_current = (case s_goto_current p of None \<Rightarrow> s_goto_current t | v \<Rightarrow> v),
      s_hide_if_no_prev_next = (case s_hide_if_no_prev_next p of None \<Rightarrow> s_hide_if_no_prev_next t | v \<Rightarrow> v),
      s_navigation_as_date_format = (case s_navigation_as_date_format p of None \<Rightarrow> s_navigation_as_date_format t | v \<Rightarrow> v),
      s_change_month = (case s_change_month p of None \<Rightarrow> s_change_month t | v \<Rightarrow> v),
      s_change_year = (case s_change_year p of None \<Rightarrow> s_change_year t | v \<Rightarrow> v),
      s_year_range = (case s_year_range p of None \<Rightarrow> s_year_range t | v \<Rightarrow> v),
      s_show_other_months = (case s_show_other_months p of None \<Rightarrow> s_show_other_months t | v \<Rightarrow> v),
      s_select_other_months = (case s_select_other_months p of None \<Rightarrow> s_select_other_months t | v \<Rightarrow> v),
      s_show_week = (case s_show_week p of None \<Rightarrow> s_show_week t | v \<Rightarrow> v),
      s_calculate_week = (case s_calculate_week p of None \<Rightarrow> s_calculate_week t | v \<Rightarrow> v),
      s_short_year_cutoff = (case s_short_year_cutoff p of None \<Rightarrow> s_short_year_cutoff t | v \<Rightarrow> v),
      s_min_date = (case s_min_date p of None \<Rightarrow> s_min_date t | v \<Rightarrow> v),
      s_max_date = (case s_max_date p of None \<Rightarrow> s_max_date t | v \<Rightarrow> v),
      s_show_anim = (case s_show_anim p of None \<Rightarrow> s_show_anim t | v \<Rightarrow> v),
      s_before_show_day = (case s_before_show_day p of None \<Rightarrow> s_before_show_day t | v \<Rightarrow> v),
      s_on_select = (case s_on_select p of None \<Rightarrow> s_on_select t | v \<Rightarrow> v),
      s_on_change_month_year = (case s_on_change_month_year p of None \<Rightarrow> s_on_change_month_year t | v \<Rightarrow> v),
      s_on_close = (case s_on_close p of None \<Rightarrow> s_on_close t | v \<Rightarrow> v),
      s_number_of_months = (case s_number_of_months p of None \<Rightarrow> s_number_of_months t | v \<Rightarrow> v),
      s_show_current_at_pos = (case s_show_current_at_pos p of None \<Rightarrow> s_show_current_at_pos t | v \<Rightarrow> v),
      s_step_months = (case s_step_months p of None \<Rightarrow> s_step_months t | v \<Rightarrow> v),
      s_step_big_months = (case s_step_big_months p of None \<Rightarrow> s_step_big_months t | v \<Rightarrow> v),
      s_alt_field = (case s_alt_field p of None \<Rightarrow> s_alt_field t | v \<Rightarrow> v),
      s_alt_format = (case s_alt_format p of None \<Rightarrow> s_alt_format t | v \<Rightarrow> v),
      s_constrain_input = (case s_constrain_input p of None \<Rightarrow> s_constrain_input t | v \<Rightarrow> v),
      s_show_button_panel = (case s_show_button_panel p of None \<Rightarrow> s_show_button_panel t | v \<Rightarrow> v),
      s_auto_size = (case s_auto_size p of None \<Rightarrow> s_auto_size t | v \<Rightarrow> v),
      s_init_disabled = (case s_init_disabled p of None \<Rightarrow> s_init_disabled t | v \<Rightarrow> v),
      s_close_text = (case s_close_text p of None \<Rightarrow> s_close_text t | v \<Rightarrow> v),
      s_prev_text = (case s_prev_text p of None \<Rightarrow> s_prev_text t | v \<Rightarrow> v),
      s_next_text = (case s_next_text p of None \<Rightarrow> s_next_text t | v \<Rightarrow> v),
      s_current_text = (case s_current_text p of None \<Rightarrow> s_current_text t | v \<Rightarrow> v),
      s_names_month = (case s_names_month p of None \<Rightarrow> s_names_month t | v \<Rightarrow> v),
      s_names_month_short = (case s_names_month_short p of None \<Rightarrow> s_names_month_short t | v \<Rightarrow> v),
      s_names_day = (case s_names_day p of None \<Rightarrow> s_names_day t | v \<Rightarrow> v),
      s_names_day_short = (case s_names_day_short p of None \<Rightarrow> s_names_day_short t | v \<Rightarrow> v),
      s_names_day_min = (case s_names_day_min p of None \<Rightarrow> s_names_day_min t | v \<Rightarrow> v),
      s_week_header = (case s_week_header p of None \<Rightarrow> s_week_header t | v \<Rightarrow> v),
      s_date_format = (case s_date_format p of None \<Rightarrow> s_date_format t | v \<Rightarrow> v),
      s_first_day = (case s_first_day p of None \<Rightarrow> s_first_day t | v \<Rightarrow> v),
      s_is_rtl = (case s_is_rtl p of None \<Rightarrow> s_is_rtl t | v \<Rightarrow> v),
      s_show_month_after_year = (case s_show_month_after_year p of None \<Rightarrow> s_show_month_after_year t | v \<Rightarrow> v),
      s_year_suffix = (case s_year_suffix p of None \<Rightarrow> s_year_suffix t | v \<Rightarrow> v)\<rparr>"

definition no_settings :: dp_settings where
  "no_settings =
     \<lparr>s_default_date = None, s_goto_current = None, s_hide_if_no_prev_next = None, s_navigation_as_date_format = None, s_change_month = None, s_change_year = None, s_year_range = None, s_show_other_months = None, s_select_other_months = None, s_show_week = None, s_calculate_week = None, s_short_year_cutoff = None, s_min_date = None, s_max_date = None, s_show_anim = None, s_before_show_day = None, s_on_select = None, s_on_change_month_year = None, s_on_close = None, s_number_of_months = None, s_show_current_at_pos = None, s_step_months = None, s_step_big_months = None, s_alt_field = None, s_alt_format = None, s_constrain_input = None, s_show_button_panel = None, s_auto_size = None, s_init_disabled = None, s_close_text = None, s_prev_text = None, s_next_text = None, s_current_text = None, s_names_month = None, s_names_month_short = None, s_names_day = None, s_names_day_short = None, s_names_day_min = None, s_week_header = None, s_date_format = None, s_first_day = None, s_is_rtl = None, s_show_month_after_year = None, s_year_suffix = None\<rparr>"

text \<open>The defaults of the constructor.\<close>

definition default_options :: "zone \<Rightarrow> dp_options" where
  "default_options z =
     \<lparr>default_date = DNull,
      goto_current = False,
      hide_if_no_prev_next = False,
      navigation_as_date_format = False,
      change_month = False,
      change_year = False,
      year_range = ''c-10:c+10'',
      show_other_months = False,
      select_other_months = False,
      show_week = False,
      calculate_week = iso8601_week z,
      short_year_cutoff = CStr ''+10'',
      min_date = DNull,
      max_date = DNull,
      show_anim = ''fadeIn'',
      before_show_day = None,
      on_select = False,
      on_change_month_year = False,
      on_close = False,
      number_of_months = (1, 1),
      show_current_at_pos = 0,
      step_months = 1,
      step_big_months = 12,
      alt_field = False,
      alt_format = [],
      constrain_input = True,
      show_button_panel = False,
      auto_size = False,
      init_disabled = False,
      close_text = ''Done'',
      prev_text = ''Prev'',
      next_text = ''Next'',
      current_text = ''Today'',
      names_month = month_names default_config,
      names_month_short = month_names_short default_config,
      names_day = day_names default_config,
      names_day_short = day_names_short default_config,
      names_day_min = [''Su'', ''Mo'', ''Tu'', ''We'', ''Th'', ''Fr'', ''Sa''],
      week_header = ''Wk'',
      date_format = default_date_format,
      first_day = 0,
      is_rtl = False,
      show_month_after_year = False,
      year_suffix = []\<rparr>"

lemma default_options_fields [simp]:
  "date_format (default_options z) = default_date_format" "min_date (default_options z) = DNull"
  "max_date (default_options z) = DNull" "default_date (default_options z) = DNull"
  "goto_current (default_options z) = False" "number_of_months (default_options z) = (1, 1)"
  "show_current_at_pos (default_options z) = 0" "step_months (default_options z) = 1"
  "on_select (default_options z) = False" "on_change_month_year (default_options z) = False"
  "on_close (default_options z) = False" "alt_field (default_options z) = False"
  "show_anim (default_options z) = ''fadeIn''" "first_day (default_options z) = 0"
  by (simp_all add: default_options_def)

lemma effective_none: "effective d no_settings = d"
  by (simp add: effective_def no_settings_def or_default_def)

lemma or_default_extend: "or_default (case p of None \<Rightarrow> t | Some v \<Rightarrow> Some v) d = or_default p (or_default t d)"
  by (cases p) (simp_all add: or_default_def)

lemma effective_extend: "effective d (extend_remove s p) = effective (effective d s) p"
  by (simp only: effective_def extend_remove_def dp_settings.simps dp_options.simps or_default_extend)

end
