(* ===== verification/Dp_Instance.thy ===== *)
theory Dp_Instance
  imports Dp_Settings
begin

text \<open>
  One date picker of \<open>jquery.ui.datepicker.js\<close>: the instance object with its selected, drawn
  and current date, the dates it computes from settings and typed text, and the operations that
  move it (\<open>_setDate\<close>, \<open>_setDateFromField\<close>, \<open>_adjustInstDate\<close>, \<open>_restrictMinMax\<close>, \<dots>).
  \<open>z\<close> is the time zone, \<open>now\<close> the time of each \<open>new Date ()\<close> and \<open>o\<close> (\<open>os\<close> below) the
  effective settings of the instance.  A callback that is called, and the change event, is
  appended to \<open>calls\<close>.
\<close>

section \<open>The state of a picker\<close>

datatype dp_event = OnChangeMonthYear int int | OnSelect string | OnClose string | ChangeEvent

text \<open>
  \<open>input_val\<close> is the value of the field (of an inline picker's element: what \<open>val\<close> stored
  there), \<open>last_val\<close> is \<open>None\<close> for \<open>null\<close>; \<open>current_day\<close> and \<open>current_year\<close> are 0 when there is
  no current date; \<open>alt_val\<close> is the value of the alternate field.
\<close>

record dp_inst =
  selected_day :: int
  selected_month :: int
  selected_year :: int
  draw_month :: int
  draw_year :: int
  current_day :: int
  current_month :: int
  current_year :: int
  is_inline :: bool
  input_val :: string
  last_val :: "string option"
  alt_val :: string
  key_event :: bool
  inst_settings :: dp_settings
  calls :: "dp_event list"

definition new_inst :: "bool \<Rightarrow> dp_inst" where
  "new_inst inl =
     \<lparr>selected_day = 0, selected_month = 0, selected_year = 0, draw_month = 0, draw_year = 0,
      current_day = 0, current_month = 0, current_year = 0, is_inline = inl, input_val = [], last_val = None,
      alt_val = [], key_event = False, inst_settings = no_settings, calls = []\<rparr>"

definition log_call :: "bool \<Rightarrow> dp_event \<Rightarrow> dp_inst \<Rightarrow> dp_inst" where
  "log_call wanted e inst = (if wanted then inst\<lparr>calls := calls inst @ [e]\<rparr> else inst)"

definition notify_change :: "dp_options \<Rightarrow> dp_inst \<Rightarrow> dp_inst" where
  "notify_change os inst =
     log_call (on_change_month_year os) (OnChangeMonthYear (selected_year inst) (selected_month inst + 1)) inst"

definition get_format_config :: "zone \<Rightarrow> int \<Rightarrow> dp_options \<Rightarrow> format_settings" where
  "get_format_config z now os =
     \<lparr>set_cutoff = (case short_year_cutoff os of CNum n \<Rightarrow> Some (CNum n)
        | CStr s \<Rightarrow> map_option CNum (cutoff_value z now (CStr s))),
      set_day_names_short = Some (names_day_short os), set_day_names = Some (names_day os),
      set_month_names_short = Some (names_month_short os), set_month_names = Some (names_month os)\<rparr>"

section \<open>Dates from settings\<close>

definition get_inst_date :: "zone \<Rightarrow> dp_inst \<Rightarrow> int option" where
  "get_inst_date z inst =
     (if current_year inst = 0 \<or> input_val inst = [] then None
      else Some (daylight_saving_adjust z (new_date z (current_year inst) (current_month inst) (current_day inst))))"

definition offset_numeric :: "zone \<Rightarrow> int \<Rightarrow> int \<Rightarrow> int" where
  "offset_numeric z now k = set_date z (get_date z now + k) now"

text \<open>
  The matches of \<open>/([+-]?[0-9]+)\s*(d|D|w|W|m|M|y|Y)?/g\<close>: a number, then after blanks a unit or none.
\<close>

definition match_number :: "string \<Rightarrow> (int \<times> string) option" where
  "match_number s =
     (let (neg, r) = strip_sign s; ds = takeWhile is_digit r
      in if ds = [] then None
         else Some (if neg then - int (parse_digits ds) else int (parse_digits ds), dropWhile is_digit r))"

definition match_unit :: "string \<Rightarrow> char \<times> string" where
  "match_unit s =
     (case dropWhile is_blank s of
        c # cs \<Rightarrow> if c \<in> set ''dDwWmMyY'' then (c, cs) else (CHR ''d'', c # cs)
      | [] \<Rightarrow> (CHR ''d'', []))"

lemma match_number_shorter: "match_number s = Some (n, r) \<Longrightarrow> length r < length s"
proof (cases s)
  case (Cons c cs)
  have "length (dropWhile is_digit x) < length x" if "takeWhile is_digit x \<noteq> []" for x
    using that by (cases x) (auto simp: less_Suc_eq_le length_dropWhile_le split: if_splits)
  moreover have "length (snd (strip_sign s)) \<le> length s" by (simp add: Cons)
  moreover assume "match_number s = Some (n, r)"
  ultimately show ?thesis
    by (cases "strip_sign s") (fastforce simp: match_number_def Let_def split: if_splits)
qed (simp add: match_number_def)

lemma match_unit_shorter: "match_unit s = (c, r) \<Longrightarrow> length r \<le> length s"
proof -
  assume m: "match_unit s = (c, r)"
  define w where "w = dropWhile is_blank s"
  have "length r \<le> length w"
    using m unfolding match_unit_def w_def [symmetric] by (cases w) (auto split: if_splits)
  also have "\<dots> = length (dropWhile is_blank s)" by (simp add: w_def)
  also have "\<dots> \<le> length s" by (rule length_dropWhile_le)
  finally show ?thesis .
qed

function offset_matches :: "string \<Rightarrow> (int \<times> char) list" where
  "offset_matches [] = []"
| "offset_matches (c # cs) =
     (case match_number (c # cs) of
        Some (n, r) \<Rightarrow> (case match_unit r of (u, r') \<Rightarrow> (n, u) # offset_matches r')
      | None \<Rightarrow> offset_matches cs)"
  by pat_completeness auto
termination
  by (relation "measure length") (auto dest!: match_number_shorter sym [THEN match_unit_shorter])

definition apply_offset :: "zone \<Rightarrow> int \<times> char \<Rightarrow> int \<times> int \<times> int \<Rightarrow> int \<times> int \<times> int" where
  "apply_offset z m ymd =
     (case (m, ymd) of ((n, u), (year, month, day)) \<Rightarrow>
        if u \<in> set ''dD'' then (year, month, day + n)
        else if u \<in> set ''wW'' then (year, month, day + n * 7)
        else if u \<in> set ''mM'' then (year, month + n, min day (get_days_in_month z year (month + n)))
        else (year + n, month, min day (get_days_in_month z (year + n) month)))"

definition offset_string :: "zone \<Rightarrow> int \<Rightarrow> dp_options \<Rightarrow> dp_inst \<Rightarrow> string \<Rightarrow> int option" where
  "offset_string z now os inst offset =
     (case parse_date z now (Some (date_format os)) (Some offset) (Some (get_format_config z now os)) of
        Inr t \<Rightarrow> t
      | Inl e \<Rightarrow>
          (let date = (if prefix ''c'' (to_lower offset) then or_default (get_inst_date z inst) now else now);
               (year, month, day) = fold (apply_offset z) (offset_matches offset)
                 (get_full_year z date, get_month z date, get_date z date)
           in Some (new_date z year month day)))"

definition clear_time :: "zone \<Rightarrow> int \<Rightarrow> int" where
  "clear_time z t = set_milliseconds z 0 (set_seconds z 0 (set_minutes z 0 (set_hours z 0 t)))"

definition determine_date :: "zone \<Rightarrow> int \<Rightarrow> dp_options \<Rightarrow> dp_inst \<Rightarrow> date_spec \<Rightarrow> int option \<Rightarrow> int option" where
  "determine_date z now os inst date dflt =
     (let new = (case date of DNull \<Rightarrow> dflt
        | DText s \<Rightarrow> if s = [] then dflt else offset_string z now os inst s
        | DNumber n \<Rightarrow> Some (offset_numeric z now n)
        | DDate t \<Rightarrow> Some t)
      in map_option (\<lambda>t. daylight_saving_adjust z (clear_time z t)) new)"

definition get_min_date :: "zone \<Rightarrow> int \<Rightarrow> dp_options \<Rightarrow> dp_inst \<Rightarrow> int option" where
  "get_min_date z now os inst = determine_date z now os inst (min_date os) None"

definition get_max_date :: "zone \<Rightarrow> int \<Rightarrow> dp_options \<Rightarrow> dp_inst \<Rightarrow> int option" where
  "get_max_date z now os inst = determine_date z now os inst (max_date os) None"

definition restrict_range :: "int option \<Rightarrow> int option \<Rightarrow> int \<Rightarrow> int" where
  "restrict_range mn mx date =
     (let new = (case mn of Some m \<Rightarrow> if date < m then m else date | None \<Rightarrow> date)
      in case mx of Some m \<Rightarrow> if new > m then m else new | None \<Rightarrow> new)"

definition restrict_min_max :: "zone \<Rightarrow> int \<Rightarrow> dp_options \<Rightarrow> dp_inst \<Rightarrow> int \<Rightarrow> int" where
  "restrict_min_max z now os inst date =
     restrict_range (get_min_date z now os inst) (get_max_date z now os inst) date"

definition is_in_range :: "zone \<Rightarrow> int \<Rightarrow> dp_options \<Rightarrow> dp_inst \<Rightarrow> int \<Rightarrow> bool" where
  "is_in_range z now os inst date \<longleftrightarrow>
     (case get_min_date z now os inst of Some m \<Rightarrow> date \<ge> m | None \<Rightarrow> True) \<and>
     (case get_max_date z now os inst of Some m \<Rightarrow> date \<le> m | None \<Rightarrow> True)"

definition get_default_date :: "zone \<Rightarrow> int \<Rightarrow> dp_options \<Rightarrow> dp_inst \<Rightarrow> int" where
  "get_default_date z now os inst =
     restrict_min_max z now os inst (or_default (determine_date z now os inst (default_date os) (Some now)) now)"

definition can_adjust_month :: "zone \<Rightarrow> int \<Rightarrow> dp_options \<Rightarrow> dp_inst \<Rightarrow> int \<Rightarrow> int \<Rightarrow> int \<Rightarrow> bool" where
  "can_adjust_month z now os inst offset cur_year cur_month =
     (let (rows, cols) = number_of_months os;
          date = daylight_saving_adjust z (new_date z cur_year
            (cur_month + (if offset < 0 then offset else rows * cols)) 1)
      in is_in_range z now os inst
           (if offset < 0 then set_date z (get_days_in_month z (get_full_year z date) (get_month z date)) date
            else date))"

section \<open>Moving the picker\<close>

datatype period = PNone | PDay | PMonth | PYear

definition select_and_draw :: "zone \<Rightarrow> int \<Rightarrow> dp_inst \<Rightarrow> dp_inst" where
  "select_and_draw z date inst =
     inst\<lparr>selected_day := get_date z date, selected_month := get_month z date, selected_year := get_full_year z date,
          draw_month := get_month z date, draw_year := get_full_year z date\<rparr>"

definition set_current :: "zone \<Rightarrow> int \<Rightarrow> dp_inst \<Rightarrow> dp_inst" where
  "set_current z date inst =
     inst\<lparr>current_day := get_date z date, current_month := get_month z date, current_year := get_full_year z date\<rparr>"

definition adjust_inst_date :: "zone \<Rightarrow> int \<Rightarrow> dp_options \<Rightarrow> int \<Rightarrow> period \<Rightarrow> dp_inst \<Rightarrow> dp_inst" where
  "adjust_inst_date z now os offset period inst =
     (let year = draw_year inst + (if period = PYear then offset else 0);
          month = draw_month inst + (if period = PMonth then offset else 0);
          day = min (selected_day inst) (get_days_in_month z year month) + (if period = PDay then offset else 0);
          date = restrict_min_max z now os inst (daylight_saving_adjust z (new_date z year month day));
          inst1 = select_and_draw z date inst
      in if period = PMonth \<or> period = PYear then notify_change os inst1 else inst1)"

text \<open>\<open>_formatDate\<close>: without a day the selected date becomes the current one.\<close>

definition format_selected :: "zone \<Rightarrow> int \<Rightarrow> dp_options \<Rightarrow> dp_inst \<Rightarrow> dp_inst \<times> string" where
  "format_selected z now os inst =
     (let inst1 = inst\<lparr>current_day := selected_day inst, current_month := selected_month inst,
            current_year := selected_year inst\<rparr>
      in (inst1, format_date z (date_format os)
            (Some (daylight_saving_adjust z (new_date z (current_year inst1) (current_month inst1) (current_day inst1))))
            (Some (get_format_config z now os))))"

definition format_day :: "zone \<Rightarrow> int \<Rightarrow> dp_options \<Rightarrow> int \<Rightarrow> int \<Rightarrow> int \<Rightarrow> string" where
  "format_day z now os day month year =
     format_date z (date_format os) (Some (daylight_saving_adjust z (new_date z year month day)))
       (Some (get_format_config z now os))"

definition is_falsy :: "date_spec \<Rightarrow> bool" where
  "is_falsy date = (case date of DNull \<Rightarrow> True | DText s \<Rightarrow> s = [] | DNumber n \<Rightarrow> n = 0 | DDate t \<Rightarrow> False)"

definition set_inst_date :: "zone \<Rightarrow> int \<Rightarrow> dp_options \<Rightarrow> date_spec \<Rightarrow> bool \<Rightarrow> dp_inst \<Rightarrow> dp_inst" where
  "set_inst_date z now os date no_change inst =
     (let new = restrict_min_max z now os inst (or_default (determine_date z now os inst date (Some now)) now);
          inst1 = set_current z new (select_and_draw z new inst);
          inst2 = (if (selected_month inst \<noteq> selected_month inst1 \<or> selected_year inst \<noteq> selected_year inst1) \<and>
                      \<not> no_change then notify_change os inst1 else inst1);
          inst3 = adjust_inst_date z now os 0 PNone inst2
      in if is_falsy date then inst3\<lparr>input_val := []\<rparr>
         else (let (inst4, text) = format_selected z now os inst3 in inst4\<lparr>input_val := text\<rparr>))"

definition set_date_from_field :: "zone \<Rightarrow> int \<Rightarrow> dp_options \<Rightarrow> bool \<Rightarrow> dp_inst \<Rightarrow> dp_inst" where
  "set_date_from_field z now os no_default inst =
     (if Some (input_val inst) = last_val inst then inst
      else (let inst1 = inst\<lparr>last_val := Some (input_val inst)\<rparr>;
                dflt = get_default_date z now os inst1;
                (date, dates) = (case parse_date z now (Some (date_format os)) (Some (input_val inst))
                    (Some (get_format_config z now os)) of
                  Inr (Some t) \<Rightarrow> (t, input_val inst)
                | Inr None \<Rightarrow> (dflt, input_val inst)
                | Inl e \<Rightarrow> (dflt, if no_default then [] else input_val inst));
                inst2 = select_and_draw z date inst1;
                inst3 = (if dates \<noteq> [] then set_current z date inst2
                  else inst2\<lparr>current_day := 0, current_month := 0, current_year := 0\<rparr>)
            in adjust_inst_date z now os 0 PNone inst3))"

definition update_alternate :: "zone \<Rightarrow> int \<Rightarrow> dp_options \<Rightarrow> dp_inst \<Rightarrow> dp_inst" where
  "update_alternate z now os inst =
     (if alt_field os
      then inst\<lparr>alt_val := format_date z (if alt_format os \<noteq> [] then alt_format os else date_format os)
             (get_inst_date z inst) (Some (get_format_config z now os))\<rparr>
      else inst)"

text \<open>The link \<open>currentText\<close> and the month and year menus, up to \<open>_adjustDate\<close>.\<close>

definition goto_today_inst :: "zone \<Rightarrow> int \<Rightarrow> dp_options \<Rightarrow> dp_inst \<Rightarrow> dp_inst" where
  "goto_today_inst z now os inst =
     notify_change os
       (if goto_current os \<and> current_day inst \<noteq> 0
        then inst\<lparr>selected_day := current_day inst, selected_month := current_month inst,
               selected_year := current_year inst, draw_month := current_month inst, draw_year := current_year inst\<rparr>
        else select_and_draw z now inst)"

definition select_month_year_inst :: "dp_options \<Rightarrow> int \<Rightarrow> period \<Rightarrow> dp_inst \<Rightarrow> dp_inst" where
  "select_month_year_inst os v period inst =
     notify_change os
       (if period = PMonth then inst\<lparr>selected_month := v, draw_month := v\<rparr>
        else inst\<lparr>selected_year := v, draw_year := v\<rparr>)"

text \<open>\<open>_autoSize\<close>: the length of a date with the longest names.\<close>

definition find_max :: "string list \<Rightarrow> int" where
  "find_max names =
     int (snd (foldl (\<lambda>(mx, mi) (i, s). if length s > mx then (length s, i) else (mx, mi)) (0, 0) (enumerate 0 names)))"

definition auto_size_length :: "zone \<Rightarrow> int \<Rightarrow> dp_options \<Rightarrow> nat" where
  "auto_size_length z now os =
     (let fmt = date_format os; date = new_date z 2009 11 20;
          date1 = (if CHR ''D'' \<in> set fmt \<or> CHR ''M'' \<in> set fmt then
            (let m = set_month z (find_max (if sublist ''MM'' fmt then names_month os else names_month_short os)) date
             in set_date z (find_max (if sublist ''DD'' fmt then names_day os else names_day_short os) + 20 - get_day z m) m)
            else date)
      in length (format_date z fmt (Some date1) (Some (get_format_config z now os))))"

end
