(* ===== verification/Bounded_Value.thy ===== *)
theory Bounded_Value
  imports Main
begin

text \<open>
  The contract of a widget's operation that forces a value into its limits: the result is
  within the limits, and nothing within the limits lies between a value and its result.  The
  date picker, the slider and the progress bar each provide it.
\<close>

locale bounded_value =
  fixes clamp :: "'c \<Rightarrow> 'v::linorder \<Rightarrow> 'v"
    and within :: "'c \<Rightarrow> 'v \<Rightarrow> bool"
  assumes clamp_within: "within c w \<Longrightarrow> within c (clamp c v)"
    and clamp_up: "within c w \<Longrightarrow> v \<le> w \<Longrightarrow> v \<le> clamp c v \<and> clamp c v \<le> w"
    and clamp_down: "within c w \<Longrightarrow> w \<le> v \<Longrightarrow> w \<le> clamp c v \<and> clamp c v \<le> v"
begin

lemma clamp_id: "within c v \<Longrightarrow> clamp c v = v"
  using clamp_up [of c v v] by (simp add: order_antisym)

lemma clamp_idem: "within c w \<Longrightarrow> clamp c (clamp c v) = clamp c v"
  by (rule clamp_id [OF clamp_within])

lemma clamp_fixed_iff: "within c w \<Longrightarrow> clamp c v = v \<longleftrightarrow> within c v"
  using clamp_within [of c w v] clamp_id [of c v] by auto

lemma clamp_mono: "within c w \<Longrightarrow> x \<le> y \<Longrightarrow> clamp c x \<le> clamp c y"
proof -
  assume w: "within c w" and xy: "x \<le> y"
  have y: "within c (clamp c y)" by (rule clamp_within [OF w])
  show ?thesis
  proof (cases "x \<le> clamp c y")
    case True
    then show ?thesis using clamp_up [OF y] by simp
  next
    case False
    then have "clamp c y \<le> x" by simp
    then have "clamp c x \<le> y" using clamp_down [OF y] xy by (meson order_trans)
    moreover have "within c (clamp c x)" by (rule clamp_within [OF w])
    ultimately show ?thesis using clamp_down [of c "clamp c x" y] by simp
  qed
qed

end

end
