(* ===== verification/Dp_Moves.thy ===== *)
theory Dp_Moves
  imports Dp_Instance Bounded_Value
begin

text \<open>
  What the operations on one date picker do, in days of the calendar: dates from settings are
  midnights, the limits clamp, moving by days, months and years lands where the calendar says,
  and the field, the selection and the drawn month stay in step.
\<close>

section \<open>Dates are midnights\<close>

text \<open>
  A zone as above in which the local times of the first hour of every day exist, as they do
  wherever clocks go forward later than that.
\<close>

definition zone_calm :: "zone \<Rightarrow> bool" where
  "zone_calm z \<longleftrightarrow> zone_ok z \<and> (\<forall>l. l mod ms_per_day < ms_per_hour \<longrightarrow> local_time z (utc z l) = l)"

lemma zone_calmD: "zone_calm z \<Longrightarrow> zone_ok z"
  by (simp add: zone_calm_def)

lemma zone_calm_midnights: "zone_calm z \<Longrightarrow> midnights_exist z"
  by (simp add: zone_calm_def midnights_exist_def ms_per_hour_def)

lemma utc_zone_calm: "zone_calm utc_zone"
  using utc_zone_ok by (simp add: zone_calm_def utc_zone_def local_time_def utc_def)

lemma early_local:
  assumes "zone_calm z" "0 \<le> r" "r < ms_per_hour"
  shows "local_day z (utc z (d * ms_per_day + r)) = d" "local_ms z (utc z (d * ms_per_day + r)) = r"
proof -
  have "r < ms_per_day" using assms(3) by (simp add: ms_per_hour_def ms_per_day_def)
  then have dm: "(d * ms_per_day + r) div ms_per_day = d" "(d * ms_per_day + r) mod ms_per_day = r"
    using div_eq_nearby [of ms_per_day r d] assms(2) by (simp_all add: ms_per_day_def)
  then have "local_time z (utc z (d * ms_per_day + r)) = d * ms_per_day + r"
    using assms by (simp add: zone_calm_def)
  then show "local_day z (utc z (d * ms_per_day + r)) = d" "local_ms z (utc z (d * ms_per_day + r)) = r"
    using dm by (simp_all add: local_day_def local_ms_def)
qed

lemma adjust_clear_time:
  assumes "zone_calm z"
  shows "daylight_saving_adjust z (clear_time z t) = midnight z (local_day z t)"
proof -
  let ?d = "local_day z t"
  define r where "r = local_ms z t mod ms_per_hour"
  have r: "0 \<le> r" "r < ms_per_hour" by (simp_all add: r_def ms_per_hour_def)
  have r1: "0 \<le> r mod 60000" "r mod 60000 < 60000" by simp_all
  have r2: "0 \<le> r mod 60000 mod 1000" "r mod 60000 mod 1000 < 1000" by simp_all
  have a: "set_hours z 0 t = utc z (?d * ms_per_day + r)"
    by (simp add: set_hours_def r_def)
  have "set_minutes z 0 (utc z (?d * ms_per_day + r)) = utc z (?d * ms_per_day + r mod 60000)"
    using r by (simp add: set_minutes_def early_local [OF assms r])
  moreover have "set_seconds z 0 (utc z (?d * ms_per_day + r mod 60000)) = utc z (?d * ms_per_day + r mod 60000 mod 1000)"
    using r1 early_local [OF assms, of "r mod 60000" ?d] by (simp add: set_seconds_def ms_per_hour_def)
  moreover have "set_milliseconds z 0 (utc z (?d * ms_per_day + r mod 60000 mod 1000)) = utc z (?d * ms_per_day)"
    using r2 early_local [OF assms, of "r mod 60000 mod 1000" ?d] by (simp add: set_milliseconds_def ms_per_hour_def)
  ultimately show ?thesis by (simp add: clear_time_def a midnight_def)
qed

lemma determine_date_midnight:
  assumes "zone_calm z" and "determine_date z now os inst date dflt = Some t"
  shows "t = midnight z (local_day z t)"
  using assms(2) by (auto simp: determine_date_def adjust_clear_time [OF assms(1)] local_day_midnight zone_calmD [OF assms(1)])

lemma determine_date_DDate: "zone_calm z \<Longrightarrow>
    determine_date z now os inst (DDate t) dflt = Some (midnight z (local_day z t))"
  by (simp add: determine_date_def adjust_clear_time)

section \<open>Limits\<close>

text \<open>The limits as days, and the clamping of days.\<close>

definition min_day :: "zone \<Rightarrow> int \<Rightarrow> dp_options \<Rightarrow> dp_inst \<Rightarrow> int option" where
  "min_day z now os inst = map_option (local_day z) (get_min_date z now os inst)"

definition max_day :: "zone \<Rightarrow> int \<Rightarrow> dp_options \<Rightarrow> dp_inst \<Rightarrow> int option" where
  "max_day z now os inst = map_option (local_day z) (get_max_date z now os inst)"

fun within_range :: "int option \<times> int option \<Rightarrow> int \<Rightarrow> bool" where
  "within_range (mn, mx) v =
     ((case mn of Some m \<Rightarrow> m \<le> v | None \<Rightarrow> True) \<and> (case mx of Some m \<Rightarrow> v \<le> m | None \<Rightarrow> True))"

fun restrict_pair :: "int option \<times> int option \<Rightarrow> int \<Rightarrow> int" where
  "restrict_pair (mn, mx) v = restrict_range mn mx v"

interpretation dp_range: bounded_value restrict_pair within_range
proof
  fix c :: "int option \<times> int option" and v w :: int
  assume w: "within_range c w"
  obtain mn mx where c: "c = (mn, mx)" by (cases c)
  show "within_range c (restrict_pair c v)"
    using w unfolding c by (cases mn; cases mx) (auto simp: restrict_range_def)
  show "v \<le> w \<Longrightarrow> v \<le> restrict_pair c v \<and> restrict_pair c v \<le> w"
    using w unfolding c by (cases mn; cases mx) (auto simp: restrict_range_def)
  show "w \<le> v \<Longrightarrow> w \<le> restrict_pair c v \<and> restrict_pair c v \<le> v"
    using w unfolding c by (cases mn; cases mx) (auto simp: restrict_range_def)
qed

text \<open>Clamping the instants of days is clamping the days.\<close>

lemma limit_midnight:
  assumes "zone_calm z"
  shows "get_min_date z now os inst = map_option (midnight z) (min_day z now os inst)"
    and "get_max_date z now os inst = map_option (midnight z) (max_day z now os inst)"
  using determine_date_midnight [OF assms]
  by (cases "get_min_date z now os inst"; force simp: min_day_def get_min_date_def)
    (use determine_date_midnight [OF assms] in \<open>cases "get_max_date z now os inst"; force simp: max_day_def get_max_date_def\<close>)

lemma restrict_midnight:
  assumes "zone_calm z"
  shows "restrict_min_max z now os inst (midnight z d) =
    midnight z (restrict_range (min_day z now os inst) (max_day z now os inst) d)"
  unfolding restrict_min_max_def limit_midnight [OF assms]
  using zone_calmD [OF assms]
  by (auto simp: restrict_range_def midnight_less_iff Let_def split: option.splits)

lemma is_in_range_midnight:
  assumes "zone_calm z"
  shows "is_in_range z now os inst (midnight z d) \<longleftrightarrow> within_range (min_day z now os inst, max_day z now os inst) d"
  unfolding is_in_range_def limit_midnight [OF assms]
  using zone_calmD [OF assms] by (auto simp: midnight_le_iff split: option.splits)

section \<open>Moving by days, months and years\<close>

text \<open>The selected day as a day number, and the picker's view of it.\<close>

definition day_of_inst :: "dp_inst \<Rightarrow> int" where
  "day_of_inst inst = make_day (selected_year inst) (selected_month inst) (selected_day inst)"

definition valid_view :: "dp_inst \<Rightarrow> bool" where
  "valid_view inst \<longleftrightarrow>
     0 \<le> draw_month inst \<and> draw_month inst < 12 \<and> 1 \<le> selected_day inst \<and>
     selected_day inst \<le> days_in_month (draw_year inst) (draw_month inst) \<and>
     draw_month inst = selected_month inst \<and> draw_year inst = selected_year inst"

lemma select_midnight:
  assumes "zone_ok z"
  shows "select_and_draw z (midnight z d) inst =
    inst\<lparr>selected_day := date_of_day d, selected_month := month_of_day d, selected_year := year_from_day d,
         draw_month := month_of_day d, draw_year := year_from_day d\<rparr>"
  by (simp add: select_and_draw_def midnight_fields assms)

lemma select_midnight_valid:
  assumes "zone_ok z"
  shows "valid_view (select_and_draw z (midnight z d) inst)" "day_of_inst (select_and_draw z (midnight z d) inst) = d"
  using civil_range [of d] by (simp_all add: select_midnight assms valid_view_def day_of_inst_def)

lemma notify_change_fields [simp]:
  "selected_day (notify_change os inst) = selected_day inst"
  "selected_month (notify_change os inst) = selected_month inst"
  "selected_year (notify_change os inst) = selected_year inst"
  "draw_month (notify_change os inst) = draw_month inst" "draw_year (notify_change os inst) = draw_year inst"
  "current_day (notify_change os inst) = current_day inst"
  "current_month (notify_change os inst) = current_month inst"
  "current_year (notify_change os inst) = current_year inst"
  "input_val (notify_change os inst) = input_val inst" "last_val (notify_change os inst) = last_val inst"
  "inst_settings (notify_change os inst) = inst_settings inst" "is_inline (notify_change os inst) = is_inline inst"
  "alt_val (notify_change os inst) = alt_val inst" "key_event (notify_change os inst) = key_event inst"
  by (simp_all add: notify_change_def log_call_def)

lemma notify_change_valid [simp]:
  "valid_view (notify_change os inst) = valid_view inst" "day_of_inst (notify_change os inst) = day_of_inst inst"
  by (simp_all add: valid_view_def day_of_inst_def)

text \<open>Where a move should land, before the limits: a day later, or the same date of another
  month or the last one if that month is shorter.\<close>

definition same_date :: "int \<Rightarrow> int \<Rightarrow> int \<Rightarrow> int" where
  "same_date y m d = make_day y m (min d (days_in_month (y + m div 12) (m mod 12)))"

fun target_day :: "period \<Rightarrow> int \<Rightarrow> dp_inst \<Rightarrow> int" where
  "target_day PNone k inst = day_of_inst inst"
| "target_day PDay k inst = day_of_inst inst + k"
| "target_day PMonth k inst = same_date (selected_year inst) (selected_month inst + k) (selected_day inst)"
| "target_day PYear k inst = same_date (selected_year inst + k) (selected_month inst) (selected_day inst)"

definition target_year :: "period \<Rightarrow> int \<Rightarrow> dp_inst \<Rightarrow> int" where
  "target_year p k inst = selected_year inst + (if p = PYear then k else 0)"

lemma adjust_target:
  assumes z: "zone_calm z" and v: "valid_view inst" and y: "target_year p k inst \<notin> {0..99}"
  shows "daylight_saving_adjust z (new_date z (draw_year inst + (if p = PYear then k else 0))
      (draw_month inst + (if p = PMonth then k else 0))
      (min (selected_day inst) (get_days_in_month z (draw_year inst + (if p = PYear then k else 0))
        (draw_month inst + (if p = PMonth then k else 0))) + (if p = PDay then k else 0))) =
    midnight z (target_day p k inst)"
proof -
  let ?y = "draw_year inst + (if p = PYear then k else 0)"
  have fy: "full_year ?y = ?y" using v y by (auto simp: full_year_def target_year_def valid_view_def)
  have m: "draw_month inst div 12 = 0" "draw_month inst mod 12 = draw_month inst"
    using v by (simp_all add: valid_view_def)
  have add: "make_day a b (c + e) = make_day a b c + e" for a b c e
    using make_day_date [of a b "c + e"] make_day_date [of a b c] by simp
  show ?thesis
    using v fy by (cases p; simp add: adjust_new_date get_days_in_month_calendar zone_calmD [OF z] m
      same_date_def day_of_inst_def valid_view_def add)
qed

lemma adjust_inst_date_midnight:
  assumes z: "zone_calm z" and v: "valid_view inst" and y: "target_year p k inst \<notin> {0..99}"
  shows "adjust_inst_date z now os k p inst =
    (let inst1 = select_and_draw z (midnight z
           (restrict_range (min_day z now os inst) (max_day z now os inst) (target_day p k inst))) inst
     in if p = PMonth \<or> p = PYear then notify_change os inst1 else inst1)"
  by (simp only: adjust_inst_date_def adjust_target [OF z v y] restrict_midnight [OF z] Let_def)


lemma valid_view_civil:
  assumes "valid_view inst"
  shows "year_from_day (day_of_inst inst) = selected_year inst" "month_of_day (day_of_inst inst) = selected_month inst"
    "date_of_day (day_of_inst inst) = selected_day inst"
proof -
  have "0 \<le> selected_month inst" "selected_month inst < 12" "1 \<le> selected_day inst"
    "selected_day inst \<le> days_in_month (selected_year inst) (selected_month inst)"
    using assms unfolding valid_view_def by auto
  from civil_make_day [OF this] show "year_from_day (day_of_inst inst) = selected_year inst"
    "month_of_day (day_of_inst inst) = selected_month inst" "date_of_day (day_of_inst inst) = selected_day inst"
    by (simp_all add: day_of_inst_def)
qed

lemma default_min_max:
  "min_day z now (default_options z') inst = None" "max_day z now (default_options z') inst = None"
  by (simp_all add: min_day_def max_day_def get_min_date_def get_max_date_def determine_date_def)


section \<open>Setting a date\<close>

lemma adjust_none:
  assumes z: "zone_calm z" and v: "valid_view inst" and y: "selected_year inst \<notin> {0..99}"
    and r: "within_range (min_day z now os inst, max_day z now os inst) (day_of_inst inst)"
  shows "adjust_inst_date z now os k PNone inst = inst"
proof -
  have "restrict_range (min_day z now os inst) (max_day z now os inst) (day_of_inst inst) = day_of_inst inst"
    using dp_range.clamp_id [OF r] by simp
  moreover note valid_view_civil [OF v]
  ultimately show ?thesis
    using adjust_inst_date_midnight [OF z v, of PNone k now os] y v
    by (simp add: target_year_def Let_def select_midnight zone_calmD [OF z] valid_view_def)
qed

text \<open>Limits that do not depend on the picker's own date (no text starting with \<open>c\<close>).\<close>

definition free_limits :: "dp_options \<Rightarrow> bool" where
  "free_limits os \<longleftrightarrow> (\<forall>s \<in> {min_date os, max_date os}. case s of DText s \<Rightarrow> \<not> prefix ''c'' (to_lower s) | _ \<Rightarrow> True)"

lemma free_limits_inst:
  assumes "free_limits os"
  shows "min_day z now os inst = min_day z now os inst'" "max_day z now os inst = max_day z now os inst'"
    "get_min_date z now os inst = get_min_date z now os inst'" "get_max_date z now os inst = get_max_date z now os inst'"
  using assms
  by (auto simp: free_limits_def min_day_def max_day_def get_min_date_def get_max_date_def determine_date_def
      offset_string_def split: date_spec.splits)

definition limits :: "zone \<Rightarrow> int \<Rightarrow> dp_options \<Rightarrow> int option \<times> int option" where
  "limits z now os = (min_day z now os (new_inst False), max_day z now os (new_inst False))"

lemma default_limits: "limits z now (default_options z') = (None, None)" "free_limits (default_options z')"
  by (simp_all add: limits_def default_min_max free_limits_def)

lemma limits_inst: "free_limits os \<Longrightarrow> (min_day z now os inst, max_day z now os inst) = limits z now os"
  unfolding limits_def using free_limits_inst by metis

lemma set_current_fields [simp]:
  "selected_day (set_current z d inst) = selected_day inst" "selected_month (set_current z d inst) = selected_month inst"
  "selected_year (set_current z d inst) = selected_year inst" "draw_month (set_current z d inst) = draw_month inst"
  "draw_year (set_current z d inst) = draw_year inst" "valid_view (set_current z d inst) = valid_view inst"
  "day_of_inst (set_current z d inst) = day_of_inst inst"
  by (simp_all add: set_current_def valid_view_def day_of_inst_def)

text \<open>The state of a picker on day \<open>d\<close>, up to the field and the calls.\<close>

definition shows_day :: "int \<Rightarrow> dp_inst \<Rightarrow> bool" where
  "shows_day d inst \<longleftrightarrow> valid_view inst \<and> day_of_inst inst = d \<and>
     current_day inst = selected_day inst \<and> current_month inst = selected_month inst \<and>
     current_year inst = selected_year inst"

lemma shows_day_input: "shows_day d (inst\<lparr>input_val := v\<rparr>) = shows_day d inst"
  by (simp add: shows_day_def valid_view_def day_of_inst_def)

lemma shows_day_last: "shows_day d (inst\<lparr>last_val := l\<rparr>) = shows_day d inst"
  by (simp add: shows_day_def valid_view_def day_of_inst_def)

lemma shows_day_date:
  assumes "shows_day d inst"
  shows "selected_year inst = year_from_day d" "selected_month inst = month_of_day d" "selected_day inst = date_of_day d"
  using assms valid_view_civil [of inst] by (auto simp: shows_day_def)

lemma full_year_other: "y \<notin> {0..99} \<Longrightarrow> full_year y = y"
  by (auto simp: full_year_def)

lemma set_inst_date_midnight:
  assumes z: "zone_calm z" and free: "free_limits os" and w: "within_range (limits z now os) w"
    and date: "determine_date z now os inst date (Some now) = Some t"
    and y: "year_from_day (restrict_pair (limits z now os) (local_day z t)) \<notin> {0..99}"
  defines "d \<equiv> restrict_pair (limits z now os) (local_day z t)"
  shows "shows_day d (set_inst_date z now os date nc inst)" (is ?shown)
    and "input_val (set_inst_date z now os date nc inst) =
      (if is_falsy date then [] else format_date z (date_format os) (Some (midnight z d)) (Some (get_format_config z now os)))"
      (is ?text)
    and "inst_settings (set_inst_date z now os date nc inst) = inst_settings inst"
proof -
  note ok = zone_calmD [OF z]
  have lim: "(min_day z now os i, max_day z now os i) = limits z now os" for i by (rule limits_inst [OF free])
  have t: "t = midnight z (local_day z t)" by (rule determine_date_midnight [OF z date])
  have pair: "restrict_range (min_day z now os i) (max_day z now os i) x = restrict_pair (limits z now os) x" for i x
    unfolding lim [of i, symmetric] by simp
  have new: "restrict_min_max z now os inst t = midnight z d"
    by (subst t) (simp only: restrict_midnight [OF z] pair d_def)
  define inst1 where "inst1 = set_current z (midnight z d) (select_and_draw z (midnight z d) inst)"
  define inst2 where "inst2 = (if (selected_month inst \<noteq> selected_month inst1 \<or> selected_year inst \<noteq> selected_year inst1) \<and>
     \<not> nc then notify_change os inst1 else inst1)"
  have one: "valid_view inst1" "day_of_inst inst1 = d" "current_day inst1 = selected_day inst1"
    "current_month inst1 = selected_month inst1" "current_year inst1 = selected_year inst1"
    by (simp_all add: inst1_def select_midnight_valid [OF ok]) (simp_all add: set_current_def select_and_draw_def)
  then have two: "shows_day d inst2" "inst_settings inst2 = inst_settings inst"
    by (simp_all add: inst2_def shows_day_def) (simp add: inst1_def set_current_def select_and_draw_def)
  have year: "selected_year inst2 \<notin> {0..99}"
    using y shows_day_date(1) [OF two(1)] by (simp add: d_def)
  have in_range: "within_range (limits z now os) d" unfolding d_def by (rule dp_range.clamp_within [OF w])
  have three: "adjust_inst_date z now os 0 PNone inst2 = inst2"
    using two(1) in_range by (intro adjust_none [OF z _ year]) (simp_all only: shows_day_def lim)
  define res where "res = set_inst_date z now os date nc inst"
  have set: "res = (if is_falsy date then inst2\<lparr>input_val := []\<rparr>
      else (fst (format_selected z now os inst2))\<lparr>input_val := snd (format_selected z now os inst2)\<rparr>)"
    unfolding set_inst_date_def date or_default_def option.case new Let_def res_def
      inst1_def [symmetric] inst2_def [symmetric] three by (simp add: case_prod_beta)
  have out: "snd (format_selected z now os inst2) =
      format_date z (date_format os) (Some (midnight z d)) (Some (get_format_config z now os))"
    using two(1) full_year_other [OF year]
    by (simp add: format_selected_def Let_def adjust_new_date shows_day_def day_of_inst_def)
  have same: "fst (format_selected z now os inst2) = inst2"
    using two(1) by (simp add: format_selected_def shows_day_def)
  have "shows_day d (inst2\<lparr>input_val := v\<rparr>)" for v
    using two(1) by (simp only: shows_day_input)
  then show ?shown ?text "inst_settings (set_inst_date z now os date nc inst) = inst_settings inst"
    using two(2) unfolding res_def [symmetric] set same out by simp_all
qed

lemma get_inst_date_shown:
  assumes "shows_day d inst" and "input_val inst \<noteq> []" and "year_from_day d \<notin> {0..99}"
  shows "get_inst_date z inst = Some (midnight z d)"
  using assms shows_day_date [OF assms(1)]
  by (auto simp: get_inst_date_def shows_day_def adjust_new_date full_year_def day_of_inst_def)

text \<open>\<open>setDate\<close> followed by \<open>getDate\<close> gives the date that was set, as midnight of its local
  day moved into the limits; selection, drawn month, current date and field agree on it, and
  the field holds its text.  (The date is not \<open>0\<close>, \<open>''''\<close> or \<open>null\<close>; the limits leave a day and do
  not refer to the picker's own date.)\<close>

theorem set_then_get:
  assumes "zone_calm z" and "free_limits os" and "within_range (limits z now os) w"
    and "determine_date z now os inst date (Some now) = Some t" and "\<not> is_falsy date"
    and "year_from_day (restrict_pair (limits z now os) (local_day z t)) \<notin> {0..99}"
    and "input_val (set_inst_date z now os date nc inst) \<noteq> []"
  shows "get_inst_date z (set_inst_date z now os date nc inst) =
      Some (midnight z (restrict_pair (limits z now os) (local_day z t))) \<and>
    shows_day (restrict_pair (limits z now os) (local_day z t)) (set_inst_date z now os date nc inst) \<and>
    input_val (set_inst_date z now os date nc inst) =
      format_date z (date_format os) (Some (midnight z (restrict_pair (limits z now os) (local_day z t))))
        (Some (get_format_config z now os))"
  using get_inst_date_shown [OF set_inst_date_midnight(1) [OF assms(1-4,6)] assms(7,6)]
    set_inst_date_midnight(1,2) [OF assms(1-4,6), where nc = nc] assms(5) by simp

theorem set_then_get_witness:
  "get_inst_date utc_zone (set_inst_date utc_zone 0 (default_options utc_zone) (DDate 1330473600000) False (new_inst False)) =
     Some (midnight utc_zone 15399)"
proof -
  have day: "local_day utc_zone 1330473600000 = 15399" by (rule utc_local_day [where e = 0]; simp)
  have year: "year_from_day 15399 = 2012" by (rule year_from_day_unique; simp add: day_from_year_def)
  have det: "determine_date utc_zone 0 (default_options utc_zone) (new_inst False) (DDate 1330473600000) (Some 0) =
      Some (midnight utc_zone 15399)"
    by (simp add: determine_date_DDate utc_zone_calm day)
  have d: "local_day utc_zone (midnight utc_zone 15399) = 15399" by (rule local_day_midnight [OF utc_zone_ok])
  have r: "restrict_pair (limits utc_zone 0 (default_options utc_zone)) 15399 = 15399"
    by (simp add: default_limits restrict_range_def)
  have free: "free_limits (default_options utc_zone)" by (rule default_limits)
  have fs: "tokens default_date_format False = [FMonth True, FLit (CHR ''/''), FDay True, FLit (CHR ''/''), FYear True]"
    by (simp add: default_date_format_def is_token_def look_ahead_def)
  have val: "input_val (set_inst_date utc_zone 0 (default_options utc_zone) (DDate 1330473600000) False (new_inst False)) \<noteq> []"
    using set_inst_date_midnight(2) [OF utc_zone_calm free _ det, of 15399 False] year
    by (simp add: d r default_limits is_falsy_def format_date_def format_loop_tokens fs restrict_range_def)
  show ?thesis
    using set_then_get [OF utc_zone_calm free _ det, of 15399 False] val
    by (simp add: d r year default_limits is_falsy_def restrict_range_def)
qed

text \<open>\<open>setDate (0)\<close> means today by the documentation of relative dates, and moves the picker to
  today, but it empties the field and \<open>getDate\<close> then gives \<open>null\<close>: \<open>_setDate\<close> tests \<open>!date\<close>, which
  holds of the number 0 as it does of \<open>null\<close>.\<close>

theorem set_zero_clears:
  "input_val (set_inst_date z now os (DNumber 0) nc inst) = [] \<and>
   get_inst_date z (set_inst_date z now os (DNumber 0) nc inst) = None"
proof -
  have "input_val (set_inst_date z now os (DNumber 0) nc inst) = []"
    by (simp add: set_inst_date_def is_falsy_def Let_def)
  then show ?thesis by (simp add: get_inst_date_def)
qed

section \<open>The field and the picker agree\<close>

lemma select_shown:
  assumes "shows_day d inst" and "zone_ok z"
  shows "select_and_draw z (midnight z d) inst = inst" "set_current z (midnight z d) inst = inst"
proof -
  have "draw_month inst = selected_month inst" "draw_year inst = selected_year inst"
    "current_day inst = selected_day inst" "current_month inst = selected_month inst" "current_year inst = selected_year inst"
    using assms(1) by (simp_all add: shows_day_def valid_view_def)
  with shows_day_date [OF assms(1)] show "select_and_draw z (midnight z d) inst = inst" "set_current z (midnight z d) inst = inst"
    by (simp_all add: select_midnight [OF assms(2)] set_current_def midnight_fields assms(2))
qed

lemma reread_field:
  assumes z: "zone_calm z" and s: "shows_day d inst" and y: "year_from_day d \<notin> {0..99}"
    and r: "within_range (min_day z now os inst1, max_day z now os inst1) d" and free: "free_limits os"
    and p: "parse_date z now (Some (date_format os)) (Some (input_val inst)) (Some (get_format_config z now os)) =
      Inr (Some (midnight z d))"
    and ne: "input_val inst \<noteq> []" and l: "last_val inst = None"
  shows "set_date_from_field z now os nd inst = inst\<lparr>last_val := Some (input_val inst)\<rparr>"
proof -
  let ?i = "inst\<lparr>last_val := Some (input_val inst)\<rparr>"
  have s': "shows_day d ?i" using s by (simp only: shows_day_last)
  have r': "within_range (min_day z now os ?i, max_day z now os ?i) (day_of_inst ?i)"
    using r s' by (simp only: limits_inst [OF free] shows_day_def)
  have y': "selected_year ?i \<notin> {0..99}" using shows_day_date(1) [OF s'] y by simp
  have "adjust_inst_date z now os 0 PNone ?i = ?i"
    using s' by (intro adjust_none [OF z _ y' r']) (simp only: shows_day_def)
  then show ?thesis
    using l ne select_shown [OF s' zone_calmD [OF z]] by (simp add: set_date_from_field_def p Let_def)
qed

text \<open>The field is a faithful copy of the picker: after \<open>setDate\<close>, reading the date back from
  the field (as opening the popup or typing does) leaves the selection, the drawn month and
  the current date as they are, when the format can be read back for that date (as in the
  round trip of \<open>formatDate\<close> and \<open>parseDate\<close>).\<close>

theorem set_then_reread:
  assumes z: "zone_calm z" and free: "free_limits os" and w: "within_range (limits z now os) w"
    and date: "determine_date z now os inst date (Some now) = Some t" "\<not> is_falsy date"
    and y: "100 \<le> year_from_day (restrict_pair (limits z now os) (local_day z t))"
    and fmt: "complete (tokens (date_format os) False)" "separated (tokens (date_format os) False)"
      "list_ex sets_year (tokens (date_format os) False)"
    and ok: "\<forall>f\<in>set (tokens (date_format os) False). readable z now
      (cutoff_value z now (cfg_cutoff (resolve_config (Some (get_format_config z now os)))))
      (resolve_config (Some (get_format_config z now os)))
      (midnight z (restrict_pair (limits z now os) (local_day z t))) f"
  shows "set_date_from_field z now os nd ((set_inst_date z now os date nc inst)\<lparr>last_val := None\<rparr>) =
    (set_inst_date z now os date nc inst)\<lparr>last_val := Some (input_val (set_inst_date z now os date nc inst))\<rparr>"
proof -
  define d where "d = restrict_pair (limits z now os) (local_day z t)"
  let ?cfg = "Some (get_format_config z now os)"
  define res where "res = set_inst_date z now os date nc inst"
  note zok = zone_calmD [OF z]
  have y': "year_from_day d \<notin> {0..99}" using y by (simp add: d_def)
  have s: "shows_day d res"
    unfolding res_def d_def using y' by (intro set_inst_date_midnight(1) [OF z free w date(1)]) (simp add: d_def)
  have val: "input_val res = format_date z (date_format os) (Some (midnight z d)) ?cfg"
    using set_inst_date_midnight(2) [OF z free w date(1), of nc] y' date(2)
    unfolding res_def d_def by simp
  have year: "get_full_year z (midnight z d) = year_from_day d" by (simp add: midnight_fields zok)
  have p: "parse_date z now (Some (date_format os)) (Some (input_val res)) ?cfg = Inr (Some (midnight z d))"
    unfolding val using round_trip [OF zok _ fmt(1,2), of "midnight z d" now ?cfg] ok fmt(3) y
    by (simp add: year d_def [symmetric] local_day_midnight zok)
  then have ne: "input_val res \<noteq> []" by (auto simp: parse_date_def)
  have r: "within_range (min_day z now os res, max_day z now os res) d"
    unfolding limits_inst [OF free] d_def by (rule dp_range.clamp_within [OF w])
  have s': "shows_day d (res\<lparr>last_val := None\<rparr>)"
    using s by (simp only: shows_day_last)
  show ?thesis
    using reread_field [OF z s' y' r free, of nd] p ne unfolding res_def by simp
qed

theorem set_then_reread_witness:
  "(set_date_from_field utc_zone 0 (default_options utc_zone) False
     ((set_inst_date utc_zone 0 (default_options utc_zone) (DDate 1330473600000) False (new_inst False))\<lparr>last_val := None\<rparr>)) =
   (set_inst_date utc_zone 0 (default_options utc_zone) (DDate 1330473600000) False (new_inst False))
     \<lparr>last_val := Some (input_val (set_inst_date utc_zone 0 (default_options utc_zone) (DDate 1330473600000) False (new_inst False)))\<rparr>"
proof -
  have day: "local_day utc_zone 1330473600000 = 15399" by (rule utc_local_day [where e = 0]; simp)
  have year: "year_from_day 15399 = 2012" by (rule year_from_day_unique; simp add: day_from_year_def)
  have det: "determine_date utc_zone 0 (default_options utc_zone) (new_inst False) (DDate 1330473600000) (Some 0) =
      Some (midnight utc_zone 15399)"
    by (simp add: determine_date_DDate utc_zone_calm day)
  have d: "local_day utc_zone (midnight utc_zone 15399) = 15399" by (rule local_day_midnight [OF utc_zone_ok])
  have free: "free_limits (default_options utc_zone)" by (rule default_limits)
  have fs: "tokens default_date_format False =
      [FMonth True, FLit (CHR ''/''), FDay True, FLit (CHR ''/''), FYear True]"
    by (simp add: default_date_format_def is_token_def look_ahead_def)
  show ?thesis
    using set_then_reread [OF utc_zone_calm free _ det, of 15399 False False]
    by (simp add: fs d year default_limits is_falsy_def restrict_range_def complete_def is_digit_def
        midnight_fields utc_zone_ok del: tokens.simps)
qed

end
