(* ===== verification/Dp_Grid.thy ===== *)
theory Dp_Grid
  imports Dp_Moves
begin

text \<open>
  What a date picker draws, \<open>_generateHTML\<close> and \<open>_generateMonthYearHeader\<close> of
  \<open>jquery.ui.datepicker.js\<close>: the months shown, their grids of days with the classes, titles,
  texts and click actions of each cell, the links and the button panel.  The HTML is a value
  that keeps every decision of the code; the fixed markup around it is left out.
\<close>

section \<open>The parts of the picture\<close>

datatype cell_text = CBlank | CSpan int | CLink "string list" int

record day_cell =
  cell_time :: int
  cell_classes :: "string list"
  cell_title :: "string option"
  cell_select :: "(int \<times> int) option"
  cell_text :: cell_text

record week_row =
  week_number :: "int option"
  week_cells :: "day_cell list"

datatype month_head = MonthText string | MonthMenu "(int \<times> bool \<times> string) list"

datatype year_head = YearText int | YearMenu "(int \<times> bool) list"

record month_header =
  head_month :: month_head
  head_space :: bool
  head_year :: year_head
  head_suffix :: string
  head_month_first :: bool

record month_view =
  view_year :: int
  view_month :: int
  view_group :: "string list"
  view_corner :: string
  view_left :: bool
  view_right :: bool
  view_header :: month_header
  view_day_heads :: "(bool \<times> string \<times> string) list"
  view_week_head :: "string option"
  view_weeks :: "week_row list"

text \<open>A previous or next link: its text, and its month step when it can be clicked.\<close>

record nav_link =
  nav_text :: string
  nav_step :: "int option"

record button_panel =
  panel_today :: "string option"
  panel_close :: "string option"
  panel_close_first :: bool

record dp_view =
  dp_prev :: "nav_link option"
  dp_next :: "nav_link option"
  dp_months :: "month_view list"
  dp_panel :: "button_panel option"

record draw_env =
  env_today :: int
  env_current :: int
  env_default :: int
  env_min :: "int option"
  env_max :: "int option"

section \<open>Days\<close>

definition next_print_date :: "zone \<Rightarrow> int \<Rightarrow> int" where
  "next_print_date z t = daylight_saving_adjust z (set_date z (get_date z t + 1) t)"

definition week_end_column :: "dp_options \<Rightarrow> int \<Rightarrow> bool" where
  "week_end_column os dow \<longleftrightarrow> js_rem (dow + first_day os + 6) 7 \<ge> 5"

definition day_settings :: "dp_options \<Rightarrow> int \<Rightarrow> bool \<times> string \<times> string" where
  "day_settings os t = (case before_show_day os of Some f \<Rightarrow> f t | None \<Rightarrow> (True, [], []))"

definition unselectable :: "dp_options \<Rightarrow> draw_env \<Rightarrow> bool \<Rightarrow> int \<Rightarrow> bool" where
  "unselectable os env other t \<longleftrightarrow>
     (other \<and> \<not> select_other_months os) \<or> \<not> fst (day_settings os t) \<or>
     (case env_min env of Some m \<Rightarrow> t < m | None \<Rightarrow> False) \<or> (case env_max env of Some m \<Rightarrow> t > m | None \<Rightarrow> False)"

definition draw_day ::
  "zone \<Rightarrow> dp_options \<Rightarrow> dp_inst \<Rightarrow> draw_env \<Rightarrow> int \<Rightarrow> int \<Rightarrow> int \<Rightarrow> int \<Rightarrow> day_cell" where
  "draw_day z os inst env selected month dow t =
     (let (_, css, title) = day_settings os t;
          other = (get_month z t \<noteq> month);
          unsel = unselectable os env other t
      in \<lparr>cell_time = t,
          cell_classes =
            (if week_end_column os dow then [''ui-datepicker-week-end''] else []) @
            (if other then [''ui-datepicker-other-month''] else []) @
            (if (t = selected \<and> month = selected_month inst \<and> key_event inst) \<or>
                (env_default env = t \<and> env_default env = selected)
             then [''ui-datepicker-days-cell-over''] else []) @
            (if unsel then [''ui-datepicker-unselectable'', ''ui-state-disabled''] else []) @
            (if other \<and> \<not> show_other_months os then []
             else [css] @ (if t = env_current env then [''ui-datepicker-current-day''] else []) @
               (if t = env_today env then [''ui-datepicker-today''] else [])),
          cell_title = (if (\<not> other \<or> show_other_months os) \<and> title \<noteq> [] then Some title else None),
          cell_select = (if unsel then None else Some (get_month z t, get_full_year z t)),
          cell_text =
            (if other \<and> \<not> show_other_months os then CBlank
             else if unsel then CSpan (get_date z t)
             else CLink
               ((if t = env_today env then [''ui-state-highlight''] else []) @
                (if t = env_current env then [''ui-state-active''] else []) @
                (if other then [''ui-priority-secondary''] else [])) (get_date z t))\<rparr>)"

text \<open>The inner loop over \<open>dow\<close> from \<open>7 - n\<close>: the cells and the date behind them.\<close>

primrec draw_days ::
  "nat \<Rightarrow> zone \<Rightarrow> dp_options \<Rightarrow> dp_inst \<Rightarrow> draw_env \<Rightarrow> int \<Rightarrow> int \<Rightarrow> int \<Rightarrow> day_cell list \<times> int" where
  "draw_days 0 z os inst env selected month t = ([], t)"
| "draw_days (Suc n) z os inst env selected month t =
     (let c = draw_day z os inst env selected month (6 - int n) t;
          (cs, t') = draw_days n z os inst env selected month (next_print_date z t)
      in (c # cs, t'))"

primrec draw_weeks ::
  "nat \<Rightarrow> zone \<Rightarrow> dp_options \<Rightarrow> dp_inst \<Rightarrow> draw_env \<Rightarrow> int \<Rightarrow> int \<Rightarrow> int \<Rightarrow> week_row list" where
  "draw_weeks 0 z os inst env selected month t = []"
| "draw_weeks (Suc n) z os inst env selected month t =
     (let (cs, t') = draw_days 7 z os inst env selected month t
      in \<lparr>week_number = (if show_week os then Some (calculate_week os t) else None), week_cells = cs\<rparr> #
         draw_weeks n z os inst env selected month t')"

section \<open>Month and year header\<close>

definition has_pattern :: "(char \<Rightarrow> bool) list \<Rightarrow> string \<Rightarrow> bool" where
  "has_pattern ps s \<longleftrightarrow> (\<exists>w \<in> set (suffixes s). list_all2 (\<lambda>p c. p c) ps (take (length ps) w))"

definition is_sign :: "char \<Rightarrow> bool" where
  "is_sign c \<longleftrightarrow> c = CHR ''+'' \<or> c = CHR ''-''"

definition determine_year :: "zone \<Rightarrow> int \<Rightarrow> int \<Rightarrow> string \<Rightarrow> int" where
  "determine_year z now draw_y v =
     (let year = (if has_pattern [\<lambda>c. c = CHR ''c'', is_sign] v
            then map_option ((+) draw_y) (js_parse_int (drop 1 v))
            else if has_pattern [is_sign] v then map_option ((+) (get_full_year z now)) (js_parse_int v)
            else js_parse_int v)
      in or_default year (get_full_year z now))"

text \<open>\<open>yearRange.split (':')\<close>, of which the first two parts are used.\<close>

definition split_range :: "string \<Rightarrow> string \<times> string" where
  "split_range s =
     (takeWhile (\<lambda>c. c \<noteq> CHR '':'') s,
      takeWhile (\<lambda>c. c \<noteq> CHR '':'') (drop 1 (dropWhile (\<lambda>c. c \<noteq> CHR '':'') s)))"

definition year_bounds :: "zone \<Rightarrow> int \<Rightarrow> dp_options \<Rightarrow> int \<Rightarrow> int option \<Rightarrow> int option \<Rightarrow> int \<times> int" where
  "year_bounds z now os draw_y mn mx =
     (let (a, b) = split_range (year_range os);
          year = determine_year z now draw_y a;
          end_year = max year (determine_year z now draw_y b)
      in (case mn of Some m \<Rightarrow> max year (get_full_year z m) | None \<Rightarrow> year,
          case mx of Some m \<Rightarrow> min end_year (get_full_year z m) | None \<Rightarrow> end_year))"

definition month_options :: "zone \<Rightarrow> dp_options \<Rightarrow> int \<Rightarrow> int \<Rightarrow> int option \<Rightarrow> int option \<Rightarrow> (int \<times> bool \<times> string) list" where
  "month_options z os draw_m draw_y mn mx =
     map (\<lambda>m. (m, m = draw_m, name_at (names_month_short os) m))
       (filter (\<lambda>m. (case mn of Some t \<Rightarrow> get_full_year z t \<noteq> draw_y \<or> m \<ge> get_month z t | None \<Rightarrow> True) \<and>
                   (case mx of Some t \<Rightarrow> get_full_year z t \<noteq> draw_y \<or> m \<le> get_month z t | None \<Rightarrow> True))
         [0..11])"

definition generate_header ::
  "zone \<Rightarrow> int \<Rightarrow> dp_options \<Rightarrow> int \<Rightarrow> int \<Rightarrow> int option \<Rightarrow> int option \<Rightarrow> bool \<Rightarrow> month_header" where
  "generate_header z now os draw_m draw_y mn mx secondary =
     \<lparr>head_month = (if secondary \<or> \<not> change_month os then MonthText (name_at (names_month os) draw_m)
        else MonthMenu (month_options z os draw_m draw_y mn mx)),
      head_space = (secondary \<or> \<not> (change_month os \<and> change_year os)),
      head_year = (if secondary \<or> \<not> change_year os then YearText draw_y
        else YearMenu (case year_bounds z now os draw_y mn mx of (a, b) \<Rightarrow> map (\<lambda>y. (y, y = draw_y)) [a..b])),
      head_suffix = year_suffix os,
      head_month_first = (\<not> show_month_after_year os)\<rparr>"

section \<open>Months\<close>

text \<open>The month drawn first: moved back while it starts after the last day that can be drawn.\<close>

partial_function (option) draw_back :: "zone \<Rightarrow> int \<Rightarrow> int \<Rightarrow> int \<Rightarrow> (int \<times> int) option" where
  "draw_back z max_draw y m =
     (if daylight_saving_adjust z (new_date z y m 1) > max_draw
      then (if m - 1 < 0 then draw_back z max_draw (y - 1) 11 else draw_back z max_draw y (m - 1))
      else Some (y, m))"

definition draw_start :: "zone \<Rightarrow> int \<Rightarrow> dp_options \<Rightarrow> dp_inst \<Rightarrow> (int \<times> int) option" where
  "draw_start z now os inst =
     (let m0 = draw_month inst - show_current_at_pos os;
          (y, m) = (if m0 < 0 then (draw_year inst - 1, m0 + 12) else (draw_year inst, m0));
          mn = get_min_date z now os inst
      in case get_max_date z now os inst of
           None \<Rightarrow> Some (y, m)
         | Some mx \<Rightarrow>
             (let md = daylight_saving_adjust z (new_date z (get_full_year z mx)
                    (get_month z mx - (fst (number_of_months os) * snd (number_of_months os)) + 1) (get_date z mx));
                  md' = (case mn of Some t \<Rightarrow> if md < t then t else md | None \<Rightarrow> md)
              in draw_back z md' y m))"

definition corner_class :: "dp_options \<Rightarrow> int \<Rightarrow> string list \<times> string" where
  "corner_class os col =
     (let cols = snd (number_of_months os) in
      if fst (number_of_months os) = 1 \<and> cols = 1 then ([], ''all'')
      else if cols > 1 then
        (if col = 0 then ([''ui-datepicker-group'', ''ui-datepicker-group-first''], if is_rtl os then ''right'' else ''left'')
         else if col = cols - 1
           then ([''ui-datepicker-group'', ''ui-datepicker-group-last''], if is_rtl os then ''left'' else ''right'')
         else ([''ui-datepicker-group'', ''ui-datepicker-group-middle''], []))
      else ([''ui-datepicker-group''], ''all''))"

definition lead_days :: "zone \<Rightarrow> dp_options \<Rightarrow> int \<Rightarrow> int \<Rightarrow> int" where
  "lead_days z os y m = js_rem (get_first_day_of_month z y m - first_day os + 7) 7"

text \<open>The state of the loops: the picker, the month to draw and \<open>maxRows\<close>.\<close>

record draw_state =
  draw_inst :: dp_inst
  next_year :: int
  next_month :: int
  max_rows :: int

definition draw_month_at ::
  "zone \<Rightarrow> int \<Rightarrow> dp_options \<Rightarrow> draw_env \<Rightarrow> int \<Rightarrow> int \<Rightarrow> draw_state \<Rightarrow> draw_state \<times> month_view" where
  "draw_month_at z now os env row col st =
     (let y = next_year st; m = next_month st; inst = draw_inst st;
          selected = daylight_saving_adjust z (new_date z y m (selected_day inst));
          (group, corner) = corner_class os col;
          days = get_days_in_month z y m;
          inst1 = (if y = selected_year inst \<and> m = selected_month inst
            then inst\<lparr>selected_day := min (selected_day inst) days\<rparr> else inst);
          lead = lead_days z os y m;
          cur_rows = js_ceil_div (lead + days) 7;
          multi = (number_of_months os \<noteq> (1, 1));
          rows = (if multi \<and> max_rows st > cur_rows then max_rows st else cur_rows);
          first = daylight_saving_adjust z (new_date z y m (1 - lead));
          (y', m') = (if m + 1 > 11 then (y + 1, 0) else (y, m + 1))
      in (\<lparr>draw_inst = inst1, next_year = y', next_month = m', max_rows = rows\<rparr>,
          \<lparr>view_year = y, view_month = m, view_group = group, view_corner = corner,
           view_left = (corner \<in> {''all'', ''left''} \<and> row = 0), view_right = (corner \<in> {''all'', ''right''} \<and> row = 0),
           view_header = generate_header z now os m y (env_min env) (env_max env) (row > 0 \<or> col > 0),
           view_day_heads = map (\<lambda>dow. (week_end_column os dow,
               name_at (names_day os) (js_rem (dow + first_day os) 7),
               name_at (names_day_min os) (js_rem (dow + first_day os) 7))) [0..6],
           view_week_head = (if show_week os then Some (week_header os) else None),
           view_weeks = draw_weeks (nat rows) z os inst1 env selected m first\<rparr>))"

fun draw_months ::
  "zone \<Rightarrow> int \<Rightarrow> dp_options \<Rightarrow> draw_env \<Rightarrow> (int \<times> int) list \<Rightarrow> draw_state \<Rightarrow> draw_state \<times> month_view list" where
  "draw_months z now os env [] st = (st, [])"
| "draw_months z now os env ((row, col) # rest) st =
     (let (st1, v) = draw_month_at z now os env row col (if col = 0 then st\<lparr>max_rows := 4\<rparr> else st);
          (st2, vs) = draw_months z now os env rest st1
      in (st2, v # vs))"

definition nav_text_of :: "zone \<Rightarrow> int \<Rightarrow> dp_options \<Rightarrow> string \<Rightarrow> int \<Rightarrow> string" where
  "nav_text_of z now os txt t =
     (if \<not> navigation_as_date_format os then txt
      else format_date z txt (Some t) (Some (get_format_config z now os)))"

definition nav_link_of :: "dp_options \<Rightarrow> bool \<Rightarrow> string \<Rightarrow> int \<Rightarrow> nav_link option" where
  "nav_link_of os can txt step =
     (if can then Some \<lparr>nav_text = txt, nav_step = Some step\<rparr>
      else if hide_if_no_prev_next os then None else Some \<lparr>nav_text = txt, nav_step = None\<rparr>)"

definition button_panel_of :: "zone \<Rightarrow> int \<Rightarrow> dp_options \<Rightarrow> dp_inst \<Rightarrow> int \<Rightarrow> button_panel option" where
  "button_panel_of z now os inst goto_date =
     (if show_button_panel os
      then Some \<lparr>panel_today = (if is_in_range z now os inst goto_date
                   then Some (nav_text_of z now os (current_text os) goto_date) else None),
                 panel_close = (if is_inline inst then None else Some (close_text os)),
                 panel_close_first = is_rtl os\<rparr>
      else None)"

text \<open>The dates a picture refers to.\<close>

definition today_of :: "zone \<Rightarrow> int \<Rightarrow> int" where
  "today_of z now = daylight_saving_adjust z (new_date z (get_full_year z now) (get_month z now) (get_date z now))"

definition current_of :: "zone \<Rightarrow> dp_inst \<Rightarrow> int" where
  "current_of z inst = daylight_saving_adjust z (if current_day inst = 0 then new_date z 9999 9 9
     else new_date z (current_year inst) (current_month inst) (current_day inst))"

definition draw_env_of :: "zone \<Rightarrow> int \<Rightarrow> dp_options \<Rightarrow> dp_inst \<Rightarrow> draw_env" where
  "draw_env_of z now os inst =
     \<lparr>env_today = today_of z now, env_current = current_of z inst, env_default = get_default_date z now os inst,
      env_min = get_min_date z now os inst, env_max = get_max_date z now os inst\<rparr>"

text \<open>The cells of \<open>numMonths\<close> in the order of the two loops.\<close>

definition month_slots :: "dp_options \<Rightarrow> (int \<times> int) list" where
  "month_slots os =
     concat (map (\<lambda>r. map (\<lambda>c. (r, c)) [0..snd (number_of_months os) - 1]) [0..fst (number_of_months os) - 1])"

definition draw_all_months :: "zone \<Rightarrow> int \<Rightarrow> dp_options \<Rightarrow> dp_inst \<Rightarrow> int \<Rightarrow> int \<Rightarrow> draw_state \<times> month_view list" where
  "draw_all_months z now os inst y m =
     draw_months z now os (draw_env_of z now os inst) (month_slots os)
       \<lparr>draw_inst = inst\<lparr>draw_month := m, draw_year := y\<rparr>, next_year = y, next_month = m, max_rows = 4\<rparr>"

definition draw_links ::
  "zone \<Rightarrow> int \<Rightarrow> dp_options \<Rightarrow> dp_inst \<Rightarrow> int \<Rightarrow> int \<Rightarrow> nav_link option \<times> nav_link option" where
  "draw_links z now os inst y m =
     (let step = step_months os;
          prev_t = nav_text_of z now os (prev_text os) (daylight_saving_adjust z (new_date z y (m - step) 1));
          next_t = nav_text_of z now os (next_text os) (daylight_saving_adjust z (new_date z y (m + step) 1))
      in (nav_link_of os (can_adjust_month z now os inst (-1) y m) prev_t (- step),
          nav_link_of os (can_adjust_month z now os inst 1 y m) next_t step))"

definition draw_from :: "zone \<Rightarrow> int \<Rightarrow> dp_options \<Rightarrow> dp_inst \<Rightarrow> int \<Rightarrow> int \<Rightarrow> dp_inst \<times> dp_view" where
  "draw_from z now os inst y m =
     (let goto_date = (if goto_current os \<and> current_day inst \<noteq> 0 then current_of z inst else today_of z now);
          (prev, next) = draw_links z now os inst y m;
          (st, views) = draw_all_months z now os inst y m
      in ((draw_inst st)\<lparr>key_event := False\<rparr>,
          \<lparr>dp_prev = prev, dp_next = next, dp_months = views, dp_panel = button_panel_of z now os inst goto_date\<rparr>))"

definition generate_html :: "zone \<Rightarrow> int \<Rightarrow> dp_options \<Rightarrow> dp_inst \<Rightarrow> (dp_inst \<times> dp_view) option" where
  "generate_html z now os inst =
     map_option (\<lambda>(y, m). draw_from z now os inst y m) (draw_start z now os inst)"

section \<open>What drawing changes\<close>

text \<open>Of the picker, drawing months only shortens the selected day.\<close>

lemma draw_month_keeps: "\<exists>d. draw_inst (fst (draw_month_at z now os env row col st)) = (draw_inst st)\<lparr>selected_day := d\<rparr>"
proof -
  let ?i = "draw_inst st"
  have same: "?i = ?i\<lparr>selected_day := selected_day ?i\<rparr>" by simp
  show ?thesis
    by (simp only: draw_month_at_def Let_def split_beta fst_conv draw_state.simps) (metis same)
qed

lemma draw_months_keeps: "\<exists>d. draw_inst (fst (draw_months z now os env rcs st)) = (draw_inst st)\<lparr>selected_day := d\<rparr>"
proof (induction rcs arbitrary: st)
  case Nil
  have "draw_inst st = (draw_inst st)\<lparr>selected_day := selected_day (draw_inst st)\<rparr>" by simp
  then show ?case by (metis draw_months.simps(1) fst_conv)
next
  case (Cons rc rcs)
  obtain row col where rc: "rc = (row, col)" by force
  let ?st = "if col = 0 then st\<lparr>max_rows := 4\<rparr> else st"
  obtain d where d: "draw_inst (fst (draw_month_at z now os env row col ?st)) = (draw_inst ?st)\<lparr>selected_day := d\<rparr>"
    using draw_month_keeps by blast
  obtain e where "draw_inst (fst (draw_months z now os env rcs (fst (draw_month_at z now os env row col ?st)))) =
      (draw_inst (fst (draw_month_at z now os env row col ?st)))\<lparr>selected_day := e\<rparr>"
    using Cons.IH by blast
  moreover have "draw_inst ?st = draw_inst st" by simp
  ultimately have "draw_inst (fst (draw_months z now os env (rc # rcs) st)) = (draw_inst st)\<lparr>selected_day := e\<rparr>"
    by (simp only: rc draw_months.simps Let_def split_beta fst_conv d) simp
  then show ?case by blast
qed

lemma draw_from_keeps:
  "\<exists>d. fst (draw_from z now os inst y m) = inst\<lparr>draw_month := m, draw_year := y, selected_day := d, key_event := False\<rparr>"
proof -
  obtain d where "draw_inst (fst (draw_all_months z now os inst y m)) = inst\<lparr>draw_month := m, draw_year := y, selected_day := d\<rparr>"
    unfolding draw_all_months_def using draw_months_keeps by (metis draw_state.select_convs(1))
  then show ?thesis by (intro exI [of _ d]) (simp only: draw_from_def Let_def split_beta fst_conv dp_inst.simps)
qed

end
