(* ===== verification/Dp_Manager.thy ===== *)
theory Dp_Manager
  imports Dp_Grid
begin

text \<open>
  The date picker manager \<open>$.datepicker\<close> of \<open>jquery.ui.datepicker.js\<close>: attaching pickers to
  elements, opening and closing the one shared popup, the handlers of keys and clicks, and the
  methods of the widget.  Elements are numbers; a picker object has its own number, since an
  element may be given a new picker.  The popup's division is shared by all pickers that are
  not inline, and so is its queue of animations: closing with an animation leaves its
  \<open>postProcess\<close> to the end of that animation, which is a step of its own.
  What the page supplies at an event (the highlighted cell, the result of \<open>beforeShow\<close>, where
  a click landed) is an argument.  Where a picture would take for ever to draw, which
  \<open>generate_html_ends\<close> excludes, \<open>redraw\<close> leaves the picker as it is.
\<close>

section \<open>The state\<close>

datatype dp_anim = AShow nat | AHide nat

record dp_mgr =
  objects :: "nat \<Rightarrow> (nat \<times> dp_inst) option"
  data_of :: "nat \<Rightarrow> nat option"
  next_object :: nat
  cur_inst :: "nat option"
  showing :: bool
  last_input :: "nat option"
  in_dialog :: bool
  dialog_obj :: "nat option"
  disabled_inputs :: "nat list"
  field_disabled :: "nat \<Rightarrow> bool"
  anim_queue :: "dp_anim list"
  mgr_defaults :: dp_options

definition initial_mgr :: "zone \<Rightarrow> dp_mgr" where
  "initial_mgr z =
     \<lparr>objects = (\<lambda>_. None), data_of = (\<lambda>_. None), next_object = 0, cur_inst = None, showing = False,
      last_input = None, in_dialog = False, dialog_obj = None, disabled_inputs = [], field_disabled = (\<lambda>_. False),
      anim_queue = [], mgr_defaults = default_options z\<rparr>"

definition set_defaults :: "dp_settings \<Rightarrow> dp_mgr \<Rightarrow> dp_mgr" where
  "set_defaults p s = s\<lparr>mgr_defaults := effective (mgr_defaults s) p\<rparr>"

definition inst_of :: "dp_mgr \<Rightarrow> nat \<Rightarrow> dp_inst" where
  "inst_of s i = (case objects s i of Some (t, inst) \<Rightarrow> inst | None \<Rightarrow> new_inst False)"

definition target_of :: "dp_mgr \<Rightarrow> nat \<Rightarrow> nat" where
  "target_of s i = (case objects s i of Some (t, inst) \<Rightarrow> t | None \<Rightarrow> 0)"

definition opts_of :: "dp_mgr \<Rightarrow> nat \<Rightarrow> dp_options" where
  "opts_of s i = effective (mgr_defaults s) (inst_settings (inst_of s i))"

definition map_inst :: "nat \<Rightarrow> (dp_inst \<Rightarrow> dp_inst) \<Rightarrow> dp_mgr \<Rightarrow> dp_mgr" where
  "map_inst i f s = s\<lparr>objects := (objects s)(i := map_option (\<lambda>(t, inst). (t, f inst)) (objects s i))\<rparr>"

text \<open>A handler that finds no picker on its element reads a property of \<open>undefined\<close>.\<close>

definition with_inst :: "nat \<Rightarrow> (nat \<Rightarrow> dp_mgr \<Rightarrow> dp_mgr js_result) \<Rightarrow> dp_mgr \<Rightarrow> dp_mgr js_result" where
  "with_inst t f s = (case data_of s t of Some i \<Rightarrow> f i s | None \<Rightarrow> Inl TypeError)"

definition redraw :: "zone \<Rightarrow> int \<Rightarrow> dp_options \<Rightarrow> dp_inst \<Rightarrow> dp_inst" where
  "redraw z now os inst = (case generate_html z now os inst of Some (inst', v) \<Rightarrow> inst' | None \<Rightarrow> inst)"

definition update_datepicker :: "zone \<Rightarrow> int \<Rightarrow> nat \<Rightarrow> dp_mgr \<Rightarrow> dp_mgr" where
  "update_datepicker z now i s = map_inst i (redraw z now (opts_of s i)) s"

section \<open>Closing\<close>

text \<open>
  \<open>_hideDatepicker\<close> calls the page's \<open>onClose\<close> before it has finished; \<open>react\<close> is what that does to the pickers.  Elsewhere the
  handlers of a page only answer, and closing is \<open>hide_datepicker\<close>.
\<close>

definition hide_with :: "(dp_mgr \<Rightarrow> dp_mgr) \<Rightarrow> nat option \<Rightarrow> dp_mgr \<Rightarrow> dp_mgr" where
  "hide_with react input s =
     (case cur_inst s of
        None \<Rightarrow> s
      | Some i \<Rightarrow>
          if (case input of Some t \<Rightarrow> data_of s t \<noteq> Some i | None \<Rightarrow> False) \<or> \<not> showing s then s
          else (let s1 = (if show_anim (opts_of s i) \<noteq> [] then s\<lparr>anim_queue := anim_queue s @ [AHide i]\<rparr>
                          else s\<lparr>cur_inst := None\<rparr>);
                    s2 = map_inst i (\<lambda>inst. log_call (on_close (opts_of s i)) (OnClose (input_val inst)) inst)
                           (s1\<lparr>showing := False\<rparr>);
                    s3 = (if on_close (opts_of s i) then react s2 else s2)
                in s3\<lparr>last_input := None, in_dialog := False\<rparr>))"

definition hide_datepicker :: "nat option \<Rightarrow> dp_mgr \<Rightarrow> dp_mgr" where
  "hide_datepicker = hide_with (\<lambda>s. s)"

text \<open>The end of the running animation: \<open>postProcess\<close> of a closing one forgets the picker.\<close>

definition animation_done :: "dp_mgr \<Rightarrow> dp_mgr" where
  "animation_done s =
     (case anim_queue s of
        [] \<Rightarrow> s
      | AHide i # q \<Rightarrow> s\<lparr>cur_inst := None, anim_queue := q\<rparr>
      | AShow i # q \<Rightarrow> s\<lparr>anim_queue := q\<rparr>)"

text \<open>\<open>dpDiv.stop (true, true)\<close>: the running animation ends, those behind it are dropped.\<close>

definition stop_animations :: "dp_mgr \<Rightarrow> dp_mgr" where
  "stop_animations s = (animation_done s)\<lparr>anim_queue := []\<rparr>"

section \<open>Opening\<close>

text \<open>\<open>shown\<close> is what \<open>beforeShow\<close> returned, \<open>None\<close> for \<open>false\<close>.\<close>

definition switch_picker :: "nat \<Rightarrow> dp_mgr \<Rightarrow> dp_mgr js_result" where
  "switch_picker i s =
     (case cur_inst s of
        Some j \<Rightarrow>
          if j = i then Inr s
          else (let s1 = (if is_inline (inst_of s j) then s else stop_animations s) in
            if showing s1 then
              (case cur_inst s1 of Some k \<Rightarrow> Inr (hide_datepicker (Some (target_of s1 k)) s1) | None \<Rightarrow> Inl TypeError)
            else Inr s1)
      | None \<Rightarrow> Inr s)"

definition open_picker :: "zone \<Rightarrow> int \<Rightarrow> nat \<Rightarrow> nat \<Rightarrow> dp_settings \<Rightarrow> dp_mgr \<Rightarrow> dp_mgr" where
  "open_picker z now t i p s1 =
     (let s2 = map_inst i (\<lambda>inst. inst\<lparr>inst_settings := extend_remove (inst_settings inst) p, last_val := None\<rparr>) s1;
          s3 = s2\<lparr>last_input := Some t\<rparr>;
          s4 = map_inst i (set_date_from_field z now (opts_of s3 i) False) s3;
          s5 = (if in_dialog s4 then map_inst i (\<lambda>inst. inst\<lparr>input_val := []\<rparr>) s4 else s4);
          s6 = update_datepicker z now i s5
      in if is_inline (inst_of s6 i) then s6
         else s6\<lparr>showing := True, cur_inst := Some i,
           anim_queue := (if show_anim (opts_of s6 i) \<noteq> [] then anim_queue s6 @ [AShow i] else anim_queue s6)\<rparr>)"

definition show_datepicker :: "zone \<Rightarrow> int \<Rightarrow> dp_settings option \<Rightarrow> nat \<Rightarrow> dp_mgr \<Rightarrow> dp_mgr js_result" where
  "show_datepicker z now shown t s =
     (if t \<in> set (disabled_inputs s) \<or> last_input s = Some t then Inr s
      else with_inst t (\<lambda>i s. js_bind (switch_picker i s) (\<lambda>s1.
        Inr (case shown of None \<Rightarrow> s1 | Some p \<Rightarrow> open_picker z now t i p s1))) s)"

text \<open>Where the popup goes: kept inside the viewport (\<open>_checkOffset\<close>).\<close>

record dp_geometry =
  dp_width :: int
  dp_height :: int
  input_width :: int
  input_height :: int
  view_width :: int
  view_height :: int
  scroll_left :: int
  scroll_top :: int
  input_left :: int
  input_top :: int

definition check_offset :: "bool \<Rightarrow> bool \<Rightarrow> dp_geometry \<Rightarrow> int \<times> int \<Rightarrow> int \<times> int" where
  "check_offset rtl is_fixed g pos =
     (let (left, top) = pos;
          vw = view_width g + scroll_left g;
          vh = view_height g + scroll_top g;
          left1 = left - (if rtl then dp_width g - input_width g else 0);
          left2 = left1 - (if is_fixed \<and> left1 = input_left g then scroll_left g else 0);
          top1 = top - (if is_fixed \<and> top = input_top g + input_height g then scroll_top g else 0);
          left3 = left2 - min left2 (if left2 + dp_width g > vw \<and> vw > dp_width g then \<bar>left2 + dp_width g - vw\<bar> else 0);
          top2 = top1 - min top1 (if top1 + dp_height g > vh \<and> vh > dp_height g then \<bar>dp_height g + input_height g\<bar> else 0)
      in (left3, top2))"

text \<open>A click on the trigger button of field \<open>t\<close>, from \<open>_attachments\<close>.\<close>

definition trigger_click :: "zone \<Rightarrow> int \<Rightarrow> dp_settings option \<Rightarrow> nat \<Rightarrow> dp_mgr \<Rightarrow> dp_mgr js_result" where
  "trigger_click z now shown t s =
     (if showing s \<and> last_input s = Some t then Inr (hide_datepicker None s)
      else if showing s \<and> last_input s \<noteq> Some t then show_datepicker z now shown t (hide_datepicker None s)
      else show_datepicker z now shown t s)"

section \<open>Choosing\<close>

definition adjust_date :: "zone \<Rightarrow> int \<Rightarrow> nat \<Rightarrow> int \<Rightarrow> period \<Rightarrow> dp_mgr \<Rightarrow> dp_mgr js_result" where
  "adjust_date z now t offset p =
     with_inst t (\<lambda>i s.
       if t \<in> set (disabled_inputs s) then Inr s
       else Inr (update_datepicker z now i
         (map_inst i (adjust_inst_date z now (opts_of s i)
            (offset + (if p = PMonth then show_current_at_pos (opts_of s i) else 0)) p) s)))"

definition goto_today :: "zone \<Rightarrow> int \<Rightarrow> nat \<Rightarrow> dp_mgr \<Rightarrow> dp_mgr js_result" where
  "goto_today z now t =
     with_inst t (\<lambda>i s. adjust_date z now t 0 PNone (map_inst i (goto_today_inst z now (opts_of s i)) s))"

definition select_month_year :: "zone \<Rightarrow> int \<Rightarrow> nat \<Rightarrow> int \<Rightarrow> period \<Rightarrow> dp_mgr \<Rightarrow> dp_mgr js_result" where
  "select_month_year z now t v p =
     with_inst t (\<lambda>i s. adjust_date z now t 0 PNone (map_inst i (select_month_year_inst (opts_of s i) v p) s))"

definition select_date :: "zone \<Rightarrow> int \<Rightarrow> nat \<Rightarrow> string \<Rightarrow> dp_mgr \<Rightarrow> dp_mgr js_result" where
  "select_date z now t date_str =
     with_inst t (\<lambda>i s.
       (let os = opts_of s i;
            s1 = map_inst i (\<lambda>inst. update_alternate z now os (inst\<lparr>input_val := date_str\<rparr>)) s;
            s2 = map_inst i (log_call True (if on_select os then OnSelect date_str else ChangeEvent)) s1
        in if is_inline (inst_of s2 i) then Inr (update_datepicker z now i s2)
           else Inr ((hide_datepicker None s2)\<lparr>last_input := None\<rparr>)))"

definition select_day :: "zone \<Rightarrow> int \<Rightarrow> nat \<Rightarrow> int \<Rightarrow> int \<Rightarrow> bool \<Rightarrow> int \<Rightarrow> dp_mgr \<Rightarrow> dp_mgr js_result" where
  "select_day z now t month year blocked day s =
     (if blocked \<or> t \<in> set (disabled_inputs s) then Inr s
      else with_inst t (\<lambda>i s.
        (let s1 = map_inst i (\<lambda>inst. inst\<lparr>selected_day := day, current_day := day, selected_month := month,
               current_month := month, selected_year := year, current_year := year\<rparr>) s
         in select_date z now t (format_day z now (opts_of s1 i) day month year) s1)) s)"

definition clear_date :: "zone \<Rightarrow> int \<Rightarrow> nat \<Rightarrow> dp_mgr \<Rightarrow> dp_mgr js_result" where
  "clear_date z now t = with_inst t (\<lambda>i. select_date z now t [])"

section \<open>Keys\<close>

record key_press =
  key_code :: int
  ctrl_key :: bool
  meta_key :: bool
  alt_key :: bool

text \<open>Enter: the highlighted cell is selected, then \<open>onSelect\<close> is called or the popup closed.\<close>

definition enter_key :: "zone \<Rightarrow> int \<Rightarrow> (bool \<times> int) option \<Rightarrow> nat \<Rightarrow> nat \<Rightarrow> dp_mgr \<Rightarrow> dp_mgr js_result" where
  "enter_key z now sel t i s =
     js_bind (case sel of
         Some (blocked, day) \<Rightarrow>
           select_day z now t (selected_month (inst_of s i)) (selected_year (inst_of s i)) blocked day s
       | None \<Rightarrow> Inr s)
       (\<lambda>s1. if on_select (opts_of s1 i)
         then Inr (map_inst i (\<lambda>inst. (let (inst1, txt) = format_selected z now (opts_of s1 i) inst
                                       in log_call True (OnSelect txt) inst1)) s1)
         else Inr (hide_datepicker None s1))"

text \<open>The switch of \<open>_doKeyDown\<close> while the popup shows; the flag is \<open>handled\<close>.\<close>

definition popup_key ::
  "zone \<Rightarrow> int \<Rightarrow> (bool \<times> int) option \<Rightarrow> nat \<Rightarrow> nat \<Rightarrow> key_press \<Rightarrow> dp_mgr \<Rightarrow> (dp_mgr \<times> bool) js_result" where
  "popup_key z now sel t i k s =
     (let os = opts_of s i; cm = ctrl_key k \<or> meta_key k; c = key_code k;
          big = (if ctrl_key k then step_big_months os else step_months os);
          keep = (\<lambda>r h. js_bind r (\<lambda>s'. Inr (s', h)));
          when = (\<lambda>b f s. if b then f s else Inr s)
      in if c = 9 then Inr (hide_datepicker None s, False)
         else if c = 13 then keep (enter_key z now sel t i s) True
         else if c = 27 then Inr (hide_datepicker None s, True)
         else if c = 33 then keep (adjust_date z now t (- big) PMonth s) True
         else if c = 34 then keep (adjust_date z now t big PMonth s) True
         else if c = 35 then keep (when cm (clear_date z now t) s) cm
         else if c = 36 then keep (when cm (goto_today z now t) s) cm
         else if c = 37 then
           keep (js_bind (when cm (adjust_date z now t (if is_rtl os then 1 else -1) PDay) s)
             (when (alt_key k) (adjust_date z now t (- big) PMonth))) cm
         else if c = 38 then keep (when cm (adjust_date z now t (-7) PDay) s) cm
         else if c = 39 then
           keep (js_bind (when cm (adjust_date z now t (if is_rtl os then -1 else 1) PDay) s)
             (when (alt_key k) (adjust_date z now t big PMonth))) cm
         else if c = 40 then keep (when cm (adjust_date z now t 7 PDay) s) cm
         else Inr (s, False))"

definition do_key_down ::
  "zone \<Rightarrow> int \<Rightarrow> dp_settings option \<Rightarrow> (bool \<times> int) option \<Rightarrow> nat \<Rightarrow> key_press \<Rightarrow> dp_mgr \<Rightarrow> (dp_mgr \<times> bool) js_result" where
  "do_key_down z now shown sel t k s =
     (case data_of s t of
        None \<Rightarrow> Inl TypeError
      | Some i \<Rightarrow>
          (let s1 = map_inst i (\<lambda>inst. inst\<lparr>key_event := True\<rparr>) s in
           if showing s1 then popup_key z now sel t i k s1
           else if key_code k = 36 \<and> ctrl_key k then js_bind (show_datepicker z now shown t s1) (\<lambda>s'. Inr (s', True))
           else Inr (s1, False)))"

text \<open>Whether a typed character is let through.\<close>

definition do_key_press :: "nat \<Rightarrow> key_press \<Rightarrow> char \<Rightarrow> dp_mgr \<Rightarrow> bool js_result" where
  "do_key_press t k chr s =
     (case data_of s t of
        None \<Rightarrow> Inl TypeError
      | Some i \<Rightarrow>
          Inr (constrain_input (opts_of s i) \<longrightarrow>
            ctrl_key k \<or> meta_key k \<or> (of_char chr :: nat) < 32 \<or>
            (case possible_chars (date_format (opts_of s i)) of
               None \<Rightarrow> True | Some cs \<Rightarrow> cs = [] \<or> chr \<in> set cs)))"

definition do_key_up :: "zone \<Rightarrow> int \<Rightarrow> nat \<Rightarrow> dp_mgr \<Rightarrow> dp_mgr js_result" where
  "do_key_up z now t =
     with_inst t (\<lambda>i s.
       (let inst = inst_of s i; os = opts_of s i in
        if Some (input_val inst) = last_val inst then Inr s
        else (case parse_date z now (Some (date_format os)) (Some (input_val inst)) (Some (get_format_config z now os)) of
          Inr (Some d) \<Rightarrow>
            Inr (update_datepicker z now i
              (map_inst i (\<lambda>inst. update_alternate z now os (set_date_from_field z now os False inst)) s))
        | _ \<Rightarrow> Inr s)))"

text \<open>
  A press of the mouse: whether it hit the popup, an element with a picker, a trigger button;
  \<open>block_ui\<close> says that \<open>$.blockUI\<close> is loaded.
\<close>

definition check_external_click :: "bool \<Rightarrow> nat \<Rightarrow> bool \<Rightarrow> bool \<Rightarrow> bool \<Rightarrow> dp_mgr \<Rightarrow> dp_mgr" where
  "check_external_click block_ui t in_popup marked on_trigger s =
     (case cur_inst s of
        None \<Rightarrow> s
      | Some i \<Rightarrow>
          if (\<not> in_popup \<and> \<not> marked \<and> \<not> on_trigger \<and> showing s \<and> \<not> (in_dialog s \<and> block_ui)) \<or>
             (marked \<and> data_of s t \<noteq> Some i)
          then hide_datepicker None s else s)"

section \<open>Methods\<close>

definition is_disabled :: "nat \<Rightarrow> dp_mgr \<Rightarrow> bool" where
  "is_disabled t s \<longleftrightarrow> t \<in> set (disabled_inputs s)"

definition enable_datepicker :: "nat \<Rightarrow> dp_mgr \<Rightarrow> dp_mgr" where
  "enable_datepicker t s =
     (case data_of s t of
        None \<Rightarrow> s
      | Some i \<Rightarrow>
          (if is_inline (inst_of s i) then s else s\<lparr>field_disabled := (field_disabled s)(t := False)\<rparr>)
            \<lparr>disabled_inputs := filter (\<lambda>x. x \<noteq> t) (disabled_inputs s)\<rparr>)"

definition disable_datepicker :: "nat \<Rightarrow> dp_mgr \<Rightarrow> dp_mgr" where
  "disable_datepicker t s =
     (case data_of s t of
        None \<Rightarrow> s
      | Some i \<Rightarrow>
          (if is_inline (inst_of s i) then s else s\<lparr>field_disabled := (field_disabled s)(t := True)\<rparr>)
            \<lparr>disabled_inputs := filter (\<lambda>x. x \<noteq> t) (disabled_inputs s) @ [t]\<rparr>)"

text \<open>\<open>_connectDatepicker\<close> and \<open>_inlineDatepicker\<close> for the new picker \<open>i\<close> of element \<open>t\<close>.\<close>

definition connect_datepicker :: "dp_settings \<Rightarrow> nat \<Rightarrow> dp_mgr \<Rightarrow> dp_mgr" where
  "connect_datepicker settings t s = (if s_init_disabled settings = Some True then disable_datepicker t s else s)"

definition inline_datepicker :: "zone \<Rightarrow> int \<Rightarrow> dp_settings \<Rightarrow> nat \<Rightarrow> nat \<Rightarrow> dp_mgr \<Rightarrow> dp_mgr" where
  "inline_datepicker z now settings i t s =
     (let os = opts_of s i;
          s1 = update_datepicker z now i
            (map_inst i (\<lambda>inst. set_inst_date z now os (DDate (get_default_date z now os inst)) True inst) s);
          s2 = map_inst i (update_alternate z now os) s1
      in if s_init_disabled settings = Some True then disable_datepicker t s2 else s2)"

definition attach_datepicker :: "zone \<Rightarrow> int \<Rightarrow> bool \<Rightarrow> dp_settings \<Rightarrow> string \<Rightarrow> nat \<Rightarrow> dp_mgr \<Rightarrow> dp_mgr" where
  "attach_datepicker z now inl settings val t s =
     (if data_of s t \<noteq> None then s
      else (let i = next_object s;
                s1 = s\<lparr>objects := (objects s)(i := Some (t, (new_inst inl)\<lparr>inst_settings := settings, input_val := val\<rparr>)),
                       data_of := (data_of s)(t := Some i), next_object := i + 1\<rparr>
            in if inl then inline_datepicker z now settings i t s1 else connect_datepicker settings t s1))"

definition destroy_datepicker :: "nat \<Rightarrow> dp_mgr \<Rightarrow> dp_mgr" where
  "destroy_datepicker t s = s\<lparr>data_of := (data_of s)(t := None)\<rparr>"

definition set_date_datepicker :: "zone \<Rightarrow> int \<Rightarrow> nat \<Rightarrow> date_spec \<Rightarrow> dp_mgr \<Rightarrow> dp_mgr" where
  "set_date_datepicker z now t date s =
     (case data_of s t of
        None \<Rightarrow> s
      | Some i \<Rightarrow>
          map_inst i (update_alternate z now (opts_of s i))
            (update_datepicker z now i (map_inst i (set_inst_date z now (opts_of s i) date False) s)))"

definition get_date_datepicker :: "zone \<Rightarrow> int \<Rightarrow> nat \<Rightarrow> bool \<Rightarrow> dp_mgr \<Rightarrow> dp_mgr \<times> int option" where
  "get_date_datepicker z now t no_default s =
     (case data_of s t of
        None \<Rightarrow> (s, None)
      | Some i \<Rightarrow>
          (let s1 = (if is_inline (inst_of s i) then s
                     else map_inst i (set_date_from_field z now (opts_of s i) no_default) s)
           in (s1, get_inst_date z (inst_of s1 i))))"

definition refresh_datepicker :: "zone \<Rightarrow> int \<Rightarrow> nat \<Rightarrow> dp_mgr \<Rightarrow> dp_mgr" where
  "refresh_datepicker z now t s = (case data_of s t of None \<Rightarrow> s | Some i \<Rightarrow> update_datepicker z now i s)"

definition text_of_date :: "zone \<Rightarrow> int \<Rightarrow> dp_options \<Rightarrow> int \<Rightarrow> string" where
  "text_of_date z now os t = format_date z (date_format os) (Some t) (Some (get_format_config z now os))"

definition option_datepicker :: "zone \<Rightarrow> int \<Rightarrow> nat \<Rightarrow> dp_settings \<Rightarrow> dp_mgr \<Rightarrow> dp_mgr" where
  "option_datepicker z now t p s =
     (case data_of s t of
        None \<Rightarrow> s
      | Some i \<Rightarrow>
          (let s1 = (if cur_inst s = Some i then hide_datepicker None s else s);
               (s2, date) = get_date_datepicker z now t True s1;
               mn = get_min_date z now (opts_of s2 i) (inst_of s2 i);
               mx = get_max_date z now (opts_of s2 i) (inst_of s2 i);
               s3 = map_inst i (\<lambda>inst. inst\<lparr>inst_settings := extend_remove (inst_settings inst) p\<rparr>) s2;
               os3 = opts_of s3 i;
               s4 = (case mn of
                   Some m \<Rightarrow> if s_date_format p \<noteq> None \<and> s_min_date p = None
                     then map_inst i (\<lambda>inst. inst\<lparr>inst_settings := (inst_settings inst)
                       \<lparr>s_min_date := Some (DText (text_of_date z now os3 m))\<rparr>\<rparr>) s3 else s3
                 | None \<Rightarrow> s3);
               s5 = (case mx of
                   Some m \<Rightarrow> if s_date_format p \<noteq> None \<and> s_max_date p = None
                     then map_inst i (\<lambda>inst. inst\<lparr>inst_settings := (inst_settings inst)
                       \<lparr>s_max_date := Some (DText (text_of_date z now os3 m))\<rparr>\<rparr>) s4 else s4
                 | None \<Rightarrow> s4);
               os = opts_of s5 i;
               s6 = map_inst i (set_inst_date z now os (case date of Some d \<Rightarrow> DDate d | None \<Rightarrow> DNull) False) s5;
               s7 = map_inst i (update_alternate z now os) s6
           in update_datepicker z now i s7))"

text \<open>\<open>_dialogDatepicker\<close>; \<open>t\<close> is the field it creates the first time.\<close>

definition dialog_datepicker ::
  "zone \<Rightarrow> int \<Rightarrow> dp_settings option \<Rightarrow> nat \<Rightarrow> date_spec \<Rightarrow> bool \<Rightarrow> dp_settings \<Rightarrow> dp_mgr \<Rightarrow> dp_mgr js_result" where
  "dialog_datepicker z now shown t date callback settings s =
     (let (i, s1) = (case dialog_obj s of
            Some i \<Rightarrow> (i, s)
          | None \<Rightarrow> (next_object s, s\<lparr>objects := (objects s)(next_object s := Some (t, new_inst False)),
              data_of := (data_of s)(t := Some (next_object s)), next_object := next_object s + 1,
              dialog_obj := Some (next_object s)\<rparr>));
          s2 = map_inst i (\<lambda>inst. inst\<lparr>inst_settings := extend_remove (inst_settings inst) settings\<rparr>) s1;
          txt = (case date of DDate d \<Rightarrow> text_of_date z now (opts_of s2 i) d | DText v \<Rightarrow> v
            | DNumber n \<Rightarrow> show_int n | DNull \<Rightarrow> []);
          s3 = map_inst i (\<lambda>inst. inst\<lparr>input_val := txt,
            inst_settings := (inst_settings inst)\<lparr>s_on_select := Some callback\<rparr>\<rparr>) s2
      in show_datepicker z now shown (target_of s3 i) (s3\<lparr>in_dialog := True\<rparr>))"

end
