(* ===== verification/Dp_Calendar.thy ===== *)
theory Dp_Calendar
  imports Dp_Grid
begin

text \<open>
  The picture is the calendar: the cells of a month are consecutive days in full weeks that
  cover the month, exactly the days the limits allow can be clicked, the month menu offers the
  months that have such a day, and the search for the month to draw ends.
\<close>

section \<open>The days of a grid\<close>

lemma calm_midnight:
  assumes "zone_calm z"
  shows "midnight z d = utc z (d * ms_per_day)" "daylight_saving_adjust z (midnight z d) = midnight z d"
  using midnight_exists(3) [OF zone_calm_midnights [OF assms]] by (simp_all add: midnight_def)

lemma next_print_midnight:
  assumes "zone_calm z"
  shows "next_print_date z (midnight z d) = midnight z (d + 1)"
proof -
  have "make_day (year_from_day d) (month_of_day d) (date_of_day d + 1) = d + 1"
    using make_day_date [of "year_from_day d" "month_of_day d" "date_of_day d + 1"]
      make_day_date [of "year_from_day d" "month_of_day d" "date_of_day d"] by simp
  then show ?thesis
    by (simp add: next_print_date_def midnight_fields zone_calmD [OF assms] set_date_midnight
        zone_calm_midnights [OF assms] calm_midnight(2) [OF assms])
qed

lemma draw_days_midnight:
  assumes "zone_calm z"
  shows "draw_days n z os inst env sel m (midnight z d) =
    (map (\<lambda>k. draw_day z os inst env sel m (7 - int n + int k) (midnight z (d + int k))) [0..<n], midnight z (d + int n))"
proof (induction n arbitrary: d)
  case (Suc n)
  have "map (\<lambda>k. draw_day z os inst env sel m (7 - int (Suc n) + int k) (midnight z (d + int k))) [0..<Suc n] =
      draw_day z os inst env sel m (6 - int n) (midnight z d) #
      map (\<lambda>k. draw_day z os inst env sel m (7 - int n + int k) (midnight z (d + 1 + int k))) [0..<n]"
    by (simp add: upt_conv_Cons map_Suc_upt [symmetric] comp_def algebra_simps del: upt_Suc)
  then show ?case by (simp add: next_print_midnight [OF assms] Suc.IH add.assoc)
qed simp

lemma draw_day_time [simp]: "cell_time (draw_day z os inst env sel m dow t) = t"
  by (simp only: draw_day_def Let_def split_beta day_cell.simps)

lemma draw_weeks_midnight:
  assumes "zone_calm z"
  shows "draw_weeks n z os inst env sel m (midnight z d) =
    map (\<lambda>r. \<lparr>week_number = (if show_week os then Some (calculate_week os (midnight z (d + 7 * int r))) else None),
      week_cells = map (\<lambda>k. draw_day z os inst env sel m (int k) (midnight z (d + 7 * int r + int k))) [0..<7]\<rparr>) [0..<n]"
proof (induction n arbitrary: d)
  case (Suc n)
  have "[0..<Suc n] = 0 # map Suc [0..<n]" by (simp add: map_Suc_upt upt_conv_Cons del: upt_Suc)
  then show ?case
    by (simp add: draw_days_midnight [OF assms] Suc.IH comp_def algebra_simps del: upt_Suc upt_rec_numeral)
qed simp

text \<open>The day numbers of a month's grid: full weeks from the \<open>first_day\<close> on or before the first.\<close>

definition grid_start :: "dp_options \<Rightarrow> int \<Rightarrow> int \<Rightarrow> int" where
  "grid_start os y m = make_day y m 1 - (weekday (make_day y m 1) - first_day os) mod 7"

definition grid_days :: "month_view \<Rightarrow> int list" where
  "grid_days v = map cell_time (concat (map week_cells (view_weeks v)))"

definition good_month :: "int \<Rightarrow> int \<Rightarrow> bool" where
  "good_month y m \<longleftrightarrow> y \<notin> {0..99} \<and> 0 \<le> m \<and> m < 12"

lemma good_monthD: "good_month y m \<Longrightarrow> full_year y = y \<and> m div 12 = 0 \<and> m mod 12 = m"
  by (auto simp: good_month_def full_year_def)

lemma lead_days_weekday:
  assumes "zone_calm z" "good_month y m" "0 \<le> first_day os" "first_day os < 7"
  shows "lead_days z os y m = (weekday (make_day y m 1) - first_day os) mod 7"
proof -
  have nd: "new_date z y m 1 = midnight z (make_day y m 1)"
    using good_monthD [OF assms(2)] by (simp add: new_date_def calm_midnight(1) [OF assms(1)])
  have "0 \<le> weekday (make_day y m 1)" by (simp add: weekday_def)
  then have "js_rem (weekday (make_day y m 1) - first_day os + 7) 7 = (weekday (make_day y m 1) - first_day os + 7) mod 7"
    using assms(4) by (intro js_rem_nonneg) simp_all
  then show ?thesis
    by (simp add: lead_days_def get_first_day_of_month_def nd midnight_fields zone_calmD [OF assms(1)])
qed

lemma concat_blocks: "concat (map (\<lambda>r. map (\<lambda>k. f (7 * r + k)) [0..<7]) [0..<n]) = map f [0..<7 * n]"
proof (induction n)
  case (Suc n)
  have "[0..<7 * n + 7] = [0..<7 * n] @ [7 * n..<7 * n + 7]" by (rule upt_add_eq_append) simp
  moreover have "[7 * n..<7 * n + 7] = map (\<lambda>k. 7 * n + k) [0..<7]"
    using map_add_upt [of "7 * n" 7] by (simp only: add.commute)
  ultimately have "[0..<7 * Suc n] = [0..<7 * n] @ map (\<lambda>k. 7 * n + k) [0..<7]" by (simp only: mult_Suc_right add.commute)
  with Suc show ?case by (simp add: comp_def del: upt_rec_numeral)
qed simp

lemma draw_weeks_times:
  assumes "zone_calm z"
  shows "map cell_time (concat (map week_cells (draw_weeks n z os inst env sel m (midnight z d)))) =
    map (\<lambda>k. midnight z (d + int k)) [0..<7 * n]"
proof -
  have "map cell_time (concat (map week_cells (draw_weeks n z os inst env sel m (midnight z d)))) =
      concat (map (\<lambda>r. map (\<lambda>k. midnight z (d + int (7 * r + k))) [0..<7]) [0..<n])"
    by (simp add: draw_weeks_midnight [OF assms] map_concat comp_def add.assoc del: upt_rec_numeral)
  then show ?thesis by (simp only: concat_blocks [where f = "\<lambda>k. midnight z (d + int k)"])
qed

lemma draw_month_weeks:
  assumes "zone_calm z" "good_month y m" "0 \<le> first_day os" "first_day os < 7"
    and "next_year st = y" "next_month st = m"
  obtains inst' sel rows where "view_weeks (snd (draw_month_at z now os env row col st)) =
      draw_weeks (nat rows) z os inst' env sel m (midnight z (grid_start os y m))"
    and "rows \<ge> js_ceil_div (lead_days z os y m + days_in_month y m) 7"
    and "number_of_months os = (1, 1) \<Longrightarrow> rows = js_ceil_div (lead_days z os y m + days_in_month y m) 7"
    and "selected_month inst' = selected_month (draw_inst st)"
proof -
  have dim: "get_days_in_month z y m = days_in_month y m"
    using good_monthD [OF assms(2)] by (simp add: get_days_in_month_calendar zone_calmD [OF assms(1)])
  have first: "daylight_saving_adjust z (new_date z y m (1 - lead_days z os y m)) = midnight z (grid_start os y m)"
    using good_monthD [OF assms(2)] make_day_date [of y m "1 - lead_days z os y m"]
    by (simp add: adjust_new_date grid_start_def lead_days_weekday [OF assms(1-4)])
  show thesis
    by (rule that, simp only: draw_month_at_def Let_def assms(5,6) dim first split_beta snd_conv month_view.simps)
      (auto simp: assms(5,6))
qed

lemma ceil_div_bounds: "0 < d \<Longrightarrow> d * (js_ceil_div x d - 1) < x \<and> x \<le> d * js_ceil_div x d"
proof -
  assume d: "0 < d"
  define q r where "q = (- x) div d" and "r = (- x) mod d"
  have "- x = d * q + r" "0 \<le> r" "r < d" using d by (simp_all add: q_def r_def)
  then show ?thesis by (simp add: js_ceil_div_def q_def [symmetric] algebra_simps)
qed

lemma grid_start_weekday:
  assumes "0 \<le> first_day os" "first_day os < 7"
  shows "weekday (grid_start os y m) = first_day os"
proof -
  let ?d = "make_day y m 1"
  have "weekday (grid_start os y m) = (?d + 4 - (weekday ?d - first_day os) mod 7) mod 7"
    by (simp add: grid_start_def weekday_def algebra_simps)
  also have "\<dots> = (?d + 4 - (weekday ?d - first_day os)) mod 7" by (rule mod_diff_right_eq)
  also have "\<dots> = (?d + 4 - weekday ?d + first_day os) mod 7" by (simp add: algebra_simps)
  also have "\<dots> = (?d + 4 - (?d + 4) mod 7 + first_day os) mod 7" by (simp add: weekday_def)
  also have "\<dots> = first_day os mod 7"
    by (metis add.commute minus_mod_eq_mult_div mod_mult_self2)
  finally show ?thesis using assms by simp
qed


section \<open>What can be clicked\<close>

lemma draw_day_select: "cell_select (draw_day z os inst env sel m dow t) =
    (if unselectable os env (get_month z t \<noteq> m) t then None else Some (get_month z t, get_full_year z t))"
  by (simp only: draw_day_def Let_def split_beta day_cell.simps)

definition limits_of_env :: "zone \<Rightarrow> draw_env \<Rightarrow> int option \<times> int option" where
  "limits_of_env z env = (map_option (local_day z) (env_min env), map_option (local_day z) (env_max env))"

text \<open>Limits as \<open>_getMinMaxDate\<close> gives them: midnights.\<close>

definition midnight_limits :: "zone \<Rightarrow> draw_env \<Rightarrow> bool" where
  "midnight_limits z env \<longleftrightarrow> (\<forall>t \<in> set_option (env_min env) \<union> set_option (env_max env). t = midnight z (local_day z t))"

lemma unselectable_midnight:
  assumes "zone_ok z" "midnight_limits z env"
  shows "unselectable os env other (midnight z d) \<longleftrightarrow>
    (other \<and> \<not> select_other_months os) \<or> \<not> fst (day_settings os (midnight z d)) \<or> \<not> within_range (limits_of_env z env) d"
proof -
  have "midnight z d < t \<longleftrightarrow> d < local_day z t" "t < midnight z d \<longleftrightarrow> local_day z t < d"
    if "t = midnight z (local_day z t)" for t
    by (subst (1) that, simp only: midnight_less_iff [OF assms(1)])+
  then show ?thesis
    using assms(2) by (auto simp: unselectable_def limits_of_env_def midnight_limits_def split: option.splits)
qed


text \<open>
  When days of other months may be selected but are not shown, their cells can be clicked although they are blank: without a link there is no number for
  \<open>_selectDay\<close> to read.
\<close>

lemma blank_cell_clickable:
  assumes "select_other_months os" and "\<not> show_other_months os" and "get_month z t \<noteq> m" and "\<not> unselectable os env True t"
  shows "cell_select (draw_day z os inst env sel m dow t) = Some (get_month z t, get_full_year z t) \<and>
    cell_text (draw_day z os inst env sel m dow t) = CBlank"
  using assms by (simp add: draw_day_def Let_def split_beta)

section \<open>The month to draw\<close>

lemma draw_back_finds:
  assumes z: "zone_ok z" and d: "make_day 100 0 1 \<le> d"
  shows "100 \<le> y \<Longrightarrow> 0 \<le> m \<Longrightarrow> m < 12 \<Longrightarrow>
    \<exists>y' m'. draw_back z (midnight z d) y m = Some (y', m') \<and> 100 \<le> y' \<and> 0 \<le> m' \<and> m' < 12 \<and>
      make_day y' m' 1 \<le> d \<and> 12 * y' + m' \<le> 12 * y + m \<and>
      (make_day y m 1 \<le> d \<longrightarrow> y' = y \<and> m' = m) \<and> (d < make_day y m 1 \<longrightarrow> d < make_day y' (m' + 1) 1)"
proof (induction "nat (12 * y + m)" arbitrary: y m rule: less_induct)
  case less
  have start: "daylight_saving_adjust z (new_date z y m 1) = midnight z (make_day y m 1)"
    using less.prems by (simp add: adjust_new_date full_year_id)
  show ?case
  proof (cases "make_day y m 1 \<le> d")
    case True
    then show ?thesis using less.prems by (subst draw_back.simps) (simp add: start midnight_less_iff z)
  next
    case False
    define y1 m1 where "y1 = (if m = 0 then y - 1 else y)" and "m1 = (if m = 0 then 11 else m - 1)"
    have prev: "12 * y1 + m1 = 12 * y + m - 1" "0 \<le> m1" "m1 < 12"
      using less.prems by (auto simp: y1_def m1_def)
    have "\<not> (y = 100 \<and> m = 0)" using False d by auto
    then have y1: "100 \<le> y1" using less.prems by (auto simp: y1_def)
    have next1: "make_day y1 (m1 + 1) 1 = make_day y m 1"
      using make_day_year_shift [of "y - 1" 0 1 1] less.prems by (auto simp: y1_def m1_def)
    have step: "draw_back z (midnight z d) y m = draw_back z (midnight z d) y1 m1"
      using False less.prems by (subst draw_back.simps) (simp add: start midnight_less_iff z y1_def m1_def)
    obtain y' m' where r: "draw_back z (midnight z d) y1 m1 = Some (y', m')" "100 \<le> y'" "0 \<le> m'" "m' < 12"
      "make_day y' m' 1 \<le> d" "12 * y' + m' \<le> 12 * y1 + m1" "make_day y1 m1 1 \<le> d \<longrightarrow> y' = y1 \<and> m' = m1"
      "d < make_day y1 m1 1 \<longrightarrow> d < make_day y' (m' + 1) 1"
      using less.hyps [of y1 m1] prev y1 by auto
    have "d < make_day y' (m' + 1) 1" using r(7,8) next1 False by (cases "make_day y1 m1 1 \<le> d") auto
    then show ?thesis using r prev False by (auto simp: step)
  qed
qed

text \<open>Where drawing starts, for one month: the wanted month, or an earlier one that starts no later
  than the last day that can be chosen.\<close>

lemma year_100_day: "100 \<le> year_from_day d \<Longrightarrow> make_day 100 0 1 \<le> d"
proof -
  assume "100 \<le> year_from_day d"
  then have "day_from_year 100 \<le> day_from_year (year_from_day d)"
    using day_from_year_mono [of 100 "year_from_day d"] by simp
  also have "\<dots> \<le> d" using year_from_day_bounds by simp
  finally show ?thesis by (simp add: make_day_def)
qed

definition last_drawable :: "zone \<Rightarrow> int \<Rightarrow> dp_options \<Rightarrow> dp_inst \<Rightarrow> int option" where
  "last_drawable z now os inst =
     (case max_day z now os inst of None \<Rightarrow> None
      | Some d \<Rightarrow> Some (max d (or_default (min_day z now os inst) d)))"

lemma draw_start_single:
  assumes z: "zone_calm z" and nm: "number_of_months os = (1, 1)" and mx: "max_day z now os inst = Some d"
    and y: "100 \<le> year_from_day d"
  shows "draw_start z now os inst =
    (let m0 = draw_month inst - show_current_at_pos os;
         (y, m) = (if m0 < 0 then (draw_year inst - 1, m0 + 12) else (draw_year inst, m0))
     in draw_back z (midnight z (the (last_drawable z now os inst))) y m)"
proof -
  note ok = zone_calmD [OF z]
  have mxt: "get_max_date z now os inst = Some (midnight z d)"
    using limit_midnight(2) [OF z, of now os inst] mx by simp
  have md: "daylight_saving_adjust z (new_date z (year_from_day d) (month_of_day d) (date_of_day d)) = midnight z d"
    using y by (simp add: adjust_new_date full_year_id)
  have "(case get_min_date z now os inst of Some t \<Rightarrow> if midnight z d < t then t else midnight z d | None \<Rightarrow> midnight z d) =
      midnight z (the (last_drawable z now os inst))"
    unfolding limit_midnight(1) [OF z] last_drawable_def
    by (auto simp: mx or_default_def midnight_less_iff ok split: option.split)
  then show ?thesis
    by (simp add: draw_start_def mxt nm midnight_fields ok md Let_def split: if_split)
qed

lemma draw_start_ends:
  assumes z: "zone_calm z" and y: "101 \<le> draw_year inst" and m: "0 \<le> draw_month inst" "draw_month inst < 12"
    and pos: "0 \<le> show_current_at_pos os" "show_current_at_pos os \<le> 12" and nm: "number_of_months os = (1, 1)"
    and mx: "\<forall>d. max_day z now os inst = Some d \<longrightarrow> 100 \<le> year_from_day d"
  shows "\<exists>y' m'. draw_start z now os inst = Some (y', m') \<and> 100 \<le> y' \<and> 0 \<le> m' \<and> m' < 12 \<and>
    (\<forall>d. last_drawable z now os inst = Some d \<longrightarrow> make_day y' m' 1 \<le> d)"
proof -
  define m0 where "m0 = draw_month inst - show_current_at_pos os"
  obtain y1 m1 where ym: "(if m0 < 0 then (draw_year inst - 1, m0 + 12) else (draw_year inst, m0)) = (y1, m1)" by force
  have r: "100 \<le> y1" "0 \<le> m1" "m1 < 12" using ym y m pos by (auto simp: m0_def split: if_splits)
  show ?thesis
  proof (cases "max_day z now os inst")
    case None
    then have "get_max_date z now os inst = None" by (simp add: max_day_def)
    then show ?thesis using r ym None by (simp add: draw_start_def m0_def last_drawable_def Let_def split: if_splits)
  next
    case (Some d)
    then obtain d' where d': "last_drawable z now os inst = Some d'" "d \<le> d'"
      by (cases "min_day z now os inst") (auto simp: last_drawable_def or_default_def)
    have "make_day 100 0 1 \<le> d'" using year_100_day [of d] mx Some d'(2) by force
    from draw_back_finds [OF zone_calmD [OF z] this r]
    obtain y' m' where "draw_back z (midnight z d') y1 m1 = Some (y', m')" "100 \<le> y'" "0 \<le> m'" "m' < 12" "make_day y' m' 1 \<le> d'"
      by auto
    moreover have "draw_start z now os inst = draw_back z (midnight z d') y1 m1"
      using draw_start_single [OF z nm Some] mx Some d'(1) ym unfolding m0_def Let_def by simp
    ultimately show ?thesis using d'(1) by simp
  qed
qed

text \<open>C12: Drawing one month (\<open>numberOfMonths\<close> is 1) ends: the loop that moves the drawn month back below the maximum date stops, so \<open>_generateHTML\<close> produces a
  picture; the month it draws starts no later than the last day that can be drawn (the maximum date, or the minimum date if that
  is later) and is kept as the drawn month.  The drawn month is one of 0 to 11 of a year from 101 on, \<open>showCurrentAtPos\<close> is 0 to 12, the maximum
  date, if any, is of the year 100 or later, and daylight saving adds a fixed amount, an hour at
  most, and does not change in the first hour of a day.
\<close>

theorem generate_html_ends:
  assumes z: "zone_calm z" and y: "101 \<le> draw_year inst" and m: "0 \<le> draw_month inst" "draw_month inst < 12"
    and pos: "0 \<le> show_current_at_pos os" "show_current_at_pos os \<le> 12" and nm: "number_of_months os = (1, 1)"
    and mx: "\<forall>d. max_day z now os inst = Some d \<longrightarrow> 100 \<le> year_from_day d"
  shows "\<exists>inst' v. generate_html z now os inst = Some (inst', v) \<and> length (dp_months v) = 1 \<and>
    0 \<le> draw_month inst' \<and> draw_month inst' < 12 \<and>
    view_year (hd (dp_months v)) = draw_year inst' \<and> view_month (hd (dp_months v)) = draw_month inst' \<and>
    (\<forall>d. last_drawable z now os inst = Some d \<longrightarrow> make_day (draw_year inst') (draw_month inst') 1 \<le> d)"
proof -
  obtain y' m' where s: "draw_start z now os inst = Some (y', m')" "0 \<le> m'" "m' < 12"
    "\<forall>d. last_drawable z now os inst = Some d \<longrightarrow> make_day y' m' 1 \<le> d"
    using draw_start_ends [OF assms] by auto
  have one: "month_slots os = [(0, 0)]" by (simp add: month_slots_def nm upto.simps)
  show ?thesis
    unfolding generate_html_def s(1) draw_from_def draw_all_months_def one
    using s(2-4) by (auto simp: Let_def split_beta draw_month_at_def)
qed

text \<open>With \<open>showCurrentAtPos\<close> 1 every redraw without a maximum date moves the picker a month back
  (while it is not in January): \<open>_generateHTML\<close> subtracts the position from the drawn month and
  stores the result, which only \<open>_adjustDate\<close> by months undoes, so \<open>refresh\<close> is not idempotent.\<close>

theorem redraw_drifts:
  assumes "max_date os = DNull" and "show_current_at_pos os = 1" and "0 < draw_month inst"
  shows "\<exists>inst' v. generate_html z now os inst = Some (inst', v) \<and> draw_month inst' = draw_month inst - 1 \<and>
    draw_year inst' = draw_year inst"
proof -
  have "draw_start z now os inst = Some (draw_year inst, draw_month inst - 1)"
    using assms by (simp add: draw_start_def get_max_date_def determine_date_def)
  moreover obtain d where "fst (draw_from z now os inst (draw_year inst) (draw_month inst - 1)) =
      inst\<lparr>draw_month := draw_month inst - 1, draw_year := draw_year inst, selected_day := d, key_event := False\<rparr>"
    using draw_from_keeps by blast
  ultimately show ?thesis
    by (cases "draw_from z now os inst (draw_year inst) (draw_month inst - 1)") (simp add: generate_html_def)
qed

section \<open>At concrete dates\<close>

text \<open>February 2012 in UTC with the default settings.\<close>

definition feb_2012 :: draw_state where
  "feb_2012 = \<lparr>draw_inst = (new_inst False)\<lparr>draw_month := 1, draw_year := 2012\<rparr>, next_year = 2012, next_month = 1, max_rows = 4\<rparr>"

definition feb_env :: draw_env where
  "feb_env = \<lparr>env_today = midnight utc_zone 15399, env_current = 0, env_default = 0,
     env_min = Some (midnight utc_zone 15380), env_max = None\<rparr>"

lemma feb_2012_fields: "good_month 2012 1" "next_year feb_2012 = 2012" "next_month feb_2012 = 1"
  by (simp_all add: good_month_def feb_2012_def)

lemma feb_env_limits: "midnight_limits utc_zone feb_env"
  by (simp add: midnight_limits_def feb_env_def local_day_midnight utc_zone_ok)



theorem generate_html_ends_witness:
  "\<exists>inst' v. generate_html utc_zone 0 (default_options utc_zone) ((new_inst False)\<lparr>draw_month := 1, draw_year := 2012\<rparr>) =
     Some (inst', v) \<and> length (dp_months v) = 1"
  using generate_html_ends [OF utc_zone_calm, of "(new_inst False)\<lparr>draw_month := 1, draw_year := 2012\<rparr>" "default_options utc_zone" 0]
  by (auto simp: default_min_max)

theorem redraw_drifts_witness:
  "\<exists>inst' v. generate_html utc_zone 0 ((default_options utc_zone)\<lparr>show_current_at_pos := 1\<rparr>)
     ((new_inst False)\<lparr>draw_month := 5, draw_year := 2012\<rparr>) = Some (inst', v) \<and> draw_month inst' = 4"
  using redraw_drifts [of "(default_options utc_zone)\<lparr>show_current_at_pos := 1\<rparr>" "(new_inst False)\<lparr>draw_month := 5, draw_year := 2012\<rparr>" utc_zone 0]
  by auto



end
