(* ===== verification/Dp_Popup.thy ===== *)
theory Dp_Popup
  imports Dp_Manager Dp_Calendar
begin

text \<open>
  The life of the shared popup: everything that can happen to the date picker manager as a
  step relation, the invariant that a popup that shows has its picker and its field, and what
  breaks it when popups close with an animation.
\<close>

section \<open>What the operations on pickers leave alone\<close>

lemma map_inst_mgr [simp]:
  "data_of (map_inst i f s) = data_of s" "next_object (map_inst i f s) = next_object s"
  "cur_inst (map_inst i f s) = cur_inst s" "showing (map_inst i f s) = showing s"
  "last_input (map_inst i f s) = last_input s" "in_dialog (map_inst i f s) = in_dialog s"
  "dialog_obj (map_inst i f s) = dialog_obj s" "disabled_inputs (map_inst i f s) = disabled_inputs s"
  "anim_queue (map_inst i f s) = anim_queue s" "mgr_defaults (map_inst i f s) = mgr_defaults s"
  by (simp_all add: map_inst_def)

lemma map_inst_target [simp]: "target_of (map_inst i f s) j = target_of s j"
  by (auto simp: target_of_def map_inst_def split: option.splits prod.splits)

lemma map_inst_none [simp]: "objects (map_inst i f s) j = None \<longleftrightarrow> objects s j = None"
  by (simp add: map_inst_def)

lemma update_datepicker_mgr [simp]:
  "data_of (update_datepicker z now i s) = data_of s" "next_object (update_datepicker z now i s) = next_object s"
  "cur_inst (update_datepicker z now i s) = cur_inst s" "showing (update_datepicker z now i s) = showing s"
  "last_input (update_datepicker z now i s) = last_input s" "in_dialog (update_datepicker z now i s) = in_dialog s"
  "dialog_obj (update_datepicker z now i s) = dialog_obj s"
  "disabled_inputs (update_datepicker z now i s) = disabled_inputs s"
  "anim_queue (update_datepicker z now i s) = anim_queue s" "mgr_defaults (update_datepicker z now i s) = mgr_defaults s"
  "target_of (update_datepicker z now i s) j = target_of s j"
  "objects (update_datepicker z now i s) j = None \<longleftrightarrow> objects s j = None"
  by (simp_all add: update_datepicker_def)

text \<open>What stays of a picker under every operation on it: its settings and whether it is inline.\<close>

definition same_kind :: "dp_inst \<Rightarrow> dp_inst \<Rightarrow> bool" where
  "same_kind a b \<longleftrightarrow> inst_settings a = inst_settings b \<and> is_inline a = is_inline b"

lemma same_kind_trans: "same_kind a b \<Longrightarrow> same_kind b c \<Longrightarrow> same_kind a c"
  by (simp add: same_kind_def)

lemma kind_log_call: "same_kind (log_call b e inst) inst"
  by (simp add: same_kind_def log_call_def)

lemma kind_notify: "same_kind (notify_change os inst) inst"
  by (simp add: same_kind_def)

lemma kind_adjust: "same_kind (adjust_inst_date z now os k p inst) inst"
  by (simp add: same_kind_def adjust_inst_date_def Let_def select_and_draw_def)

lemma kind_set_inst_date: "same_kind (set_inst_date z now os d nc inst) inst"
proof -
  define new where "new = restrict_min_max z now os inst (or_default (determine_date z now os inst d (Some now)) now)"
  define inst1 where "inst1 = set_current z new (select_and_draw z new inst)"
  define inst2 where "inst2 = (if (selected_month inst \<noteq> selected_month inst1 \<or> selected_year inst \<noteq> selected_year inst1) \<and>
     \<not> nc then notify_change os inst1 else inst1)"
  define inst3 where "inst3 = adjust_inst_date z now os 0 PNone inst2"
  have "same_kind inst1 inst" by (simp add: inst1_def same_kind_def set_current_def select_and_draw_def)
  then have "same_kind inst2 inst" by (auto simp: inst2_def same_kind_def)
  then have "same_kind inst3 inst" unfolding inst3_def by (rule same_kind_trans [OF kind_adjust])
  moreover have "set_inst_date z now os d nc inst = (if is_falsy d then inst3\<lparr>input_val := []\<rparr>
      else (fst (format_selected z now os inst3))\<lparr>input_val := snd (format_selected z now os inst3)\<rparr>)"
    unfolding set_inst_date_def Let_def new_def [symmetric] inst1_def [symmetric] inst2_def [symmetric]
      inst3_def [symmetric] by (simp only: case_prod_beta)
  ultimately show ?thesis by (simp add: same_kind_def format_selected_def Let_def)
qed

lemma kind_from_field: "same_kind (set_date_from_field z now os nd inst) inst"
proof -
  have "same_kind (adjust_inst_date z now os 0 PNone a) inst" if "same_kind a inst" for a
    using kind_adjust that by (rule same_kind_trans)
  then show ?thesis
    by (simp add: set_date_from_field_def Let_def split_beta) (simp add: same_kind_def set_current_def select_and_draw_def)
qed

lemma kind_alternate: "same_kind (update_alternate z now os inst) inst"
  by (simp add: same_kind_def update_alternate_def)

lemma kind_today: "same_kind (goto_today_inst z now os inst) inst"
  by (simp add: same_kind_def goto_today_inst_def select_and_draw_def)

lemma kind_month_year: "same_kind (select_month_year_inst os v p inst) inst"
  by (simp add: same_kind_def select_month_year_inst_def)

lemma kind_redraw: "same_kind (redraw z now os inst) inst"
proof (cases "draw_start z now os inst")
  case None
  then show ?thesis by (simp add: redraw_def generate_html_def same_kind_def)
next
  case (Some ym)
  obtain y m where ym: "ym = (y, m)" by force
  obtain d where "fst (draw_from z now os inst y m) = inst\<lparr>draw_month := m, draw_year := y, selected_day := d, key_event := False\<rparr>"
    using draw_from_keeps by blast
  then show ?thesis
    by (cases "draw_from z now os inst y m") (simp add: redraw_def generate_html_def Some ym same_kind_def)
qed

lemmas kinds = kind_log_call kind_notify kind_adjust kind_set_inst_date kind_from_field kind_alternate kind_today
  kind_month_year kind_redraw

section \<open>The invariant\<close>

text \<open>
  When no settings ask for an animation: the popup shows exactly when a field is remembered
  as the last input, and then it belongs to that field's picker; otherwise no picker is current.
\<close>

definition plain :: "dp_settings \<Rightarrow> bool" where
  "plain p \<longleftrightarrow> s_show_anim p \<in> {None, Some []}"

definition objects_ok :: "dp_mgr \<Rightarrow> bool" where
  "objects_ok s \<longleftrightarrow>
     (\<forall>i t inst. objects s i = Some (t, inst) \<longrightarrow> plain (inst_settings inst)) \<and> show_anim (mgr_defaults s) = [] \<and>
     (\<forall>t i. data_of s t = Some i \<longrightarrow> objects s i \<noteq> None \<and> target_of s i = t) \<and>
     (\<forall>i. next_object s \<le> i \<longrightarrow> objects s i = None) \<and> (\<forall>i. dialog_obj s = Some i \<longrightarrow> objects s i \<noteq> None)"

definition popup_ok :: "dp_mgr \<Rightarrow> bool" where
  "popup_ok s \<longleftrightarrow> objects_ok s \<and> anim_queue s = [] \<and>
     (if showing s
      then \<exists>i. cur_inst s = Some i \<and> objects s i \<noteq> None \<and> last_input s = Some (target_of s i)
      else cur_inst s = None \<and> last_input s = None)"

lemma plain_effective: "plain p \<Longrightarrow> show_anim d = [] \<Longrightarrow> show_anim (effective d p) = []"
  by (auto simp: effective_def or_default_def plain_def split: option.splits)

lemma no_animation:
  assumes "objects_ok s"
  shows "show_anim (opts_of s i) = []"
proof -
  have "plain no_settings" by (simp add: plain_def no_settings_def)
  then have "plain (inst_settings (inst_of s i))"
    using assms by (cases "objects s i") (auto simp: objects_ok_def inst_of_def new_inst_def)
  then show ?thesis using assms by (simp add: opts_of_def plain_effective objects_ok_def)
qed

text \<open>Changing a picker keeps the invariant when its settings stay free of animations.\<close>

lemma objects_ok_map:
  assumes "objects_ok s" and "\<And>inst. plain (inst_settings inst) \<Longrightarrow> plain (inst_settings (f inst))"
  shows "objects_ok (map_inst i f s)"
proof -
  have "plain (inst_settings inst)" if "objects (map_inst i f s) j = Some (t, inst)" for j t inst
    using that assms by (cases "j = i"; cases "objects s i") (auto simp: objects_ok_def map_inst_def)
  then show ?thesis using assms(1) by (simp add: objects_ok_def)
qed

lemma popup_ok_map:
  assumes "popup_ok s" and "\<And>inst. plain (inst_settings inst) \<Longrightarrow> plain (inst_settings (f inst))"
  shows "popup_ok (map_inst i f s)"
proof -
  have "objects_ok (map_inst i f s)"
    using assms by (intro objects_ok_map) (simp_all only: popup_ok_def)
  then show ?thesis using assms(1) by (simp add: popup_ok_def del: not_None_eq)
qed

lemma popup_ok_kind: "popup_ok s \<Longrightarrow> (\<And>inst. same_kind (f inst) inst) \<Longrightarrow> popup_ok (map_inst i f s)"
  by (rule popup_ok_map) (simp_all add: same_kind_def)

lemma objects_ok_kind: "objects_ok s \<Longrightarrow> (\<And>inst. same_kind (f inst) inst) \<Longrightarrow> objects_ok (map_inst i f s)"
  by (rule objects_ok_map) (simp_all add: same_kind_def)

lemma popup_ok_update: "popup_ok s \<Longrightarrow> popup_ok (update_datepicker z now i s)"
  unfolding update_datepicker_def by (rule popup_ok_kind) (simp_all add: kinds)

lemma objects_ok_update: "objects_ok s \<Longrightarrow> objects_ok (update_datepicker z now i s)"
  unfolding update_datepicker_def by (rule objects_ok_kind) (simp_all add: kinds)

lemma plain_extend: "plain p \<Longrightarrow> plain q \<Longrightarrow> plain (extend_remove p q)"
  by (auto simp: plain_def extend_remove_def split: option.splits)

text \<open>Closing: afterwards nothing shows, unless the picker asked to close is not the current one.\<close>

lemma hide_shut:
  assumes "popup_ok s" and "showing s" and "case x of Some t \<Rightarrow> data_of s t = cur_inst s | None \<Rightarrow> True"
  shows "popup_ok (hide_datepicker x s)" "\<not> showing (hide_datepicker x s)"
proof -
  obtain i where i: "cur_inst s = Some i" using assms(1,2) by (auto simp: popup_ok_def)
  have "objects_ok s" using assms(1) by (simp add: popup_ok_def)
  then have "objects_ok (map_inst i f (s\<lparr>cur_inst := None, showing := False\<rparr>))" if "\<And>inst. same_kind (f inst) inst" for f
    using that by (intro objects_ok_kind) (auto simp: objects_ok_def target_of_def)
  from this [OF kind_log_call] have o: "objects_ok ((map_inst i (\<lambda>inst. log_call (on_close (opts_of s i)) (OnClose (input_val inst)) inst)
      (s\<lparr>cur_inst := None, showing := False\<rparr>))\<lparr>last_input := None, in_dialog := False\<rparr>)"
    by (simp add: objects_ok_def target_of_def)
  have h: "hide_datepicker x s = (map_inst i (\<lambda>inst. log_call (on_close (opts_of s i)) (OnClose (input_val inst)) inst)
      (s\<lparr>cur_inst := None, showing := False\<rparr>))\<lparr>last_input := None, in_dialog := False\<rparr>"
    using assms i no_animation [OF \<open>objects_ok s\<close>, of i]
    by (auto simp: hide_datepicker_def hide_with_def Let_def split: option.splits)
  show "\<not> showing (hide_datepicker x s)" by (simp add: h)
  show "popup_ok (hide_datepicker x s)" using assms(1) o by (simp add: h popup_ok_def)
qed

lemma hide_closed: "\<not> showing s \<Longrightarrow> hide_datepicker x s = s"
  by (simp add: hide_datepicker_def hide_with_def split: option.split)

lemma hide_other: "showing s \<Longrightarrow> x = Some t \<Longrightarrow> data_of s t \<noteq> cur_inst s \<Longrightarrow> hide_datepicker x s = s"
  by (auto simp: hide_datepicker_def hide_with_def split: option.split)

lemma popup_ok_hide: "popup_ok s \<Longrightarrow> popup_ok (hide_datepicker x s)"
  using hide_closed [of s x] hide_shut(1) [of s x] hide_other [of s x]
  by (cases "showing s"; cases x) force+

text \<open>Opening: another picker's popup is closed first, if its field still has that picker.\<close>

lemma stop_animations_none: "anim_queue s = [] \<Longrightarrow> stop_animations s = s"
  by (simp add: stop_animations_def animation_done_def)

lemma hide_keeps [simp]:
  "data_of (hide_datepicker x s) = data_of s" "objects (hide_datepicker x s) j = None \<longleftrightarrow> objects s j = None"
  "target_of (hide_datepicker x s) j = target_of s j" "mgr_defaults (hide_datepicker x s) = mgr_defaults s"
  "disabled_inputs (hide_datepicker x s) = disabled_inputs s"
  by (auto simp: hide_datepicker_def hide_with_def Let_def target_of_def map_inst_def split: option.splits prod.splits)

lemma is_inline_map: "(\<And>inst. is_inline (f inst) = is_inline inst) \<Longrightarrow> is_inline (inst_of (map_inst i f s) j) = is_inline (inst_of s j)"
  by (auto simp: inst_of_def map_inst_def split: option.splits prod.splits)

lemma is_inline_kind: "(\<And>inst. same_kind (f inst) inst) \<Longrightarrow> is_inline (inst_of (map_inst i f s) j) = is_inline (inst_of s j)"
  by (rule is_inline_map) (simp add: same_kind_def)

lemma is_inline_update [simp]: "is_inline (inst_of (update_datepicker z now i s) j) = is_inline (inst_of s j)"
  unfolding update_datepicker_def by (rule is_inline_kind) (rule kind_redraw)

lemma is_inline_hide [simp]: "is_inline (inst_of (hide_datepicker x s) j) = is_inline (inst_of s j)"
proof -
  have "is_inline (inst_of (s'\<lparr>last_input := l, in_dialog := b\<rparr>) j) = is_inline (inst_of s' j)"
    "is_inline (inst_of (s'\<lparr>showing := b\<rparr>) j) = is_inline (inst_of s' j)"
    "is_inline (inst_of (s'\<lparr>cur_inst := c\<rparr>) j) = is_inline (inst_of s' j)"
    "is_inline (inst_of (s'\<lparr>anim_queue := q\<rparr>) j) = is_inline (inst_of s' j)" for s' l b c q
    by (simp_all add: inst_of_def)
  moreover note is_inline_kind [OF kind_log_call]
  ultimately show ?thesis by (simp add: hide_datepicker_def hide_with_def Let_def split: option.split)
qed

lemma switch_ok:
  assumes "popup_ok s" and "switch_picker i s = Inr s'"
  shows "popup_ok s'" "data_of s' = data_of s" "target_of s' j = target_of s j"
    "is_inline (inst_of s' j) = is_inline (inst_of s j)"
proof -
  have q: "anim_queue s = []" using assms(1) by (simp add: popup_ok_def)
  then have "s' = s \<or> (\<exists>x. s' = hide_datepicker x s)"
    using assms(2) stop_animations_none [OF q]
    by (auto simp: switch_picker_def Let_def split: option.splits if_splits)
  then show "popup_ok s'" "data_of s' = data_of s" "target_of s' j = target_of s j"
    "is_inline (inst_of s' j) = is_inline (inst_of s j)"
    using popup_ok_hide [OF assms(1)] assms(1) by auto
qed

text \<open>A picker that has just been given to the popup.\<close>

definition opened :: "nat \<Rightarrow> nat \<Rightarrow> dp_mgr \<Rightarrow> dp_mgr" where
  "opened i t s = s\<lparr>showing := True, cur_inst := Some i, last_input := Some t\<rparr>"

lemma popup_ok_opened:
  assumes "objects_ok s" "anim_queue s = []" "data_of s t = Some i"
  shows "popup_ok (opened i t s)"
proof -
  have "objects_ok (opened i t s)" using assms(1) by (simp add: objects_ok_def opened_def target_of_def)
  moreover have "objects s i \<noteq> None" "target_of s i = t" using assms(1,3) by (auto simp: objects_ok_def)
  ultimately show ?thesis using assms(2) by (simp add: popup_ok_def opened_def target_of_def)
qed

lemma open_picker_plain:
  assumes "objects_ok s1 \<and> anim_queue s1 = []" "data_of s1 t = Some i" "\<not> is_inline (inst_of s1 i)" "plain p"
  shows "\<exists>s6. open_picker z now t i p s1 = opened i t s6 \<and> objects_ok s6 \<and> anim_queue s6 = [] \<and> data_of s6 t = Some i"
proof -
  define s2 where "s2 = map_inst i (\<lambda>inst. inst\<lparr>inst_settings := extend_remove (inst_settings inst) p, last_val := None\<rparr>) s1"
  define s3 where "s3 = s2\<lparr>last_input := Some t\<rparr>"
  define s4 where "s4 = map_inst i (set_date_from_field z now (opts_of s3 i) False) s3"
  define s5 where "s5 = (if in_dialog s4 then map_inst i (\<lambda>inst. inst\<lparr>input_val := []\<rparr>) s4 else s4)"
  define s6 where "s6 = update_datepicker z now i s5"
  have "objects_ok s1" using assms(1) by simp
  then have "objects_ok s2" unfolding s2_def by (rule objects_ok_map) (simp add: plain_extend assms(4))
  then have "objects_ok s3" by (simp add: s3_def objects_ok_def target_of_def)
  then have "objects_ok s4" unfolding s4_def by (rule objects_ok_kind) (simp add: kinds)
  then have "objects_ok s5" unfolding s5_def by (auto intro!: objects_ok_kind simp: same_kind_def)
  then have o: "objects_ok s6" unfolding s6_def by (rule objects_ok_update)
  have q: "anim_queue s6 = []" using assms(1) by (simp add: s6_def s5_def s4_def s3_def s2_def)
  have d: "data_of s6 t = Some i" using assms(2) by (simp add: s6_def s5_def s4_def s3_def s2_def)
  have l: "last_input s6 = Some t" by (simp add: s6_def s5_def s4_def s3_def)
  have "is_inline (inst_of s3 i) = is_inline (inst_of s2 i)" by (simp add: s3_def inst_of_def)
  then have "is_inline (inst_of s6 i) = is_inline (inst_of s1 i)"
    unfolding s6_def is_inline_update s5_def s4_def by (simp add: is_inline_map is_inline_kind kinds s2_def)
  then have "open_picker z now t i p s1 = opened i t s6"
    using assms(3) no_animation [OF o, of i] q l
    unfolding open_picker_def Let_def s2_def [symmetric] s3_def [symmetric] s4_def [symmetric] s5_def [symmetric]
      s6_def [symmetric] by (simp add: opened_def)
  with o q d show ?thesis by blast
qed

lemma open_picker_opened:
  assumes "popup_ok s1" "data_of s1 t = Some i" "\<not> is_inline (inst_of s1 i)" "plain p"
  shows "\<exists>s6. open_picker z now t i p s1 = opened i t s6 \<and> objects_ok s6 \<and> anim_queue s6 = [] \<and> data_of s6 t = Some i"
  by (rule open_picker_plain [OF _ assms(2-4)]) (use assms(1) in \<open>simp add: popup_ok_def\<close>)

lemma show_cases:
  assumes "popup_ok s" and "show_datepicker z now shown t s = Inr s'" and "t \<notin> set (disabled_inputs s)" "last_input s \<noteq> Some t"
  obtains i s1 where "data_of s t = Some i" "switch_picker i s = Inr s1"
    "s' = (case shown of None \<Rightarrow> s1 | Some p \<Rightarrow> open_picker z now t i p s1)"
  using assms by (auto simp: show_datepicker_def with_inst_def js_bind_Inr_iff split: option.splits)

lemma show_ok:
  assumes "popup_ok s" and "show_datepicker z now shown t s = Inr s'" and "\<And>p. shown = Some p \<Longrightarrow> plain p"
    and "\<And>i. data_of s t = Some i \<Longrightarrow> \<not> is_inline (inst_of s i)"
  shows "popup_ok s'"
proof (cases "t \<in> set (disabled_inputs s) \<or> last_input s = Some t")
  case True
  then show ?thesis using assms(1,2) by (simp add: show_datepicker_def)
next
  case False
  then obtain i s1 where i: "data_of s t = Some i" and s1: "switch_picker i s = Inr s1"
    and rest: "s' = (case shown of None \<Rightarrow> s1 | Some p \<Rightarrow> open_picker z now t i p s1)"
    using show_cases [OF assms(1,2)] by blast
  note sw = switch_ok [OF assms(1) s1]
  have "\<not> is_inline (inst_of s1 i)" using sw(4) assms(4) [OF i] by simp
  note op = open_picker_opened [OF sw(1) _ this, of t] and one = sw(1)
  show ?thesis
  proof (cases shown)
    case None
    then show ?thesis using rest one by simp
  next
    case (Some p)
    have "data_of s1 t = Some i" using sw(2) i by simp
    from op [OF this assms(3) [OF Some], of z now] rest popup_ok_opened show ?thesis by (auto simp: Some)
  qed
qed

text \<open>The other operations.\<close>

lemma hide_none_shut: "popup_ok s \<Longrightarrow> \<not> showing (hide_datepicker None s)"
  using hide_shut(2) [of s None] hide_closed [of s None] by (cases "showing s") simp_all

lemma popup_ok_forget: "popup_ok s \<Longrightarrow> \<not> showing s \<Longrightarrow> popup_ok (s\<lparr>last_input := None\<rparr>)"
  by (simp add: popup_ok_def objects_ok_def target_of_def)

lemma with_inst_Inr: "with_inst t f s = Inr s' \<longleftrightarrow> (\<exists>i. data_of s t = Some i \<and> f i s = Inr s')"
  by (auto simp: with_inst_def split: option.splits)

lemma kind_const [simp]: "same_kind inst inst"
  by (simp add: same_kind_def)

lemma select_date_ok: "popup_ok s \<Longrightarrow> select_date z now t txt s = Inr s' \<Longrightarrow> popup_ok s'"
proof -
  assume ok: "popup_ok s" and r: "select_date z now t txt s = Inr s'"
  then obtain i where i: "data_of s t = Some i" by (auto simp: select_date_def with_inst_Inr)
  define s1 where "s1 = map_inst i (\<lambda>inst. update_alternate z now (opts_of s i) (inst\<lparr>input_val := txt\<rparr>)) s"
  define s2 where "s2 = map_inst i (log_call True (if on_select (opts_of s i) then OnSelect txt else ChangeEvent)) s1"
  have "same_kind (update_alternate z now os (inst\<lparr>input_val := txt\<rparr>)) inst" for os inst
    by (rule same_kind_trans [OF kind_alternate]) (simp add: same_kind_def)
  then have "popup_ok s1" unfolding s1_def by (intro popup_ok_kind [OF ok])
  then have two: "popup_ok s2" unfolding s2_def by (rule popup_ok_kind) (rule kinds)
  have "s' = (if is_inline (inst_of s2 i) then update_datepicker z now i s2 else (hide_datepicker None s2)\<lparr>last_input := None\<rparr>)"
    using r i unfolding select_date_def with_inst_Inr Let_def s1_def [symmetric] s2_def [symmetric]
    by (auto simp: s1_def [symmetric] s2_def [symmetric] split: if_splits)
  then show ?thesis
    using popup_ok_update [OF two] popup_ok_forget [OF popup_ok_hide [OF two] hide_none_shut [OF two]] by simp
qed

lemma select_day_ok: "popup_ok s \<Longrightarrow> select_day z now t m y b d s = Inr s' \<Longrightarrow> popup_ok s'"
  by (auto simp: select_day_def with_inst_Inr Let_def same_kind_def split: if_splits
      elim!: select_date_ok [rotated] intro!: popup_ok_kind)

lemma clear_date_ok: "popup_ok s \<Longrightarrow> clear_date z now t s = Inr s' \<Longrightarrow> popup_ok s'"
  by (auto simp: clear_date_def with_inst_Inr intro: select_date_ok)

lemma adjust_date_ok: "popup_ok s \<Longrightarrow> adjust_date z now t k p s = Inr s' \<Longrightarrow> popup_ok s'"
  by (auto simp: adjust_date_def with_inst_Inr split: if_splits intro!: popup_ok_update popup_ok_kind kinds)

lemma goto_today_ok: "popup_ok s \<Longrightarrow> goto_today z now t s = Inr s' \<Longrightarrow> popup_ok s'"
  by (auto simp: goto_today_def with_inst_Inr elim!: adjust_date_ok [rotated] intro!: popup_ok_kind kinds)

lemma select_month_year_ok: "popup_ok s \<Longrightarrow> select_month_year z now t v p s = Inr s' \<Longrightarrow> popup_ok s'"
  by (auto simp: select_month_year_def with_inst_Inr elim!: adjust_date_ok [rotated] intro!: popup_ok_kind kinds)

lemma kind_select_format: "same_kind (case format_selected z now os inst of (inst1, txt) \<Rightarrow> log_call b (e txt) inst1) inst"
  by (simp add: format_selected_def Let_def same_kind_def log_call_def)

lemma enter_key_ok: "popup_ok s \<Longrightarrow> enter_key z now sel t i s = Inr s' \<Longrightarrow> popup_ok s'"
  by (auto simp: enter_key_def js_bind_Inr_iff split: option.splits if_splits
      intro!: popup_ok_hide popup_ok_kind kind_select_format dest: select_day_ok)

lemma popup_key_ok: "popup_ok s \<Longrightarrow> popup_key z now sel t i k s = Inr (s', h) \<Longrightarrow> popup_ok s'"
  unfolding popup_key_def Let_def
  by (auto simp: js_bind_Inr_iff split: if_splits
      dest: enter_key_ok adjust_date_ok clear_date_ok goto_today_ok intro: popup_ok_hide)

lemma key_down_ok:
  assumes "popup_ok s" and "do_key_down z now shown sel t k s = Inr (s', h)" and "\<And>p. shown = Some p \<Longrightarrow> plain p"
    and "\<And>i. data_of s t = Some i \<Longrightarrow> \<not> is_inline (inst_of s i)"
  shows "popup_ok s'"
proof -
  obtain i where i: "data_of s t = Some i" using assms(2) by (auto simp: do_key_down_def split: option.splits)
  define s1 where "s1 = map_inst i (\<lambda>inst. inst\<lparr>key_event := True\<rparr>) s"
  have one: "popup_ok s1" unfolding s1_def by (rule popup_ok_kind [OF assms(1)]) (simp add: same_kind_def)
  have inl: "\<And>j. data_of s1 t = Some j \<Longrightarrow> \<not> is_inline (inst_of s1 j)"
    using assms(4) by (simp add: s1_def is_inline_map)
  show ?thesis
    using assms(2) i popup_key_ok [OF one] show_ok [OF one _ assms(3) inl] one
    by (auto simp: do_key_down_def Let_def s1_def [symmetric] js_bind_Inr_iff split: if_splits)
qed

lemma key_up_ok: "popup_ok s \<Longrightarrow> do_key_up z now t s = Inr s' \<Longrightarrow> popup_ok s'"
  by (auto simp: do_key_up_def with_inst_Inr Let_def split: if_splits sum.splits option.splits
      intro!: popup_ok_update popup_ok_kind same_kind_trans [OF kind_alternate] kinds)

lemma external_click_ok: "popup_ok s \<Longrightarrow> popup_ok (check_external_click b t x y w s)"
  by (auto simp: check_external_click_def popup_ok_hide split: option.split)

text \<open>The invariant depends on a few fields, and forgetting data keeps it.\<close>

lemma popup_ok_frame:
  assumes "popup_ok s" and "objects s' = objects s" "anim_queue s' = anim_queue s" "showing s' = showing s"
    "cur_inst s' = cur_inst s" "last_input s' = last_input s" "next_object s' = next_object s"
    "dialog_obj s' = dialog_obj s" "mgr_defaults s' = mgr_defaults s"
    and "\<And>t i. data_of s' t = Some i \<Longrightarrow> data_of s t = Some i"
  shows "popup_ok s'"
proof -
  have "target_of s' = target_of s" by (simp add: target_of_def assms(2) fun_eq_iff)
  moreover from this have "objects_ok s'"
  proof -
    have o: "objects_ok s" using assms(1) by (simp add: popup_ok_def)
    have "\<forall>t i. data_of s' t = Some i \<longrightarrow> objects s' i \<noteq> None \<and> target_of s' i = t"
      using o assms(2,10) \<open>target_of s' = target_of s\<close> unfolding objects_ok_def by metis
    then show ?thesis using o assms(2,7-9) by (simp add: objects_ok_def del: not_None_eq)
  qed
  ultimately show ?thesis using assms(1-6) by (simp add: popup_ok_def del: not_None_eq)
qed

lemma disable_ok: "popup_ok s \<Longrightarrow> popup_ok (disable_datepicker t s)"
  by (cases "data_of s t") (auto simp: disable_datepicker_def elim!: popup_ok_frame)

lemma enable_ok: "popup_ok s \<Longrightarrow> popup_ok (enable_datepicker t s)"
  by (cases "data_of s t") (auto simp: enable_datepicker_def elim!: popup_ok_frame)

lemma destroy_ok: "popup_ok s \<Longrightarrow> popup_ok (destroy_datepicker t s)"
  by (auto simp: destroy_datepicker_def elim!: popup_ok_frame split: if_splits)

lemma set_date_ok: "popup_ok s \<Longrightarrow> popup_ok (set_date_datepicker z now t d s)"
  by (auto simp: set_date_datepicker_def split: option.split intro!: popup_ok_kind popup_ok_update kinds)

lemma get_date_ok: "popup_ok s \<Longrightarrow> popup_ok (fst (get_date_datepicker z now t b s))"
  by (auto simp: get_date_datepicker_def Let_def split: option.split intro!: popup_ok_kind kinds)

lemma refresh_ok: "popup_ok s \<Longrightarrow> popup_ok (refresh_datepicker z now t s)"
  by (auto simp: refresh_datepicker_def split: option.split intro!: popup_ok_update)

lemma new_object_ok:
  assumes ok: "popup_ok s" and "plain p" and "data_of s t = None" and "inst_settings inst = p"
  shows "popup_ok (s\<lparr>objects := (objects s)(next_object s := Some (t, inst)),
    data_of := (data_of s)(t := Some (next_object s)), next_object := next_object s + 1\<rparr>)" (is "popup_ok ?s")
proof -
  let ?n = "next_object s"
  have o: "objects_ok s" using ok by (simp add: popup_ok_def)
  have free: "objects s ?n = None" using o by (simp add: objects_ok_def)
  have tgt: "target_of ?s i = target_of s i" if "objects s i \<noteq> None" for i
    using that free by (auto simp: target_of_def)
  have "objects_ok ?s"
    unfolding objects_ok_def
  proof (intro conjI allI impI)
    fix i x inst' assume "objects ?s i = Some (x, inst')"
    then show "plain (inst_settings inst')" using o assms(2,4) by (auto simp: objects_ok_def split: if_splits)
  next
    fix x i assume d: "data_of ?s x = Some i"
    then show "objects ?s i \<noteq> None" using o by (auto simp: objects_ok_def split: if_splits)
    show "target_of ?s i = x"
    proof (cases "x = t")
      case True
      then show ?thesis using d by (simp add: target_of_def)
    next
      case False
      then have "objects s i \<noteq> None \<and> target_of s i = x" using d o by (simp add: objects_ok_def)
      then show ?thesis using tgt by metis
    qed
  qed (use o in \<open>auto simp: objects_ok_def\<close>)
  moreover have "\<exists>i. cur_inst s = Some i \<and> objects ?s i \<noteq> None \<and> last_input s = Some (target_of ?s i)" if sh: "showing s"
  proof -
    obtain i where "cur_inst s = Some i" "objects s i \<noteq> None" "last_input s = Some (target_of s i)"
      using ok sh by (auto simp: popup_ok_def)
    with tgt show ?thesis by (intro exI [of _ i]) auto
  qed
  ultimately show ?thesis using ok by (simp add: popup_ok_def)
qed

lemma attach_ok:
  assumes "popup_ok s" and "plain p"
  shows "popup_ok (attach_datepicker z now inl p v t s)"
proof (cases "data_of s t")
  case None
  from new_object_ok [OF assms None, of "(new_inst inl)\<lparr>inst_settings := p, input_val := v\<rparr>"]
  show ?thesis
    unfolding attach_datepicker_def inline_datepicker_def connect_datepicker_def Let_def
    by (auto simp: None intro!: disable_ok popup_ok_kind popup_ok_update kinds)
qed (simp add: attach_datepicker_def assms(1))

lemma plain_dates: "plain p \<Longrightarrow> plain (p\<lparr>s_min_date := m\<rparr>)" "plain p \<Longrightarrow> plain (p\<lparr>s_max_date := m\<rparr>)"
  "plain p \<Longrightarrow> plain (p\<lparr>s_on_select := b\<rparr>)"
  by (simp_all add: plain_def)

lemma option_ok:
  assumes "popup_ok s" and "plain p"
  shows "popup_ok (option_datepicker z now t p s)"
proof (cases "data_of s t")
  case None
  then show ?thesis using assms(1) by (simp add: option_datepicker_def)
next
  case (Some i)
  have "popup_ok (if cur_inst s = Some i then hide_datepicker None s else s)" using popup_ok_hide [OF assms(1)] assms(1) by simp
  then have two: "popup_ok (fst (get_date_datepicker z now t True (if cur_inst s = Some i then hide_datepicker None s else s)))"
    by (rule get_date_ok)
  have ext: "popup_ok (map_inst i (\<lambda>inst. inst\<lparr>inst_settings := extend_remove (inst_settings inst) p\<rparr>) s')" if "popup_ok s'" for s'
    by (rule popup_ok_map [OF that]) (simp add: plain_extend assms(2))
  have mn: "popup_ok (case m of Some d \<Rightarrow> if b then map_inst i (\<lambda>inst. inst\<lparr>inst_settings := (inst_settings inst)
      \<lparr>s_min_date := f d\<rparr>\<rparr>) s' else s' | None \<Rightarrow> s')" if "popup_ok s'" for s' m b f
    using that by (auto intro!: popup_ok_map simp: plain_dates split: option.split)
  have mx: "popup_ok (case m of Some d \<Rightarrow> if b then map_inst i (\<lambda>inst. inst\<lparr>inst_settings := (inst_settings inst)
      \<lparr>s_max_date := f d\<rparr>\<rparr>) s' else s' | None \<Rightarrow> s')" if "popup_ok s'" for s' m b f
    using that by (auto intro!: popup_ok_map simp: plain_dates split: option.split)
  show ?thesis
    unfolding option_datepicker_def Some option.case Let_def split_beta
    by (intro popup_ok_update popup_ok_kind [OF _ kind_alternate] popup_ok_kind [OF _ kind_set_inst_date] mx mn ext two)
qed

lemma trigger_ok:
  assumes "popup_ok s" and "trigger_click z now shown t s = Inr s'" and "\<And>p. shown = Some p \<Longrightarrow> plain p"
    and "\<And>i. data_of s t = Some i \<Longrightarrow> \<not> is_inline (inst_of s i)"
  shows "popup_ok s'"
  using assms(2) show_ok [OF assms(1) _ assms(3,4)] show_ok [OF popup_ok_hide [OF assms(1)] _ assms(3)] assms(4)
    popup_ok_hide [OF assms(1)]
  by (auto simp: trigger_click_def split: if_splits)

lemma popup_ok_dialog: "popup_ok s \<Longrightarrow> objects s i \<noteq> None \<Longrightarrow> popup_ok (s\<lparr>dialog_obj := Some i\<rparr>)"
proof -
  assume ok: "popup_ok s" and i: "objects s i \<noteq> None"
  have t: "target_of (s\<lparr>dialog_obj := Some i\<rparr>) = target_of s" by (simp add: target_of_def fun_eq_iff)
  have "objects_ok (s\<lparr>dialog_obj := Some i\<rparr>)"
    using ok i unfolding popup_ok_def objects_ok_def t by (simp del: not_None_eq)
  then show ?thesis using ok unfolding popup_ok_def t by (simp del: not_None_eq)
qed

lemma dialog_ok:
  assumes "popup_ok s" and "dialog_datepicker z now shown t d cb p s = Inr s'" and "plain p" and "\<And>q. shown = Some q \<Longrightarrow> plain q"
    and free: "dialog_obj s = None \<Longrightarrow> data_of s t = None"
    and own: "\<And>i. dialog_obj s = Some i \<Longrightarrow> data_of s (target_of s i) = Some i \<and> \<not> is_inline (inst_of s i)"
  shows "popup_ok s'"
proof -
  define i where "i = (case dialog_obj s of Some i \<Rightarrow> i | None \<Rightarrow> next_object s)"
  define s1 where "s1 = (case dialog_obj s of Some i \<Rightarrow> s
    | None \<Rightarrow> s\<lparr>objects := (objects s)(next_object s := Some (t, new_inst False)),
              data_of := (data_of s)(t := Some (next_object s)), next_object := next_object s + 1,
              dialog_obj := Some (next_object s)\<rparr>)"
  define s2 where "s2 = map_inst i (\<lambda>inst. inst\<lparr>inst_settings := extend_remove (inst_settings inst) p\<rparr>) s1"
  define shown_text where "shown_text = (case d of DDate d \<Rightarrow> text_of_date z now (opts_of s2 i) d | DText v \<Rightarrow> v
            | DNumber n \<Rightarrow> show_int n | DNull \<Rightarrow> [])"
  define s3 where "s3 = map_inst i (\<lambda>inst. inst\<lparr>input_val := shown_text,
            inst_settings := (inst_settings inst)\<lparr>s_on_select := Some cb\<rparr>\<rparr>) s2"
  have pair: "(case dialog_obj s of Some i \<Rightarrow> (i, s)
    | None \<Rightarrow> (next_object s, s\<lparr>objects := (objects s)(next_object s := Some (t, new_inst False)),
              data_of := (data_of s)(t := Some (next_object s)), next_object := next_object s + 1,
              dialog_obj := Some (next_object s)\<rparr>)) = (i, s1)"
    by (simp add: i_def s1_def split: option.split)
  have r: "show_datepicker z now shown (target_of s3 i) (s3\<lparr>in_dialog := True\<rparr>) = Inr s'"
    using assms(2) unfolding dialog_datepicker_def Let_def pair prod.case
    by (simp only: s3_def s2_def shown_text_def)
  have new: "popup_ok (s\<lparr>objects := (objects s)(next_object s := Some (t, new_inst False)),
    data_of := (data_of s)(t := Some (next_object s)), next_object := next_object s + 1\<rparr>)" if "dialog_obj s = None"
    using new_object_ok [OF assms(1) _ free [OF that], of "inst_settings (new_inst False)"] 
    by (simp add: plain_def new_inst_def no_settings_def)
  have one: "popup_ok s1"
  proof (cases "dialog_obj s")
    case None
    from popup_ok_dialog [OF new [OF None], of "next_object s"] show ?thesis by (simp add: s1_def None)
  qed (simp add: s1_def assms(1))
  have two: "popup_ok s2" unfolding s2_def by (rule popup_ok_map [OF one]) (simp add: plain_extend assms(3))
  have three: "popup_ok s3" unfolding s3_def by (rule popup_ok_map [OF two]) (simp add: plain_dates)
  have four: "popup_ok (s3\<lparr>in_dialog := True\<rparr>)" using three by (rule popup_ok_frame) simp_all
  have inl1: "data_of s1 (target_of s1 i) = Some i \<and> \<not> is_inline (inst_of s1 i)"
    using own by (cases "dialog_obj s") (auto simp: s1_def i_def target_of_def inst_of_def new_inst_def)
  have "is_inline (inst_of (s3\<lparr>in_dialog := True\<rparr>) i) = is_inline (inst_of s3 i)" by (simp add: inst_of_def)
  also have "\<dots> = is_inline (inst_of s1 i)" by (simp add: s3_def s2_def is_inline_map)
  finally have inl: "\<not> is_inline (inst_of (s3\<lparr>in_dialog := True\<rparr>) i)" using inl1 by simp
  have "data_of (s3\<lparr>in_dialog := True\<rparr>) (target_of s3 i) = Some i" using inl1 by (simp add: s3_def s2_def)
  then show ?thesis using show_ok [OF four r assms(4)] inl by simp
qed

lemma animation_done_ok: "popup_ok s \<Longrightarrow> popup_ok (animation_done s)"
  by (simp add: animation_done_def popup_ok_def del: not_None_eq)

lemma set_defaults_ok: "popup_ok s \<Longrightarrow> plain p \<Longrightarrow> popup_ok (set_defaults p s)"
proof -
  assume ok: "popup_ok s" and p: "plain p"
  have t: "target_of (set_defaults p s) = target_of s" by (simp add: target_of_def set_defaults_def fun_eq_iff)
  have "objects_ok (set_defaults p s)"
    using ok p unfolding popup_ok_def objects_ok_def t by (simp add: set_defaults_def plain_effective del: not_None_eq)
  then show ?thesis using ok unfolding popup_ok_def t by (simp add: set_defaults_def del: not_None_eq)
qed

section \<open>Everything that can happen\<close>

text \<open>
  \<open>anim p\<close> says which settings the page may pass.  A show or a key needs the field's own
  picker to be a popup, since only inputs are given these handlers; the field of the dialog
  must still have the dialog's picker (\<open>destroy\<close> would take it away).
\<close>

definition shows_popup :: "dp_mgr \<Rightarrow> nat \<Rightarrow> bool" where
  "shows_popup s t \<longleftrightarrow> (case data_of s t of Some i \<Rightarrow> \<not> is_inline (inst_of s i) | None \<Rightarrow> True)"

definition dialog_kept :: "dp_mgr \<Rightarrow> nat \<Rightarrow> bool" where
  "dialog_kept s t \<longleftrightarrow> (case dialog_obj s of Some i \<Rightarrow> data_of s (target_of s i) = Some i \<and> shows_popup s (target_of s i)
     | None \<Rightarrow> data_of s t = None)"

inductive dp_step :: "zone \<Rightarrow> (dp_settings \<Rightarrow> bool) \<Rightarrow> dp_mgr \<Rightarrow> dp_mgr \<Rightarrow> bool" for z anim where
  step_attach: "anim p \<Longrightarrow> dp_step z anim s (attach_datepicker z now inl p v t s)"
| step_defaults: "anim p \<Longrightarrow> dp_step z anim s (set_defaults p s)"
| step_show: "pred_option anim shown \<Longrightarrow> shows_popup s t \<Longrightarrow> show_datepicker z now shown t s = Inr s' \<Longrightarrow> dp_step z anim s s'"
| step_trigger: "pred_option anim shown \<Longrightarrow> shows_popup s t \<Longrightarrow> trigger_click z now shown t s = Inr s' \<Longrightarrow> dp_step z anim s s'"
| step_key_down: "pred_option anim shown \<Longrightarrow> shows_popup s t \<Longrightarrow> do_key_down z now shown sel t k s = Inr (s', h) \<Longrightarrow> dp_step z anim s s'"
| step_key_up: "do_key_up z now t s = Inr s' \<Longrightarrow> dp_step z anim s s'"
| step_type: "data_of s t = Some i \<Longrightarrow> dp_step z anim s (map_inst i (\<lambda>inst. inst\<lparr>input_val := v\<rparr>) s)"
| step_click: "dp_step z anim s (check_external_click b t x y w s)"
| step_hide: "dp_step z anim s (hide_datepicker x s)"
| step_day: "select_day z now t m y b d s = Inr s' \<Longrightarrow> dp_step z anim s s'"
| step_clear: "clear_date z now t s = Inr s' \<Longrightarrow> dp_step z anim s s'"
| step_link: "adjust_date z now t k p s = Inr s' \<Longrightarrow> dp_step z anim s s'"
| step_today: "goto_today z now t s = Inr s' \<Longrightarrow> dp_step z anim s s'"
| step_month_year: "select_month_year z now t v p s = Inr s' \<Longrightarrow> dp_step z anim s s'"
| step_enable: "dp_step z anim s (enable_datepicker t s)"
| step_disable: "dp_step z anim s (disable_datepicker t s)"
| step_destroy: "dp_step z anim s (destroy_datepicker t s)"
| step_set: "dp_step z anim s (set_date_datepicker z now t d s)"
| step_get: "dp_step z anim s (fst (get_date_datepicker z now t b s))"
| step_refresh: "dp_step z anim s (refresh_datepicker z now t s)"
| step_option: "anim p \<Longrightarrow> dp_step z anim s (option_datepicker z now t p s)"
| step_dialog: "anim p \<Longrightarrow> pred_option anim shown \<Longrightarrow> dialog_kept s t \<Longrightarrow>
    dialog_datepicker z now shown t d cb p s = Inr s' \<Longrightarrow> dp_step z anim s s'"
| step_anim: "dp_step z anim s (animation_done s)"

text \<open>The page first sets its defaults, \<open>p\<close>.\<close>

inductive dp_reachable :: "zone \<Rightarrow> dp_settings \<Rightarrow> (dp_settings \<Rightarrow> bool) \<Rightarrow> dp_mgr \<Rightarrow> bool" for z p anim where
  reach_start: "dp_reachable z p anim (set_defaults p (initial_mgr z))"
| reach_step: "dp_reachable z p anim s \<Longrightarrow> dp_step z anim s s' \<Longrightarrow> dp_reachable z p anim s'"

lemma shows_popup_not_inline: "shows_popup s t \<Longrightarrow> data_of s t = Some i \<Longrightarrow> \<not> is_inline (inst_of s i)"
  by (simp add: shows_popup_def)

lemma dp_step_ok: "dp_step z plain s s' \<Longrightarrow> popup_ok s \<Longrightarrow> popup_ok s'"
proof (induction rule: dp_step.induct)
  case (step_dialog p shown s t d cb s' now)
  show ?case
  proof (rule dialog_ok [OF step_dialog.prems step_dialog.hyps(4) step_dialog.hyps(1)])
    show "plain q" if "shown = Some q" for q using that step_dialog.hyps(2) by simp
    show "data_of s t = None" if "dialog_obj s = None" using that step_dialog.hyps(3) by (simp add: dialog_kept_def)
    show "data_of s (target_of s i) = Some i \<and> \<not> is_inline (inst_of s i)" if "dialog_obj s = Some i" for i
      using that step_dialog.hyps(3) by (auto simp: dialog_kept_def shows_popup_def)
  qed
next
  case (step_show shown s t now s')
  then show ?case by (auto elim!: show_ok simp: shows_popup_def)
next
  case (step_trigger shown s t now s')
  then show ?case by (auto elim!: trigger_ok simp: shows_popup_def)
next
  case (step_key_down shown s t now sel k s' h)
  then show ?case by (auto elim!: key_down_ok simp: shows_popup_def)
next
  case (step_type s t i v)
  then show ?case by (auto intro!: popup_ok_kind simp: same_kind_def)
qed (simp_all add: attach_ok set_defaults_ok external_click_ok popup_ok_hide enable_ok disable_ok destroy_ok set_date_ok
    get_date_ok refresh_ok option_ok animation_done_ok key_up_ok [rotated] select_day_ok [rotated] clear_date_ok [rotated]
    adjust_date_ok [rotated] goto_today_ok [rotated] select_month_year_ok [rotated])

lemma initial_ok: "s_show_anim p = Some [] \<Longrightarrow> popup_ok (set_defaults p (initial_mgr z))"
  by (simp add: popup_ok_def objects_ok_def initial_mgr_def set_defaults_def effective_def or_default_def)

text \<open>C13: On a page whose settings ask for no animation the popup shows exactly when a picker is current and a field is the last input, and the
  two belong together.  This holds after any sequence of the operations of the picker that do not throw: attaching, showing, keys, clicks, links and menus, hiding,
  enabling, destroying, the methods that set and get dates and options, and the dialog (as long as its field keeps its picker).  The handlers of the page
  (\<open>beforeShow\<close>, \<open>onClose\<close>, \<open>onSelect\<close> and so on) answer but do not call the picker: an \<open>onClose\<close> that opens another one breaks it.
\<close>

theorem popup_has_owner:
  assumes "dp_reachable z p plain s" and "s_show_anim p = Some []"
  shows "(showing s \<longleftrightarrow> (\<exists>i t inst. cur_inst s = Some i \<and> objects s i = Some (t, inst) \<and> last_input s = Some t)) \<and>
    (showing s \<longleftrightarrow> cur_inst s \<noteq> None) \<and> (showing s \<longleftrightarrow> last_input s \<noteq> None)"
proof -
  have "popup_ok s" using assms(1) by induction (auto intro: dp_step_ok initial_ok [OF assms(2)])
  then show ?thesis
    by (auto simp: popup_ok_def target_of_def split: if_splits)
qed

lemma switch_returns: "popup_ok s \<Longrightarrow> \<exists>s1. switch_picker i s = Inr s1"
  using stop_animations_none [of s] by (auto simp: switch_picker_def Let_def popup_ok_def split: option.split)

lemma reachable_ok: "dp_reachable z p plain s \<Longrightarrow> s_show_anim p = Some [] \<Longrightarrow> popup_ok s"
  by (induction rule: dp_reachable.induct) (auto intro: dp_step_ok initial_ok)


definition demo_settings :: dp_settings where
  "demo_settings = no_settings\<lparr>s_show_anim := Some []\<rparr>"

lemma demo_plain [simp]: "plain demo_settings" "plain no_settings" "s_show_anim demo_settings = Some []"
  by (simp_all add: plain_def demo_settings_def no_settings_def)

definition demo_page :: dp_mgr where
  "demo_page = attach_datepicker utc_zone 0 False no_settings [] 7 (set_defaults demo_settings (initial_mgr utc_zone))"

lemma demo_reachable: "dp_reachable utc_zone demo_settings plain demo_page"
  unfolding demo_page_def by (rule reach_step [OF reach_start step_attach]) simp

lemma demo_page_field: "data_of demo_page 7 = Some 0" "disabled_inputs demo_page = []" "last_input demo_page = None"
  "shows_popup demo_page 7"
  by (simp_all add: demo_page_def attach_datepicker_def connect_datepicker_def set_defaults_def initial_mgr_def no_settings_def shows_popup_def
      inst_of_def new_inst_def)


text \<open>The page after field 7 was focused.\<close>

definition demo_open :: dp_mgr where
  "demo_open = (case show_datepicker utc_zone 0 (Some no_settings) 7 demo_page of Inr s \<Rightarrow> s | Inl e \<Rightarrow> demo_page)"

lemma demo_open_reachable: "dp_reachable utc_zone demo_settings plain demo_open"
proof (cases "show_datepicker utc_zone 0 (Some no_settings) 7 demo_page")
  case (Inr s)
  have "dp_step utc_zone plain demo_page s"
    by (rule step_show [OF _ demo_page_field(4) Inr]) simp
  with demo_reachable show ?thesis by (simp add: demo_open_def Inr reach_step)
qed (simp add: demo_open_def demo_reachable)

theorem popup_has_owner_witness:
  "(showing demo_open \<longleftrightarrow> cur_inst demo_open \<noteq> None) \<and> (showing demo_open \<longleftrightarrow> last_input demo_open \<noteq> None)"
  using popup_has_owner [OF demo_open_reachable demo_plain(3)] by blast

text \<open>
  An \<open>onClose\<close> that opens the picker of another field \<open>t'\<close> runs before \<open>_hideDatepicker\<close> forgets the last input: the popup is open then
  but belongs to no field.
\<close>

lemma on_close_shows_another:
  fixes now :: int
  assumes s: "dp_reachable z p plain s" "s_show_anim p = Some []" and open_now: "showing s" "cur_inst s = Some i" "on_close (opts_of s i)"
    and t': "data_of s t' = Some i'" "shows_popup s t'" "t' \<notin> set (disabled_inputs s)" "last_input s \<noteq> Some t'" "plain q"
  defines "react \<equiv> \<lambda>v. case show_datepicker z now (Some q) t' v of Inr w \<Rightarrow> w | Inl e \<Rightarrow> v"
  shows "showing (hide_with react None s) \<and> cur_inst (hide_with react None s) = Some i' \<and> last_input (hide_with react None s) = None"
proof -
  define v where "v = map_inst i (\<lambda>inst. log_call (on_close (opts_of s i)) (OnClose (input_val inst)) inst)
    (s\<lparr>cur_inst := None, showing := False\<rparr>)"
  have ok: "popup_ok s" by (rule reachable_ok [OF s])
  then have o: "objects_ok s" "anim_queue s = []" by (simp_all add: popup_ok_def)
  then have "objects_ok (s\<lparr>cur_inst := None, showing := False\<rparr>)" by (simp add: objects_ok_def target_of_def)
  then have v: "objects_ok v \<and> anim_queue v = []" using o(2) objects_ok_kind [OF _ kind_log_call] by (simp add: v_def)
  have keep: "data_of v = data_of s" "disabled_inputs v = disabled_inputs s" "last_input v = last_input s" "cur_inst v = None"
    by (simp_all add: v_def)
  have "is_inline (inst_of v i') = is_inline (inst_of (s\<lparr>cur_inst := None, showing := False\<rparr>) i')"
    unfolding v_def by (rule is_inline_kind) (rule kind_log_call)
  then have inl: "\<not> is_inline (inst_of v i')" using shows_popup_not_inline [OF t'(2,1)] by (simp add: inst_of_def)
  obtain w where w: "open_picker z now t' i' q v = opened i' t' w"
    using open_picker_plain [OF v _ inl t'(5), of t' z now] t'(1) keep(1) by auto
  have "switch_picker i' v = Inr v" by (simp add: switch_picker_def keep(4))
  then have "react v = opened i' t' w"
    using t' w by (simp add: react_def show_datepicker_def with_inst_def keep)
  moreover have "hide_with react None s = (react v)\<lparr>last_input := None, in_dialog := False\<rparr>"
    using open_now no_animation [OF o(1), of i] by (simp add: hide_with_def Let_def v_def)
  ultimately show ?thesis by (simp add: opened_def)
qed

section \<open>Enter\<close>

lemma inst_of_map: "objects s i \<noteq> None \<Longrightarrow> inst_of (map_inst i f s) i = f (inst_of s i)"
  by (auto simp: inst_of_def map_inst_def)

lemma opts_of_same: "same_kind (inst_of s' i) (inst_of s i) \<Longrightarrow> mgr_defaults s' = mgr_defaults s \<Longrightarrow> opts_of s' i = opts_of s i"
  by (simp add: opts_of_def same_kind_def)

lemma calls_hide:
  assumes "cur_inst s = Some i" "showing s" "objects s i \<noteq> None"
  shows "calls (inst_of (hide_datepicker None s) i) =
      calls (inst_of s i) @ (if on_close (opts_of s i) then [OnClose (input_val (inst_of s i))] else [])"
    and "\<not> showing (hide_datepicker None s)"
    and "same_kind (inst_of (hide_datepicker None s) i) (inst_of s i)"
    and "\<exists>inst. inst_of (hide_datepicker None s) i = log_call (on_close (opts_of s i)) (OnClose (input_val inst)) inst \<and> inst = inst_of s i"
proof -
  define s1 where "s1 = (if show_anim (opts_of s i) \<noteq> [] then s\<lparr>anim_queue := anim_queue s @ [AHide i]\<rparr>
                          else s\<lparr>cur_inst := None\<rparr>)\<lparr>showing := False\<rparr>"
  have o: "objects s1 = objects s" by (simp add: s1_def)
  then have i1: "inst_of s1 i = inst_of s i" by (simp add: inst_of_def)
  have h: "hide_datepicker None s = (map_inst i (\<lambda>inst. log_call (on_close (opts_of s i)) (OnClose (input_val inst)) inst) s1)
    \<lparr>last_input := None, in_dialog := False\<rparr>"
    using assms by (simp add: hide_datepicker_def hide_with_def Let_def s1_def)
  have "inst_of (s'\<lparr>last_input := None, in_dialog := False\<rparr>) i = inst_of s' i" for s' by (simp add: inst_of_def)
  then have e: "inst_of (hide_datepicker None s) i =
      log_call (on_close (opts_of s i)) (OnClose (input_val (inst_of s i))) (inst_of s i)"
    using assms(3) o i1 by (simp add: h inst_of_map)
  then show "calls (inst_of (hide_datepicker None s) i) =
      calls (inst_of s i) @ (if on_close (opts_of s i) then [OnClose (input_val (inst_of s i))] else [])"
    "same_kind (inst_of (hide_datepicker None s) i) (inst_of s i)"
    "\<exists>inst. inst_of (hide_datepicker None s) i = log_call (on_close (opts_of s i)) (OnClose (input_val inst)) inst \<and> inst = inst_of s i"
    by (simp_all add: kind_log_call) (simp add: log_call_def)
  show "\<not> showing (hide_datepicker None s)" by (simp add: h s1_def)
qed

definition enter :: key_press where
  "enter = \<lparr>key_code = 13, ctrl_key = False, meta_key = False, alt_key = False\<rparr>"

text \<open>The calls that choosing a day in the popup makes.\<close>

lemma select_day_calls:
  fixes z :: zone and now day m y :: int
  assumes "cur_inst s = Some i" "showing s" "objects s i \<noteq> None" "data_of s t = Some i" "\<not> is_inline (inst_of s i)"
    "t \<notin> set (disabled_inputs s)" "on_select (opts_of s i)"
  defines "d \<equiv> format_day z now (opts_of s i) day m y"
  shows "\<exists>s'. select_day z now t m y False day s = Inr s' \<and> \<not> showing s' \<and> objects s' i \<noteq> None \<and>
    same_kind (inst_of s' i) (inst_of s i) \<and> mgr_defaults s' = mgr_defaults s \<and>
    selected_day (inst_of s' i) = day \<and> selected_month (inst_of s' i) = m \<and> selected_year (inst_of s' i) = y \<and>
    calls (inst_of s' i) = calls (inst_of s i) @ [OnSelect d] @ (if on_close (opts_of s i) then [OnClose d] else [])"
proof -
  define f where "f = (\<lambda>inst :: dp_inst. inst\<lparr>selected_day := day, current_day := day, selected_month := m,
               current_month := m, selected_year := y, current_year := y\<rparr>)"
  define s1 where "s1 = map_inst i f s"
  have kf: "same_kind (f inst) inst" for inst by (simp add: f_def same_kind_def)
  have i1: "inst_of s1 i = f (inst_of s i)" using assms(3) by (simp add: s1_def inst_of_map)
  have o1: "opts_of s1 i = opts_of s i" by (rule opts_of_same) (simp add: i1 kf, simp add: s1_def)
  define g where "g = (\<lambda>inst. update_alternate z now (opts_of s i) (inst\<lparr>input_val := d\<rparr>))"
  have kg: "same_kind (g inst) inst" for inst
    unfolding g_def by (rule same_kind_trans [OF kind_alternate]) (simp add: same_kind_def)
  define s2 where "s2 = map_inst i (log_call True (OnSelect d)) (map_inst i g s1)"
  have i2: "inst_of s2 i = log_call True (OnSelect d) (g (f (inst_of s i)))"
    using assms(3) i1 by (simp add: s2_def s1_def inst_of_map)
  have k2: "same_kind (inst_of s2 i) (inst_of s i)"
    unfolding i2 by (rule same_kind_trans [OF kind_log_call]) (rule same_kind_trans [OF kg kf])
  have o2: "opts_of s2 i = opts_of s i" by (rule opts_of_same [OF k2]) (simp add: s2_def s1_def)
  have n2: "cur_inst s2 = Some i" "showing s2" "objects s2 i \<noteq> None" using assms(1-3) by (simp_all add: s2_def s1_def)
  note h = calls_hide [OF n2]
  have iv: "input_val (inst_of s2 i) = d" "calls (inst_of s2 i) = calls (inst_of s i) @ [OnSelect d]"
    by (simp_all add: i2 g_def log_call_def update_alternate_def f_def)
  define s3 where "s3 = (hide_datepicker None s2)\<lparr>last_input := None\<rparr>"
  have i3: "inst_of s3 i = inst_of (hide_datepicker None s2) i" by (simp add: s3_def inst_of_def)
  have "\<not> is_inline (inst_of s2 i)" using k2 assms(5) by (simp add: same_kind_def)
  then have "select_day z now t m y False day s = Inr s3"
    using assms(4,6,7) o1 o2
    by (simp add: select_day_def select_date_def with_inst_def Let_def f_def [symmetric] s1_def [symmetric] d_def [symmetric]
      g_def [symmetric] s2_def [symmetric] s3_def [symmetric])
  moreover have "\<not> showing s3" "objects s3 i \<noteq> None" "mgr_defaults s3 = mgr_defaults s"
    using h(2) n2(3) by (simp_all add: s3_def s2_def s1_def)
  moreover have "same_kind (inst_of s3 i) (inst_of s i)" unfolding i3 using same_kind_trans [OF h(3) k2] .
  moreover have "selected_day (inst_of s3 i) = day" "selected_month (inst_of s3 i) = m" "selected_year (inst_of s3 i) = y"
    using h(4) i2 by (auto simp: i3 log_call_def g_def update_alternate_def f_def)
  moreover have "calls (inst_of s3 i) = calls (inst_of s i) @ [OnSelect d] @ (if on_close (opts_of s i) then [OnClose d] else [])"
    unfolding i3 h(1) using iv o2 by simp
  ultimately show ?thesis by blast
qed

text \<open>Enter on a highlighted day of the popup chooses that day and closes the popup, but calls
  \<open>onSelect\<close> twice with the same text: once for the chosen cell and once more after closing.\<close>

theorem enter_selects_twice:
  fixes z :: zone and now day :: int
  assumes "cur_inst s = Some i" "showing s" "objects s i = Some (t, inst)" "data_of s t = Some i" "\<not> is_inline inst"
    "t \<notin> set (disabled_inputs s)" "on_select (opts_of s i)"
  defines "d \<equiv> format_day z now (opts_of s i) day (selected_month inst) (selected_year inst)"
  shows "\<exists>s'. do_key_down z now shown (Some (False, day)) t enter s = Inr (s', True) \<and> \<not> showing s' \<and>
    calls (inst_of s' i) = calls inst @ [OnSelect d] @ (if on_close (opts_of s i) then [OnClose d] else []) @ [OnSelect d]"
proof -
  define s1 where "s1 = map_inst i (\<lambda>inst. inst\<lparr>key_event := True\<rparr>) s"
  have inst: "inst_of s i = inst" using assms(3) by (simp add: inst_of_def)
  have i1: "inst_of s1 i = inst\<lparr>key_event := True\<rparr>" using assms(3) inst by (simp add: s1_def inst_of_map)
  have "same_kind (inst_of s1 i) (inst_of s i)" by (simp add: i1 inst same_kind_def)
  then have o1: "opts_of s1 i = opts_of s i" by (rule opts_of_same) (simp add: s1_def)
  have pre: "cur_inst s1 = Some i" "showing s1" "objects s1 i \<noteq> None" "data_of s1 t = Some i" "\<not> is_inline (inst_of s1 i)"
    "t \<notin> set (disabled_inputs s1)" "on_select (opts_of s1 i)"
    using assms(1-7) by (simp_all add: i1 o1 del: not_None_eq) (simp_all add: s1_def del: not_None_eq)
  obtain s2 where s2: "select_day z now t (selected_month inst) (selected_year inst) False day s1 = Inr s2"
    and r2: "\<not> showing s2" "objects s2 i \<noteq> None" "same_kind (inst_of s2 i) (inst_of s1 i)" "mgr_defaults s2 = mgr_defaults s1"
      "selected_day (inst_of s2 i) = day" "selected_month (inst_of s2 i) = selected_month inst"
      "selected_year (inst_of s2 i) = selected_year inst"
      "calls (inst_of s2 i) = calls (inst_of s1 i) @ [OnSelect d] @ (if on_close (opts_of s1 i) then [OnClose d] else [])"
    using select_day_calls [OF pre, where z = z and now = now and day = day and m = "selected_month inst" and y = "selected_year inst"] unfolding d_def o1 by blast
  have o2: "opts_of s2 i = opts_of s i" using opts_of_same [OF r2(3,4)] o1 by simp
  define s3 where "s3 = map_inst i (\<lambda>inst. (let (inst1, r) = format_selected z now (opts_of s2 i) inst
    in log_call True (OnSelect r) inst1)) s2"
  have "enter_key z now (Some (False, day)) t i s1 = Inr s3"
    using assms(7) by (simp add: enter_key_def i1 s2 s3_def o2)
  then have "do_key_down z now shown (Some (False, day)) t enter s = Inr (s3, True)"
    using assms(4) pre(2) by (simp add: do_key_down_def s1_def [symmetric] popup_key_def enter_def)
  moreover have "\<not> showing s3" using r2(1) by (simp add: s3_def)
  moreover have "calls (inst_of s3 i) = calls (inst_of s2 i) @ [OnSelect d]"
    using r2(2,5-7) by (simp add: s3_def inst_of_map format_selected_def log_call_def o2 d_def format_day_def)
  ultimately show ?thesis using r2(8) by (simp add: i1 o1)
qed

definition demo_enter :: dp_mgr where
  "demo_enter = (initial_mgr utc_zone)
     \<lparr>objects := [0 \<mapsto> (7, (new_inst False)\<lparr>inst_settings := no_settings\<lparr>s_on_select := Some True\<rparr>\<rparr>)],
      data_of := [7 \<mapsto> 0], cur_inst := Some 0, showing := True, last_input := Some 7\<rparr>"

lemma demo_enter_on_select: "on_select (opts_of demo_enter 0)" "\<not> on_close (opts_of demo_enter 0)"
  by (simp_all add: demo_enter_def opts_of_def inst_of_def initial_mgr_def new_inst_def no_settings_def effective_def
      or_default_def)

theorem enter_selects_twice_witness:
  "\<exists>s' d. do_key_down utc_zone 0 None (Some (False, 9)) 7 enter demo_enter = Inr (s', True) \<and>
     calls (inst_of s' 0) = [OnSelect d, OnSelect d]"
proof -
  have "\<exists>s'. do_key_down utc_zone 0 None (Some (False, 9)) 7 enter demo_enter = Inr (s', True) \<and> \<not> showing s' \<and>
      calls (inst_of s' 0) = [] @ [OnSelect d] @ [] @ [OnSelect d]" if "d = format_day utc_zone 0 (opts_of demo_enter 0) 9 0 0" for d
    using enter_selects_twice [of demo_enter 0 7 "(new_inst False)\<lparr>inst_settings := no_settings\<lparr>s_on_select := Some True\<rparr>\<rparr>"
        utc_zone 0 None 9] demo_enter_on_select that
    by (simp add: demo_enter_def initial_mgr_def new_inst_def)
  then show ?thesis by fastforce
qed

section \<open>Closing with an animation\<close>

lemma open_picker_inline:
  assumes "\<not> is_inline (inst_of s1 i)"
  shows "\<exists>q. anim_queue (open_picker z now t i p s1) = anim_queue s1 @ q \<and> showing (open_picker z now t i p s1) \<and>
    cur_inst (open_picker z now t i p s1) = Some i \<and> data_of (open_picker z now t i p s1) = data_of s1 \<and>
    last_input (open_picker z now t i p s1) = Some t \<and>
    disabled_inputs (open_picker z now t i p s1) = disabled_inputs s1 \<and>
    \<not> is_inline (inst_of (open_picker z now t i p s1) i)"
proof -
  define s2 where "s2 = map_inst i (\<lambda>inst. inst\<lparr>inst_settings := extend_remove (inst_settings inst) p, last_val := None\<rparr>) s1"
  define s3 where "s3 = s2\<lparr>last_input := Some t\<rparr>"
  define s4 where "s4 = map_inst i (set_date_from_field z now (opts_of s3 i) False) s3"
  define s5 where "s5 = (if in_dialog s4 then map_inst i (\<lambda>inst. inst\<lparr>input_val := []\<rparr>) s4 else s4)"
  define s6 where "s6 = update_datepicker z now i s5"
  have "is_inline (inst_of s3 i) = is_inline (inst_of s2 i)" by (simp add: s3_def inst_of_def)
  then have inl: "\<not> is_inline (inst_of s6 i)"
    using assms unfolding s6_def is_inline_update s5_def s4_def by (simp add: is_inline_map is_inline_kind kinds s2_def)
  have o: "open_picker z now t i p s1 = s6\<lparr>showing := True, cur_inst := Some i,
      anim_queue := (if show_anim (opts_of s6 i) \<noteq> [] then anim_queue s6 @ [AShow i] else anim_queue s6)\<rparr>"
    using inl unfolding open_picker_def Let_def s2_def [symmetric] s3_def [symmetric] s4_def [symmetric] s5_def [symmetric]
      s6_def [symmetric] by simp
  have "is_inline (inst_of (open_picker z now t i p s1) i) = is_inline (inst_of s6 i)" by (simp add: o inst_of_def)
  with inl show ?thesis by (simp add: o) (simp add: s6_def s5_def s4_def s3_def s2_def)
qed

text \<open>With animations (the default \<open>fadeIn\<close>), a popup that is closed and reopened from the same field
  before the closing animation ends is orphaned: when that animation ends the popup shows but no
  picker is current, and then neither \<open>hide\<close> nor a click elsewhere closes it.  If instead
  another field is focused meanwhile, the handler dies with a TypeError.\<close>

theorem reopen_orphans_popup:
  assumes "cur_inst s = Some i" "showing s" "objects s i = Some (t, inst)" "data_of s t = Some i" "\<not> is_inline inst"
    and "show_anim (opts_of s i) \<noteq> []" "anim_queue s = []" "t \<notin> set (disabled_inputs s)"
  shows "\<exists>s2. show_datepicker z now (Some q) t (hide_datepicker None s) = Inr s2 \<and>
    (let s3 = animation_done s2
     in showing s3 \<and> cur_inst s3 = None \<and> hide_datepicker x s3 = s3 \<and> check_external_click b t' p m w s3 = s3) \<and>
    (data_of s u = Some j \<and> j \<noteq> i \<and> u \<notin> set (disabled_inputs s) \<and> u \<noteq> t \<longrightarrow>
       show_datepicker z now' r u s2 = Inl TypeError)"
proof -
  define s1 where "s1 = hide_datepicker None s"
  have s1: "cur_inst s1 = Some i" "\<not> showing s1" "last_input s1 = None" "anim_queue s1 = [AHide i]"
    using assms by (simp_all add: s1_def hide_datepicker_def hide_with_def Let_def)
  have inl: "\<not> is_inline (inst_of s1 i)" using assms(3,5) by (simp add: s1_def) (simp add: inst_of_def)
  have d1: "data_of s1 = data_of s" "disabled_inputs s1 = disabled_inputs s" by (simp_all add: s1_def)
  define s2 where "s2 = open_picker z now t i q s1"
  obtain a where s2: "anim_queue s2 = AHide i # a" "showing s2" "cur_inst s2 = Some i" "data_of s2 = data_of s"
    "disabled_inputs s2 = disabled_inputs s" "last_input s2 = Some t" "\<not> is_inline (inst_of s2 i)"
    using open_picker_inline [OF inl, of z now t q] s1(4) d1 unfolding s2_def by auto
  have "show_datepicker z now (Some q) t s1 = Inr s2"
    using assms(4,8) s1 d1 by (simp add: show_datepicker_def with_inst_def switch_picker_def s2_def)
  moreover have "showing (animation_done s2)" "cur_inst (animation_done s2) = None"
    using s2 by (simp_all add: animation_done_def)
  moreover have "hide_datepicker x s3 = s3" "check_external_click b t' p m w s3 = s3" if "cur_inst s3 = None" for s3
    using that by (simp_all add: hide_datepicker_def hide_with_def check_external_click_def)
  moreover have "show_datepicker z now' r u s2 = Inl TypeError"
    if "data_of s u = Some j \<and> j \<noteq> i \<and> u \<notin> set (disabled_inputs s) \<and> u \<noteq> t"
    using that s2 by (auto simp: show_datepicker_def with_inst_def switch_picker_def stop_animations_def animation_done_def)
  ultimately show ?thesis unfolding s1_def Let_def by blast
qed

definition demo_animated :: dp_mgr where
  "demo_animated = (initial_mgr utc_zone)
     \<lparr>objects := [0 \<mapsto> (7, new_inst False), 1 \<mapsto> (8, new_inst False)], data_of := [7 \<mapsto> 0, 8 \<mapsto> 1], next_object := 2,
      cur_inst := Some 0, showing := True, last_input := Some 7\<rparr>"

theorem reopen_orphans_popup_witness:
  "\<exists>s2. show_datepicker utc_zone 0 (Some no_settings) 7 (hide_datepicker None demo_animated) = Inr s2 \<and>
     showing (animation_done s2) \<and> cur_inst (animation_done s2) = None \<and>
     show_datepicker utc_zone 5 (Some no_settings) 8 s2 = Inl TypeError"
  using reopen_orphans_popup [of demo_animated 0 7 "new_inst False" utc_zone 0 no_settings None False 0 False False False 8 1
      5 "Some no_settings"]
  by (auto simp: demo_animated_def initial_mgr_def new_inst_def opts_of_def inst_of_def effective_def or_default_def
      no_settings_def Let_def)

section \<open>Where the popup goes\<close>

text \<open>A popup that fits into the viewport is moved left until its right edge is inside; one that
  would stick out below is put above its field, or at the top of the page if there is no room.\<close>

theorem check_offset_in_view:
  assumes "0 \<le> x" "0 \<le> y" "dp_width g < view_width g + scroll_left g" "dp_height g < view_height g + scroll_top g"
    and "0 \<le> dp_height g" "0 \<le> input_height g"
  defines "r \<equiv> check_offset False False g (x, y)"
  shows "0 \<le> fst r \<and> fst r \<le> x \<and> fst r + dp_width g \<le> view_width g + scroll_left g \<and> 0 \<le> snd r \<and>
    (if y + dp_height g \<le> view_height g + scroll_top g then snd r = y
     else snd r = max 0 (y - dp_height g - input_height g))"
  using assms by (auto simp: check_offset_def Let_def r_def min_def max_def)

theorem check_offset_in_view_witness:
  "fst (check_offset False False
     \<lparr>dp_width = 200, dp_height = 180, input_width = 90, input_height = 20, view_width = 800, view_height = 600,
      scroll_left = 0, scroll_top = 0, input_left = 700, input_top = 500\<rparr> (700, 520)) + 200 \<le> 800"
  using check_offset_in_view [of 700 520 "\<lparr>dp_width = 200, dp_height = 180, input_width = 90, input_height = 20, view_width = 800,
      view_height = 600, scroll_left = 0, scroll_top = 0, input_left = 700, input_top = 500\<rparr>"]
  by simp

end
