(* ===== verification/Ui_Mouse.thy ===== *)
theory Ui_Mouse
  imports Js_Prelude
begin

text \<open>
  Mouse gestures, \<open>jquery.ui.mouse.js\<close>: the base of the widgets that are dragged.  A widget
  supplies four hooks (\<open>_mouseCapture\<close>, \<open>_mouseStart\<close>, \<open>_mouseDrag\<close>, \<open>_mouseStop\<close>); the handlers
  below decide when each is called.  \<open>_mouseStart\<close> and \<open>_mouseDrag\<close> may call \<open>_mouseUp\<close> themselves, as those of a draggable do
  when a page refuses a drag or cancels it.  One widget's state is modelled together with the script's
  variable \<open>mouseHandled\<close>, which all widgets of the page share; what other widgets do to it is a
  step of its own.  \<open>hook_log\<close> records the hooks called.
\<close>

section \<open>Events, hooks and state\<close>

text \<open>
  \<open>ev_cancel\<close> says that the target is inside an element matching the option \<open>cancel\<close>,
  \<open>ev_lost\<close> that an old Internet Explorer reports a move with no button down.
\<close>

record mouse_event =
  ev_x :: int
  ev_y :: int
  ev_which :: int
  ev_target :: nat
  ev_cancel :: bool
  ev_lost :: bool

text \<open>
  The answers of the hooks: \<open>start_hook\<close> says whether it accepts, and whether it has called \<open>_mouseUp\<close> (which finds no gesture
  started yet); \<open>drag_hook\<close> says with which event it calls \<open>_mouseUp\<close> at its end, if it does.
\<close>

record ('e, 's) mouse_hooks =
  capture_hook :: "'e mouse_event_scheme \<Rightarrow> 's \<Rightarrow> ('s \<times> bool) js_result"
  start_hook :: "'e mouse_event_scheme \<Rightarrow> 'e mouse_event_scheme option \<Rightarrow> 's \<Rightarrow> 's \<times> bool \<times> bool"
  drag_hook :: "'e mouse_event_scheme \<Rightarrow> 's \<Rightarrow> 's \<times> 'e mouse_event_scheme option"
  stop_hook :: "'e mouse_event_scheme \<Rightarrow> 's \<Rightarrow> 's"

datatype hook_call = Captured bool | Started bool | Dragged | Stopped

record ('e, 's) mouse =
  widget :: 's
  attached :: bool
  started :: bool
  down_event :: "'e mouse_event_scheme option"
  delay_met :: bool
  timers :: nat
  listening :: bool
  prevent_click :: "nat list"
  handled :: bool
  opt_distance :: int
  opt_delay :: int
  hook_log :: "hook_call list"

definition mouse_widget :: "int \<Rightarrow> int \<Rightarrow> 's \<Rightarrow> ('e, 's) mouse" where
  "mouse_widget distance delay w =
     \<lparr>widget = w, attached = False, started = False, down_event = None, delay_met = False, timers = 0,
      listening = False, prevent_click = [], handled = False, opt_distance = distance, opt_delay = delay, hook_log = []\<rparr>"

definition mouse_init :: "('e, 's) mouse \<Rightarrow> ('e, 's) mouse" where
  "mouse_init m = m\<lparr>attached := True\<rparr>"

definition mouse_destroy :: "('e, 's) mouse \<Rightarrow> ('e, 's) mouse" where
  "mouse_destroy m = m\<lparr>attached := False\<rparr>"

section \<open>Handlers\<close>

definition distance_met :: "'e mouse_event_scheme \<Rightarrow> ('e, 's) mouse \<Rightarrow> bool" where
  "distance_met e m =
     (case down_event m of
        Some d \<Rightarrow> max \<bar>ev_x d - ev_x e\<bar> \<bar>ev_y d - ev_y e\<bar> \<ge> opt_distance m
      | None \<Rightarrow> False)"

definition begin_gesture ::
  "('e, 's) mouse_hooks \<Rightarrow> 'e mouse_event_scheme \<Rightarrow> 'e mouse_event_scheme option \<Rightarrow> ('e, 's) mouse \<Rightarrow> ('e, 's) mouse" where
  "begin_gesture h d e m =
     (let (w, ok, up) = start_hook h d e (widget m)
      in m\<lparr>widget := w, started := ok, listening := (listening m \<and> \<not> up), hook_log := hook_log m @ [Started ok]\<rparr>)"

definition mouse_up :: "('e, 's) mouse_hooks \<Rightarrow> 'e mouse_event_scheme \<Rightarrow> ('e, 's) mouse \<Rightarrow> ('e, 's) mouse" where
  "mouse_up h e m =
     (let m1 = m\<lparr>listening := False\<rparr>
      in if started m1
         then (let m2 = m1\<lparr>started := False,
                 prevent_click := (if map_option ev_target (down_event m1) = Some (ev_target e)
                   then ev_target e # prevent_click m1 else prevent_click m1)\<rparr>
               in m2\<lparr>widget := stop_hook h e (widget m2), hook_log := hook_log m2 @ [Stopped]\<rparr>)
         else m1)"

definition drag_gesture :: "('e, 's) mouse_hooks \<Rightarrow> 'e mouse_event_scheme \<Rightarrow> ('e, 's) mouse \<Rightarrow> ('e, 's) mouse" where
  "drag_gesture h e m =
     (let (w, up) = drag_hook h e (widget m); m1 = m\<lparr>widget := w, hook_log := hook_log m @ [Dragged]\<rparr>
      in case up of None \<Rightarrow> m1 | Some e' \<Rightarrow> mouse_up h e' m1)"

definition mouse_down :: "('e, 's) mouse_hooks \<Rightarrow> 'e mouse_event_scheme \<Rightarrow> ('e, 's) mouse \<Rightarrow> ('e, 's) mouse js_result" where
  "mouse_down h e m =
     (if handled m then Inr m
      else (let m1 = (if started m then mouse_up h e m else m)\<lparr>down_event := Some e\<rparr>
            in if ev_which e \<noteq> 1 \<or> ev_cancel e then Inr m1
               else js_bind (capture_hook h e (widget m1)) (\<lambda>(w, ok).
                 (let m2 = m1\<lparr>widget := w, hook_log := hook_log m1 @ [Captured ok]\<rparr>
                  in if \<not> ok then Inr m2
                     else (let m3 = m2\<lparr>delay_met := (opt_delay m2 = 0),
                                 timers := timers m2 + (if opt_delay m2 = 0 then 0 else 1)\<rparr>;
                               now = (distance_met e m3 \<and> delay_met m3);
                               m4 = (if now then begin_gesture h e None m3 else m3)
                           in if now \<and> \<not> started m4 then Inr m4
                              else Inr (m4\<lparr>prevent_click := filter (\<lambda>t. t \<noteq> ev_target e) (prevent_click m4),
                                           listening := True, handled := True\<rparr>))))))"

definition mouse_move :: "('e, 's) mouse_hooks \<Rightarrow> 'e mouse_event_scheme \<Rightarrow> ('e, 's) mouse \<Rightarrow> ('e, 's) mouse" where
  "mouse_move h e m =
     (if ev_lost e then mouse_up h e m
      else if started m then drag_gesture h e m
      else (case down_event m of
          Some d \<Rightarrow>
            if distance_met e m \<and> delay_met m
            then (let m1 = begin_gesture h d (Some e) m
                  in if started m1 then drag_gesture h e m1 else mouse_up h e m1)
            else m
        | None \<Rightarrow> m))"

text \<open>The button is released: the handler bound when the script loads runs first.\<close>

definition document_mouse_up :: "('e, 's) mouse_hooks \<Rightarrow> 'e mouse_event_scheme \<Rightarrow> ('e, 's) mouse \<Rightarrow> ('e, 's) mouse" where
  "document_mouse_up h e m = (let m1 = m\<lparr>handled := False\<rparr> in if listening m1 then mouse_up h e m1 else m1)"

definition timer_fires :: "('e, 's) mouse \<Rightarrow> ('e, 's) mouse" where
  "timer_fires m = (if timers m = 0 then m else m\<lparr>timers := timers m - 1, delay_met := True\<rparr>)"

text \<open>The click after a gesture that ended where it began is kept from other handlers.\<close>

definition mouse_click :: "'e mouse_event_scheme \<Rightarrow> ('e, 's) mouse \<Rightarrow> ('e, 's) mouse \<times> bool" where
  "mouse_click e m =
     (if ev_target e \<in> set (prevent_click m)
      then (m\<lparr>prevent_click := filter (\<lambda>t. t \<noteq> ev_target e) (prevent_click m)\<rparr>, True) else (m, False))"

section \<open>Everything that can happen\<close>

text \<open>\<open>good\<close> says which events can reach the widget.\<close>

inductive mouse_step ::
  "('e, 's) mouse_hooks \<Rightarrow> ('e mouse_event_scheme \<Rightarrow> bool) \<Rightarrow> ('e, 's) mouse \<Rightarrow> ('e, 's) mouse \<Rightarrow> bool" for h good where
  step_init: "mouse_step h good m (mouse_init m)"
| step_destroy: "mouse_step h good m (mouse_destroy m)"
| step_down: "attached m \<Longrightarrow> good e \<Longrightarrow> mouse_down h e m = Inr m' \<Longrightarrow> mouse_step h good m m'"
| step_move: "listening m \<Longrightarrow> good e \<Longrightarrow> mouse_step h good m (mouse_move h e m)"
| step_up: "good e \<Longrightarrow> mouse_step h good m (document_mouse_up h e m)"
| step_timer: "mouse_step h good m (timer_fires m)"
| step_click: "mouse_step h good m (fst (mouse_click e m))"
| step_other: "mouse_step h good m (m\<lparr>handled := True\<rparr>)"

inductive mouse_reachable ::
  "('e, 's) mouse_hooks \<Rightarrow> ('e mouse_event_scheme \<Rightarrow> bool) \<Rightarrow> ('e, 's) mouse \<Rightarrow> ('e, 's) mouse \<Rightarrow> bool" for h good m0 where
  mouse_start: "mouse_reachable h good m0 m0"
| mouse_more: "mouse_reachable h good m0 m \<Longrightarrow> mouse_step h good m m' \<Longrightarrow> mouse_reachable h good m0 m'"

section \<open>The protocol of the hooks\<close>

text \<open>What a widget may rely on: drags and one stop follow a start that was not refused.\<close>

fun protocol :: "bool \<Rightarrow> hook_call list \<Rightarrow> bool option" where
  "protocol b [] = Some b"
| "protocol b (Captured ok # cs) = (if b then None else protocol b cs)"
| "protocol b (Started ok # cs) = (if b then None else protocol ok cs)"
| "protocol b (Dragged # cs) = (if b then protocol True cs else None)"
| "protocol b (Stopped # cs) = (if b then protocol False cs else None)"

lemma protocol_append: "protocol b (xs @ ys) = Option.bind (protocol b xs) (\<lambda>b'. protocol b' ys)"
  by (induction b xs rule: protocol.induct) simp_all

definition mouse_ok :: "('e, 's) mouse \<Rightarrow> bool" where
  "mouse_ok m \<longleftrightarrow> protocol False (hook_log m) = Some (started m) \<and> (started m \<longrightarrow> listening m) \<and>
     (listening m \<longrightarrow> handled m \<and> down_event m \<noteq> None)"

lemma begin_fields [simp]:
  "down_event (begin_gesture h d e m) = down_event m"
  "handled (begin_gesture h d e m) = handled m" "delay_met (begin_gesture h d e m) = delay_met m"
  "hook_log (begin_gesture h d e m) = hook_log m @ [Started (started (begin_gesture h d e m))]"
  by (simp_all add: begin_gesture_def split_beta)

text \<open>A widget that accepts a start has not called \<open>_mouseUp\<close> in it.\<close>

definition start_plain :: "('e, 's) mouse_hooks \<Rightarrow> bool" where
  "start_plain h \<longleftrightarrow> (\<forall>d e w. fst (snd (start_hook h d e w)) \<longrightarrow> \<not> snd (snd (start_hook h d e w)))"

lemma begin_listening:
  "start_plain h \<Longrightarrow> started (begin_gesture h d e m) \<Longrightarrow> listening (begin_gesture h d e m) = listening m"
  "listening (begin_gesture h d e m) \<Longrightarrow> listening m"
  by (auto simp: begin_gesture_def split_beta start_plain_def)

lemma mouse_up_fields [simp]:
  "\<not> started (mouse_up h e m)" "\<not> listening (mouse_up h e m)" "handled (mouse_up h e m) = handled m"
  "hook_log (mouse_up h e m) = (if started m then hook_log m @ [Stopped] else hook_log m)"
  by (simp_all add: mouse_up_def Let_def)

lemma mouse_ok_up: "protocol False (hook_log m) = Some (started m) \<Longrightarrow> mouse_ok (mouse_up h e m)"
  by (simp add: mouse_ok_def protocol_append)

lemma mouse_ok_drag: "mouse_ok m \<Longrightarrow> started m \<Longrightarrow> mouse_ok (drag_gesture h e m)"
  by (auto simp: drag_gesture_def split_beta Let_def mouse_ok_def protocol_append split: option.split intro!: mouse_ok_up [unfolded mouse_ok_def])

lemma mouse_ok_begin:
  assumes "start_plain h" and "mouse_ok m" and "listening m" and "\<not> started m" and "started (begin_gesture h d e m)"
  shows "mouse_ok (begin_gesture h d e m)"
  using assms begin_listening(1) [OF assms(1,5)] by (simp add: mouse_ok_def protocol_append)

lemma mouse_ok_move: "start_plain h \<Longrightarrow> mouse_ok m \<Longrightarrow> listening m \<Longrightarrow> mouse_ok (mouse_move h e m)"
proof -
  assume h: "start_plain h" and ok: "mouse_ok m" and l: "listening m"
  have p: "protocol False (hook_log m) = Some (started m)" using ok by (simp add: mouse_ok_def)
  consider "ev_lost e" | "\<not> ev_lost e" "started m" | "\<not> ev_lost e" "\<not> started m" by blast
  then show ?thesis
  proof cases
    case 3
    show ?thesis
    proof (cases "down_event m")
      case (Some d)
      let ?b = "begin_gesture h d (Some e) m"
      have "mouse_ok (drag_gesture h e ?b)" if "started ?b"
        using mouse_ok_drag mouse_ok_begin [OF h ok l 3(2) that] that by blast
      moreover have "mouse_ok (mouse_up h e ?b)" using p 3 by (intro mouse_ok_up) (simp add: protocol_append)
      ultimately show ?thesis using 3 Some ok by (simp add: mouse_move_def Let_def)
    qed (use 3 ok in \<open>simp add: mouse_move_def\<close>)
  qed (use ok p mouse_ok_drag mouse_ok_up in \<open>simp_all add: mouse_move_def\<close>)
qed

lemma mouse_ok_down: "mouse_ok m \<Longrightarrow> mouse_down h e m = Inr m' \<Longrightarrow> mouse_ok m'"
  by (auto simp: mouse_down_def Let_def js_bind_Inr_iff mouse_ok_def protocol_append dest: begin_listening(2) split: if_splits prod.splits)

lemma mouse_ok_document_up: "mouse_ok m \<Longrightarrow> mouse_ok (document_mouse_up h e m)"
  using mouse_ok_up [of "m\<lparr>handled := False\<rparr>" h e] by (auto simp: document_mouse_up_def Let_def mouse_ok_def)

lemma mouse_ok_step: "mouse_step h good m m' \<Longrightarrow> start_plain h \<Longrightarrow> mouse_ok m \<Longrightarrow> mouse_ok m'"
proof (induction rule: mouse_step.induct)
  case (step_down m e m')
  then show ?case using mouse_ok_down by blast
qed (simp_all add: mouse_ok_move mouse_ok_document_up, simp_all add: mouse_init_def mouse_destroy_def timer_fires_def
    mouse_click_def mouse_ok_def)

lemma mouse_ok_reachable: "mouse_reachable h good (mouse_widget d l w) m \<Longrightarrow> start_plain h \<Longrightarrow> mouse_ok m"
proof (induction rule: mouse_reachable.induct)
  case mouse_start
  then show ?case by (simp add: mouse_widget_def mouse_ok_def)
qed (blast intro: mouse_ok_step)

text \<open>C15: The hooks of a widget are called in order: it is dragged and stopped only after a start it accepted, and stopped exactly
  once.  While a gesture is on \<open>mouseHandled\<close> is set, so a press is ignored: the branch of \<open>_mouseDown\<close> for a missed release is
  never taken.  This holds for any sequence of presses, moves, releases, timers, clicks, of attaching and removing the handlers of the widget and of gestures of other widgets, and for all hooks, those included
  that end a gesture by calling \<open>_mouseUp\<close> at the end of \<open>_mouseDrag\<close>, provided that \<open>_mouseStart\<close> does not call \<open>_mouseUp\<close> and then accept, as that of a sortable does
  when the page cancels it in the event \<open>sort\<close> of its first drag; there the claim fails.
\<close>

theorem hooks_in_order:
  assumes "mouse_reachable h good (mouse_widget d l w) m" and "start_plain h"
  shows "protocol False (hook_log m) = Some (started m) \<and> (started m \<longrightarrow> mouse_down h e m = Inr m)"
  using mouse_ok_reachable [OF assms] by (simp add: mouse_ok_def mouse_down_def)

section \<open>Widgets as clients\<close>

text \<open>What a widget's hooks promise of an invariant of the widget, and what the handlers make of it.\<close>

locale mouse_client =
  fixes h :: "('e, 's) mouse_hooks" and good :: "'e mouse_event_scheme \<Rightarrow> bool" and inv :: "'s \<Rightarrow> bool"
  assumes capture_keeps: "inv w \<Longrightarrow> good e \<Longrightarrow> capture_hook h e w = Inr (w', ok) \<Longrightarrow> inv w'"
    and start_keeps: "inv w \<Longrightarrow> inv (fst (start_hook h d o' w))"
    and drag_keeps: "inv w \<Longrightarrow> good e \<Longrightarrow> inv (fst (drag_hook h e w))"
    and stop_keeps: "inv w \<Longrightarrow> inv (stop_hook h e w)"
begin

lemma begin_keeps: "inv (widget m) \<Longrightarrow> inv (widget (begin_gesture h d o' m))"
  using start_keeps by (simp add: begin_gesture_def split_beta)

lemma up_keeps: "inv (widget m) \<Longrightarrow> inv (widget (mouse_up h e m))"
  using stop_keeps by (simp add: mouse_up_def Let_def)

lemma gesture_keeps: "inv (widget m) \<Longrightarrow> good e \<Longrightarrow> inv (widget (drag_gesture h e m))"
  using up_keeps drag_keeps by (auto simp: drag_gesture_def Let_def split_beta split: option.split)

lemma move_keeps: "inv (widget m) \<Longrightarrow> good e \<Longrightarrow> inv (widget (mouse_move h e m))"
  using begin_keeps up_keeps gesture_keeps by (auto simp: mouse_move_def Let_def split: option.split)

lemma down_keeps: "inv (widget m) \<Longrightarrow> good e \<Longrightarrow> mouse_down h e m = Inr m' \<Longrightarrow> inv (widget m')"
  using up_keeps begin_keeps
  by (auto simp: mouse_down_def Let_def js_bind_Inr_iff split: if_splits prod.splits
      dest!: capture_keeps [rotated 2])

lemma step_keeps: "mouse_step h good m m' \<Longrightarrow> inv (widget m) \<Longrightarrow> inv (widget m')"
proof (induction rule: mouse_step.induct)
  case (step_down m e m')
  then show ?case using down_keeps by blast
qed (simp_all add: move_keeps up_keeps document_mouse_up_def Let_def mouse_init_def mouse_destroy_def timer_fires_def
    mouse_click_def)

lemma reachable_keeps: "mouse_reachable h good m0 m \<Longrightarrow> inv (widget m0) \<Longrightarrow> inv (widget m)"
  by (induction rule: mouse_reachable.induct) (auto intro: step_keeps)

end

text \<open>
  A widget whose gestures leave no trace: \<open>idle\<close> holds of it before a gesture starts, a capture and
  a refused start keep it, and the end of a gesture restores it.
\<close>

locale gesture_client = mouse_client +
  fixes idle :: "'b \<Rightarrow> bool"
  assumes capture_idle: "idle w \<Longrightarrow> capture_hook h e w = Inr (w', ok) \<Longrightarrow> idle w'"
    and refused_idle: "idle w \<Longrightarrow> start_hook h d o' w = (w', False, up) \<Longrightarrow> idle w'"
    and stop_idle: "inv w \<Longrightarrow> idle (stop_hook h e w)"
begin

abbreviation rests :: "('a, 'b) mouse \<Rightarrow> bool" where
  "rests m \<equiv> \<not> started m \<longrightarrow> idle (widget m)"

lemma up_rests: "inv (widget m) \<Longrightarrow> rests m \<Longrightarrow> idle (widget (mouse_up h e m))"
  using stop_idle by (simp add: mouse_up_def Let_def)

lemma begin_rests: "rests m \<Longrightarrow> \<not> started m \<Longrightarrow> rests (begin_gesture h d o' m)"
  using refused_idle by (auto simp: begin_gesture_def split: prod.splits)

lemma gesture_rests: "inv (widget m) \<Longrightarrow> good e \<Longrightarrow> started m \<Longrightarrow> rests (drag_gesture h e m)"
  using stop_idle drag_keeps by (auto simp: drag_gesture_def Let_def split_beta mouse_up_def split: option.split)

lemma move_rests: "inv (widget m) \<Longrightarrow> good e \<Longrightarrow> rests m \<Longrightarrow> rests (mouse_move h e m)"
  using begin_rests [of m] up_rests [of "begin_gesture h d (Some e) m" for d e] up_rests [of m e] begin_keeps [of m] gesture_rests
  by (auto simp: mouse_move_def Let_def split: option.split)

lemma down_rests:
  assumes i: "inv (widget m)" and r: "rests m" and d: "mouse_down h e m = Inr m'"
  shows "rests m'"
proof (cases "handled m")
  case True
  then show ?thesis using r d by (simp add: mouse_down_def)
next
  case False
  define m1 where "m1 = (if started m then mouse_up h e m else m)\<lparr>down_event := Some e\<rparr>"
  have one: "idle (widget m1)" "\<not> started m1" using up_rests [OF i r, of e] r by (simp_all add: m1_def)
  show ?thesis
  proof (cases "ev_which e \<noteq> 1 \<or> ev_cancel e")
    case True
    then show ?thesis using d one False by (simp add: mouse_down_def Let_def m1_def)
  next
    case left: False
    then obtain w ok where c: "capture_hook h e (widget m1) = Inr (w, ok)"
      using d False by (auto simp: mouse_down_def Let_def js_bind_Inr_iff m1_def [symmetric])
    have w: "idle w" by (rule capture_idle [OF one(1) c])
    define m2 where "m2 = m1\<lparr>widget := w, hook_log := hook_log m1 @ [Captured ok]\<rparr>"
    define m3 where "m3 = m2\<lparr>delay_met := (opt_delay m2 = 0), timers := timers m2 + (if opt_delay m2 = 0 then 0 else 1)\<rparr>"
    have two: "rests m2" "rests m3" "\<not> started m3" using w one(2) by (simp_all add: m2_def m3_def)
    define now where "now = (distance_met e m3 \<and> delay_met m3)"
    define m4 where "m4 = (if now then begin_gesture h e None m3 else m3)"
    have four: "rests m4" using begin_rests [OF two(2,3)] two(2) by (simp add: m4_def)
    have "mouse_down h e m = (if \<not> ok then Inr m2 else if now \<and> \<not> started m4 then Inr m4
        else Inr (m4\<lparr>prevent_click := filter (\<lambda>t. t \<noteq> ev_target e) (prevent_click m4), listening := True, handled := True\<rparr>))"
      unfolding mouse_down_def Let_def m1_def [symmetric]
      by (simp only: False left c if_False js_bind.simps prod.case
          m2_def [symmetric] m3_def [symmetric] now_def [symmetric] m4_def [symmetric])
    then show ?thesis using d two four by (auto split: if_splits)
  qed
qed

lemma step_rests: "mouse_step h good m m' \<Longrightarrow> inv (widget m) \<Longrightarrow> rests m \<Longrightarrow> rests m'"
proof (induction rule: mouse_step.induct)
  case (step_down m e m')
  then show ?case using down_rests by blast
next
  case (step_move m e)
  then show ?case using move_rests by blast
next
  case (step_up e m)
  then show ?case using up_rests [of "m\<lparr>handled := False\<rparr>" e] by (auto simp: document_mouse_up_def Let_def)
qed (simp_all add: mouse_init_def mouse_destroy_def timer_fires_def mouse_click_def)

lemma reachable_rests:
  "mouse_reachable h good m0 m \<Longrightarrow> inv (widget m0) \<Longrightarrow> rests m0 \<Longrightarrow> rests m"
proof (induction rule: mouse_reachable.induct)
  case (mouse_more m m')
  then show ?case using step_rests reachable_keeps by blast
qed

end

section \<open>A concrete widget\<close>

text \<open>A widget that counts its drags.\<close>

definition counter_hooks :: "(unit, nat) mouse_hooks" where
  "counter_hooks = \<lparr>capture_hook = (\<lambda>e n. Inr (n, True)), start_hook = (\<lambda>d e n. (0, True, False)),
     drag_hook = (\<lambda>e n. (n + 1, None)), stop_hook = (\<lambda>e n. n)\<rparr>"

definition press_at :: "int \<Rightarrow> int \<Rightarrow> mouse_event" where
  "press_at x y = \<lparr>ev_x = x, ev_y = y, ev_which = 1, ev_target = 0, ev_cancel = False, ev_lost = False\<rparr>"

text \<open>Pressed, moved by 5 pixels: two drags have been counted.\<close>

definition counter_dragged :: "(unit, nat) mouse" where
  "counter_dragged = mouse_move counter_hooks (press_at 7 0) (mouse_move counter_hooks (press_at 5 0)
     (case mouse_down counter_hooks (press_at 0 0) (mouse_init (mouse_widget 1 0 0)) of Inr m \<Rightarrow> m
      | Inl e \<Rightarrow> mouse_widget 1 0 0))"

lemmas counter_defs = counter_dragged_def counter_hooks_def press_at_def mouse_widget_def mouse_init_def mouse_down_def
  mouse_move_def distance_met_def begin_gesture_def drag_gesture_def

definition counter_pressed :: "(unit, nat) mouse" where
  "counter_pressed = (mouse_init (mouse_widget 1 0 0))\<lparr>down_event := Some (press_at 0 0), delay_met := True, listening := True,
     handled := True, hook_log := [Captured True]\<rparr>"

lemma counter_press: "mouse_down counter_hooks (press_at 0 0) (mouse_init (mouse_widget 1 0 0)) = Inr counter_pressed"
  by (simp add: counter_defs counter_pressed_def Let_def)

lemma counter_move: "mouse_move counter_hooks (press_at 5 0) counter_pressed =
    counter_pressed\<lparr>widget := 1, started := True, hook_log := [Captured True, Started True, Dragged]\<rparr>"
  by (simp add: counter_defs counter_pressed_def Let_def)

lemma counter_reachable: "mouse_reachable counter_hooks (\<lambda>_. True) (mouse_widget 1 0 0) counter_dragged"
proof -
  have "mouse_reachable counter_hooks (\<lambda>_. True) (mouse_widget 1 0 0) counter_pressed"
    by (rule mouse_more [OF mouse_more [OF mouse_start step_init] step_down [OF _ _ counter_press]]) (simp_all add: mouse_init_def)
  moreover have "listening counter_pressed" "listening (mouse_move counter_hooks (press_at 5 0) counter_pressed)"
    unfolding counter_move by (simp_all add: counter_pressed_def)
  ultimately show ?thesis
    unfolding counter_dragged_def counter_press sum.case by (auto intro: mouse_more [OF mouse_more [OF _ step_move] step_move])
qed

lemma counter_dragged_is: "counter_dragged = counter_pressed\<lparr>widget := 2, started := True,
    hook_log := [Captured True, Started True, Dragged, Dragged]\<rparr>"
  unfolding counter_dragged_def counter_press sum.case counter_move
  by (simp add: mouse_move_def drag_gesture_def press_at_def counter_hooks_def)

theorem hooks_in_order_witness:
  "protocol False (hook_log counter_dragged) = Some True \<and> widget counter_dragged = 2 \<and>
   mouse_down counter_hooks (press_at 9 9) counter_dragged = Inr counter_dragged"
proof -
  have "start_plain counter_hooks" by (simp add: start_plain_def counter_hooks_def)
  from hooks_in_order [OF counter_reachable this, of "press_at 9 9"] show ?thesis by (simp add: counter_dragged_is)
qed

text \<open>
  A widget that calls \<open>_mouseUp\<close> in its start and yet accepts it, as a sortable that is cancelled in the event \<open>sort\<close> of the drag
  inside its \<open>_mouseStart\<close>: the gesture is on, but nothing listens for its end; the next press takes the branch for a missed release, stops it and starts another one.
\<close>

definition quitter_hooks :: "(unit, nat) mouse_hooks" where
  "quitter_hooks = counter_hooks\<lparr>start_hook := (\<lambda>d e n. (0, True, True))\<rparr>"

lemma up_in_start_sticks:
  "(case mouse_down quitter_hooks (press_at 0 0) (mouse_init (mouse_widget 1 0 0)) of Inl e \<Rightarrow> False
    | Inr m \<Rightarrow> (let s = document_mouse_up quitter_hooks (press_at 9 0) (mouse_move quitter_hooks (press_at 5 0) m)
        in started s \<and> \<not> listening s \<and>
          (case mouse_down quitter_hooks (press_at 20 0) s of Inl e \<Rightarrow> False
           | Inr t \<Rightarrow> hook_log t = [Captured True, Started True, Dragged, Stopped, Captured True] \<and> listening t)))"
  by (simp add: counter_defs quitter_hooks_def document_mouse_up_def mouse_up_def Let_def)

text \<open>A press shorter than the option \<open>delay\<close> leaves its timer running, and when that timer fires
  during the next press the delay of that press counts as over although its own timer still runs.\<close>

theorem stale_timer_ends_delay:
  assumes "0 < opt_delay m" "ev_which e = 1" "\<not> ev_cancel e" "\<not> handled m" "\<not> started m"
    and "capture_hook h e (widget m) = Inr (w, True)" and "capture_hook h e w = Inr (w', True)"
  shows "\<exists>m1 m2. mouse_down h e m = Inr m1 \<and> \<not> delay_met m1 \<and>
    mouse_down h e (document_mouse_up h e m1) = Inr m2 \<and> \<not> delay_met m2 \<and> timers m2 = timers m + 2 \<and>
    delay_met (timer_fires m2) \<and> timers (timer_fires m2) = timers m + 1"
  using assms
  by (simp add: mouse_down_def Let_def document_mouse_up_def mouse_up_def timer_fires_def)

theorem stale_timer_ends_delay_witness:
  "\<exists>m2 :: (unit, nat) mouse. timers m2 = 2 \<and> delay_met (timer_fires m2) \<and> opt_delay (mouse_widget 0 300 (0 :: nat) :: (unit, nat) mouse) = 300"
proof -
  have "0 < opt_delay (mouse_widget 0 300 (0 :: nat) :: (unit, nat) mouse)" "ev_which (press_at 0 0) = 1" "\<not> ev_cancel (press_at 0 0)"
    "\<not> handled (mouse_widget 0 300 (0 :: nat) :: (unit, nat) mouse)" "\<not> started (mouse_widget 0 300 (0 :: nat) :: (unit, nat) mouse)"
    "\<And>n. capture_hook counter_hooks (press_at 0 0) n = Inr (n, True)"
    by (simp_all add: mouse_widget_def press_at_def counter_hooks_def)
  from stale_timer_ends_delay [OF this(1-5) this(6) this(6)] obtain m2 :: "(unit, nat) mouse"
    where "timers m2 = timers (mouse_widget 0 300 (0 :: nat) :: (unit, nat) mouse) + 2" "delay_met (timer_fires m2)"
    by blast
  then show ?thesis by (intro exI [of _ m2]) (simp add: mouse_widget_def)
qed

end
