(* ===== verification/Ui_Slider.thy ===== *)
theory Ui_Slider
  imports Complex_Main Ui_Mouse
begin

text \<open>
  The slider, \<open>jquery.ui.slider.js\<close>, over the mouse gestures of \<open>Ui_Mouse\<close>.  Numbers of the
  page are rationals (the rounding of floating point, which the code fights with \<open>toFixed\<close>, is
  not modelled); a number that may be \<open>NaN\<close> or \<open>undefined\<close> is an option.  What the page
  decides or measures at an event (the answers of the start and slide callbacks, the boxes of
  the elements) comes with the event.
\<close>

section \<open>Options and state\<close>

type_synonym num = "rat option"

datatype slider_range = NoRange | FullRange | MinRange | MaxRange

record slider_options =
  sl_max :: rat
  sl_min :: rat
  sl_step :: rat
  sl_value :: rat
  sl_values :: "num list option"
  sl_range :: slider_range
  sl_vertical :: bool
  sl_disabled :: bool
  sl_animate :: bool

datatype slider_event =
    SlideStart "nat" num "num list option"
  | Slide "nat" num "num list option"
  | SlideStop "nat" num "num list option"
  | SlideChange "nat" num "num list option"

text \<open>Where the handles and the range are drawn, in percent.\<close>

record slider_look =
  handle_pos :: "num list"
  range_pos :: num
  range_len :: num

record slider =
  sl_options :: slider_options
  vertical :: bool
  key_sliding :: bool
  mouse_sliding :: bool
  animate_off :: bool
  handle_index :: "nat option"
  click_offset :: "(rat \<times> rat) option"
  element_size :: "rat \<times> rat"
  element_offset :: "rat \<times> rat"
  handle_count :: nat
  slider_look :: slider_look
  slider_log :: "slider_event list"

section \<open>Numbers\<close>

definition num2 :: "(rat \<Rightarrow> rat \<Rightarrow> rat) \<Rightarrow> num \<Rightarrow> num \<Rightarrow> num" where
  "num2 f a b = (case (a, b) of (Some x, Some y) \<Rightarrow> Some (f x y) | _ \<Rightarrow> None)"

definition num_less :: "num \<Rightarrow> num \<Rightarrow> bool" where
  "num_less a b = (case (a, b) of (Some x, Some y) \<Rightarrow> x < y | _ \<Rightarrow> False)"

definition num_neq :: "num \<Rightarrow> num \<Rightarrow> bool" where
  "num_neq a b \<longleftrightarrow> a = None \<or> b = None \<or> a \<noteq> b"

text \<open>\<open>parseFloat (x.toFixed (5))\<close> and the operator \<open>%\<close>; writing and reading an array by index.\<close>

definition to_fixed5 :: "rat \<Rightarrow> rat" where
  "to_fixed5 x = (if \<bar>x\<bar> \<ge> 10 ^ 21 then x else sgn x * (of_int \<lfloor>\<bar>x\<bar> * 10 ^ 5 + 1 / 2\<rfloor> / 10 ^ 5))"

definition js_fmod :: "rat \<Rightarrow> rat \<Rightarrow> rat" where
  "js_fmod a b = (if 0 \<le> a / b then a - b * of_int \<lfloor>a / b\<rfloor> else a - b * of_int \<lceil>a / b\<rceil>)"

definition js_set :: "num list \<Rightarrow> nat \<Rightarrow> num \<Rightarrow> num list" where
  "js_set xs i v = (if i < length xs then xs[i := v] else xs @ replicate (i - length xs) None @ [v])"

definition js_get :: "num list \<Rightarrow> nat \<Rightarrow> num" where
  "js_get xs i = (if i < length xs then xs ! i else None)"

section \<open>Values\<close>

definition trim_align :: "slider_options \<Rightarrow> rat \<Rightarrow> rat" where
  "trim_align os v =
     (if v \<le> sl_min os then sl_min os
      else if v \<ge> sl_max os then sl_max os
      else (let step = (if sl_step os > 0 then sl_step os else 1);
                r = js_fmod (v - sl_min os) step;
                a = v - r
            in to_fixed5 (if \<bar>r\<bar> * 2 \<ge> step then a + (if r > 0 then step else - step) else a)))"

definition has_values :: "slider_options \<Rightarrow> bool" where
  "has_values os \<longleftrightarrow> (case sl_values os of Some vs \<Rightarrow> vs \<noteq> [] | None \<Rightarrow> False)"

definition the_values :: "slider_options \<Rightarrow> num list" where
  "the_values os = (case sl_values os of Some vs \<Rightarrow> vs | None \<Rightarrow> [])"

definition get_value :: "slider_options \<Rightarrow> rat" where
  "get_value os = trim_align os (sl_value os)"

definition get_values_at :: "slider_options \<Rightarrow> nat \<Rightarrow> num" where
  "get_values_at os i =
     (if has_values os then map_option (trim_align os) (js_get (the_values os) i) else Some (get_value os))"

definition get_values :: "slider_options \<Rightarrow> num list" where
  "get_values os = map (map_option (trim_align os)) (the_values os)"

section \<open>Drawing\<close>

definition percent_of :: "slider_options \<Rightarrow> num \<Rightarrow> num" where
  "percent_of os v =
     (if sl_max os = sl_min os then None
      else map_option (\<lambda>x. (x - sl_min os) / (sl_max os - sl_min os) * 100) v)"

definition refresh_value :: "slider \<Rightarrow> slider" where
  "refresh_value s =
     (let os = sl_options s; look = slider_look s in
      if has_values os
      then (let ps = map (\<lambda>i. percent_of os (get_values_at os i)) [0..<handle_count s]
            in s\<lparr>slider_look := look\<lparr>handle_pos := ps,
                 range_pos := (if sl_range os = FullRange \<and> handle_count s > 0 then ps ! 0 else range_pos look),
                 range_len := (if sl_range os = FullRange \<and> handle_count s > 1 then num2 (-) (ps ! 1) (ps ! 0)
                   else range_len look)\<rparr>\<rparr>)
      else (let p = (if sl_max os \<noteq> sl_min os then percent_of os (Some (get_value os)) else Some 0)
            in s\<lparr>slider_look := look\<lparr>handle_pos := js_set (handle_pos look) 0 p,
                 range_len := (if sl_range os = MinRange then p
                   else if sl_range os = MaxRange then num2 (-) (Some 100) p else range_len look)\<rparr>\<rparr>))"

section \<open>Events\<close>

definition event_hash :: "slider \<Rightarrow> nat \<Rightarrow> num \<times> num list option" where
  "event_hash s i =
     (let os = sl_options s
      in if has_values os then (get_values_at os i, Some (get_values os)) else (Some (get_value os), None))"

definition trigger_start :: "nat \<Rightarrow> slider \<Rightarrow> slider" where
  "trigger_start i s = (case event_hash s i of (v, vs) \<Rightarrow> s\<lparr>slider_log := slider_log s @ [SlideStart i v vs]\<rparr>)"

definition trigger_stop :: "nat \<Rightarrow> slider \<Rightarrow> slider" where
  "trigger_stop i s = (case event_hash s i of (v, vs) \<Rightarrow> s\<lparr>slider_log := slider_log s @ [SlideStop i v vs]\<rparr>)"

definition trigger_change :: "nat \<Rightarrow> slider \<Rightarrow> slider" where
  "trigger_change i s =
     (if \<not> key_sliding s \<and> \<not> mouse_sliding s
      then (case event_hash s i of (v, vs) \<Rightarrow> s\<lparr>slider_log := slider_log s @ [SlideChange i v vs]\<rparr>) else s)"

definition set_opts :: "(slider_options \<Rightarrow> slider_options) \<Rightarrow> slider \<Rightarrow> slider" where
  "set_opts f s = s\<lparr>sl_options := f (sl_options s)\<rparr>"

definition set_value :: "rat \<Rightarrow> slider \<Rightarrow> slider" where
  "set_value v s = trigger_change 0 (refresh_value (set_opts (\<lambda>os. os\<lparr>sl_value := trim_align os v\<rparr>) s))"

definition set_values_at :: "nat \<Rightarrow> num \<Rightarrow> slider \<Rightarrow> slider" where
  "set_values_at i v s =
     trigger_change i (refresh_value (set_opts (\<lambda>os. os\<lparr>sl_values :=
       Some (js_set (the_values os) i (map_option (trim_align os) v))\<rparr>) s))"

text \<open>\<open>values (array)\<close>: the values one after the other, each with its change event.\<close>

definition set_values :: "num list \<Rightarrow> slider \<Rightarrow> slider js_result" where
  "set_values new s =
     (case sl_values (sl_options s) of
        None \<Rightarrow> Inl TypeError
      | Some vs \<Rightarrow>
          Inr (refresh_value (fold (\<lambda>i s. trigger_change i (set_opts (\<lambda>os. os\<lparr>sl_values :=
            Some (js_set (the_values os) i (map_option (trim_align os) (js_get new i)))\<rparr>) s)) [0..<length vs] s)))"

section \<open>Sliding\<close>

definition limit_by_other :: "slider_options \<Rightarrow> nat \<Rightarrow> num \<Rightarrow> num" where
  "limit_by_other os i new =
     (let other = get_values_at os (if i \<noteq> 0 then 0 else 1)
      in if length (the_values os) = 2 \<and> sl_range os = FullRange \<and>
            ((i = 0 \<and> num_less other new) \<or> (i = 1 \<and> num_less new other))
         then other else new)"

definition slide_to :: "bool \<Rightarrow> nat \<Rightarrow> num \<Rightarrow> slider \<Rightarrow> slider" where
  "slide_to allow i new s =
     (let os = sl_options s in
      if has_values os
      then (let new1 = limit_by_other os i new
            in if num_neq new1 (get_values_at os i)
               then (let s1 = s\<lparr>slider_log := slider_log s @ [Slide i new1 (Some (js_set (get_values os) i new1))]\<rparr>
                     in if allow then set_values_at i new1 s1 else s1)
               else s)
      else if num_neq new (Some (get_value os))
      then (let s1 = s\<lparr>slider_log := slider_log s @ [Slide i new None]\<rparr>
            in if allow then (case new of Some v \<Rightarrow> set_value v s1 | None \<Rightarrow> s1) else s1)
      else s)"

text \<open>The value under the mouse; an element without extent gives 0/0 at its own edge.\<close>

definition norm_value_from_mouse :: "slider \<Rightarrow> rat \<times> rat \<Rightarrow> num" where
  "norm_value_from_mouse s pos =
     (let os = sl_options s; off = (case click_offset s of Some c \<Rightarrow> c | None \<Rightarrow> (0, 0));
          (total, mouse) = (if \<not> vertical s
            then (fst (element_size s), fst pos - fst (element_offset s) - fst off)
            else (snd (element_size s), snd pos - snd (element_offset s) - snd off));
          percent = (if total = 0 then (if mouse > 0 then Some 1 else if mouse < 0 then Some 0 else None)
            else Some (max 0 (min 1 (mouse / total))));
          percent1 = (if vertical s then map_option (\<lambda>p. 1 - p) percent else percent)
      in map_option (\<lambda>p. trim_align os (sl_min os + p * (sl_max os - sl_min os))) percent1)"

text \<open>The handle closest to a value; of equally close ones the first.\<close>

definition closest_handle :: "slider \<Rightarrow> num \<Rightarrow> nat option" where
  "closest_handle s nv =
     (let os = sl_options s
      in snd (fold (\<lambda>i (distance, index).
           (case num2 (\<lambda>x y. \<bar>x - y\<bar>) nv (get_values_at os i) of
              Some d \<Rightarrow> if distance > d then (d, Some i) else (distance, index)
            | None \<Rightarrow> (distance, index)))
         [0..<handle_count s] (sl_max os - sl_min os + 1, None)))"

section \<open>The mouse\<close>

record handle_geometry =
  h_left :: rat
  h_top :: rat
  h_width :: rat
  h_height :: rat
  h_border_top :: rat
  h_border_bottom :: rat
  h_margin_top :: rat

record slider_press = mouse_event +
  over_handle :: bool
  any_hover :: bool
  allow_start :: bool
  allow_slide :: bool
  box_size :: "rat \<times> rat"
  box_offset :: "rat \<times> rat"
  geometry :: "nat \<Rightarrow> handle_geometry"

definition press_pos :: "'a mouse_event_scheme \<Rightarrow> rat \<times> rat" where
  "press_pos e = (of_int (ev_x e), of_int (ev_y e))"

definition grab_offset :: "slider_press \<Rightarrow> nat \<Rightarrow> rat \<times> rat" where
  "grab_offset e i =
     (if \<not> over_handle e then (0, 0)
      else (let g = geometry e i
            in (of_int (ev_x e) - h_left g - h_width g / 2,
                of_int (ev_y e) - h_top g - h_height g / 2 - h_border_top g - h_border_bottom g + h_margin_top g)))"

text \<open>
  \<open>_mouseCapture\<close>.  No closest handle (a value that is not a number) ends in a TypeError;
  so does grabbing a handle that the workaround for ranges at the minimum moved past the last.
\<close>

definition mouse_capture :: "slider_press \<Rightarrow> slider \<Rightarrow> (slider \<times> bool) js_result" where
  "mouse_capture e s =
     (let os = sl_options s in
      if sl_disabled os then Inr (s, False)
      else (let s1 = s\<lparr>element_size := box_size e, element_offset := box_offset e\<rparr>;
                nv = norm_value_from_mouse s1 (press_pos e)
            in case closest_handle s1 nv of
                 None \<Rightarrow> if allow_start e then Inl TypeError else Inr (s1, False)
               | Some k \<Rightarrow>
                   (let i = (if sl_range os = FullRange \<and> get_values_at os 1 = Some (sl_min os) then k + 1 else k);
                        s2 = trigger_start i s1
                    in if \<not> allow_start e then Inr (s2, False)
                       else if handle_count s \<le> i \<and> over_handle e then Inl TypeError
                       else (let s3 = s2\<lparr>mouse_sliding := True, handle_index := Some i,
                                        click_offset := Some (grab_offset e i)\<rparr>;
                                 s4 = (if any_hover e then s3 else slide_to (allow_slide e) i nv s3)
                             in Inr (s4\<lparr>animate_off := True\<rparr>, True)))))"

definition mouse_drag :: "slider_press \<Rightarrow> slider \<Rightarrow> slider" where
  "mouse_drag e s =
     (case handle_index s of
        Some i \<Rightarrow> slide_to (allow_slide e) i (norm_value_from_mouse s (press_pos e)) s
      | None \<Rightarrow> s)"

definition mouse_stop :: "slider \<Rightarrow> slider" where
  "mouse_stop s =
     (let s1 = s\<lparr>mouse_sliding := False\<rparr>;
          s2 = (case handle_index s1 of Some i \<Rightarrow> trigger_change i (trigger_stop i s1) | None \<Rightarrow> s1)
      in s2\<lparr>handle_index := None, click_offset := None, animate_off := False\<rparr>)"

definition slider_hooks :: "(unit slider_press_ext, slider) mouse_hooks" where
  "slider_hooks =
     \<lparr>capture_hook = mouse_capture, start_hook = (\<lambda>d e s. (s, True, False)), drag_hook = (\<lambda>e s. (mouse_drag e s, None)),
      stop_hook = (\<lambda>e s. mouse_stop s)\<rparr>"

section \<open>The keyboard\<close>

definition nav_key :: "int \<Rightarrow> bool" where
  "nav_key c \<longleftrightarrow> 33 \<le> c \<and> c \<le> 40"

text \<open>The value a key asks for; \<open>None\<close> where the handler returns.\<close>

definition key_target :: "slider_options \<Rightarrow> int \<Rightarrow> num \<Rightarrow> num option" where
  "key_target os c cur =
     (let page = (sl_max os - sl_min os) / 5; move = (\<lambda>d. map_option (\<lambda>v. trim_align os (v + d)) cur)
      in if c = 36 then Some (Some (sl_min os))
         else if c = 35 then Some (Some (sl_max os))
         else if c = 33 then Some (move page)
         else if c = 34 then Some (move (- page))
         else if c = 38 \<or> c = 39 then (if cur = Some (sl_max os) then None else Some (move (sl_step os)))
         else if c = 40 \<or> c = 37 then (if cur = Some (sl_min os) then None else Some (move (- sl_step os)))
         else Some cur)"

definition slider_key_down :: "bool \<Rightarrow> bool \<Rightarrow> nat \<Rightarrow> int \<Rightarrow> slider \<Rightarrow> slider" where
  "slider_key_down may_start may_slide i c s =
     (if sl_disabled (sl_options s) then s
      else (let first = (nav_key c \<and> \<not> key_sliding s);
                s1 = (if first then trigger_start i (s\<lparr>key_sliding := True\<rparr>) else s);
                os = sl_options s1
            in if first \<and> \<not> may_start then s1
               else (case key_target os c (if has_values os then get_values_at os i else Some (get_value os)) of
                       None \<Rightarrow> s1
                     | Some new \<Rightarrow> slide_to may_slide i new s1)))"

definition slider_key_up :: "nat \<Rightarrow> slider \<Rightarrow> slider" where
  "slider_key_up i s =
     (if key_sliding s then trigger_change i (trigger_stop i (s\<lparr>key_sliding := False\<rparr>)) else s)"

section \<open>Creation and options\<close>

definition range_values :: "slider_options \<Rightarrow> num list option" where
  "range_values os =
     (if sl_range os = FullRange
      then (case sl_values os of
              None \<Rightarrow> Some [Some (sl_min os), Some (sl_min os)]
            | Some vs \<Rightarrow> if vs \<noteq> [] \<and> length vs \<noteq> 2 then Some [hd vs, hd vs] else Some vs)
      else sl_values os)"

text \<open>The number of handles is settled before \<open>range_values\<close> completes the values.\<close>

definition slider_create :: "nat \<Rightarrow> slider_options \<Rightarrow> slider" where
  "slider_create existing os =
     refresh_value
       \<lparr>sl_options = os\<lparr>sl_values := range_values os\<rparr>, vertical = sl_vertical os, key_sliding = False, mouse_sliding = False,
        animate_off = False, handle_index = None, click_offset = None, element_size = (0, 0), element_offset = (0, 0),
        handle_count = max existing (if has_values os then length (the_values os) else 1),
        slider_look = \<lparr>handle_pos = [], range_pos = None, range_len = None\<rparr>, slider_log = []\<rparr>"

datatype slider_change =
    SetValue rat
  | SetValues "num list option"
  | SetOrientation bool
  | SetDisabled bool
  | SetMin rat
  | SetMax rat
  | SetStep rat
  | SetRange slider_range
  | SetAnimate bool

fun apply_change :: "slider_change \<Rightarrow> slider_options \<Rightarrow> slider_options" where
  "apply_change (SetValue v) os = os\<lparr>sl_value := v\<rparr>"
| "apply_change (SetValues vs) os = os\<lparr>sl_values := vs\<rparr>"
| "apply_change (SetOrientation b) os = os\<lparr>sl_vertical := b\<rparr>"
| "apply_change (SetDisabled b) os = os\<lparr>sl_disabled := b\<rparr>"
| "apply_change (SetMin v) os = os\<lparr>sl_min := v\<rparr>"
| "apply_change (SetMax v) os = os\<lparr>sl_max := v\<rparr>"
| "apply_change (SetStep v) os = os\<lparr>sl_step := v\<rparr>"
| "apply_change (SetRange r) os = os\<lparr>sl_range := r\<rparr>"
| "apply_change (SetAnimate b) os = os\<lparr>sl_animate := b\<rparr>"

definition slider_set_option :: "slider_change \<Rightarrow> slider \<Rightarrow> slider" where
  "slider_set_option c s =
     (let n = length (the_values (sl_options s)); s1 = set_opts (apply_change c) s
      in case c of
           SetOrientation b \<Rightarrow> refresh_value (s1\<lparr>vertical := b\<rparr>)
         | SetValue v \<Rightarrow> (trigger_change 0 (refresh_value (s1\<lparr>animate_off := True\<rparr>)))\<lparr>animate_off := False\<rparr>
         | SetValues vs \<Rightarrow> (fold trigger_change [0..<n] (refresh_value (s1\<lparr>animate_off := True\<rparr>)))\<lparr>animate_off := False\<rparr>
         | _ \<Rightarrow> s1)"

end
