(* ===== verification/Slider_Values.thy ===== *)
theory Slider_Values
  imports Ui_Slider
begin

text \<open>
  What the slider does to values: alignment to the grid of steps, the order of the two handles
  of a range under mouse and keyboard, the events of a gesture, and two of its flaws.
\<close>

section \<open>Alignment\<close>

text \<open>A slider whose range is a whole number of steps, all on the grid of five decimals.\<close>

definition grid_steps :: "slider_options \<Rightarrow> int \<Rightarrow> bool" where
  "grid_steps os n \<longleftrightarrow> 0 \<le> n \<and> 0 < sl_step os \<and> sl_max os = sl_min os + of_int n * sl_step os \<and>
     (\<exists>a. sl_min os = of_int a / 10 ^ 5) \<and> (\<exists>b. sl_step os = of_int b / 10 ^ 5)"

lemma to_fixed5_grid: "to_fixed5 (of_int k / 10 ^ 5) = of_int k / 10 ^ 5"
proof -
  have "\<bar>of_int k / 10 ^ 5\<bar> * 10 ^ 5 + 1 / 2 = of_int \<bar>k\<bar> + (1 / 2 :: rat)" by simp
  moreover have "\<lfloor>of_int \<bar>k\<bar> + (1 / 2 :: rat)\<rfloor> = \<bar>k\<bar>" by (rule floor_unique) simp_all
  ultimately have "\<lfloor>\<bar>of_int k / 10 ^ 5\<bar> * 10 ^ 5 + (1 / 2 :: rat)\<rfloor> = \<bar>k\<bar>" by simp
  then show ?thesis by (simp add: to_fixed5_def sgn_if)
qed

lemma grid_point: "grid_steps os n \<Longrightarrow> \<exists>c. sl_min os + of_int k * sl_step os = of_int c / 10 ^ 5"
proof -
  assume "grid_steps os n"
  then obtain a b where "sl_min os = of_int a / 10 ^ 5" "sl_step os = of_int b / 10 ^ 5" by (auto simp: grid_steps_def)
  then have "sl_min os + of_int k * sl_step os = of_int (a + k * b) / 10 ^ 5"
    by (simp only: of_int_add of_int_mult add_divide_distrib times_divide_eq_right)
  then show ?thesis by blast
qed

definition nearest_step :: "slider_options \<Rightarrow> rat \<Rightarrow> int" where
  "nearest_step os v = \<lfloor>(v - sl_min os) / sl_step os + 1 / 2\<rfloor>"

lemma trim_align_inside:
  assumes g: "grid_steps os n" and v: "sl_min os < v" "v < sl_max os"
  shows "trim_align os v = sl_min os + of_int (nearest_step os v) * sl_step os" "0 \<le> nearest_step os v" "nearest_step os v \<le> n"
proof -
  define q where "q = (v - sl_min os) / sl_step os"
  define k where "k = \<lfloor>q\<rfloor>"
  have st: "0 < sl_step os" using g by (simp add: grid_steps_def)
  have q: "0 \<le> q" "v - sl_min os = q * sl_step os" using v st by (simp_all add: q_def)
  have "q < of_int n" using v g st by (simp add: q_def grid_steps_def field_simps)
  have k: "of_int k \<le> q" "q < of_int k + 1" unfolding k_def by linarith+
  define r where "r = js_fmod (v - sl_min os) (sl_step os)"
  have r: "r = (q - of_int k) * sl_step os"
    using q st by (simp add: r_def js_fmod_def q_def [symmetric] k_def algebra_simps)
  have a: "v - r = sl_min os + of_int k * sl_step os" using q(2) by (simp add: r algebra_simps)
  have near: "nearest_step os v = (if \<bar>r\<bar> * 2 \<ge> sl_step os then k + 1 else k)"
  proof -
    have "\<bar>r\<bar> * 2 \<ge> sl_step os \<longleftrightarrow> (q - of_int k) * 2 \<ge> 1"
      using k st by (simp add: r abs_mult mult.commute mult.left_commute)
    moreover have "\<lfloor>q + 1 / 2\<rfloor> = k + 1" if "(q - of_int k) * 2 \<ge> 1" using that k by (intro floor_unique) simp_all
    moreover have "\<lfloor>q + 1 / 2\<rfloor> = k" if "\<not> (q - of_int k) * 2 \<ge> 1" using that k by (intro floor_unique) simp_all
    ultimately show ?thesis by (simp add: nearest_step_def q_def)
  qed
  have rp: "0 < r" if "\<bar>r\<bar> * 2 \<ge> sl_step os" using that k st by (simp add: r)
  have "trim_align os v = to_fixed5 (sl_min os + of_int (nearest_step os v) * sl_step os)"
  proof -
    have "trim_align os v = to_fixed5 (if \<bar>r\<bar> * 2 \<ge> sl_step os then v - r + (if r > 0 then sl_step os else - sl_step os) else v - r)"
      using v st by (simp add: trim_align_def Let_def r_def)
    then show ?thesis using rp by (auto simp: a near algebra_simps)
  qed
  then show "trim_align os v = sl_min os + of_int (nearest_step os v) * sl_step os"
    using grid_point [OF g] to_fixed5_grid by metis
  show "0 \<le> nearest_step os v" using q by (simp add: nearest_step_def q_def [symmetric])
  have "\<lfloor>q + 1 / 2\<rfloor> < n + 1" unfolding floor_less_iff using \<open>q < of_int n\<close> by simp
  then show "nearest_step os v \<le> n" by (simp add: nearest_step_def q_def)
qed

lemma trim_align_grid: "grid_steps os n \<Longrightarrow> \<exists>k. 0 \<le> k \<and> k \<le> n \<and> trim_align os v = sl_min os + of_int k * sl_step os"
proof -
  assume g: "grid_steps os n"
  consider "v \<le> sl_min os" | "sl_min os < v" "sl_max os \<le> v" | "sl_min os < v" "v < sl_max os" by linarith
  then show ?thesis
  proof cases
    case 1
    then show ?thesis using g by (intro exI [of _ 0]) (simp add: trim_align_def grid_steps_def)
  next
    case 2
    then show ?thesis using g by (intro exI [of _ n]) (simp add: trim_align_def grid_steps_def)
  next
    case 3
    then show ?thesis using trim_align_inside [OF g 3] by blast
  qed
qed

lemma grid_within:
  "grid_steps os n \<Longrightarrow> 0 \<le> k \<Longrightarrow> k \<le> n \<Longrightarrow>
    sl_min os \<le> sl_min os + of_int k * sl_step os \<and> sl_min os + of_int k * sl_step os \<le> sl_max os"
  by (simp add: grid_steps_def)

lemma trim_align_fixed:
  assumes g: "grid_steps os n" and "0 \<le> k" "k \<le> n"
  shows "trim_align os (sl_min os + of_int k * sl_step os) = sl_min os + of_int k * sl_step os" (is "trim_align os ?v = ?v")
proof -
  have st: "0 < sl_step os" using g by (simp add: grid_steps_def)
  consider "?v \<le> sl_min os" | "sl_min os < ?v" "sl_max os \<le> ?v" | "sl_min os < ?v" "?v < sl_max os" by linarith
  then show ?thesis
  proof cases
    case 1
    then show ?thesis using grid_within [OF assms] by (simp add: trim_align_def)
  next
    case 2
    then show ?thesis using grid_within [OF assms] by (simp add: trim_align_def)
  next
    case 3
    have "nearest_step os ?v = k" unfolding nearest_step_def by (rule floor_unique) (use st in simp_all)
    then show ?thesis using trim_align_inside(1) [OF g 3] by simp
  qed
qed

lemma trim_align_within: "grid_steps os n \<Longrightarrow> sl_min os \<le> trim_align os v \<and> trim_align os v \<le> sl_max os"
  using trim_align_grid grid_within by metis

lemma trim_align_idem: "grid_steps os n \<Longrightarrow> trim_align os (trim_align os v) = trim_align os v"
  using trim_align_grid trim_align_fixed by metis

text \<open>When the range of a slider is a whole number of steps (of at most five decimals), its values are
  what the code promises: between the minimum and the maximum, a whole number of steps from the
  minimum, no step being closer to the value asked for, and reading a value back keeps it.\<close>

theorem trim_align_nearest:
  assumes g: "grid_steps os n"
  shows "sl_min os \<le> trim_align os v \<and> trim_align os v \<le> sl_max os \<and>
    (\<exists>k. 0 \<le> k \<and> k \<le> n \<and> trim_align os v = sl_min os + of_int k * sl_step os) \<and>
    (\<forall>k. 0 \<le> k \<and> k \<le> n \<longrightarrow> \<bar>trim_align os v - v\<bar> \<le> \<bar>sl_min os + of_int k * sl_step os - v\<bar>) \<and>
    trim_align os (trim_align os v) = trim_align os v"
proof (intro conjI allI impI)
  show "trim_align os (trim_align os v) = trim_align os v" by (rule trim_align_idem [OF g])
  fix k assume k: "0 \<le> k \<and> k \<le> n"
  note w = grid_within [OF g, of k]
  consider "v \<le> sl_min os" | "sl_min os < v" "sl_max os \<le> v" | "sl_min os < v" "v < sl_max os" by linarith
  then show "\<bar>trim_align os v - v\<bar> \<le> \<bar>sl_min os + of_int k * sl_step os - v\<bar>"
  proof cases
    case 3
    define q where "q = (v - sl_min os) / sl_step os"
    define j where "j = nearest_step os v"
    have st: "0 < sl_step os" using g by (simp add: grid_steps_def)
    have v: "v = sl_min os + q * sl_step os" using st by (simp add: q_def)
    have "of_int j \<le> q + 1 / 2" "q + 1 / 2 < of_int j + 1" unfolding j_def nearest_step_def q_def by linarith+
    moreover have "of_int k \<le> of_int j - (1 :: rat) \<or> k = j \<or> of_int k \<ge> of_int j + (1 :: rat)" by linarith
    ultimately have "\<bar>of_int j - q\<bar> \<le> \<bar>of_int k - q\<bar>" by linarith
    then have "\<bar>of_int j - q\<bar> * sl_step os \<le> \<bar>of_int k - q\<bar> * sl_step os" using st by simp
    moreover have "\<bar>sl_min os + of_int i * sl_step os - v\<bar> = \<bar>of_int i - q\<bar> * sl_step os" for i
    proof -
      have "sl_min os + of_int i * sl_step os - v = (of_int i - q) * sl_step os" by (simp add: v algebra_simps)
      then show ?thesis using st by (simp add: abs_mult)
    qed
    ultimately show ?thesis by (simp add: trim_align_inside(1) [OF g 3] j_def)
  qed (use w k in \<open>auto simp: trim_align_def\<close>)
qed (use trim_align_within [OF g] trim_align_grid [OF g] in auto)

definition default_slider :: slider_options where
  "default_slider = \<lparr>sl_max = 100, sl_min = 0, sl_step = 1, sl_value = 0, sl_values = None, sl_range = NoRange,
     sl_vertical = False, sl_disabled = False, sl_animate = False\<rparr>"

lemma default_grid: "grid_steps default_slider 100"
proof -
  have "\<exists>a. (0 :: rat) = of_int a / 10 ^ 5" by (intro exI [of _ 0]) simp
  moreover have "\<exists>b. (1 :: rat) = of_int b / 10 ^ 5" by (intro exI [of _ "10 ^ 5"]) simp
  ultimately show ?thesis by (simp add: grid_steps_def default_slider_def)
qed

theorem trim_align_nearest_witness: "trim_align default_slider (37 / 2) \<le> 100 \<and> trim_align default_slider (-3) = 0"
proof -
  have "trim_align default_slider (37 / 2) \<le> sl_max default_slider" using trim_align_nearest [OF default_grid] by blast
  then show ?thesis by (simp add: default_slider_def trim_align_def)
qed

text \<open>Without that condition a value can pass the maximum: with steps of 4 from 0 to 11, setting 10
  stores 12, the slide event reports 12, and only reading the value back gives 11.\<close>

theorem trim_align_overshoots:
  "trim_align (default_slider\<lparr>sl_max := 11, sl_step := 4\<rparr>) 10 = 12 \<and>
   sl_value (sl_options (set_value 10 (slider_create 0 (default_slider\<lparr>sl_max := 11, sl_step := 4\<rparr>)))) = 12 \<and>
   get_value (sl_options (set_value 10 (slider_create 0 (default_slider\<lparr>sl_max := 11, sl_step := 4\<rparr>)))) = 11"
proof -
  let ?o = "default_slider\<lparr>sl_max := 11, sl_step := 4\<rparr>"
  have "\<lfloor>5 / 2 :: rat\<rfloor> = 2" "\<lfloor>2400001 / 2 :: rat\<rfloor> = 1200000" by (rule floor_unique; simp)+
  then have t: "trim_align ?o 10 = 12"
    by (simp add: trim_align_def default_slider_def js_fmod_def to_fixed5_def Let_def)
  have opts: "sl_options (refresh_value s) = sl_options s" "sl_options (trigger_change i s) = sl_options s" for s i
    by (simp_all add: refresh_value_def Let_def trigger_change_def split_beta)
  have "sl_options (slider_create 0 ?o) = ?o"
    by (simp add: slider_create_def opts range_values_def default_slider_def)
  moreover have "sl_options (set_value 10 s) = (sl_options s)\<lparr>sl_value := trim_align (sl_options s) 10\<rparr>" for s
    by (simp add: set_value_def opts set_opts_def)
  ultimately have "sl_options (set_value 10 (slider_create 0 ?o)) = ?o\<lparr>sl_value := 12\<rparr>" by (simp only: t)
  then show ?thesis using t by (simp add: get_value_def trim_align_def default_slider_def)
qed

section \<open>The order of a range's handles\<close>

lemma log_fields [simp]:
  "sl_options (trigger_start i s) = sl_options s" "sl_options (trigger_stop i s) = sl_options s"
  "sl_options (trigger_change i s) = sl_options s" "handle_count (trigger_start i s) = handle_count s"
  "handle_count (trigger_stop i s) = handle_count s" "handle_count (trigger_change i s) = handle_count s"
  "handle_index (trigger_start i s) = handle_index s" "handle_index (trigger_stop i s) = handle_index s"
  "handle_index (trigger_change i s) = handle_index s"
  "element_size (trigger_start i s) = element_size s" "element_size (trigger_stop i s) = element_size s"
  "element_size (trigger_change i s) = element_size s"
  "mouse_sliding (trigger_start i s) = mouse_sliding s" "mouse_sliding (trigger_stop i s) = mouse_sliding s"
  "mouse_sliding (trigger_change i s) = mouse_sliding s"
  "key_sliding (trigger_start i s) = key_sliding s" "key_sliding (trigger_stop i s) = key_sliding s"
  "key_sliding (trigger_change i s) = key_sliding s"
  by (simp_all add: trigger_start_def trigger_stop_def trigger_change_def split_beta)

lemma refresh_fields [simp]:
  "sl_options (refresh_value s) = sl_options s" "handle_count (refresh_value s) = handle_count s"
  "handle_index (refresh_value s) = handle_index s" "element_size (refresh_value s) = element_size s" "mouse_sliding (refresh_value s) = mouse_sliding s"
  "key_sliding (refresh_value s) = key_sliding s" "slider_log (refresh_value s) = slider_log s"
  by (simp_all add: refresh_value_def Let_def)

lemma set_value_fields [simp]:
  "sl_options (set_values_at i v s) =
     (sl_options s)\<lparr>sl_values := Some (js_set (the_values (sl_options s)) i (map_option (trim_align (sl_options s)) v))\<rparr>"
  "handle_count (set_values_at i v s) = handle_count s" "handle_index (set_values_at i v s) = handle_index s"
  "mouse_sliding (set_values_at i v s) = mouse_sliding s" "key_sliding (set_values_at i v s) = key_sliding s"
  "sl_options (set_value x s) = (sl_options s)\<lparr>sl_value := trim_align (sl_options s) x\<rparr>"
  "element_size (set_values_at i v s) = element_size s" "element_size (set_value x s) = element_size s"
  "handle_count (set_value x s) = handle_count s" "handle_index (set_value x s) = handle_index s"
  "mouse_sliding (set_value x s) = mouse_sliding s" "key_sliding (set_value x s) = key_sliding s"
  by (simp_all add: set_values_at_def set_value_def set_opts_def)

definition aligned :: "slider_options \<Rightarrow> rat \<Rightarrow> bool" where
  "aligned os v \<longleftrightarrow> trim_align os v = v"

definition range_opts :: "slider_options \<Rightarrow> bool" where
  "range_opts os \<longleftrightarrow> (\<exists>n. grid_steps os n) \<and> sl_range os = FullRange \<and>
     (\<exists>a b. sl_values os = Some [Some a, Some b] \<and> a \<le> b \<and> aligned os a \<and> aligned os b)"

definition positive :: "rat \<times> rat \<Rightarrow> bool" where
  "positive p \<longleftrightarrow> 0 < fst p \<and> 0 < snd p"

definition range_ok :: "slider \<Rightarrow> bool" where
  "range_ok s \<longleftrightarrow> range_opts (sl_options s) \<and> handle_count s = 2 \<and> handle_index s \<in> {None, Some 0, Some 1} \<and>
     (handle_index s \<noteq> None \<longrightarrow> positive (element_size s))"

text \<open>A press on a slider that is visible.\<close>

definition good_press :: "slider_press \<Rightarrow> bool" where
  "good_press e \<longleftrightarrow> positive (box_size e)"

lemma aligned_values: "aligned (os\<lparr>sl_values := vs\<rparr>) v = aligned os v" "grid_steps (os\<lparr>sl_values := vs\<rparr>) n = grid_steps os n"
  by (simp_all add: aligned_def trim_align_def grid_steps_def)

lemma range_opts_slide:
  assumes "range_opts os" "aligned os v" "i < 2" and "limit_by_other os i (Some v) = new"
  shows "range_opts (os\<lparr>sl_values := Some (js_set (the_values os) i (map_option (trim_align os) new))\<rparr>)"
proof -
  obtain n a b where g: "grid_steps os n" "sl_range os = FullRange" "sl_values os = Some [Some a, Some b]" "a \<le> b"
    "aligned os a" "aligned os b"
    using assms(1) by (auto simp: range_opts_def)
  have vals: "has_values os" "the_values os = [Some a, Some b]" using g(3) by (simp_all add: has_values_def the_values_def)
  then have at: "get_values_at os 0 = Some a" "get_values_at os (Suc 0) = Some b"
    using g(5,6) by (simp_all add: get_values_at_def js_get_def aligned_def)
  consider "i = 0" | "i = 1" using assms(3) by linarith
  then show ?thesis
  proof cases
    case 1
    then have "new = Some (if b < v then b else v)"
      using assms(4) vals at g(2) by (auto simp: limit_by_other_def num_less_def)
    then show ?thesis
      using 1 g assms(2) vals(2) unfolding range_opts_def aligned_values
      by (intro conjI exI [of _ n] exI [of _ "if b < v then b else v"] exI [of _ b]) (auto simp: js_set_def aligned_def)
  next
    case 2
    then have "new = Some (if v < a then a else v)"
      using assms(4) vals at g(2) by (auto simp: limit_by_other_def num_less_def)
    then show ?thesis
      using 2 g assms(2) vals(2) unfolding range_opts_def aligned_values
      by (intro conjI exI [of _ n] exI [of _ a] exI [of _ "if v < a then a else v"]) (auto simp: js_set_def aligned_def)
  qed
qed

lemma range_ok_slide:
  assumes ok: "range_ok s" and v: "\<And>x. new = Some x \<Longrightarrow> aligned (sl_options s) x" and i: "i < 2" and n: "new \<noteq> None"
  shows "range_ok (slide_to allow i new s)"
proof -
  obtain v where new: "new = Some v" using n by blast
  have r: "range_opts (sl_options s)" using ok by (simp add: range_ok_def)
  then have h: "has_values (sl_options s)" by (auto simp: range_opts_def has_values_def)
  from range_opts_slide [OF r assms(2) [OF new] i refl] ok new show ?thesis
    by (simp add: slide_to_def Let_def h range_ok_def)
qed

lemma range_ok_fields: "range_ok s \<Longrightarrow> sl_options s' = sl_options s \<Longrightarrow> handle_count s' = handle_count s \<Longrightarrow>
    handle_index s' = handle_index s \<Longrightarrow> element_size s' = element_size s \<Longrightarrow> range_ok s'"
  by (simp add: range_ok_def)

lemma norm_value_some: "positive (element_size s) \<Longrightarrow> \<exists>x. norm_value_from_mouse s pos = Some x"
  by (simp add: norm_value_from_mouse_def Let_def positive_def split: prod.splits)

lemma norm_value_aligned: "range_ok s \<Longrightarrow> norm_value_from_mouse s pos = Some x \<Longrightarrow> aligned (sl_options s) x"
  using trim_align_idem by (auto simp: norm_value_from_mouse_def Let_def aligned_def range_ok_def range_opts_def split: prod.splits)

lemma closest_of_two:
  assumes "handle_count s = 2" "get_values_at (sl_options s) 0 = Some a" "get_values_at (sl_options s) 1 = Some b"
  shows "closest_handle s (Some v) =
    (if sl_max (sl_options s) - sl_min (sl_options s) + 1 > \<bar>v - a\<bar>
     then (if \<bar>v - a\<bar> > \<bar>v - b\<bar> then Some 1 else Some 0)
     else if sl_max (sl_options s) - sl_min (sl_options s) + 1 > \<bar>v - b\<bar> then Some 1 else None)"
proof -
  have "[0..<2] = [0, Suc 0]" by (simp add: upt_rec)
  then show ?thesis using assms by (simp add: closest_handle_def Let_def num2_def)
qed

lemma closest_none: "closest_handle s None = None"
proof -
  have "fold (\<lambda>i (distance, index). (case num2 f None (g i) of Some d \<Rightarrow> if distance > d then (d, Some i) else (distance, index)
       | None \<Rightarrow> (distance, index))) is d0 = d0" for f g "is" and d0 :: "rat \<times> nat option"
    by (induction "is" arbitrary: d0) (simp_all add: num2_def split_beta)
  then show ?thesis by (simp add: closest_handle_def Let_def)
qed

lemma range_ok_capture:
  assumes r: "range_ok s" and e: "good_press e" and c: "mouse_capture e s = Inr (s', ok)"
  shows "range_ok s'"
proof -
  define s1 where "s1 = s\<lparr>element_size := box_size e, element_offset := box_offset e\<rparr>"
  define nv where "nv = norm_value_from_mouse s1 (press_pos e)"
  have pos: "positive (element_size s1)" using e by (simp add: s1_def good_press_def)
  have one: "range_ok s1" using r pos by (simp add: s1_def range_ok_def)
  obtain n a b where g: "grid_steps (sl_options s) n" "sl_range (sl_options s) = FullRange"
    "sl_values (sl_options s) = Some [Some a, Some b]" "a \<le> b" "aligned (sl_options s) a" "aligned (sl_options s) b"
    using r by (auto simp: range_ok_def range_opts_def)
  have at: "get_values_at (sl_options s1) 0 = Some a" "get_values_at (sl_options s1) 1 = Some b" "sl_options s1 = sl_options s"
    using g by (simp_all add: s1_def get_values_at_def has_values_def the_values_def js_get_def aligned_def)
  have low: "sl_min (sl_options s) \<le> a" using trim_align_within [OF g(1), of a] g(5) by (simp add: aligned_def)
  obtain v where v: "nv = Some v" using norm_value_some [OF pos] unfolding nv_def by blast
  show ?thesis
  proof (cases "sl_disabled (sl_options s)")
    case True
    then show ?thesis using r c by (simp add: mouse_capture_def)
  next
    case enabled: False
    show ?thesis
    proof (cases "closest_handle s1 nv")
      case None
      then have "s' = s1"
        using c enabled by (auto simp: mouse_capture_def Let_def s1_def [symmetric] nv_def [symmetric] split: if_splits)
      then show ?thesis using one by simp
    next
      case (Some k)
      have k: "k < 2" "a = b \<Longrightarrow> k = 0"
        using Some closest_of_two [OF _ at(1,2), of v] one by (auto simp: v range_ok_def split: if_splits)
      define i where "i = (if sl_range (sl_options s) = FullRange \<and> get_values_at (sl_options s) 1 = Some (sl_min (sl_options s))
        then k + 1 else k)"
      have i: "i < 2" using k low g(4) at by (auto simp: i_def)
      then have idx: "Some i \<in> {None, Some 0, Some 1}" by auto
      define s2 where "s2 = trigger_start i s1"
      define s3 where "s3 = s2\<lparr>mouse_sliding := True, handle_index := Some i, click_offset := Some (grab_offset e i)\<rparr>"
      have two: "range_ok s2" using one by (rule range_ok_fields) (simp_all add: s2_def)
      then have three: "range_ok s3" using idx pos by (simp add: s3_def range_ok_def s2_def)
      have opts: "sl_options s3 = sl_options s1" by (simp add: s3_def s2_def)
      have "aligned (sl_options s3) x" if "nv = Some x" for x
        using norm_value_aligned [OF one] that opts by (simp add: nv_def)
      then have "range_ok (slide_to (allow_slide e) i nv s3)" using three i v by (intro range_ok_slide) auto
      then have four: "range_ok ((if any_hover e then s3 else slide_to (allow_slide e) i nv s3)\<lparr>animate_off := True\<rparr>)"
        using three by (auto simp: range_ok_def)
      have "mouse_capture e s = (if \<not> allow_start e then Inr (s2, False)
          else if handle_count s \<le> i \<and> over_handle e then Inl TypeError
          else Inr ((if any_hover e then s3 else slide_to (allow_slide e) i nv s3)\<lparr>animate_off := True\<rparr>, True))"
        unfolding mouse_capture_def Let_def s1_def [symmetric] nv_def [symmetric] Some option.case i_def [symmetric]
          s2_def [symmetric] s3_def [symmetric] using enabled by simp
      then show ?thesis using c two four by (auto split: if_splits)
    qed
  qed
qed

lemma range_ok_drag: "range_ok s \<Longrightarrow> range_ok (mouse_drag e s)"
proof (cases "handle_index s")
  case (Some i)
  assume r: "range_ok s"
  have i: "i < 2" and "positive (element_size s)" using r Some by (auto simp: range_ok_def)
  then obtain x where x: "norm_value_from_mouse s (press_pos e) = Some x" using norm_value_some by blast
  have "range_ok (slide_to (allow_slide e) i (norm_value_from_mouse s (press_pos e)) s)"
    using norm_value_aligned [OF r] x by (intro range_ok_slide [OF r _ i]) auto
  then show ?thesis by (simp add: mouse_drag_def Some)
qed (simp add: mouse_drag_def)

lemma range_ok_stop: "range_ok s \<Longrightarrow> range_ok (mouse_stop s)"
  by (auto simp: mouse_stop_def Let_def range_ok_def split: option.split)

interpretation range_slider: mouse_client slider_hooks good_press range_ok
  by unfold_locales
    (auto simp: slider_hooks_def range_ok_drag range_ok_stop intro: range_ok_capture)

lemma key_target_aligned:
  assumes "range_ok s" and "key_target (sl_options s) c cur = Some new" and "cur = Some x" and "aligned (sl_options s) x"
  shows "\<exists>y. new = Some y \<and> aligned (sl_options s) y"
proof -
  obtain n where g: "grid_steps (sl_options s) n" using assms(1) by (auto simp: range_ok_def range_opts_def)
  have ends: "aligned (sl_options s) (sl_min (sl_options s))" "aligned (sl_options s) (sl_max (sl_options s))"
    using trim_align_fixed [OF g, of 0] trim_align_fixed [OF g, of n] g by (simp_all add: aligned_def grid_steps_def)
  show ?thesis
    using assms(2-4) ends trim_align_idem [OF g]
    by (auto simp: key_target_def Let_def aligned_def split: if_splits)
qed

lemma range_ok_key:
  assumes "range_ok s" "i < 2"
  shows "range_ok (slider_key_down may_start may_slide i c s)"
proof -
  define s1 where "s1 = (if nav_key c \<and> \<not> key_sliding s then trigger_start i (s\<lparr>key_sliding := True\<rparr>) else s)"
  have one: "range_ok s1" using assms(1) by (simp add: s1_def range_ok_def)
  obtain a b where v: "sl_values (sl_options s1) = Some [Some a, Some b]" "aligned (sl_options s1) a" "aligned (sl_options s1) b"
    using one by (auto simp: range_ok_def range_opts_def)
  have "get_values_at (sl_options s1) i = Some (if i = 0 then a else b)"
    using v assms(2) by (auto simp: get_values_at_def has_values_def the_values_def js_get_def aligned_def less_2_cases_iff)
  then have cur: "get_values_at (sl_options s1) i = Some (if i = 0 then a else b)"
    "aligned (sl_options s1) (if i = 0 then a else b)" using v by simp_all
  have h: "has_values (sl_options s1)" using v by (simp add: has_values_def)
  have "range_ok (slide_to may_slide i new s1)" if "key_target (sl_options s1) c (get_values_at (sl_options s1) i) = Some new" for new
    using key_target_aligned [OF one that cur] by (intro range_ok_slide [OF one _ assms(2)]) auto
  then have "range_ok (case key_target (sl_options s1) c (get_values_at (sl_options s1) i) of None \<Rightarrow> s1
      | Some new \<Rightarrow> slide_to may_slide i new s1)"
    using one by (simp split: option.split)
  then show ?thesis
    using assms(1) one h unfolding slider_key_down_def Let_def s1_def [symmetric] by simp
qed

text \<open>Everything a user can do to a slider: gestures of the mouse and keys on a handle.\<close>

inductive slider_used :: "(unit slider_press_ext, slider) mouse \<Rightarrow> (unit slider_press_ext, slider) mouse \<Rightarrow> bool" for m0 where
  used_start: "slider_used m0 m0"
| used_mouse: "slider_used m0 m \<Longrightarrow> mouse_step slider_hooks good_press m m' \<Longrightarrow> slider_used m0 m'"
| used_key_down: "slider_used m0 m \<Longrightarrow> i < handle_count (widget m) \<Longrightarrow>
    slider_used m0 (m\<lparr>widget := slider_key_down may_start may_slide i c (widget m)\<rparr>)"
| used_key_up: "slider_used m0 m \<Longrightarrow> i < handle_count (widget m) \<Longrightarrow>
    slider_used m0 (m\<lparr>widget := slider_key_up i (widget m)\<rparr>)"

lemma slider_used_ok: "slider_used m0 m \<Longrightarrow> range_ok (widget m0) \<Longrightarrow> range_ok (widget m)"
proof (induction rule: slider_used.induct)
  case (used_mouse m m')
  then show ?case using range_slider.step_keeps by blast
next
  case (used_key_down m i may_start may_slide c)
  then have "range_ok (widget m)" "i < 2" by (simp_all add: range_ok_def)
  then show ?case by (simp add: range_ok_key)
qed (simp_all add: slider_key_up_def range_ok_def)

text \<open>C16: However its user moves the two handles of a visible range slider, with the mouse or the keys, with any answers of the page to its events, the two
  stored values stay in order, on the grid of steps and within the limits, and stay two.  The range is a whole number of positive steps, the minimum and the step have at
  most five decimals, the option \<open>range\<close> is \<open>true\<close>, and the two values at the start are in order, on the grid and within the limits; options do not change meanwhile, and handlers do not call
  the slider.  Without the condition on steps a value can pass the maximum.
\<close>

theorem range_stays_ordered:
  assumes "slider_used m0 m" and "range_ok (widget m0)"
  shows "\<exists>a b. sl_values (sl_options (widget m)) = Some [Some a, Some b] \<and> a \<le> b \<and>
    sl_min (sl_options (widget m)) \<le> a \<and> b \<le> sl_max (sl_options (widget m)) \<and>
    get_values (sl_options (widget m)) = [Some a, Some b]"
proof -
  have "range_ok (widget m)" by (rule slider_used_ok [OF assms])
  then obtain n a b where g: "grid_steps (sl_options (widget m)) n" "sl_values (sl_options (widget m)) = Some [Some a, Some b]"
    "a \<le> b" "aligned (sl_options (widget m)) a" "aligned (sl_options (widget m)) b"
    by (auto simp: range_ok_def range_opts_def)
  then show ?thesis
    using trim_align_within [OF g(1), of a] trim_align_within [OF g(1), of b]
    by (simp add: get_values_def the_values_def aligned_def)
qed

definition demo_range :: slider_options where
  "demo_range = default_slider\<lparr>sl_range := FullRange, sl_values := Some [Some 20, Some 60]\<rparr>"

lemma demo_range_grid: "grid_steps demo_range 100"
  using default_grid by (simp add: demo_range_def default_slider_def grid_steps_def)

lemma demo_range_fields: "sl_options (slider_create 0 demo_range) = demo_range" "handle_count (slider_create 0 demo_range) = 2"
  "handle_index (slider_create 0 demo_range) = None"
  by (simp_all add: slider_create_def) (simp_all add: demo_range_def default_slider_def range_values_def has_values_def the_values_def)

lemma demo_range_ok: "range_ok (slider_create 0 demo_range)"
proof -
  have "trim_align demo_range (sl_min demo_range + of_int k * sl_step demo_range) = sl_min demo_range + of_int k * sl_step demo_range"
    if "0 \<le> k" "k \<le> 100" for k
    by (rule trim_align_fixed [OF demo_range_grid that])
  from this [of 20] this [of 60] have "aligned demo_range 20" "aligned demo_range 60"
    by (simp_all add: aligned_def demo_range_def default_slider_def)
  moreover have "sl_range demo_range = FullRange" "sl_values demo_range = Some [Some 20, Some 60]"
    by (simp_all add: demo_range_def default_slider_def)
  moreover have "\<exists>n. grid_steps demo_range n" using demo_range_grid by blast
  ultimately have "range_opts demo_range" by (simp add: range_opts_def)
  then show ?thesis by (simp add: range_ok_def demo_range_fields)
qed

theorem range_stays_ordered_witness:
  "\<exists>a b. sl_values (sl_options (slider_key_down True True 0 35 (slider_create 0 demo_range))) = Some [Some a, Some b] \<and> a \<le> b"
proof -
  let ?m = "mouse_widget 0 0 (slider_create 0 demo_range) :: (unit slider_press_ext, slider) mouse"
  have w: "widget ?m = slider_create 0 demo_range" by (simp add: mouse_widget_def)
  have "slider_used ?m (?m\<lparr>widget := slider_key_down True True 0 35 (widget ?m)\<rparr>)"
    by (rule used_key_down [OF used_start]) (simp add: w demo_range_fields)
  from range_stays_ordered [OF this] show ?thesis using demo_range_ok by (auto simp: w)
qed

section \<open>A gesture\<close>

definition is_slide :: "nat \<Rightarrow> slider_event \<Rightarrow> bool" where
  "is_slide i ev \<longleftrightarrow> (case ev of Slide j v vs \<Rightarrow> j = i | _ \<Rightarrow> False)"

lemma trigger_change_sliding: "mouse_sliding s \<Longrightarrow> trigger_change i s = s"
  by (simp add: trigger_change_def)

lemma slide_to_keeps [simp]:
  "handle_index (slide_to a i v s) = handle_index s" "mouse_sliding (slide_to a i v s) = mouse_sliding s"
  "key_sliding (slide_to a i v s) = key_sliding s"
  by (simp_all add: slide_to_def Let_def split: option.split)

lemma slide_to_log:
  assumes "mouse_sliding s"
  shows "\<exists>xs. slider_log (slide_to a i v s) = slider_log s @ xs \<and> list_all (is_slide i) xs"
proof -
  have quiet: "slider_log (set_values_at i x s') = slider_log s'" "slider_log (set_value y s') = slider_log s'" if "mouse_sliding s'" for s' x y
    using that by (simp_all add: set_values_at_def set_value_def set_opts_def trigger_change_sliding)
  show ?thesis
    using assms by (auto simp: slide_to_def Let_def quiet is_slide_def split: option.split)
qed

lemma capture_log:
  assumes "mouse_capture e s = Inr (s', True)"
  shows "\<exists>i v vs xs. handle_index s' = Some i \<and> mouse_sliding s' \<and> key_sliding s' = key_sliding s \<and>
    slider_log s' = slider_log s @ SlideStart i v vs # xs \<and> list_all (is_slide i) xs"
proof -
  define s1 where "s1 = s\<lparr>element_size := box_size e, element_offset := box_offset e\<rparr>"
  define nv where "nv = norm_value_from_mouse s1 (press_pos e)"
  have "\<not> sl_disabled (sl_options s)" using assms by (auto simp: mouse_capture_def)
  then obtain k where k: "closest_handle s1 nv = Some k"
    using assms by (auto simp: mouse_capture_def Let_def s1_def [symmetric] nv_def [symmetric] split: option.splits if_splits)
  define i where "i = (if sl_range (sl_options s) = FullRange \<and> get_values_at (sl_options s) 1 = Some (sl_min (sl_options s))
    then k + 1 else k)"
  define s3 where "s3 = (trigger_start i s1)\<lparr>mouse_sliding := True, handle_index := Some i, click_offset := Some (grab_offset e i)\<rparr>"
  have s': "s' = (if any_hover e then s3 else slide_to (allow_slide e) i nv s3)\<lparr>animate_off := True\<rparr>"
    using assms \<open>\<not> sl_disabled (sl_options s)\<close>
    unfolding mouse_capture_def Let_def s1_def [symmetric] nv_def [symmetric] k option.case i_def [symmetric] s3_def [symmetric]
    by (auto split: if_splits)
  have sl: "mouse_sliding s3" by (simp add: s3_def)
  obtain v vs where "slider_log s3 = slider_log s @ [SlideStart i v vs]"
    by (simp add: s3_def trigger_start_def split_beta s1_def)
  moreover have "handle_index s3 = Some i" "key_sliding s3 = key_sliding s" by (simp_all add: s3_def s1_def)
  moreover obtain xs where "slider_log (slide_to (allow_slide e) i nv s3) = slider_log s3 @ xs" "list_all (is_slide i) xs"
    using slide_to_log [OF sl] by blast
  ultimately show ?thesis
    using sl by (cases "any_hover e") (auto simp: s')
qed

lemma drag_log:
  assumes "handle_index s = Some i" "mouse_sliding s"
  shows "\<exists>xs. slider_log (mouse_drag e s) = slider_log s @ xs \<and> list_all (is_slide i) xs"
  using slide_to_log [OF assms(2)] by (simp add: mouse_drag_def assms(1))

lemma stop_log:
  assumes "handle_index s = Some i" "\<not> key_sliding s"
  shows "\<exists>v vs. slider_log (mouse_stop s) = slider_log s @ [SlideStop i v vs, SlideChange i v vs] \<and> \<not> mouse_sliding (mouse_stop s)"
proof -
  let ?s = "s\<lparr>mouse_sliding := False\<rparr>"
  have "event_hash (trigger_stop i ?s) i = event_hash ?s i" by (simp add: event_hash_def)
  then show ?thesis
    using assms by (simp add: mouse_stop_def Let_def trigger_change_def) (simp add: trigger_stop_def split_beta)
qed

text \<open>The moves of a gesture that has started.\<close>

lemma moves_log:
  assumes "started m" "handle_index (widget m) = Some i" "mouse_sliding (widget m)" "\<not> key_sliding (widget m)" "list_all (\<lambda>e. \<not> ev_lost e) es"
  shows "\<exists>xs. slider_log (widget (fold (mouse_move slider_hooks) es m)) = slider_log (widget m) @ xs \<and> list_all (is_slide i) xs \<and>
    started (fold (mouse_move slider_hooks) es m) \<and> listening (fold (mouse_move slider_hooks) es m) = listening m \<and>
    handle_index (widget (fold (mouse_move slider_hooks) es m)) = Some i \<and>
    \<not> key_sliding (widget (fold (mouse_move slider_hooks) es m))"
  using assms
proof (induction es arbitrary: m)
  case (Cons e es)
  define m1 where "m1 = mouse_move slider_hooks e m"
  have m1: "m1 = m\<lparr>widget := mouse_drag e (widget m), hook_log := hook_log m @ [Dragged]\<rparr>"
    using Cons.prems by (simp add: m1_def mouse_move_def drag_gesture_def slider_hooks_def)
  obtain xs where xs: "slider_log (widget m1) = slider_log (widget m) @ xs" "list_all (is_slide i) xs"
    using drag_log [OF Cons.prems(2,3)] by (auto simp: m1)
  have "started m1" "handle_index (widget m1) = Some i" "mouse_sliding (widget m1)" "\<not> key_sliding (widget m1)"
    using Cons.prems by (simp_all add: m1 mouse_drag_def)
  from Cons.IH [OF this] obtain ys where
    "slider_log (widget (fold (mouse_move slider_hooks) es m1)) = slider_log (widget m1) @ ys" "list_all (is_slide i) ys"
    "started (fold (mouse_move slider_hooks) es m1)" "listening (fold (mouse_move slider_hooks) es m1) = listening m1"
    "handle_index (widget (fold (mouse_move slider_hooks) es m1)) = Some i"
    "\<not> key_sliding (widget (fold (mouse_move slider_hooks) es m1))"
    using Cons.prems(5) by auto
  moreover have "listening m1 = listening m" by (simp add: m1)
  ultimately show ?case using xs by (intro exI [of _ "xs @ ys"]) (simp add: m1_def)
qed simp

text \<open>With the default options a gesture of the mouse reports one start, then slides of the same handle,
  then one stop and one change with the value it ended at; afterwards the slider is not sliding.\<close>

theorem slider_gesture_events:
  assumes "ev_which e = 1" "\<not> ev_cancel e" "\<not> handled m" "\<not> started m" "opt_distance m \<le> 0" "opt_delay m = 0"
    and c: "mouse_capture e (widget m) = Inr (w, True)" and k: "\<not> key_sliding (widget m)"
    and es: "list_all (\<lambda>e. \<not> ev_lost e) es"
  shows "\<exists>m1 i v vs slides v' vs'. mouse_down slider_hooks e m = Inr m1 \<and>
    slider_log (widget (document_mouse_up slider_hooks u (fold (mouse_move slider_hooks) es m1))) =
      slider_log (widget m) @ [SlideStart i v vs] @ slides @ [SlideStop i v' vs', SlideChange i v' vs'] \<and>
    list_all (is_slide i) slides \<and>
    \<not> mouse_sliding (widget (document_mouse_up slider_hooks u (fold (mouse_move slider_hooks) es m1)))"
proof -
  obtain i v vs xs where w: "handle_index w = Some i" "mouse_sliding w" "key_sliding w = key_sliding (widget m)"
    "slider_log w = slider_log (widget m) @ SlideStart i v vs # xs" "list_all (is_slide i) xs"
    using capture_log [OF c] by blast
  have "\<exists>m1. mouse_down slider_hooks e m = Inr m1 \<and> widget m1 = w \<and> started m1 \<and> listening m1"
    using assms(1-6) c
    by (simp add: mouse_down_def Let_def slider_hooks_def distance_met_def begin_gesture_def)
  then obtain m1 where m1: "mouse_down slider_hooks e m = Inr m1" "widget m1 = w" "started m1" "listening m1" by blast
  define m2 where "m2 = fold (mouse_move slider_hooks) es m1"
  obtain ys where ys: "slider_log (widget m2) = slider_log w @ ys" "list_all (is_slide i) ys" "started m2" "listening m2"
    "handle_index (widget m2) = Some i" "\<not> key_sliding (widget m2)"
    using moves_log [OF m1(3) _ _ _ es, of i] w k m1 by (auto simp: m2_def)
  have up: "widget (document_mouse_up slider_hooks u m2) = mouse_stop (widget m2)"
    using ys by (simp add: document_mouse_up_def mouse_up_def Let_def slider_hooks_def)
  obtain v' vs' where "slider_log (mouse_stop (widget m2)) = slider_log (widget m2) @ [SlideStop i v' vs', SlideChange i v' vs']"
    "\<not> mouse_sliding (mouse_stop (widget m2))"
    using stop_log [OF ys(5,6)] by blast
  then show ?thesis
    using m1(1) w ys
    by (intro exI [of _ m1] exI [of _ i] exI [of _ v] exI [of _ vs] exI [of _ "xs @ ys"] exI [of _ v'] exI [of _ vs'])
      (simp add: m2_def [symmetric] up)
qed

definition demo_press :: slider_press where
  "demo_press = \<lparr>ev_x = 90, ev_y = 5, ev_which = 1, ev_target = 0, ev_cancel = False, ev_lost = False, over_handle = False,
     any_hover = True, allow_start = True, allow_slide = True, box_size = (100, 10), box_offset = (0, 0),
     geometry = (\<lambda>_. \<lparr>h_left = 0, h_top = 0, h_width = 10, h_height = 10, h_border_top = 0, h_border_bottom = 0, h_margin_top = 0\<rparr>)\<rparr>"

lemma capture_no_range:
  assumes "\<not> sl_disabled (sl_options s)" "sl_range (sl_options s) \<noteq> FullRange" "handle_count s = 1" "\<not> has_values (sl_options s)"
    and "sl_options s = os" "grid_steps os n" "positive (box_size e)" "allow_start e" "\<not> over_handle e"
  shows "\<exists>w. mouse_capture e s = Inr (w, True)"
proof -
  define s1 where "s1 = s\<lparr>element_size := box_size e, element_offset := box_offset e\<rparr>"
  have "positive (element_size s1)" using assms(7) by (simp add: s1_def)
  then obtain v where v: "norm_value_from_mouse s1 (press_pos e) = Some v" using norm_value_some by blast
  have "sl_min os \<le> v" "v \<le> sl_max os"
    using v trim_align_within [OF assms(6)] assms(5)
    by (auto simp: norm_value_from_mouse_def Let_def s1_def split: prod.splits)
  moreover have "sl_min os \<le> get_value os" "get_value os \<le> sl_max os"
    using trim_align_within [OF assms(6)] by (simp_all add: get_value_def)
  ultimately have "\<bar>v - get_value os\<bar> < sl_max os - sl_min os + 1" by linarith
  then have "closest_handle s1 (Some v) = Some 0"
    using assms(3-5) by (simp add: closest_handle_def Let_def s1_def num2_def get_values_at_def)
  then show ?thesis
    using assms v by (simp add: mouse_capture_def Let_def s1_def)
qed

theorem slider_gesture_events_witness:
  "\<exists>m1 i v vs slides v' vs'. mouse_down slider_hooks demo_press (mouse_widget 0 0 (slider_create 0 default_slider)) = Inr m1 \<and>
     slider_log (widget (document_mouse_up slider_hooks demo_press (fold (mouse_move slider_hooks) [demo_press] m1))) =
       [SlideStart i v vs] @ slides @ [SlideStop i v' vs', SlideChange i v' vs']"
proof -
  let ?m = "mouse_widget 0 0 (slider_create 0 default_slider) :: (unit slider_press_ext, slider) mouse"
  have s: "sl_options (slider_create 0 default_slider) = default_slider" "handle_count (slider_create 0 default_slider) = 1"
    "\<not> key_sliding (slider_create 0 default_slider)" "slider_log (slider_create 0 default_slider) = []"
    by (simp_all add: slider_create_def) (simp_all add: default_slider_def range_values_def has_values_def the_values_def)
  obtain w where "mouse_capture demo_press (slider_create 0 default_slider) = Inr (w, True)"
    using capture_no_range [of "slider_create 0 default_slider" default_slider 100 demo_press] default_grid s
    by (auto simp: demo_press_def positive_def default_slider_def has_values_def)
  then have c: "mouse_capture demo_press (widget ?m) = Inr (w, True)" by (simp add: mouse_widget_def)
  have "ev_which demo_press = 1" "\<not> ev_cancel demo_press" "\<not> handled ?m" "\<not> started ?m" "opt_distance ?m \<le> 0"
    "opt_delay ?m = 0" "\<not> key_sliding (widget ?m)" "list_all (\<lambda>e. \<not> ev_lost e) [demo_press]"
    by (simp_all add: demo_press_def mouse_widget_def s)
  from slider_gesture_events [OF this(1-6) c this(7,8), of demo_press]
  show ?thesis by (simp add: mouse_widget_def s) blast
qed

section \<open>A range without values\<close>

text \<open>A slider created with \<open>range: true\<close> and no \<open>values\<close> gets two values but a single handle, since
  the handles are counted before the values are completed; pressing that handle then moves on
  to the missing second one and dies with a TypeError.\<close>

theorem default_range_throws:
  assumes "grid_steps os n" "sl_range os = FullRange" "sl_values os = None" "\<not> sl_disabled os"
    and "positive (box_size e)" "allow_start e" "over_handle e"
  shows "handle_count (slider_create 0 os) = 1 \<and> length (the_values (sl_options (slider_create 0 os))) = 2 \<and>
    mouse_capture e (slider_create 0 os) = Inl TypeError"
proof -
  define s where "s = slider_create 0 os"
  have s: "handle_count s = 1" "the_values (sl_options s) = [Some (sl_min os), Some (sl_min os)]"
    "has_values (sl_options s)" "sl_range (sl_options s) = FullRange" "\<not> sl_disabled (sl_options s)"
    "sl_min (sl_options s) = sl_min os" "sl_max (sl_options s) = sl_max os" "trim_align (sl_options s) = trim_align os"
    using assms(2-4)
    by (simp_all add: s_def slider_create_def has_values_def the_values_def range_values_def trim_align_def fun_eq_iff)
  have "trim_align os (sl_min os) = sl_min os" by (simp add: trim_align_def)
  then have at: "get_values_at (sl_options s) 0 = Some (sl_min os)" "get_values_at (sl_options s) (Suc 0) = Some (sl_min os)"
    using s by (simp_all add: get_values_at_def js_get_def)
  define s1 where "s1 = s\<lparr>element_size := box_size e, element_offset := box_offset e\<rparr>"
  have "positive (element_size s1)" using assms(5) by (simp add: s1_def)
  then obtain v where v: "norm_value_from_mouse s1 (press_pos e) = Some v" using norm_value_some by blast
  have "sl_min os \<le> v" "v \<le> sl_max os"
    using v trim_align_within [OF assms(1)] s
    by (auto simp: norm_value_from_mouse_def Let_def s1_def split: prod.splits)
  then have "\<bar>v - sl_min os\<bar> < sl_max os - sl_min os + 1" by linarith
  then have "closest_handle s1 (Some v) = Some 0"
    using s at by (simp add: closest_handle_def Let_def s1_def num2_def)
  then have "mouse_capture e s = Inl TypeError"
    using s at v assms(6,7) by (simp add: mouse_capture_def Let_def s1_def)
  then show ?thesis using s by (simp add: s_def)
qed

theorem default_range_throws_witness:
  "mouse_capture (demo_press\<lparr>over_handle := True\<rparr>) (slider_create 0 (default_slider\<lparr>sl_range := FullRange\<rparr>)) = Inl TypeError"
  using default_range_throws [of "default_slider\<lparr>sl_range := FullRange\<rparr>" 100 "demo_press\<lparr>over_handle := True\<rparr>"] default_grid
  by (simp add: default_slider_def grid_steps_def demo_press_def positive_def)

end
