(* ===== verification/Jq_Callbacks.thy ===== *)
theory Jq_Callbacks
  imports Js_Prelude
begin

text \<open>
  Callback lists, \<open>jQuery.Callbacks\<close> of \<open>jquery-1.7.1.js\<close>.  A callback may itself add to, remove
  from, fire, empty, disable or lock any list, the one being fired included, so firing is
  modelled as a machine with a stack of frames: the rest of a program, a loop of \<open>fire\<close>, or a
  loop waiting for the callback it has called.  Functions are numbers; what a function does is
  a parameter, \<open>body\<close>.  \<open>'l\<close> names the lists, \<open>'a\<close> is the type of contexts and arguments and
  \<open>'s\<close> that of a variable the callbacks may set.
\<close>

section \<open>Lists of callbacks\<close>

record cb_flags =
  f_once :: bool
  f_memory :: bool
  f_unique :: bool
  f_stop :: bool

text \<open>\<open>createFlags\<close>: the flags are separated by white space.\<close>

function words_of :: "string \<Rightarrow> string list" where
  "words_of s =
     (case dropWhile is_blank s of
        [] \<Rightarrow> []
      | c # cs \<Rightarrow> (c # takeWhile (\<lambda>x. \<not> is_blank x) cs) # words_of (dropWhile (\<lambda>x. \<not> is_blank x) cs))"
  by pat_completeness auto
termination
proof (relation "measure length")
  fix s :: string and c cs assume "dropWhile is_blank s = c # cs"
  then have "length cs < length s" by (metis length_Cons length_dropWhile_le not_less_eq_eq not_le)
  then show "(dropWhile (\<lambda>x. \<not> is_blank x) cs, s) \<in> measure length"
    by (simp add: le_less_trans [OF length_dropWhile_le])
qed simp

declare words_of.simps [simp del]

definition create_flags :: "string \<Rightarrow> cb_flags" where
  "create_flags s =
     \<lparr>f_once = (''once'' \<in> set (words_of s)), f_memory = (''memory'' \<in> set (words_of s)),
      f_unique = (''unique'' \<in> set (words_of s)), f_stop = (''stopOnFalse'' \<in> set (words_of s))\<rparr>"

text \<open>
  \<open>memory\<close> is undefined, \<open>true\<close> (\<open>Halted\<close>) or the last context and arguments; \<open>cb_list\<close> and
  \<open>cb_stack\<close> are \<open>None\<close> when undefined.
\<close>

datatype 'a cb_memory = NoMemory | Halted | Remembered 'a

record 'a cblist =
  cb_flags :: cb_flags
  cb_list :: "nat list option"
  cb_stack :: "'a list option"
  cb_memory :: "'a cb_memory"
  cb_firing :: bool
  firing_start :: nat
  firing_length :: int
  firing_index :: int

definition callbacks :: "string \<Rightarrow> 'a cblist" where
  "callbacks s =
     \<lparr>cb_flags = create_flags s, cb_list = Some [], cb_stack = Some [], cb_memory = NoMemory, cb_firing = False,
      firing_start = 0, firing_length = 0, firing_index = 0\<rparr>"

text \<open>The arguments of \<open>add\<close>: functions, arrays of such arguments and values that are ignored.\<close>

datatype cb_arg = ArgFn nat | ArgArray "cb_arg list" | ArgOther

fun fns_of :: "cb_arg \<Rightarrow> nat list" where
  "fns_of (ArgFn f) = [f]"
| "fns_of (ArgArray xs) = concat (map fns_of xs)"
| "fns_of ArgOther = []"

definition add_fns :: "bool \<Rightarrow> nat list \<Rightarrow> nat list \<Rightarrow> nat list" where
  "add_fns unique fs xs = fold (\<lambda>f xs. if unique \<and> f \<in> set xs then xs else xs @ [f]) fs xs"

text \<open>\<open>add\<close>: the list afterwards, and the arguments to fire at once with, if any.\<close>

definition cb_add :: "cb_arg list \<Rightarrow> 'a cblist \<Rightarrow> 'a cblist \<times> 'a option" where
  "cb_add args L =
     (case cb_list L of
        None \<Rightarrow> (L, None)
      | Some xs \<Rightarrow>
          (let ys = add_fns (f_unique (cb_flags L)) (concat (map fns_of args)) xs;
               L1 = L\<lparr>cb_list := Some ys\<rparr>
           in if cb_firing L then (L1\<lparr>firing_length := int (length ys)\<rparr>, None)
              else (case cb_memory L of
                      Remembered a \<Rightarrow> (L1\<lparr>firing_start := length xs\<rparr>, Some a)
                    | _ \<Rightarrow> (L1, None))))"

text \<open>
  The inner loop of \<open>remove\<close> at index \<open>i\<close> with the rest of the list: the list that is left,
  with \<open>firingLength\<close> and \<open>firingIndex\<close>.
\<close>

fun remove_from :: "bool \<Rightarrow> bool \<Rightarrow> nat \<Rightarrow> int \<Rightarrow> nat list \<Rightarrow> int \<Rightarrow> int \<Rightarrow> nat list \<times> int \<times> int" where
  "remove_from unique is_firing f i [] len idx = ([], len, idx)"
| "remove_from unique is_firing f i (y # ys) len idx =
     (if y = f
      then (let (len1, idx1) = (if is_firing \<and> i \<le> len then (len - 1, if i \<le> idx then idx - 1 else idx) else (len, idx))
            in if unique then (ys, len1, idx1) else remove_from unique is_firing f i ys len1 idx1)
      else (let (r, len1, idx1) = remove_from unique is_firing f (i + 1) ys len idx in (y # r, len1, idx1)))"

definition remove_fn :: "nat \<Rightarrow> 'a cblist \<Rightarrow> 'a cblist" where
  "remove_fn f L =
     (case cb_list L of
        None \<Rightarrow> L
      | Some xs \<Rightarrow>
          (let (ys, len, idx) = remove_from (f_unique (cb_flags L)) (cb_firing L) f 0 xs (firing_length L) (firing_index L)
           in L\<lparr>cb_list := Some ys, firing_length := len, firing_index := idx\<rparr>))"

definition cb_remove :: "nat list \<Rightarrow> 'a cblist \<Rightarrow> 'a cblist" where
  "cb_remove fs L = fold remove_fn fs L"

definition cb_has :: "nat \<Rightarrow> 'a cblist \<Rightarrow> bool" where
  "cb_has f L \<longleftrightarrow> (case cb_list L of Some xs \<Rightarrow> f \<in> set xs | None \<Rightarrow> False)"

definition cb_empty :: "'a cblist \<Rightarrow> 'a cblist" where
  "cb_empty L = L\<lparr>cb_list := Some []\<rparr>"

definition cb_disable :: "'a cblist \<Rightarrow> 'a cblist" where
  "cb_disable L = L\<lparr>cb_list := None, cb_stack := None, cb_memory := NoMemory\<rparr>"

definition cb_disabled :: "'a cblist \<Rightarrow> bool" where
  "cb_disabled L \<longleftrightarrow> cb_list L = None"

definition cb_lock :: "'a cblist \<Rightarrow> 'a cblist" where
  "cb_lock L =
     (let L1 = L\<lparr>cb_stack := None\<rparr>
      in case cb_memory L of Remembered a \<Rightarrow> L1 | _ \<Rightarrow> cb_disable L1)"

definition cb_locked :: "'a cblist \<Rightarrow> bool" where
  "cb_locked L \<longleftrightarrow> cb_stack L = None"

definition cb_fired :: "'a cblist \<Rightarrow> bool" where
  "cb_fired L \<longleftrightarrow> cb_memory L \<noteq> NoMemory"

definition cb_fire_with :: "'a \<Rightarrow> 'a cblist \<Rightarrow> 'a cblist \<times> 'a option" where
  "cb_fire_with a L =
     (case cb_stack L of
        None \<Rightarrow> (L, None)
      | Some q \<Rightarrow>
          if cb_firing L then (if f_once (cb_flags L) then (L, None) else (L\<lparr>cb_stack := Some (q @ [a])\<rparr>, None))
          else if f_once (cb_flags L) \<and> cb_memory L \<noteq> NoMemory then (L, None)
          else (L, Some a))"

text \<open>\<open>fire\<close> up to its loop, and from the end of the loop; the option asks to fire again.\<close>

definition begin_fire :: "'a \<Rightarrow> 'a cblist \<Rightarrow> 'a cblist" where
  "begin_fire a L =
     L\<lparr>cb_memory := (if f_memory (cb_flags L) then Remembered a else Halted), cb_firing := True,
       firing_index := int (firing_start L), firing_start := 0,
       firing_length := (case cb_list L of Some xs \<Rightarrow> int (length xs) | None \<Rightarrow> 0)\<rparr>"

definition end_fire :: "'a cblist \<Rightarrow> 'a cblist \<times> 'a option" where
  "end_fire L =
     (let L1 = L\<lparr>cb_firing := False\<rparr>
      in if cb_list L1 = None then (L1, None)
         else if \<not> f_once (cb_flags L1)
         then (case cb_stack L1 of
                 Some (a # q) \<Rightarrow> cb_fire_with a (L1\<lparr>cb_stack := Some q, cb_memory := Remembered a\<rparr>)
               | _ \<Rightarrow> (L1, None))
         else if cb_memory L1 = Halted then (cb_disable L1, None)
         else (L1\<lparr>cb_list := Some []\<rparr>, None))"

section \<open>The machine\<close>

datatype ('l, 'a, 's) cb_act =
    ActAdd 'l "cb_arg list"
  | ActRemove 'l "nat list"
  | ActEmpty 'l
  | ActDisable 'l
  | ActLock 'l
  | ActFire 'l 'a
  | ActSet 's

datatype cb_outcome = Returns | ReturnsFalse | Throws

datatype ('l, 'a, 's) cb_frame =
    Acts "('l, 'a, 's) cb_act list" cb_outcome
  | Loop 'l 'a
  | Ret 'l 'a

record ('l, 'a, 's) cb_world =
  lists :: "'l \<Rightarrow> 'a cblist"
  var :: 's
  frames :: "('l, 'a, 's) cb_frame list"
  returned :: cb_outcome
  call_log :: "('l \<times> nat \<times> 'a) list"
  added :: "'l \<Rightarrow> nat list"
  threw :: bool
  type_error :: bool

definition set_list :: "'l \<Rightarrow> 'a cblist \<Rightarrow> ('l, 'a, 's) cb_world \<Rightarrow> ('l, 'a, 's) cb_world" where
  "set_list l L w = w\<lparr>lists := (lists w)(l := L)\<rparr>"

text \<open>A list that has to fire gets its loop on top of the frames.\<close>

definition start_loop :: "'l \<Rightarrow> 'a cblist \<times> 'a option \<Rightarrow> ('l, 'a, 's) cb_world \<Rightarrow> ('l, 'a, 's) cb_world" where
  "start_loop l r w =
     (case r of
        (L, None) \<Rightarrow> set_list l L w
      | (L, Some a) \<Rightarrow> (set_list l (begin_fire a L) w)\<lparr>frames := Loop l a # frames w\<rparr>)"

fun perform :: "('l, 'a, 's) cb_act \<Rightarrow> ('l, 'a, 's) cb_world \<Rightarrow> ('l, 'a, 's) cb_world" where
  "perform (ActAdd l args) w =
     start_loop l (cb_add args (lists w l))
       (w\<lparr>added := (added w)(l := added w l @ (if cb_disabled (lists w l) then [] else concat (map fns_of args)))\<rparr>)"
| "perform (ActRemove l fs) w = set_list l (cb_remove fs (lists w l)) w"
| "perform (ActEmpty l) w = set_list l (cb_empty (lists w l)) w"
| "perform (ActDisable l) w = set_list l (cb_disable (lists w l)) w"
| "perform (ActLock l) w = set_list l (cb_lock (lists w l)) w"
| "perform (ActFire l a) w = start_loop l (cb_fire_with a (lists w l)) w"
| "perform (ActSet v) w = w\<lparr>var := v\<rparr>"

text \<open>
  One step.  A frame of actions that is finished hands its outcome to the loop below it; an
  exception, thrown by a callback or by calling what is not there, leaves all frames.
\<close>

fun cb_step :: "(nat \<Rightarrow> 'a \<Rightarrow> ('l, 'a, 's) cb_act list \<times> cb_outcome) \<Rightarrow> ('l, 'a, 's) cb_world \<Rightarrow> ('l, 'a, 's) cb_world option" where
  "cb_step body w =
     (case frames w of
        [] \<Rightarrow> None
      | Acts [] r # fs \<Rightarrow> Some (if r = Throws then w\<lparr>frames := [], threw := True\<rparr> else w\<lparr>frames := fs, returned := r\<rparr>)
      | Acts (x # xs) r # fs \<Rightarrow> Some (perform x (w\<lparr>frames := Acts xs r # fs\<rparr>))
      | Loop l a # fs \<Rightarrow>
          (case cb_list (lists w l) of
             Some xs \<Rightarrow>
               if firing_index (lists w l) < firing_length (lists w l)
               then (if 0 \<le> firing_index (lists w l) \<and> firing_index (lists w l) < int (length xs)
                     then (let f = xs ! nat (firing_index (lists w l)); (acts, r) = body f a
                           in Some (w\<lparr>frames := Acts acts r # Ret l a # fs, call_log := call_log w @ [(l, f, a)]\<rparr>))
                     else Some (w\<lparr>frames := [], threw := True, type_error := True\<rparr>))
               else Some (start_loop l (end_fire (lists w l)) (w\<lparr>frames := fs\<rparr>))
           | None \<Rightarrow> Some (start_loop l (end_fire (lists w l)) (w\<lparr>frames := fs\<rparr>)))
      | Ret l a # fs \<Rightarrow>
          (if returned w = ReturnsFalse \<and> f_stop (cb_flags (lists w l))
           then Some (start_loop l (end_fire ((lists w l)\<lparr>cb_memory := Halted\<rparr>)) (w\<lparr>frames := fs\<rparr>))
           else Some ((set_list l ((lists w l)\<lparr>firing_index := firing_index (lists w l) + 1\<rparr>) w)\<lparr>frames := Loop l a # fs\<rparr>)))"

declare cb_step.simps [simp del]

text \<open>The page runs a piece of code when nothing else runs.\<close>

definition run_page :: "('l, 'a, 's) cb_act list \<Rightarrow> ('l, 'a, 's) cb_world \<Rightarrow> ('l, 'a, 's) cb_world" where
  "run_page acts w = w\<lparr>frames := [Acts acts Returns]\<rparr>"

inductive cb_reachable ::
  "(nat \<Rightarrow> 'a \<Rightarrow> ('l, 'a, 's) cb_act list \<times> cb_outcome) \<Rightarrow> (('l, 'a, 's) cb_act \<Rightarrow> bool) \<Rightarrow>
   ('l, 'a, 's) cb_world \<Rightarrow> ('l, 'a, 's) cb_world \<Rightarrow> bool" for body allowed w0 where
  cb_init: "cb_reachable body allowed w0 w0"
| cb_more: "cb_reachable body allowed w0 w \<Longrightarrow> cb_step body w = Some w' \<Longrightarrow> cb_reachable body allowed w0 w'"
| cb_page: "cb_reachable body allowed w0 w \<Longrightarrow> frames w = [] \<Longrightarrow> list_all allowed acts \<Longrightarrow> cb_reachable body allowed w0 (run_page acts w)"

end
