(* ===== verification/Cb_Safety.thy ===== *)
theory Cb_Safety
  imports Jq_Callbacks
begin

text \<open>
  Firing is safe: however callbacks change lists while they are fired, the loop of \<open>fire\<close> never
  reads past the list, as long as nothing empties it; \<open>empty\<close> during firing does break it, and
  so does an exception, which leaves the list firing for ever.
\<close>

section \<open>One list\<close>

definition list_ok :: "'a cblist \<Rightarrow> bool" where
  "list_ok L \<longleftrightarrow> (cb_firing L \<longrightarrow> -1 \<le> firing_index L \<and>
     (\<forall>xs. cb_list L = Some xs \<longrightarrow> firing_length L = int (length xs)))"

lemma cb_add_ok:
  assumes "list_ok L" "cb_add args L = (L', r)"
  shows "list_ok L'" "cb_firing L' = cb_firing L" "r \<noteq> None \<Longrightarrow> \<not> cb_firing L"
  using assms by (auto simp: cb_add_def list_ok_def Let_def split: option.splits if_splits cb_memory.splits)

lemma cb_fire_with_ok:
  assumes "list_ok L" "cb_fire_with a L = (L', r)"
  shows "list_ok L'" "cb_firing L' = cb_firing L" "r \<noteq> None \<Longrightarrow> \<not> cb_firing L"
  using assms by (auto simp: cb_fire_with_def list_ok_def split: option.splits if_splits)

text \<open>\<open>remove\<close> keeps \<open>firingLength\<close> at the length and \<open>firingIndex\<close> at least one before the place it looks at.\<close>

lemma remove_from_bounds:
  "remove_from u True f i ys len idx = (ys', len', idx') \<Longrightarrow> len = i + int (length ys) \<Longrightarrow>
    len' = i + int (length ys') \<and> min idx (i - 1) \<le> idx'"
proof (induction ys arbitrary: i len idx ys' len' idx')
  case (Cons y ys)
  show ?case
  proof (cases "y = f")
    case True
    define idx1 where "idx1 = (if i \<le> idx then idx - 1 else idx)"
    have step: "(if u then (ys, len - 1, idx1) else remove_from u True f i ys (len - 1) idx1) = (ys', len', idx')"
      using Cons.prems True by (cases u; cases "i \<le> idx") (auto simp: Let_def idx1_def)
    have m: "min idx (i - 1) \<le> idx1" "min idx (i - 1) \<le> min idx1 (i - 1)" by (auto simp: idx1_def)
    show ?thesis
    proof (cases u)
      case True
      then have "ys' = ys" "len' = len - 1" "idx' = idx1" using step by simp_all
      then show ?thesis using m Cons.prems(2) by simp
    next
      case False
      then have "remove_from u True f i ys (len - 1) idx1 = (ys', len', idx')" using step by simp
      from Cons.IH [OF this] have "len' = i + int (length ys')" "min idx1 (i - 1) \<le> idx'" using Cons.prems(2) by simp_all
      then show ?thesis using m(2) by linarith
    qed
  next
    case False
    then obtain r where r: "remove_from u True f (i + 1) ys len idx = (r, len', idx')" "ys' = y # r"
      using Cons.prems(1) by (auto split: prod.splits)
    from Cons.IH [OF r(1)] Cons.prems(2) r(2) show ?thesis by auto
  qed
qed simp

lemma remove_fn_ok: "list_ok L \<Longrightarrow> list_ok (remove_fn f L)"
proof (cases "cb_list L")
  case (Some xs)
  assume ok: "list_ok L"
  obtain ys len idx where r: "remove_from (f_unique (cb_flags L)) (cb_firing L) f 0 xs (firing_length L) (firing_index L) = (ys, len, idx)"
    by (metis prod_cases3)
  show ?thesis
  proof (cases "cb_firing L")
    case True
    then show ?thesis
      using ok Some r remove_from_bounds [of "f_unique (cb_flags L)" f 0 xs "firing_length L" "firing_index L" ys len idx]
      by (auto simp: list_ok_def remove_fn_def)
  next
    case False
    show ?thesis using r False by (simp add: list_ok_def remove_fn_def Some)
  qed
qed (simp add: remove_fn_def)

lemma remove_fn_firing [simp]: "cb_firing (remove_fn f L) = cb_firing L"
  by (simp add: remove_fn_def split_beta split: option.split)

lemma cb_remove_ok: "list_ok L \<Longrightarrow> list_ok (cb_remove fs L) \<and> cb_firing (cb_remove fs L) = cb_firing L"
  unfolding cb_remove_def by (induction fs arbitrary: L) (simp_all add: remove_fn_ok)

lemma cb_disable_ok: "list_ok L \<Longrightarrow> list_ok (cb_disable L)" "cb_firing (cb_disable L) = cb_firing L"
  by (simp_all add: list_ok_def cb_disable_def)

lemma cb_lock_ok: "list_ok L \<Longrightarrow> list_ok (cb_lock L)" "cb_firing (cb_lock L) = cb_firing L"
  by (auto simp: cb_lock_def Let_def list_ok_def cb_disable_def split: cb_memory.split)

lemma begin_fire_ok: "list_ok (begin_fire a L)" "cb_firing (begin_fire a L)" "0 \<le> firing_index (begin_fire a L)"
  by (auto simp: begin_fire_def list_ok_def)

lemma end_fire_ok: "end_fire L = (L', r) \<Longrightarrow> list_ok L' \<and> \<not> cb_firing L'"
  by (auto simp: end_fire_def Let_def list_ok_def cb_disable_def cb_fire_with_def split: if_splits option.splits list.splits)

section \<open>The machine\<close>

definition frame_list :: "('l, 'a, 's) cb_frame \<Rightarrow> 'l list" where
  "frame_list f = (case f of Acts xs r \<Rightarrow> [] | Loop l a \<Rightarrow> [l] | Ret l a \<Rightarrow> [l])"

definition firing_lists :: "('l, 'a, 's) cb_frame list \<Rightarrow> 'l list" where
  "firing_lists fs = concat (map frame_list fs)"

lemma firing_lists_simps [simp]:
  "firing_lists [] = []" "firing_lists (Acts xs r # fs) = firing_lists fs"
  "firing_lists (Loop l a # fs) = l # firing_lists fs" "firing_lists (Ret l a # fs) = l # firing_lists fs"
  by (simp_all add: firing_lists_def frame_list_def)

definition no_loops :: "('l, 'a, 's) cb_frame list \<Rightarrow> bool" where
  "no_loops fs \<longleftrightarrow> list_all (\<lambda>f. case f of Loop l a \<Rightarrow> False | _ \<Rightarrow> True) fs"

definition keeps_items :: "('l, 'a, 's) cb_act \<Rightarrow> bool" where
  "keeps_items x \<longleftrightarrow> (case x of ActEmpty l \<Rightarrow> False | _ \<Rightarrow> True)"

definition frame_keeps :: "('l, 'a, 's) cb_frame \<Rightarrow> bool" where
  "frame_keeps f \<longleftrightarrow> (case f of Acts xs r \<Rightarrow> list_all keeps_items xs | _ \<Rightarrow> True)"

definition frames_ok :: "('l, 'a, 's) cb_frame list \<Rightarrow> ('l \<Rightarrow> 'a cblist) \<Rightarrow> bool" where
  "frames_ok fs L \<longleftrightarrow> distinct (firing_lists fs) \<and> (\<forall>l \<in> set (firing_lists fs). cb_firing (L l)) \<and>
     no_loops (tl fs) \<and> (\<forall>l a. fs \<noteq> [] \<and> hd fs = Loop l a \<longrightarrow> 0 \<le> firing_index (L l))"

definition world_ok :: "('l, 'a, 's) cb_world \<Rightarrow> bool" where
  "world_ok w \<longleftrightarrow> (\<forall>l. list_ok (lists w l)) \<and> frames_ok (frames w) (lists w) \<and> list_all frame_keeps (frames w) \<and>
     \<not> type_error w \<and> (\<not> threw w \<longrightarrow> (\<forall>l. cb_firing (lists w l) \<longrightarrow> l \<in> set (firing_lists (frames w))))"

text \<open>Changing one list, and starting its loop when it asks to fire, below frames that hold no loop.\<close>

lemma world_ok_start:
  assumes lists: "\<And>k. k \<noteq> l \<Longrightarrow> list_ok (lists w k)" and L: "list_ok L"
    and fs: "distinct (firing_lists (frames w))" "no_loops (frames w)" "list_all frame_keeps (frames w)"
    and firing: "\<And>k. k \<in> set (firing_lists (frames w)) \<Longrightarrow> if k = l then cb_firing L else cb_firing (lists w k)"
    and others: "\<And>k. \<not> threw w \<Longrightarrow> k \<noteq> l \<Longrightarrow> cb_firing (lists w k) \<Longrightarrow> k \<in> set (firing_lists (frames w))"
    and own: "\<not> threw w \<Longrightarrow> cb_firing L \<Longrightarrow> l \<in> set (firing_lists (frames w))"
    and r: "r \<noteq> None \<Longrightarrow> \<not> cb_firing L" and te: "\<not> type_error w"
  shows "world_ok (start_loop l (L, r) w)"
proof (cases r)
  case None
  have "no_loops (tl (frames w))" using fs(2) by (cases "frames w") (simp_all add: no_loops_def)
  moreover have "hd (frames w) \<noteq> Loop k a" if "frames w \<noteq> []" for k a using fs(2) that by (cases "frames w") (auto simp: no_loops_def)
  ultimately show ?thesis
    using assms None by (auto simp: start_loop_def set_list_def world_ok_def frames_ok_def)
next
  case (Some a)
  have "l \<notin> set (firing_lists (frames w))" using firing [of l] r Some by auto
  then show ?thesis
    using assms Some begin_fire_ok [of a L]
    by (auto simp: start_loop_def set_list_def world_ok_def frames_ok_def frame_keeps_def)
qed

lemma world_ok_added: "world_ok (w\<lparr>added := g\<rparr>) = world_ok w"
  by (simp add: world_ok_def)

lemma start_loop_added: "start_loop l p (w\<lparr>added := g\<rparr>) = (start_loop l p w)\<lparr>added := g\<rparr>"
  by (simp add: start_loop_def set_list_def split: prod.split option.split)

lemma no_loops_hd: "no_loops fs \<Longrightarrow> fs \<noteq> [] \<Longrightarrow> hd fs \<noteq> Loop l a"
  by (cases fs) (auto simp: no_loops_def)

lemma no_loops_tl: "no_loops fs \<Longrightarrow> no_loops (tl fs)"
  by (cases fs) (simp_all add: no_loops_def)

lemma world_ok_perform:
  assumes ok: "world_ok w" and fs: "frames w = Acts (x # xs) r # fs"
  shows "world_ok (perform x (w\<lparr>frames := Acts xs r # fs\<rparr>))"
proof -
  let ?w = "w\<lparr>frames := Acts xs r # fs\<rparr>"
  have base: "\<And>k. list_ok (lists ?w k)" "distinct (firing_lists (frames ?w))" "no_loops (frames ?w)"
    "list_all frame_keeps (frames ?w)" "\<And>k. k \<in> set (firing_lists (frames ?w)) \<Longrightarrow> cb_firing (lists ?w k)"
    "\<And>k. \<not> threw ?w \<Longrightarrow> cb_firing (lists ?w k) \<Longrightarrow> k \<in> set (firing_lists (frames ?w))" "\<not> type_error ?w"
    using ok fs by (auto simp: world_ok_def frames_ok_def frame_keeps_def no_loops_def)
  have keep: "keeps_items x" using ok fs by (simp add: world_ok_def frame_keeps_def)
  have change: "world_ok (start_loop l (L, r') ?w)"
    if "list_ok L" "cb_firing L = cb_firing (lists ?w l)" "r' \<noteq> None \<Longrightarrow> \<not> cb_firing L" for l L r'
    by (rule world_ok_start) (use base that in auto)
  have set: "world_ok (set_list l L ?w)" if "list_ok L" "cb_firing L = cb_firing (lists ?w l)" for l L
    using change [OF that, of None] by (simp add: start_loop_def)
  show ?thesis
  proof (cases x)
    case (ActAdd l args)
    obtain L r' where a: "cb_add args (lists w l) = (L, r')" by force
    have "world_ok (start_loop l (L, r') ?w)"
      using cb_add_ok [OF _ a] base(1) [of l] by (intro change) auto
    then show ?thesis by (simp add: ActAdd a world_ok_added start_loop_added)
  next
    case (ActFire l a)
    obtain L r' where f: "cb_fire_with a (lists w l) = (L, r')" by force
    show ?thesis using cb_fire_with_ok [OF _ f] base(1) [of l] by (simp add: ActFire f) (intro change; auto)
  next
    case (ActRemove l gs)
    then show ?thesis using cb_remove_ok base(1) [of l] by (auto intro!: set)
  next
    case (ActDisable l)
    then show ?thesis using base(1) [of l] by (auto intro!: set simp: cb_disable_ok)
  next
    case (ActLock l)
    then show ?thesis using base(1) [of l] by (auto intro!: set simp: cb_lock_ok)
  next
    case (ActEmpty l)
    then show ?thesis using keep by (simp add: keeps_items_def)
  next
    case (ActSet v)
    have "world_ok ?w" using base by (auto simp: world_ok_def frames_ok_def no_loops_def)
    then show ?thesis by (simp add: ActSet world_ok_def)
  qed
qed

lemma world_ok_step:
  assumes ok: "world_ok w" and step: "cb_step body w = Some w'"
    and body: "\<And>f a. list_all keeps_items (fst (body f a))"
  shows "world_ok w'"
proof -
  obtain f fs where fr: "frames w = f # fs" using step by (cases "frames w") (simp_all add: cb_step.simps)
  have base: "\<And>k. list_ok (lists w k)" "distinct (firing_lists fs)" "no_loops fs" "list_all frame_keeps fs"
    "\<And>k. k \<in> set (firing_lists fs) \<Longrightarrow> cb_firing (lists w k)" "\<not> type_error w"
    "\<And>k. \<not> threw w \<Longrightarrow> cb_firing (lists w k) \<Longrightarrow> k \<in> set (firing_lists (f # fs))"
    using ok fr by (auto simp: world_ok_def frames_ok_def firing_lists_def)
  have ended: "world_ok (start_loop l (end_fire L) (w\<lparr>frames := fs\<rparr>))" if "l \<notin> set (firing_lists fs)" "set (frame_list f) \<subseteq> {l}" for l L
  proof -
    obtain L' r where e: "end_fire L = (L', r)" by force
    have "k \<in> set (firing_lists fs)" if "\<not> threw w" "k \<noteq> l" "cb_firing (lists w k)" for k
      using base(7) [OF that(1,3)] that(2) \<open>set (frame_list f) \<subseteq> {l}\<close> by (auto simp: firing_lists_def)
    then show ?thesis unfolding e using end_fire_ok [OF e] that base by (intro world_ok_start) auto
  qed
  show ?thesis
  proof (cases f)
    case (Acts acts r)
    show ?thesis
    proof (cases acts)
      case Nil
      then show ?thesis
        using step fr Acts base no_loops_hd [OF base(3)] no_loops_tl [OF base(3)]
        by (cases "r = Throws") (auto simp: cb_step.simps world_ok_def frames_ok_def no_loops_def)
    next
      case (Cons x xs)
      then show ?thesis using step fr Acts world_ok_perform [OF ok, of x xs r fs] by (simp add: cb_step.simps)
    qed
  next
    case (Loop l a)
    have l: "l \<notin> set (firing_lists fs)" "cb_firing (lists w l)" "0 \<le> firing_index (lists w l)"
      using ok fr Loop by (simp_all add: world_ok_def frames_ok_def)
    have el: "set (frame_list f) \<subseteq> {l}" by (simp add: Loop frame_list_def)
    show ?thesis
    proof (cases "cb_list (lists w l)")
      case None
      then have "w' = start_loop l (end_fire (lists w l)) (w\<lparr>frames := fs\<rparr>)" using step fr Loop by (simp add: cb_step.simps)
      then show ?thesis using ended [OF l(1) el] by simp
    next
      case (Some xs)
      have len: "firing_length (lists w l) = int (length xs)" using base(1) [of l] l(2) Some by (simp add: list_ok_def)
      show ?thesis
      proof (cases "firing_index (lists w l) < firing_length (lists w l)")
        case True
        define g where "g = xs ! nat (firing_index (lists w l))"
        have "w' = w\<lparr>frames := Acts (fst (body g a)) (snd (body g a)) # Ret l a # fs, call_log := call_log w @ [(l, g, a)]\<rparr>"
          using step fr Loop Some True l(3) len by (simp add: cb_step.simps g_def split_beta Let_def)
        then show ?thesis
          using base l body [of g a] Loop by (auto simp: world_ok_def frames_ok_def frame_keeps_def no_loops_def)
      next
        case False
        then have "w' = start_loop l (end_fire (lists w l)) (w\<lparr>frames := fs\<rparr>)"
          using step fr Loop Some by (simp add: cb_step.simps)
        then show ?thesis using ended [OF l(1) el] by simp
      qed
    qed
  next
    case (Ret l a)
    have l: "l \<notin> set (firing_lists fs)" "cb_firing (lists w l)"
      using ok fr Ret by (simp_all add: world_ok_def frames_ok_def)
    have el: "set (frame_list f) \<subseteq> {l}" by (simp add: Ret frame_list_def)
    show ?thesis
    proof (cases "returned w = ReturnsFalse \<and> f_stop (cb_flags (lists w l))")
      case True
      then have "w' = start_loop l (end_fire ((lists w l)\<lparr>cb_memory := Halted\<rparr>)) (w\<lparr>frames := fs\<rparr>)"
        using step fr Ret by (simp add: cb_step.simps)
      then show ?thesis using ended [OF l(1) el] by simp
    next
      case False
      have "w' = (set_list l ((lists w l)\<lparr>firing_index := firing_index (lists w l) + 1\<rparr>) w)\<lparr>frames := Loop l a # fs\<rparr>"
        using step fr Ret False by (auto simp: cb_step.simps)
      moreover have "list_ok ((lists w l)\<lparr>firing_index := firing_index (lists w l) + 1\<rparr>)" "0 \<le> firing_index (lists w l) + 1"
        using base(1) [of l] l(2) by (auto simp: list_ok_def)
      moreover have "\<And>k. \<not> threw w \<Longrightarrow> k \<noteq> l \<Longrightarrow> cb_firing (lists w k) \<Longrightarrow> k \<in> set (firing_lists fs)"
        using base(7) Ret by auto
      ultimately show ?thesis
        using base(1-6) l by (auto simp: world_ok_def frames_ok_def set_list_def frame_keeps_def)
    qed
  qed
qed

section \<open>Firing is safe\<close>

definition fresh_world :: "('l \<Rightarrow> string) \<Rightarrow> 's \<Rightarrow> ('l, 'a, 's) cb_world" where
  "fresh_world fl v =
     \<lparr>lists = (\<lambda>l. callbacks (fl l)), var = v, frames = [], returned = Returns, call_log = [], added = (\<lambda>_. []), threw = False,
      type_error = False\<rparr>"

lemma world_ok_fresh: "world_ok (fresh_world fl v)"
  by (simp add: world_ok_def fresh_world_def frames_ok_def callbacks_def list_ok_def no_loops_def)

lemma world_ok_page: "world_ok w \<Longrightarrow> frames w = [] \<Longrightarrow> list_all keeps_items acts \<Longrightarrow> world_ok (run_page acts w)"
  by (simp add: world_ok_def run_page_def frames_ok_def frame_keeps_def no_loops_def)

lemma world_ok_reachable:
  assumes "cb_reachable body keeps_items w0 w" "\<And>f a. list_all keeps_items (fst (body f a))" "world_ok w0"
  shows "world_ok w"
  using assms(1,3) by induction (auto intro: world_ok_step [OF _ _ assms(2)] world_ok_page)

text \<open>C17: Callback lists that are never emptied can be fired safely whatever the callbacks add, remove,
  fire, disable or lock meanwhile: the loop never calls what is not there, and once everything
  has run without an exception no list is left firing.\<close>

theorem firing_stays_inside:
  assumes "cb_reachable body keeps_items (fresh_world fl v) w" and "\<And>f a. list_all keeps_items (fst (body f a))"
  shows "\<not> type_error w \<and> (frames w = [] \<and> \<not> threw w \<longrightarrow> (\<forall>l. \<not> cb_firing (lists w l)))"
  using world_ok_reachable [OF assms world_ok_fresh] by (auto simp: world_ok_def)

text \<open>Running the machine for some steps.\<close>

fun cb_run :: "nat \<Rightarrow> (nat \<Rightarrow> 'a \<Rightarrow> ('l, 'a, 's) cb_act list \<times> cb_outcome) \<Rightarrow> ('l, 'a, 's) cb_world \<Rightarrow> ('l, 'a, 's) cb_world" where
  "cb_run 0 body w = w"
| "cb_run (Suc n) body w = (case cb_step body w of Some w' \<Rightarrow> cb_run n body w' | None \<Rightarrow> w)"

lemma cb_run_reachable: "cb_reachable body allowed w0 w \<Longrightarrow> cb_reachable body allowed w0 (cb_run n body w)"
  by (induction n arbitrary: w) (auto split: option.split intro: cb_more)

text \<open>A callback 0 that removes itself and adds callback 1.\<close>

definition swap_body :: "nat \<Rightarrow> nat \<Rightarrow> (unit, nat, unit) cb_act list \<times> cb_outcome" where
  "swap_body f a = (if f = 0 then [ActRemove () [0], ActAdd () [ArgFn 1]] else [], Returns)"

definition swap_start :: "(unit, nat, unit) cb_world" where
  "swap_start = run_page [ActAdd () [ArgFn 0, ArgFn 2], ActFire () 7] (fresh_world (\<lambda>_. []) ())"

lemmas run_simps = cb_step.simps start_loop_def set_list_def cb_add_def add_fns_def cb_remove_def remove_fn_def begin_fire_def
  end_fire_def cb_fire_with_def cb_disabled_def Let_def eval_nat_numeral

lemma no_words [simp]: "words_of [] = []"
  by (simp add: words_of.simps)

lemma fresh_simps [simp]:
  "lists (fresh_world fl v) l = callbacks (fl l)" "frames (fresh_world fl v) = []" "threw (fresh_world fl v) = False"
  "added (fresh_world fl v) l = []" "call_log (fresh_world fl v) = []" "type_error (fresh_world fl v) = False"
  by (simp_all add: fresh_world_def)

lemma swap_runs: "call_log (cb_run 20 swap_body swap_start) = [((), 0, 7), ((), 2, 7), ((), 1, 7)] \<and>
    frames (cb_run 20 swap_body swap_start) = []"
  by (simp add: swap_start_def run_page_def swap_body_def callbacks_def create_flags_def run_simps)

theorem firing_stays_inside_witness:
  "\<not> type_error (cb_run 20 swap_body swap_start) \<and> \<not> cb_firing (lists (cb_run 20 swap_body swap_start) ()) \<and>
   call_log (cb_run 20 swap_body swap_start) = [((), 0, 7), ((), 2, 7), ((), 1, 7)]"
proof -
  have "cb_reachable swap_body keeps_items (fresh_world (\<lambda>_. []) ()) swap_start"
    unfolding swap_start_def by (rule cb_page [OF cb_init]) (simp_all add: keeps_items_def)
  then have r: "cb_reachable swap_body keeps_items (fresh_world (\<lambda>_. []) ()) (cb_run 20 swap_body swap_start)"
    by (rule cb_run_reachable)
  have "list_all keeps_items (fst (swap_body f a))" for f a by (simp add: swap_body_def keeps_items_def)
  from firing_stays_inside [OF r this] swap_runs show ?thesis
    by (simp add: swap_start_def run_page_def swap_body_def callbacks_def create_flags_def run_simps)
qed

text \<open>Emptying a list while it is fired breaks the loop, which calls what is not there; and after any
  exception in a callback the list stays marked as firing, so that later calls of \<open>fire\<close> are
  only queued and call nothing.\<close>

theorem empty_breaks_firing:
  defines "empty_body \<equiv> \<lambda>f a. (if f = (0 :: nat) then [ActEmpty ()] else [], Returns)"
    and "w \<equiv> run_page [ActAdd () [ArgFn 0, ArgFn 1], ActFire () (7 :: nat)] (fresh_world (\<lambda>_. []) ())"
  shows "type_error (cb_run 20 empty_body w) \<and> cb_firing (lists (cb_run 20 empty_body w) ()) \<and>
    call_log (cb_run 20 empty_body (run_page [ActFire () 8] (cb_run 20 empty_body w))) = [((), 0, 7)] \<and>
    cb_stack (lists (cb_run 20 empty_body (run_page [ActFire () 8] (cb_run 20 empty_body w))) ()) = Some [8]"
  unfolding empty_body_def w_def
  by (simp add: run_page_def callbacks_def create_flags_def run_simps cb_empty_def)

end
