(* ===== verification/Jq_Deferred.thy ===== *)
theory Jq_Deferred
  imports Cb_Safety
begin

text \<open>
  \<open>jQuery.Deferred\<close> of \<open>jquery-1.7.1.js\<close> on three callback lists.  The functions 0 to 4 are the
  ones the constructor adds itself; the functions of the page are numbered from 5, and what
  they do is the parameter \<open>user\<close>: through the deferred they can add callbacks and resolve,
  reject or notify, also while callbacks run, and they may throw.
\<close>

section \<open>The deferred\<close>

datatype dlist = DoneL | FailL | ProgressL

datatype dstate = Pending | Resolved | Rejected

type_synonym 'a deferred = "(dlist, 'a, dstate) cb_world"

type_synonym 'a dact = "(dlist, 'a, dstate) cb_act"

fun dlist_flags :: "dlist \<Rightarrow> string" where
  "dlist_flags DoneL = ''once memory''"
| "dlist_flags FailL = ''once memory''"
| "dlist_flags ProgressL = ''memory''"

fun settled :: "dlist \<Rightarrow> dstate" where
  "settled DoneL = Resolved"
| "settled FailL = Rejected"
| "settled ProgressL = Pending"

fun opp :: "dlist \<Rightarrow> dlist" where
  "opp DoneL = FailL"
| "opp FailL = DoneL"
| "opp ProgressL = ProgressL"

fun builtin :: "dlist \<Rightarrow> nat list" where
  "builtin DoneL = [0, 1, 2]"
| "builtin FailL = [3, 4, 2]"
| "builtin ProgressL = []"

definition deferred_body :: "(nat \<Rightarrow> 'a \<Rightarrow> 'a dact list \<times> cb_outcome) \<Rightarrow> nat \<Rightarrow> 'a \<Rightarrow> 'a dact list \<times> cb_outcome" where
  "deferred_body user f a =
     (if f = 0 then ([ActSet Resolved], Returns)
      else if f = 1 then ([ActDisable FailL], Returns)
      else if f = 2 then ([ActLock ProgressL], Returns)
      else if f = 3 then ([ActSet Rejected], Returns)
      else if f = 4 then ([ActDisable DoneL], Returns)
      else user f a)"

definition new_deferred :: "'a deferred" where
  "new_deferred =
     perform (ActAdd FailL [ArgFn 3, ArgFn 4, ArgFn 2])
       (perform (ActAdd DoneL [ArgFn 0, ArgFn 1, ArgFn 2]) (fresh_world dlist_flags Pending))"

text \<open>The methods, as pieces of the page's code.\<close>

definition def_then :: "cb_arg list \<Rightarrow> cb_arg list \<Rightarrow> cb_arg list \<Rightarrow> 'a dact list" where
  "def_then d f p = [ActAdd DoneL d, ActAdd FailL f, ActAdd ProgressL p]"

definition def_always :: "cb_arg list \<Rightarrow> 'a dact list" where
  "def_always fs = [ActAdd DoneL fs, ActAdd FailL fs]"

definition def_resolve :: "'a \<Rightarrow> 'a dact list" where
  "def_resolve a = [ActFire DoneL a]"

definition def_reject :: "'a \<Rightarrow> 'a dact list" where
  "def_reject a = [ActFire FailL a]"

definition def_notify :: "'a \<Rightarrow> 'a dact list" where
  "def_notify a = [ActFire ProgressL a]"

definition is_resolved :: "'a deferred \<Rightarrow> bool" where
  "is_resolved w \<longleftrightarrow> cb_fired (lists w DoneL)"

definition is_rejected :: "'a deferred \<Rightarrow> bool" where
  "is_rejected w \<longleftrightarrow> cb_fired (lists w FailL)"

text \<open>What code that holds the deferred can do.\<close>

definition user_fns :: "cb_arg list \<Rightarrow> bool" where
  "user_fns args \<longleftrightarrow> list_all (\<lambda>f. 5 \<le> f) (concat (map fns_of args))"

definition promise_act :: "'a dact \<Rightarrow> bool" where
  "promise_act x \<longleftrightarrow>
     (case x of ActAdd l args \<Rightarrow> user_fns args | ActFire l a \<Rightarrow> True | _ \<Rightarrow> False)"

section \<open>Flags\<close>

lemma words_flags:
  "words_of ''once memory'' = [''once'', ''memory'']" "words_of ''memory'' = [''memory'']"
  by (simp_all add: words_of.simps is_blank_def)

lemma flags_add: "cb_add args L = (L', r) \<Longrightarrow> cb_flags L' = cb_flags L"
  by (auto simp: cb_add_def Let_def split: option.splits if_splits cb_memory.splits)

lemma flags_fire: "cb_fire_with a L = (L', r) \<Longrightarrow> cb_flags L' = cb_flags L"
  by (auto simp: cb_fire_with_def split: option.splits if_splits)

lemma flags_simple [simp]:
  "cb_flags (cb_disable L) = cb_flags L" "cb_flags (cb_lock L) = cb_flags L" "cb_flags (cb_empty L) = cb_flags L"
  "cb_flags (begin_fire a L) = cb_flags L"
  by (auto simp: cb_disable_def cb_lock_def cb_empty_def begin_fire_def Let_def split: cb_memory.split)

lemma flags_remove: "cb_flags (cb_remove fs L) = cb_flags L"
  unfolding cb_remove_def
  by (induction fs arbitrary: L) (simp_all add: remove_fn_def split_beta split: option.split)

lemma flags_end: "end_fire L = (L', r) \<Longrightarrow> cb_flags L' = cb_flags L"
  by (auto simp: end_fire_def Let_def dest!: flags_fire split: if_splits option.splits list.splits)

lemma flags_start: "cb_flags (fst p) = cb_flags (lists w l) \<Longrightarrow> cb_flags (lists (start_loop l p w) k) = cb_flags (lists w k)"
  by (auto simp: start_loop_def set_list_def split: prod.splits option.splits)

lemma flags_perform: "cb_flags (lists (perform x w) k) = cb_flags (lists w k)"
proof (cases x)
  case (ActAdd l args)
  obtain L' r where r: "cb_add args (lists w l) = (L', r)" by force
  then show ?thesis using flags_add [OF r] flags_start [of "(L', r)" w l k] by (simp add: ActAdd start_loop_added)
next
  case (ActFire l a)
  obtain L' r where r: "cb_fire_with a (lists w l) = (L', r)" by force
  then show ?thesis using flags_fire [OF r] flags_start [of "(L', r)" w l] by (simp add: ActFire)
qed (simp_all add: set_list_def flags_remove)

lemma flags_step: "cb_step body w = Some w' \<Longrightarrow> cb_flags (lists w' k) = cb_flags (lists w k)"
proof -
  have e: "cb_flags (lists (start_loop l (end_fire L) (w\<lparr>frames := fs\<rparr>)) k) = cb_flags (lists w k)"
    if "cb_flags L = cb_flags (lists w l)" for l L fs
  proof -
    obtain L' r where r: "end_fire L = (L', r)" by force
    show ?thesis using flags_end [OF r] that flags_start [of "(L', r)" "w\<lparr>frames := fs\<rparr>" l k] by (simp add: r)
  qed
  assume "cb_step body w = Some w'"
  then show ?thesis
    by (auto simp: cb_step.simps e flags_perform set_list_def Let_def split_beta
        split: list.splits cb_frame.splits option.splits if_splits)
qed

section \<open>The invariant\<close>

definition calls_of :: "dlist \<Rightarrow> 'a deferred \<Rightarrow> (nat \<times> 'a) list" where
  "calls_of l w = map snd (filter (\<lambda>c. fst c = l) (call_log w))"

definition safe_act :: "'a dact \<Rightarrow> bool" where
  "safe_act x \<longleftrightarrow> promise_act x \<or> x = ActLock ProgressL"

definition user_frame :: "(dlist, 'a, dstate) cb_frame \<Rightarrow> bool" where
  "user_frame f \<longleftrightarrow> (case f of Acts xs r \<Rightarrow> list_all safe_act xs | _ \<Rightarrow> True)"

definition users_added :: "dlist \<Rightarrow> 'a deferred \<Rightarrow> bool" where
  "users_added l w \<longleftrightarrow> (\<exists>us. added w l = builtin l @ us \<and> list_all (\<lambda>f. 5 \<le> f) us)"

text \<open>A list that has not been fired, and one that never will.\<close>

definition untouched :: "dlist \<Rightarrow> 'a deferred \<Rightarrow> bool" where
  "untouched l w \<longleftrightarrow> cb_list (lists w l) = Some (added w l) \<and> cb_stack (lists w l) = Some [] \<and>
     cb_memory (lists w l) = NoMemory \<and> \<not> cb_firing (lists w l) \<and> firing_start (lists w l) = 0 \<and> calls_of l w = [] \<and>
     users_added l w"

definition closed :: "dlist \<Rightarrow> 'a deferred \<Rightarrow> bool" where
  "closed l w \<longleftrightarrow> cb_list (lists w l) = None \<and> cb_stack (lists w l) = None \<and> \<not> cb_firing (lists w l) \<and> calls_of l w = []"

text \<open>A list that has been fired with \<open>a\<close> and has called the first \<open>n\<close> of its callbacks.\<close>

definition batch_at :: "dlist \<Rightarrow> 'a \<Rightarrow> nat \<Rightarrow> nat list \<Rightarrow> nat list \<Rightarrow> 'a deferred \<Rightarrow> bool" where
  "batch_at l a n before xs w \<longleftrightarrow> added w l = before @ xs \<and> cb_list (lists w l) = Some xs \<and>
     (\<forall>b. Loop l b \<in> set (frames w) \<longrightarrow> b = a \<and> int n = int (length before) + firing_index (lists w l)) \<and>
     (\<forall>b. Ret l b \<in> set (frames w) \<longrightarrow> b = a \<and> int n = int (length before) + firing_index (lists w l) + 1) \<and>
     (\<not> cb_firing (lists w l) \<longrightarrow> xs = [] \<and> n = length (added w l))"

definition batch :: "dlist \<Rightarrow> 'a \<Rightarrow> nat \<Rightarrow> 'a deferred \<Rightarrow> bool" where
  "batch l a n w \<longleftrightarrow> cb_memory (lists w l) = Remembered a \<and> users_added l w \<and> n \<le> length (added w l) \<and>
     calls_of l w = map (\<lambda>f. (f, a)) (take n (added w l)) \<and> (\<exists>before xs. batch_at l a n before xs w)"

definition pending_inv :: "'a deferred \<Rightarrow> bool" where
  "pending_inv w \<longleftrightarrow> var w = Pending \<and> untouched DoneL w \<and> untouched FailL w \<and> list_all user_frame (frames w)"

definition settled_inv :: "dlist \<Rightarrow> 'a \<Rightarrow> nat \<Rightarrow> 'a deferred \<Rightarrow> bool" where
  "settled_inv l a n w \<longleftrightarrow> l \<noteq> ProgressL \<and> 2 \<le> n \<and> var w = settled l \<and> batch l a n w \<and> closed (opp l) w \<and>
     list_all user_frame (frames w)"

text \<open>Between \<open>fire\<close> and the call of the second builtin callback, which disables the other list.\<close>

definition early_stage :: "dlist \<Rightarrow> 'a \<Rightarrow> (dlist, 'a, dstate) cb_frame list \<Rightarrow> 'a deferred \<Rightarrow> bool" where
  "early_stage l a fs w \<longleftrightarrow>
     (let idx = firing_index (lists w l); n = length (calls_of l w) in
      (frames w = Loop l a # fs \<and> idx = 0 \<and> n = 0) \<or>
      (frames w = Acts [ActSet (settled l)] Returns # Ret l a # fs \<and> idx = 0 \<and> n = 1) \<or>
      (frames w = Acts [] Returns # Ret l a # fs \<and> idx = 0 \<and> n = 1 \<and> var w = settled l) \<or>
      (frames w = Ret l a # fs \<and> idx = 0 \<and> n = 1 \<and> var w = settled l) \<or>
      (frames w = Loop l a # fs \<and> idx = 1 \<and> n = 1 \<and> var w = settled l) \<or>
      (frames w = Acts [ActDisable (opp l)] Returns # Ret l a # fs \<and> idx = 1 \<and> n = 2 \<and> var w = settled l))"

definition early_inv :: "dlist \<Rightarrow> 'a \<Rightarrow> 'a deferred \<Rightarrow> bool" where
  "early_inv l a w \<longleftrightarrow> l \<noteq> ProgressL \<and> users_added l w \<and> untouched (opp l) w \<and> cb_list (lists w l) = Some (added w l) \<and>
     cb_memory (lists w l) = Remembered a \<and> cb_firing (lists w l) \<and>
     calls_of l w = map (\<lambda>f. (f, a)) (take (length (calls_of l w)) (added w l)) \<and>
     (\<exists>fs. list_all user_frame fs \<and> l \<notin> set (firing_lists fs) \<and> early_stage l a fs w)"

definition progress_ok :: "'a deferred \<Rightarrow> bool" where
  "progress_ok w \<longleftrightarrow> (\<forall>xs. cb_list (lists w ProgressL) = Some xs \<longrightarrow> list_all (\<lambda>f. 5 \<le> f) xs)"

definition flags_ok :: "'a deferred \<Rightarrow> bool" where
  "flags_ok w \<longleftrightarrow> (\<forall>l. cb_flags (lists w l) = \<lparr>f_once = (l \<noteq> ProgressL), f_memory = True, f_unique = False, f_stop = False\<rparr>)"

definition deferred_inv :: "'a deferred \<Rightarrow> bool" where
  "deferred_inv w \<longleftrightarrow> world_ok w \<and> flags_ok w \<and> progress_ok w \<and>
     (pending_inv w \<or> (\<exists>l a. early_inv l a w \<or> (\<exists>n. settled_inv l a n w)))"

lemma opp_other: "l \<noteq> ProgressL \<Longrightarrow> opp l \<noteq> l \<and> opp l \<noteq> ProgressL \<and> opp (opp l) = l"
  by (cases l) simp_all

lemma side_cases: "l \<noteq> ProgressL \<Longrightarrow> k = ProgressL \<or> k = l \<or> k = opp l"
  by (cases l; cases k) simp_all

section \<open>Steps that leave both sides alone\<close>

text \<open>\<open>same_sides w w'\<close>: the done and fail lists, what was added to and called from them, and the state.\<close>

definition same_sides :: "'a deferred \<Rightarrow> 'a deferred \<Rightarrow> bool" where
  "same_sides w w' \<longleftrightarrow> var w' = var w \<and>
     (\<forall>l. l \<noteq> ProgressL \<longrightarrow> lists w' l = lists w l \<and> added w' l = added w l \<and> calls_of l w' = calls_of l w)"

text \<open>Every frame of a side is still there or gone.\<close>

definition fewer_frames :: "'a deferred \<Rightarrow> 'a deferred \<Rightarrow> bool" where
  "fewer_frames w w' \<longleftrightarrow> list_all user_frame (frames w') \<and>
     (\<forall>l b. l \<noteq> ProgressL \<longrightarrow> (Loop l b \<in> set (frames w') \<longrightarrow> Loop l b \<in> set (frames w)) \<and>
       (Ret l b \<in> set (frames w') \<longrightarrow> Ret l b \<in> set (frames w)))"

lemma pending_same: "pending_inv w \<Longrightarrow> same_sides w w' \<Longrightarrow> fewer_frames w w' \<Longrightarrow> pending_inv w'"
  by (simp add: pending_inv_def same_sides_def fewer_frames_def untouched_def users_added_def)

lemma settled_same: "settled_inv l a n w \<Longrightarrow> same_sides w w' \<Longrightarrow> fewer_frames w w' \<Longrightarrow> settled_inv l a n w'"
proof -
  assume s: "settled_inv l a n w" and m: "same_sides w w'" and f: "fewer_frames w w'"
  have l: "l \<noteq> ProgressL" "opp l \<noteq> ProgressL" using s opp_other by (auto simp: settled_inv_def)
  obtain before xs where "batch_at l a n before xs w" using s by (auto simp: settled_inv_def batch_def)
  moreover have "lists w' l = lists w l" "added w' l = added w l" using m l by (simp_all add: same_sides_def)
  moreover have "Loop l b \<in> set (frames w') \<Longrightarrow> Loop l b \<in> set (frames w)" "Ret l b \<in> set (frames w') \<Longrightarrow> Ret l b \<in> set (frames w)" for b
    using f l by (simp_all add: fewer_frames_def)
  ultimately have "batch_at l a n before xs w'" unfolding batch_at_def by metis
  then have "batch l a n w'" using s m l by (auto simp: batch_def settled_inv_def same_sides_def users_added_def)
  then show ?thesis using s m f l by (simp add: settled_inv_def same_sides_def fewer_frames_def closed_def)
qed

text \<open>Changing the progress list, and starting its loop.\<close>

lemma progress_start:
  assumes "list_all user_frame (frames w)"
  shows "same_sides w (start_loop ProgressL p w)" "fewer_frames w (start_loop ProgressL p w)"
  using assms
  by (auto simp: start_loop_def set_list_def same_sides_def fewer_frames_def calls_of_def user_frame_def
      split: prod.splits option.splits)

lemma same_sides_trans: "same_sides w w1 \<Longrightarrow> same_sides w1 w2 \<Longrightarrow> same_sides w w2"
  by (simp add: same_sides_def)

lemma fewer_frames_trans: "fewer_frames w w1 \<Longrightarrow> fewer_frames w1 w2 \<Longrightarrow> fewer_frames w w2"
  by (simp add: fewer_frames_def)

lemma pop_frames:
  assumes "list_all user_frame fs" "set fs \<subseteq> set (frames w)"
  shows "same_sides w (w\<lparr>frames := fs\<rparr>)" "fewer_frames w (w\<lparr>frames := fs\<rparr>)"
  using assms by (auto simp: same_sides_def fewer_frames_def calls_of_def)

section \<open>The progress list\<close>

definition dact_ok :: "'a dact \<Rightarrow> bool" where
  "dact_ok x \<longleftrightarrow> (case x of ActAdd l args \<Rightarrow> l = ProgressL \<longrightarrow> user_fns args | ActRemove l fs \<Rightarrow> False | ActEmpty l \<Rightarrow> False | _ \<Rightarrow> True)"

lemma safe_act_ok: "safe_act x \<Longrightarrow> dact_ok x \<and> keeps_items x"
  by (auto simp: safe_act_def promise_act_def dact_ok_def keeps_items_def split: cb_act.splits)

lemma add_fns_all [simp]: "add_fns False fs xs = xs @ fs"
  unfolding add_fns_def by (induction fs arbitrary: xs) simp_all

lemma progress_start_ok:
  assumes "progress_ok w" "\<And>xs. cb_list (fst p) = Some xs \<Longrightarrow> l = ProgressL \<Longrightarrow> list_all (\<lambda>f. 5 \<le> f) xs"
  shows "progress_ok (start_loop l p w)"
  using assms by (auto simp: progress_ok_def start_loop_def set_list_def begin_fire_def split: prod.splits option.splits)

lemma fire_list: "cb_fire_with a L = (L', r) \<Longrightarrow> cb_list L' = cb_list L"
  by (auto simp: cb_fire_with_def split: option.splits if_splits)

lemma add_list: "cb_list (fst (cb_add args L)) = map_option (add_fns (f_unique (cb_flags L)) (concat (map fns_of args))) (cb_list L)"
  by (simp add: cb_add_def Let_def split: option.split cb_memory.split)

lemma progress_perform:
  assumes "progress_ok w" "flags_ok w" "dact_ok x"
  shows "progress_ok (perform x w)"
proof (cases x)
  case (ActAdd l args)
  have "list_all (\<lambda>f. 5 \<le> f) xs" if "cb_list (fst (cb_add args (lists w l))) = Some xs" "l = ProgressL" for xs
  proof -
    have "\<exists>ys. cb_list (lists w l) = Some ys \<and> xs = ys @ concat (map fns_of args)"
    proof (cases "cb_list (lists w l)")
      case (Some ys)
      moreover have "f_unique (cb_flags (lists w l)) = False" using assms(2) by (simp add: flags_ok_def)
      ultimately show ?thesis using that(1) by (simp add: add_list)
    qed (use that(1) in \<open>simp add: add_list\<close>)
    then show ?thesis using assms that(2) by (auto simp: ActAdd dact_ok_def user_fns_def progress_ok_def)
  qed
  then have "progress_ok (start_loop l (cb_add args (lists w l)) w)" using assms(1) by (intro progress_start_ok)
  then show ?thesis by (simp add: ActAdd start_loop_added) (simp add: progress_ok_def)
next
  case (ActFire l a)
  obtain L' r where r: "cb_fire_with a (lists w l) = (L', r)" by force
  have "progress_ok (start_loop l (L', r) w)"
    by (rule progress_start_ok [OF assms(1)]) (use fire_list [OF r] assms(1) in \<open>simp add: progress_ok_def\<close>)
  then show ?thesis by (simp add: ActFire r)
next
  case (ActDisable l)
  then show ?thesis using assms(1) by (simp add: progress_ok_def set_list_def cb_disable_def)
next
  case (ActLock l)
  have "cb_list (cb_lock (lists w l)) = Some xs \<Longrightarrow> cb_list (lists w l) = Some xs" for xs
    by (auto simp: cb_lock_def cb_disable_def Let_def split: cb_memory.splits)
  then show ?thesis using assms(1) by (auto simp: ActLock progress_ok_def set_list_def)
qed (use assms in \<open>simp_all add: progress_ok_def dact_ok_def\<close>)

lemma end_fire_progress:
  assumes "\<not> f_once (cb_flags L)" "end_fire L = (L', r)"
  shows "cb_list L' = cb_list L"
  using assms by (auto simp: end_fire_def Let_def dest!: fire_list split: if_splits option.splits list.splits)

lemma progress_step:
  assumes "progress_ok w" "flags_ok w" "cb_step body w = Some w'"
    and acts: "\<And>xs r. Acts xs r \<in> set (frames w) \<Longrightarrow> list_all dact_ok xs"
  shows "progress_ok w'"
proof -
  have base: "progress_ok (w\<lparr>frames := fs\<rparr>)" "flags_ok (w\<lparr>frames := fs\<rparr>)" for fs
    using assms(1,2) by (simp_all add: progress_ok_def flags_ok_def)
  have ended: "progress_ok (start_loop l (end_fire L) (w\<lparr>frames := fs\<rparr>))"
    if "cb_flags L = cb_flags (lists w l)" "cb_list L = cb_list (lists w l)" for l L fs
  proof (rule progress_start_ok [OF base(1)])
    fix xs assume xs: "cb_list (fst (end_fire L)) = Some xs" and l: "l = ProgressL"
    obtain L' r where r: "end_fire L = (L', r)" by force
    show "list_all (\<lambda>f. 5 \<le> f) xs"
      using end_fire_progress [OF _ r] that xs r l assms(1,2) by (simp add: flags_ok_def progress_ok_def)
  qed
  obtain f fs where fr: "frames w = f # fs" using assms(3) by (cases "frames w") (simp_all add: cb_step.simps)
  show ?thesis
  proof (cases f)
    case (Acts xs r)
    show ?thesis
    proof (cases xs)
      case Nil
      then show ?thesis using assms(1,3) fr Acts by (cases "r = Throws") (auto simp: cb_step.simps progress_ok_def)
    next
      case (Cons x ys)
      have "dact_ok x" using acts [of xs r] fr Acts Cons by simp
      then show ?thesis using assms(3) fr Acts Cons progress_perform [OF base] by (auto simp: cb_step.simps)
    qed
  next
    case (Loop l a)
    then show ?thesis
      using assms(1,3) fr ended [of "lists w l" l]
      by (auto simp: cb_step.simps Let_def split_beta progress_ok_def split: option.splits if_splits)
  next
    case (Ret l a)
    then show ?thesis
      using assms(1,3) fr ended [of "(lists w l)\<lparr>cb_memory := Halted\<rparr>" l]
      by (auto simp: cb_step.simps set_list_def progress_ok_def split: if_splits)
  qed
qed

section \<open>Steps that concern progress only\<close>

definition user_ok :: "(nat \<Rightarrow> 'a \<Rightarrow> 'a dact list \<times> cb_outcome) \<Rightarrow> bool" where
  "user_ok user \<longleftrightarrow> (\<forall>f a. list_all promise_act (fst (user f a)))"

lemma user_body: "user_ok user \<Longrightarrow> 5 \<le> f \<or> f = 2 \<Longrightarrow> list_all safe_act (fst (deferred_body user f a))"
  by (auto simp: user_ok_def deferred_body_def safe_act_def list_all_iff)

lemma same_refl [simp]: "same_sides w w" by (simp add: same_sides_def)

lemma fewer_refl [simp]: "list_all user_frame (frames w) \<Longrightarrow> fewer_frames w w" by (simp add: fewer_frames_def)

lemma same_added: "same_sides w (w\<lparr>added := (added w)(ProgressL := g)\<rparr>)"
  by (auto simp: same_sides_def calls_of_def)

lemma fewer_added: "fewer_frames w (w'\<lparr>added := g\<rparr>) = fewer_frames w w'" "fewer_frames (w\<lparr>added := g\<rparr>) w' = fewer_frames w w'"
  by (simp_all add: fewer_frames_def)

lemma progress_act_step:
  assumes "list_all user_frame (frames w)" and "x = ActAdd ProgressL args \<or> x = ActFire ProgressL b \<or> x = ActLock ProgressL"
  shows "same_sides w (perform x w) \<and> fewer_frames w (perform x w)"
  using assms(2)
proof (elim disjE)
  let ?g = "added w ProgressL @ (if cb_disabled (lists w ProgressL) then [] else concat (map fns_of args))"
  let ?w = "w\<lparr>added := (added w)(ProgressL := ?g)\<rparr>"
  assume x: "x = ActAdd ProgressL args"
  have "list_all user_frame (frames ?w)" using assms(1) by simp
  note p = progress_start [OF this, of "cb_add args (lists w ProgressL)"]
  have "perform x w = start_loop ProgressL (cb_add args (lists w ProgressL)) ?w" by (simp add: x)
  then show ?thesis using same_sides_trans [OF same_added p(1)] p(2) by (simp only: fewer_added)
next
  assume "x = ActFire ProgressL b"
  then show ?thesis using progress_start [OF assms(1)] by simp
next
  assume x: "x = ActLock ProgressL"
  have "perform x w = start_loop ProgressL (cb_lock (lists w ProgressL), None) w" by (simp add: x start_loop_def)
  then show ?thesis using progress_start [OF assms(1)] by simp
qed

lemma progress_frame_step:
  assumes fr: "frames w = f # fs" and f: "f = Loop ProgressL b \<or> f = Ret ProgressL b"
    and uf: "list_all user_frame (frames w)" and p: "progress_ok w" and u: "user_ok user"
    and step: "cb_step (deferred_body user) w = Some w'"
  shows "same_sides w w' \<and> fewer_frames w w'"
proof -
  have ufs: "list_all user_frame fs" "set fs \<subseteq> set (frames w)" using uf fr by auto
  note pop = pop_frames [OF ufs]
  have ended: "same_sides w (start_loop ProgressL q (w\<lparr>frames := fs\<rparr>)) \<and> fewer_frames w (start_loop ProgressL q (w\<lparr>frames := fs\<rparr>))" for q
    using progress_start [of "w\<lparr>frames := fs\<rparr>" q] pop ufs(1) same_sides_trans fewer_frames_trans by auto
  from f show ?thesis
  proof
    assume l: "f = Loop ProgressL b"
    let ?L = "lists w ProgressL"
    show ?thesis
    proof (cases "cb_list ?L")
      case None
      then have "w' = start_loop ProgressL (end_fire ?L) (w\<lparr>frames := fs\<rparr>)" using step fr l by (simp add: cb_step.simps)
      then show ?thesis using ended by simp
    next
      case (Some xs)
      show ?thesis
      proof (cases "firing_index ?L < firing_length ?L")
        case False
        then have "w' = start_loop ProgressL (end_fire ?L) (w\<lparr>frames := fs\<rparr>)" using step fr l Some by (simp add: cb_step.simps)
        then show ?thesis using ended by simp
      next
        case lt: True
        show ?thesis
        proof (cases "0 \<le> firing_index ?L \<and> firing_index ?L < int (length xs)")
          case True
          define g where "g = xs ! nat (firing_index ?L)"
          have "5 \<le> g" using p Some True by (auto simp: progress_ok_def g_def list_all_length)
          then have acts: "list_all safe_act (fst (deferred_body user g b))" using user_body [OF u] by blast
          have "w' = w\<lparr>frames := Acts (fst (deferred_body user g b)) (snd (deferred_body user g b)) # Ret ProgressL b # fs,
              call_log := call_log w @ [(ProgressL, g, b)]\<rparr>"
            using step fr l Some lt True by (simp add: cb_step.simps g_def split_beta Let_def)
          then show ?thesis
            using acts ufs fr l by (auto simp: same_sides_def fewer_frames_def calls_of_def user_frame_def)
        next
          case False
          then have "w' = w\<lparr>frames := [], threw := True, type_error := True\<rparr>"
            using step fr l Some lt by (auto simp: cb_step.simps split: if_splits)
          then show ?thesis by (simp add: same_sides_def fewer_frames_def calls_of_def)
        qed
      qed
    qed
  next
    assume l: "f = Ret ProgressL b"
    let ?L = "lists w ProgressL"
    show ?thesis
    proof (cases "returned w = ReturnsFalse \<and> f_stop (cb_flags ?L)")
      case True
      then have "w' = start_loop ProgressL (end_fire (?L\<lparr>cb_memory := Halted\<rparr>)) (w\<lparr>frames := fs\<rparr>)"
        using step fr l by (simp add: cb_step.simps)
      then show ?thesis using ended by simp
    next
      case False
      then have "w' = (set_list ProgressL (?L\<lparr>firing_index := firing_index ?L + 1\<rparr>) w)\<lparr>frames := Loop ProgressL b # fs\<rparr>"
        using step fr l by (auto simp: cb_step.simps split: if_splits)
      then show ?thesis using ufs fr
        by (auto simp: same_sides_def fewer_frames_def calls_of_def set_list_def user_frame_def)
    qed
  qed
qed

lemma acts_done_step:
  assumes "frames w = Acts [] r # fs" "list_all user_frame (frames w)" "cb_step body w = Some w'"
  shows "same_sides w w' \<and> fewer_frames w w'"
  using assms by (cases "r = Throws") (auto simp: cb_step.simps same_sides_def fewer_frames_def calls_of_def)

lemma same_next: "same_sides (w\<lparr>frames := fs\<rparr>) w' = same_sides w w'"
  by (simp add: same_sides_def calls_of_def)

lemma fewer_next: "fewer_frames (w\<lparr>frames := Acts xs r # fs\<rparr>) w' \<Longrightarrow> frames w = Acts ys q # fs \<Longrightarrow> fewer_frames w w'"
  by (auto simp: fewer_frames_def)

section \<open>Pending\<close>

lemma frames_firing: "world_ok w \<Longrightarrow> l \<in> set (firing_lists (frames w)) \<Longrightarrow> cb_firing (lists w l)"
  by (simp add: world_ok_def frames_ok_def)

lemma in_firing_lists: "Loop l b \<in> set fs \<Longrightarrow> l \<in> set (firing_lists fs)" "Ret l b \<in> set fs \<Longrightarrow> l \<in> set (firing_lists fs)"
  by (force simp: firing_lists_def frame_list_def)+

lemma untouched_frames: "untouched l (w\<lparr>frames := fs\<rparr>) = untouched l w"
  by (simp add: untouched_def calls_of_def users_added_def)

lemma untouched_cong: "untouched l w \<Longrightarrow> lists w' l = lists w l \<Longrightarrow> added w' l = added w l \<Longrightarrow> calls_of l w' = calls_of l w \<Longrightarrow> untouched l w'"
  by (simp add: untouched_def users_added_def)

lemma users_added_more: "users_added l w \<Longrightarrow> user_fns args \<Longrightarrow> added w' l = added w l @ concat (map fns_of args) \<Longrightarrow> users_added l w'"
  by (auto simp: users_added_def user_fns_def)

lemma pending_add:
  assumes "pending_inv w" "flags_ok w" "user_fns args" "l \<noteq> ProgressL"
  shows "pending_inv (perform (ActAdd l args) w)"
proof -
  define us where "us = concat (map fns_of args)"
  have u: "untouched l w" using assms(1,4) by (cases l) (simp_all add: pending_inv_def)
  then have add: "cb_add args (lists w l) = ((lists w l)\<lparr>cb_list := Some (added w l @ us)\<rparr>, None)"
    using assms(2) by (simp add: cb_add_def untouched_def Let_def flags_ok_def us_def)
  define w1 where "w1 = perform (ActAdd l args) w"
  have w': "w1 = w\<lparr>lists := (lists w)(l := (lists w l)\<lparr>cb_list := Some (added w l @ us)\<rparr>), added := (added w)(l := added w l @ us)\<rparr>"
    using u by (simp add: w1_def add start_loop_def set_list_def cb_disabled_def untouched_def us_def)
  have "users_added l w1" by (rule users_added_more [of _ w args]) (use u assms(3) w' in \<open>simp_all add: untouched_def us_def\<close>)
  then have "untouched l w1" using u by (simp add: untouched_def w' calls_of_def)
  moreover have "untouched (opp l) w1"
  proof (rule untouched_cong)
    show "untouched (opp l) w" using assms(1,4) by (cases l) (simp_all add: pending_inv_def)
  qed (use opp_other [OF assms(4)] in \<open>simp_all add: w' calls_of_def\<close>)
  moreover have "var w1 = var w" "frames w1 = frames w" by (simp_all add: w')
  ultimately have "pending_inv w1" using assms(1,4) by (cases l) (simp_all add: pending_inv_def)
  then show ?thesis by (simp only: w1_def)
qed

lemma pending_fire:
  assumes "pending_inv w" "flags_ok w" "l \<noteq> ProgressL" "world_ok w" "frames w = Acts (ActFire l b # xs) r # fs"
  shows "early_inv l b (perform (ActFire l b) (w\<lparr>frames := Acts xs r # fs\<rparr>))"
proof -
  have u: "untouched l w" "untouched (opp l) w" using assms(1,3) by (cases l; simp add: pending_inv_def)+
  have fl: "cb_flags (lists w l) = \<lparr>f_once = True, f_memory = True, f_unique = False, f_stop = False\<rparr>"
    using assms(2,3) by (simp add: flags_ok_def)
  have fire: "cb_fire_with b (lists w l) = (lists w l, Some b)" using u fl by (simp add: cb_fire_with_def untouched_def)
  define w1 where "w1 = perform (ActFire l b) (w\<lparr>frames := Acts xs r # fs\<rparr>)"
  have w': "w1 = w\<lparr>lists := (lists w)(l := begin_fire b (lists w l)), frames := Loop l b # Acts xs r # fs\<rparr>"
    by (simp add: w1_def fire start_loop_def set_list_def)
  have calls: "calls_of k w1 = calls_of k w" for k by (simp add: w' calls_of_def)
  have "l \<notin> set (firing_lists (Acts xs r # fs))"
    using frames_firing [OF assms(4), of l] u(1) by (auto simp: assms(5) untouched_def)
  moreover have "list_all user_frame (Acts xs r # fs)" using assms(1,5) by (simp add: pending_inv_def user_frame_def)
  moreover have "early_stage l b (Acts xs r # fs) w1"
    using u fl by (simp add: early_stage_def Let_def calls) (simp add: w' begin_fire_def untouched_def)
  moreover have "untouched (opp l) w1"
    by (rule untouched_cong [OF u(2)]) (use opp_other [OF assms(3)] calls in \<open>simp_all add: w'\<close>)
  moreover have "users_added l w1" using u(1) by (simp add: untouched_def users_added_def w')
  moreover have "cb_list (lists w1 l) = Some (added w1 l)" "cb_memory (lists w1 l) = Remembered b" "cb_firing (lists w1 l)"
    "calls_of l w1 = []"
    using u(1) fl by (simp_all add: calls untouched_def) (simp_all add: w' begin_fire_def)
  ultimately show ?thesis
    unfolding w1_def [symmetric] early_inv_def using assms(3)
    by (intro conjI exI [of _ "Acts xs r # fs"]) simp_all
qed

lemma pending_step:
  assumes p: "pending_inv w" and ok: "world_ok w" "flags_ok w" "progress_ok w" and u: "user_ok user"
    and step: "cb_step (deferred_body user) w = Some w'"
  shows "pending_inv w' \<or> (\<exists>l a. early_inv l a w')"
proof -
  obtain f fs where fr: "frames w = f # fs" using step by (cases "frames w") (simp_all add: cb_step.simps)
  have uf: "list_all user_frame (frames w)" using p by (simp add: pending_inv_def)
  have quiet: "\<not> cb_firing (lists w l)" if "l \<noteq> ProgressL" for l using p that by (cases l) (simp_all add: pending_inv_def untouched_def)
  have prog: "pending_inv w'" if "f = Loop ProgressL b \<or> f = Ret ProgressL b" for b
    using progress_frame_step [OF fr that uf ok(3) u step] pending_same [OF p] by blast
  show ?thesis
  proof (cases f)
    case (Loop l b)
    then have "l = ProgressL" using quiet [of l] frames_firing [OF ok(1), of l] fr by auto
    then show ?thesis using prog Loop by blast
  next
    case (Ret l b)
    then have "l = ProgressL" using quiet [of l] frames_firing [OF ok(1), of l] fr by auto
    then show ?thesis using prog Ret by blast
  next
    case (Acts ys r)
    show ?thesis
    proof (cases ys)
      case Nil
      then show ?thesis using acts_done_step [OF _ uf step] fr Acts pending_same [OF p] by blast
    next
      case (Cons x xs)
      let ?w = "w\<lparr>frames := Acts xs r # fs\<rparr>"
      have w': "w' = perform x ?w" using step fr Acts Cons by (simp add: cb_step.simps)
      have safe: "safe_act x" "list_all user_frame (frames ?w)" using uf fr Acts Cons by (simp_all add: user_frame_def)
      have base: "pending_inv ?w" "flags_ok ?w"
        using p ok(2) safe(2) by (simp_all add: pending_inv_def untouched_frames flags_ok_def)
      have same: "pending_inv w'" if "x = ActAdd ProgressL args \<or> x = ActFire ProgressL b \<or> x = ActLock ProgressL" for args b
        using progress_act_step [OF safe(2) that] pending_same [OF base(1)] w' by simp
      from safe(1) consider (add) l args where "x = ActAdd l args" "user_fns args" | (fire) l b where "x = ActFire l b"
        | (lock) "x = ActLock ProgressL"
        by (auto simp: safe_act_def promise_act_def split: cb_act.splits)
      then show ?thesis
      proof cases
        case add
        then show ?thesis using same pending_add [OF base add(2), of l] w' by (cases "l = ProgressL") auto
      next
        case fire
        then show ?thesis
          using same pending_fire [OF p ok(2) _ ok(1), of l b xs r fs] fr Acts Cons w' by (cases "l = ProgressL") auto
      next
        case lock
        then show ?thesis using same by blast
      qed
    qed
  qed
qed

section \<open>Being settled\<close>

lemma builtin_body:
  "l \<noteq> ProgressL \<Longrightarrow> deferred_body user (builtin l ! 0) a = ([ActSet (settled l)], Returns)"
  "l \<noteq> ProgressL \<Longrightarrow> deferred_body user (builtin l ! Suc 0) a = ([ActDisable (opp l)], Returns)"
  by (cases l; simp add: deferred_body_def)+

lemma builtin_length: "l \<noteq> ProgressL \<Longrightarrow> length (builtin l) = 3"
  by (cases l) simp_all

text \<open>One call made by the loop of list \<open>l\<close>.\<close>

lemma loop_call:
  assumes "frames w = Loop l a # fs" "cb_list (lists w l) = Some xs" "firing_index (lists w l) = int k" "k < length xs"
    and "world_ok w" and "cb_step body w = Some w'"
  shows "w' = w\<lparr>frames := Acts (fst (body (xs ! k) a)) (snd (body (xs ! k) a)) # Ret l a # fs,
    call_log := call_log w @ [(l, xs ! k, a)]\<rparr>"
proof -
  have "cb_firing (lists w l)" using assms(1) by (intro frames_firing [OF assms(5)]) simp
  then have "firing_length (lists w l) = int (length xs)" using assms(2,5) by (simp add: world_ok_def list_ok_def)
  then show ?thesis using assms by (simp add: cb_step.simps split_beta Let_def)
qed

lemma calls_of_log: "calls_of k (w\<lparr>frames := fs, call_log := call_log w @ [(l, f, a)]\<rparr>) = (if k = l then calls_of k w @ [(f, a)] else calls_of k w)"
  by (simp add: calls_of_def)

lemma early_step:
  assumes e: "early_inv l a w" and ok: "world_ok w" "flags_ok w" and u: "user_ok user"
    and step: "cb_step (deferred_body user) w = Some w'"
  shows "early_inv l a w' \<or> settled_inv l a 2 w'"
proof -
  define L where "L = lists w l"
  have l: "l \<noteq> ProgressL" "opp l \<noteq> l" using e opp_other by (auto simp: early_inv_def)
  obtain us where us: "added w l = builtin l @ us" "list_all (\<lambda>f. 5 \<le> f) us" using e by (auto simp: early_inv_def users_added_def)
  have base: "users_added l w" "untouched (opp l) w" "cb_list L = Some (added w l)" "cb_memory L = Remembered a" "cb_firing L"
    "calls_of l w = map (\<lambda>f. (f, a)) (take (length (calls_of l w)) (added w l))"
    using e by (simp_all add: early_inv_def L_def)
  obtain fs where fs: "list_all user_frame fs" "l \<notin> set (firing_lists fs)" "early_stage l a fs w"
    using e by (auto simp: early_inv_def)
  have len: "3 \<le> length (added w l)" using us builtin_length [OF l(1)] by simp
  then have ne: "added w l \<noteq> []" "Suc 0 < length (added w l)" by auto
  have at: "added w l ! 0 = builtin l ! 0" "added w l ! Suc 0 = builtin l ! Suc 0"
    using us builtin_length [OF l(1)] by (simp_all add: nth_append)
  have stop: "\<not> f_stop (cb_flags L)" using ok(2) by (simp add: flags_ok_def L_def)
  have keep: "early_inv l a w'" if "added w' = added w" "lists w' (opp l) = lists w (opp l)" "calls_of (opp l) w' = calls_of (opp l) w"
    "cb_list (lists w' l) = cb_list L" "cb_memory (lists w' l) = cb_memory L" "cb_firing (lists w' l)" "early_stage l a fs w'"
    "calls_of l w' = map (\<lambda>f. (f, a)) (take n (added w l))" "n = length (calls_of l w')" for n
    using base l fs(1,2) that untouched_cong [OF base(2), of w']
    by (auto simp: early_inv_def users_added_def)
  from fs(3) consider
      (0) "frames w = Loop l a # fs" "firing_index L = 0" "calls_of l w = []"
    | (1) "frames w = Acts [ActSet (settled l)] Returns # Ret l a # fs" "firing_index L = 0" "length (calls_of l w) = 1"
    | (2) "frames w = Acts [] Returns # Ret l a # fs" "firing_index L = 0" "length (calls_of l w) = 1" "var w = settled l"
    | (3) "frames w = Ret l a # fs" "firing_index L = 0" "length (calls_of l w) = 1" "var w = settled l"
    | (4) "frames w = Loop l a # fs" "firing_index L = 1" "length (calls_of l w) = 1" "var w = settled l"
    | (5) "frames w = Acts [ActDisable (opp l)] Returns # Ret l a # fs" "firing_index L = 1" "length (calls_of l w) = 2" "var w = settled l"
    by (auto simp: early_stage_def Let_def L_def)
  then show ?thesis
  proof cases
    case 0
    have w': "w' = w\<lparr>frames := Acts [ActSet (settled l)] Returns # Ret l a # fs, call_log := call_log w @ [(l, added w l ! 0, a)]\<rparr>"
      using loop_call [OF 0(1) _ _ _ ok(1) step, of "added w l" 0] base(3) 0(2) ne builtin_body(1) [OF l(1), of user a]
      by (simp add: at L_def)
    have c: "calls_of l w' = [(added w l ! 0, a)]" "calls_of (opp l) w' = calls_of (opp l) w"
      using 0(3) l(2) by (simp_all add: w' calls_of_log)
    have "take (Suc 0) (added w l) = [added w l ! 0]" using ne(1) by (simp add: take_Suc_conv_app_nth)
    then have "early_inv l a w'"
      by (intro keep [of 1]) (use base 0 c in \<open>simp_all add: w' L_def early_stage_def Let_def\<close>)
    then show ?thesis by blast
  next
    case 1
    have w': "w' = w\<lparr>frames := Acts [] Returns # Ret l a # fs, var := settled l\<rparr>" using step 1(1) by (simp add: cb_step.simps)
    have c: "calls_of j w' = calls_of j w" for j by (simp add: w' calls_of_def set_list_def)
    have "calls_of l w = map (\<lambda>f. (f, a)) (take 1 (added w l))" using base(6) unfolding 1(3) .
    then have "early_inv l a w'"
      by (intro keep [of 1]) (use base(1-5) 1 l c in \<open>simp_all add: early_stage_def Let_def\<close>, simp_all add: w' L_def set_list_def)
    then show ?thesis by blast
  next
    case 2
    have w': "w' = w\<lparr>frames := Ret l a # fs, returned := Returns\<rparr>" using step 2(1) by (simp add: cb_step.simps)
    have c: "calls_of j w' = calls_of j w" for j by (simp add: w' calls_of_def set_list_def)
    have "calls_of l w = map (\<lambda>f. (f, a)) (take 1 (added w l))" using base(6) unfolding 2(3) .
    then have "early_inv l a w'"
      by (intro keep [of 1]) (use base(1-5) 2 l c in \<open>simp_all add: early_stage_def Let_def\<close>, simp_all add: w' L_def set_list_def)
    then show ?thesis by blast
  next
    case 3
    have w': "w' = (set_list l (L\<lparr>firing_index := firing_index L + 1\<rparr>) w)\<lparr>frames := Loop l a # fs\<rparr>"
      using step 3(1) stop by (simp add: cb_step.simps L_def)
    have c: "calls_of j w' = calls_of j w" for j by (simp add: w' calls_of_def set_list_def)
    have "calls_of l w = map (\<lambda>f. (f, a)) (take 1 (added w l))" using base(6) unfolding 3(3) .
    then have "early_inv l a w'"
      by (intro keep [of 1]) (use base(1-5) 3 l c in \<open>simp_all add: early_stage_def Let_def\<close>, simp_all add: w' L_def set_list_def)
    then show ?thesis by blast
  next
    case 4
    have w': "w' = w\<lparr>frames := Acts [ActDisable (opp l)] Returns # Ret l a # fs, call_log := call_log w @ [(l, added w l ! Suc 0, a)]\<rparr>"
      using loop_call [OF 4(1) _ _ _ ok(1) step, of "added w l" 1] base(3) 4(2) ne builtin_body(2) [OF l(1), of user a]
      by (simp add: at L_def)
    have t: "take 2 (added w l) = take 1 (added w l) @ [added w l ! Suc 0]"
      using len take_Suc_conv_app_nth [of 1 "added w l"] by (simp add: numeral_2_eq_2)
    have c: "calls_of l w' = map (\<lambda>f. (f, a)) (take 2 (added w l))" "calls_of (opp l) w' = calls_of (opp l) w"
      using base(6) 4(3) l(2) by (simp_all add: w' calls_of_log t)
    have "early_inv l a w'"
      by (rule keep [of 2]) (use base 4 c len in \<open>simp_all add: w' L_def early_stage_def Let_def\<close>)
    then show ?thesis by blast
  next
    case 5
    have w': "w' = w\<lparr>frames := Acts [] Returns # Ret l a # fs, lists := (lists w)(opp l := cb_disable (lists w (opp l)))\<rparr>"
      using step 5(1) by (simp add: cb_step.simps set_list_def)
    have cl: "closed (opp l) w'"
      using base(2) by (simp add: w' closed_def untouched_def cb_disable_def calls_of_def)
    have "batch_at l a 2 [] (added w l) w'"
      using base(3,5) 5(2) fs(2) l in_firing_lists [of l _ fs] by (auto simp: batch_at_def w' L_def)
    moreover have c: "calls_of j w' = calls_of j w" for j by (simp add: w' calls_of_def)
    moreover have "calls_of l w = map (\<lambda>f. (f, a)) (take 2 (added w l))" using base(6) unfolding 5(3) .
    moreover have "lists w' l = L" "added w' = added w" using l by (simp_all add: w' L_def)
    moreover have "users_added l w'" using base(1) by (simp add: w' users_added_def)
    ultimately have "batch l a 2 w'" using base(4) len unfolding batch_def by auto
    moreover have "list_all user_frame (frames w')" using fs(1) by (simp add: w' user_frame_def)
    ultimately have "settled_inv l a 2 w'" using l 5(4) cl unfolding settled_inv_def by (simp add: w')
    then show ?thesis by blast
  qed
qed

text \<open>Adding to a settled list: called at once, or by the loop that is running.\<close>

lemma settled_add:
  assumes s: "settled_inv l a n w" and ok: "flags_ok w" "world_ok w0" "lists w = lists w0" "firing_lists (frames w) = firing_lists (frames w0)"
    and us: "user_fns args" and fr: "no_loops (frames w)"
  shows "settled_inv l a n (perform (ActAdd l args) w)"
proof -
  define us where "us = concat (map fns_of args)"
  define L where "L = lists w l"
  have l: "l \<noteq> ProgressL" "opp l \<noteq> l" using s opp_other by (auto simp: settled_inv_def)
  have un: "f_unique (cb_flags L) = False" "f_memory (cb_flags L)" using ok(1) by (simp_all add: flags_ok_def L_def)
  obtain before xs where b: "batch_at l a n before xs w" "cb_memory L = Remembered a" "users_added l w" "n \<le> length (added w l)"
    "calls_of l w = map (\<lambda>f. (f, a)) (take n (added w l))"
    using s by (auto simp: settled_inv_def batch_def L_def)
  then have xs: "added w l = before @ xs" "cb_list L = Some xs" by (simp_all add: batch_at_def L_def)
  have dis: "\<not> cb_disabled L" using xs by (simp add: cb_disabled_def)
  define w1 where "w1 = perform (ActAdd l args) w"
  have added: "added w1 = (added w)(l := added w l @ us)"
    using dis by (simp add: w1_def L_def us_def start_loop_def set_list_def split: prod.split option.split)
  have calls: "calls_of k w1 = calls_of k w" for k
    by (simp add: w1_def calls_of_def start_loop_def set_list_def split: prod.split option.split)
  have other: "lists w1 (opp l) = lists w (opp l)" "var w1 = var w"
    using l by (simp_all add: w1_def start_loop_def set_list_def split: prod.split option.split)
  have ua: "users_added l w1" by (rule users_added_more [OF b(3) us]) (simp add: added us_def)
  have "batch l a n w1 \<and> list_all user_frame (frames w1)"
  proof (cases "cb_firing L")
    case True
    then have add: "cb_add args L = (L\<lparr>cb_list := Some (xs @ us), firing_length := int (length (xs @ us))\<rparr>, None)"
      using xs un by (simp add: cb_add_def us_def Let_def)
    have w1: "lists w1 l = L\<lparr>cb_list := Some (xs @ us), firing_length := int (length (xs @ us))\<rparr>" "frames w1 = frames w"
      using add by (simp_all add: w1_def L_def start_loop_def set_list_def)
    have "batch_at l a n before (xs @ us) w1"
      using b(1) True unfolding batch_at_def by (simp add: w1 added L_def)
    then show ?thesis using b ua s by (auto simp: batch_def w1 added calls settled_inv_def)
  next
    case False
    then have xs0: "xs = []" "n = length (added w l)" using b(1) by (simp_all add: batch_at_def L_def)
    have add: "cb_add args L = (L\<lparr>cb_list := Some us, firing_start := 0\<rparr>, Some a)"
      using xs xs0 un False b(2) by (simp add: cb_add_def us_def Let_def)
    define L1 where "L1 = begin_fire a (L\<lparr>cb_list := Some us, firing_start := 0\<rparr>)"
    have w1: "lists w1 l = L1" "frames w1 = Loop l a # frames w"
      using add by (simp_all add: w1_def L_def start_loop_def set_list_def L1_def)
    have "l \<notin> set (firing_lists (frames w))" using frames_firing [OF ok(2), of l] False ok(3,4) by (auto simp: L_def)
    then have "Loop l b \<notin> set (frames w)" "Ret l b \<notin> set (frames w)" for b using in_firing_lists by metis+
    then have "batch_at l a n (added w l) us w1"
      using xs0(2) by (auto simp: batch_at_def w1 added L1_def begin_fire_def)
    moreover have "cb_memory L1 = Remembered a" using un by (simp add: L1_def begin_fire_def)
    moreover have "user_frame (Loop l a :: (dlist, 'a, dstate) cb_frame)" by (simp add: user_frame_def)
    ultimately show ?thesis using b ua s w1 by (auto simp: batch_def added calls settled_inv_def user_frame_def)
  qed
  then have "settled_inv l a n w1" using s by (simp add: settled_inv_def other closed_def calls)
  then show ?thesis by (simp only: w1_def)
qed

lemma settled_step:
  assumes s: "settled_inv l a n w" and ok: "world_ok w" "flags_ok w" "progress_ok w" and u: "user_ok user"
    and step: "cb_step (deferred_body user) w = Some w'"
  shows "\<exists>n'. settled_inv l a n' w'"
proof -
  obtain f fs where fr: "frames w = f # fs" using step by (cases "frames w") (simp_all add: cb_step.simps)
  have l: "l \<noteq> ProgressL" "opp l \<noteq> l" using s opp_other by (auto simp: settled_inv_def)
  have uf: "list_all user_frame (frames w)" using s by (simp add: settled_inv_def)
  have quiet: "\<not> cb_firing (lists w (opp l))" using s by (simp add: settled_inv_def closed_def)
  have prog: "\<exists>n'. settled_inv l a n' w'" if "f = Loop ProgressL b \<or> f = Ret ProgressL b" for b
    using progress_frame_step [OF fr that uf ok(3) u step] settled_same [OF s] by blast
  define L where "L = lists w l"
  have fl: "cb_flags L = \<lparr>f_once = True, f_memory = True, f_unique = False, f_stop = False\<rparr>" using ok(2) l by (simp add: flags_ok_def L_def)
  obtain before xs where b: "batch_at l a n before xs w" "cb_memory L = Remembered a" "users_added l w" "n \<le> length (added w l)"
    "calls_of l w = map (\<lambda>f. (f, a)) (take n (added w l))"
    using s by (auto simp: settled_inv_def batch_def L_def)
  then have xs: "added w l = before @ xs" "cb_list L = Some xs" by (simp_all add: batch_at_def L_def)
  have n2: "2 \<le> n" using s by (simp add: settled_inv_def)
  have kind: "k = ProgressL \<or> k = l" if "k \<in> set (frame_list f)" for k
    using side_cases [OF l(1), of k] frames_firing [OF ok(1), of k] that quiet fr by (auto simp: firing_lists_def)
  show ?thesis
  proof (cases f)
    case (Loop k c)
    show ?thesis
    proof (cases "k = ProgressL")
      case True
      then show ?thesis using prog Loop by blast
    next
      case False
      then have k: "k = l" "c = a" "int n = int (length before) + firing_index L"
        using kind [of k] b(1) fr Loop by (auto simp: frame_list_def batch_at_def L_def)
      have own: "l \<notin> set (firing_lists fs)" "cb_firing L" using ok(1) fr Loop k by (simp_all add: world_ok_def frames_ok_def L_def)
      then have gone: "Loop l b \<notin> set fs" "Ret l b \<notin> set fs" for b using in_firing_lists by metis+
      have idx: "firing_index L = int (n - length before)" "length before \<le> n"
        using k(3) ok(1) fr Loop k(1) by (auto simp: world_ok_def frames_ok_def L_def)
      show ?thesis
      proof (cases "n < length (added w l)")
        case True
        define g where "g = added w l ! n"
        have g: "xs ! (n - length before) = g" "n - length before < length xs" using idx(2) True by (simp_all add: g_def xs nth_append)
        have "5 \<le> g \<or> g = 2"
        proof -
          obtain us where us: "added w l = builtin l @ us" "list_all (\<lambda>f. 5 \<le> f) us" using b(3) by (auto simp: users_added_def)
          have "builtin l ! 2 = 2" using l(1) by (cases l) simp_all
          moreover have "n = 2 \<or> 3 \<le> n" using n2 by linarith
          ultimately show ?thesis using us True builtin_length [OF l(1)] by (auto simp: g_def nth_append list_all_length)
        qed
        then have acts: "list_all safe_act (fst (deferred_body user g a))" by (rule user_body [OF u])
        have w': "w' = w\<lparr>frames := Acts (fst (deferred_body user g a)) (snd (deferred_body user g a)) # Ret l a # fs,
            call_log := call_log w @ [(l, g, a)]\<rparr>"
          using loop_call [OF _ _ _ _ ok(1) step, of l a fs xs "n - length before"] fr Loop k xs(2) idx g by (simp add: L_def)
        have c: "calls_of l w' = map (\<lambda>f. (f, a)) (take (Suc n) (added w l))" "calls_of (opp l) w' = calls_of (opp l) w"
          using b(5) True l(2) by (simp_all add: w' calls_of_log take_Suc_conv_app_nth g_def)
        have "batch_at l a (Suc n) before xs w'"
          using b(1) gone k(3) own(2) by (auto simp: batch_at_def w' L_def)
        then have "batch l a (Suc n) w'" using b True c by (auto simp: batch_def w' L_def users_added_def)
        then have "settled_inv l a (Suc n) w'"
          using s acts c uf fr by (simp add: settled_inv_def closed_def) (simp add: w' user_frame_def)
        then show ?thesis by blast
      next
        case False
        then have full: "n = length (added w l)" using b(4) by simp
        have "firing_length L = int (length xs)" using ok(1) own(2) xs(2) by (simp add: world_ok_def list_ok_def L_def)
        then have "\<not> firing_index L < firing_length L" using idx full xs by simp
        then have "w' = start_loop l (end_fire L) (w\<lparr>frames := fs\<rparr>)"
          using step fr Loop k xs(2) by (simp add: cb_step.simps L_def)
        moreover have "end_fire L = (L\<lparr>cb_firing := False, cb_list := Some []\<rparr>, None)"
          using fl b(2) xs(2) by (simp add: end_fire_def Let_def)
        ultimately have w': "w' = w\<lparr>frames := fs, lists := (lists w)(l := L\<lparr>cb_firing := False, cb_list := Some []\<rparr>)\<rparr>"
          by (simp add: start_loop_def set_list_def)
        have calls: "calls_of j w' = calls_of j w" for j by (simp add: w' calls_of_def)
        have "batch_at l a n (added w l) [] w'" using gone full by (simp add: batch_at_def w')
        then have "batch l a n w'" using b full by (auto simp: batch_def calls users_added_def) (auto simp: w')
        then have "settled_inv l a n w'" using s uf fr l by (simp add: settled_inv_def closed_def calls) (simp add: w')
        then show ?thesis by blast
      qed
    qed
  next
    case (Ret k c)
    show ?thesis
    proof (cases "k = ProgressL")
      case True
      then show ?thesis using prog Ret by blast
    next
      case False
      then have k: "k = l" "c = a" "int n = int (length before) + firing_index L + 1"
        using kind [of k] b(1) fr Ret by (auto simp: frame_list_def batch_at_def L_def)
      have own: "l \<notin> set (firing_lists fs)" "cb_firing L" using ok(1) fr Ret k by (simp_all add: world_ok_def frames_ok_def L_def)
      then have gone: "Loop l b \<notin> set fs" "Ret l b \<notin> set fs" for b using in_firing_lists by metis+
      have w': "w' = w\<lparr>lists := (lists w)(l := L\<lparr>firing_index := firing_index L + 1\<rparr>), frames := Loop l a # fs\<rparr>"
        using step fr Ret k fl by (simp add: cb_step.simps set_list_def L_def)
      have calls: "calls_of j w' = calls_of j w" for j by (simp add: w' calls_of_def)
      have "batch_at l a n before xs w'" using b(1) gone k own(2) by (auto simp: batch_at_def w' L_def)
      then have "batch l a n w'" using b by (auto simp: batch_def calls users_added_def) (auto simp: w' L_def)
      then have "settled_inv l a n w'"
        using s uf fr l by (simp add: settled_inv_def closed_def calls) (simp add: w' user_frame_def)
      then show ?thesis by blast
    qed
  next
    case (Acts ys r)
    show ?thesis
    proof (cases ys)
      case Nil
      then show ?thesis using acts_done_step [OF _ uf step] fr Acts settled_same [OF s] by blast
    next
      case (Cons x zs)
      define w0 where "w0 = w\<lparr>frames := Acts zs r # fs\<rparr>"
      have w': "w' = perform x w0" using step fr Acts Cons by (simp add: cb_step.simps w0_def)
      have safe: "safe_act x" "list_all user_frame (frames w0)" using uf fr Acts Cons by (simp_all add: user_frame_def w0_def)
      have "fewer_frames w w0" using safe fr Acts by (auto simp: fewer_frames_def w0_def)
      then have s0: "settled_inv l a n w0" using settled_same [OF s] by (simp add: same_sides_def w0_def calls_of_def)
      have f0: "flags_ok w0" using ok(2) by (simp add: flags_ok_def w0_def)
      have same: "\<exists>n'. settled_inv l a n' w'" if "x = ActAdd ProgressL args \<or> x = ActFire ProgressL b \<or> x = ActLock ProgressL" for args b
        using progress_act_step [OF safe(2) that] settled_same [OF s0] w' by blast
      have still: "\<exists>n'. settled_inv l a n' w'" if "perform x w0 = w0" using that s0 w' by auto
      have opp0: "cb_list (lists w0 (opp l)) = None" "cb_stack (lists w0 (opp l)) = None" using s0 by (simp_all add: settled_inv_def closed_def)
      from safe(1) consider (add) k args where "x = ActAdd k args" "user_fns args" | (fire) k c where "x = ActFire k c"
        | (lock) "x = ActLock ProgressL"
        by (auto simp: safe_act_def promise_act_def split: cb_act.splits)
      then show ?thesis
      proof cases
        case add
        consider "k = ProgressL" | "k = l" | "k = opp l" using side_cases [OF l(1)] by blast
        then show ?thesis
        proof cases
          case 2
          have "no_loops (frames w0)" using ok(1) fr by (simp add: world_ok_def frames_ok_def w0_def no_loops_def)
          then show ?thesis
            using settled_add [OF s0 f0 ok(1) _ _ add(2)] add(1) 2 w' fr Acts by (auto simp: w0_def)
        next
          case 3
          have "perform x w0 = w0" using opp0 by (simp add: add(1) 3 cb_add_def start_loop_def set_list_def cb_disabled_def)
          then show ?thesis by (rule still)
        qed (use same add in blast)
      next
        case fire
        consider "k = ProgressL" | "k = l" | "k = opp l" using side_cases [OF l(1)] by blast
        then show ?thesis
        proof cases
          case 2
          have "cb_fire_with c (lists w0 l) = (lists w0 l, None)"
            using fl b(2) by (simp add: cb_fire_with_def w0_def L_def split: option.split)
          then have "perform x w0 = w0" by (simp add: fire 2 start_loop_def set_list_def)
          then show ?thesis by (rule still)
        next
          case 3
          have "perform x w0 = w0" using opp0 by (simp add: fire 3 cb_fire_with_def start_loop_def set_list_def)
          then show ?thesis by (rule still)
        qed (use same fire in blast)
      next
        case lock
        then show ?thesis using same by blast
      qed
    qed
  qed
qed

section \<open>Deferreds settle once\<close>

lemma deferred_body_ok:
  assumes "user_ok user"
  shows "list_all keeps_items (fst (deferred_body user f a))" "list_all dact_ok (fst (deferred_body user f a))"
proof -
  have "list_all safe_act (fst (user f a))" using assms by (auto simp: user_ok_def safe_act_def list_all_iff)
  then show "list_all keeps_items (fst (deferred_body user f a))" "list_all dact_ok (fst (deferred_body user f a))"
    using safe_act_ok by (auto simp: deferred_body_def keeps_items_def dact_ok_def list_all_iff)
qed

lemma user_frame_acts: "list_all user_frame fs \<Longrightarrow> Acts xs r \<in> set fs \<Longrightarrow> list_all dact_ok xs"
  using safe_act_ok by (fastforce simp: user_frame_def list_all_iff)

lemma deferred_step:
  assumes i: "deferred_inv w" and u: "user_ok user" and step: "cb_step (deferred_body user) w = Some w'"
  shows "deferred_inv w'"
proof -
  have ok: "world_ok w" "flags_ok w" "progress_ok w" using i by (simp_all add: deferred_inv_def)
  have acts: "list_all dact_ok xs" if "Acts xs r \<in> set (frames w)" for xs r
  proof -
    have "pending_inv w \<or> (\<exists>l a. early_inv l a w) \<or> (\<exists>l a n. settled_inv l a n w)" using i by (auto simp: deferred_inv_def)
    then show ?thesis
    proof (elim disjE exE)
      fix l a assume e: "early_inv l a w"
      then obtain fs where fs: "list_all user_frame fs" "early_stage l a fs w" by (auto simp: early_inv_def)
      then have "Acts xs r \<in> set fs \<or> xs = [] \<or> xs = [ActSet (settled l)] \<or> xs = [ActDisable (opp l)]"
        using that by (auto simp: early_stage_def Let_def)
      then show ?thesis using user_frame_acts [OF fs(1)] by (auto simp: dact_ok_def)
    qed (use that user_frame_acts in \<open>auto simp: pending_inv_def settled_inv_def\<close>)
  qed
  have "world_ok w'" using world_ok_step [OF ok(1) step] deferred_body_ok(1) [OF u] by blast
  moreover have "flags_ok w'" using ok(2) flags_step [OF step] by (simp add: flags_ok_def)
  moreover have "progress_ok w'" using progress_step [OF ok(3,2) step] acts by blast
  moreover have "pending_inv w' \<or> (\<exists>l a. early_inv l a w' \<or> (\<exists>n. settled_inv l a n w'))"
    using i pending_step [OF _ ok u step] early_step [OF _ ok(1,2) u step] settled_step [OF _ ok u step]
    unfolding deferred_inv_def by metis
  ultimately show ?thesis by (simp add: deferred_inv_def)
qed

lemma deferred_page:
  assumes i: "deferred_inv w" and e: "frames w = []" and acts: "list_all promise_act acts"
  shows "deferred_inv (run_page acts w)"
proof -
  have safe: "list_all safe_act acts" using acts by (auto simp: safe_act_def list_all_iff)
  then have "list_all keeps_items acts" using safe_act_ok by (auto simp: list_all_iff)
  then have w: "world_ok (run_page acts w)" using i e world_ok_page by (auto simp: deferred_inv_def)
  have s: "same_sides w (run_page acts w)" "fewer_frames w (run_page acts w)"
    using safe by (simp_all add: same_sides_def fewer_frames_def run_page_def calls_of_def user_frame_def)
  have "pending_inv (run_page acts w) \<or> (\<exists>l a n. settled_inv l a n (run_page acts w))"
  proof -
    have "\<not> early_inv l a w" for l a using e by (auto simp: early_inv_def early_stage_def Let_def)
    then have "pending_inv w \<or> (\<exists>l a n. settled_inv l a n w)" using i by (auto simp: deferred_inv_def)
    then show ?thesis using pending_same [OF _ s] settled_same [OF _ s] by blast
  qed
  then show ?thesis using i w by (auto simp: deferred_inv_def flags_ok_def progress_ok_def run_page_def)
qed

lemma new_deferred_flags: "flags_ok new_deferred"
proof -
  have "cb_flags (lists (fresh_world dlist_flags Pending :: 'a deferred) l) =
      \<lparr>f_once = (l \<noteq> ProgressL), f_memory = True, f_unique = False, f_stop = False\<rparr>" for l
    by (cases l) (simp_all add: callbacks_def create_flags_def words_flags)
  then show ?thesis by (simp only: new_deferred_def flags_ok_def flags_perform) simp
qed

lemma new_deferred_lists:
  "lists new_deferred DoneL = (callbacks ''once memory'')\<lparr>cb_list := Some [0, 1, 2]\<rparr>"
  "lists new_deferred FailL = (callbacks ''once memory'')\<lparr>cb_list := Some [3, 4, 2]\<rparr>"
  "lists new_deferred ProgressL = callbacks ''memory''"
  "added new_deferred DoneL = [0, 1, 2]" "added new_deferred FailL = [3, 4, 2]" "frames new_deferred = []"
  "call_log new_deferred = []" "var new_deferred = Pending" "type_error new_deferred = False" "threw new_deferred = False"
  by (simp_all add: new_deferred_def callbacks_def create_flags_def words_flags start_loop_def cb_add_def set_list_def cb_disabled_def
      add_fns_def Let_def) (simp_all add: fresh_world_def)

lemma deferred_new: "deferred_inv (new_deferred :: 'a deferred)"
proof -
  have off: "\<not> cb_firing (lists (new_deferred :: 'a deferred) l)" for l by (cases l) (simp_all add: new_deferred_lists callbacks_def)
  have lo: "list_ok (lists (new_deferred :: 'a deferred) l)" for l by (simp add: list_ok_def off)
  have "world_ok (new_deferred :: 'a deferred)"
    by (simp add: world_ok_def lo off new_deferred_lists(6,9) frames_ok_def no_loops_def)
  moreover have "pending_inv (new_deferred :: 'a deferred)"
    by (simp add: pending_inv_def untouched_def new_deferred_lists callbacks_def calls_of_def users_added_def)
  moreover have "progress_ok (new_deferred :: 'a deferred)" by (simp add: progress_ok_def new_deferred_lists callbacks_def)
  ultimately show ?thesis using new_deferred_flags by (simp add: deferred_inv_def)
qed

lemma deferred_reachable:
  "cb_reachable (deferred_body user) promise_act new_deferred w \<Longrightarrow> user_ok user \<Longrightarrow> deferred_inv w"
  by (induction rule: cb_reachable.induct) (auto intro: deferred_new deferred_step deferred_page)

lemma early_calls: "early_inv l a w \<Longrightarrow> calls_of (opp l) w = [] \<and> (\<exists>n. calls_of l w = map (\<lambda>f. (f, a)) (take n (added w l))) \<and> l \<noteq> ProgressL \<and> frames w \<noteq> []"
  by (auto simp: early_inv_def untouched_def early_stage_def Let_def)

lemma settled_calls:
  assumes "settled_inv l a n w" "world_ok w"
  shows "calls_of (opp l) w = []" "calls_of l w = map (\<lambda>f. (f, a)) (take n (added w l))" "l \<noteq> ProgressL"
    "frames w = [] \<Longrightarrow> \<not> threw w \<Longrightarrow> calls_of l w = map (\<lambda>f. (f, a)) (added w l) \<and> var w = settled l"
proof -
  show "calls_of (opp l) w = []" "calls_of l w = map (\<lambda>f. (f, a)) (take n (added w l))" "l \<noteq> ProgressL"
    using assms(1) by (simp_all add: settled_inv_def closed_def batch_def)
  assume "frames w = []" "\<not> threw w"
  then have "\<not> cb_firing (lists w l)" using assms(2) by (auto simp: world_ok_def)
  then show "calls_of l w = map (\<lambda>f. (f, a)) (added w l) \<and> var w = settled l"
    using assms(1) by (auto simp: settled_inv_def batch_def batch_at_def)
qed

text \<open>C18: Whatever the callbacks do through a deferred, it settles at most once: of the done and the fail
  callbacks only one kind is ever called, in the order they were added, each once and all with
  the same values; and when everything has run and nothing was thrown, a resolved deferred has
  called every done callback added so far, a rejected one every fail callback, a pending one none.\<close>

theorem deferred_settles_once:
  assumes "cb_reachable (deferred_body user) promise_act new_deferred w" and "user_ok user"
  shows "(calls_of DoneL w = [] \<or> calls_of FailL w = []) \<and>
    (\<exists>a n. calls_of DoneL w = map (\<lambda>f. (f, a)) (take n (added w DoneL))) \<and>
    (\<exists>a n. calls_of FailL w = map (\<lambda>f. (f, a)) (take n (added w FailL))) \<and>
    (frames w = [] \<and> \<not> threw w \<longrightarrow>
      (case var w of
         Pending \<Rightarrow> calls_of DoneL w = [] \<and> calls_of FailL w = []
       | Resolved \<Rightarrow> (\<exists>a. calls_of DoneL w = map (\<lambda>f. (f, a)) (added w DoneL))
       | Rejected \<Rightarrow> (\<exists>a. calls_of FailL w = map (\<lambda>f. (f, a)) (added w FailL))))"
proof -
  have i: "deferred_inv w" by (rule deferred_reachable [OF assms])
  then consider (pending) "pending_inv w" | (early) l a where "early_inv l a w" | (settled) l a n where "settled_inv l a n w" "world_ok w"
    by (auto simp: deferred_inv_def)
  then show ?thesis
  proof cases
    case pending
    then have "calls_of DoneL w = []" "calls_of FailL w = []" "var w = Pending" by (simp_all add: pending_inv_def untouched_def)
    then show ?thesis by auto
  next
    case early
    then have "calls_of (opp l) w = map (\<lambda>f. (f, a)) (take 0 (added w (opp l)))" using early_calls [OF early] by simp
    then show ?thesis using early_calls [OF early] by (cases l) auto
  next
    case settled
    note c = settled_calls [OF settled]
    have "calls_of (opp l) w = map (\<lambda>f. (f, a)) (take 0 (added w (opp l)))" using c(1) by simp
    then show ?thesis using c by (cases l) auto
  qed
qed

text \<open>A page that resolves a deferred from a callback that also adds another one.\<close>

definition page_user :: "nat \<Rightarrow> nat \<Rightarrow> nat dact list \<times> cb_outcome" where
  "page_user f a = (if f = 5 then [ActAdd DoneL [ArgFn 6], ActFire FailL 1, ActFire DoneL 2] else [], Returns)"

definition page_run :: "nat deferred" where
  "page_run = cb_run 40 (deferred_body page_user) (run_page [ActAdd DoneL [ArgFn 5], ActFire DoneL 9, ActAdd DoneL [ArgFn 7]] new_deferred)"

theorem deferred_settles_once_witness:
  "(calls_of DoneL page_run = [] \<or> calls_of FailL page_run = []) \<and>
   (\<exists>a n. calls_of DoneL page_run = map (\<lambda>f. (f, a)) (take n (added page_run DoneL)))"
proof -
  have u: "user_ok page_user" by (simp add: user_ok_def page_user_def promise_act_def user_fns_def)
  have "cb_reachable (deferred_body page_user) promise_act new_deferred
      (run_page [ActAdd DoneL [ArgFn 5], ActFire DoneL 9, ActAdd DoneL [ArgFn 7]] new_deferred)"
    by (rule cb_page [OF cb_init]) (simp_all add: promise_act_def user_fns_def new_deferred_lists)
  then have "cb_reachable (deferred_body page_user) promise_act new_deferred page_run"
    unfolding page_run_def by (rule cb_run_reachable)
  from deferred_settles_once [OF this u] show ?thesis by blast
qed

end
