(* ===== verification/Ui_Position.thy ===== *)
theory Ui_Position
  imports Complex_Main Js_Prelude Bounded_Value
begin

text \<open>
  Placing one element at another, \<open>jquery.ui.position.js\<close>: the options \<open>my\<close>, \<open>at\<close>, \<open>of\<close>,
  \<open>offset\<close> and \<open>collision\<close>, the point of the target, the point of each element, and what \<open>fit\<close>
  and \<open>flip\<close> do with an element that would leave the window.  Lengths are rationals; both axes
  run the same code with their own words, so the model has it once with the words as arguments.
  Sizes, margins and the window are what the browser reports.
\<close>

section \<open>Options\<close>

text \<open>\<open>of\<close>: nothing given, a selector that matches nothing, or a target.  A missing string is empty.\<close>

datatype pos_target =
    TargetDocument rat rat
  | TargetWindow rat rat rat rat
  | TargetEvent rat rat
  | TargetElement rat rat rat rat

datatype pos_of = NoTarget | NoMatch | AtTarget pos_target

record pos_options =
  opt_my :: string
  opt_at :: string
  opt_of :: pos_of
  opt_offset :: string
  opt_collision :: string

text \<open>\<open>s.split (' ')\<close>: the pieces between single blanks, empty ones included.\<close>

fun split_blank :: "string \<Rightarrow> string list" where
  "split_blank [] = [[]]"
| "split_blank (c # s) =
     (if c = CHR '' '' then [] # split_blank s
      else (case split_blank s of w # ws \<Rightarrow> (c # w) # ws | [] \<Rightarrow> [[c]]))"

text \<open>The tests of the two regular expressions, which look for the words anywhere in a piece.\<close>

fun has_word :: "string \<Rightarrow> string \<Rightarrow> bool" where
  "has_word w [] \<longleftrightarrow> w = []"
| "has_word w (c # s) \<longleftrightarrow> take (length w) (c # s) = w \<or> has_word w s"

definition horizontal :: "string \<Rightarrow> bool" where
  "horizontal s \<longleftrightarrow> has_word ''left'' s \<or> has_word ''center'' s \<or> has_word ''right'' s"

definition vertical_word :: "string \<Rightarrow> bool" where
  "vertical_word s \<longleftrightarrow> has_word ''top'' s \<or> has_word ''center'' s \<or> has_word ''bottom'' s"

definition normal_pos :: "string \<Rightarrow> string \<times> string" where
  "normal_pos s =
     (let ws = split_blank s;
          (x, y) = (if length ws = 1
            then (if horizontal (hd ws) then (hd ws, ''center'')
                  else if vertical_word (hd ws) then (''center'', hd ws) else (''center'', ''center''))
            else (ws ! 0, ws ! 1))
      in (if horizontal x then x else ''center'', if vertical_word y then y else ''center''))"

definition normal_collision :: "string \<Rightarrow> string \<times> string" where
  "normal_collision s =
     (let ws = split_blank (if s = [] then ''flip'' else s)
      in if length ws = 1 then (hd ws, hd ws) else (ws ! 0, ws ! 1))"

definition int_or_zero :: "string \<Rightarrow> rat" where
  "int_or_zero s = (case js_parse_int s of Some i \<Rightarrow> of_int i | None \<Rightarrow> 0)"

definition normal_offset :: "string \<Rightarrow> rat \<times> rat" where
  "normal_offset s =
     (if s = [] then (0, 0)
      else (let ws = split_blank s; x = int_or_zero (hd ws)
            in (x, if length ws = 1 then x else int_or_zero (ws ! 1))))"

section \<open>The target\<close>

fun target_size :: "pos_target \<Rightarrow> rat \<times> rat" where
  "target_size (TargetDocument w h) = (w, h)"
| "target_size (TargetWindow w h x y) = (w, h)"
| "target_size (TargetEvent x y) = (0, 0)"
| "target_size (TargetElement w h x y) = (w, h)"

fun target_origin :: "pos_target \<Rightarrow> rat \<times> rat" where
  "target_origin (TargetDocument w h) = (0, 0)"
| "target_origin (TargetWindow w h x y) = (x, y)"
| "target_origin (TargetEvent x y) = (x, y)"
| "target_origin (TargetElement w h x y) = (x, y)"

definition at_words :: "pos_options \<Rightarrow> pos_target \<Rightarrow> string \<times> string" where
  "at_words opts t = normal_pos (case t of TargetEvent x y \<Rightarrow> ''left top'' | _ \<Rightarrow> opt_at opts)"

text \<open>How far along a box a word lies: \<open>far\<close> is \<open>right\<close> or \<open>bottom\<close>.\<close>

definition along :: "string \<Rightarrow> string \<Rightarrow> rat \<Rightarrow> rat" where
  "along far w len = (if w = far then len else if w = ''center'' then len / 2 else 0)"

definition base_position :: "pos_options \<Rightarrow> pos_target \<Rightarrow> rat \<times> rat" where
  "base_position opts t =
     (fst (target_origin t) + along ''right'' (fst (at_words opts t)) (fst (target_size t)) + fst (normal_offset (opt_offset opts)),
      snd (target_origin t) + along ''bottom'' (snd (at_words opts t)) (snd (target_size t)) + snd (normal_offset (opt_offset opts)))"

section \<open>An element\<close>

record pos_elem =
  outer_width :: rat
  outer_height :: rat
  margin_left :: rat
  margin_right :: rat
  margin_top :: rat
  margin_bottom :: rat

record pos_window =
  win_width :: rat
  win_height :: rat
  win_left :: rat
  win_top :: rat

text \<open>\<open>Math.round\<close>, unless the browser places elements at fractions of a pixel.\<close>

definition round_unless :: "bool \<Rightarrow> rat \<Rightarrow> rat" where
  "round_unless fractions x = (if fractions then x else of_int \<lfloor>x + 1 / 2\<rfloor>)"

definition unconstrained :: "bool \<Rightarrow> string \<Rightarrow> string \<Rightarrow> rat \<Rightarrow> rat \<Rightarrow> rat" where
  "unconstrained fractions far my base len = round_unless fractions (base - along far my len)"

text \<open>
  \<open>$.ui.position.fit\<close> and \<open>$.ui.position.flip\<close> for one axis: the position, the position and the
  size of the collision box (the element with its margins), and the window's size and scrolling.
\<close>

definition fit :: "rat \<Rightarrow> rat \<Rightarrow> rat \<Rightarrow> rat \<Rightarrow> rat \<Rightarrow> rat" where
  "fit win scroll csize cpos pos =
     (let over = cpos + csize - win - scroll
      in if over > 0 then pos - over else max (pos - cpos) pos)"

definition flip :: "string \<Rightarrow> string \<Rightarrow> string \<Rightarrow> string \<Rightarrow> rat \<Rightarrow> rat \<Rightarrow> rat \<Rightarrow> rat \<Rightarrow> rat \<Rightarrow> rat \<Rightarrow> rat \<Rightarrow> rat \<Rightarrow> rat" where
  "flip near far my aw esize tsize off win scroll csize cpos pos =
     (if aw = ''center'' then pos
      else (let over = cpos + csize - win - scroll;
                my_offset = (if my = near then - esize else if my = far then esize else 0);
                at_offset = (if aw = near then tsize else - tsize);
                offset = - 2 * off
            in pos + (if cpos < 0 then my_offset + at_offset + offset
                      else if over > 0 then my_offset + at_offset + offset else 0)))"

definition collide ::
  "string \<Rightarrow> string \<Rightarrow> string \<Rightarrow> string \<Rightarrow> string \<Rightarrow> rat \<Rightarrow> rat \<Rightarrow> rat \<Rightarrow> rat \<Rightarrow> rat \<Rightarrow> rat \<Rightarrow> rat \<Rightarrow> rat \<Rightarrow> rat" where
  "collide kind near far my aw esize tsize off win scroll csize cpos pos =
     (if kind = ''fit'' then fit win scroll csize cpos pos
      else if kind = ''flip'' then flip near far my aw esize tsize off win scroll csize cpos pos
      else pos)"

definition place_left :: "bool \<Rightarrow> pos_options \<Rightarrow> pos_target \<Rightarrow> pos_window \<Rightarrow> pos_elem \<Rightarrow> rat" where
  "place_left fractions opts t v e =
     (let my = fst (normal_pos (opt_my opts));
          pos = unconstrained fractions ''right'' my (fst (base_position opts t)) (outer_width e)
      in collide (fst (normal_collision (opt_collision opts))) ''left'' ''right'' my (fst (at_words opts t))
           (outer_width e) (fst (target_size t)) (fst (normal_offset (opt_offset opts)))
           (win_width v) (win_left v) (outer_width e + margin_left e + margin_right e) (pos - margin_left e) pos)"

definition place_top :: "bool \<Rightarrow> pos_options \<Rightarrow> pos_target \<Rightarrow> pos_window \<Rightarrow> pos_elem \<Rightarrow> rat" where
  "place_top fractions opts t v e =
     (let my = snd (normal_pos (opt_my opts));
          pos = unconstrained fractions ''bottom'' my (snd (base_position opts t)) (outer_height e)
      in collide (snd (normal_collision (opt_collision opts))) ''top'' ''bottom'' my (snd (at_words opts t))
           (outer_height e) (snd (target_size t)) (snd (normal_offset (opt_offset opts)))
           (win_height v) (win_top v) (outer_height e + margin_top e + margin_bottom e) (pos - margin_top e) pos)"

text \<open>
  \<open>$.fn.position\<close>: \<open>None\<close> leaves the work to jQuery's own \<open>position\<close>, a selector without a match
  ends in a TypeError, otherwise every element gets its place.
\<close>

definition position :: "bool \<Rightarrow> pos_options \<Rightarrow> pos_window \<Rightarrow> pos_elem list \<Rightarrow> (rat \<times> rat) list option js_result" where
  "position fractions opts v es =
     (case opt_of opts of
        NoTarget \<Rightarrow> Inr None
      | NoMatch \<Rightarrow> Inl TypeError
      | AtTarget t \<Rightarrow> Inr (Some (map (\<lambda>e. (place_left fractions opts t v e, place_top fractions opts t v e)) es)))"

section \<open>Fitting\<close>

text \<open>The offset of the collision box, as \<open>fit\<close> changes it, is clamped between 0 and the largest offset.\<close>

definition fit_box :: "rat \<Rightarrow> rat \<Rightarrow> rat" where
  "fit_box room cpos = fit room 0 0 cpos cpos"

lemma fit_box: "fit win scroll csize cpos pos = pos + (fit_box (win + scroll - csize) cpos - cpos)"
  by (simp add: fit_def fit_box_def Let_def max_def)

interpretation fit: bounded_value fit_box "\<lambda>room x. 0 \<le> x \<and> x \<le> room"
  by unfold_locales (auto simp: fit_box_def fit_def Let_def)

lemma fit_in_room:
  assumes "csize \<le> win + scroll"
  shows "0 \<le> fit win scroll csize (pos - m) pos - m \<and> fit win scroll csize (pos - m) pos - m + csize \<le> win + scroll"
    and "0 \<le> pos - m \<Longrightarrow> pos - m + csize \<le> win + scroll \<Longrightarrow> fit win scroll csize (pos - m) pos = pos"
proof -
  have "0 \<le> (0 :: rat) \<and> 0 \<le> win + scroll - csize" using assms by simp
  from fit.clamp_within [OF this, of "pos - m"]
  show "0 \<le> fit win scroll csize (pos - m) pos - m \<and> fit win scroll csize (pos - m) pos - m + csize \<le> win + scroll"
    by (simp add: fit_box)
  show "fit win scroll csize (pos - m) pos = pos" if "0 \<le> pos - m" "pos - m + csize \<le> win + scroll"
    using fit.clamp_id [of "pos - m" "win + scroll - csize"] that by (simp add: fit_box)
qed

lemma collision_fields [simp]:
  "at_words (opts\<lparr>opt_collision := c\<rparr>) t = at_words opts t"
  "base_position (opts\<lparr>opt_collision := c\<rparr>) t = base_position opts t"
  by (simp_all add: at_words_def base_position_def split: pos_target.split)

lemma place_free:
  "normal_collision c = (''none'', ''none'') \<Longrightarrow>
     place_left fractions (opts\<lparr>opt_collision := c\<rparr>) t v e =
       unconstrained fractions ''right'' (fst (normal_pos (opt_my opts))) (fst (base_position opts t)) (outer_width e)"
  "normal_collision c = (''none'', ''none'') \<Longrightarrow>
     place_top fractions (opts\<lparr>opt_collision := c\<rparr>) t v e =
       unconstrained fractions ''bottom'' (snd (normal_pos (opt_my opts))) (snd (base_position opts t)) (outer_height e)"
  by (simp_all add: place_left_def place_top_def collide_def)

text \<open>C19: With collision \<open>fit\<close> on both axes an element that is not larger than the part of the document up
  to the window's end is placed, margins included, between the document's origin and that end,
  and an element that needs no correction stays where \<open>my\<close>, \<open>at\<close> and \<open>offset\<close> put it.\<close>

theorem fit_stays_in_document:
  assumes "normal_collision (opt_collision opts) = (''fit'', ''fit'')"
    and "normal_collision c = (''none'', ''none'')"
    and "outer_width e + margin_left e + margin_right e \<le> win_width v + win_left v"
    and "outer_height e + margin_top e + margin_bottom e \<le> win_height v + win_top v"
    and "l = place_left fractions opts t v e" and "y = place_top fractions opts t v e"
    and "l0 = place_left fractions (opts\<lparr>opt_collision := c\<rparr>) t v e"
    and "y0 = place_top fractions (opts\<lparr>opt_collision := c\<rparr>) t v e"
  shows "0 \<le> l - margin_left e \<and> l + outer_width e + margin_right e \<le> win_left v + win_width v \<and>
    0 \<le> y - margin_top e \<and> y + outer_height e + margin_bottom e \<le> win_top v + win_height v \<and>
    (0 \<le> l0 - margin_left e \<and> l0 + outer_width e + margin_right e \<le> win_left v + win_width v \<longrightarrow> l = l0) \<and>
    (0 \<le> y0 - margin_top e \<and> y0 + outer_height e + margin_bottom e \<le> win_top v + win_height v \<longrightarrow> y = y0)"
proof -
  have l: "l = fit (win_width v) (win_left v) (outer_width e + margin_left e + margin_right e) (l0 - margin_left e) l0"
    and y: "y = fit (win_height v) (win_top v) (outer_height e + margin_top e + margin_bottom e) (y0 - margin_top e) y0"
    using assms(1,5,6) unfolding assms(7,8) place_free [OF assms(2)]
    by (simp_all add: place_left_def place_top_def collide_def Let_def)
  show ?thesis
    using fit_in_room [OF assms(3), of l0 "margin_left e"] fit_in_room [OF assms(4), of y0 "margin_top e"]
    unfolding l y by (simp add: algebra_simps)
qed

definition demo_opts :: pos_options where
  "demo_opts = \<lparr>opt_my = ''left top'', opt_at = ''right bottom'', opt_of = AtTarget (TargetElement 50 20 980 10),
     opt_offset = ''5'', opt_collision = ''fit''\<rparr>"

definition demo_elem :: pos_elem where
  "demo_elem = \<lparr>outer_width = 100, outer_height = 40, margin_left = 2, margin_right = 2, margin_top = 0, margin_bottom = 0\<rparr>"

definition demo_window :: pos_window where
  "demo_window = \<lparr>win_width = 1000, win_height = 600, win_left = 0, win_top = 0\<rparr>"

lemmas demo_words = normal_collision_def normal_pos_def normal_offset_def horizontal_def vertical_word_def int_or_zero_def
  js_parse_int_def is_blank_def is_digit_def parse_digits_def digit_val_def

lemma demo_collision:
  "normal_collision ''fit'' = (''fit'', ''fit'')" "normal_collision ''none'' = (''none'', ''none'')"
  "normal_collision ''flip'' = (''flip'', ''flip'')"
  by (simp_all add: normal_collision_def)

theorem fit_stays_in_document_witness:
  "0 \<le> place_left True demo_opts (TargetElement 50 20 980 10) demo_window demo_elem - 2 \<and>
   place_left True demo_opts (TargetElement 50 20 980 10) demo_window demo_elem + 102 \<le> 1000"
  using fit_stays_in_document [of demo_opts "''none''" demo_elem demo_window _ True "TargetElement 50 20 980 10", OF _ _ _ _ refl refl refl refl]
  by (simp add: demo_opts_def demo_elem_def demo_window_def demo_collision)

text \<open>The correction knows nothing of what is scrolled out of sight at the left or above.\<close>

theorem fit_ignores_scroll:
  "place_left True (demo_opts\<lparr>opt_at := ''left top''\<rparr>) (TargetElement 50 20 10 10) (demo_window\<lparr>win_left := 500\<rparr>) demo_elem = 15"
  by (simp add: demo_opts_def demo_elem_def demo_window_def place_left_def Let_def demo_words unconstrained_def round_unless_def
      base_position_def along_def at_words_def collide_def fit_def)

section \<open>Flipping\<close>

definition mirror :: "string \<Rightarrow> string \<Rightarrow> string \<Rightarrow> string" where
  "mirror near far w = (if w = near then far else if w = far then near else w)"

text \<open>Whether the box from \<open>lo\<close> of length \<open>len\<close> leaves the part of the document that ends at \<open>top\<close>.\<close>

definition overflows :: "rat \<Rightarrow> rat \<Rightarrow> rat \<Rightarrow> bool" where
  "overflows lo len end_of \<longleftrightarrow> lo < 0 \<or> lo + len > end_of"

lemma flip_axis:
  assumes "near \<noteq> far" "near \<noteq> ''center''" "far \<noteq> ''center''" "my \<in> {near, ''center'', far}" "aw \<in> {near, far}"
  shows "flip near far my aw esize tsize off win scroll csize cpos (org + along far aw tsize + off - along far my esize) =
    (if overflows cpos csize (win + scroll)
     then org + along far (mirror near far aw) tsize + - off - along far (mirror near far my) esize
     else org + along far aw tsize + off - along far my esize)"
  using assms by (auto simp: flip_def along_def mirror_def overflows_def Let_def)

text \<open>\<open>flip\<close> is the placement by the mirrored options: where the element would leave the document or the
  end of the window on an axis, it gets the place that the opposite words of \<open>my\<close> and \<open>at\<close> and the
  opposite offset give, and its own place elsewhere.\<close>

theorem flip_is_mirror:
  assumes "normal_collision (opt_collision opts) = (''flip'', ''flip'')"
    and "normal_collision (opt_collision opts') = (''none'', ''none'')"
    and "normal_collision c = (''none'', ''none'')"
    and "normal_pos (opt_my opts) = (mx, my)" and "at_words opts t = (ax, ay)" and "normal_offset (opt_offset opts) = (ox, oy)"
    and "mx \<in> {''left'', ''center'', ''right''}" and "my \<in> {''top'', ''center'', ''bottom''}"
    and "ax \<in> {''left'', ''right''}" and "ay \<in> {''top'', ''bottom''}"
    and "normal_pos (opt_my opts') = (mirror ''left'' ''right'' mx, mirror ''top'' ''bottom'' my)"
    and "at_words opts' t = (mirror ''left'' ''right'' ax, mirror ''top'' ''bottom'' ay)"
    and "normal_offset (opt_offset opts') = (- ox, - oy)"
    and "l0 = place_left True (opts\<lparr>opt_collision := c\<rparr>) t v e" and "y0 = place_top True (opts\<lparr>opt_collision := c\<rparr>) t v e"
  shows "place_left True opts t v e =
      (if overflows (l0 - margin_left e) (outer_width e + margin_left e + margin_right e) (win_width v + win_left v)
       then place_left True opts' t v e else l0) \<and>
    place_top True opts t v e =
      (if overflows (y0 - margin_top e) (outer_height e + margin_top e + margin_bottom e) (win_height v + win_top v)
       then place_top True opts' t v e else y0)"
  using assms(1,2,4-6,9-13) flip_axis [of "''left''" "''right''" mx ax] flip_axis [of "''top''" "''bottom''" my ay] assms(7,8)
  unfolding assms(14,15) place_free [OF assms(3)]
  by (simp add: place_left_def place_top_def collide_def Let_def unconstrained_def round_unless_def base_position_def)

definition demo_flip :: pos_options where
  "demo_flip = demo_opts\<lparr>opt_collision := ''flip''\<rparr>"

definition demo_flipped :: pos_options where
  "demo_flipped = demo_opts\<lparr>opt_my := ''right bottom'', opt_at := ''left top'', opt_offset := ''-5'', opt_collision := ''none''\<rparr>"

theorem flip_is_mirror_witness:
  "place_left True demo_flip (TargetElement 50 20 980 10) demo_window demo_elem =
   place_left True demo_flipped (TargetElement 50 20 980 10) demo_window demo_elem"
  using flip_is_mirror [of demo_flip demo_flipped "''none''" "''left''" "''top''" "TargetElement 50 20 980 10" "''right''" "''bottom''" 5 5
      _ demo_window demo_elem, OF _ _ _ _ _ _ _ _ _ _ _ _ _ refl refl]
  by (simp add: demo_flip_def demo_flipped_def demo_opts_def demo_elem_def demo_window_def demo_words at_words_def mirror_def
      overflows_def place_left_def place_top_def Let_def unconstrained_def round_unless_def base_position_def along_def collide_def)

text \<open>A word that is not valid but contains a valid one is kept, and then means \<open>left\<close> or \<open>top\<close>.\<close>

theorem invalid_word_kept: "normal_pos ''rightmost top'' = (''rightmost'', ''top'')"
  by (simp add: demo_words)

end
