(* ===== verification/Ui_Progressbar.thy ===== *)
theory Ui_Progressbar
  imports Complex_Main Js_Prelude Bounded_Value
begin

text \<open>
  The progress bar, \<open>jquery.ui.progressbar.js\<close>.  The options hold whatever the page put there:
  a number, \<open>NaN\<close>, or something that is no number; \<open>max\<close> is taken to be a number.  Numbers are
  rationals, \<open>None\<close> is \<open>NaN\<close>.  The handlers of the events do not call back into the widget.
\<close>

section \<open>State\<close>

datatype pb_option = PbNumber rat | PbNaN | PbOther

datatype pb_event = PbChange | PbComplete

record progressbar =
  pb_value :: pb_option
  pb_max :: rat
  pb_disabled :: bool
  old_value :: "rat option"
  pb_shown :: bool
  pb_full :: bool
  pb_width :: "int option"
  aria_now :: "rat option"
  aria_max :: rat
  pb_log :: "pb_event list"

text \<open>\<open>_value\<close>: limited to what lies between 0 and \<open>max\<close>.\<close>

definition pb_clamp :: "rat \<Rightarrow> rat \<Rightarrow> rat" where
  "pb_clamp mx v = min mx (max 0 v)"

definition pb_get :: "progressbar \<Rightarrow> rat option" where
  "pb_get p = (case pb_value p of PbNumber v \<Rightarrow> Some (pb_clamp (pb_max p) v) | PbNaN \<Rightarrow> None | PbOther \<Rightarrow> Some (pb_clamp (pb_max p) 0))"

text \<open>\<open>_percentage\<close>: with a \<open>max\<close> of 0 the quotient 0/0.\<close>

definition percentage :: "progressbar \<Rightarrow> rat option" where
  "percentage p = (if pb_max p = 0 then None else map_option (\<lambda>v. 100 * v / pb_max p) (pb_get p))"

text \<open>\<open>percentage.toFixed (0)\<close>, of a percentage that is not negative.\<close>

definition to_fixed0 :: "rat \<Rightarrow> int" where
  "to_fixed0 x = \<lfloor>x + 1 / 2\<rfloor>"

section \<open>Operations\<close>

definition pb_refresh :: "progressbar \<Rightarrow> progressbar" where
  "pb_refresh p =
     (let v = pb_get p;
          p1 = (if old_value p = v \<and> v \<noteq> None then p else p\<lparr>old_value := v, pb_log := pb_log p @ [PbChange]\<rparr>)
      in p1\<lparr>pb_shown := (case v of Some x \<Rightarrow> x > 0 | None \<Rightarrow> False), pb_full := (v = Some (pb_max p)),
            pb_width := map_option to_fixed0 (percentage p), aria_now := v\<rparr>)"

definition pb_create :: "pb_option \<Rightarrow> rat \<Rightarrow> bool \<Rightarrow> progressbar" where
  "pb_create v mx dis =
     (let p = \<lparr>pb_value = v, pb_max = mx, pb_disabled = dis, old_value = None, pb_shown = False, pb_full = False,
               pb_width = None, aria_now = None, aria_max = mx, pb_log = []\<rparr>
      in pb_refresh (p\<lparr>aria_now := pb_get p, old_value := pb_get p\<rparr>))"

datatype pb_change = PbSetValue pb_option | PbSetMax rat | PbSetDisabled bool

text \<open>
  \<open>_setOption\<close>: a value is stored, drawn and perhaps announced as complete; the widget's own
  \<open>_setOption\<close> then stores any option (the value once more).
\<close>

definition pb_set_option :: "pb_change \<Rightarrow> progressbar \<Rightarrow> progressbar" where
  "pb_set_option c p =
     (case c of
        PbSetValue v \<Rightarrow>
          (let p1 = pb_refresh (p\<lparr>pb_value := v\<rparr>)
           in if pb_get p1 = Some (pb_max p1) then p1\<lparr>pb_log := pb_log p1 @ [PbComplete]\<rparr> else p1)
      | PbSetMax m \<Rightarrow> p\<lparr>pb_max := m\<rparr>
      | PbSetDisabled b \<Rightarrow> p\<lparr>pb_disabled := b\<rparr>)"

text \<open>\<open>value (newValue)\<close>, and without an argument the value.\<close>

definition pb_call_value :: "pb_option option \<Rightarrow> progressbar \<Rightarrow> progressbar \<times> rat option" where
  "pb_call_value arg p =
     (case arg of None \<Rightarrow> (p, pb_get p) | Some v \<Rightarrow> (pb_set_option (PbSetValue v) p, None))"

section \<open>What is drawn\<close>

interpretation progress: bounded_value pb_clamp "\<lambda>mx v. 0 \<le> v \<and> v \<le> mx"
  by unfold_locales (auto simp: pb_clamp_def)

text \<open>The drawing agrees with the option.\<close>

definition in_sync :: "progressbar \<Rightarrow> bool" where
  "in_sync p \<longleftrightarrow> old_value p = pb_get p \<and> aria_now p = pb_get p \<and> pb_shown p = (\<exists>x. pb_get p = Some x \<and> x > 0) \<and>
     pb_full p = (pb_get p = Some (pb_max p)) \<and> pb_width p = map_option to_fixed0 (percentage p)"

lemma pb_get_update [simp]:
  "pb_get (p\<lparr>pb_log := es\<rparr>) = pb_get p" "pb_get (p\<lparr>pb_disabled := b\<rparr>) = pb_get p" "pb_get (p\<lparr>old_value := x\<rparr>) = pb_get p"
  "pb_get (p\<lparr>aria_now := x\<rparr>) = pb_get p" "pb_get (p\<lparr>pb_shown := b\<rparr>) = pb_get p" "pb_get (p\<lparr>pb_full := b\<rparr>) = pb_get p"
  "pb_get (p\<lparr>pb_width := w\<rparr>) = pb_get p" "pb_get (p\<lparr>pb_value := PbNumber v\<rparr>) = Some (pb_clamp (pb_max p) v)"
  by (simp_all add: pb_get_def split: pb_option.split)

lemma pb_fields [simp]:
  "pb_get (pb_refresh p) = pb_get p" "pb_max (pb_refresh p) = pb_max p" "percentage (pb_refresh p) = percentage p"
  "pb_value (pb_refresh p) = pb_value p"
  by (simp_all add: pb_refresh_def Let_def percentage_def)

lemma in_sync_refresh: "in_sync (pb_refresh p)"
  by (auto simp: in_sync_def pb_refresh_def Let_def percentage_def split: option.splits)

lemma in_sync_log: "in_sync (p\<lparr>pb_log := es\<rparr>) = in_sync p" "in_sync (p\<lparr>pb_disabled := b\<rparr>) = in_sync p"
  by (simp_all add: in_sync_def percentage_def)

text \<open>Uses of the bar that leave \<open>max\<close> alone.\<close>

inductive pb_reachable :: "rat \<Rightarrow> progressbar \<Rightarrow> bool" for mx where
  pb_start: "pb_reachable mx (pb_create v mx dis)"
| pb_value: "pb_reachable mx p \<Longrightarrow> pb_reachable mx (pb_set_option (PbSetValue v) p)"
| pb_disable: "pb_reachable mx p \<Longrightarrow> pb_reachable mx (pb_set_option (PbSetDisabled b) p)"

lemma pb_reachable_sync: "pb_reachable mx p \<Longrightarrow> in_sync p \<and> pb_max p = mx"
proof (induction rule: pb_reachable.induct)
  case (pb_start v dis)
  show ?case by (simp add: pb_create_def Let_def in_sync_refresh)
next
  case (pb_value p v)
  then show ?case by (simp add: pb_set_option_def Let_def in_sync_refresh in_sync_log)
qed (simp add: pb_set_option_def in_sync_log)

lemma width_bounds:
  assumes "0 < mx" "0 \<le> x" "x \<le> mx"
  shows "0 \<le> to_fixed0 (100 * x / mx) \<and> to_fixed0 (100 * x / mx) \<le> 100"
proof -
  have "0 \<le> 100 * x / mx" "100 * x / mx \<le> 100" using assms by (simp_all add: field_simps)
  then show ?thesis by (simp add: to_fixed0_def le_floor_iff floor_le_iff)
qed

text \<open>As long as \<open>max\<close>, a positive number, is left alone, the bar shows its value: a value of the page that
  is a number is drawn as a width between 0 and 100 percent, hidden at 0 and marked full at \<open>max\<close>,
  and setting it raises \<open>change\<close> exactly when the limited value changes and \<open>complete\<close> exactly
  when it is \<open>max\<close>.\<close>

theorem progress_in_sync:
  assumes "pb_reachable mx p" and "0 < mx"
    and "q = pb_set_option (PbSetValue (PbNumber v)) p"
  shows "pb_get q = Some (pb_clamp mx v) \<and> (\<exists>w. pb_width q = Some w \<and> 0 \<le> w \<and> w \<le> 100) \<and>
    pb_shown q = (0 < v) \<and> pb_full q = (mx \<le> v) \<and>
    pb_log q = pb_log p @ (if pb_get p = Some (pb_clamp mx v) then [] else [PbChange]) @ (if mx \<le> v then [PbComplete] else [])"
proof -
  have mx: "pb_max p = mx" and old: "old_value p = pb_get p"
    using pb_reachable_sync [OF assms(1)] by (simp_all add: in_sync_def)
  have c: "0 \<le> pb_clamp mx v" "pb_clamp mx v \<le> mx" "(0 < pb_clamp mx v) = (0 < v)" "(pb_clamp mx v = mx) = (mx \<le> v)"
    using assms(2) by (auto simp: pb_clamp_def)
  define r where "r = pb_refresh (p\<lparr>pb_value := PbNumber v\<rparr>)"
  have r: "pb_get r = Some (pb_clamp mx v)" "pb_max r = mx" by (simp_all add: r_def mx)
  have q: "q = (if mx \<le> v then r\<lparr>pb_log := pb_log r @ [PbComplete]\<rparr> else r)"
    using r c(4) by (simp add: assms(3) pb_set_option_def Let_def r_def [symmetric])
  have look: "pb_shown r = (0 < v)" "pb_full r = (mx \<le> v)" "pb_width r = Some (to_fixed0 (100 * pb_clamp mx v / mx))"
    using in_sync_refresh [of "p\<lparr>pb_value := PbNumber v\<rparr>"] r c assms(2)
    by (simp_all add: r_def [symmetric] in_sync_def percentage_def)
  have log: "pb_log r = pb_log p @ (if pb_get p = Some (pb_clamp mx v) then [] else [PbChange])"
    by (simp add: r_def pb_refresh_def Let_def mx old)
  show ?thesis using width_bounds [OF assms(2) c(1,2)] r look log by (simp add: q)
qed

theorem progress_in_sync_witness:
  "pb_shown (pb_set_option (PbSetValue (PbNumber 250)) (pb_create (PbNumber 0) 200 False)) \<and>
   pb_full (pb_set_option (PbSetValue (PbNumber 250)) (pb_create (PbNumber 0) 200 False))"
  using progress_in_sync [OF pb_start [of 200 "PbNumber 0" False] _ refl, of 250] by simp

text \<open>Setting \<open>max\<close> draws nothing: the bar stays full although its value is half of the new maximum.\<close>

theorem max_not_redrawn:
  "pb_full (pb_set_option (PbSetMax 200) (pb_create (PbNumber 100) 100 False)) \<and>
   \<not> in_sync (pb_set_option (PbSetMax 200) (pb_create (PbNumber 100) 100 False))"
  by (simp add: pb_set_option_def pb_create_def pb_refresh_def Let_def in_sync_def pb_get_def pb_clamp_def)

end
