(* ===== verification/Ui_Selectable.thy ===== *)
theory Ui_Selectable
  imports Complex_Main Ui_Mouse
begin

text \<open>
  The lasso, \<open>jquery.ui.selectable.js\<close>, over the mouse gestures of \<open>Ui_Mouse\<close>.  Each item keeps
  its state twice, as the script does: in the record stored with the element and in the classes
  of the element.  The items are the elements that match the filter, taken to be the same from
  creation on; their boxes, measured by \<open>refresh\<close>, and the modifier keys come with the event.
\<close>

section \<open>State\<close>

datatype tolerance = Touch | FitIn | OtherTolerance

record sel_item =
  it_left :: rat
  it_top :: rat
  it_right :: rat
  it_bottom :: rat
  startselected :: bool
  it_selected :: bool
  it_selecting :: bool
  it_unselecting :: bool
  c_selected :: bool
  c_selecting :: bool
  c_unselecting :: bool

datatype sel_event =
    SelStart
  | Selecting nat
  | Unselecting nat
  | Selected nat
  | Unselected nat
  | SelStop

record selectable =
  sel_disabled :: bool
  auto_refresh :: bool
  sel_tolerance :: tolerance
  sel_dragged :: bool
  sel_opos :: "int \<times> int"
  sel_items :: "sel_item list"
  helper_box :: "(int \<times> int \<times> int \<times> int) option"
  sel_log :: "sel_event list"

text \<open>
  An event: the modifier keys (\<open>metaKey || ctrlKey\<close>), the item found among the target and its
  ancestors, the place in the viewport, and the box (left, top, width, height) of each item.
\<close>

record sel_press = mouse_event +
  meta :: bool
  on_item :: "nat option"
  client_pos :: "int \<times> int"
  item_box :: "nat \<Rightarrow> rat \<times> rat \<times> rat \<times> rat"

section \<open>Operations\<close>

text \<open>One pass over the items, \<open>each\<close>: the new items and the events raised.\<close>

definition sweep :: "(nat \<Rightarrow> sel_item \<Rightarrow> sel_item \<times> sel_event list) \<Rightarrow> selectable \<Rightarrow> selectable" where
  "sweep f s =
     (let rs = map (\<lambda>i. f i (sel_items s ! i)) [0..<length (sel_items s)]
      in s\<lparr>sel_items := map fst rs, sel_log := sel_log s @ concat (map snd rs)\<rparr>)"

definition refresh_item :: "rat \<times> rat \<times> rat \<times> rat \<Rightarrow> sel_item \<Rightarrow> sel_item" where
  "refresh_item b it =
     (case b of (l, t, w, h) \<Rightarrow>
       it\<lparr>it_left := l, it_top := t, it_right := l + w, it_bottom := t + h, startselected := False,
          it_selected := c_selected it, it_selecting := c_selecting it, it_unselecting := c_unselecting it\<rparr>)"

definition sel_refresh :: "(nat \<Rightarrow> rat \<times> rat \<times> rat \<times> rat) \<Rightarrow> selectable \<Rightarrow> selectable" where
  "sel_refresh boxes s = sweep (\<lambda>i it. (refresh_item (boxes i) it, [])) s"

definition start_item :: "bool \<Rightarrow> nat \<Rightarrow> sel_item \<Rightarrow> sel_item \<times> sel_event list" where
  "start_item m i it =
     (if c_selected it
      then (let it1 = it\<lparr>startselected := True\<rparr>
            in if \<not> m
               then (it1\<lparr>c_selected := False, it_selected := False, c_unselecting := True, it_unselecting := True\<rparr>, [Unselecting i])
               else (it1, []))
      else (it, []))"

definition target_item :: "bool \<Rightarrow> nat \<Rightarrow> sel_item \<Rightarrow> sel_item \<times> sel_event list" where
  "target_item m i it =
     (if \<not> m \<or> \<not> c_selected it
      then (it\<lparr>c_unselecting := False, c_selecting := True, it_unselecting := False, it_selecting := True, it_selected := True\<rparr>,
            [Selecting i])
      else (it\<lparr>c_selected := False, c_unselecting := True, it_unselecting := True, it_selecting := False, it_selected := False\<rparr>,
            [Unselecting i]))"

definition sel_start :: "sel_press \<Rightarrow> selectable \<Rightarrow> selectable" where
  "sel_start e s =
     (let s1 = s\<lparr>sel_opos := (ev_x e, ev_y e)\<rparr>
      in if sel_disabled s1 then s1
         else (let s2 = s1\<lparr>sel_log := sel_log s1 @ [SelStart],
                           helper_box := Some (fst (client_pos e), snd (client_pos e), 0, 0)\<rparr>;
                   s3 = (if auto_refresh s2 then sel_refresh (item_box e) s2 else s2);
                   s4 = sweep (start_item (meta e)) s3
               in case on_item e of
                    Some k \<Rightarrow> sweep (\<lambda>i it. if i = k then target_item (meta e) i it else (it, [])) s4
                  | None \<Rightarrow> s4))"

text \<open>The lasso between two points, as left, top, right and bottom, and whether it gets an item.\<close>

definition lasso :: "int \<times> int \<Rightarrow> int \<times> int \<Rightarrow> int \<times> int \<times> int \<times> int" where
  "lasso a b = (min (fst a) (fst b), min (snd a) (snd b), max (fst a) (fst b), max (snd a) (snd b))"

definition lasso_hits :: "tolerance \<Rightarrow> int \<times> int \<times> int \<times> int \<Rightarrow> sel_item \<Rightarrow> bool" where
  "lasso_hits tol box it =
     (case box of (x1, y1, x2, y2) \<Rightarrow>
       (case tol of
          Touch \<Rightarrow> \<not> (it_left it > of_int x2 \<or> it_right it < of_int x1 \<or> it_top it > of_int y2 \<or> it_bottom it < of_int y1)
        | FitIn \<Rightarrow> it_left it > of_int x1 \<and> it_right it < of_int x2 \<and> it_top it > of_int y1 \<and> it_bottom it < of_int y2
        | OtherTolerance \<Rightarrow> False))"

definition hit_item :: "nat \<Rightarrow> sel_item \<Rightarrow> sel_item \<times> sel_event list" where
  "hit_item i it =
     (let it1 = (if it_selected it then it\<lparr>c_selected := False, it_selected := False\<rparr> else it);
          it2 = (if it_unselecting it1 then it1\<lparr>c_unselecting := False, it_unselecting := False\<rparr> else it1)
      in if \<not> it_selecting it2 then (it2\<lparr>c_selecting := True, it_selecting := True\<rparr>, [Selecting i]) else (it2, []))"

definition missed_item :: "bool \<Rightarrow> nat \<Rightarrow> sel_item \<Rightarrow> sel_item \<times> sel_event list" where
  "missed_item m i it =
     (let (it1, ev) =
        (if it_selecting it
         then (let j = it\<lparr>c_selecting := False, it_selecting := False\<rparr>
               in if m \<and> startselected it then (j\<lparr>c_selected := True, it_selected := True\<rparr>, [])
                  else (if startselected it then j\<lparr>c_unselecting := True, it_unselecting := True\<rparr> else j, [Unselecting i]))
         else (it, []))
      in if it_selected it1 \<and> \<not> m \<and> \<not> startselected it1
         then (it1\<lparr>c_selected := False, it_selected := False, c_unselecting := True, it_unselecting := True\<rparr>, ev @ [Unselecting i])
         else (it1, ev))"

definition drag_item :: "tolerance \<Rightarrow> int \<times> int \<times> int \<times> int \<Rightarrow> bool \<Rightarrow> nat \<Rightarrow> sel_item \<Rightarrow> sel_item \<times> sel_event list" where
  "drag_item tol box m i it = (if lasso_hits tol box it then hit_item i it else missed_item m i it)"

definition sel_drag :: "sel_press \<Rightarrow> selectable \<Rightarrow> selectable" where
  "sel_drag e s =
     (let s1 = s\<lparr>sel_dragged := True\<rparr>
      in if sel_disabled s1 then s1
         else (case lasso (sel_opos s1) (ev_x e, ev_y e) of (x1, y1, x2, y2) \<Rightarrow>
                 sweep (drag_item (sel_tolerance s1) (x1, y1, x2, y2) (meta e))
                   (s1\<lparr>helper_box := Some (x1, y1, x2 - x1, y2 - y1)\<rparr>)))"

definition stop_unselect :: "nat \<Rightarrow> sel_item \<Rightarrow> sel_item \<times> sel_event list" where
  "stop_unselect i it =
     (if c_unselecting it
      then (it\<lparr>c_unselecting := False, it_unselecting := False, startselected := False\<rparr>, [Unselected i]) else (it, []))"

definition stop_select :: "nat \<Rightarrow> sel_item \<Rightarrow> sel_item \<times> sel_event list" where
  "stop_select i it =
     (if c_selecting it
      then (it\<lparr>c_selecting := False, c_selected := True, it_selecting := False, it_selected := True, startselected := True\<rparr>,
            [Selected i]) else (it, []))"

definition sel_stop :: "selectable \<Rightarrow> selectable" where
  "sel_stop s =
     (let s1 = sweep stop_select (sweep stop_unselect (s\<lparr>sel_dragged := False\<rparr>))
      in s1\<lparr>sel_log := sel_log s1 @ [SelStop], helper_box := None\<rparr>)"

text \<open>A new widget: the items with their boxes and the classes they already have.\<close>

definition sel_create :: "bool \<Rightarrow> bool \<Rightarrow> tolerance \<Rightarrow> ((rat \<times> rat \<times> rat \<times> rat) \<times> bool) list \<Rightarrow> selectable" where
  "sel_create disabled auto tol items =
     \<lparr>sel_disabled = disabled, auto_refresh = auto, sel_tolerance = tol, sel_dragged = False, sel_opos = (0, 0),
      sel_items = map (\<lambda>(b, sel). refresh_item b
        \<lparr>it_left = 0, it_top = 0, it_right = 0, it_bottom = 0, startselected = False, it_selected = False, it_selecting = False,
         it_unselecting = False, c_selected = sel, c_selecting = False, c_unselecting = False\<rparr>) items,
      helper_box = None, sel_log = []\<rparr>"

definition selectable_hooks :: "(unit sel_press_ext, selectable) mouse_hooks" where
  "selectable_hooks =
     \<lparr>capture_hook = (\<lambda>e s. Inr (s, True)), start_hook = (\<lambda>d e s. (sel_start d s, True, False)), drag_hook = (\<lambda>e s. (sel_drag e s, None)),
      stop_hook = (\<lambda>e s. sel_stop s)\<rparr>"

section \<open>Items between and during gestures\<close>

definition item_agrees :: "sel_item \<Rightarrow> bool" where
  "item_agrees it \<longleftrightarrow> it_selecting it = c_selecting it \<and> it_unselecting it = c_unselecting it \<and>
     (c_selected it \<longrightarrow> it_selected it \<and> \<not> c_selecting it)"

definition item_settled :: "sel_item \<Rightarrow> bool" where
  "item_settled it \<longleftrightarrow> \<not> c_selecting it \<and> \<not> c_unselecting it"

definition agrees :: "selectable \<Rightarrow> bool" where
  "agrees s \<longleftrightarrow> list_all item_agrees (sel_items s)"

definition settled_items :: "selectable \<Rightarrow> bool" where
  "settled_items s \<longleftrightarrow> list_all item_settled (sel_items s)"

lemma sweep_simps [simp]:
  "length (sel_items (sweep f s)) = length (sel_items s)"
  "i < length (sel_items s) \<Longrightarrow> sel_items (sweep f s) ! i = fst (f i (sel_items s ! i))"
  "sel_disabled (sweep f s) = sel_disabled s" "sel_tolerance (sweep f s) = sel_tolerance s" "sel_opos (sweep f s) = sel_opos s"
  "auto_refresh (sweep f s) = auto_refresh s"
  by (simp_all add: sweep_def Let_def)

lemma sweep_all:
  assumes "list_all P (sel_items s)" and "\<And>i it. P it \<Longrightarrow> Q (fst (f i it))"
  shows "list_all Q (sel_items (sweep f s))"
  using assms by (simp add: list_all_length)

lemma item_lemmas:
  "item_agrees (refresh_item b it) = (c_selected it \<longrightarrow> \<not> c_selecting it)"
  "item_agrees it \<Longrightarrow> item_agrees (fst (start_item m i it))"
  "item_agrees it \<Longrightarrow> \<not> (\<not> m \<and> c_selected it) \<Longrightarrow> item_agrees (fst (target_item m i it))"
  "item_agrees it \<Longrightarrow> item_agrees (fst (drag_item tol box m i it))"
  "item_agrees it \<Longrightarrow> item_agrees (fst (stop_unselect i it))"
  "item_agrees it \<Longrightarrow> item_agrees (fst (stop_select i it))"
  by (auto simp: item_agrees_def refresh_item_def start_item_def target_item_def drag_item_def hit_item_def missed_item_def
      stop_unselect_def stop_select_def Let_def split: prod.split)

lemma start_item_free: "\<not> (\<not> m \<and> c_selected (fst (start_item m i it)))"
  by (simp add: start_item_def Let_def)

text \<open>The box an item has during a gesture: measured at its start, or kept.\<close>

definition gesture_item :: "sel_press \<Rightarrow> selectable \<Rightarrow> nat \<Rightarrow> sel_item" where
  "gesture_item d s i = (if auto_refresh s then refresh_item (item_box d i) (sel_items s ! i) else sel_items s ! i)"

definition started_item :: "sel_press \<Rightarrow> selectable \<Rightarrow> nat \<Rightarrow> sel_item" where
  "started_item d s i =
     (let it = fst (start_item (meta d) i (gesture_item d s i))
      in if on_item d = Some i then fst (target_item (meta d) i it) else it)"

lemma sel_start_items:
  assumes "\<not> sel_disabled s"
  shows "length (sel_items (sel_start d s)) = length (sel_items s)"
    and "i < length (sel_items s) \<Longrightarrow> sel_items (sel_start d s) ! i = started_item d s i"
  using assms
  by (auto simp: sel_start_def Let_def started_item_def gesture_item_def sel_refresh_def split: option.split)

lemma item_agrees_started: "item_agrees (sel_items s ! i) \<Longrightarrow> item_agrees (started_item d s i)"
proof -
  assume a: "item_agrees (sel_items s ! i)"
  then have "item_agrees (gesture_item d s i)"
    using item_lemmas(1) [of "item_box d i" "sel_items s ! i"] by (simp add: gesture_item_def item_agrees_def)
  then show ?thesis
    using start_item_free by (auto simp: started_item_def Let_def intro!: item_lemmas(2,3))
qed

lemma agrees_start: "agrees s \<Longrightarrow> agrees (sel_start e s)"
proof (cases "sel_disabled s")
  case True
  then show "agrees s \<Longrightarrow> agrees (sel_start e s)" by (simp add: sel_start_def agrees_def)
next
  case False
  then show "agrees s \<Longrightarrow> agrees (sel_start e s)"
    by (simp add: agrees_def list_all_length sel_start_items item_agrees_started)
qed

lemma agrees_drag: "agrees s \<Longrightarrow> agrees (sel_drag e s)"
  unfolding sel_drag_def agrees_def Let_def
  by (auto intro!: sweep_all [of item_agrees] item_lemmas(4) split: prod.split)

lemma agrees_stop: "agrees s \<Longrightarrow> agrees (sel_stop s) \<and> settled_items (sel_stop s)"
proof -
  assume a: "agrees s"
  define P where "P it = (item_agrees it \<and> \<not> c_unselecting it)" for it
  have "list_all P (sel_items (sweep stop_unselect (s\<lparr>sel_dragged := False\<rparr>)))"
    using a unfolding agrees_def P_def by (intro sweep_all [of item_agrees]) (auto intro: item_lemmas(5), auto simp: stop_unselect_def split: if_splits)
  then have "list_all (\<lambda>it. item_agrees it \<and> item_settled it)
      (sel_items (sweep stop_select (sweep stop_unselect (s\<lparr>sel_dragged := False\<rparr>))))"
    unfolding P_def
    by (rule sweep_all) (auto intro: item_lemmas(6), auto simp: stop_select_def item_settled_def)
  then show ?thesis by (simp add: sel_stop_def Let_def agrees_def settled_items_def list_all_iff)
qed

interpretation lasso_widget: gesture_client selectable_hooks "\<lambda>e. True" agrees settled_items
  by unfold_locales (auto simp: selectable_hooks_def agrees_start agrees_drag agrees_stop)

lemma sel_create_ok: "agrees (sel_create dis auto tol items)" "settled_items (sel_create dis auto tol items)"
  by (auto simp: sel_create_def agrees_def settled_items_def list_all_iff refresh_item_def item_settled_def item_agrees_def)

text \<open>Whatever the mouse does on a selectable, the record of every item agrees with the classes of its
  element, and between gestures no item is left \<open>ui-selecting\<close> or \<open>ui-unselecting\<close>: every item a
  gesture touched has been settled as selected or not.\<close>

theorem selection_settles:
  assumes "mouse_reachable selectable_hooks (\<lambda>e. True) (mouse_widget d l (sel_create dis auto tol items)) m"
    and "it \<in> set (sel_items (widget m))"
  shows "it_selecting it = c_selecting it \<and> it_unselecting it = c_unselecting it \<and> (c_selected it \<longrightarrow> it_selected it) \<and>
    (\<not> started m \<longrightarrow> \<not> c_selecting it \<and> \<not> c_unselecting it)"
proof -
  have w: "widget (mouse_widget d l (sel_create dis auto tol items)) = sel_create dis auto tol items"
    by (simp add: mouse_widget_def)
  have a: "agrees (widget m)"
    using lasso_widget.reachable_keeps [OF assms(1)] sel_create_ok(1) by (simp add: w)
  have "\<not> started m \<longrightarrow> settled_items (widget m)"
    using lasso_widget.reachable_rests [OF assms(1)] sel_create_ok by (simp add: w)
  with a assms(2) show ?thesis
    by (auto simp: agrees_def settled_items_def item_agrees_def item_settled_def list_all_iff)
qed

definition demo_select :: selectable where
  "demo_select = sel_create False True Touch [((0, 0, 20, 20), False), ((0, 30, 20, 20), True)]"

definition sel_press_at :: "int \<Rightarrow> int \<Rightarrow> nat option \<Rightarrow> sel_press" where
  "sel_press_at x y k =
     \<lparr>ev_x = x, ev_y = y, ev_which = 1, ev_target = 0, ev_cancel = False, ev_lost = False, meta = False, on_item = k,
      client_pos = (x, y), item_box = (\<lambda>i. if i = 0 then (0, 0, 20, 20) else (0, 30, 20, 20))\<rparr>"

theorem selection_settles_witness:
  "\<exists>m it. mouse_reachable selectable_hooks (\<lambda>e. True) (mouse_widget 0 0 demo_select) m \<and> it \<in> set (sel_items (widget m)) \<and>
     it_selecting it = c_selecting it"
proof -
  have r: "mouse_reachable selectable_hooks (\<lambda>e. True)
      (mouse_widget 0 0 (sel_create False True Touch [((0, 0, 20, 20), False), ((0, 30, 20, 20), True)]))
      (mouse_widget 0 0 demo_select)"
    unfolding demo_select_def by (rule mouse_start)
  have i: "sel_items (widget (mouse_widget 0 0 demo_select :: (unit sel_press_ext, selectable) mouse)) ! 0
      \<in> set (sel_items (widget (mouse_widget 0 0 demo_select :: (unit sel_press_ext, selectable) mouse)))"
    by (rule nth_mem) (simp add: mouse_widget_def demo_select_def sel_create_def)
  from selection_settles [OF r i] i r show ?thesis unfolding demo_select_def [symmetric] by blast
qed

section \<open>What a gesture selects\<close>

text \<open>The items without what a gesture does to them: their boxes.\<close>

definition same_box :: "sel_item \<Rightarrow> sel_item \<Rightarrow> bool" where
  "same_box it it' \<longleftrightarrow> it_left it' = it_left it \<and> it_top it' = it_top it \<and> it_right it' = it_right it \<and> it_bottom it' = it_bottom it"

lemma same_box_hits: "same_box it it' \<Longrightarrow> lasso_hits tol b it' = lasso_hits tol b it"
  by (simp add: same_box_def lasso_hits_def split: prod.split tolerance.split)

lemma same_box_trans: "same_box a b \<Longrightarrow> same_box b c \<Longrightarrow> same_box a c"
  by (simp add: same_box_def)

lemma same_box_items:
  "same_box it (fst (start_item m i it))" "same_box it (fst (target_item m i it))" "same_box it (fst (drag_item tol b m i it))"
  by (auto simp: same_box_def start_item_def target_item_def drag_item_def hit_item_def missed_item_def Let_def split: prod.split)

text \<open>During a gesture without modifier keys: nothing is selected yet.\<close>

definition pending :: "sel_item \<Rightarrow> bool" where
  "pending it \<longleftrightarrow> item_agrees it \<and> \<not> c_selected it"

lemma pending_items:
  "item_agrees it \<Longrightarrow> pending (fst (start_item False i it))"
  "pending it \<Longrightarrow> pending (fst (target_item False i it))"
  "pending it \<Longrightarrow> pending (fst (drag_item tol b False i it))"
  "pending it \<Longrightarrow> c_selecting (fst (drag_item tol b False i it)) = lasso_hits tol b it"
  by (auto simp: pending_def item_agrees_def start_item_def target_item_def drag_item_def hit_item_def missed_item_def Let_def
      split: prod.split)

definition in_gesture :: "sel_press \<Rightarrow> selectable \<Rightarrow> selectable \<Rightarrow> bool" where
  "in_gesture d s t \<longleftrightarrow> \<not> sel_disabled t \<and> sel_tolerance t = sel_tolerance s \<and> sel_opos t = (ev_x d, ev_y d) \<and>
     length (sel_items t) = length (sel_items s) \<and>
     (\<forall>i < length (sel_items s). pending (sel_items t ! i) \<and> same_box (gesture_item d s i) (sel_items t ! i))"

lemma started_pending:
  "item_agrees (sel_items s ! i) \<Longrightarrow> \<not> meta d \<Longrightarrow> pending (started_item d s i) \<and> same_box (gesture_item d s i) (started_item d s i)"
proof -
  assume a: "item_agrees (sel_items s ! i)" and m: "\<not> meta d"
  have g: "item_agrees (gesture_item d s i)"
    using a item_lemmas(1) [of "item_box d i" "sel_items s ! i"] by (simp add: gesture_item_def item_agrees_def)
  then have p: "pending (fst (start_item False i (gesture_item d s i)))" by (rule pending_items(1))
  have b: "same_box (gesture_item d s i) (fst (start_item False i (gesture_item d s i)))" by (rule same_box_items)
  show ?thesis
    using p b pending_items(2) [OF p] same_box_trans [OF b same_box_items(2) [of _ False i]] m
    by (simp add: started_item_def Let_def)
qed

lemma sel_start_fields:
  "sel_disabled (sel_start d s) = sel_disabled s" "sel_tolerance (sel_start d s) = sel_tolerance s"
  "sel_opos (sel_start d s) = (ev_x d, ev_y d)"
  by (auto simp: sel_start_def Let_def sel_refresh_def split: option.split)

lemma in_gesture_start:
  assumes "agrees s" "\<not> sel_disabled s" "\<not> meta d"
  shows "in_gesture d s (sel_start d s)"
  using assms started_pending [OF _ assms(3)]
  by (auto simp: in_gesture_def sel_start_fields sel_start_items agrees_def list_all_length)

lemma sel_drag_items:
  assumes "\<not> sel_disabled t"
  shows "length (sel_items (sel_drag e t)) = length (sel_items t)"
    and "i < length (sel_items t) \<Longrightarrow> sel_items (sel_drag e t) ! i =
      fst (drag_item (sel_tolerance t) (lasso (sel_opos t) (ev_x e, ev_y e)) (meta e) i (sel_items t ! i))"
    and "sel_disabled (sel_drag e t) = sel_disabled t" "sel_tolerance (sel_drag e t) = sel_tolerance t"
    and "sel_opos (sel_drag e t) = sel_opos t"
  using assms by (simp_all add: sel_drag_def Let_def split: prod.split)

lemma in_gesture_drag:
  assumes "in_gesture d s t" "\<not> meta e"
  shows "in_gesture d s (sel_drag e t)"
proof -
  have "pending (sel_items (sel_drag e t) ! i) \<and> same_box (gesture_item d s i) (sel_items (sel_drag e t) ! i)"
    if "i < length (sel_items s)" for i
    using assms that pending_items(3) same_box_trans [OF _ same_box_items(3)]
    by (simp add: in_gesture_def sel_drag_items)
  then show ?thesis using assms by (simp add: in_gesture_def sel_drag_items)
qed

lemma in_gesture_drags:
  "in_gesture d s t \<Longrightarrow> list_all (\<lambda>e. \<not> meta e) es \<Longrightarrow> in_gesture d s (fold sel_drag es t)"
  by (induction es arbitrary: t) (simp_all add: in_gesture_drag)

lemma sel_stop_items:
  "length (sel_items (sel_stop t)) = length (sel_items t)"
  "i < length (sel_items t) \<Longrightarrow> c_selected (sel_items (sel_stop t) ! i) = (c_selecting (sel_items t ! i) \<or> c_selected (sel_items t ! i))"
  by (simp_all add: sel_stop_def Let_def stop_select_def stop_unselect_def)

lemma sel_stop_log:
  "\<exists>es. sel_log (sel_stop t) = es @ concat (map (\<lambda>i. if c_selecting (sel_items t ! i) then [Selected i] else [])
     [0..<length (sel_items t)]) @ [SelStop]"
proof -
  have "c_selecting (fst (stop_unselect i it)) = c_selecting it" for i it by (simp add: stop_unselect_def)
  moreover have "snd (stop_select i it) = (if c_selecting it then [Selected i] else [])" for i it
    by (simp add: stop_select_def)
  ultimately have "concat (map snd (map (\<lambda>i. stop_select i (sel_items (sweep stop_unselect (t\<lparr>sel_dragged := False\<rparr>)) ! i))
      [0..<length (sel_items t)])) = concat (map (\<lambda>i. if c_selecting (sel_items t ! i) then [Selected i] else [])
      [0..<length (sel_items t)])"
    by (intro arg_cong [of _ _ concat]) simp
  then show ?thesis
    by (intro exI [of _ "sel_log (sweep stop_unselect (t\<lparr>sel_dragged := False\<rparr>))"])
      (simp add: sel_stop_def Let_def sweep_def [of stop_select])
qed

text \<open>A gesture without modifier keys that drags the lasso at all leaves selected exactly the items that
  the lasso between the first and the last point hits by the rule of \<open>tolerance\<close>, whatever was
  selected before, and its last events are \<open>selected\<close> for each of these items and then \<open>stop\<close>.\<close>

theorem lasso_selects:
  assumes "agrees s" and "\<not> sel_disabled s" and "\<not> meta d" and "list_all (\<lambda>e. \<not> meta e) (es @ [e])"
    and "s' = sel_stop (fold sel_drag (es @ [e]) (sel_start d s))"
    and "hit = (\<lambda>i. lasso_hits (sel_tolerance s) (lasso (ev_x d, ev_y d) (ev_x e, ev_y e)) (gesture_item d s i))"
  shows "map c_selected (sel_items s') = map hit [0..<length (sel_items s)] \<and>
    (\<exists>before. sel_log s' = before @ map Selected (filter hit [0..<length (sel_items s)]) @ [SelStop])"
proof -
  define t where "t = fold sel_drag es (sel_start d s)"
  define u where "u = sel_drag e t"
  have t: "in_gesture d s t"
    using in_gesture_drags [OF in_gesture_start [OF assms(1-3)]] assms(4) by (simp add: t_def)
  have u: "in_gesture d s u" using in_gesture_drag [OF t] assms(4) by (simp add: u_def)
  have n: "length (sel_items u) = length (sel_items s)" using u by (simp add: in_gesture_def)
  have hit: "c_selecting (sel_items u ! i) = hit i" "\<not> c_selected (sel_items u ! i)" if i: "i < length (sel_items s)" for i
  proof -
    have p: "pending (sel_items t ! i)" "same_box (gesture_item d s i) (sel_items t ! i)" and
      o: "sel_tolerance t = sel_tolerance s" "sel_opos t = (ev_x d, ev_y d)" "\<not> sel_disabled t" "i < length (sel_items t)"
      using t i by (simp_all add: in_gesture_def)
    show "c_selecting (sel_items u ! i) = hit i"
      using pending_items(4) [OF p(1)] same_box_hits [OF p(2)] o assms(4) by (simp add: u_def sel_drag_items assms(6))
    show "\<not> c_selected (sel_items u ! i)" using u i by (simp add: in_gesture_def pending_def)
  qed
  have s': "s' = sel_stop u" by (simp add: assms(5) u_def t_def)
  have "map c_selected (sel_items s') = map hit [0..<length (sel_items s)]"
    by (rule nth_equalityI) (simp_all add: s' sel_stop_items n hit)
  moreover have "concat (map (\<lambda>i. if c_selecting (sel_items u ! i) then [Selected i] else []) [0..<length (sel_items u)]) =
      concat (map (\<lambda>i. if hit i then [Selected i] else []) [0..<length (sel_items s)])"
    by (intro arg_cong [of _ _ concat]) (simp add: n hit)
  moreover have "concat (map (\<lambda>i. if hit i then [Selected i] else []) xs) = map Selected (filter hit xs)" for xs
    by (induction xs) simp_all
  ultimately show ?thesis using sel_stop_log [of u] by (simp add: s')
qed

theorem lasso_selects_witness:
  "map c_selected (sel_items (sel_stop (sel_drag (sel_press_at 15 15 None) (sel_start (sel_press_at 1 1 (Some 0)) demo_select)))) =
     [True, False]"
proof -
  have d: "agrees demo_select" "\<not> sel_disabled demo_select" "\<not> meta (sel_press_at 1 1 (Some 0))"
    "list_all (\<lambda>e. \<not> meta e) ([] @ [sel_press_at 15 15 None])"
    using sel_create_ok(1) by (simp_all add: demo_select_def) (simp_all add: sel_create_def sel_press_at_def)
  have "map (\<lambda>i. lasso_hits (sel_tolerance demo_select) (lasso (1, 1) (15, 15)) (gesture_item (sel_press_at 1 1 (Some 0)) demo_select i))
      [0..<length (sel_items demo_select)] = [True, False]"
    by (simp add: demo_select_def sel_create_def sel_press_at_def lasso_hits_def lasso_def gesture_item_def refresh_item_def upt_rec)
  with lasso_selects [OF d refl refl] show ?thesis by (simp add: sel_press_at_def)
qed

text \<open>
  With the tolerance \<open>fit\<close> a press on an item that was not selected and a small drag end in
  \<open>unselected\<close> for this item, after two \<open>unselecting\<close> events: \<open>_mouseStart\<close> marks it selected
  as well as selecting.
\<close>

theorem unselected_never_selected:
  "sel_log (sel_stop (sel_drag (sel_press_at 6 6 None) (sel_start (sel_press_at 5 5 (Some 0))
     (sel_create False True FitIn [((0, 0, 20, 20), False)])))) =
     [SelStart, Selecting 0, Unselecting 0, Unselecting 0, Unselected 0, SelStop]"
  by (simp add: sel_create_def sel_press_at_def sel_start_def sel_drag_def sel_stop_def sweep_def sel_refresh_def start_item_def
      target_item_def drag_item_def missed_item_def stop_select_def stop_unselect_def lasso_hits_def lasso_def refresh_item_def Let_def)

end
