(* ===== verification/Ui_Droppable.thy ===== *)
theory Ui_Droppable
  imports Complex_Main Js_Prelude
begin

text \<open>
  Targets of drags, \<open>jquery.ui.droppable.js\<close>: the droppables of a page, the manager
  \<open>$.ui.ddmanager\<close> that keeps them by scope, and what the drag of an element does to them.  A
  droppable is named by its element, a number.  Where things are on the page, and which
  element is inside which, is a record of its own that comes with each operation, since the
  script reads it from the document.  Handlers of the events do not call back into the manager.
\<close>

section \<open>State\<close>

datatype drop_tolerance = TolFit | TolIntersect | TolPointer | TolTouch | TolOther

record droppable =
  dr_disabled :: bool
  dr_greedy :: bool
  dr_tolerance :: drop_tolerance
  dr_scope :: string
  active_class :: bool
  hover_class :: bool
  accepts :: "nat \<Rightarrow> bool"
  isover :: bool
  isout :: bool
  greedy_child :: bool
  dr_visible :: bool
  dr_offset :: "(rat \<times> rat) option"
  proportions :: "rat \<times> rat"
  shows_active :: bool
  shows_hover :: bool

text \<open>What the manager uses of a draggable: its element, helper and options.\<close>

record draggable =
  dg_elem :: nat
  dg_pos :: "rat \<times> rat"
  dg_size :: "rat \<times> rat"
  dg_click :: "rat \<times> rat"
  dg_scope :: string
  dg_refresh :: bool

datatype drop_event = DropActivate nat | DropDeactivate nat | DropOver nat | DropOut nat | Dropped nat

record dd =
  dd_current :: "draggable option"
  dd_scopes :: "string \<Rightarrow> nat list option"
  drops :: "nat \<Rightarrow> droppable"
  dd_log :: "drop_event list"

text \<open>The page: places and sizes, what is displayed, what is inside the dragged element, the
  droppables inside an element and the closest one around it.\<close>

record dd_page =
  at_place :: "nat \<Rightarrow> rat \<times> rat"
  box_size :: "nat \<Rightarrow> rat \<times> rat"
  displayed :: "nat \<Rightarrow> bool"
  in_dragged :: "nat \<Rightarrow> bool"
  inside :: "nat \<Rightarrow> nat list"
  around :: "nat \<Rightarrow> nat option"

definition upd :: "nat \<Rightarrow> (droppable \<Rightarrow> droppable) \<Rightarrow> dd \<Rightarrow> dd" where
  "upd i f s = s\<lparr>drops := (drops s)(i := f (drops s i))\<rparr>"

definition raise_event :: "drop_event \<Rightarrow> dd \<Rightarrow> dd" where
  "raise_event e s = s\<lparr>dd_log := dd_log s @ [e]\<rparr>"

definition scope_list :: "dd \<Rightarrow> string \<Rightarrow> nat list" where
  "scope_list s sc = (case dd_scopes s sc of Some is \<Rightarrow> is | None \<Rightarrow> [])"

section \<open>Overlap\<close>

definition is_over_axis :: "rat \<Rightarrow> rat \<Rightarrow> rat \<Rightarrow> bool" where
  "is_over_axis x reference len \<longleftrightarrow> x > reference \<and> x < reference + len"

definition is_over :: "rat \<Rightarrow> rat \<Rightarrow> rat \<Rightarrow> rat \<Rightarrow> rat \<Rightarrow> rat \<Rightarrow> bool" where
  "is_over y x t l height width \<longleftrightarrow> is_over_axis y t height \<and> is_over_axis x l width"

definition intersects :: "draggable \<Rightarrow> droppable \<Rightarrow> drop_tolerance \<Rightarrow> bool" where
  "intersects g d tol =
     (case dr_offset d of
        None \<Rightarrow> False
      | Some (l, t) \<Rightarrow>
          (let (x1, y1) = dg_pos g; (w, h) = dg_size g; x2 = x1 + w; y2 = y1 + h;
               r = l + fst (proportions d); b = t + snd (proportions d)
           in case tol of
                TolFit \<Rightarrow> l \<le> x1 \<and> x2 \<le> r \<and> t \<le> y1 \<and> y2 \<le> b
              | TolIntersect \<Rightarrow> l < x1 + w / 2 \<and> x2 - w / 2 < r \<and> t < y1 + h / 2 \<and> y2 - h / 2 < b
              | TolPointer \<Rightarrow>
                  is_over (y1 + snd (dg_click g)) (x1 + fst (dg_click g)) t l (snd (proportions d)) (fst (proportions d))
              | TolTouch \<Rightarrow>
                  ((y1 \<ge> t \<and> y1 \<le> b) \<or> (y2 \<ge> t \<and> y2 \<le> b) \<or> (y1 < t \<and> y2 > b)) \<and>
                  ((x1 \<ge> l \<and> x1 \<le> r) \<or> (x2 \<ge> l \<and> x2 \<le> r) \<or> (x1 < l \<and> x2 > r))
              | TolOther \<Rightarrow> False))"

section \<open>A droppable\<close>

definition dr_create :: "nat \<Rightarrow> droppable \<Rightarrow> (rat \<times> rat) \<Rightarrow> dd \<Rightarrow> dd" where
  "dr_create i opts len s =
     (let s1 = upd i (\<lambda>_. opts\<lparr>isover := False, isout := True, greedy_child := False, dr_visible := False, dr_offset := None,
                          proportions := len, shows_active := False, shows_hover := False\<rparr>) s
      in s1\<lparr>dd_scopes := (dd_scopes s1)(dr_scope opts \<mapsto> scope_list s1 (dr_scope opts) @ [i])\<rparr>)"

text \<open>\<open>destroy\<close>: the loop goes on at the next index after it has removed an entry.\<close>

fun drop_entries :: "nat \<Rightarrow> nat list \<Rightarrow> nat list" where
  "drop_entries i [] = []"
| "drop_entries i (x # xs) = (if x = i then (case xs of [] \<Rightarrow> [] | y # ys \<Rightarrow> y # drop_entries i ys) else x # drop_entries i xs)"

definition dr_destroy :: "nat \<Rightarrow> dd \<Rightarrow> dd js_result" where
  "dr_destroy i s =
     (case dd_scopes s (dr_scope (drops s i)) of
        None \<Rightarrow> Inl TypeError
      | Some is \<Rightarrow> Inr (s\<lparr>dd_scopes := (dd_scopes s)(dr_scope (drops s i) \<mapsto> drop_entries i is)\<rparr>))"

datatype dr_change =
    DrAccept "nat \<Rightarrow> bool"
  | DrScope string
  | DrGreedy bool
  | DrDisabled bool
  | DrTolerance drop_tolerance
  | DrActiveClass bool
  | DrHoverClass bool

fun apply_dr :: "dr_change \<Rightarrow> droppable \<Rightarrow> droppable" where
  "apply_dr (DrAccept p) d = d\<lparr>accepts := p\<rparr>"
| "apply_dr (DrScope sc) d = d\<lparr>dr_scope := sc\<rparr>"
| "apply_dr (DrGreedy b) d = d\<lparr>dr_greedy := b\<rparr>"
| "apply_dr (DrDisabled b) d = d\<lparr>dr_disabled := b\<rparr>"
| "apply_dr (DrTolerance t) d = d\<lparr>dr_tolerance := t\<rparr>"
| "apply_dr (DrActiveClass b) d = d\<lparr>active_class := b\<rparr>"
| "apply_dr (DrHoverClass b) d = d\<lparr>hover_class := b\<rparr>"

definition dr_set_option :: "nat \<Rightarrow> dr_change \<Rightarrow> dd \<Rightarrow> dd" where
  "dr_set_option i c s = upd i (apply_dr c) s"

definition dr_activate :: "nat \<Rightarrow> dd \<Rightarrow> dd" where
  "dr_activate i s =
     (let s1 = (if active_class (drops s i) then upd i (\<lambda>d. d\<lparr>shows_active := True\<rparr>) s else s)
      in if dd_current s \<noteq> None then raise_event (DropActivate i) s1 else s1)"

definition dr_deactivate :: "nat \<Rightarrow> dd \<Rightarrow> dd" where
  "dr_deactivate i s =
     (let s1 = (if active_class (drops s i) then upd i (\<lambda>d. d\<lparr>shows_active := False\<rparr>) s else s)
      in if dd_current s \<noteq> None then raise_event (DropDeactivate i) s1 else s1)"

text \<open>Whether the current draggable concerns a droppable: there is one, it is another element, and it is accepted.\<close>

definition concerns :: "nat \<Rightarrow> dd \<Rightarrow> bool" where
  "concerns i s = (case dd_current s of Some g \<Rightarrow> dg_elem g \<noteq> i \<and> accepts (drops s i) (dg_elem g) | None \<Rightarrow> False)"

definition dr_over :: "nat \<Rightarrow> dd \<Rightarrow> dd" where
  "dr_over i s =
     (if concerns i s
      then raise_event (DropOver i) (if hover_class (drops s i) then upd i (\<lambda>d. d\<lparr>shows_hover := True\<rparr>) s else s) else s)"

definition dr_out :: "nat \<Rightarrow> dd \<Rightarrow> dd" where
  "dr_out i s =
     (if concerns i s
      then raise_event (DropOut i) (if hover_class (drops s i) then upd i (\<lambda>d. d\<lparr>shows_hover := False\<rparr>) s else s) else s)"

text \<open>The search for a greedy droppable inside; each one tested gets its present offset.\<close>

fun greedy_inside :: "dd_page \<Rightarrow> draggable \<Rightarrow> nat list \<Rightarrow> dd \<Rightarrow> dd \<times> bool" where
  "greedy_inside p g [] s = (s, False)"
| "greedy_inside p g (k # ks) s =
     (let d = drops s k
      in if dr_greedy d \<and> \<not> dr_disabled d \<and> dr_scope d = dg_scope g \<and> accepts d (dg_elem g)
         then (let s1 = upd k (\<lambda>d. d\<lparr>dr_offset := Some (at_place p k)\<rparr>) s
               in if intersects g (drops s1 k) (dr_tolerance d) then (s1, True) else greedy_inside p g ks s1)
         else greedy_inside p g ks s)"

definition dr_drop :: "dd_page \<Rightarrow> nat \<Rightarrow> dd \<Rightarrow> dd \<times> nat option" where
  "dr_drop p i s =
     (case dd_current s of
        None \<Rightarrow> (s, None)
      | Some g \<Rightarrow>
          if dg_elem g = i then (s, None)
          else (let (s1, found) = greedy_inside p g (inside p i) s
                in if found then (s1, None)
                   else if accepts (drops s1 i) (dg_elem g)
                   then (let s2 = (if active_class (drops s1 i) then upd i (\<lambda>d. d\<lparr>shows_active := False\<rparr>) s1 else s1);
                             s3 = (if hover_class (drops s2 i) then upd i (\<lambda>d. d\<lparr>shows_hover := False\<rparr>) s2 else s2)
                         in (raise_event (Dropped i) s3, Some i))
                   else (s1, None)))"

section \<open>The manager\<close>

definition prepare_one :: "dd_page \<Rightarrow> bool \<Rightarrow> draggable \<Rightarrow> nat \<Rightarrow> dd \<Rightarrow> dd" where
  "prepare_one p mousedown g i s =
     (let d = drops s i
      in if dr_disabled d \<or> \<not> accepts d (dg_elem g) then s
         else if in_dragged p i then upd i (\<lambda>d. d\<lparr>proportions := (fst (proportions d), 0)\<rparr>) s
         else (let s1 = upd i (\<lambda>d. d\<lparr>dr_visible := displayed p i\<rparr>) s
               in if \<not> displayed p i then s1
                  else (let s2 = (if mousedown then dr_activate i s1 else s1)
                        in upd i (\<lambda>d. d\<lparr>dr_offset := Some (at_place p i), proportions := box_size p i\<rparr>) s2)))"

definition prepare_offsets :: "dd_page \<Rightarrow> bool \<Rightarrow> draggable \<Rightarrow> dd \<Rightarrow> dd" where
  "prepare_offsets p mousedown g s = fold (prepare_one p mousedown g) (scope_list s (dg_scope g)) s"

definition drop_one :: "dd_page \<Rightarrow> draggable \<Rightarrow> nat \<Rightarrow> dd \<times> nat option \<Rightarrow> dd \<times> nat option" where
  "drop_one p g i = (\<lambda>(s, dropped).
     (let d = drops s i;
          (s1, dropped1) =
            (if \<not> dr_disabled d \<and> dr_visible d \<and> intersects g d (dr_tolerance d)
             then (case dr_drop p i s of (s1, Some k) \<Rightarrow> (s1, Some k) | (s1, None) \<Rightarrow> (s1, dropped)) else (s, dropped));
          d1 = drops s1 i
      in if \<not> dr_disabled d1 \<and> dr_visible d1 \<and> accepts d1 (dg_elem g)
         then (dr_deactivate i (upd i (\<lambda>d. d\<lparr>isout := True, isover := False\<rparr>) s1), dropped1) else (s1, dropped1)))"

definition dd_drop :: "dd_page \<Rightarrow> draggable \<Rightarrow> dd \<Rightarrow> dd \<times> nat option" where
  "dd_drop p g s = fold (drop_one p g) (scope_list s (dg_scope g)) (s, None)"

definition drag_one :: "dd_page \<Rightarrow> draggable \<Rightarrow> nat \<Rightarrow> dd \<Rightarrow> dd" where
  "drag_one p g i s =
     (let d = drops s i; hit = intersects g d (dr_tolerance d)
      in if dr_disabled d \<or> greedy_child d \<or> \<not> dr_visible d then s
         else if (\<not> hit \<and> isover d) \<or> (hit \<and> \<not> isover d)
         then (let parent = (if dr_greedy d then around p i else None);
                   s1 = (case parent of Some k \<Rightarrow> upd k (\<lambda>d. d\<lparr>greedy_child := hit\<rparr>) s | None \<Rightarrow> s);
                   s2 = (case parent of
                           Some k \<Rightarrow> if hit then dr_out k (upd k (\<lambda>d. d\<lparr>isover := False, isout := True\<rparr>) s1) else s1
                         | None \<Rightarrow> s1);
                   s3 = upd i (\<lambda>d. d\<lparr>isover := hit, isout := \<not> hit\<rparr>) s2;
                   s4 = (if hit then dr_over i s3 else dr_out i s3)
               in case parent of
                    Some k \<Rightarrow> if \<not> hit then dr_over k (upd k (\<lambda>d. d\<lparr>isout := False, isover := True\<rparr>) s4) else s4
                  | None \<Rightarrow> s4)
         else s)"

definition dd_drag :: "dd_page \<Rightarrow> draggable \<Rightarrow> dd \<Rightarrow> dd" where
  "dd_drag p g s =
     (let s1 = (if dg_refresh g then prepare_offsets p False g s else s)
      in fold (drag_one p g) (scope_list s1 (dg_scope g)) s1)"

text \<open>\<open>dragStart\<close> binds a recalculation to scrolling; \<open>dragStop\<close> unbinds it and runs it a last time.\<close>

definition dd_scrolled :: "dd_page \<Rightarrow> bool \<Rightarrow> draggable \<Rightarrow> dd \<Rightarrow> dd" where
  "dd_scrolled p mousedown g s = (if \<not> dg_refresh g then prepare_offsets p mousedown g s else s)"

definition dd_drag_stop :: "dd_page \<Rightarrow> bool \<Rightarrow> draggable \<Rightarrow> dd \<Rightarrow> dd" where
  "dd_drag_stop p mousedown g s = (if \<not> dg_refresh g then prepare_offsets p mousedown g s else s)"

section \<open>The rules of overlap\<close>

text \<open>The rules of \<open>tolerance\<close> are of decreasing strength: for a helper with an extent, lying inside a
  droppable (\<open>fit\<close>) implies overlapping it by half (\<open>intersect\<close>), which implies touching it;
  and \<open>touch\<close> holds exactly when the two boxes have a point in common.\<close>

theorem tolerances_ordered:
  assumes "0 < fst (dg_size g)" and "0 < snd (dg_size g)"
    and "0 \<le> fst (proportions d)" and "0 \<le> snd (proportions d)" and "dr_offset d = Some (l, t)"
  shows "(intersects g d TolFit \<longrightarrow> intersects g d TolIntersect) \<and> (intersects g d TolIntersect \<longrightarrow> intersects g d TolTouch) \<and>
    intersects g d TolTouch = (\<exists>x y. l \<le> x \<and> x \<le> l + fst (proportions d) \<and> fst (dg_pos g) \<le> x \<and> x \<le> fst (dg_pos g) + fst (dg_size g) \<and>
      t \<le> y \<and> y \<le> t + snd (proportions d) \<and> snd (dg_pos g) \<le> y \<and> y \<le> snd (dg_pos g) + snd (dg_size g))"
proof -
  obtain x1 y1 w h pw ph where g: "dg_pos g = (x1, y1)" "dg_size g = (w, h)" "proportions d = (pw, ph)" by force
  have pos: "0 < w" "0 < h" "0 \<le> pw" "0 \<le> ph" using assms(1-4) g by simp_all
  have common: "(((a :: rat) \<ge> lo \<and> a \<le> hi) \<or> (b \<ge> lo \<and> b \<le> hi) \<or> (a < lo \<and> b > hi)) = (\<exists>x. lo \<le> x \<and> x \<le> hi \<and> a \<le> x \<and> x \<le> b)"
    if "a \<le> b" "lo \<le> hi" for a b lo hi
  proof -
    have "(\<exists>x. lo \<le> x \<and> x \<le> hi \<and> a \<le> x \<and> x \<le> b) = (a \<le> hi \<and> lo \<le> b)"
      using that by (auto intro: exI [of _ "max a lo"])
    then show ?thesis using that by auto
  qed
  have "intersects g d TolTouch = ((\<exists>y. t \<le> y \<and> y \<le> t + ph \<and> y1 \<le> y \<and> y \<le> y1 + h) \<and> (\<exists>x. l \<le> x \<and> x \<le> l + pw \<and> x1 \<le> x \<and> x \<le> x1 + w))"
    using common [of y1 "y1 + h" t "t + ph"] common [of x1 "x1 + w" l "l + pw"] pos
    by (simp add: intersects_def assms(5) g Let_def)
  then have touch: "intersects g d TolTouch = (\<exists>x y. l \<le> x \<and> x \<le> l + pw \<and> x1 \<le> x \<and> x \<le> x1 + w \<and>
      t \<le> y \<and> y \<le> t + ph \<and> y1 \<le> y \<and> y \<le> y1 + h)"
    by blast
  have "intersects g d TolFit \<longrightarrow> intersects g d TolIntersect"
    using pos by (auto simp: intersects_def assms(5) g)
  moreover have "intersects g d TolIntersect \<longrightarrow> intersects g d TolTouch"
  proof
    assume "intersects g d TolIntersect"
    then have "l < x1 + w / 2" "x1 + w - w / 2 < l + pw" "t < y1 + h / 2" "y1 + h - h / 2 < t + ph"
      by (simp_all add: intersects_def assms(5) g)
    then show "intersects g d TolTouch"
      unfolding touch using pos by (intro exI [of _ "x1 + w / 2"] exI [of _ "y1 + h / 2"]) (simp add: field_simps)
  qed
  ultimately show ?thesis using touch g by simp
qed

definition demo_drop :: droppable where
  "demo_drop = \<lparr>dr_disabled = False, dr_greedy = False, dr_tolerance = TolTouch, dr_scope = ''default'', active_class = False,
     hover_class = False, accepts = (\<lambda>e. True), isover = False, isout = True, greedy_child = False, dr_visible = True,
     dr_offset = Some (0, 0), proportions = (100, 100), shows_active = False, shows_hover = False\<rparr>"

definition drag_to :: "rat \<Rightarrow> rat \<Rightarrow> draggable" where
  "drag_to x y = \<lparr>dg_elem = 0, dg_pos = (x, y), dg_size = (10, 10), dg_click = (5, 5), dg_scope = ''default'', dg_refresh = False\<rparr>"

theorem tolerances_ordered_witness: "intersects (drag_to 20 30) demo_drop TolTouch"
proof -
  have h: "0 < fst (dg_size (drag_to 20 30))" "0 < snd (dg_size (drag_to 20 30))" "0 \<le> fst (proportions demo_drop)"
    "0 \<le> snd (proportions demo_drop)" "dr_offset demo_drop = Some (0, 0)"
    by (simp_all add: drag_to_def demo_drop_def)
  have "intersects (drag_to 20 30) demo_drop TolFit" by (simp add: intersects_def drag_to_def demo_drop_def)
  then show ?thesis using tolerances_ordered [OF h] by blast
qed

section \<open>What a drop raises\<close>

lemma upd_simps [simp]:
  "drops (upd i f s) = (drops s)(i := f (drops s i))" "dd_current (upd i f s) = dd_current s"
  "dd_scopes (upd i f s) = dd_scopes s" "dd_log (upd i f s) = dd_log s"
  "drops (raise_event e s) = drops s" "dd_current (raise_event e s) = dd_current s"
  "dd_scopes (raise_event e s) = dd_scopes s" "dd_log (raise_event e s) = dd_log s @ [e]"
  by (simp_all add: upd_def raise_event_def)

text \<open>The droppables of two states differ at most in what they show and whether the drag is over them.\<close>

definition same_drop :: "droppable \<Rightarrow> droppable \<Rightarrow> bool" where
  "same_drop d d' \<longleftrightarrow>
     d' = d\<lparr>isover := isover d', isout := isout d', shows_active := shows_active d', shows_hover := shows_hover d'\<rparr>"

lemma intersects_cong:
  "dr_offset d' = dr_offset d \<Longrightarrow> proportions d' = proportions d \<Longrightarrow> intersects g d' tol = intersects g d tol"
  by (simp only: intersects_def)

lemma same_dropD:
  assumes "same_drop d d'"
  shows "dr_disabled d' = dr_disabled d" "dr_greedy d' = dr_greedy d" "dr_scope d' = dr_scope d" "dr_tolerance d' = dr_tolerance d"
    "accepts d' = accepts d" "dr_visible d' = dr_visible d" "dr_offset d' = dr_offset d" "intersects g d' tol = intersects g d tol"
  using arg_cong [OF assms [unfolded same_drop_def], of dr_disabled] arg_cong [OF assms [unfolded same_drop_def], of dr_greedy]
    arg_cong [OF assms [unfolded same_drop_def], of dr_scope] arg_cong [OF assms [unfolded same_drop_def], of dr_tolerance]
    arg_cong [OF assms [unfolded same_drop_def], of accepts] arg_cong [OF assms [unfolded same_drop_def], of dr_visible]
    arg_cong [OF assms [unfolded same_drop_def], of dr_offset] arg_cong [OF assms [unfolded same_drop_def], of proportions]
  by (simp_all add: intersects_cong [of d' d])

definition placed :: "dd_page \<Rightarrow> dd \<Rightarrow> bool" where
  "placed p s \<longleftrightarrow> (\<forall>k. dr_offset (drops s k) = Some (at_place p k))"

text \<open>A droppable inside that takes the drop from the ones around it, and who gets a drop.\<close>

definition takes_drop :: "draggable \<Rightarrow> dd \<Rightarrow> nat \<Rightarrow> bool" where
  "takes_drop g s k \<longleftrightarrow>
     (let d = drops s k in dr_greedy d \<and> \<not> dr_disabled d \<and> dr_scope d = dg_scope g \<and> accepts d (dg_elem g) \<and> intersects g d (dr_tolerance d))"

definition gets_drop :: "dd_page \<Rightarrow> draggable \<Rightarrow> dd \<Rightarrow> nat \<Rightarrow> bool" where
  "gets_drop p g s i \<longleftrightarrow>
     (let d = drops s i
      in \<not> dr_disabled d \<and> dr_visible d \<and> intersects g d (dr_tolerance d) \<and> accepts d (dg_elem g) \<and> dg_elem g \<noteq> i \<and>
         (\<forall>k \<in> set (inside p i). \<not> takes_drop g s k))"

definition deactivates :: "draggable \<Rightarrow> dd \<Rightarrow> nat \<Rightarrow> bool" where
  "deactivates g s i \<longleftrightarrow> \<not> dr_disabled (drops s i) \<and> dr_visible (drops s i) \<and> accepts (drops s i) (dg_elem g)"

definition similar :: "dd \<Rightarrow> dd \<Rightarrow> bool" where
  "similar s t \<longleftrightarrow> dd_current t = dd_current s \<and> (\<forall>k. same_drop (drops s k) (drops t k))"

lemma upd_same: "dr_offset (drops s k) = Some x \<Longrightarrow> upd k (\<lambda>d. d\<lparr>dr_offset := Some x\<rparr>) s = s"
proof -
  assume a: "dr_offset (drops s k) = Some x"
  have "(drops s k)\<lparr>dr_offset := Some x\<rparr> = drops s k" using a by (cases "drops s k") simp
  then show ?thesis by (simp add: upd_def)
qed

lemma greedy_placed: "placed p s \<Longrightarrow> greedy_inside p g ks s = (s, \<exists>k \<in> set ks. takes_drop g s k)"
  by (induction ks) (auto simp: Let_def upd_same placed_def takes_drop_def)

lemma similar_facts:
  assumes "similar s t"
  shows "placed p t = placed p s" "gets_drop p g t i = gets_drop p g s i" "deactivates g t i = deactivates g s i"
proof -
  have d: "same_drop (drops s k) (drops t k)" for k using assms by (simp add: similar_def)
  have t: "takes_drop g t k = takes_drop g s k" for k
    using same_dropD [OF d [of k]] by (simp add: takes_drop_def Let_def)
  show "placed p t = placed p s" "gets_drop p g t i = gets_drop p g s i" "deactivates g t i = deactivates g s i"
    using same_dropD [OF d] t by (simp_all add: placed_def gets_drop_def deactivates_def Let_def)
qed

lemma similar_refl: "similar s s"
  by (simp add: similar_def same_drop_def)

lemma similar_trans: "similar s t \<Longrightarrow> similar t u \<Longrightarrow> similar s u"
proof -
  have tr: "same_drop a c" if ab: "same_drop a b" and bc: "same_drop b c" for a b c
    using bc unfolding same_drop_def by (subst (asm) ab [unfolded same_drop_def]) (cases a, cases c, simp)
  show "similar s t \<Longrightarrow> similar t u \<Longrightarrow> similar s u" unfolding similar_def by (simp, metis tr)
qed

lemma similar_shows:
  "similar s (raise_event e s)" "similar s (upd i (\<lambda>d. d\<lparr>shows_active := b\<rparr>) s)" "similar s (upd i (\<lambda>d. d\<lparr>shows_hover := b\<rparr>) s)"
  "similar s (upd i (\<lambda>d. d\<lparr>isout := b, isover := c\<rparr>) s)"
  by (simp_all add: similar_def same_drop_def)

lemma similar_deactivate: "similar s (dr_deactivate i s)"
  unfolding dr_deactivate_def Let_def using similar_refl [of s] similar_shows(2) [of s i False]
  by (auto intro: similar_trans [OF _ similar_shows(1)])

lemma deactivate_log: "dd_current s \<noteq> None \<Longrightarrow> dd_log (dr_deactivate i s) = dd_log s @ [DropDeactivate i]"
  by (simp add: dr_deactivate_def Let_def)

lemma dr_drop_placed:
  fixes i :: nat
  assumes "placed p s" and "dd_current s = Some g"
  defines "gets \<equiv> dg_elem g \<noteq> i \<and> accepts (drops s i) (dg_elem g) \<and> (\<forall>k \<in> set (inside p i). \<not> takes_drop g s k)"
  shows "similar s (fst (dr_drop p i s)) \<and> dd_log (fst (dr_drop p i s)) = dd_log s @ (if gets then [Dropped i] else []) \<and>
    snd (dr_drop p i s) = (if gets then Some i else None)"
proof (cases gets)
  case False
  then have "dr_drop p i s = (s, None)"
    using assms(2) by (auto simp: dr_drop_def greedy_placed [OF assms(1)] gets_def)
  then show ?thesis using False by (simp add: similar_refl)
next
  case True
  define s2 where "s2 = (if active_class (drops s i) then upd i (\<lambda>d. d\<lparr>shows_active := False\<rparr>) s else s)"
  define s3 where "s3 = (if hover_class (drops s2 i) then upd i (\<lambda>d. d\<lparr>shows_hover := False\<rparr>) s2 else s2)"
  have r: "dr_drop p i s = (raise_event (Dropped i) s3, Some i)"
    using True assms(2) by (auto simp: dr_drop_def greedy_placed [OF assms(1)] gets_def Let_def s2_def s3_def)
  have "similar s s2" using similar_refl similar_shows(2) by (simp add: s2_def)
  moreover have "similar s2 s3" using similar_refl similar_shows(3) by (simp add: s3_def)
  ultimately have "similar s (raise_event (Dropped i) s3)" using similar_trans similar_shows(1) by blast
  moreover have "dd_log s3 = dd_log s" by (simp add: s2_def s3_def)
  ultimately show ?thesis using True by (simp add: r)
qed

lemma drop_one_placed:
  assumes "placed p s" and "dd_current s = Some g"
  shows "similar s (fst (drop_one p g i (s, r)))"
    and "dd_log (fst (drop_one p g i (s, r))) = dd_log s @ (if gets_drop p g s i then [Dropped i] else []) @
      (if deactivates g s i then [DropDeactivate i] else [])"
    and "snd (drop_one p g i (s, r)) = (if gets_drop p g s i then Some i else r)"
proof -
  define tries where "tries = (\<not> dr_disabled (drops s i) \<and> dr_visible (drops s i) \<and> intersects g (drops s i) (dr_tolerance (drops s i)))"
  define s1 where "s1 = (if tries then fst (dr_drop p i s) else s)"
  define r1 where "r1 = (if tries then (case snd (dr_drop p i s) of Some k \<Rightarrow> Some k | None \<Rightarrow> r) else r)"
  have s1: "similar s s1" "dd_log s1 = dd_log s @ (if gets_drop p g s i then [Dropped i] else [])" and
    r1: "r1 = (if gets_drop p g s i then Some i else r)"
    using dr_drop_placed [OF assms, of i]
    by (auto simp: s1_def r1_def similar_refl gets_drop_def tries_def Let_def)
  have d: "same_drop (drops s i) (drops s1 i)" using s1(1) by (simp add: similar_def)
  have cur: "dd_current s1 = Some g" using s1(1) assms(2) by (simp add: similar_def)
  have e: "drop_one p g i (s, r) = (if deactivates g s1 i
      then (dr_deactivate i (upd i (\<lambda>d. d\<lparr>isout := True, isover := False\<rparr>) s1), r1) else (s1, r1))"
    by (auto simp: drop_one_def Let_def tries_def s1_def r1_def deactivates_def split: prod.split option.split)
  have act: "deactivates g s1 i = deactivates g s i" by (rule similar_facts(3) [OF s1(1)])
  show "similar s (fst (drop_one p g i (s, r)))"
    using s1(1) similar_trans [OF similar_trans [OF s1(1) similar_shows(4)] similar_deactivate] by (simp add: e)
  show "dd_log (fst (drop_one p g i (s, r))) = dd_log s @ (if gets_drop p g s i then [Dropped i] else []) @
      (if deactivates g s i then [DropDeactivate i] else [])"
    using s1(2) cur by (simp add: e act deactivate_log)
  show "snd (drop_one p g i (s, r)) = (if gets_drop p g s i then Some i else r)"
    using r1 by (simp add: e)
qed

text \<open>When the drag of the current element ends over a page whose places are up to date, the manager raises,
  droppable by droppable in the order of the scope, \<open>drop\<close> for each that is enabled, visible,
  overlapped by its rule, another element than the dragged one and accepting it, and that has
  no greedy droppable inside which takes the drop itself, and \<open>deactivate\<close> for each enabled,
  visible and accepting one; it returns the last droppable that got the drop.\<close>

theorem drop_events_spec:
  assumes "placed p s" and "dd_current s = Some g"
  shows "dd_log (fst (dd_drop p g s)) = dd_log s @ concat (map (\<lambda>i. (if gets_drop p g s i then [Dropped i] else []) @
      (if deactivates g s i then [DropDeactivate i] else [])) (scope_list s (dg_scope g))) \<and>
    snd (dd_drop p g s) = fold (\<lambda>i r. if gets_drop p g s i then Some i else r) (scope_list s (dg_scope g)) None"
proof -
  have "dd_log (fst (fold (drop_one p g) is (t, r))) = dd_log t @ concat (map (\<lambda>i. (if gets_drop p g s i then [Dropped i] else []) @
      (if deactivates g s i then [DropDeactivate i] else [])) is) \<and>
    snd (fold (drop_one p g) is (t, r)) = fold (\<lambda>i r. if gets_drop p g s i then Some i else r) is r"
    if "similar s t" for "is" t r
    using that
  proof (induction "is" arbitrary: t r)
    case (Cons i "is")
    have t: "placed p t" "dd_current t = Some g" "gets_drop p g t i = gets_drop p g s i" "deactivates g t i = deactivates g s i"
      using similar_facts [OF Cons.prems] assms Cons.prems by (simp_all add: similar_def)
    obtain u r' where u: "drop_one p g i (t, r) = (u, r')" by force
    from drop_one_placed [OF t(1,2), of i r] Cons.prems have "similar s u" using similar_trans u by fastforce
    from Cons.IH [OF this, of r'] drop_one_placed(2,3) [OF t(1,2), of i r] t show ?case by (simp add: u)
  qed simp
  then show ?thesis using similar_refl by (simp add: dd_drop_def)
qed

text \<open>A page on which the droppable 1, perhaps greedy, lies inside the droppable 2; the dragged element is 0.\<close>

definition demo_dd :: "bool \<Rightarrow> nat list \<Rightarrow> dd" where
  "demo_dd greedy ids =
     \<lparr>dd_current = Some (drag_to 20 20), dd_scopes = [''default'' \<mapsto> ids],
      drops = (\<lambda>i. if i = 1 then demo_drop\<lparr>dr_greedy := greedy, proportions := (50, 50)\<rparr> else demo_drop), dd_log = []\<rparr>"

definition demo_page :: dd_page where
  "demo_page = \<lparr>at_place = (\<lambda>i. (0, 0)), box_size = (\<lambda>i. if i = 1 then (50, 50) else (100, 100)), displayed = (\<lambda>i. True),
     in_dragged = (\<lambda>i. i = 0), inside = (\<lambda>i. if i = 2 then [1] else []), around = (\<lambda>i. if i = 1 then Some 2 else None)\<rparr>"

lemmas demo_dd_defs = demo_dd_def demo_page_def demo_drop_def drag_to_def

theorem drop_events_spec_witness:
  "dd_log (fst (dd_drop demo_page (drag_to 20 20) (demo_dd True [1, 2]))) = [Dropped 1, DropDeactivate 1, DropDeactivate 2] \<and>
   snd (dd_drop demo_page (drag_to 20 20) (demo_dd True [1, 2])) = Some 1"
proof -
  have "placed demo_page (demo_dd True [1, 2])" "dd_current (demo_dd True [1, 2]) = Some (drag_to 20 20)"
    by (simp_all add: placed_def demo_dd_defs)
  from drop_events_spec [OF this] show ?thesis
    by (simp add: gets_drop_def takes_drop_def deactivates_def intersects_def scope_list_def demo_dd_defs)
qed

section \<open>Moving over droppables\<close>

text \<open>What the events \<open>over\<close> and \<open>out\<close> of one droppable say: they take turns, beginning with \<open>over\<close>.\<close>

fun hover_trace :: "nat \<Rightarrow> bool \<Rightarrow> drop_event list \<Rightarrow> bool option" where
  "hover_trace i b [] = Some b"
| "hover_trace i b (DropOver j # es) = (if j = i then (if b then None else hover_trace i True es) else hover_trace i b es)"
| "hover_trace i b (DropOut j # es) = (if j = i then (if b then hover_trace i False es else None) else hover_trace i b es)"
| "hover_trace i b (DropActivate j # es) = hover_trace i b es"
| "hover_trace i b (DropDeactivate j # es) = hover_trace i b es"
| "hover_trace i b (Dropped j # es) = hover_trace i b es"

lemma hover_trace_append: "hover_trace i b (xs @ ys) = Option.bind (hover_trace i b xs) (\<lambda>b'. hover_trace i b' ys)"
  by (induction i b xs rule: hover_trace.induct) simp_all

text \<open>A page without greedy droppables on which the element \<open>e\<close> is dragged.\<close>

definition hover_inv :: "nat \<Rightarrow> nat \<Rightarrow> dd \<Rightarrow> bool" where
  "hover_inv e i s \<longleftrightarrow> (\<exists>g. dd_current s = Some g \<and> dg_elem g = e) \<and> e \<noteq> i \<and> accepts (drops s i) e \<and>
     (\<forall>k. \<not> dr_greedy (drops s k)) \<and> isout (drops s i) = (\<not> isover (drops s i)) \<and>
     hover_trace i False (dd_log s) = Some (isover (drops s i))"

lemma hover_prepare: "hover_inv e i s \<Longrightarrow> hover_inv e i (prepare_offsets p b g s)"
proof -
  have one: "hover_inv e i (prepare_one p b g k s)" if "hover_inv e i s" for k s
  proof -
    define d where "d = drops s k"
    show ?thesis
      using that by (auto simp: prepare_one_def Let_def hover_inv_def dr_activate_def hover_trace_append)
  qed
  assume "hover_inv e i s"
  then show ?thesis unfolding prepare_offsets_def
    by (induction "scope_list s (dg_scope g)" arbitrary: s) (auto intro: one fold_invariant [where Q = "\<lambda>_. True"])
qed

lemma hover_drag_one: "hover_inv e i s \<Longrightarrow> hover_inv e i (drag_one p g k s)"
  by (auto simp: drag_one_def Let_def hover_inv_def dr_over_def dr_out_def concerns_def hover_trace_append)

lemma hover_drag: "hover_inv e i s \<Longrightarrow> hover_inv e i (dd_drag p g s)"
proof -
  have "hover_inv e i (fold (drag_one p g) is t)" if "hover_inv e i t" for "is" t
    using that by (rule fold_invariant [where Q = "\<lambda>_. True", rotated]) (simp_all add: hover_drag_one)
  then show "hover_inv e i s \<Longrightarrow> hover_inv e i (dd_drag p g s)" by (simp add: dd_drag_def Let_def hover_prepare)
qed

text \<open>One drag of an element: it starts, moves, the page scrolls, and the moves stop.\<close>

inductive dragging :: "nat \<Rightarrow> dd \<Rightarrow> dd \<Rightarrow> bool" for e s0 where
  drag_begins: "dg_elem g = e \<Longrightarrow> dragging e s0 (prepare_offsets p True g (s0\<lparr>dd_current := Some g\<rparr>))"
| drag_moves: "dragging e s0 s \<Longrightarrow> dg_elem g = e \<Longrightarrow> dragging e s0 (dd_drag p g (s\<lparr>dd_current := Some g\<rparr>))"
| drag_scrolls: "dragging e s0 s \<Longrightarrow> dg_elem g = e \<Longrightarrow> dragging e s0 (dd_scrolled p True g s)"
| drag_stops: "dragging e s0 s \<Longrightarrow> dg_elem g = e \<Longrightarrow> dragging e s0 (dd_drag_stop p False g s)"

lemma hover_current: "hover_inv e i s \<Longrightarrow> dg_elem g = e \<Longrightarrow> hover_inv e i (s\<lparr>dd_current := Some g\<rparr>)"
  by (auto simp: hover_inv_def)

text \<open>C20: On a page without greedy droppables the events \<open>over\<close> and \<open>out\<close> of a droppable that accepts the
  dragged element (and is not that element) take turns while it is dragged, beginning with \<open>over\<close>, however the mouse moves, the page scrolls and elements move or
  vanish; the last of them tells whether the droppable holds itself to be under the drag.  The droppable must not hold that already
  when the drag begins, as one does that was disabled or hidden when the last element was dropped on it, and options do not change during the drag.
\<close>

theorem hover_alternates:
  assumes "dragging e s0 s" and "dd_log s0 = []" and "\<forall>k. \<not> dr_greedy (drops s0 k)"
    and "\<not> isover (drops s0 i)" and "isout (drops s0 i)" and "accepts (drops s0 i) e" and "e \<noteq> i"
  shows "hover_trace i False (dd_log s) = Some (isover (drops s i)) \<and> isout (drops s i) = (\<not> isover (drops s i))"
proof -
  have "hover_inv e i s"
    using assms(1)
  proof (induction rule: dragging.induct)
    case (drag_begins g p)
    then have "hover_inv e i (s0\<lparr>dd_current := Some g\<rparr>)" using assms(2-7) by (simp add: hover_inv_def)
    then show ?case by (rule hover_prepare)
  qed (simp_all add: hover_drag hover_current hover_prepare dd_scrolled_def dd_drag_stop_def)
  then show ?thesis by (simp add: hover_inv_def)
qed

theorem hover_alternates_witness:
  "\<exists>s. dragging 0 (demo_dd False [1, 2]) s \<and> hover_trace 1 False (dd_log s) = Some (isover (drops s 1))"
proof -
  have d: "dragging 0 (demo_dd False [1, 2]) (prepare_offsets demo_page True (drag_to 20 20) ((demo_dd False [1, 2])\<lparr>dd_current := Some (drag_to 20 20)\<rparr>))"
    by (rule drag_begins) (simp add: drag_to_def)
  have "hover_trace 1 False (dd_log (prepare_offsets demo_page True (drag_to 20 20) ((demo_dd False [1, 2])\<lparr>dd_current := Some (drag_to 20 20)\<rparr>))) =
      Some (isover (drops (prepare_offsets demo_page True (drag_to 20 20) ((demo_dd False [1, 2])\<lparr>dd_current := Some (drag_to 20 20)\<rparr>)) 1))"
    using hover_alternates [OF d, of 1] by (simp add: demo_dd_def demo_drop_def)
  with d show ?thesis by blast
qed

text \<open>
  With a greedy droppable the turns are lost: a drag that enters a greedy droppable listed before
  the one around it raises \<open>out\<close> on the latter, which never was \<open>over\<close>.  And the mark a greedy
  droppable leaves on the one around it outlives the drop: the next drag over the outer one
  alone raises nothing.
\<close>

theorem greedy_parent_out_first:
  "dd_log (dd_drag demo_page (drag_to 20 20) (demo_dd True [1, 2])) = [DropOut 2, DropOver 1]"
  by (simp add: dd_drag_def drag_one_def Let_def scope_list_def dr_over_def dr_out_def concerns_def intersects_def demo_dd_defs)

theorem greedy_mark_survives_drop:
  "dd_log (dd_drag demo_page (drag_to 70 70) (fst (dd_drop demo_page (drag_to 20 20)
     (dd_drag demo_page (drag_to 20 20) (demo_dd True [1, 2]))))) =
   [DropOut 2, DropOver 1, Dropped 1, DropDeactivate 1, DropDeactivate 2]"
  by (simp add: dd_drop_def drop_one_def dr_drop_def dr_deactivate_def dd_drag_def drag_one_def Let_def scope_list_def dr_over_def
      dr_out_def concerns_def intersects_def demo_dd_defs)

text \<open>
  A droppable that is disabled (or hidden) while the element is dropped on it still holds itself to be under the drag: enabled
  again, it begins the next drag with \<open>out\<close>.
\<close>

lemma disabled_drop_keeps_over:
  "(let s = dd_drag demo_page (drag_to 20 20) (demo_dd False [1]);
        t = fst (dd_drop demo_page (drag_to 20 20) (dr_set_option 1 (DrDisabled True) s));
        u = (dr_set_option 1 (DrDisabled False) t)\<lparr>dd_log := []\<rparr>
    in isover (drops u 1) \<and> dd_log (dd_drag demo_page (drag_to 90 90) u) = [DropOut 1])"
  by (simp add: dr_set_option_def dd_drop_def drop_one_def dr_drop_def dr_deactivate_def dd_drag_def drag_one_def Let_def scope_list_def dr_over_def
      dr_out_def concerns_def intersects_def demo_dd_defs)

text \<open>Scrolling during a drag activates again; a droppable whose scope was changed cannot be destroyed.\<close>

theorem scrolling_reactivates:
  "dd_log (dd_scrolled demo_page True (drag_to 20 20) (demo_dd False [1])) = [DropActivate 1]"
  by (simp add: dd_scrolled_def prepare_offsets_def prepare_one_def dr_activate_def Let_def scope_list_def demo_dd_defs)

theorem scope_change_breaks_destroy: "dr_destroy 1 (dr_set_option 1 (DrScope ''cards'') (demo_dd False [1])) = Inl TypeError"
  by (simp add: dr_destroy_def dr_set_option_def demo_dd_defs)

end
