(* ===== verification/Ui_Tabs.thy ===== *)
theory Ui_Tabs
  imports Js_Prelude Exclusive_View
begin

text \<open>
  Tabs, \<open>jquery.ui.tabs.js\<close>, without animations (\<open>fx\<close> is not set).  A tab is its list item, its
  anchor and its panel together, named by a number that stays with it while its index
  changes; the panels are siblings of the list and have an order of their own in the document.  Requests for remote tabs
  are answered by steps of their own.  Handlers of the events answer \<open>select\<close> and do not call back into the widget.
\<close>

section \<open>State\<close>

text \<open>The anchor of a tab has its panel, or none is found for it, or it leads nowhere (\<open>#\<close> or nothing).\<close>

datatype panel_state = HasPanel | NoPanel | NoHref

record tab =
  tab_id :: nat
  tab_panel :: panel_state
  tab_url :: "string option"
  tab_cached :: bool
  tab_sel :: bool
  tab_dis :: bool
  tab_busy :: bool
  tab_open :: bool

abbreviation tab_valid :: "tab \<Rightarrow> bool" where
  "tab_valid \<equiv> \<lambda>t. tab_panel t = HasPanel"

text \<open>What \<open>select\<close>, \<open>show\<close>, \<open>load\<close> and so on report; a tab looked up by its index may be missing.\<close>

datatype tab_event =
    TabSelect nat
  | TabShow "nat option"
  | TabLoad "nat option"
  | TabAdd "nat option"
  | TabRemove "nat option"
  | TabEnable "nat option"
  | TabDisable "nat option"

datatype tab_job = HideJob "nat list" | ShowJob nat | InitJob

text \<open>
  \<open>doc_panels\<close> names the tabs by their panels in the order of the document; \<open>left_panels\<close> are panels left behind in the
  document that belong to no tab, each with whether it is in sight.
\<close>

record tabs =
  tab_list :: "tab list"
  doc_panels :: "nat list"
  left_panels :: "bool list"
  o_collapsible :: bool
  o_cache :: bool
  o_cookie :: bool
  o_selected :: int
  o_disabled :: "int list"
  tab_cookie :: "int option"
  tab_jobs :: "tab_job list"
  tab_xhr :: "(nat \<times> int) option"
  tab_log :: "tab_event list"
  next_tab :: nat

definition tab_ids :: "tabs \<Rightarrow> nat list" where
  "tab_ids s = map tab_id (tab_list s)"

text \<open>\<open>index (x)\<close> in a list, \<open>-1\<close> if it is not there.\<close>

fun index_where :: "('a \<Rightarrow> bool) \<Rightarrow> 'a list \<Rightarrow> int" where
  "index_where P [] = -1"
| "index_where P (x # xs) = (if P x then 0 else (let i = index_where P xs in if i < 0 then i else i + 1))"

definition tab_at :: "tabs \<Rightarrow> int \<Rightarrow> nat option" where
  "tab_at s i = (if 0 \<le> i \<and> i < int (length (tab_list s)) then Some (tab_id (tab_list s ! nat i)) else None)"

text \<open>\<open>panels\<close>: jQuery's \<open>add\<close> keeps a collection in the order of the document.\<close>

definition panel_list :: "tabs \<Rightarrow> nat list" where
  "panel_list s = filter (\<lambda>k. list_ex (\<lambda>t. tab_id t = k \<and> tab_valid t) (tab_list s)) (doc_panels s)"

text \<open>\<open>eq (i)\<close> on a collection of \<open>n\<close> elements: a negative index counts from the end.\<close>

definition eq_index :: "nat \<Rightarrow> int \<Rightarrow> nat option" where
  "eq_index n i = (if 0 \<le> i then (if i < int n then Some (nat i) else None) else if - i \<le> int n then Some (nat (int n + i)) else None)"

definition log_tab :: "tab_event \<Rightarrow> tabs \<Rightarrow> tabs" where
  "log_tab e s = s\<lparr>tab_log := tab_log s @ [e]\<rparr>"

definition map_tabs :: "(tab \<Rightarrow> tab) \<Rightarrow> tabs \<Rightarrow> tabs" where
  "map_tabs f s = s\<lparr>tab_list := map f (tab_list s)\<rparr>"

definition save_cookie :: "tabs \<Rightarrow> tabs" where
  "save_cookie s = (if o_cookie s then s\<lparr>tab_cookie := Some (o_selected s)\<rparr> else s)"

section \<open>Showing and hiding\<close>

definition hide_tab :: "nat list \<Rightarrow> tabs \<Rightarrow> tabs" where
  "hide_tab ids s = map_tabs (\<lambda>t. t\<lparr>tab_sel := False, tab_open := (tab_open t \<and> tab_id t \<notin> set ids)\<rparr>) s"

definition show_tab :: "nat \<Rightarrow> tabs \<Rightarrow> tabs" where
  "show_tab k s =
     log_tab (TabShow (Some k)) (map_tabs (\<lambda>t. if tab_id t = k then t\<lparr>tab_sel := True, tab_open := tab_valid t\<rparr> else t) s)"

text \<open>\<open>dequeue ('tabs')\<close>: runs the first job; a hiding job runs the next one at its end.\<close>

fun run_jobs :: "tab_job list \<Rightarrow> tabs \<Rightarrow> tabs" where
  "run_jobs [] s = s\<lparr>tab_jobs := []\<rparr>"
| "run_jobs (HideJob ids # q) s = run_jobs q (hide_tab ids s)"
| "run_jobs (ShowJob k # q) s = show_tab k (s\<lparr>tab_jobs := q\<rparr>)"
| "run_jobs (InitJob # q) s = log_tab (TabShow (tab_at s (o_selected s))) (s\<lparr>tab_jobs := q\<rparr>)"

definition dequeue_tabs :: "tabs \<Rightarrow> tabs" where
  "dequeue_tabs s = run_jobs (tab_jobs s) s"

definition add_job :: "tab_job \<Rightarrow> tabs \<Rightarrow> tabs" where
  "add_job j s = s\<lparr>tab_jobs := tab_jobs s @ [j]\<rparr>"

section \<open>Requests\<close>

definition clean_up :: "tabs \<Rightarrow> tabs" where
  "clean_up s = map_tabs (\<lambda>t. t\<lparr>tab_busy := False\<rparr>) s"

text \<open>A request ends: with its page, with an error, or aborted (which counts as an error).\<close>

definition request_failed :: "tabs \<Rightarrow> tabs" where
  "request_failed s =
     (case tab_xhr s of
        None \<Rightarrow> s
      | Some (k, i) \<Rightarrow> (let s1 = clean_up s in log_tab (TabLoad (tab_at s1 i)) (s1\<lparr>tab_xhr := None\<rparr>)))"

definition request_done :: "tabs \<Rightarrow> tabs" where
  "request_done s =
     (case tab_xhr s of
        None \<Rightarrow> s
      | Some (k, i) \<Rightarrow>
          (let s1 = clean_up s;
               s2 = (if o_cache s1 then map_tabs (\<lambda>t. if tab_id t = k then t\<lparr>tab_cached := True\<rparr> else t) s1 else s1)
           in log_tab (TabLoad (tab_at s2 i)) (s2\<lparr>tab_xhr := None\<rparr>)))"

definition abort_tabs :: "tabs \<Rightarrow> tabs" where
  "abort_tabs s =
     (let s1 = s\<lparr>tab_jobs := drop (length (tab_jobs s) - 2) (tab_jobs s)\<rparr>
      in clean_up (request_failed s1))"

text \<open>\<open>load\<close>; reading the data of an anchor that is not there throws.\<close>

definition load_tab :: "int \<Rightarrow> tabs \<Rightarrow> tabs js_result" where
  "load_tab i s =
     (case eq_index (length (tab_list s)) i of
        None \<Rightarrow> Inl TypeError
      | Some j \<Rightarrow>
          (let t = tab_list s ! j; s1 = abort_tabs s
           in if tab_url t = None \<or> tab_jobs s1 \<noteq> [] \<and> tab_cached t then Inr (dequeue_tabs s1)
              else Inr (dequeue_tabs ((map_tabs (\<lambda>u. if tab_id u = tab_id t then u\<lparr>tab_busy := True\<rparr> else u) s1)
                     \<lparr>tab_xhr := Some (tab_id t, i)\<rparr>))))"

section \<open>Clicks\<close>

text \<open>The handler bound to the anchors; \<open>ok\<close> is the answer of the page to \<open>select\<close>.\<close>

definition open_tabs :: "tabs \<Rightarrow> nat list" where
  "open_tabs s = map tab_id (filter tab_open (tab_list s))"

definition click_tab :: "bool \<Rightarrow> nat \<Rightarrow> tabs \<Rightarrow> tabs js_result" where
  "click_tab ok i s =
     (let t = tab_list s ! i; hidden = open_tabs s
      in if (tab_sel t \<and> \<not> o_collapsible s) \<or> tab_dis t \<or> tab_busy t then Inr s
         else (let s1 = log_tab (TabSelect (tab_id t)) s
               in if \<not> ok then Inr s1
                  else (let s2 = abort_tabs (s1\<lparr>o_selected := int i\<rparr>)
                        in if o_collapsible s \<and> tab_sel t
                           then Inr (dequeue_tabs (add_job (HideJob hidden) (save_cookie (s2\<lparr>o_selected := -1\<rparr>))))
                           else if o_collapsible s \<and> hidden = []
                           then load_tab (int i) (add_job (ShowJob (tab_id t)) (save_cookie s2))
                           else (let s3 = save_cookie s2
                                 in if tab_valid t
                                    then load_tab (int i) (add_job (ShowJob (tab_id t))
                                           (if hidden \<noteq> [] then add_job (HideJob hidden) s3 else s3))
                                    else Inl (Thrown ''jQuery UI Tabs: Mismatching fragment identifier.'')))))"

text \<open>\<open>select\<close>; an index that no anchor has triggers nothing.\<close>

definition select_tab :: "bool \<Rightarrow> int \<Rightarrow> tabs \<Rightarrow> tabs js_result" where
  "select_tab ok i s =
     (let click = (\<lambda>i. case eq_index (length (tab_list s)) i of Some j \<Rightarrow> click_tab ok j s | None \<Rightarrow> Inr s)
      in if i = -1 then (if o_collapsible s \<and> o_selected s \<noteq> -1 then click (o_selected s) else Inr s)
         else click i)"

text \<open>Rotation: a tick of the timer selects the next tab.\<close>

definition rotate_tick :: "bool \<Rightarrow> tabs \<Rightarrow> tabs js_result" where
  "rotate_tick ok s = (let n = o_selected s + 1 in select_tab ok (if n < int (length (tab_list s)) then n else 0) s)"

section \<open>Tabifying\<close>

text \<open>What \<open>_tabify\<close> does at every run: invalid tabs are added to the disabled ones; at its end
  the cookie, the disabled class and the cache.\<close>

definition note_invalid :: "tabs \<Rightarrow> tabs" where
  "note_invalid s =
     s\<lparr>o_disabled := o_disabled s @ map int (filter (\<lambda>i. tab_panel (tab_list s ! i) = NoHref) [0..<length (tab_list s)])\<rparr>"

definition mark_tabs :: "tabs \<Rightarrow> tabs" where
  "mark_tabs s =
     (let s1 = save_cookie s;
          s2 = s1\<lparr>tab_list := map (\<lambda>i. (tab_list s1 ! i)\<lparr>tab_dis := (int i \<in> set (o_disabled s1) \<and> \<not> tab_sel (tab_list s1 ! i))\<rparr>)
                 [0..<length (tab_list s1)]\<rparr>
      in if o_cache s2 then s2 else map_tabs (\<lambda>t. t\<lparr>tab_cached := False\<rparr>) s2)"

definition tabify :: "tabs \<Rightarrow> tabs" where
  "tabify s = (let s1 = note_invalid s in mark_tabs (s1\<lparr>o_selected := index_where tab_sel (tab_list s1)\<rparr>))"

text \<open>The option \<open>selected\<close> at creation: not given, \<open>null\<close>, or a number.\<close>

datatype selected_option = SelUndefined | SelNull | SelNumber int

text \<open>
  Where an option that is not given is looked up: the fragment of the address, the cookie (its \<open>parseInt\<close>
  is a number even when it is \<open>NaN\<close>), the class in the markup; 0 and \<open>NaN\<close> then give way to the first tab.
\<close>

definition initial_selected :: "selected_option \<Rightarrow> int option \<Rightarrow> tabs \<Rightarrow> int" where
  "initial_selected opt hash s =
     (let n = int (length (tab_list s));
          raw = (case opt of
              SelNumber i \<Rightarrow> i
            | SelNull \<Rightarrow> -1
            | SelUndefined \<Rightarrow>
                (let found = (case hash of
                      Some i \<Rightarrow> i
                    | None \<Rightarrow> if o_cookie s then (case tab_cookie s of Some i \<Rightarrow> i | None \<Rightarrow> 0)
                              else if \<exists>t \<in> set (tab_list s). tab_sel t then index_where tab_sel (tab_list s) else 0)
                 in if found \<noteq> 0 then found else if n > 0 then 0 else -1))
      in if raw < 0 \<or> raw < n then raw else 0)"

text \<open>\<open>$.unique\<close>, made for elements, is taken to drop equal numbers as well; only the members of the list matter.\<close>

definition initial_disabled :: "tabs \<Rightarrow> int list" where
  "initial_disabled s =
     (let all = remdups (o_disabled s @ map int (filter (\<lambda>i. tab_dis (tab_list s ! i)) [0..<length (tab_list s)]))
      in filter (\<lambda>i. i \<noteq> o_selected s) (sort all))"

definition tabs_create :: "selected_option \<Rightarrow> int option \<Rightarrow> tabs \<Rightarrow> tabs js_result" where
  "tabs_create opt hash s =
     (let s1 = note_invalid s;
          s2 = s1\<lparr>o_selected := initial_selected opt hash s1\<rparr>;
          s3 = s2\<lparr>o_disabled := initial_disabled s2\<rparr>;
          s4 = map_tabs (\<lambda>t. t\<lparr>tab_sel := False, tab_open := False\<rparr>) s3
      in if 0 \<le> o_selected s4 \<and> tab_list s4 \<noteq> []
         then (let k = tab_id (tab_list s4 ! nat (o_selected s4));
                   s5 = map_tabs (\<lambda>t. if tab_id t = k then t\<lparr>tab_sel := True, tab_open := tab_valid t\<rparr> else t) s4
               in js_bind (load_tab (o_selected s5) (add_job InitJob s5)) (\<lambda>s6. Inr (mark_tabs s6)))
         else Inr (mark_tabs s4))"

datatype tabs_change = SetCollapsible bool | SetCache bool | SetCookie bool | SetDisabledTabs "int list"

definition tabs_set_option :: "tabs_change \<Rightarrow> tabs \<Rightarrow> tabs" where
  "tabs_set_option c s =
     tabify (case c of
        SetCollapsible b \<Rightarrow> s\<lparr>o_collapsible := b\<rparr>
      | SetCache b \<Rightarrow> s\<lparr>o_cache := b\<rparr>
      | SetCookie b \<Rightarrow> s\<lparr>o_cookie := b\<rparr>
      | SetDisabledTabs ds \<Rightarrow> s\<lparr>o_disabled := ds\<rparr>)"

definition set_selected :: "bool \<Rightarrow> int \<Rightarrow> tabs \<Rightarrow> tabs js_result" where
  "set_selected ok v s = (if o_collapsible s \<and> v = o_selected s then Inr s else select_tab ok v s)"

section \<open>Adding, removing, enabling\<close>

text \<open>A tab is added for a page or, without a URL, for a panel of the document.\<close>

definition new_tab :: "nat \<Rightarrow> string option \<Rightarrow> tab" where
  "new_tab k url =
     \<lparr>tab_id = k, tab_panel = HasPanel, tab_url = url, tab_cached = False, tab_sel = False, tab_dis = False, tab_busy = False, tab_open = False\<rparr>"

text \<open>
  The panel of a new tab: put before the panel at the index, or at the end.  \<open>_tabify\<close> looks the panel of a remote tab up by an id that
  it makes again: it is the same one only if the template of tabs gives the anchor a title, and otherwise a second panel,
  in sight, is made behind that of the tab before, and the first is left behind.
\<close>

definition before_id :: "nat \<Rightarrow> nat \<Rightarrow> nat list \<Rightarrow> nat list" where
  "before_id k p xs = takeWhile (\<lambda>x. x \<noteq> p) xs @ k # dropWhile (\<lambda>x. x \<noteq> p) xs"

definition second_place :: "nat \<Rightarrow> nat \<Rightarrow> tabs \<Rightarrow> nat list" where
  "second_place k i s =
     (let ps = filter (\<lambda>x. x \<in> set (map tab_id (take i (tab_list s)))) (panel_list s); xs = doc_panels s
      in if 0 < i \<and> i \<le> length ps
         then takeWhile (\<lambda>x. x \<noteq> ps ! (i - 1)) xs @ [ps ! (i - 1), k] @ tl (dropWhile (\<lambda>x. x \<noteq> ps ! (i - 1)) xs)
         else k # xs)"

definition add_panel :: "bool \<Rightarrow> string option \<Rightarrow> nat \<Rightarrow> tabs \<Rightarrow> tab \<times> nat list \<times> bool list" where
  "add_panel titled url i s =
     (let n = length (tab_list s); k = next_tab s; ps = panel_list s; attached = (n \<le> i \<or> i < length ps);
          first = (if n \<le> i then doc_panels s @ [k] else if i < length ps then before_id k (ps ! i) (doc_panels s) else doc_panels s)
      in if url = None \<or> (titled \<and> attached)
         then ((new_tab k url)\<lparr>tab_panel := if attached then HasPanel else NoPanel\<rparr>, first, left_panels s)
         else ((new_tab k url)\<lparr>tab_open := True\<rparr>, second_place k (min i n) s, left_panels s @ (if attached then [False] else [])))"

definition add_tab :: "bool \<Rightarrow> string option \<Rightarrow> nat option \<Rightarrow> tabs \<Rightarrow> tabs js_result" where
  "add_tab titled url at_index s =
     (let n = length (tab_list s); index = (case at_index of Some i \<Rightarrow> i | None \<Rightarrow> n); k = next_tab s
      in case add_panel titled url index s of (t, doc, rest) \<Rightarrow>
        (let s1 = s\<lparr>tab_list := take index (tab_list s) @ [t] @ drop index (tab_list s), next_tab := Suc k,
                 o_disabled := map (\<lambda>i. if int index \<le> i then i + 1 else i) (o_disabled s), doc_panels := doc, left_panels := rest\<rparr>;
             s2 = tabify s1;
             r = (if length (tab_list s2) = 1
                  then load_tab 0 (add_job InitJob (map_tabs (\<lambda>t. t\<lparr>tab_sel := True, tab_open := True\<rparr>)
                         (s2\<lparr>o_selected := 0, left_panels := (if url = None \<or> titled then rest else butlast rest @ [True])\<rparr>)))
                  else Inr s2)
         in js_bind r (\<lambda>s3. Inr (log_tab (TabAdd (tab_at s3 (int index))) s3))))"

text \<open>
  \<open>remove\<close>: while the neighbour is selected the widget's lists still have the removed tab.  The
  index may be negative (as it is for a URL that no anchor has), which \<open>eq\<close> takes from the end.
  The panel that goes is the one at the index in the order of the document; another tab may lose its panel by that, and
  then the panel of the removed tab is left behind.
\<close>

definition lose_panel :: "nat option \<Rightarrow> nat option \<Rightarrow> tabs \<Rightarrow> tabs" where
  "lose_panel p k s = (if p = k then s else map_tabs (\<lambda>t. if Some (tab_id t) = p then t\<lparr>tab_panel := NoPanel\<rparr> else t) s)"

definition remove_tab :: "bool \<Rightarrow> int \<Rightarrow> tabs \<Rightarrow> tabs js_result" where
  "remove_tab ok i s =
     (let n = length (tab_list s); gone = eq_index n i; ps = panel_list s;
          sel = (case gone of Some j \<Rightarrow> tab_sel (tab_list s ! j) | None \<Rightarrow> False);
          k = map_option (\<lambda>j. tab_id (tab_list s ! j)) gone;
          p = map_option (\<lambda>j. ps ! j) (eq_index (length ps) i);
          s0 = lose_panel p k s;
          r = (if sel \<and> n > 1 then select_tab ok (i + (if i + 1 < int n then 1 else -1)) s0 else Inr s0)
      in js_bind r (\<lambda>s1.
           (let s2 = s1\<lparr>o_disabled := map (\<lambda>d. if i \<le> d then d - 1 else d) (filter (\<lambda>d. d \<noteq> i) (o_disabled s1)),
                        tab_list := map (\<lambda>u. if Some (tab_id u) = p then u\<lparr>tab_open := False\<rparr> else u)
                                      (filter (\<lambda>u. Some (tab_id u) \<noteq> k) (tab_list s1)),
                        doc_panels := filter (\<lambda>x. Some x \<noteq> p \<and> Some x \<noteq> k) (doc_panels s1),
                        left_panels := left_panels s1 @ (if p = k then []
                          else map tab_open (filter (\<lambda>u. Some (tab_id u) = k \<and> tab_valid u) (tab_list s1)))\<rparr>
            in Inr (log_tab (TabRemove k) (tabify s2)))))"

definition set_dis :: "int \<Rightarrow> bool \<Rightarrow> tabs \<Rightarrow> tabs" where
  "set_dis i b s =
     (case eq_index (length (tab_list s)) i of
        Some j \<Rightarrow> s\<lparr>tab_list := (tab_list s)[j := (tab_list s ! j)\<lparr>tab_dis := b\<rparr>]\<rparr>
      | None \<Rightarrow> s)"

definition enable_tab :: "int \<Rightarrow> tabs \<Rightarrow> tabs" where
  "enable_tab i s =
     (if i \<notin> set (o_disabled s) then s
      else log_tab (TabEnable (tab_at s i)) ((set_dis i False s)\<lparr>o_disabled := filter (\<lambda>k. k \<noteq> i) (o_disabled s)\<rparr>))"

text \<open>The list of disabled indices is sorted, as text in the source; only its members matter.\<close>

definition disable_tab :: "int \<Rightarrow> tabs \<Rightarrow> tabs" where
  "disable_tab i s =
     (if i = o_selected s then s
      else log_tab (TabDisable (tab_at s i)) ((set_dis i True s)\<lparr>o_disabled := sort (o_disabled s @ [i])\<rparr>))"

definition set_url :: "int \<Rightarrow> string \<Rightarrow> tabs \<Rightarrow> tabs" where
  "set_url i url s =
     (case eq_index (length (tab_list s)) i of
        Some j \<Rightarrow> s\<lparr>tab_list := (tab_list s)[j := (tab_list s ! j)\<lparr>tab_cached := False, tab_url := (if url = [] then None else Some url)\<rparr>]\<rparr>
      | None \<Rightarrow> s)"

section \<open>What the tabs show\<close>

text \<open>The effect of the jobs on one tab, and what a tab looks like.\<close>

fun job_effect :: "tab_job list \<Rightarrow> tab \<Rightarrow> tab" where
  "job_effect [] t = t"
| "job_effect (HideJob ids # q) t = job_effect q (t\<lparr>tab_sel := False, tab_open := (tab_open t \<and> tab_id t \<notin> set ids)\<rparr>)"
| "job_effect (ShowJob k # q) t = (if tab_id t = k then t\<lparr>tab_sel := True, tab_open := tab_valid t\<rparr> else t)"
| "job_effect (InitJob # q) t = t"

fun jobs_left :: "tab_job list \<Rightarrow> tab_job list" where
  "jobs_left [] = []"
| "jobs_left (HideJob ids # q) = jobs_left q"
| "jobs_left (ShowJob k # q) = q"
| "jobs_left (InitJob # q) = q"

lemma log_tab_simps [simp]:
  "tab_list (log_tab e s) = tab_list s" "tab_jobs (log_tab e s) = tab_jobs s" "o_selected (log_tab e s) = o_selected s"
  "next_tab (log_tab e s) = next_tab s" "o_disabled (log_tab e s) = o_disabled s" "o_collapsible (log_tab e s) = o_collapsible s"
  "tab_xhr (log_tab e s) = tab_xhr s"
  by (simp_all add: log_tab_def)

lemma job_effect_id [simp]: "job_effect [] = id" "job_effect (InitJob # q) = id"
  by (simp_all add: fun_eq_iff)

lemma run_jobs_simps [simp]:
  "tab_list (run_jobs q s) = map (job_effect q) (tab_list s)" "tab_jobs (run_jobs q s) = jobs_left q"
  "o_selected (run_jobs q s) = o_selected s" "next_tab (run_jobs q s) = next_tab s" "o_disabled (run_jobs q s) = o_disabled s"
  "o_collapsible (run_jobs q s) = o_collapsible s"
  by (induction q s rule: run_jobs.induct) (simp_all add: hide_tab_def show_tab_def map_tabs_def comp_def)

declare run_jobs.simps [simp del]

lemma save_cookie_simps [simp]:
  "tab_list (save_cookie s) = tab_list s" "tab_jobs (save_cookie s) = tab_jobs s" "o_selected (save_cookie s) = o_selected s"
  "next_tab (save_cookie s) = next_tab s" "o_disabled (save_cookie s) = o_disabled s" "o_collapsible (save_cookie s) = o_collapsible s"
  by (simp_all add: save_cookie_def)

definition idle_tab :: "tab \<Rightarrow> tab" where
  "idle_tab t = t\<lparr>tab_busy := False\<rparr>"

lemma abort_simps [simp]:
  "tab_list (abort_tabs s) = map idle_tab (tab_list s)" "tab_jobs (abort_tabs s) = drop (length (tab_jobs s) - 2) (tab_jobs s)"
  "o_selected (abort_tabs s) = o_selected s" "next_tab (abort_tabs s) = next_tab s" "o_disabled (abort_tabs s) = o_disabled s"
  "o_collapsible (abort_tabs s) = o_collapsible s" "tab_xhr (abort_tabs s) = None"
  by (auto simp: abort_tabs_def clean_up_def map_tabs_def request_failed_def Let_def idle_tab_def split: option.split)

text \<open>The part of a tab that the jobs act on.\<close>

definition looks :: "tab \<Rightarrow> nat \<times> bool \<times> bool \<times> bool \<times> bool" where
  "looks t = (tab_id t, tab_valid t, tab_sel t, tab_open t, tab_dis t)"

lemma looks_effect: "looks t = looks u \<Longrightarrow> looks (job_effect q t) = looks (job_effect q u)"
proof (induction q t arbitrary: u rule: job_effect.induct)
  case (2 ids q t)
  then have "looks (t\<lparr>tab_sel := False, tab_open := (tab_open t \<and> tab_id t \<notin> set ids)\<rparr>) =
      looks (u\<lparr>tab_sel := False, tab_open := (tab_open u \<and> tab_id u \<notin> set ids)\<rparr>)"
    by (simp add: looks_def)
  then show ?case using "2.IH" by simp
qed (simp_all add: looks_def)

lemma load_tab_effect:
  assumes "i < length (tab_list s)" and "length (tab_jobs s) \<le> 2"
  shows "\<exists>s'. load_tab (int i) s = Inr s' \<and> map looks (tab_list s') = map (\<lambda>t. looks (job_effect (tab_jobs s) t)) (tab_list s) \<and>
    tab_jobs s' = jobs_left (tab_jobs s) \<and> o_selected s' = o_selected s \<and> next_tab s' = next_tab s \<and>
    o_disabled s' = o_disabled s \<and> o_collapsible s' = o_collapsible s"
proof -
  have j: "drop (length (tab_jobs s) - 2) (tab_jobs s) = tab_jobs s" using assms(2) by simp
  have a: "looks (job_effect q (idle_tab t)) = looks (job_effect q t)" for q t
    by (rule looks_effect) (simp add: looks_def idle_tab_def)
  have b: "looks (job_effect q (if P then (idle_tab t)\<lparr>tab_busy := True\<rparr> else idle_tab t)) = looks (job_effect q t)" for q t P
    by (rule looks_effect) (simp add: looks_def idle_tab_def)
  show ?thesis
    using assms(1) by (auto simp: load_tab_def eq_index_def Let_def dequeue_tabs_def j a b map_tabs_def comp_def)
qed

section \<open>An abstract view\<close>

text \<open>What a user sees: the tabs in their order, the one shown, and the disabled ones.\<close>

record tab_view =
  v_ids :: "nat list"
  v_current :: "nat option"
  v_disabled :: "nat set"

definition tabs_view :: "tabs \<Rightarrow> tab_view" where
  "tabs_view s =
     \<lparr>v_ids = tab_ids s, v_current = map_option tab_id (find tab_sel (tab_list s)),
      v_disabled = set (map tab_id (filter tab_dis (tab_list s)))\<rparr>"

text \<open>
  The state of the widget hangs together: panels are shown for the selected tab only, the option
  \<open>selected\<close> is its index, the disabled class is that of the indices in \<open>disabled\<close>, and no job waits.
\<close>

definition shows_only :: "nat option \<Rightarrow> tab list \<Rightarrow> bool" where
  "shows_only k ts \<longleftrightarrow> list_all (\<lambda>t. tab_valid t \<and> tab_sel t = (k = Some (tab_id t)) \<and> tab_open t = tab_sel t) ts"

definition tabs_ok :: "tabs \<Rightarrow> bool" where
  "tabs_ok s \<longleftrightarrow> distinct (tab_ids s) \<and> list_all (\<lambda>t. tab_id t < next_tab s) (tab_list s) \<and> tab_jobs s = [] \<and>
     shows_only (v_current (tabs_view s)) (tab_list s) \<and> o_selected s = index_where tab_sel (tab_list s) \<and>
     list_all (\<lambda>t. tab_sel t \<longrightarrow> \<not> tab_dis t) (tab_list s) \<and>
     (\<forall>i < length (tab_list s). tab_dis (tab_list s ! i) = (int i \<in> set (o_disabled s))) \<and>
     set (o_disabled s) \<subseteq> {0..<int (length (tab_list s))}"

lemma shows_only_find:
  assumes "shows_only k ts" and "case k of Some j \<Rightarrow> j \<in> set (map tab_id ts) | None \<Rightarrow> True"
  shows "map_option tab_id (find tab_sel ts) = k"
proof (cases "find tab_sel ts")
  case None
  then have "\<not> tab_sel t" if "t \<in> set ts" for t using that by (auto simp: find_None_iff)
  then show ?thesis using assms None by (auto simp: shows_only_def list_all_iff split: option.splits)
next
  case (Some t)
  then have "t \<in> set ts" "tab_sel t" by (auto simp: find_Some_iff)
  then show ?thesis using assms(1) Some by (auto simp: shows_only_def list_all_iff)
qed

lemma shows_only_looks: "map looks ts = map looks us \<Longrightarrow> shows_only k ts = shows_only k us"
proof -
  define P where "P = (\<lambda>(i :: nat, v, s, p, d :: bool). v \<and> s = (k = Some i) \<and> p = s)"
  have "shows_only k xs = list_all P (map looks xs)" for xs
    by (simp add: shows_only_def P_def looks_def list_all_iff)
  then show "map looks ts = map looks us \<Longrightarrow> shows_only k ts = shows_only k us" by simp
qed

lemma find_looks: "map looks ts = map looks us \<Longrightarrow> map_option tab_id (find tab_sel ts) = map_option tab_id (find tab_sel us)"
  by (induction ts us rule: list_induct2') (auto simp: looks_def)

lemma index_looks: "map looks ts = map looks us \<Longrightarrow> index_where tab_sel ts = index_where tab_sel us"
  by (induction ts us rule: list_induct2') (auto simp: looks_def Let_def)

lemma ids_looks: "map looks ts = map looks us \<Longrightarrow> map tab_id ts = map tab_id us"
  by (induction ts us rule: list_induct2') (auto simp: looks_def)

lemma index_where_nth:
  "i < length xs \<Longrightarrow> P (xs ! i) \<Longrightarrow> (\<And>j. j < length xs \<Longrightarrow> P (xs ! j) \<Longrightarrow> j = i) \<Longrightarrow> index_where P xs = int i"
proof (induction xs arbitrary: i)
  case (Cons x xs)
  show ?case
  proof (cases i)
    case 0
    then show ?thesis using Cons.prems by simp
  next
    case (Suc n)
    then have "\<not> P x" using Cons.prems(3) [of 0] by auto
    moreover have "index_where P xs = int n"
      using Cons.prems Suc by (intro Cons.IH) fastforce+
    ultimately show ?thesis using Suc by simp
  qed
qed simp

lemma index_where_none: "(\<And>x. x \<in> set xs \<Longrightarrow> \<not> P x) \<Longrightarrow> index_where P xs = -1"
  by (induction xs) simp_all

lemma index_where_cong: "list_all2 (\<lambda>x y. P x = Q y) xs ys \<Longrightarrow> index_where P xs = index_where Q ys"
  by (induction rule: list_all2_induct) (simp_all add: Let_def)

lemma tabs_ok_settle:
  assumes ok: "tabs_ok s"
    and L: "map looks (tab_list s') = map (\<lambda>t. (tab_id t, True, k = Some (tab_id t), k = Some (tab_id t), tab_dis t)) (tab_list s)"
    and k: "case k of Some j \<Rightarrow> \<exists>t \<in> set (tab_list s). tab_id t = j \<and> \<not> tab_dis t | None \<Rightarrow> True"
    and rest: "tab_jobs s' = []" "next_tab s' = next_tab s" "o_disabled s' = o_disabled s"
    and sel: "o_selected s' = index_where (\<lambda>t. k = Some (tab_id t)) (tab_list s)"
  shows "tabs_ok s' \<and> tabs_view s' = (tabs_view s)\<lparr>v_current := k\<rparr>"
proof -
  have n: "length (tab_list s') = length (tab_list s)" using arg_cong [OF L, of length] by simp
  have at: "tab_id (tab_list s' ! i) = tab_id (tab_list s ! i)" "tab_valid (tab_list s' ! i)"
    "tab_sel (tab_list s' ! i) = (k = Some (tab_id (tab_list s ! i)))" "tab_open (tab_list s' ! i) = tab_sel (tab_list s' ! i)"
    "tab_dis (tab_list s' ! i) = tab_dis (tab_list s ! i)" if "i < length (tab_list s)" for i
    using arg_cong [OF L, of "\<lambda>l. l ! i"] that n by (simp_all add: looks_def)
  have ids: "tab_ids s' = tab_ids s"
    unfolding tab_ids_def by (rule nth_equalityI) (simp_all add: n at)
  have so: "shows_only k (tab_list s')" using at by (simp add: shows_only_def list_all_length n)
  have inj: "distinct (map tab_id (tab_list s))" using ok by (simp add: tabs_ok_def tab_ids_def)
  have cur: "map_option tab_id (find tab_sel (tab_list s')) = k"
    using ids k by (intro shows_only_find [OF so]) (auto simp: tab_ids_def split: option.splits)
  have dis: "map tab_id (filter tab_dis (tab_list s')) = map tab_id (filter tab_dis (tab_list s))"
  proof -
    have m: "map (\<lambda>t. (tab_id t, tab_dis t)) (tab_list s') = map (\<lambda>t. (tab_id t, tab_dis t)) (tab_list s)"
      by (rule nth_equalityI) (simp_all add: n at)
    have f: "map tab_id (filter tab_dis ts) = map fst (filter snd (map (\<lambda>t. (tab_id t, tab_dis t)) ts))" for ts
      by (induction ts) simp_all
    show ?thesis unfolding f [of "tab_list s'"] f [of "tab_list s"] m ..
  qed
  have view: "tabs_view s' = (tabs_view s)\<lparr>v_current := k\<rparr>"
    using ids cur dis by (simp add: tabs_view_def)
  have "index_where tab_sel (tab_list s') = o_selected s'"
    unfolding sel by (rule index_where_cong) (simp add: list_all2_conv_all_nth n at)
  moreover have "list_all (\<lambda>t. tab_sel t \<longrightarrow> \<not> tab_dis t) (tab_list s')"
    unfolding list_all_length
  proof (intro allI impI)
    fix i assume i: "i < length (tab_list s')" and s: "tab_sel (tab_list s' ! i)"
    then have "k = Some (tab_id (tab_list s ! i))" using at n by simp
    then obtain t where t: "t \<in> set (tab_list s)" "tab_id t = tab_id (tab_list s ! i)" "\<not> tab_dis t" using k by auto
    then have "t = tab_list s ! i" using inj i n by (auto simp: distinct_map inj_on_def)
    then show "\<not> tab_dis (tab_list s' ! i)" using t at i n by simp
  qed
  ultimately have "tabs_ok s'"
    using ok so ids rest view at n by (simp add: tabs_ok_def list_all_length)
  with view show ?thesis by simp
qed

text \<open>Clicking a tab, for a user.\<close>

definition view_click :: "bool \<Rightarrow> nat \<Rightarrow> tab_view \<Rightarrow> tab_view" where
  "view_click collapsible k v =
     (if collapsible \<and> v_current v = Some k then v\<lparr>v_current := None\<rparr> else v\<lparr>v_current := Some k\<rparr>)"

text \<open>Whether a click on a tab is let through.\<close>

definition may_click :: "bool \<Rightarrow> tabs \<Rightarrow> nat \<Rightarrow> bool" where
  "may_click ok s i \<longleftrightarrow> (let t = tab_list s ! i in ok \<and> \<not> tab_dis t \<and> \<not> tab_busy t \<and> (o_collapsible s \<or> \<not> tab_sel t))"

lemma tabs_ok_facts:
  assumes "tabs_ok s"
  shows "distinct (map tab_id (tab_list s))" "tab_jobs s = []" "o_selected s = index_where tab_sel (tab_list s)"
    "shows_only (v_current (tabs_view s)) (tab_list s)"
  using assms by (simp_all add: tabs_ok_def tab_ids_def)

lemma tabs_ok_log: "tabs_ok (log_tab e s) = tabs_ok s" "tabs_view (log_tab e s) = tabs_view s"
  by (simp_all add: tabs_ok_def tabs_view_def tab_ids_def)

lemma current_at:
  assumes "tabs_ok s" "t \<in> set (tab_list s)"
  shows "tab_sel t = (v_current (tabs_view s) = Some (tab_id t))" "tab_open t = tab_sel t" "tab_valid t"
  using tabs_ok_facts(4) [OF assms(1)] assms(2) by (auto simp: shows_only_def list_all_iff)

lemma open_tabs_ok: "tabs_ok s \<Longrightarrow> open_tabs s = (case v_current (tabs_view s) of Some k \<Rightarrow> [k] | None \<Rightarrow> [])"
proof -
  assume ok: "tabs_ok s"
  have so: "shows_only (v_current (tabs_view s)) (tab_list s)" and d: "distinct (map tab_id (tab_list s))"
    using tabs_ok_facts [OF ok] by simp_all
  have "map tab_id (filter tab_open ts) = (case map_option tab_id (find tab_sel ts) of Some k \<Rightarrow> [k] | None \<Rightarrow> [])"
    if "shows_only k ts" "distinct (map tab_id ts)" for k ts
    using that
  proof (induction ts)
    case (Cons t ts)
    have none: "filter tab_open ts = []" if "tab_sel t"
      using that Cons.prems by (auto simp: shows_only_def filter_empty_conv list_all_iff)
    from Cons show ?case using none by (auto simp: shows_only_def)
  qed simp
  from this [OF so d] show ?thesis by (simp add: open_tabs_def tabs_view_def)
qed

lemma click_refines:
  assumes ok: "tabs_ok s" and i: "i < length (tab_list s)"
  shows "\<exists>s'. click_tab answer i s = Inr s' \<and> tabs_ok s' \<and> o_disabled s' = o_disabled s \<and> o_collapsible s' = o_collapsible s \<and>
    length (tab_list s') = length (tab_list s) \<and>
    tabs_view s' = (if may_click answer s i then view_click (o_collapsible s) (tab_id (tab_list s ! i)) (tabs_view s) else tabs_view s)"
proof -
  define t where "t = tab_list s ! i"
  have t: "t \<in> set (tab_list s)" using i by (simp add: t_def)
  note facts = tabs_ok_facts [OF ok] and cur = current_at [OF ok t]
  show ?thesis
  proof (cases "may_click answer s i")
    case False
    then show ?thesis
      using ok i by (auto simp: may_click_def click_tab_def Let_def t_def [symmetric] tabs_ok_log)
  next
    case True
    then have go: "answer" "\<not> tab_dis t" "\<not> tab_busy t" "o_collapsible s \<or> \<not> tab_sel t"
      by (simp_all add: may_click_def Let_def t_def)
    define s2 where "s2 = abort_tabs ((log_tab (TabSelect (tab_id t)) s)\<lparr>o_selected := int i\<rparr>)"
    have two: "tab_list s2 = map idle_tab (tab_list s)" "tab_jobs s2 = []" "o_selected s2 = int i" "next_tab s2 = next_tab s"
      "o_disabled s2 = o_disabled s" "o_collapsible s2 = o_collapsible s"
      using facts(2) by (simp_all add: s2_def)
    have inj: "tab_id u = tab_id t \<longleftrightarrow> u = t" if "u \<in> set (tab_list s)" for u
      using facts(1) t that by (auto simp: distinct_map inj_on_def)
    show ?thesis
    proof (cases "o_collapsible s \<and> tab_sel t")
      case True
      define s3 where "s3 = dequeue_tabs (add_job (HideJob (open_tabs s)) (save_cookie (s2\<lparr>o_selected := -1\<rparr>)))"
      have r: "click_tab answer i s = Inr s3"
        using go True by (simp add: click_tab_def Let_def t_def [symmetric] s2_def s3_def)
      have "map looks (tab_list s3) = map (\<lambda>u. (tab_id u, True, None = Some (tab_id u), None = Some (tab_id u), tab_dis u)) (tab_list s)"
        using two current_at [OF ok] open_tabs_ok [OF ok]
        by (auto simp: s3_def dequeue_tabs_def add_job_def looks_def idle_tab_def split: option.split)
      moreover have "o_selected s3 = index_where (\<lambda>u. None = Some (tab_id u)) (tab_list s)"
        by (subst index_where_none) (simp_all add: s3_def dequeue_tabs_def add_job_def)
      ultimately have "tabs_ok s3 \<and> tabs_view s3 = (tabs_view s)\<lparr>v_current := None\<rparr>"
        using two by (intro tabs_ok_settle [OF ok]) (simp_all add: s3_def dequeue_tabs_def add_job_def)
      then show ?thesis
        using r \<open>may_click answer s i\<close> True cur two
        by (simp add: view_click_def t_def [symmetric]) (simp add: s3_def dequeue_tabs_def add_job_def)
    next
      case False
      define q where "q = (if open_tabs s \<noteq> [] then [HideJob (open_tabs s), ShowJob (tab_id t)] else [ShowJob (tab_id t)])"
      define s4 where "s4 = (save_cookie s2)\<lparr>tab_jobs := q\<rparr>"
      have r: "click_tab answer i s = load_tab (int i) s4"
        using go False cur two unfolding click_tab_def Let_def t_def [symmetric] s2_def [symmetric]
        by (auto simp: s4_def q_def add_job_def)
      have l: "length q \<le> 2" by (simp add: q_def)
      obtain s5 where five: "load_tab (int i) s4 = Inr s5" "map looks (tab_list s5) = map (\<lambda>u. looks (job_effect q u)) (tab_list s4)"
        "tab_jobs s5 = jobs_left q" "o_selected s5 = int i" "next_tab s5 = next_tab s" "o_disabled s5 = o_disabled s"
        "o_collapsible s5 = o_collapsible s"
        using load_tab_effect [of i s4] i two l by (auto simp: s4_def)
      have "looks (job_effect q (idle_tab u)) =
          (tab_id u, True, Some (tab_id t) = Some (tab_id u), Some (tab_id t) = Some (tab_id u), tab_dis u)" if "u \<in> set (tab_list s)" for u
        using current_at [OF ok that] open_tabs_ok [OF ok] by (auto simp: q_def looks_def idle_tab_def split: option.splits)
      then have "map looks (tab_list s5) = map (\<lambda>u. (tab_id u, True, Some (tab_id t) = Some (tab_id u),
          Some (tab_id t) = Some (tab_id u), tab_dis u)) (tab_list s)"
        using five(2) two by (simp add: s4_def)
      moreover have "int i = index_where (\<lambda>u. Some (tab_id t) = Some (tab_id u)) (tab_list s)"
      proof (rule index_where_nth [symmetric])
        show "j = i" if "j < length (tab_list s)" "Some (tab_id t) = Some (tab_id (tab_list s ! j))" for j
          using nth_eq_iff_index_eq [OF facts(1), of i j] i that by (simp add: t_def)
      qed (simp_all add: i t_def)
      ultimately have "tabs_ok s5 \<and> tabs_view s5 = (tabs_view s)\<lparr>v_current := Some (tab_id t)\<rparr>"
        using five go t by (intro tabs_ok_settle [OF ok]) (auto simp: q_def)
      moreover have "length (tab_list s5) = length (tab_list s)" using arg_cong [OF five(2), of length] two by (simp add: s4_def)
      ultimately show ?thesis
        using r five \<open>may_click answer s i\<close> False cur by (auto simp: view_click_def t_def [symmetric])
    qed
  qed
qed

section \<open>The other operations\<close>

text \<open>\<open>_tabify\<close> settles a list of tabs of which at most one is selected.\<close>

lemma tabify_list:
  assumes "shows_only k (tab_list s)"
  shows "tab_list (tabify s) = map (\<lambda>i. let t = tab_list s ! i; d = (int i \<in> set (o_disabled s) \<and> \<not> tab_sel t)
      in t\<lparr>tab_dis := d, tab_cached := (o_cache s \<and> tab_cached t)\<rparr>) [0..<length (tab_list s)]"
    and "tab_jobs (tabify s) = tab_jobs s" "next_tab (tabify s) = next_tab s" "o_disabled (tabify s) = o_disabled s"
    and "o_selected (tabify s) = index_where tab_sel (tab_list s)" "o_collapsible (tabify s) = o_collapsible s"
proof -
  have v: "filter (\<lambda>i. tab_panel (tab_list s ! i) = NoHref) [0..<length (tab_list s)] = []"
    using assms by (auto simp: shows_only_def list_all_length filter_empty_conv)
  have n: "note_invalid s = s" by (simp add: note_invalid_def v)
  show "tab_list (tabify s) = map (\<lambda>i. let t = tab_list s ! i; d = (int i \<in> set (o_disabled s) \<and> \<not> tab_sel t)
      in t\<lparr>tab_dis := d, tab_cached := (o_cache s \<and> tab_cached t)\<rparr>) [0..<length (tab_list s)]"
    "tab_jobs (tabify s) = tab_jobs s" "next_tab (tabify s) = next_tab s" "o_disabled (tabify s) = o_disabled s"
    "o_selected (tabify s) = index_where tab_sel (tab_list s)" "o_collapsible (tabify s) = o_collapsible s"
    by (simp_all add: tabify_def n Let_def mark_tabs_def save_cookie_def map_tabs_def)
qed

lemma in_range: "ds \<subseteq> {0..<int n} \<Longrightarrow> d \<in> ds \<Longrightarrow> 0 \<le> d \<and> d < int n \<and> nat d < n"
  by (drule (1) subsetD) (auto simp: nat_less_iff)

lemma set_filter_at:
  assumes r: "ds \<subseteq> {0..<int (length xs)}" and d: "\<And>i. i < length xs \<Longrightarrow> P (xs ! i) = (int i \<in> ds)"
  shows "set (filter P xs) = (\<lambda>d. xs ! nat d) ` ds"
proof (intro set_eqI iffI)
  fix x assume "x \<in> set (filter P xs)"
  then obtain i where "i < length xs" "x = xs ! i" "P x" by (auto simp: in_set_conv_nth)
  then show "x \<in> (\<lambda>d. xs ! nat d) ` ds" using d by (intro image_eqI [of _ _ "int i"]) auto
next
  fix x assume "x \<in> (\<lambda>d. xs ! nat d) ` ds"
  then obtain e where e: "e \<in> ds" "x = xs ! nat e" by blast
  then have "0 \<le> e" "nat e < length xs" using in_range [OF r] by auto
  then show "x \<in> set (filter P xs)" using e d [of "nat e"] by simp
qed

lemma tabify_ok:
  assumes d: "distinct (tab_ids s)" and lt: "list_all (\<lambda>t. tab_id t < next_tab s) (tab_list s)" and jobs: "tab_jobs s = []"
    and so: "shows_only k (tab_list s)" and k: "case k of Some j \<Rightarrow> j \<in> set (tab_ids s) | None \<Rightarrow> True"
    and rng: "set (o_disabled s) \<subseteq> {0..<int (length (tab_list s))}"
    and sel: "\<And>i. i < length (tab_list s) \<Longrightarrow> int i \<in> set (o_disabled s) \<Longrightarrow> \<not> tab_sel (tab_list s ! i)"
  shows "tabs_ok (tabify s) \<and> tabs_view (tabify s) =
    \<lparr>v_ids = tab_ids s, v_current = k, v_disabled = (\<lambda>i. tab_id (tab_list s ! nat i)) ` set (o_disabled s)\<rparr>"
proof -
  note T = tabify_list [OF so]
  have n: "length (tab_list (tabify s)) = length (tab_list s)" by (simp add: T(1))
  have at: "tab_id (tab_list (tabify s) ! i) = tab_id (tab_list s ! i)" "tab_valid (tab_list (tabify s) ! i) = tab_valid (tab_list s ! i)"
    "tab_sel (tab_list (tabify s) ! i) = tab_sel (tab_list s ! i)" "tab_open (tab_list (tabify s) ! i) = tab_open (tab_list s ! i)"
    "tab_dis (tab_list (tabify s) ! i) = (int i \<in> set (o_disabled s))" if "i < length (tab_list s)" for i
    using that sel [OF that] by (auto simp: T(1) Let_def)
  have ids: "tab_ids (tabify s) = tab_ids s" unfolding tab_ids_def by (rule nth_equalityI) (simp_all add: n at)
  have so': "shows_only k (tab_list (tabify s))" using so at by (simp add: shows_only_def list_all_length n)
  have "case k of Some j \<Rightarrow> j \<in> set (map tab_id (tab_list (tabify s))) | None \<Rightarrow> True"
    using k unfolding ids [symmetric] by (simp only: tab_ids_def)
  then have cur: "map_option tab_id (find tab_sel (tab_list (tabify s))) = k" by (rule shows_only_find [OF so'])
  have "set (map tab_id (filter tab_dis (tab_list (tabify s)))) = (\<lambda>i. tab_id (tab_list s ! nat i)) ` set (o_disabled s)"
  proof -
    have "set (filter tab_dis (tab_list (tabify s))) = (\<lambda>i. tab_list (tabify s) ! nat i) ` set (o_disabled s)"
      using rng at(5) n by (intro set_filter_at) simp_all
    moreover have "tab_id (tab_list (tabify s) ! nat d) = tab_id (tab_list s ! nat d)" if "d \<in> set (o_disabled s)" for d
      using in_range [OF rng that] by (intro at(1)) simp
    ultimately show ?thesis by (simp add: image_image)
  qed
  then have view: "tabs_view (tabify s) =
      \<lparr>v_ids = tab_ids s, v_current = k, v_disabled = (\<lambda>i. tab_id (tab_list s ! nat i)) ` set (o_disabled s)\<rparr>"
    using ids cur by (simp add: tabs_view_def)
  have "o_selected (tabify s) = index_where tab_sel (tab_list (tabify s))"
    unfolding T(5) by (rule index_where_cong) (simp add: list_all2_conv_all_nth n at)
  then have "tabs_ok (tabify s)"
    using d lt jobs so' ids view at rng sel by (auto simp: tabs_ok_def list_all_length n T(2-4))
  with view show ?thesis by simp
qed

text \<open>The panels are in the order of the tabs.\<close>

definition panels_in_order :: "tabs \<Rightarrow> bool" where
  "panels_in_order s \<longleftrightarrow> doc_panels s = tab_ids s"

lemma panel_list_ok: "tabs_ok s \<Longrightarrow> panels_in_order s \<Longrightarrow> panel_list s = tab_ids s"
proof -
  assume ok: "tabs_ok s" and o: "panels_in_order s"
  have "list_ex (\<lambda>t. tab_id t = k \<and> tab_valid t) (tab_list s)" if "k \<in> set (tab_ids s)" for k
    using that ok by (auto simp: tabs_ok_def shows_only_def list_all_iff list_ex_iff tab_ids_def)
  then show "panel_list s = tab_ids s" using o by (simp add: panel_list_def panels_in_order_def filter_id_conv)
qed

lemma before_id_nth: "distinct xs \<Longrightarrow> i < length xs \<Longrightarrow> before_id k (xs ! i) xs = take i xs @ k # drop i xs"
proof -
  assume d: "distinct xs" "i < length xs"
  have "takeWhile (\<lambda>x. x \<noteq> xs ! i) xs = take i xs"
    using d by (intro takeWhile_eq_take_P_nth) (auto simp: nth_eq_iff_index_eq)
  then show ?thesis using d(2) by (simp add: before_id_def dropWhile_eq_drop)
qed

lemma add_panel_ok:
  assumes "tabs_ok s" and "panels_in_order s" and "url = None \<or> titled"
  shows "add_panel titled url i s =
    (new_tab (next_tab s) url, take i (tab_ids s) @ [next_tab s] @ drop i (tab_ids s), left_panels s)"
proof -
  have p: "panel_list s = tab_ids s" by (rule panel_list_ok [OF assms(1,2)])
  have n: "length (tab_ids s) = length (tab_list s)" by (simp add: tab_ids_def)
  have d: "distinct (tab_ids s)" using assms(1) by (simp add: tabs_ok_def)
  show ?thesis
    using assms(2,3) before_id_nth [OF d, of i "next_tab s"] n
    by (auto simp: add_panel_def Let_def p panels_in_order_def new_tab_def)
qed

text \<open>Adding and removing a tab, for a user.\<close>

definition view_add :: "nat \<Rightarrow> nat \<Rightarrow> tab_view \<Rightarrow> tab_view" where
  "view_add k i v =
     v\<lparr>v_ids := take i (v_ids v) @ [k] @ drop i (v_ids v), v_current := (if v_ids v = [] then Some k else v_current v)\<rparr>"

text \<open>Removing the tab shown shows its right neighbour, or the left one of the last tab, if that may be clicked.\<close>

definition neighbour :: "nat \<Rightarrow> nat \<Rightarrow> nat" where
  "neighbour n i = (if i + 1 < n then i + 1 else i - 1)"

definition view_remove :: "(nat \<Rightarrow> bool) \<Rightarrow> nat \<Rightarrow> tab_view \<Rightarrow> tab_view" where
  "view_remove may i v =
     (let k = v_ids v ! i; j = neighbour (length (v_ids v)) i
      in \<lparr>v_ids = filter (\<lambda>x. x \<noteq> k) (v_ids v),
          v_current = (if v_current v = Some k then (if length (v_ids v) > 1 \<and> may j then Some (v_ids v ! j) else None) else v_current v),
          v_disabled = v_disabled v - {k}\<rparr>)"

lemma disabled_view: "tabs_ok s \<Longrightarrow> v_disabled (tabs_view s) = (\<lambda>i. tab_id (tab_list s ! nat i)) ` set (o_disabled s)"
proof -
  assume ok: "tabs_ok s"
  have r: "set (o_disabled s) \<subseteq> {0..<int (length (tab_list s))}"
    and d: "\<And>i. i < length (tab_list s) \<Longrightarrow> tab_dis (tab_list s ! i) = (int i \<in> set (o_disabled s))"
    using ok by (simp_all add: tabs_ok_def)
  have "set (filter tab_dis (tab_list s)) = (\<lambda>i. tab_list s ! nat i) ` set (o_disabled s)"
    using r d by (rule set_filter_at)
  then show ?thesis by (auto simp: tabs_view_def image_image)
qed

lemma new_tab_simps [simp]:
  "tab_id (new_tab k u) = k" "tab_valid (new_tab k u)" "\<not> tab_sel (new_tab k u)" "\<not> tab_open (new_tab k u)" "\<not> tab_dis (new_tab k u)"
  by (simp_all add: new_tab_def)

lemma order_log [simp]: "panels_in_order (log_tab e s) = panels_in_order s" "doc_panels (log_tab e s) = doc_panels s"
  by (simp_all add: log_tab_def panels_in_order_def tab_ids_def)

lemma doc_tabify [simp]: "doc_panels (tabify s) = doc_panels s"
  by (simp add: tabify_def note_invalid_def mark_tabs_def save_cookie_def map_tabs_def Let_def)

lemma doc_run_jobs [simp]: "doc_panels (run_jobs q s) = doc_panels s"
  by (induction q s rule: run_jobs.induct) (simp_all add: run_jobs.simps hide_tab_def show_tab_def map_tabs_def)

lemma doc_request [simp]: "doc_panels (request_failed s) = doc_panels s" "doc_panels (request_done s) = doc_panels s"
  by (auto simp: request_failed_def request_done_def clean_up_def map_tabs_def Let_def split: option.split)

lemma doc_abort [simp]: "doc_panels (abort_tabs s) = doc_panels s" "doc_panels (save_cookie s) = doc_panels s"
  by (simp_all add: abort_tabs_def clean_up_def map_tabs_def Let_def save_cookie_def)

lemma doc_load: "load_tab i s = Inr s' \<Longrightarrow> doc_panels s' = doc_panels s"
  by (auto simp: load_tab_def Let_def dequeue_tabs_def map_tabs_def split: option.splits if_splits)

lemma doc_click: "click_tab answer i s = Inr s' \<Longrightarrow> doc_panels s' = doc_panels s"
  by (auto simp: click_tab_def Let_def dequeue_tabs_def add_job_def dest!: doc_load split: if_splits)

lemma doc_select: "select_tab answer i s = Inr s' \<Longrightarrow> doc_panels s' = doc_panels s"
  by (auto simp: select_tab_def Let_def dest: doc_click split: if_splits option.splits)

lemma add_refines:
  fixes at_index :: "nat option"
  assumes ok: "tabs_ok s" and order: "panels_in_order s" and url: "url = None \<or> titled"
  defines "i \<equiv> (case at_index of Some i \<Rightarrow> i | None \<Rightarrow> length (tab_list s))"
  shows "\<exists>s'. add_tab titled url at_index s = Inr s' \<and> tabs_ok s' \<and> panels_in_order s' \<and> tabs_view s' = view_add (next_tab s) i (tabs_view s) \<and>
    o_collapsible s' = o_collapsible s"
proof -
  define t where "t = new_tab (next_tab s) url"
  define s1 where "s1 = s\<lparr>tab_list := take i (tab_list s) @ [t] @ drop i (tab_list s), next_tab := Suc (next_tab s),
    o_disabled := map (\<lambda>d. if int i \<le> d then d + 1 else d) (o_disabled s),
    doc_panels := take i (tab_ids s) @ [next_tab s] @ drop i (tab_ids s), left_panels := left_panels s\<rparr>"
  note panel = add_panel_ok [OF ok order url, of i]
  define k where "k = v_current (tabs_view s)"
  have so: "shows_only k (tab_list s)" and dist: "distinct (tab_ids s)" and lt: "list_all (\<lambda>t. tab_id t < next_tab s) (tab_list s)"
    and jobs: "tab_jobs s = []" and rng: "set (o_disabled s) \<subseteq> {0..<int (length (tab_list s))}"
    and dis: "\<And>i. i < length (tab_list s) \<Longrightarrow> tab_dis (tab_list s ! i) = (int i \<in> set (o_disabled s))"
    and sd: "list_all (\<lambda>t. tab_sel t \<longrightarrow> \<not> tab_dis t) (tab_list s)"
    using ok by (simp_all add: tabs_ok_def k_def)
  have kin: "case k of Some j \<Rightarrow> j \<in> set (tab_ids s) | None \<Rightarrow> True"
    by (auto simp: k_def tabs_view_def tab_ids_def find_Some_iff split: option.split)
  have klt: "k \<noteq> Some (next_tab s)" using kin lt by (fastforce simp: tab_ids_def list_all_iff)
  have ids: "tab_ids s1 = take i (tab_ids s) @ [next_tab s] @ drop i (tab_ids s)"
    by (simp add: s1_def tab_ids_def t_def take_map drop_map)
  have fresh: "next_tab s \<notin> set (tab_ids s)" using lt by (fastforce simp: tab_ids_def list_all_iff)
  have set1: "set (tab_list s1) = insert t (set (tab_list s))"
    by (simp add: s1_def) (metis append_take_drop_id set_append)
  have one: "distinct (tab_ids s1)" "list_all (\<lambda>t. tab_id t < next_tab s1) (tab_list s1)" "tab_jobs s1 = []"
    "shows_only k (tab_list s1)" "case k of Some j \<Rightarrow> j \<in> set (tab_ids s1) | None \<Rightarrow> True"
  proof -
    show "distinct (tab_ids s1)"
      using dist fresh by (simp add: ids set_take_disj_set_drop_if_distinct) (meson in_set_dropD in_set_takeD)
    show "list_all (\<lambda>t. tab_id t < next_tab s1) (tab_list s1)"
      using lt by (auto simp: list_all_iff set1 t_def) (auto simp: s1_def less_SucI)
    show "tab_jobs s1 = []" using jobs by (simp add: s1_def)
    show "shows_only k (tab_list s1)"
      using so klt by (auto simp: shows_only_def list_all_iff set1 t_def)
    show "case k of Some j \<Rightarrow> j \<in> set (tab_ids s1) | None \<Rightarrow> True"
      using kin by (auto simp: tab_ids_def set1 split: option.splits)
  qed
  have n1: "length (tab_list s1) = Suc (length (tab_list s))" by (simp add: s1_def)
  have nth1: "tab_list s1 ! nat (if int i \<le> d then d + 1 else d) = tab_list s ! nat d" if "0 \<le> d" "d < int (length (tab_list s))" for d
    using that by (auto simp: s1_def nth_append min_def nat_add_distrib)
  have rng1: "set (o_disabled s1) \<subseteq> {0..<int (length (tab_list s1))}"
    using subsetD [OF rng] unfolding n1 by (force simp: s1_def)
  have sel1: "\<not> tab_sel (tab_list s1 ! j)" if "j < length (tab_list s1)" "int j \<in> set (o_disabled s1)" for j
  proof -
    from that(2) obtain d where d: "d \<in> set (o_disabled s)" "int j = (if int i \<le> d then d + 1 else d)" by (auto simp: s1_def)
    then have r: "0 \<le> d" "d < int (length (tab_list s))" using rng by auto
    have "tab_list s1 ! j = tab_list s ! nat d" using nth1 [OF r] d(2) by (metis nat_int)
    moreover have "tab_dis (tab_list s ! nat d)" using dis [of "nat d"] r d(1) by simp
    ultimately show ?thesis using sd r by (auto simp: list_all_length)
  qed
  define s2 where "s2 = tabify s1"
  have s2: "tabs_ok s2" "tabs_view s2 = \<lparr>v_ids = tab_ids s1, v_current = k,
      v_disabled = (\<lambda>i. tab_id (tab_list s1 ! nat i)) ` set (o_disabled s1)\<rparr>"
    using tabify_ok [OF one rng1 sel1] by (simp_all add: s2_def)
  have "(\<lambda>i. tab_id (tab_list s1 ! nat i)) ` set (o_disabled s1) = v_disabled (tabs_view s)"
  proof -
    have "o_disabled s1 = map (\<lambda>d. if int i \<le> d then d + 1 else d) (o_disabled s)" by (simp add: s1_def)
    then have "(\<lambda>i. tab_id (tab_list s1 ! nat i)) ` set (o_disabled s1) =
        (\<lambda>d. tab_id (tab_list s1 ! nat (if int i \<le> d then d + 1 else d))) ` set (o_disabled s)"
      by (simp only: set_map image_image)
    also have "\<dots> = (\<lambda>d. tab_id (tab_list s ! nat d)) ` set (o_disabled s)"
      using in_range [OF rng] nth1 by (intro image_cong) simp_all
    finally show ?thesis by (simp add: disabled_view [OF ok])
  qed
  then have v2: "tabs_view s2 = (tabs_view s)\<lparr>v_ids := take i (v_ids (tabs_view s)) @ [next_tab s] @ drop i (v_ids (tabs_view s))\<rparr>"
    by (simp add: s2 ids k_def) (simp add: tabs_view_def)
  show ?thesis
  proof (cases "tab_list s = []")
    case False
    then have "length (tab_list s2) \<noteq> 1"
      using arg_cong [OF s2(2), of "\<lambda>v. length (v_ids v)"] n1 by (simp add: tabs_view_def tab_ids_def)
    then have r: "add_tab titled url at_index s = Inr (log_tab (TabAdd (tab_at s2 (int i))) s2)"
      unfolding add_tab_def Let_def i_def [symmetric] panel prod.case t_def [symmetric] s1_def [symmetric] s2_def [symmetric] by simp
    have "v_ids (tabs_view s) \<noteq> []" using False by (simp add: tabs_view_def tab_ids_def)
    moreover have "o_collapsible s2 = o_collapsible s" by (simp add: s2_def tabify_list(6) [OF one(4)]) (simp add: s1_def)
    moreover have "panels_in_order s2"
      using doc_tabify [of s1] arg_cong [OF s2(2), of v_ids] by (simp add: panels_in_order_def s2_def tabs_view_def ids) (simp add: s1_def)
    ultimately show ?thesis using r s2(1) v2 by (simp add: tabs_ok_log view_add_def order_log)
  next
    case True
    then have "v_ids (tabs_view s2) = [next_tab s]" using s2(2) ids by (simp add: tab_ids_def)
    then obtain u where u: "tab_list s2 = [u]" "tab_id u = next_tab s" by (auto simp: tabs_view_def tab_ids_def)
    have nodis: "o_disabled s2 = []" unfolding s2_def tabify_list(4) [OF one(4)] using rng True by (simp add: s1_def)
    then have u': "tab_valid u" "\<not> tab_dis u" "tab_jobs s2 = []" using s2(1) u by (simp_all add: tabs_ok_def shows_only_def)
    define s3 where "s3 = add_job InitJob (map_tabs (\<lambda>t. t\<lparr>tab_sel := True, tab_open := True\<rparr>)
        (s2\<lparr>o_selected := 0, left_panels := (if url = None \<or> titled then left_panels s else butlast (left_panels s) @ [True])\<rparr>))"
    have three: "tab_list s3 = [u\<lparr>tab_sel := True, tab_open := True\<rparr>]" "tab_jobs s3 = [InitJob]" "o_selected s3 = 0"
      "next_tab s3 = next_tab s2" "o_disabled s3 = o_disabled s2" "o_collapsible s3 = o_collapsible s2"
      using u u'(3) by (simp_all add: s3_def add_job_def map_tabs_def)
    obtain s4 where four: "load_tab 0 s3 = Inr s4" "map looks (tab_list s4) = [(next_tab s, True, True, True, False)]"
      "tab_jobs s4 = []" "o_selected s4 = 0" "next_tab s4 = next_tab s2" "o_disabled s4 = o_disabled s2"
      "o_collapsible s4 = o_collapsible s2"
      using load_tab_effect [of 0 s3] three u u' by (auto simp: looks_def)
    have "tabs_ok s4 \<and> tabs_view s4 = (tabs_view s2)\<lparr>v_current := Some (next_tab s)\<rparr>"
      by (rule tabs_ok_settle [OF s2(1)]) (use four u u' in simp_all)
    moreover have "panels_in_order s4"
    proof -
      have "doc_panels s4 = doc_panels s3" using doc_load [OF four(1)] .
      also have "\<dots> = tab_ids s1"
        using doc_tabify [of s1] by (simp add: s3_def s2_def add_job_def map_tabs_def ids) (simp add: s1_def)
      also have "\<dots> = tab_ids s4"
      proof -
        have "tab_ids s1 = [next_tab s]" using True by (simp add: ids) (simp add: tab_ids_def)
        moreover have "tab_ids s4 = [next_tab s]" using four(2) by (auto simp: tab_ids_def looks_def)
        ultimately show ?thesis by simp
      qed
      finally show ?thesis by (simp add: panels_in_order_def)
    qed
    moreover have "add_tab titled url at_index s = Inr (log_tab (TabAdd (tab_at s4 (int i))) s4)"
      unfolding add_tab_def Let_def i_def [symmetric] panel prod.case t_def [symmetric] s1_def [symmetric] s2_def [symmetric] s3_def [symmetric]
      using u four(1) by simp
    moreover have "v_ids (tabs_view s) = []" using True by (simp add: tabs_view_def tab_ids_def)
    moreover have "o_collapsible s4 = o_collapsible s" by (simp add: four s2_def tabify_list(6) [OF one(4)]) (simp add: s1_def)
    ultimately show ?thesis by (simp add: tabs_ok_log v2 view_add_def order_log)
  qed
qed

lemma remove_refines:
  assumes ok: "tabs_ok s" and order: "panels_in_order s" and i: "i < length (tab_list s)"
  shows "\<exists>s'. remove_tab answer (int i) s = Inr s' \<and> tabs_ok s' \<and> panels_in_order s' \<and> o_collapsible s' = o_collapsible s \<and>
    tabs_view s' = view_remove (may_click answer s) i (tabs_view s)"
proof -
  define t where "t = tab_list s ! i"
  define j where "j = neighbour (length (tab_list s)) i"
  have t: "t \<in> set (tab_list s)" using i by (simp add: t_def)
  have e: "eq_index (length (tab_list s)) (int i) = Some i" using i by (simp add: eq_index_def)
  obtain s1 where one: "(if tab_sel t \<and> length (tab_list s) > 1
      then select_tab answer (int i + (if int i + 1 < int (length (tab_list s)) then 1 else -1)) s else Inr s) = Inr s1"
    "tabs_ok s1" "o_disabled s1 = o_disabled s" "o_collapsible s1 = o_collapsible s" "length (tab_list s1) = length (tab_list s)"
    "tabs_view s1 = (if tab_sel t \<and> length (tab_list s) > 1 \<and> may_click answer s j
      then (tabs_view s)\<lparr>v_current := Some (tab_id (tab_list s ! j))\<rparr> else tabs_view s)"
    "doc_panels s1 = doc_panels s"
  proof (cases "tab_sel t \<and> length (tab_list s) > 1")
    case False
    then show ?thesis using that [of s] ok by auto
  next
    case True
    then have j: "int i + (if int i + 1 < int (length (tab_list s)) then 1 else -1) = int j" "j < length (tab_list s)" "j \<noteq> i"
      using i by (auto simp: j_def neighbour_def)
    have ne: "v_current (tabs_view s) \<noteq> Some (tab_id (tab_list s ! j))"
      using current_at [OF ok t] True tabs_ok_facts(1) [OF ok] i j by (auto simp: t_def distinct_conv_nth)
    have "select_tab answer (int j) s = click_tab answer j s" using j by (simp add: select_tab_def eq_index_def)
    with click_refines [OF ok j(2), of answer] doc_click [of answer j s] True j(1) ne that show ?thesis by (auto simp: view_click_def)
  qed
  define k where "k = tab_id t"
  define s2 where "s2 = s1\<lparr>o_disabled := map (\<lambda>d. if int i \<le> d then d - 1 else d) (filter (\<lambda>d. d \<noteq> int i) (o_disabled s1)),
    tab_list := filter (\<lambda>u. Some (tab_id u) \<noteq> Some k) (tab_list s1), doc_panels := filter (\<lambda>x. x \<noteq> k) (doc_panels s1),
    left_panels := left_panels s1\<rparr>"
  have pk: "panel_list s = tab_ids s" "length (tab_ids s) = length (tab_list s)" "tab_ids s ! i = k"
    using panel_list_ok [OF ok order] i by (simp_all add: tab_ids_def k_def t_def)
  have same: "map (\<lambda>u. if tab_id u = k then f u else u) (filter (\<lambda>u. tab_id u \<noteq> k) us) = filter (\<lambda>u. tab_id u \<noteq> k) us" for f and us :: "tab list"
    by (induction us) simp_all
  have e': "eq_index (length (tab_ids s)) (int i) = Some i" using e pk(2) by simp
  have g: "tab_sel (tab_list s ! i) = tab_sel t" "tab_id (tab_list s ! i) = k" by (simp_all add: t_def k_def)
  have r: "remove_tab answer (int i) s = Inr (log_tab (TabRemove (Some k)) (tabify s2))"
    unfolding remove_tab_def Let_def pk(1) e e' option.map option.case pk(3) g lose_panel_def simp_thms(6) if_True one(1) js_bind.simps
    by (simp add: s2_def same)
  have ids1: "tab_ids s1 = tab_ids s" using arg_cong [OF one(6), of v_ids] by (simp add: tabs_view_def split: if_splits)
  then have id1: "tab_id (tab_list s1 ! a) = tab_id (tab_list s ! a)" if "a < length (tab_list s)" for a
    using that one(5) nth_map [of a "tab_list s1" tab_id] nth_map [of a "tab_list s" tab_id] ids1 by (simp add: tab_ids_def)
  have dist: "distinct (map tab_id (tab_list s1))" using tabs_ok_facts(1) [OF one(2)] .
  have list2: "tab_list s2 = take i (tab_list s1) @ drop (Suc i) (tab_list s1)"
  proof -
    have d: "tab_list s1 = take i (tab_list s1) @ tab_list s1 ! i # drop (Suc i) (tab_list s1)"
      using i one(5) by (metis id_take_nth_drop)
    have f: "filter (\<lambda>u. tab_id u \<noteq> k) (xs @ x # ys) = xs @ ys" if "distinct (map tab_id (xs @ x # ys))" "tab_id x = k" for xs x ys
    proof -
      have "filter (\<lambda>u. tab_id u \<noteq> k) xs = xs" "filter (\<lambda>u. tab_id u \<noteq> k) ys = ys"
        using that by (auto simp: filter_id_conv image_iff)
      then show ?thesis using that(2) by simp
    qed
    have "filter (\<lambda>u. tab_id u \<noteq> k) (take i (tab_list s1) @ tab_list s1 ! i # drop (Suc i) (tab_list s1)) =
        take i (tab_list s1) @ drop (Suc i) (tab_list s1)"
    proof (rule f)
      show "distinct (map tab_id (take i (tab_list s1) @ tab_list s1 ! i # drop (Suc i) (tab_list s1)))"
        using dist by (simp only: d [symmetric])
    qed (simp add: id1 [OF i] k_def t_def)
    then show ?thesis using d by (simp add: s2_def)
  qed
  have n2: "Suc (length (tab_list s2)) = length (tab_list s)" using i one(5) by (simp add: list2)
  have sub: "set (tab_list s2) \<subseteq> set (tab_list s1)" by (auto simp: s2_def)
  define c where "c = (if v_current (tabs_view s1) = Some k then None else v_current (tabs_view s1))"
  have rng1: "set (o_disabled s) \<subseteq> {0..<int (length (tab_list s))}" using ok by (simp add: tabs_ok_def)
  have nth2: "tab_list s2 ! nat (if int i \<le> d then d - 1 else d) = tab_list s1 ! nat d"
    if "d \<in> set (o_disabled s)" "d \<noteq> int i" for d
  proof -
    have d: "0 \<le> d" "nat d < length (tab_list s1)" using in_range [OF rng1 that(1)] one(5) by simp_all
    show ?thesis
    proof (cases "int i \<le> d")
      case True
      then have "nat (d - 1) = nat d - 1" "i \<le> nat d - 1" "i < nat d" using that(2) by linarith+
      then show ?thesis using d i one(5) True by (simp add: list2 nth_append)
    next
      case False
      then have "nat d < i" using d by linarith
      then show ?thesis using d i one(5) False by (simp add: list2 nth_append)
    qed
  qed
  have dis2: "set (o_disabled s2) = (\<lambda>d. if int i \<le> d then d - 1 else d) ` (set (o_disabled s) - {int i})"
    by (auto simp: s2_def one(3))
  have two: "distinct (tab_ids s2)" "list_all (\<lambda>t. tab_id t < next_tab s2) (tab_list s2)" "tab_jobs s2 = []"
    "shows_only c (tab_list s2)" "case c of Some j \<Rightarrow> j \<in> set (tab_ids s2) | None \<Rightarrow> True"
    "set (o_disabled s2) \<subseteq> {0..<int (length (tab_list s2))}"
  proof -
    have kin: "case v_current (tabs_view s1) of Some j \<Rightarrow> j \<in> set (tab_ids s1) | None \<Rightarrow> True"
      by (auto simp: tabs_view_def tab_ids_def find_Some_iff split: option.split)
    show "distinct (tab_ids s2)" using dist by (simp add: tab_ids_def s2_def distinct_map_filter)
    show "list_all (\<lambda>t. tab_id t < next_tab s2) (tab_list s2)"
      using one(2) sub by (auto simp: tabs_ok_def list_all_iff s2_def)
    show "tab_jobs s2 = []" using one(2) by (simp add: tabs_ok_def s2_def)
    show "shows_only c (tab_list s2)"
      using one(2) by (auto simp: tabs_ok_def shows_only_def list_all_iff s2_def c_def)
    show "case c of Some j \<Rightarrow> j \<in> set (tab_ids s2) | None \<Rightarrow> True"
      using kin by (auto simp: c_def tab_ids_def s2_def split: option.splits)
    show "set (o_disabled s2) \<subseteq> {0..<int (length (tab_list s2))}"
    proof
      fix e assume "e \<in> set (o_disabled s2)"
      then obtain d where "d \<in> set (o_disabled s)" "d \<noteq> int i" "e = (if int i \<le> d then d - 1 else d)"
        unfolding dis2 by blast
      with in_range [OF rng1] n2 i show "e \<in> {0..<int (length (tab_list s2))}" by force
    qed
  qed
  have sel2: "\<not> tab_sel (tab_list s2 ! a)" if "a < length (tab_list s2)" and dd: "int a \<in> set (o_disabled s2)" for a
  proof -
    obtain d where d: "d \<in> set (o_disabled s)" "d \<noteq> int i" "int a = (if int i \<le> d then d - 1 else d)"
      using dd unfolding dis2 by blast
    have "tab_list s2 ! a = tab_list s1 ! nat d" using nth2 [OF d(1,2)] d(3) by (metis nat_int)
    moreover have "tab_dis (tab_list s1 ! nat d)" "nat d < length (tab_list s1)"
      using one(2,3,5) in_range [OF rng1 d(1)] d(1) by (simp_all add: tabs_ok_def)
    ultimately show ?thesis using one(2) by (auto simp: tabs_ok_def list_all_length)
  qed
  note final = tabify_ok [OF two sel2]
  have ids2: "tab_ids s2 = filter (\<lambda>x. x \<noteq> k) (tab_ids s)"
    unfolding ids1 [symmetric] by (simp add: tab_ids_def s2_def filter_map comp_def)
  have "(\<lambda>d. tab_id (tab_list s2 ! nat d)) ` set (o_disabled s2) =
      (\<lambda>d. tab_id (tab_list s ! nat d)) ` (set (o_disabled s) - {int i})"
    unfolding dis2 image_image using nth2 id1 in_range [OF rng1] by (intro image_cong) auto
  also have "\<dots> = v_disabled (tabs_view s) - {k}"
  proof -
    have "tab_id (tab_list s ! nat d) = k \<longleftrightarrow> d = int i" if "d \<in> set (o_disabled s)" for d
      using nth_eq_iff_index_eq [OF tabs_ok_facts(1) [OF ok], of "nat d" i] in_range [OF rng1 that] i
      by (auto simp: k_def t_def)
    then show ?thesis by (auto simp: disabled_view [OF ok])
  qed
  finally have dv: "(\<lambda>d. tab_id (tab_list s2 ! nat d)) ` set (o_disabled s2) = v_disabled (tabs_view s) - {k}" .
  have len: "length (v_ids (tabs_view s)) = length (tab_list s)" "v_ids (tabs_view s) = tab_ids s" "v_ids (tabs_view s) ! i = k"
    using i by (simp_all add: tabs_view_def tab_ids_def k_def t_def)
  have jk: "tab_id (tab_list s ! j) \<noteq> k" "v_ids (tabs_view s) ! j = tab_id (tab_list s ! j)" if "length (tab_list s) > 1"
    using that i tabs_ok_facts(1) [OF ok] by (auto simp: j_def neighbour_def k_def t_def distinct_conv_nth tabs_view_def tab_ids_def)
  have cv: "c = (if v_current (tabs_view s) = Some k then (if length (tab_list s) > 1 \<and> may_click answer s j
      then Some (tab_id (tab_list s ! j)) else None) else v_current (tabs_view s))"
    using current_at(1) [OF ok t] jk(1) by (auto simp: c_def one(6) k_def)
  have "tabs_view (tabify s2) = view_remove (may_click answer s) i (tabs_view s)"
    using final dv ids2 len cv jk(2) by (auto simp: view_remove_def Let_def j_def)
  moreover have "o_collapsible (tabify s2) = o_collapsible s" by (simp add: tabify_list(6) [OF two(4)]) (simp add: s2_def one(4))
  moreover have "panels_in_order (tabify s2)"
    using arg_cong [OF conjunct2 [OF final], of v_ids] order ids2
    by (simp add: panels_in_order_def tabs_view_def) (simp add: s2_def one(7))
  ultimately show ?thesis using r final by (simp add: tabs_ok_log order_log)
qed

lemma settled_jobs: "tabs_ok s \<Longrightarrow> i < length (tab_list s) \<Longrightarrow> tab_sel (tab_list s ! i) \<longleftrightarrow> o_selected s = int i"
proof -
  assume ok: "tabs_ok s" and i: "i < length (tab_list s)"
  note f = tabs_ok_facts [OF ok]
  have one: "a = b" if "a < length (tab_list s)" "b < length (tab_list s)" "tab_sel (tab_list s ! a)" "tab_sel (tab_list s ! b)" for a b
    using that current_at(1) [OF ok] nth_eq_iff_index_eq [OF f(1), of a b] by simp
  show ?thesis
  proof
    assume "tab_sel (tab_list s ! i)"
    then show "o_selected s = int i" unfolding f(3) using i one by (intro index_where_nth) auto
  next
    assume sel: "o_selected s = int i"
    show "tab_sel (tab_list s ! i)"
    proof (cases "\<exists>a < length (tab_list s). tab_sel (tab_list s ! a)")
      case True
      then obtain a where a: "a < length (tab_list s)" "tab_sel (tab_list s ! a)" by blast
      then have "o_selected s = int a" unfolding f(3) using one by (intro index_where_nth) auto
      then show ?thesis using sel a by simp
    next
      case False
      then have "o_selected s = -1" unfolding f(3) by (intro index_where_none) (auto simp: in_set_conv_nth)
      then show ?thesis using sel by simp
    qed
  qed
qed

lemma enable_disable_ok:
  assumes ok: "tabs_ok s" and i: "i < length (tab_list s)"
  shows "tabs_ok (enable_tab (int i) s)" "tabs_ok (disable_tab (int i) s)"
proof -
  have e: "eq_index (length (tab_list s)) (int i) = Some i" using i by (simp add: eq_index_def)
  define upd where "upd = (\<lambda>b. (tab_list s)[i := (tab_list s ! i)\<lparr>tab_dis := b\<rparr>])"
  have same: "map (\<lambda>t. (tab_id t, tab_valid t, tab_sel t, tab_open t)) (upd b) =
      map (\<lambda>t. (tab_id t, tab_valid t, tab_sel t, tab_open t)) (tab_list s)" for b
    unfolding upd_def using i by (intro nth_equalityI) (auto simp: nth_list_update)
  have part: "length (upd b) = length (tab_list s)" "map tab_id (upd b) = map tab_id (tab_list s)"
    "index_where tab_sel (upd b) = index_where tab_sel (tab_list s)"
    "map_option tab_id (find tab_sel (upd b)) = map_option tab_id (find tab_sel (tab_list s))"
    "shows_only k (upd b) = shows_only k (tab_list s)" for b k
  proof -
    have h: "map (\<lambda>t. (tab_id t, tab_valid t, tab_sel t, tab_open t)) xs = map (\<lambda>t. (tab_id t, tab_valid t, tab_sel t, tab_open t)) ys \<Longrightarrow>
      map tab_id xs = map tab_id ys \<and> index_where tab_sel xs = index_where tab_sel ys \<and>
      map_option tab_id (find tab_sel xs) = map_option tab_id (find tab_sel ys) \<and> shows_only k xs = shows_only k ys" for xs ys
      by (induction xs ys rule: list_induct2') (auto simp: Let_def shows_only_def)
    show "length (upd b) = length (tab_list s)" by (simp add: upd_def)
    show "map tab_id (upd b) = map tab_id (tab_list s)"
      "index_where tab_sel (upd b) = index_where tab_sel (tab_list s)"
      "map_option tab_id (find tab_sel (upd b)) = map_option tab_id (find tab_sel (tab_list s))"
      "shows_only k (upd b) = shows_only k (tab_list s)"
      using h [OF same] by simp_all
  qed
  have at: "tab_id (upd b ! a) = tab_id (tab_list s ! a)" "tab_sel (upd b ! a) = tab_sel (tab_list s ! a)"
    "tab_dis (upd b ! a) = (if a = i then b else tab_dis (tab_list s ! a))" if "a < length (tab_list s)" for a b
    using that i by (auto simp: upd_def nth_list_update)
  have ok': "tabs_ok (log_tab ev (s\<lparr>tab_list := upd b, o_disabled := ds\<rparr>))"
    if "set ds = (if b then insert (int i) (set (o_disabled s)) else set (o_disabled s) - {int i})" "b \<Longrightarrow> \<not> tab_sel (tab_list s ! i)" for b ds ev
    using ok that i unfolding tabs_ok_log(1)
    by (auto simp: tabs_ok_def tab_ids_def tabs_view_def part list_all_length at split: if_splits)
  show "tabs_ok (enable_tab (int i) s)"
    using ok ok' [of "filter (\<lambda>k. k \<noteq> int i) (o_disabled s)" False] by (auto simp: enable_tab_def set_dis_def e upd_def)
  show "tabs_ok (disable_tab (int i) s)"
    using ok ok' [of "sort (o_disabled s @ [int i])" True] settled_jobs [OF ok i] by (auto simp: disable_tab_def set_dis_def e upd_def)
qed

section \<open>Every use of the widget\<close>

lemma tabs_ok_same:
  assumes ok: "tabs_ok s" and L: "map looks (tab_list s') = map looks (tab_list s)"
    and rest: "tab_jobs s' = []" "next_tab s' = next_tab s" "o_disabled s' = o_disabled s" "o_selected s' = o_selected s"
  shows "tabs_ok s'"
proof -
  have kin: "case v_current (tabs_view s) of Some j \<Rightarrow> \<exists>t \<in> set (tab_list s). tab_id t = j \<and> \<not> tab_dis t | None \<Rightarrow> True"
    using ok by (auto simp: tabs_ok_def tabs_view_def list_all_iff find_Some_iff split: option.split)
  have "map looks (tab_list s) = map (\<lambda>t. (tab_id t, True, v_current (tabs_view s) = Some (tab_id t),
      v_current (tabs_view s) = Some (tab_id t), tab_dis t)) (tab_list s)"
    using current_at [OF ok] by (auto simp: looks_def)
  moreover have "o_selected s' = index_where (\<lambda>t. v_current (tabs_view s) = Some (tab_id t)) (tab_list s)"
    unfolding rest(4) tabs_ok_facts(3) [OF ok] using current_at(1) [OF ok]
    by (intro index_where_cong) (simp add: list_all2_conv_all_nth)
  ultimately show ?thesis using tabs_ok_settle [OF ok _ kin rest(1-3)] L by simp
qed

lemma request_ok: "tabs_ok s \<Longrightarrow> tabs_ok (request_done s)" "tabs_ok s \<Longrightarrow> tabs_ok (request_failed s)"
  by (rule tabs_ok_same, assumption;
      auto simp: request_done_def request_failed_def clean_up_def map_tabs_def Let_def looks_def tabs_ok_def split: option.split)+

lemma select_ok:
  assumes ok: "tabs_ok s" and i: "-1 \<le> i"
  shows "\<exists>s'. select_tab answer i s = Inr s' \<and> tabs_ok s'"
proof -
  have c: "\<exists>s'. (case eq_index (length (tab_list s)) j of Some k \<Rightarrow> click_tab answer k s | None \<Rightarrow> Inr s) = Inr s' \<and> tabs_ok s'"
    if "0 \<le> j" for j
    using click_refines [OF ok, of "nat j" answer] ok that by (cases "nat j < length (tab_list s)") (auto simp: eq_index_def)
  have "-1 \<le> o_selected s"
  proof -
    have "-1 \<le> index_where P xs" for P :: "tab \<Rightarrow> bool" and xs by (induction xs) (simp_all add: Let_def)
    then show ?thesis using tabs_ok_facts(3) [OF ok] by simp
  qed
  then have "o_selected s \<noteq> -1 \<Longrightarrow> 0 \<le> o_selected s" by simp
  then show ?thesis using c [of i] c [of "o_selected s"] i ok by (auto simp: select_tab_def Let_def)
qed

lemma load_ok: "tabs_ok s \<Longrightarrow> i < length (tab_list s) \<Longrightarrow> \<exists>s'. load_tab (int i) s = Inr s' \<and> tabs_ok s'"
  using load_tab_effect [of i s] tabs_ok_facts(2) [of s] tabs_ok_same [of s] by (force simp: comp_def)

lemma set_option_ok:
  assumes ok: "tabs_ok s" and s': "s' \<in> {s\<lparr>o_collapsible := b\<rparr>, s\<lparr>o_cache := b\<rparr>, s\<lparr>o_cookie := b\<rparr>}"
  shows "tabs_ok (tabify s')"
proof -
  have same: "tab_list s' = tab_list s" "next_tab s' = next_tab s" "tab_jobs s' = tab_jobs s" "o_disabled s' = o_disabled s"
    using s' by auto
  have kin: "case v_current (tabs_view s) of Some j \<Rightarrow> j \<in> set (tab_ids s') | None \<Rightarrow> True"
    by (auto simp: tabs_view_def tab_ids_def same find_Some_iff split: option.split)
  show ?thesis
    using ok tabify_ok [OF _ _ _ _ kin] by (auto simp: tabs_ok_def tab_ids_def same list_all_length)
qed

lemma create_ok:
  assumes fresh: "distinct (tab_ids s)" "list_all (\<lambda>t. tab_valid t \<and> tab_id t < next_tab s) (tab_list s)" "tab_jobs s = []"
    "set (o_disabled s) \<subseteq> {0..<int (length (tab_list s))}" "tab_list s \<noteq> []" "-1 \<le> initial_selected opt hash s"
  shows "\<exists>s'. tabs_create opt hash s = Inr s' \<and> tabs_ok s'"
proof -
  define i where "i = initial_selected opt hash s"
  have n: "note_invalid s = s"
    using fresh(2) by (simp add: note_invalid_def list_all_length filter_empty_conv)
  have mark: "mark_tabs t = tabify t" if "list_all tab_valid (tab_list t)" "o_selected t = index_where tab_sel (tab_list t)" for t
  proof -
    have "note_invalid t = t" using that(1) by (simp add: note_invalid_def list_all_length filter_empty_conv)
    moreover have "t\<lparr>o_selected := index_where tab_sel (tab_list t)\<rparr> = t" using that(2) by (cases t) simp
    ultimately show ?thesis by (simp add: tabify_def)
  qed
  define s2 where "s2 = s\<lparr>o_selected := i\<rparr>"
  define s4 where "s4 = map_tabs (\<lambda>t. t\<lparr>tab_sel := False, tab_open := False\<rparr>) (s2\<lparr>o_disabled := initial_disabled s2\<rparr>)"
  have dis: "set (o_disabled s4) \<subseteq> {0..<int (length (tab_list s4))}" "i \<notin> set (o_disabled s4)"
    using fresh(4) by (auto simp: s4_def map_tabs_def initial_disabled_def s2_def Let_def)
  have four: "tab_list s4 = map (\<lambda>t. t\<lparr>tab_sel := False, tab_open := False\<rparr>) (tab_list s)" "o_selected s4 = i" "tab_jobs s4 = []"
    "next_tab s4 = next_tab s" "tab_ids s4 = tab_ids s"
    using fresh(3) by (simp_all add: s4_def map_tabs_def s2_def tab_ids_def comp_def)
  show ?thesis
  proof (cases "0 \<le> i")
    case False
    then have i: "i = -1" using fresh(6) by (simp add: i_def)
    have r: "tabs_create opt hash s = Inr (mark_tabs s4)"
      unfolding tabs_create_def Let_def n i_def [symmetric] s2_def [symmetric] s4_def [symmetric] using i four(2) by simp
    have "mark_tabs s4 = tabify s4"
      using fresh(2) four i by (intro mark) (auto simp: list_all_iff intro!: index_where_none [symmetric])
    moreover have "tabs_ok (tabify s4)"
      using tabify_ok [of s4 None] fresh four dis by (auto simp: shows_only_def list_all_iff)
    ultimately show ?thesis using r by auto
  next
    case True
    then obtain a where a: "i = int a" using nonneg_int_cases by metis
    have lt: "a < length (tab_list s)"
    proof -
      have "i < int (length (tab_list s))"
        using True fresh(5) by (auto simp: i_def initial_selected_def Let_def split: if_splits)
      then show ?thesis by (simp add: a)
    qed
    define k where "k = tab_id (tab_list s4 ! a)"
    have k: "k = tab_id (tab_list s ! a)" using lt by (simp add: k_def four)
    have k4: "tab_id (tab_list s4 ! nat (o_selected s4)) = k" by (simp add: k_def four(2) a)
    define s5 where "s5 = map_tabs (\<lambda>t. if tab_id t = k then t\<lparr>tab_sel := True, tab_open := tab_valid t\<rparr> else t) s4"
    have five: "tab_list s5 = map (\<lambda>t. t\<lparr>tab_sel := (tab_id t = k), tab_open := (tab_id t = k)\<rparr>) (tab_list s)"
      using fresh(2) by (auto simp: s5_def map_tabs_def four list_all_iff)
    have five': "o_selected s5 = i" "tab_jobs s5 = []" "next_tab s5 = next_tab s" "o_disabled s5 = o_disabled s4"
      using four by (simp_all add: s5_def map_tabs_def)
    obtain s6 where six: "load_tab (int a) (add_job InitJob s5) = Inr s6" "map looks (tab_list s6) = map looks (tab_list s5)"
      "tab_jobs s6 = []" "o_selected s6 = i" "next_tab s6 = next_tab s" "o_disabled s6 = o_disabled s4"
      using load_tab_effect [of a "add_job InitJob s5"] lt five five' by (auto simp: add_job_def comp_def)
    have r: "tabs_create opt hash s = Inr (mark_tabs s6)"
      unfolding tabs_create_def Let_def n i_def [symmetric] s2_def [symmetric] s4_def [symmetric] k4 s5_def [symmetric]
      using True four(1,2) fresh(5) six(1) a by (simp add: five')
    have n6: "length (tab_list s6) = length (tab_list s)" using arg_cong [OF six(2), of length] five by simp
    have at: "tab_id (tab_list s6 ! j) = tab_id (tab_list s ! j)" "tab_valid (tab_list s6 ! j)"
      "tab_sel (tab_list s6 ! j) = (tab_id (tab_list s ! j) = k)" "tab_open (tab_list s6 ! j) = (tab_id (tab_list s ! j) = k)"
      if "j < length (tab_list s)" for j
      using arg_cong [OF six(2), of "\<lambda>l. l ! j"] that n6 five fresh(2) by (auto simp: looks_def list_all_length)
    have uniq: "tab_id (tab_list s ! j) = k \<longleftrightarrow> j = a" if "j < length (tab_list s)" for j
      using fresh(1) that lt by (auto simp: k tab_ids_def distinct_conv_nth)
    have "i = index_where tab_sel (tab_list s6)"
      using at uniq lt unfolding a by (intro index_where_nth [symmetric]) (simp_all add: n6)
    then have "mark_tabs s6 = tabify s6"
      using at six by (intro mark) (simp_all add: list_all_length n6)
    moreover have "tabs_ok (tabify s6)"
    proof -
      have ids6: "tab_ids s6 = tab_ids s" unfolding tab_ids_def by (rule nth_equalityI) (simp_all add: n6 at)
      have "\<not> tab_sel (tab_list s6 ! j)" if "j < length (tab_list s6)" "int j \<in> set (o_disabled s6)" for j
        using that at uniq dis(2) a n6 six(6) by auto
      moreover have "k \<in> set (tab_ids s6)" using lt unfolding ids6 by (simp add: k tab_ids_def)
      ultimately show ?thesis
        using tabify_ok [of s6 "Some k"] fresh ids6 six dis(1) at n6 four(1) by (auto simp: shows_only_def list_all_length)
    qed
    ultimately show ?thesis using r by auto
  qed
qed

inductive tabs_reachable :: "tabs \<Rightarrow> bool" where
  Created: "distinct (tab_ids s) \<Longrightarrow> list_all (\<lambda>t. tab_valid t \<and> tab_id t < next_tab s) (tab_list s) \<Longrightarrow> tab_jobs s = [] \<Longrightarrow>
    set (o_disabled s) \<subseteq> {0..<int (length (tab_list s))} \<Longrightarrow> tab_list s \<noteq> [] \<Longrightarrow> -1 \<le> initial_selected opt hash s \<Longrightarrow>
    panels_in_order s \<Longrightarrow> tabs_create opt hash s = Inr s' \<Longrightarrow> tabs_reachable s'"
| Clicked: "tabs_reachable s \<Longrightarrow> i < length (tab_list s) \<Longrightarrow> click_tab answer i s = Inr s' \<Longrightarrow> tabs_reachable s'"
| Selected: "tabs_reachable s \<Longrightarrow> -1 \<le> v \<Longrightarrow> set_selected answer v s = Inr s' \<Longrightarrow> tabs_reachable s'"
| Rotated: "tabs_reachable s \<Longrightarrow> rotate_tick answer s = Inr s' \<Longrightarrow> tabs_reachable s'"
| Added: "tabs_reachable s \<Longrightarrow> url = None \<or> titled \<Longrightarrow> add_tab titled url at_index s = Inr s' \<Longrightarrow> tabs_reachable s'"
| Removed: "tabs_reachable s \<Longrightarrow> i < length (tab_list s) \<Longrightarrow> remove_tab answer (int i) s = Inr s' \<Longrightarrow> tabs_reachable s'"
| Enabled: "tabs_reachable s \<Longrightarrow> i < length (tab_list s) \<Longrightarrow> tabs_reachable (enable_tab (int i) s)"
| Disabled: "tabs_reachable s \<Longrightarrow> i < length (tab_list s) \<Longrightarrow> tabs_reachable (disable_tab (int i) s)"
| Loaded: "tabs_reachable s \<Longrightarrow> i < length (tab_list s) \<Longrightarrow> load_tab (int i) s = Inr s' \<Longrightarrow> tabs_reachable s'"
| Answered: "tabs_reachable s \<Longrightarrow> tabs_reachable (request_done s)"
| Failed: "tabs_reachable s \<Longrightarrow> tabs_reachable (request_failed s)"
| Option: "tabs_reachable s \<Longrightarrow> c \<in> {SetCollapsible b, SetCache b, SetCookie b} \<Longrightarrow> tabs_reachable (tabs_set_option c s)"
| Url: "tabs_reachable s \<Longrightarrow> tabs_reachable (set_url v u s)"

lemma set_url_ok: "tabs_ok s \<Longrightarrow> tabs_ok (set_url v u s)"
proof (rule tabs_ok_same, assumption)
  assume ok: "tabs_ok s"
  show "map looks (tab_list (set_url v u s)) = map looks (tab_list s)"
  proof -
    have "looks u = looks (xs ! j) \<Longrightarrow> map looks (xs[j := u]) = map looks xs" for u xs j
      by (cases "j < length xs") (simp_all add: map_update list_update_same_conv list_update_beyond)
    then show ?thesis by (simp add: set_url_def looks_def split: option.split)
  qed
  show "tab_jobs (set_url v u s) = []" "next_tab (set_url v u s) = next_tab s" "o_disabled (set_url v u s) = o_disabled s"
    "o_selected (set_url v u s) = o_selected s"
    using tabs_ok_facts(2) [OF ok] by (simp_all add: set_url_def split: option.split)
qed

lemma selected_lower: "tabs_ok s \<Longrightarrow> -1 \<le> o_selected s"
proof -
  have "-1 \<le> index_where P xs" for P :: "tab \<Rightarrow> bool" and xs by (induction xs) (simp_all add: Let_def)
  then show "tabs_ok s \<Longrightarrow> -1 \<le> o_selected s" using tabs_ok_facts(3) by simp
qed

lemma order_same: "panels_in_order s \<Longrightarrow> tab_ids s' = tab_ids s \<Longrightarrow> doc_panels s' = doc_panels s \<Longrightarrow> panels_in_order s'"
  by (simp add: panels_in_order_def)

text \<open>No operation but adding and removing changes which tabs there are.\<close>

lemma ids_run_jobs [simp]: "tab_ids (run_jobs q s) = tab_ids s"
proof -
  have "tab_id (job_effect q t) = tab_id t" for t by (induction q t rule: job_effect.induct) simp_all
  then show ?thesis by (simp add: tab_ids_def comp_def)
qed

lemma ids_request [simp]: "tab_ids (request_failed s) = tab_ids s" "tab_ids (request_done s) = tab_ids s"
  by (auto simp: request_failed_def request_done_def clean_up_def map_tabs_def Let_def tab_ids_def comp_def split: option.split)

lemma ids_abort [simp]: "tab_ids (abort_tabs s) = tab_ids s"
  by (simp add: tab_ids_def comp_def idle_tab_def)

lemma ids_fields [simp]:
  "tab_ids (s\<lparr>tab_jobs := q\<rparr>) = tab_ids s" "tab_ids (s\<lparr>o_selected := v\<rparr>) = tab_ids s" "tab_ids (s\<lparr>tab_xhr := x\<rparr>) = tab_ids s"
  "tab_ids (log_tab e s) = tab_ids s" "tab_ids (save_cookie s) = tab_ids s" "tab_ids (add_job j s) = tab_ids s"
  by (simp_all add: tab_ids_def save_cookie_def add_job_def)

lemma ids_load: "load_tab i s = Inr s' \<Longrightarrow> tab_ids s' = tab_ids s"
proof -
  have b: "tab_ids (map_tabs (\<lambda>u. if P u then u\<lparr>tab_busy := True\<rparr> else u) s) = tab_ids s" for P s
    by (simp add: tab_ids_def map_tabs_def comp_def if_distrib cong: if_cong)
  then show "load_tab i s = Inr s' \<Longrightarrow> tab_ids s' = tab_ids s"
    by (auto simp: load_tab_def Let_def dequeue_tabs_def split: option.splits if_splits)
qed

lemma ids_click: "click_tab answer i s = Inr s' \<Longrightarrow> tab_ids s' = tab_ids s"
  by (auto simp: click_tab_def Let_def dequeue_tabs_def dest!: ids_load split: if_splits)

lemma ids_select: "select_tab answer i s = Inr s' \<Longrightarrow> tab_ids s' = tab_ids s"
  by (auto simp: select_tab_def Let_def dest: ids_click split: if_splits option.splits)

lemma ids_tabify [simp]: "tab_ids (tabify s) = tab_ids s"
  by (auto simp: tabify_def note_invalid_def mark_tabs_def save_cookie_def map_tabs_def tab_ids_def Let_def comp_def intro!: nth_equalityI)

lemma ids_mark [simp]: "tab_ids (mark_tabs s) = tab_ids s" "doc_panels (mark_tabs s) = doc_panels s"
  by (auto simp: mark_tabs_def save_cookie_def map_tabs_def tab_ids_def Let_def comp_def intro!: nth_equalityI)

lemma ids_map_tabs: "(\<And>t. tab_id (f t) = tab_id t) \<Longrightarrow> tab_ids (map_tabs f s) = tab_ids s"
  by (simp add: tab_ids_def map_tabs_def comp_def)

lemma create_load:
  assumes "tabs_create opt hash s = Inr s'"
  obtains s1 where "tab_ids s1 = tab_ids s" "doc_panels s1 = doc_panels s" "s' = mark_tabs s1 \<or>
    (\<exists>i s2. load_tab i s1 = Inr s2 \<and> s' = mark_tabs s2)"
proof -
  define s3 where "s3 = (note_invalid s)\<lparr>o_selected := initial_selected opt hash (note_invalid s)\<rparr>"
  define s4 where "s4 = map_tabs (\<lambda>t. t\<lparr>tab_sel := False, tab_open := False\<rparr>) (s3\<lparr>o_disabled := initial_disabled s3\<rparr>)"
  define s5 where "s5 = add_job InitJob (map_tabs (\<lambda>t. if tab_id t = tab_id (tab_list s4 ! nat (o_selected s4))
    then t\<lparr>tab_sel := True, tab_open := tab_valid t\<rparr> else t) s4)"
  have four: "tab_ids s4 = tab_ids s" "doc_panels s4 = doc_panels s"
    by (simp_all add: s4_def s3_def note_invalid_def ids_map_tabs) (simp_all add: tab_ids_def map_tabs_def)
  then have five: "tab_ids s5 = tab_ids s" "doc_panels s5 = doc_panels s"
    by (simp_all add: s5_def ids_map_tabs) (simp_all add: add_job_def map_tabs_def)
  have "tabs_create opt hash s = (if 0 \<le> o_selected s4 \<and> tab_list s4 \<noteq> []
      then js_bind (load_tab (o_selected s4) s5) (\<lambda>s6. Inr (mark_tabs s6)) else Inr (mark_tabs s4))"
    unfolding tabs_create_def Let_def s3_def [symmetric] s4_def [symmetric] s5_def by (simp add: map_tabs_def)
  with assms four five that show ?thesis
    by (cases "0 \<le> o_selected s4 \<and> tab_list s4 \<noteq> []") (auto simp: js_bind_Inr_iff)
qed

lemma order_create: "panels_in_order s \<Longrightarrow> tabs_create opt hash s = Inr s' \<Longrightarrow> panels_in_order s'"
  by (erule create_load, rule order_same, assumption) (auto dest: ids_load doc_load)

lemma order_single: "panels_in_order (enable_tab i s) = panels_in_order s" "panels_in_order (disable_tab i s) = panels_in_order s"
  "panels_in_order (set_url v u s) = panels_in_order s"
proof -
  have u: "map tab_id (xs[j := (xs ! j)\<lparr>tab_dis := b\<rparr>]) = map tab_id xs" for xs :: "tab list" and j b
    by (cases "j < length xs") (auto intro!: nth_equalityI simp: nth_list_update)
  have u': "map tab_id (xs[j := (xs ! j)\<lparr>tab_cached := c, tab_url := b\<rparr>]) = map tab_id xs" for xs :: "tab list" and j b c
    by (cases "j < length xs") (auto intro!: nth_equalityI simp: nth_list_update)
  show "panels_in_order (enable_tab i s) = panels_in_order s" "panels_in_order (disable_tab i s) = panels_in_order s"
    by (auto simp: enable_tab_def disable_tab_def set_dis_def panels_in_order_def tab_ids_def u split: option.split)
  show "panels_in_order (set_url v u s) = panels_in_order s"
    by (auto simp: set_url_def panels_in_order_def tab_ids_def u' split: option.split)
qed

lemma order_click: "panels_in_order s \<Longrightarrow> click_tab answer i s = Inr s' \<Longrightarrow> panels_in_order s'"
  by (erule order_same) (rule ids_click doc_click, assumption)+

lemma order_select: "panels_in_order s \<Longrightarrow> select_tab answer v s = Inr s' \<Longrightarrow> panels_in_order s'"
  by (erule order_same) (rule ids_select doc_select, assumption)+

lemma order_load: "panels_in_order s \<Longrightarrow> load_tab v s = Inr s' \<Longrightarrow> panels_in_order s'"
  by (erule order_same) (rule ids_load doc_load, assumption)+

lemma tabs_reachable_ok: "tabs_reachable s \<Longrightarrow> tabs_ok s \<and> panels_in_order s"
proof (induction rule: tabs_reachable.induct)
  case (Created s opt hash s')
  then show ?case using create_ok [of s opt hash] order_create [of s opt hash s'] by auto
next
  case (Clicked s i answer s')
  then obtain t where "click_tab answer i s = Inr t" "tabs_ok t" using click_refines [of s i answer] by blast
  with Clicked order_click show ?case by auto
next
  case (Selected s v answer s')
  then obtain t where "select_tab answer v s = Inr t" "tabs_ok t" using select_ok [of s v answer] by blast
  with Selected order_select show ?case by (auto simp: set_selected_def split: if_splits)
next
  case (Rotated s answer s')
  define v where "v = (if o_selected s + 1 < int (length (tab_list s)) then o_selected s + 1 else 0)"
  have "-1 \<le> v" using selected_lower [of s] Rotated.IH by (simp add: v_def)
  then obtain t where "select_tab answer v s = Inr t" "tabs_ok t" using select_ok [of s v answer] Rotated.IH by blast
  moreover have "select_tab answer v s = Inr s'" using Rotated.hyps(2) by (simp only: rotate_tick_def Let_def v_def)
  ultimately show ?case using order_select Rotated.IH by auto
next
  case (Added s url titled at_index s')
  then show ?case using add_refines [of s url titled at_index] by auto
next
  case (Removed s i answer s')
  then show ?case using remove_refines [of s i answer] by auto
next
  case (Loaded s i s')
  then obtain t where "load_tab (int i) s = Inr t" "tabs_ok t" using load_ok [of s i] by blast
  with Loaded order_load show ?case by auto
next
  case (Option s c b)
  then obtain t where t: "tabs_set_option c s = tabify t" "t \<in> {s\<lparr>o_collapsible := b\<rparr>, s\<lparr>o_cache := b\<rparr>, s\<lparr>o_cookie := b\<rparr>}"
    by (auto simp: tabs_set_option_def)
  moreover from t(2) have "tab_ids t = tab_ids s" "doc_panels t = doc_panels s" by (auto simp: tab_ids_def)
  moreover have "tabs_ok (tabify t)" using set_option_ok [OF conjunct1 [OF Option.IH] t(2)] .
  ultimately show ?case using Option.IH by (simp add: panels_in_order_def)
next
  case (Answered s)
  then show ?case by (simp add: request_ok panels_in_order_def)
next
  case (Failed s)
  then show ?case by (simp add: request_ok panels_in_order_def)
qed (simp_all add: enable_disable_ok set_url_ok order_single)

lemma at_selected:
  assumes ok: "tabs_ok s"
  shows "v_current (tabs_view s) = (if o_selected s = -1 then None else Some (tab_id (tab_list s ! nat (o_selected s))))"
    and "o_selected s \<noteq> -1 \<Longrightarrow> 0 \<le> o_selected s \<and> nat (o_selected s) < length (tab_list s) \<and> tab_sel (tab_list s ! nat (o_selected s))"
proof -
  have h: "(index_where P xs = -1 \<and> find P xs = None) \<or>
      (\<exists>i < length xs. index_where P xs = int i \<and> P (xs ! i) \<and> find P xs = Some (xs ! i))" for P :: "tab \<Rightarrow> bool" and xs
  proof (induction xs)
    case (Cons x xs)
    show ?case
    proof (cases "P x")
      case False
      from Cons.IH show ?thesis
      proof
        assume "\<exists>i < length xs. index_where P xs = int i \<and> P (xs ! i) \<and> find P xs = Some (xs ! i)"
        then obtain i where "i < length xs" "index_where P xs = int i" "P (xs ! i)" "find P xs = Some (xs ! i)" by blast
        then show ?thesis using False by (intro disjI2 exI [of _ "Suc i"]) simp
      qed (use False in simp)
    qed (auto intro: exI [of _ 0])
  qed simp
  from h [of tab_sel "tab_list s"]
  show "v_current (tabs_view s) = (if o_selected s = -1 then None else Some (tab_id (tab_list s ! nat (o_selected s))))"
    "o_selected s \<noteq> -1 \<Longrightarrow> 0 \<le> o_selected s \<and> nat (o_selected s) < length (tab_list s) \<and> tab_sel (tab_list s ! nat (o_selected s))"
    unfolding tabs_ok_facts(3) [OF ok] tabs_view_def by auto
qed

section \<open>One of several panels\<close>

text \<open>
  Tabs of the document itself, none of which can be closed, are a view that shows one panel; it can show
  those that are not disabled.  \<open>tab_pick\<close> is a click on a tab that the page does not veto.
\<close>

definition plain_tabs :: "tabs \<Rightarrow> bool" where
  "plain_tabs s \<longleftrightarrow> tabs_ok s \<and> \<not> o_collapsible s \<and> list_all (\<lambda>t. tab_url t = None \<and> \<not> tab_busy t) (tab_list s)"

definition tab_pick :: "nat \<Rightarrow> tabs \<Rightarrow> tabs" where
  "tab_pick k s =
     (let i = index_where (\<lambda>t. tab_id t = k) (tab_list s)
      in if i < 0 then s else (case click_tab True (nat i) s of Inr s' \<Rightarrow> s' | Inl e \<Rightarrow> s))"

definition showable :: "tabs \<Rightarrow> nat set" where
  "showable s = (if plain_tabs s then set (v_ids (tabs_view s)) - v_disabled (tabs_view s) else {})"

definition shown_tabs :: "tabs \<Rightarrow> nat set" where
  "shown_tabs s = set (open_tabs s)"

lemma job_effect_url [simp]: "tab_url (job_effect q t) = tab_url t" "tab_busy (job_effect q t) = tab_busy t"
  by (induction q t rule: job_effect.induct) simp_all

lemma click_plain:
  assumes "list_all (\<lambda>t. tab_url t = None \<and> \<not> tab_busy t) (tab_list s)" and "i < length (tab_list s)" and "click_tab answer i s = Inr s'"
  shows "list_all (\<lambda>t. tab_url t = None \<and> \<not> tab_busy t) (tab_list s')"
  using assms by (auto simp: click_tab_def load_tab_def Let_def add_job_def dequeue_tabs_def eq_index_def list_all_iff idle_tab_def split: if_splits)

lemma pick_effect:
  assumes k: "k \<in> showable s"
  shows "plain_tabs (tab_pick k s)" "tabs_view (tab_pick k s) = (tabs_view s)\<lparr>v_current := Some k\<rparr>"
proof -
  have plain: "plain_tabs s" and v: "k \<in> set (v_ids (tabs_view s))" "k \<notin> v_disabled (tabs_view s)"
    using k by (auto simp: showable_def split: if_splits)
  then have ok: "tabs_ok s" and nc: "\<not> o_collapsible s" and lc: "list_all (\<lambda>t. tab_url t = None \<and> \<not> tab_busy t) (tab_list s)"
    by (simp_all add: plain_tabs_def)
  from v(1) obtain i where i: "i < length (tab_list s)" "tab_id (tab_list s ! i) = k"
    by (auto simp: tabs_view_def tab_ids_def in_set_conv_nth)
  have "index_where (\<lambda>t. tab_id t = k) (tab_list s) = int i"
    using i tabs_ok_facts(1) [OF ok] by (intro index_where_nth) (auto simp: distinct_conv_nth)
  moreover obtain s' where c: "click_tab True i s = Inr s'" "tabs_ok s'" "o_collapsible s' = o_collapsible s"
    "tabs_view s' = (if may_click True s i then view_click (o_collapsible s) k (tabs_view s) else tabs_view s)"
    using click_refines [OF ok i(1), of True] i(2) by auto
  ultimately have pick: "tab_pick k s = s'" by (simp add: tab_pick_def)
  show "plain_tabs (tab_pick k s)" using click_plain [OF lc i(1) c(1)] c(2,3) nc by (simp add: pick plain_tabs_def)
  have t: "tab_list s ! i \<in> set (tab_list s)" using i by simp
  have "\<not> tab_dis (tab_list s ! i)" using v(2) t i(2) by (auto simp: tabs_view_def)
  moreover have "\<not> tab_busy (tab_list s ! i)" using lc i by (simp add: list_all_length)
  moreover have "tabs_view s = (tabs_view s)\<lparr>v_current := Some k\<rparr>" if "tab_sel (tab_list s ! i)"
    using current_at(1) [OF ok t] that i(2) by (cases "tabs_view s") simp
  ultimately show "tabs_view (tab_pick k s) = (tabs_view s)\<lparr>v_current := Some k\<rparr>"
    using nc by (auto simp: pick c(4) may_click_def Let_def view_click_def)
qed

interpretation tv: exclusive_view tab_pick shown_tabs showable
proof unfold_locales
  fix k s assume k: "k \<in> showable s"
  then have "plain_tabs s" by (auto simp: showable_def split: if_splits)
  then show "showable (tab_pick k s) = showable s" using pick_effect [OF k] by (simp add: showable_def)
  have "tabs_ok (tab_pick k s)" using pick_effect(1) [OF k] by (simp add: plain_tabs_def)
  then show "shown_tabs (tab_pick k s) = {k}" using pick_effect(2) [OF k] by (simp add: shown_tabs_def open_tabs_ok)
qed

lemma disabled_indices:
  assumes ok: "tabs_ok s"
  shows "{int i | i. i < length (tab_list s) \<and> tab_dis (tab_list s ! i)} = set (o_disabled s)"
proof (intro set_eqI iffI)
  have d: "tab_dis (tab_list s ! i) = (int i \<in> set (o_disabled s))" if "i < length (tab_list s)" for i
    using ok that by (simp add: tabs_ok_def)
  have r: "set (o_disabled s) \<subseteq> {0..<int (length (tab_list s))}" using ok by (simp add: tabs_ok_def)
  show "x \<in> {int i | i. i < length (tab_list s) \<and> tab_dis (tab_list s ! i)}" if x: "x \<in> set (o_disabled s)" for x
    using in_range [OF r x] d [of "nat x"] x by (intro CollectI exI [of _ "nat x"]) auto
  show "x \<in> set (o_disabled s)" if "x \<in> {int i | i. i < length (tab_list s) \<and> tab_dis (tab_list s ! i)}" for x
    using that d by auto
qed

section \<open>Properties\<close>



text \<open>After any clicks on tabs that can be shown, the last one alone is in sight.\<close>

lemma last_pick_shown: "ks \<noteq> [] \<Longrightarrow> set ks \<subseteq> showable s \<Longrightarrow> set (open_tabs (fold tab_pick ks s)) = {last ks}"
  using tv.shown_fold_last [of ks s] by (simp add: shown_tabs_def)

section \<open>Examples\<close>

text \<open>Three tabs, the second disabled, the third of another page.\<close>

definition three_tabs :: tabs where
  "three_tabs =
     \<lparr>tab_list = [new_tab 0 None, new_tab 1 None, new_tab 2 (Some ''page.html'')], doc_panels = [0, 1, 2], left_panels = [], o_collapsible = False, o_cache = False, o_cookie = False,
      o_selected = 0, o_disabled = [1], tab_cookie = None, tab_jobs = [], tab_xhr = None, tab_log = [], next_tab = 3\<rparr>"

definition tabs_demo :: tabs where
  "tabs_demo = (case tabs_create SelUndefined None three_tabs of Inr s \<Rightarrow> s | Inl e \<Rightarrow> three_tabs)"

lemma tabs_demo_reachable: "tabs_reachable tabs_demo"
proof (rule Created [of three_tabs SelUndefined None])
  show "distinct (tab_ids three_tabs)" by code_simp
  show "list_all (\<lambda>t. tab_valid t \<and> tab_id t < next_tab three_tabs) (tab_list three_tabs)" by code_simp
  show "tab_jobs three_tabs = []" by (simp add: three_tabs_def)
  show "set (o_disabled three_tabs) \<subseteq> {0..<int (length (tab_list three_tabs))}" by (simp add: three_tabs_def)
  show "tab_list three_tabs \<noteq> []" by (simp add: three_tabs_def)
  show "- 1 \<le> initial_selected SelUndefined None three_tabs" by code_simp
  show "panels_in_order three_tabs" by code_simp
  obtain s where "tabs_create SelUndefined None three_tabs = Inr s"
    using create_ok [of three_tabs SelUndefined None] by (auto simp: three_tabs_def tab_ids_def initial_selected_def new_tab_def)
  then show "tabs_create SelUndefined None three_tabs = Inr tabs_demo" by (simp add: tabs_demo_def)
qed



text \<open>Removing the tab shown when its neighbour is disabled shows nothing, although tabs cannot be closed and another is left.\<close>

lemma remove_shows_none:
  "(case remove_tab True 0 tabs_demo of Inr s \<Rightarrow> open_tabs s = [] \<and> tab_ids s = [1, 2] \<and> \<not> o_collapsible s | Inl e \<Rightarrow> False)"
  by code_simp

text \<open>A page arrives after an earlier tab has been removed: the event \<open>load\<close> looks the tab up by its old index.\<close>

lemma load_event_loses_tab:
  "(case js_bind (click_tab True 2 tabs_demo) (remove_tab True 0) of
      Inr s \<Rightarrow> open_tabs s = [2] \<and> last (tab_log (request_done s)) = TabLoad None | Inl e \<Rightarrow> False)"
  by code_simp

text \<open>Removing a URL that no tab has: \<open>index\<close> is \<open>-1\<close>, the last tab goes and the disabled class moves to another tab.\<close>

lemma remove_unknown_url:
  "(case remove_tab True (-1) tabs_demo of Inr s \<Rightarrow> tab_ids s = [0, 1] \<and> o_disabled s = [0] \<and> \<not> tab_dis (tab_list s ! 1) | Inl e \<Rightarrow> False)"
  by code_simp

text \<open>With the option \<open>cookie\<close> and no cookie yet, the class in the markup is not looked at.\<close>

lemma markup_ignored_with_cookie:
  "let s = three_tabs\<lparr>tab_list := [new_tab 0 None, (new_tab 1 None)\<lparr>tab_sel := True\<rparr>]\<rparr>
   in initial_selected SelUndefined None s = 1 \<and> initial_selected SelUndefined None (s\<lparr>o_cookie := True\<rparr>) = 0"
  by code_simp

text \<open>A remote tab added with the default template: its second panel is in sight beside the one shown, the first is left behind.\<close>

lemma remote_tab_in_sight:
  "(case add_tab False (Some ''more.html'') None tabs_demo of
      Inr s \<Rightarrow> open_tabs s = [0, 3] \<and> o_selected s = 0 \<and> left_panels s = [False] | Inl e \<Rightarrow> False)"
  by code_simp

text \<open>With panels that are in another order in the document, removing a tab takes the panel of another one.\<close>

lemma remove_takes_other_panel:
  "(case remove_tab True 2 (tabs_demo\<lparr>doc_panels := [0, 2, 1]\<rparr>) of
      Inr s \<Rightarrow> tab_ids s = [0, 1] \<and> tab_panel (tab_list s ! 1) = NoPanel \<and> left_panels s = [False] | Inl e \<Rightarrow> False)"
  by code_simp

end
