(* ===== verification/Ui_Dialog.thy ===== *)
theory Ui_Dialog
  imports Js_Prelude
begin

text \<open>
  Dialogs, \<open>jquery.ui.dialog.js\<close>, without animations (\<open>show\<close> and \<open>hide\<close> are not set): the dialogs of
  a page, their order above one another, the overlays of the modal ones and the keys they answer.
  Handlers of the events do not call back into the widget.  Measures of the document are arguments.
\<close>

section \<open>State\<close>

record dialog =
  dl_modal :: bool
  dl_stack :: bool
  dl_escape :: bool
  dl_z_option :: int
  dl_z :: int
  dl_open :: bool
  dl_overlay :: "nat option"
  dl_tab_traps :: nat
  dl_there :: bool

datatype dialog_event = BeforeClose nat | Closed nat | Opened nat | Focused nat

text \<open>
  The page: \<open>max_z\<close> is \<open>$.ui.dialog.maxZ\<close>, and \<open>ov_live\<close>, \<open>ov_old\<close>, \<open>ov_max_z\<close> are \<open>instances\<close>, \<open>oldInstances\<close> and
  \<open>maxZ\<close> of \<open>$.ui.dialog.overlay\<close>.  These lists (and the dialogs) hold jQuery objects, numbered in the order they are made;
  \<open>ov_el\<close> is the element of each, numbered by the first object it had, \<open>ov_z\<close> the height of an element and \<open>ov_doc\<close> the elements of
  overlays that are in the document.  \<open>esc_to\<close> is the dialog whose overlay has bound the key Escape of the document,
  \<open>guard_on\<close> says that the handlers that hold back events below the overlays are bound, and \<open>guard_due\<close>
  counts the timers that will bind them.
\<close>

record desk =
  dlgs :: "dialog list"
  max_z :: int
  ov_el :: "nat \<Rightarrow> nat"
  ov_z :: "nat \<Rightarrow> int"
  ov_doc :: "nat list"
  ov_live :: "nat list"
  ov_old :: "nat list"
  ov_max_z :: int
  next_ov :: nat
  esc_to :: "nat option"
  guard_due :: nat
  guard_on :: bool
  dl_log :: "dialog_event list"

definition log_dlg :: "dialog_event \<Rightarrow> desk \<Rightarrow> desk" where
  "log_dlg e s = s\<lparr>dl_log := dl_log s @ [e]\<rparr>"

definition upd_dlg :: "nat \<Rightarrow> (dialog \<Rightarrow> dialog) \<Rightarrow> desk \<Rightarrow> desk" where
  "upd_dlg d f s = s\<lparr>dlgs := (dlgs s)[d := f (dlgs s ! d)]\<rparr>"

section \<open>Overlays\<close>

text \<open>
  \<open>overlay.create\<close>: the elements of overlays that are gone are used again, but \<open>appendTo\<close> returns a new jQuery object, so
  \<open>$.inArray\<close> of \<open>overlay.destroy\<close> tells the former use from the new one.
\<close>

definition create_overlay :: "nat \<Rightarrow> desk \<Rightarrow> desk \<times> nat" where
  "create_overlay d s =
     (let s1 = (if ov_live s = [] then s\<lparr>guard_due := guard_due s + 1, esc_to := Some d\<rparr> else s);
          ob = next_ov s1; el = (if ov_old s1 = [] then ob else ov_el s1 (last (ov_old s1)));
          s2 = s1\<lparr>next_ov := ob + 1, ov_el := (ov_el s1)(ob := el), ov_old := butlast (ov_old s1),
                 ov_doc := filter (\<lambda>x. x \<noteq> el) (ov_doc s1) @ [el]\<rparr>
      in (s2\<lparr>ov_live := ov_live s2 @ [ob]\<rparr>, ob))"

definition overlay_z :: "desk \<Rightarrow> nat \<Rightarrow> int" where
  "overlay_z s ob = ov_z s (ov_el s ob)"

text \<open>The timer that \<open>overlay.create\<close> starts.\<close>

definition guard_timer :: "desk \<Rightarrow> desk" where
  "guard_timer s =
     (if guard_due s = 0 then s
      else s\<lparr>guard_due := guard_due s - 1, guard_on := (guard_on s \<or> ov_live s \<noteq> [])\<rparr>)"

text \<open>The filter of events: whether one whose target is at a height is held back.\<close>

definition held_back :: "desk \<Rightarrow> int \<Rightarrow> bool" where
  "held_back s z \<longleftrightarrow> guard_on s \<and> z < ov_max_z s"

definition destroy_overlay :: "nat \<Rightarrow> desk \<Rightarrow> desk" where
  "destroy_overlay ob s =
     (let s1 = (if ob \<in> set (ov_live s) then s\<lparr>ov_live := remove1 ob (ov_live s), ov_old := ov_old s @ [ob]\<rparr> else s);
          s2 = (if ov_live s1 = [] then s1\<lparr>esc_to := None, guard_on := False\<rparr> else s1);
          s3 = s2\<lparr>ov_doc := filter (\<lambda>x. x \<noteq> ov_el s2 ob) (ov_doc s2)\<rparr>
      in s3\<lparr>ov_max_z := fold max (map (overlay_z s3) (ov_live s3)) 0\<rparr>)"

section \<open>Dialogs\<close>

definition move_to_top :: "bool \<Rightarrow> nat \<Rightarrow> desk \<Rightarrow> desk" where
  "move_to_top force d s =
     (let D = dlgs s ! d
      in if (dl_modal D \<and> \<not> force) \<or> (\<not> dl_stack D \<and> \<not> dl_modal D) then log_dlg (Focused d) s
         else (let s1 = (if dl_z_option D > max_z s then s\<lparr>max_z := dl_z_option D\<rparr> else s);
                   s2 = (case dl_overlay D of
                       None \<Rightarrow> s1
                     | Some el \<Rightarrow> (let z = max_z s1 + 1 in s1\<lparr>max_z := z, ov_z := (ov_z s1)(ov_el s1 el := z), ov_max_z := z\<rparr>));
                   s3 = s2\<lparr>max_z := max_z s2 + 1\<rparr>
               in log_dlg (Focused d) (upd_dlg d (\<lambda>D. D\<lparr>dl_z := max_z s3\<rparr>) s3)))"

definition open_dialog :: "nat \<Rightarrow> desk \<Rightarrow> desk" where
  "open_dialog d s =
     (if dl_open (dlgs s ! d) then s
      else (let modal = dl_modal (dlgs s ! d);
                s1 = (if modal then (let (t, el) = create_overlay d s in upd_dlg d (\<lambda>D. D\<lparr>dl_overlay := Some el\<rparr>) t)
                      else upd_dlg d (\<lambda>D. D\<lparr>dl_overlay := None\<rparr>) s);
                s2 = move_to_top True d s1;
                s3 = (if modal then upd_dlg d (\<lambda>D. D\<lparr>dl_tab_traps := dl_tab_traps D + 1\<rparr>) s2 else s2)
            in log_dlg (Opened d) (upd_dlg d (\<lambda>D. D\<lparr>dl_open := True\<rparr>) s3)))"

text \<open>The heights of the other dialogs, whether open or not.\<close>

definition other_zs :: "nat \<Rightarrow> desk \<Rightarrow> int list" where
  "other_zs d s = map (\<lambda>e. dl_z (dlgs s ! e)) (filter (\<lambda>e. e \<noteq> d \<and> dl_there (dlgs s ! e)) [0..<length (dlgs s)])"

text \<open>\<open>close\<close>, which does not ask whether the dialog is open; \<open>ok\<close> is the answer of the page to \<open>beforeClose\<close>.\<close>

definition close_dialog :: "bool \<Rightarrow> nat \<Rightarrow> desk \<Rightarrow> desk" where
  "close_dialog ok d s =
     (let s1 = log_dlg (BeforeClose d) s
      in if \<not> ok then s1
         else (let s2 = (case dl_overlay (dlgs s1 ! d) of None \<Rightarrow> s1 | Some el \<Rightarrow> destroy_overlay el s1);
                   s3 = log_dlg (Closed d) (upd_dlg d (\<lambda>D. D\<lparr>dl_open := False\<rparr>) s2)
               in if dl_modal (dlgs s3 ! d) then s3\<lparr>max_z := fold max (other_zs d s3) 0\<rparr> else s3))"

definition destroy_dialog :: "nat \<Rightarrow> desk \<Rightarrow> desk" where
  "destroy_dialog d s =
     (let s1 = (case dl_overlay (dlgs s ! d) of None \<Rightarrow> s | Some el \<Rightarrow> destroy_overlay el s)
      in upd_dlg d (\<lambda>D. D\<lparr>dl_there := False\<rparr>) s1)"

definition create_dialog :: "bool \<Rightarrow> bool \<Rightarrow> bool \<Rightarrow> int \<Rightarrow> bool \<Rightarrow> desk \<Rightarrow> desk" where
  "create_dialog modal stack escape z auto s =
     (let d = length (dlgs s);
          s1 = s\<lparr>dlgs := dlgs s @ [\<lparr>dl_modal = modal, dl_stack = stack, dl_escape = escape, dl_z_option = z, dl_z = z,
                 dl_open = False, dl_overlay = None, dl_tab_traps = 0, dl_there = True\<rparr>]\<rparr>
      in if auto then open_dialog d s1 else s1)"

datatype dialog_change = SetModal bool | SetStack bool | SetEscape bool | SetZIndex int

fun set_dialog :: "dialog_change \<Rightarrow> dialog \<Rightarrow> dialog" where
  "set_dialog (SetModal b) D = D\<lparr>dl_modal := b\<rparr>"
| "set_dialog (SetStack b) D = D\<lparr>dl_stack := b\<rparr>"
| "set_dialog (SetEscape b) D = D\<lparr>dl_escape := b\<rparr>"
| "set_dialog (SetZIndex z) D = D\<lparr>dl_z_option := z\<rparr>"

text \<open>
  The key Escape with the focus in a dialog or outside all of them: the dialog's handler comes first and, having closed it,
  prevents the one of the document, which the overlay of some dialog has bound.
\<close>

definition outer_escape :: "desk \<Rightarrow> nat option" where
  "outer_escape s = (case esc_to s of Some e \<Rightarrow> if dl_escape (dlgs s ! e) then Some e else None | None \<Rightarrow> None)"

definition escape_closes :: "nat option \<Rightarrow> desk \<Rightarrow> nat option" where
  "escape_closes focus s =
     (case focus of Some d \<Rightarrow> if dl_escape (dlgs s ! d) then Some d else outer_escape s | None \<Rightarrow> outer_escape s)"

definition escape_key :: "bool \<Rightarrow> nat option \<Rightarrow> desk \<Rightarrow> desk" where
  "escape_key ok focus s = (case escape_closes focus s of Some d \<Rightarrow> close_dialog ok d s | None \<Rightarrow> s)"

text \<open>The key Tab in a modal dialog: the element that gets the focus instead of the default one.\<close>

definition trap_tab :: "'e list \<Rightarrow> 'e \<Rightarrow> bool \<Rightarrow> 'e option" where
  "trap_tab tabbables target shift =
     (if tabbables = [] then None
      else if target = last tabbables \<and> \<not> shift then Some (hd tabbables)
      else if target = hd tabbables \<and> shift then Some (last tabbables) else None)"

section \<open>Heights\<close>

lemma log_dlg_simps [simp]:
  "dlgs (log_dlg e s) = dlgs s" "max_z (log_dlg e s) = max_z s" "ov_z (log_dlg e s) = ov_z s" "ov_el (log_dlg e s) = ov_el s" "ov_live (log_dlg e s) = ov_live s"
  "ov_old (log_dlg e s) = ov_old s" "ov_max_z (log_dlg e s) = ov_max_z s" "next_ov (log_dlg e s) = next_ov s"
  "esc_to (log_dlg e s) = esc_to s" "guard_due (log_dlg e s) = guard_due s" "guard_on (log_dlg e s) = guard_on s"
  by (simp_all add: log_dlg_def)

lemma upd_dlg_simps [simp]:
  "dlgs (upd_dlg d f s) = (dlgs s)[d := f (dlgs s ! d)]" "max_z (upd_dlg d f s) = max_z s" "ov_z (upd_dlg d f s) = ov_z s"
  "ov_el (upd_dlg d f s) = ov_el s"
  "ov_live (upd_dlg d f s) = ov_live s" "ov_old (upd_dlg d f s) = ov_old s" "ov_max_z (upd_dlg d f s) = ov_max_z s"
  "next_ov (upd_dlg d f s) = next_ov s" "esc_to (upd_dlg d f s) = esc_to s" "guard_due (upd_dlg d f s) = guard_due s"
  "guard_on (upd_dlg d f s) = guard_on s"
  by (simp_all add: upd_dlg_def)

lemma destroy_overlay_simps [simp]:
  "dlgs (destroy_overlay el s) = dlgs s" "max_z (destroy_overlay el s) = max_z s" "ov_z (destroy_overlay el s) = ov_z s"
  "ov_el (destroy_overlay el s) = ov_el s"
  "ov_live (destroy_overlay el s) = remove1 el (ov_live s)" "next_ov (destroy_overlay el s) = next_ov s"
  "ov_old (destroy_overlay el s) = (if el \<in> set (ov_live s) then ov_old s @ [el] else ov_old s)"
  "ov_max_z (destroy_overlay el s) = fold max (map (overlay_z s) (remove1 el (ov_live s))) 0"
  "guard_due (destroy_overlay el s) = guard_due s"
  "guard_on (destroy_overlay el s) = (guard_on s \<and> remove1 el (ov_live s) \<noteq> [])"
  by (simp_all add: destroy_overlay_def Let_def remove1_idem overlay_z_def [abs_def])

lemma overlay_z_same [simp]: "overlay_z (log_dlg e s) = overlay_z s" "overlay_z (upd_dlg d f s) = overlay_z s"
  by (simp_all add: overlay_z_def fun_eq_iff)

text \<open>A dialog in sight, and one whose height the page manages.\<close>

definition shown :: "desk \<Rightarrow> nat \<Rightarrow> bool" where
  "shown s d \<longleftrightarrow> d < length (dlgs s) \<and> dl_there (dlgs s ! d) \<and> dl_open (dlgs s ! d)"

definition floating :: "desk \<Rightarrow> nat \<Rightarrow> bool" where
  "floating s d \<longleftrightarrow> shown s d \<and> (dl_stack (dlgs s ! d) \<or> dl_modal (dlgs s ! d))"

definition height_of :: "desk \<Rightarrow> nat \<Rightarrow> int" where
  "height_of s d = dl_z (dlgs s ! d)"

definition zs_ok :: "desk \<Rightarrow> bool" where
  "zs_ok s \<longleftrightarrow> 0 \<le> max_z s \<and> (\<forall>d. floating s d \<longrightarrow> 1 \<le> height_of s d \<and> height_of s d \<le> max_z s) \<and>
     (\<forall>d e. floating s d \<and> floating s e \<and> height_of s d = height_of s e \<longrightarrow> d = e)"

lemma zs_okI:
  assumes "0 \<le> max_z s" and "\<And>d. floating s d \<Longrightarrow> 1 \<le> height_of s d \<and> height_of s d \<le> max_z s"
    and "\<And>d e. floating s d \<Longrightarrow> floating s e \<Longrightarrow> height_of s d = height_of s e \<Longrightarrow> d = e"
  shows "zs_ok s"
  using assms by (auto simp: zs_ok_def)

text \<open>What raising a dialog does.\<close>

lemma raise_effect:
  fixes s d force
  defines "D \<equiv> dlgs s ! d" and "m \<equiv> max (max_z s) (dl_z_option (dlgs s ! d))" and "s' \<equiv> move_to_top force d s"
  assumes go: "dl_modal D \<and> force \<or> dl_stack D \<and> \<not> dl_modal D"
  shows "dlgs s' = (dlgs s)[d := D\<lparr>dl_z := max_z s'\<rparr>]"
    and "max_z s' = (if dl_overlay D = None then m + 1 else m + 2)"
    and "ov_z s' = (case dl_overlay D of None \<Rightarrow> ov_z s | Some el \<Rightarrow> (ov_z s)(ov_el s el := m + 1))"
    and "ov_max_z s' = (if dl_overlay D = None then ov_max_z s else m + 1)"
  using go by (auto simp: s'_def D_def m_def move_to_top_def Let_def max_def split: option.split)

lemma move_same [simp]:
  "ov_el (move_to_top force d s) = ov_el s"
  "ov_live (move_to_top force d s) = ov_live s" "ov_old (move_to_top force d s) = ov_old s" "next_ov (move_to_top force d s) = next_ov s"
  "esc_to (move_to_top force d s) = esc_to s" "guard_due (move_to_top force d s) = guard_due s" "guard_on (move_to_top force d s) = guard_on s"
  by (auto simp: move_to_top_def Let_def split: option.split)

lemma move_not:
  assumes "\<not> (dl_modal (dlgs s ! d) \<and> force \<or> dl_stack (dlgs s ! d) \<and> \<not> dl_modal (dlgs s ! d))"
  shows "move_to_top force d s = log_dlg (Focused d) s"
  using assms by (auto simp: move_to_top_def Let_def)

lemma create_overlay_simps [simp]:
  "dlgs (fst (create_overlay d s)) = dlgs s" "max_z (fst (create_overlay d s)) = max_z s" "ov_z (fst (create_overlay d s)) = ov_z s"
  "ov_live (fst (create_overlay d s)) = ov_live s @ [next_ov s]" "guard_on (fst (create_overlay d s)) = guard_on s"
  "ov_max_z (fst (create_overlay d s)) = ov_max_z s" "ov_old (fst (create_overlay d s)) = butlast (ov_old s)"
  "next_ov (fst (create_overlay d s)) = Suc (next_ov s)" "snd (create_overlay d s) = next_ov s"
  "ov_el (fst (create_overlay d s)) = (ov_el s)(next_ov s := if ov_old s = [] then next_ov s else ov_el s (last (ov_old s)))"
  "guard_due (fst (create_overlay d s)) = (if ov_live s = [] then guard_due s + 1 else guard_due s)"
  by (simp_all add: create_overlay_def Let_def)

text \<open>The objects of the lists have elements of their own.\<close>

definition objects_ok :: "desk \<Rightarrow> bool" where
  "objects_ok s \<longleftrightarrow> distinct (map (ov_el s) (ov_live s @ ov_old s)) \<and>
     (\<forall>ob \<in> set (ov_live s @ ov_old s). ob < next_ov s \<and> ov_el s ob < next_ov s)"

lemma objects_distinct: "objects_ok s \<Longrightarrow> distinct (ov_live s @ ov_old s)"
  unfolding objects_ok_def distinct_map by blast

lemma objects_remove:
  assumes ok: "objects_ok s" and s': "ov_live s' = remove1 ob (ov_live s)" "next_ov s' = next_ov s" "ov_el s' = ov_el s"
    "ov_old s' = (if ob \<in> set (ov_live s) then ov_old s @ [ob] else ov_old s)"
  shows "objects_ok s'"
proof (cases "ob \<in> set (ov_live s)")
  case True
  then obtain xs ys where "ov_live s = xs @ ob # ys" "ob \<notin> set xs" by (meson split_list_first)
  then have e: "ov_live s = xs @ ob # ys" "remove1 ob (ov_live s) = xs @ ys" by (simp_all add: remove1_append)
  show ?thesis using ok unfolding objects_ok_def s' e(2) if_P [OF True] unfolding e(1) by auto
next
  case False
  then show ?thesis using ok by (simp add: objects_ok_def s' remove1_idem)
qed

lemma objects_fresh: "objects_ok s \<Longrightarrow> next_ov s \<notin> set (ov_live s)"
  by (auto simp: objects_ok_def)

lemma objects_create:
  assumes ok: "objects_ok s"
    and s': "ov_live s' = ov_live s @ [next_ov s]" "ov_old s' = butlast (ov_old s)" "next_ov s' = Suc (next_ov s)"
      "ov_el s' = (ov_el s)(next_ov s := if ov_old s = [] then next_ov s else ov_el s (last (ov_old s)))"
  shows "objects_ok s'" and "ob \<in> set (ov_live s) \<Longrightarrow> ov_el s' ob = ov_el s ob \<and> ov_el s' ob \<noteq> ov_el s' (next_ov s)"
proof -
  have lt: "ob < next_ov s \<and> ov_el s ob < next_ov s" if "ob \<in> set (ov_live s @ ov_old s)" for ob
    using ok that by (auto simp: objects_ok_def)
  have m: "map (ov_el s') obs = map (ov_el s) obs" if "set obs \<subseteq> set (ov_live s @ ov_old s)" for obs
    using lt subsetD [OF that] by (intro map_cong) (auto simp: s')
  show "objects_ok s'"
  proof (cases "ov_old s" rule: rev_cases)
    case Nil
    then show ?thesis using ok lt m [of "ov_live s"] unfolding objects_ok_def s'(1-3) by (fastforce simp: s'(4) less_SucI)
  next
    case (snoc old ob)
    then have "map (ov_el s') (ov_live s' @ ov_old s') = map (ov_el s) (ov_live s) @ ov_el s ob # map (ov_el s) old"
      using lt unfolding s'(1,2) by (auto simp: s'(4) snoc)
    moreover have "distinct (map (ov_el s) (ov_live s) @ ov_el s ob # map (ov_el s) old)"
      using ok by (auto simp: objects_ok_def snoc)
    ultimately have "distinct (map (ov_el s') (ov_live s' @ ov_old s'))" by simp
    moreover have "\<forall>a \<in> set (ov_live s' @ ov_old s'). a < next_ov s' \<and> ov_el s' a < next_ov s'"
      using lt snoc by (auto simp: s' less_SucI)
    ultimately show ?thesis unfolding objects_ok_def by blast
  qed
  show "ob \<in> set (ov_live s) \<Longrightarrow> ov_el s' ob = ov_el s ob \<and> ov_el s' ob \<noteq> ov_el s' (next_ov s)"
    using lt [of ob] ok by (cases "ov_old s" rule: rev_cases) (auto simp: s'(4) objects_ok_def image_iff)
qed

text \<open>What opening a dialog does.\<close>

lemma open_modal_effect:
  assumes d: "d < length (dlgs s)" and c: "\<not> dl_open (dlgs s ! d)" and m: "dl_modal (dlgs s ! d)"
  defines "D \<equiv> dlgs s ! d" and "h \<equiv> max (max_z s) (dl_z_option (dlgs s ! d))" and "el \<equiv> next_ov s"
  shows "dlgs (open_dialog d s) =
      (dlgs s)[d := D\<lparr>dl_overlay := Some el, dl_z := h + 2, dl_tab_traps := dl_tab_traps D + 1, dl_open := True\<rparr>]"
    and "max_z (open_dialog d s) = h + 2" "ov_z (open_dialog d s) = (ov_z s)(ov_el (open_dialog d s) el := h + 1)"
    and "ov_max_z (open_dialog d s) = h + 1"
    and "ov_live (open_dialog d s) = ov_live s @ [el]" "ov_old (open_dialog d s) = butlast (ov_old s)"
    and "next_ov (open_dialog d s) = Suc (next_ov s)" "guard_on (open_dialog d s) = guard_on s"
    and "ov_el (open_dialog d s) = (ov_el s)(el := if ov_old s = [] then el else ov_el s (last (ov_old s)))"
    and "guard_due (open_dialog d s) = (if ov_live s = [] then guard_due s + 1 else guard_due s)"
proof -
  define t where "t = upd_dlg d (\<lambda>D. D\<lparr>dl_overlay := Some el\<rparr>) (fst (create_overlay d s))"
  have o: "open_dialog d s = log_dlg (Opened d) (upd_dlg d (\<lambda>D. D\<lparr>dl_open := True\<rparr>)
      (upd_dlg d (\<lambda>D. D\<lparr>dl_tab_traps := dl_tab_traps D + 1\<rparr>) (move_to_top True d t)))"
    using c m by (simp add: open_dialog_def Let_def case_prod_beta t_def el_def)
  have t: "dlgs t ! d = D\<lparr>dl_overlay := Some el\<rparr>" "dlgs t = (dlgs s)[d := D\<lparr>dl_overlay := Some el\<rparr>]"
    using d by (simp_all add: t_def D_def)
  have "max_z t = max_z s" by (simp add: t_def)
  then have "max (max_z t) (dl_z_option (dlgs t ! d)) = h" unfolding t(1) by (simp add: h_def D_def)
  note r = raise_effect [where s = t and d = d and force = True, unfolded this]
  have g: "dl_modal (dlgs t ! d) \<and> True \<or> dl_stack (dlgs t ! d) \<and> \<not> dl_modal (dlgs t ! d)" unfolding t(1) using m by (simp add: D_def)
  show "dlgs (open_dialog d s) =
      (dlgs s)[d := D\<lparr>dl_overlay := Some el, dl_z := h + 2, dl_tab_traps := dl_tab_traps D + 1, dl_open := True\<rparr>]"
    using r(1) [OF g] r(2) [OF g] d by (simp add: o t)
  show "max_z (open_dialog d s) = h + 2" "ov_z (open_dialog d s) = (ov_z s)(ov_el (open_dialog d s) el := h + 1)" "ov_max_z (open_dialog d s) = h + 1"
    using r(2,3,4) [OF g, unfolded t(1)] by (simp_all add: o) (simp_all add: t_def)
  show "ov_live (open_dialog d s) = ov_live s @ [el]" "ov_old (open_dialog d s) = butlast (ov_old s)"
    "next_ov (open_dialog d s) = Suc (next_ov s)" "guard_on (open_dialog d s) = guard_on s"
    "ov_el (open_dialog d s) = (ov_el s)(el := if ov_old s = [] then el else ov_el s (last (ov_old s)))"
    "guard_due (open_dialog d s) = (if ov_live s = [] then guard_due s + 1 else guard_due s)"
    by (simp_all add: o t_def el_def)
qed

lemma open_plain_effect:
  assumes d: "d < length (dlgs s)" and c: "\<not> dl_open (dlgs s ! d)" and m: "\<not> dl_modal (dlgs s ! d)"
  defines "D \<equiv> dlgs s ! d" and "h \<equiv> max (max_z s) (dl_z_option (dlgs s ! d))"
  shows "dlgs (open_dialog d s) =
      (dlgs s)[d := D\<lparr>dl_overlay := None, dl_z := (if dl_stack D then h + 1 else dl_z D), dl_open := True\<rparr>]"
    and "max_z (open_dialog d s) = (if dl_stack D then h + 1 else max_z s)"
    and "ov_z (open_dialog d s) = ov_z s" "ov_el (open_dialog d s) = ov_el s" "ov_max_z (open_dialog d s) = ov_max_z s"
    and "ov_live (open_dialog d s) = ov_live s" "ov_old (open_dialog d s) = ov_old s" "next_ov (open_dialog d s) = next_ov s"
    and "guard_on (open_dialog d s) = guard_on s" "guard_due (open_dialog d s) = guard_due s"
proof -
  define t where "t = upd_dlg d (\<lambda>D. D\<lparr>dl_overlay := None\<rparr>) s"
  have o: "open_dialog d s = log_dlg (Opened d) (upd_dlg d (\<lambda>D. D\<lparr>dl_open := True\<rparr>) (move_to_top True d t))"
    using c m by (simp add: open_dialog_def Let_def t_def)
  have t: "dlgs t ! d = D\<lparr>dl_overlay := None\<rparr>" "dlgs t = (dlgs s)[d := D\<lparr>dl_overlay := None\<rparr>]"
    using d by (simp_all add: t_def D_def)
  have "max_z t = max_z s" by (simp add: t_def)
  then have "max (max_z t) (dl_z_option (dlgs t ! d)) = h" unfolding t(1) by (simp add: h_def D_def)
  note r = raise_effect [where s = t and d = d and force = True, unfolded this]
  show "dlgs (open_dialog d s) =
      (dlgs s)[d := D\<lparr>dl_overlay := None, dl_z := (if dl_stack D then h + 1 else dl_z D), dl_open := True\<rparr>]"
    "max_z (open_dialog d s) = (if dl_stack D then h + 1 else max_z s)"
    "ov_z (open_dialog d s) = ov_z s" "ov_el (open_dialog d s) = ov_el s" "ov_max_z (open_dialog d s) = ov_max_z s"
    using r d m move_not [of t d True] by (cases "dl_stack D"; simp add: o t D_def; simp add: t_def)+
  show "ov_live (open_dialog d s) = ov_live s" "ov_old (open_dialog d s) = ov_old s" "next_ov (open_dialog d s) = next_ov s"
    "guard_on (open_dialog d s) = guard_on s" "guard_due (open_dialog d s) = guard_due s"
    by (simp_all add: o t_def)
qed

lemma zs_ok_upd:
  assumes ok: "zs_ok s" and L: "dlgs s' = (dlgs s)[d := X]" and d: "d < length (dlgs s)" and m: "0 \<le> max_z s'"
    and X: "dl_there X \<and> dl_open X \<and> (dl_stack X \<or> dl_modal X) \<Longrightarrow>
      (dl_z X = max_z s' \<and> max_z s < max_z s') \<or> (floating s d \<and> dl_z X = height_of s d)"
    and le: "\<And>e. floating s' e \<Longrightarrow> height_of s' e \<le> max_z s'"
  shows "zs_ok s'"
proof -
  have rest: "floating s' e = floating s e" "height_of s' e = height_of s e" if "e \<noteq> d" for e
    using that by (simp_all add: floating_def shown_def height_of_def L)
  have at: "floating s' d \<longleftrightarrow> dl_there X \<and> dl_open X \<and> (dl_stack X \<or> dl_modal X)" "height_of s' d = dl_z X"
    using d by (simp_all add: floating_def shown_def height_of_def L)
  have z: "1 \<le> height_of s e \<and> height_of s e \<le> max_z s" if "floating s e" for e using ok that by (simp add: zs_ok_def)
  have "1 \<le> height_of s' e" if "floating s' e" for e
    using that X z [of e] at rest [of e] ok by (cases "e = d") (auto simp: zs_ok_def)
  moreover have "e = d" if "floating s' d" "floating s' e" "height_of s' d = height_of s' e" for e
  proof (rule ccontr)
    assume ne: "e \<noteq> d"
    then have e: "floating s e" "height_of s e = dl_z X" using that rest at by simp_all
    from X that(1) at(1) have "(dl_z X = max_z s' \<and> max_z s < max_z s') \<or> (floating s d \<and> dl_z X = height_of s d)" by blast
    then show False
    proof
      assume "floating s d \<and> dl_z X = height_of s d"
      with e ne ok show False by (auto simp: zs_ok_def)
    qed (use z [OF e(1)] e(2) in simp)
  qed
  moreover have "e = f" if "e \<noteq> d" "f \<noteq> d" "floating s' e" "floating s' f" "height_of s' e = height_of s' f" for e f
    using that rest [of e] rest [of f] ok by (auto simp: zs_ok_def)
  ultimately show ?thesis using m le by (intro zs_okI) metis+
qed

lemma zs_ok_raised:
  assumes ok: "zs_ok s" and L: "dlgs s' = (dlgs s)[d := X]" and d: "d < length (dlgs s)"
    and z: "dl_z X = max_z s'" "max_z s < max_z s'"
  shows "zs_ok s'"
proof (rule zs_ok_upd [OF ok L d])
  show "0 \<le> max_z s'" using ok z(2) by (simp add: zs_ok_def)
  show "height_of s' e \<le> max_z s'" if "floating s' e" for e
  proof (cases "e = d")
    case True
    then show ?thesis using d z(1) by (simp add: height_of_def L)
  next
    case False
    then have "floating s e" "height_of s' e = height_of s e" using that by (simp_all add: floating_def shown_def height_of_def L)
    then show ?thesis using ok z(2) by (auto simp: zs_ok_def)
  qed
qed (use z in simp)

lemma zs_ok_kept:
  assumes ok: "zs_ok s" and L: "dlgs s' = (dlgs s)[d := X]" and d: "d < length (dlgs s)" and m: "max_z s' = max_z s"
    and X: "dl_there X \<Longrightarrow> dl_open X \<Longrightarrow> dl_stack X \<or> dl_modal X \<Longrightarrow> floating s d \<and> dl_z X = height_of s d"
  shows "zs_ok s'"
proof (rule zs_ok_upd [OF ok L d])
  show "0 \<le> max_z s'" using ok m by (simp add: zs_ok_def)
  show "height_of s' e \<le> max_z s'" if "floating s' e" for e
  proof (cases "e = d")
    case True
    then show ?thesis using that X d ok m by (auto simp: floating_def shown_def height_of_def zs_ok_def L)
  next
    case False
    then have "floating s e" "height_of s' e = height_of s e" using that by (simp_all add: floating_def shown_def height_of_def L)
    then show ?thesis using ok m by (auto simp: zs_ok_def)
  qed
qed (use X in blast)

lemma fold_max: "fold max xs a = Max (insert a (set xs))" for a :: int
  using Max.set_eq_fold [of a xs] by simp

lemma open_zs: "zs_ok s \<Longrightarrow> d < length (dlgs s) \<Longrightarrow> zs_ok (open_dialog d s)"
proof -
  assume ok: "zs_ok s" and d: "d < length (dlgs s)"
  consider "dl_open (dlgs s ! d)" | (m) "\<not> dl_open (dlgs s ! d)" "dl_modal (dlgs s ! d)"
    | (p) "\<not> dl_open (dlgs s ! d)" "\<not> dl_modal (dlgs s ! d)" by blast
  then show ?thesis
  proof cases
    case 1
    then show ?thesis using ok by (simp add: open_dialog_def)
  next
    case m
    show ?thesis by (rule zs_ok_raised [OF ok open_modal_effect(1) [OF d m] d]) (simp_all add: open_modal_effect [OF d m])
  next
    case p
    show ?thesis
    proof (cases "dl_stack (dlgs s ! d)")
      case True
      show ?thesis
        by (rule zs_ok_raised [OF ok open_plain_effect(1) [OF d p] d]) (simp_all add: open_plain_effect [OF d p] True)
    next
      case False
      show ?thesis
        by (rule zs_ok_kept [OF ok open_plain_effect(1) [OF d p] d]) (use False p in \<open>simp_all add: open_plain_effect [OF d p]\<close>)
    qed
  qed
qed

lemma move_zs: "zs_ok s \<Longrightarrow> d < length (dlgs s) \<Longrightarrow> zs_ok (move_to_top force d s)"
proof -
  assume ok: "zs_ok s" and d: "d < length (dlgs s)"
  show ?thesis
  proof (cases "dl_modal (dlgs s ! d) \<and> force \<or> dl_stack (dlgs s ! d) \<and> \<not> dl_modal (dlgs s ! d)")
    case True
    have "max_z s < max_z (move_to_top force d s)" using raise_effect(2) [OF True] by (auto simp: max_def)
    then show ?thesis by (rule zs_ok_raised [OF ok raise_effect(1) [OF True] d, rotated]) simp
  next
    case False
    then show ?thesis using ok by (simp add: move_not zs_ok_def floating_def shown_def height_of_def)
  qed
qed

text \<open>Closing a dialog, vetoed or not.\<close>

lemma close_effect:
  fixes d s
  defines "el \<equiv> dl_overlay (dlgs s ! d)" and "s' \<equiv> close_dialog True d s"
  shows "dlgs s' = (dlgs s)[d := (dlgs s ! d)\<lparr>dl_open := False\<rparr>]"
    and "max_z s' = (if dl_modal (dlgs s ! d) then fold max (other_zs d s) 0 else max_z s)"
    and "ov_z s' = ov_z s" "ov_el s' = ov_el s" "next_ov s' = next_ov s" "guard_due s' = guard_due s"
    and "ov_live s' = (case el of None \<Rightarrow> ov_live s | Some el \<Rightarrow> remove1 el (ov_live s))"
    and "ov_old s' = (case el of None \<Rightarrow> ov_old s | Some el \<Rightarrow> if el \<in> set (ov_live s) then ov_old s @ [el] else ov_old s)"
    and "guard_on s' = (case el of None \<Rightarrow> guard_on s | Some el \<Rightarrow> guard_on s \<and> remove1 el (ov_live s) \<noteq> [])"
    and "ov_max_z s' = (case el of None \<Rightarrow> ov_max_z s | Some el \<Rightarrow> fold max (map (overlay_z s) (remove1 el (ov_live s))) 0)"
proof -
  define t where "t = (case el of None \<Rightarrow> log_dlg (BeforeClose d) s | Some el \<Rightarrow> destroy_overlay el (log_dlg (BeforeClose d) s))"
  define u where "u = log_dlg (Closed d) (upd_dlg d (\<lambda>D. D\<lparr>dl_open := False\<rparr>) t)"
  have s': "s' = (if dl_modal (dlgs u ! d) then u\<lparr>max_z := fold max (other_zs d u) 0\<rparr> else u)"
    by (simp add: s'_def close_dialog_def Let_def u_def t_def el_def)
  have L: "dlgs t = dlgs s" "max_z t = max_z s" by (simp_all add: t_def split: option.split)
  have M: "dl_modal (dlgs u ! d) = dl_modal (dlgs s ! d)"
    by (cases "d < length (dlgs s)") (simp_all add: u_def L list_update_beyond)
  have O: "other_zs d u = other_zs d s"
    unfolding other_zs_def by (intro map_cong filter_cong) (auto simp: u_def L nth_list_update)
  show "dlgs s' = (dlgs s)[d := (dlgs s ! d)\<lparr>dl_open := False\<rparr>]" by (simp add: s' u_def L)
  show "max_z s' = (if dl_modal (dlgs s ! d) then fold max (other_zs d s) 0 else max_z s)"
    unfolding s' M O by (simp add: u_def L)
  show "ov_z s' = ov_z s" "ov_el s' = ov_el s" "next_ov s' = next_ov s" "guard_due s' = guard_due s"
    "ov_live s' = (case el of None \<Rightarrow> ov_live s | Some el \<Rightarrow> remove1 el (ov_live s))"
    "ov_old s' = (case el of None \<Rightarrow> ov_old s | Some el \<Rightarrow> if el \<in> set (ov_live s) then ov_old s @ [el] else ov_old s)"
    "guard_on s' = (case el of None \<Rightarrow> guard_on s | Some el \<Rightarrow> guard_on s \<and> remove1 el (ov_live s) \<noteq> [])"
    "ov_max_z s' = (case el of None \<Rightarrow> ov_max_z s | Some el \<Rightarrow> fold max (map (overlay_z s) (remove1 el (ov_live s))) 0)"
    by (simp_all add: s' u_def t_def split: option.split)
qed

lemma close_dlgs: "dlgs (close_dialog ok d s) = (if ok then (dlgs s)[d := (dlgs s ! d)\<lparr>dl_open := False\<rparr>] else dlgs s)"
  using close_effect(1) [of d s] by (cases ok) (simp_all add: close_dialog_def Let_def)

lemma close_zs: "zs_ok s \<Longrightarrow> d < length (dlgs s) \<Longrightarrow> zs_ok (close_dialog ok d s)"
proof (cases ok)
  case True
  assume z: "zs_ok s" and d: "d < length (dlgs s)"
  note c = close_effect [of d s]
  have "zs_ok (close_dialog True d s)"
  proof (rule zs_ok_upd [OF z c(1) d])
    show "0 \<le> max_z (close_dialog True d s)" using z by (simp add: c(2) fold_max zs_ok_def)
    show "height_of (close_dialog True d s) e \<le> max_z (close_dialog True d s)" if "floating (close_dialog True d s) e" for e
    proof -
      have e: "e \<noteq> d" "floating s e" "height_of (close_dialog True d s) e = height_of s e"
        using that d by (auto simp: floating_def shown_def height_of_def c(1) nth_list_update split: if_splits)
      then have "height_of s e \<in> set (other_zs d s)" by (auto simp: other_zs_def floating_def shown_def height_of_def)
      then show ?thesis using z e by (auto simp: c(2) fold_max zs_ok_def intro: Max_ge)
    qed
  qed simp
  with True show ?thesis by simp
qed (simp add: close_dialog_def zs_ok_def floating_def shown_def height_of_def)

section \<open>Overlays belong to dialogs\<close>

text \<open>The overlay of a dialog in sight.\<close>

definition overlay_of :: "desk \<Rightarrow> nat \<Rightarrow> nat option" where
  "overlay_of s d = (if shown s d then dl_overlay (dlgs s ! d) else None)"

definition ov_ok :: "desk \<Rightarrow> bool" where
  "ov_ok s \<longleftrightarrow> objects_ok s \<and>
     (\<forall>d. d < length (dlgs s) \<longrightarrow> (\<forall>el. dl_overlay (dlgs s ! d) = Some el \<longrightarrow> el < next_ov s \<and> (el \<in> set (ov_live s) \<longrightarrow> shown s d))) \<and>
     (\<forall>d. shown s d \<longrightarrow> dl_modal (dlgs s ! d) = (overlay_of s d \<noteq> None)) \<and>
     (\<forall>d el. overlay_of s d = Some el \<longrightarrow> el \<in> set (ov_live s) \<and> overlay_z s el = height_of s d - 1) \<and>
     (\<forall>el \<in> set (ov_live s). \<exists>d. overlay_of s d = Some el) \<and>
     (\<forall>d e el. overlay_of s d = Some el \<and> overlay_of s e = Some el \<longrightarrow> d = e) \<and>
     (\<forall>d e el. floating s e \<and> overlay_of s d = Some el \<longrightarrow> height_of s e \<noteq> overlay_z s el) \<and>
     ov_max_z s = fold max (map (overlay_z s) (ov_live s)) 0 \<and>
     (ov_live s \<noteq> [] \<longrightarrow> guard_on s \<or> 0 < guard_due s) \<and> (ov_live s = [] \<longrightarrow> \<not> guard_on s)"

lemma ov_okD:
  assumes "ov_ok s"
  shows "objects_ok s" "d < length (dlgs s) \<Longrightarrow> dl_overlay (dlgs s ! d) = Some el \<Longrightarrow> el < next_ov s \<and> (el \<in> set (ov_live s) \<longrightarrow> shown s d)"
    "shown s d \<Longrightarrow> dl_modal (dlgs s ! d) = (overlay_of s d \<noteq> None)"
    "overlay_of s d = Some el \<Longrightarrow> el \<in> set (ov_live s) \<and> overlay_z s el = height_of s d - 1"
    "el \<in> set (ov_live s) \<Longrightarrow> \<exists>d. overlay_of s d = Some el"
    "overlay_of s d = Some el \<Longrightarrow> overlay_of s e = Some el \<Longrightarrow> d = e"
    "floating s e \<Longrightarrow> overlay_of s d = Some el \<Longrightarrow> height_of s e \<noteq> overlay_z s el"
    "ov_max_z s = fold max (map (overlay_z s) (ov_live s)) 0"
    "ov_live s \<noteq> [] \<Longrightarrow> guard_on s \<or> 0 < guard_due s" "ov_live s = [] \<Longrightarrow> \<not> guard_on s"
proof -
  note a = assms [unfolded ov_ok_def]
  show "objects_ok s"
    using a [THEN conjunct1] by blast
  show "d < length (dlgs s) \<Longrightarrow> dl_overlay (dlgs s ! d) = Some el \<Longrightarrow> el < next_ov s \<and> (el \<in> set (ov_live s) \<longrightarrow> shown s d)"
    using a [THEN conjunct2, THEN conjunct1] by blast
  show "shown s d \<Longrightarrow> dl_modal (dlgs s ! d) = (overlay_of s d \<noteq> None)"
    using a [THEN conjunct2, THEN conjunct2, THEN conjunct1] by blast
  show "overlay_of s d = Some el \<Longrightarrow> el \<in> set (ov_live s) \<and> overlay_z s el = height_of s d - 1"
    using a [THEN conjunct2, THEN conjunct2, THEN conjunct2, THEN conjunct1] by blast
  show "el \<in> set (ov_live s) \<Longrightarrow> \<exists>d. overlay_of s d = Some el"
    using a [THEN conjunct2, THEN conjunct2, THEN conjunct2, THEN conjunct2, THEN conjunct1] by blast
  show "overlay_of s d = Some el \<Longrightarrow> overlay_of s e = Some el \<Longrightarrow> d = e"
    using a [THEN conjunct2, THEN conjunct2, THEN conjunct2, THEN conjunct2, THEN conjunct2, THEN conjunct1] by blast
  show "floating s e \<Longrightarrow> overlay_of s d = Some el \<Longrightarrow> height_of s e \<noteq> overlay_z s el"
    using a [THEN conjunct2, THEN conjunct2, THEN conjunct2, THEN conjunct2, THEN conjunct2, THEN conjunct2, THEN conjunct1] by blast
  show "ov_max_z s = fold max (map (overlay_z s) (ov_live s)) 0"
    using a [THEN conjunct2, THEN conjunct2, THEN conjunct2, THEN conjunct2, THEN conjunct2, THEN conjunct2, THEN conjunct2, THEN conjunct1] by blast
  show "ov_live s \<noteq> [] \<Longrightarrow> guard_on s \<or> 0 < guard_due s"
    using a [THEN conjunct2, THEN conjunct2, THEN conjunct2, THEN conjunct2, THEN conjunct2, THEN conjunct2, THEN conjunct2, THEN conjunct2, THEN conjunct1] by simp
  show "ov_live s = [] \<Longrightarrow> \<not> guard_on s"
    using a [THEN conjunct2, THEN conjunct2, THEN conjunct2, THEN conjunct2, THEN conjunct2, THEN conjunct2, THEN conjunct2, THEN conjunct2, THEN conjunct2] by simp
qed

lemma ov_okI:
  assumes "objects_ok s"
    "\<And>d el. d < length (dlgs s) \<Longrightarrow> dl_overlay (dlgs s ! d) = Some el \<Longrightarrow> el < next_ov s \<and> (el \<in> set (ov_live s) \<longrightarrow> shown s d)"
    "\<And>d. shown s d \<Longrightarrow> dl_modal (dlgs s ! d) = (overlay_of s d \<noteq> None)"
    "\<And>d el. overlay_of s d = Some el \<Longrightarrow> el \<in> set (ov_live s) \<and> overlay_z s el = height_of s d - 1"
    "\<And>el. el \<in> set (ov_live s) \<Longrightarrow> \<exists>d. overlay_of s d = Some el"
    "\<And>d e el. overlay_of s d = Some el \<Longrightarrow> overlay_of s e = Some el \<Longrightarrow> d = e"
    "\<And>d e el. floating s e \<Longrightarrow> overlay_of s d = Some el \<Longrightarrow> height_of s e \<noteq> overlay_z s el"
    "ov_max_z s = fold max (map (overlay_z s) (ov_live s)) 0"
    "ov_live s \<noteq> [] \<Longrightarrow> guard_on s \<or> 0 < guard_due s" "ov_live s = [] \<Longrightarrow> \<not> guard_on s"
  shows "ov_ok s"
  unfolding ov_ok_def by (intro conjI; (rule assms)?; (intro allI impI ballI; (elim conjE)?; rule assms; assumption)?)

lemma overlay_floats: "ov_ok s \<Longrightarrow> overlay_of s d = Some el \<Longrightarrow> floating s d"
  using ov_okD(3) [of s d] by (auto simp: floating_def overlay_of_def split: if_splits)

lemma ov_z_le: "ov_ok s \<Longrightarrow> zs_ok s \<Longrightarrow> el \<in> set (ov_live s) \<Longrightarrow> 0 \<le> overlay_z s el \<and> overlay_z s el < max_z s"
proof -
  assume ok: "ov_ok s" "zs_ok s" and el: "el \<in> set (ov_live s)"
  obtain d where d: "overlay_of s d = Some el" using ov_okD(5) [OF ok(1) el] by blast
  have "1 \<le> height_of s d \<and> height_of s d \<le> max_z s" using overlay_floats [OF ok(1) d] ok(2) by (simp add: zs_ok_def)
  then show ?thesis using ov_okD(4) [OF ok(1) d] by simp
qed

text \<open>A dialog that goes out of sight, or is closed once more; what it has of an overlay is in use for no other dialog.\<close>

lemma hide_ov:
  assumes ok: "ov_ok s" and d: "d < length (dlgs s)"
  defines "live \<equiv> (case dl_overlay (dlgs s ! d) of None \<Rightarrow> ov_live s | Some el \<Rightarrow> remove1 el (ov_live s))"
  assumes L: "dlgs s' = (dlgs s)[d := X]" and X: "\<not> (dl_there X \<and> dl_open X)" "dl_overlay X = dl_overlay (dlgs s ! d)"
    and rest: "ov_z s' = ov_z s" "ov_el s' = ov_el s" "next_ov s' = next_ov s" "guard_due s' = guard_due s" "ov_live s' = live"
      "ov_old s' = (case dl_overlay (dlgs s ! d) of None \<Rightarrow> ov_old s | Some el \<Rightarrow> if el \<in> set (ov_live s) then ov_old s @ [el] else ov_old s)"
      "guard_on s' = (case dl_overlay (dlgs s ! d) of None \<Rightarrow> guard_on s | Some el \<Rightarrow> guard_on s \<and> live \<noteq> [])"
      "ov_max_z s' = (case dl_overlay (dlgs s ! d) of None \<Rightarrow> ov_max_z s | Some el \<Rightarrow> fold max (map (overlay_z s) live) 0)"
  shows "ov_ok s'"
proof -
  note o = ov_okD [OF ok]
  have sh: "shown s' e \<longleftrightarrow> shown s e \<and> e \<noteq> d" "floating s' e \<longleftrightarrow> floating s e \<and> e \<noteq> d" for e
    using d X by (auto simp: floating_def shown_def L nth_list_update)
  have ho: "height_of s' e = height_of s e" "dl_modal (dlgs s' ! e) = dl_modal (dlgs s ! e)"
    "overlay_of s' e = overlay_of s e" if "e \<noteq> d" for e
    using that by (simp_all add: height_of_def L overlay_of_def sh)
  have od: "overlay_of s' d = None" by (simp add: overlay_of_def sh)
  have live: "el \<in> set live \<longleftrightarrow> el \<in> set (ov_live s) \<and> overlay_of s d \<noteq> Some el" for el
  proof (cases "dl_overlay (dlgs s ! d)")
    case None
    then show ?thesis by (simp add: live_def overlay_of_def)
  next
    case (Some ob)
    then have "ob \<in> set (ov_live s) \<Longrightarrow> shown s d" using o(2) [OF d] by simp
    moreover have "distinct (ov_live s)" using objects_distinct [OF o(1)] by simp
    ultimately show ?thesis using Some by (auto simp: live_def overlay_of_def)
  qed
  have oz: "overlay_z s' = overlay_z s" by (simp add: overlay_z_def rest fun_eq_iff)
  show ?thesis
  proof (rule ov_okI)
    show "objects_ok s'"
    proof (cases "dl_overlay (dlgs s ! d)")
      case None
      then show ?thesis using o(1) by (simp add: objects_ok_def live_def rest)
    next
      case (Some ob)
      show ?thesis by (rule objects_remove [OF o(1), of _ ob]) (simp_all add: live_def rest Some)
    qed
    show "el < next_ov s' \<and> (el \<in> set (ov_live s') \<longrightarrow> shown s' e)"
      if "e < length (dlgs s')" "dl_overlay (dlgs s' ! e) = Some el" for e el
    proof -
      have "e < length (dlgs s)" "dl_overlay (dlgs s ! e) = Some el" using that X(2) by (cases "e = d"; simp add: L)+
      with o(2) [of e el] live [of el] show ?thesis by (auto simp: rest sh overlay_of_def split: if_splits)
    qed
    show "dl_modal (dlgs s' ! e) = (overlay_of s' e \<noteq> None)" if "shown s' e" for e
      using that o(3) [of e] ho [of e] sh(1) [of e] by simp
    show "el \<in> set (ov_live s') \<and> overlay_z s' el = height_of s' e - 1" if "overlay_of s' e = Some el" for e el
    proof -
      have "e \<noteq> d" using that od by auto
      then have "overlay_of s e = Some el" "height_of s' e = height_of s e" using that ho [of e] by simp_all
      moreover have "overlay_of s d \<noteq> Some el" using o(6) [of e el d] \<open>overlay_of s e = Some el\<close> \<open>e \<noteq> d\<close> by blast
      ultimately show ?thesis using o(4) [of e el] live [of el] by (simp add: oz rest)
    qed
    show "\<exists>e. overlay_of s' e = Some el" if "el \<in> set (ov_live s')" for el
    proof -
      have l: "el \<in> set (ov_live s)" "overlay_of s d \<noteq> Some el" using that live [of el] by (simp_all add: rest)
      then obtain e where "overlay_of s e = Some el" using o(5) by blast
      then show ?thesis using l(2) ho(3) [of e] by (intro exI [of _ e]) auto
    qed
    show "e = f" if "overlay_of s' e = Some el" "overlay_of s' f = Some el" for e f el
    proof -
      have "e \<noteq> d" "f \<noteq> d" using that od by auto
      then show ?thesis using that o(6) [of e el f] ho(3) by simp
    qed
    show "height_of s' e \<noteq> overlay_z s' el" if "floating s' e" "overlay_of s' f = Some el" for e f el
    proof -
      have "f \<noteq> d" "e \<noteq> d" using that od sh(2) [of e] by auto
      then show ?thesis using that o(7) [of e f el] ho sh(2) [of e] by (simp add: oz)
    qed
    show "ov_max_z s' = fold max (map (overlay_z s') (ov_live s')) 0"
      using o(8) by (simp add: oz rest live_def split: option.split)
    show "guard_on s' \<or> 0 < guard_due s'" if "ov_live s' \<noteq> []"
    proof -
      have "ov_live s \<noteq> []" using that by (auto simp: rest live_def split: option.splits)
      then show ?thesis using o(9) that by (auto simp: rest split: option.split)
    qed
    show "\<not> guard_on s'" if "ov_live s' = []"
      using o(10) that by (auto simp: rest live_def split: option.splits)
  qed
qed

text \<open>A dialog that is changed but keeps its place and its overlay.\<close>

lemma same_ov:
  assumes ok: "ov_ok s" and L: "dlgs s' = (dlgs s)[d := X]" and d: "d < length (dlgs s)"
    and X: "dl_there X = dl_there (dlgs s ! d)" "dl_open X = dl_open (dlgs s ! d)"
      "shown s d \<Longrightarrow> dl_modal X = dl_modal (dlgs s ! d) \<and> dl_stack X = dl_stack (dlgs s ! d)"
    and same: "dl_overlay X = dl_overlay (dlgs s ! d)"
    and z: "shown s d \<Longrightarrow> dl_z X = height_of s d \<or> overlay_of s d = None \<and> (\<forall>el \<in> set (ov_live s). dl_z X \<noteq> overlay_z s el)"
    and rest: "ov_z s' = ov_z s" "ov_el s' = ov_el s" "ov_live s' = ov_live s" "ov_old s' = ov_old s" "ov_max_z s' = ov_max_z s" "next_ov s' = next_ov s"
      "guard_due s' = guard_due s" "guard_on s' = guard_on s"
  shows "ov_ok s'"
proof (rule ov_okI)
  note o = ov_okD [OF ok]
  have at: "dlgs s' ! e = (if e = d then X else dlgs s ! e)" for e using d by (simp add: L)
  have len: "length (dlgs s') = length (dlgs s)" by (simp add: L)
  have sh: "shown s' e = shown s e" "floating s' e = floating s e" "overlay_of s' e = overlay_of s e"
    "shown s e \<Longrightarrow> dl_modal (dlgs s' ! e) = dl_modal (dlgs s ! e)" for e
    using X same d len by (cases "e = d"; auto simp: shown_def floating_def overlay_of_def at)+
  have oz: "overlay_z s' = overlay_z s" by (simp add: overlay_z_def rest fun_eq_iff)
  have he: "height_of s' e = height_of s e" if "e \<noteq> d" for e using that by (simp add: height_of_def at)
  show "dl_modal (dlgs s' ! e) = (overlay_of s' e \<noteq> None)" if "shown s' e" for e using that o(3) [of e] sh [of e] by simp
  have hd: "height_of s' e = height_of s e" if "overlay_of s e = Some el" for e el
  proof (cases "e = d")
    case True
    then have "shown s d" using that by (simp add: overlay_of_def split: if_splits)
    then show ?thesis using z that True by (auto simp: height_of_def at)
  qed (simp add: he)
  show "el \<in> set (ov_live s') \<and> overlay_z s' el = height_of s' e - 1" if "overlay_of s' e = Some el" for e el
    using that o(4) [of e el] hd [of e el] by (simp add: sh rest oz)
  show "height_of s' e \<noteq> overlay_z s' el" if "floating s' e" "overlay_of s' f = Some el" for e f el
  proof (cases "e = d \<and> dl_z X \<noteq> height_of s d")
    case True
    then have "shown s d" "el \<in> set (ov_live s)" using that o(4) [of f el] by (auto simp: sh floating_def)
    then show ?thesis using True z by (auto simp: height_of_def at oz)
  next
    case False
    then have "height_of s' e = height_of s e" using he [of e] by (auto simp: height_of_def at)
    then show ?thesis using that o(7) [of e f el] by (simp add: sh oz)
  qed
  show "\<exists>e. overlay_of s' e = Some el" if "el \<in> set (ov_live s')" for el using that o(5) [of el] by (simp add: sh rest)
  show "e = f" if "overlay_of s' e = Some el" "overlay_of s' f = Some el" for e f el using that o(6) [of e el f] by (simp add: sh)
  show "objects_ok s'" using o(1) by (simp add: objects_ok_def rest)
  show "el < next_ov s' \<and> (el \<in> set (ov_live s') \<longrightarrow> shown s' e)" if "e < length (dlgs s')" "dl_overlay (dlgs s' ! e) = Some el" for e el
    using that same o(2) [of e el] by (cases "e = d") (simp_all add: rest sh len at)
  show "ov_max_z s' = fold max (map (overlay_z s') (ov_live s')) 0" using o(8) by (simp add: rest oz)
  show "guard_on s' \<or> 0 < guard_due s'" if "ov_live s' \<noteq> []" using o(9) that by (simp add: rest)
  show "\<not> guard_on s'" if "ov_live s' = []" using o(10) that by (simp add: rest)
qed

lemma move_ov:
  assumes ok: "ov_ok s" "zs_ok s" and d: "shown s d"
  shows "ov_ok (move_to_top False d s)"
proof (cases "dl_stack (dlgs s ! d) \<and> \<not> dl_modal (dlgs s ! d)")
  case False
  then have "move_to_top False d s = log_dlg (Focused d) s" by (intro move_not) simp
  then show ?thesis
    using same_ov [OF ok(1), of "log_dlg (Focused d) s" d "dlgs s ! d"] d by (simp add: shown_def height_of_def)
next
  case True
  then have go: "dl_modal (dlgs s ! d) \<and> False \<or> dl_stack (dlgs s ! d) \<and> \<not> dl_modal (dlgs s ! d)" by simp
  note r = raise_effect [OF go]
  have none: "overlay_of s d = None" "dl_overlay (dlgs s ! d) = None"
    using ov_okD(3) [OF ok(1) d] True d by (simp_all add: overlay_of_def)
  have "max_z (move_to_top False d s) \<noteq> overlay_z s el" if "el \<in> set (ov_live s)" for el
    using ov_z_le [OF ok that] r(2) none by (simp add: max_def split: if_splits)
  then show ?thesis
    using d none r(3,4) by (intro same_ov [OF ok(1) r(1)]) (simp_all add: shown_def)
qed

lemma open_ov:
  assumes ok: "ov_ok s" "zs_ok s" and d: "d < length (dlgs s)" "dl_there (dlgs s ! d)"
  shows "ov_ok (open_dialog d s)"
proof -
  note o = ov_okD [OF ok(1)]
  consider "dl_open (dlgs s ! d)" | (m) "\<not> dl_open (dlgs s ! d)" "dl_modal (dlgs s ! d)"
    | (p) "\<not> dl_open (dlgs s ! d)" "\<not> dl_modal (dlgs s ! d)" by blast
  then show ?thesis
  proof cases
    case 1
    then show ?thesis using ok by (simp add: open_dialog_def)
  next
    case p
    define s' where "s' = open_dialog d s"
    note e = open_plain_effect [OF d(1) p, folded s'_def]
    have at: "dlgs s' ! x = (if x = d then dlgs s' ! d else dlgs s ! x)" for x using d by (simp add: e)
    have oz: "overlay_z s' = overlay_z s" by (simp add: overlay_z_def e fun_eq_iff)
    have new: "overlay_of s' d = None" "overlay_of s d = None" "shown s' d" "\<not> dl_modal (dlgs s' ! d)" "\<not> shown s d"
      using d p by (simp_all add: overlay_of_def shown_def e)
    have sh: "shown s' x = shown s x" "floating s' x = floating s x" "overlay_of s' x = overlay_of s x" "height_of s' x = height_of s x"
      if "x \<noteq> d" for x using that by (simp_all add: shown_def floating_def overlay_of_def height_of_def e)
    have "ov_ok s'"
    proof (rule ov_okI)
      show "dl_modal (dlgs s' ! x) = (overlay_of s' x \<noteq> None)" if "shown s' x" for x
        using that o(3) [of x] sh [of x] new by (cases "x = d") (simp_all add: e)
      show "el \<in> set (ov_live s') \<and> overlay_z s' el = height_of s' x - 1" if "overlay_of s' x = Some el" for x el
        using that o(4) [of x el] sh [of x] new by (cases "x = d") (simp_all add: e oz)
      show "\<exists>x. overlay_of s' x = Some el" if el: "el \<in> set (ov_live s')" for el
      proof -
        obtain x where x: "overlay_of s x = Some el" using o(5) [of el] el by (auto simp: e)
        then have "x \<noteq> d" using new by auto
        then show ?thesis using x sh(3) [of x] by (intro exI [of _ x]) simp
      qed
      show "x = y" if "overlay_of s' x = Some el" "overlay_of s' y = Some el" for x y el
      proof -
        have "x \<noteq> d" "y \<noteq> d" using that new by auto
        then have "overlay_of s x = Some el" "overlay_of s y = Some el" using that sh(3) by simp_all
        then show ?thesis by (rule o(6))
      qed
      show "height_of s' x \<noteq> overlay_z s' el" if fl: "floating s' x" and ov: "overlay_of s' y = Some el" for x y el
      proof (cases "x = d")
        case True
        have "y \<noteq> d" using ov new by auto
        then have "el \<in> set (ov_live s)" using o(4) [of y el] sh(3) [of y] ov by simp
        then have "overlay_z s el < max_z s" using ov_z_le [OF ok] by blast
        moreover have "dl_stack (dlgs s ! d)" using fl True d p by (auto simp: floating_def shown_def e)
        ultimately show ?thesis using True d by (simp add: height_of_def e oz)
      next
        case False
        have "y \<noteq> d" using ov new by auto
        then show ?thesis using False o(7) [of x y el] sh [of x] sh(3) [of y] fl ov by (simp add: e oz)
      qed
      show "el < next_ov s' \<and> (el \<in> set (ov_live s') \<longrightarrow> shown s' x)" if "x < length (dlgs s')" "dl_overlay (dlgs s' ! x) = Some el" for x el
        using that o(2) [of x el] sh(1) [of x] d by (cases "x = d") (simp_all add: e)
      show "objects_ok s'" using o(1) by (simp add: objects_ok_def e)
    qed (use o in \<open>simp_all add: e oz\<close>)
    then show ?thesis by (simp add: s'_def)
  next
    case m
    define s' where "s' = open_dialog d s"
    define el where "el = next_ov s"
    note e = open_modal_effect [OF d(1) m, folded s'_def el_def]
    note f = objects_fresh [OF o(1), folded el_def] objects_create [OF o(1), of s', folded el_def, OF e(5-7,9)]
    have oz: "overlay_z s' el = max (max_z s) (dl_z_option (dlgs s ! d)) + 1" "\<And>a. a \<in> set (ov_live s) \<Longrightarrow> overlay_z s' a = overlay_z s a"
      using f(3) by (simp add: overlay_z_def e(3), metis (no_types) overlay_z_def e(3) fun_upd_apply)
    have new: "overlay_of s' d = Some el" "overlay_of s d = None" "height_of s' d = max (max_z s) (dl_z_option (dlgs s ! d)) + 2"
      using d m by (simp_all add: overlay_of_def shown_def e height_of_def)
    have sh: "shown s' x = shown s x" "floating s' x = floating s x" "overlay_of s' x = overlay_of s x" "height_of s' x = height_of s x"
      if "x \<noteq> d" for x using that by (simp_all add: shown_def floating_def overlay_of_def height_of_def e)
    have le: "overlay_z s a < max_z s" if "a \<in> set (ov_live s)" for a using ov_z_le [OF ok that] by simp
    have "ov_ok s'"
    proof (rule ov_okI)
      show "dl_modal (dlgs s' ! x) = (overlay_of s' x \<noteq> None)" if "shown s' x" for x
        using that o(3) [of x] sh [of x] new d m by (cases "x = d") (simp_all add: e)
      show "a \<in> set (ov_live s') \<and> overlay_z s' a = height_of s' x - 1" if "overlay_of s' x = Some a" for x a
        using that o(4) [of x a] sh [of x] new oz by (cases "x = d") (auto simp: e(5))
      show "\<exists>x. overlay_of s' x = Some a" if a: "a \<in> set (ov_live s')" for a
      proof (cases "a = el")
        case False
        then obtain x where x: "overlay_of s x = Some a" using o(5) [of a] a by (auto simp: e)
        then have "x \<noteq> d" using new by auto
        then show ?thesis using x sh(3) [of x] by (intro exI [of _ x]) simp
      qed (use new in blast)
      have ne: "overlay_of s x \<noteq> Some el" for x using o(4) [of x el] f(1) by auto
      show "x = y" if "overlay_of s' x = Some a" "overlay_of s' y = Some a" for x y a
      proof (cases "a = el")
        case True
        have "z = d" if "overlay_of s' z = Some a" for z using that True sh(3) [of z] ne [of z] by (cases "z = d") simp_all
        then have "x = d" "y = d" using that by blast+
        then show ?thesis by simp
      next
        case False
        then have "x \<noteq> d" "y \<noteq> d" using that new by auto
        then have "overlay_of s x = Some a" "overlay_of s y = Some a" using that sh(3) by simp_all
        then show ?thesis by (rule o(6))
      qed
      show "height_of s' x \<noteq> overlay_z s' a" if fl: "floating s' x" and ov: "overlay_of s' y = Some a" for x y a
      proof (cases "a = el")
        case True
        have "height_of s' x \<noteq> max (max_z s) (dl_z_option (dlgs s ! d)) + 1"
          using fl sh(2,4) [of x] ok(2) new(3) by (cases "x = d") (fastforce simp: zs_ok_def)+
        then show ?thesis using True by (simp add: oz)
      next
        case False
        then have y: "y \<noteq> d" using ov new by auto
        then have a: "overlay_of s y = Some a" using ov sh by simp
        show ?thesis
        proof (cases "x = d")
          case True
          then show ?thesis using le [of a] o(4) [OF a] oz(2) [of a] new(3) by (auto simp: max_def)
        next
          case x: False
          then show ?thesis using oz(2) [of a] o(4) [OF a] o(7) [of x y a] sh [of x] fl a by simp
        qed
      qed
      have "fold max (map (overlay_z s') (ov_live s')) 0 = max (max_z s) (dl_z_option (dlgs s ! d)) + 1"
        unfolding fold_max
      proof (rule Max_eqI)
        show "b \<le> max (max_z s) (dl_z_option (dlgs s ! d)) + 1" if "b \<in> insert 0 (set (map (overlay_z s') (ov_live s')))" for b
          using that le oz ok(2) by (fastforce simp: e(5) zs_ok_def)
      qed (use oz(1) in \<open>auto simp: e(5)\<close>)
      then show "ov_max_z s' = fold max (map (overlay_z s') (ov_live s')) 0" by (simp add: e(4))
      show "objects_ok s'" by (rule f(2))
      show "a < next_ov s' \<and> (a \<in> set (ov_live s') \<longrightarrow> shown s' x)" if "x < length (dlgs s')" "dl_overlay (dlgs s' ! x) = Some a" for x a
        using that o(2) [of x a] sh(1) [of x] d by (cases "x = d") (auto simp: e el_def shown_def)
      show "guard_on s' \<or> 0 < guard_due s'" using o(9) by (auto simp: e)
    qed (simp add: e)
    then show ?thesis by (simp add: s'_def)
  qed
qed

section \<open>Every use of the dialogs\<close>

definition empty_desk :: desk where
  "empty_desk = \<lparr>dlgs = [], max_z = 0, ov_el = (\<lambda>ob. 0), ov_z = (\<lambda>el. 0), ov_doc = [], ov_live = [], ov_old = [], ov_max_z = 0, next_ov = 0, esc_to = None,
     guard_due = 0, guard_on = False, dl_log = []\<rparr>"

text \<open>
  Uses of the dialogs of a page, in any order; a dialog may be closed and destroyed more than once.  The options \<open>modal\<close> and \<open>stack\<close> change while the dialog is closed.
\<close>

inductive desk_reachable :: "desk \<Rightarrow> bool" where
  Empty: "desk_reachable empty_desk"
| Create: "desk_reachable s \<Longrightarrow> desk_reachable (create_dialog modal stack escape z auto s)"
| Open: "desk_reachable s \<Longrightarrow> d < length (dlgs s) \<Longrightarrow> dl_there (dlgs s ! d) \<Longrightarrow> desk_reachable (open_dialog d s)"
| Close: "desk_reachable s \<Longrightarrow> d < length (dlgs s) \<Longrightarrow>
    desk_reachable (close_dialog ok d s)"
| Destroy: "desk_reachable s \<Longrightarrow> d < length (dlgs s) \<Longrightarrow>
    desk_reachable (destroy_dialog d s)"
| Press: "desk_reachable s \<Longrightarrow> shown s d \<Longrightarrow> desk_reachable (move_to_top False d s)"
| Escape: "desk_reachable s \<Longrightarrow> (\<And>d. focus = Some d \<Longrightarrow> shown s d) \<Longrightarrow> desk_reachable (escape_key ok focus s)"
| Timer: "desk_reachable s \<Longrightarrow> desk_reachable (guard_timer s)"
| Change: "desk_reachable s \<Longrightarrow> d < length (dlgs s) \<Longrightarrow> shown s d \<Longrightarrow> c \<in> {SetEscape b, SetZIndex z} \<Longrightarrow>
    desk_reachable (upd_dlg d (set_dialog c) s)"
| ChangeClosed: "desk_reachable s \<Longrightarrow> d < length (dlgs s) \<Longrightarrow> \<not> shown s d \<Longrightarrow>
    desk_reachable (upd_dlg d (set_dialog c) s)"

definition esc_ok :: "desk \<Rightarrow> bool" where
  "esc_ok s \<longleftrightarrow> (\<forall>d. esc_to s = Some d \<longrightarrow> d < length (dlgs s))"

lemma esc_ok_ops:
  assumes "esc_ok s" and "d < length (dlgs s)"
  shows "esc_ok (open_dialog d s)" "esc_ok (close_dialog ok d s)" "esc_ok (destroy_dialog d s)"
    "esc_ok (move_to_top force d s)" "esc_ok (guard_timer s)" "esc_ok (upd_dlg d f s)"
proof -
  have n: "length (dlgs (move_to_top force d s)) = length (dlgs s)" for force s
    by (simp add: move_to_top_def Let_def split: option.split)
  have c: "esc_to (fst (create_overlay d s)) = (if ov_live s = [] then Some d else esc_to s)"
    by (simp add: create_overlay_def Let_def)
  have g: "esc_to (destroy_overlay el s) = Some e \<Longrightarrow> esc_to s = Some e" for el s e
    by (simp add: destroy_overlay_def Let_def split: if_splits)
  show "esc_ok (open_dialog d s)"
  proof -
    have "length (dlgs (open_dialog d s)) = length (dlgs s)" by (simp add: open_dialog_def Let_def case_prod_beta n)
    moreover have "esc_to (open_dialog d s) = esc_to s \<or> esc_to (open_dialog d s) = Some d"
      by (simp add: open_dialog_def Let_def case_prod_beta c)
    ultimately show ?thesis using assms by (auto simp: esc_ok_def split: option.splits)
  qed
  show "esc_ok (move_to_top force d s)" "esc_ok (guard_timer s)" "esc_ok (upd_dlg d f s)"
    using assms by (auto simp: esc_ok_def n guard_timer_def)
  show "esc_ok (destroy_dialog d s)"
    using assms by (auto dest!: g simp: esc_ok_def destroy_dialog_def Let_def split: option.splits)
  show "esc_ok (close_dialog ok d s)"
    using assms by (auto dest!: g simp: esc_ok_def close_dialog_def Let_def split: option.splits)
qed

lemma destroy_dlgs:
  fixes d s
  defines "s' \<equiv> destroy_dialog d s"
  shows "dlgs s' = (dlgs s)[d := (dlgs s ! d)\<lparr>dl_there := False\<rparr>]" "max_z s' = max_z s"
  by (simp_all add: s'_def destroy_dialog_def Let_def split: option.split)

lemma gone_ov:
  assumes ok: "ov_ok s" and d: "d < length (dlgs s)"
  shows "ov_ok (close_dialog b d s)" "ov_ok (destroy_dialog d s)"
proof -
  have "ov_ok (close_dialog True d s)"
    by (rule hide_ov [OF ok d close_effect(1)]) (simp_all add: close_effect split: option.split)
  moreover have "ov_ok (close_dialog False d s)"
    using ok d same_ov [OF ok, of "close_dialog False d s" d "dlgs s ! d"] by (simp add: close_dialog_def Let_def height_of_def)
  ultimately show "ov_ok (close_dialog b d s)" by (cases b) simp_all
  show "ov_ok (destroy_dialog d s)"
    by (rule hide_ov [OF ok d destroy_dlgs(1)]) (simp_all add: destroy_dialog_def Let_def split: option.split)
qed

lemma create_dialog_ok:
  assumes ok: "zs_ok s" "ov_ok s" "esc_ok s"
  shows "zs_ok (create_dialog modal stack escape z auto s)" "ov_ok (create_dialog modal stack escape z auto s)"
    "esc_ok (create_dialog modal stack escape z auto s)"
proof -
  define t where "t = create_dialog modal stack escape z False s"
  have at: "e < length (dlgs s) \<Longrightarrow> dlgs t ! e = dlgs s ! e" "length (dlgs t) = Suc (length (dlgs s))"
    "\<not> dl_open (dlgs t ! length (dlgs s))" "dl_there (dlgs t ! length (dlgs s))" for e
    by (simp_all add: t_def create_dialog_def Let_def nth_append)
  have none: "dl_overlay (dlgs t ! length (dlgs s)) = None" by (simp add: t_def create_dialog_def Let_def)
  have sh: "shown t e = shown s e" "floating t e = floating s e" "overlay_of t e = overlay_of s e" for e
    using at(3) at(1) [of e] by (cases "e = length (dlgs s)"; auto simp: shown_def floating_def overlay_of_def at(2) less_Suc_eq)+
  have hm: "height_of t e = height_of s e" "dl_modal (dlgs t ! e) = dl_modal (dlgs s ! e)" if "shown s e" for e
    using that at(1) [of e] by (simp_all add: shown_def height_of_def)
  have rest: "max_z t = max_z s" "ov_z t = ov_z s" "ov_el t = ov_el s" "ov_live t = ov_live s" "ov_old t = ov_old s" "ov_max_z t = ov_max_z s"
    "next_ov t = next_ov s" "guard_due t = guard_due s" "guard_on t = guard_on s" "esc_to t = esc_to s"
    by (simp_all add: t_def create_dialog_def Let_def)
  have z: "zs_ok t"
  proof (rule zs_okI)
    have hf: "height_of t e = height_of s e" if "floating s e" for e using hm(1) that by (simp add: floating_def)
    show "1 \<le> height_of t d \<and> height_of t d \<le> max_z t" if "floating t d" for d
      using that ok(1) hf by (simp add: sh rest zs_ok_def)
    show "d = e" if "floating t d" "floating t e" "height_of t d = height_of t e" for d e
      using that ok(1) hf by (simp add: sh zs_ok_def)
  qed (use ok(1) in \<open>simp add: rest zs_ok_def\<close>)
  have oz: "overlay_z t = overlay_z s" by (simp add: overlay_z_def rest fun_eq_iff)
  have o: "ov_ok t"
  proof -
    note o = ov_okD [OF ok(2)]
    have shn: "shown s e" if "overlay_of s e = Some el" for e el using that by (simp add: overlay_of_def split: if_splits)
    show ?thesis
    proof (rule ov_okI)
      show "dl_modal (dlgs t ! d) = (overlay_of t d \<noteq> None)" if "shown t d" for d using that o(3) [of d] hm by (simp add: sh)
      show "el \<in> set (ov_live t) \<and> overlay_z t el = height_of t d - 1" if "overlay_of t d = Some el" for d el
        using that o(4) [of d el] hm(1) [OF shn] by (simp add: rest sh oz)
      show "\<exists>d. overlay_of t d = Some el" if "el \<in> set (ov_live t)" for el using that o(5) by (simp add: rest sh)
      show "d = e" if "overlay_of t d = Some el" "overlay_of t e = Some el" for d e el using that o(6) [of d el e] by (simp add: sh)
      show "height_of t e \<noteq> overlay_z t el" if "floating t e" "overlay_of t d = Some el" for d e el
        using that o(7) [of e d el] hm(1) [of e] by (simp add: oz sh) (simp add: floating_def)
      show "objects_ok t" using o(1) by (simp add: objects_ok_def rest)
      show "el < next_ov t \<and> (el \<in> set (ov_live t) \<longrightarrow> shown t d)" if "d < length (dlgs t)" "dl_overlay (dlgs t ! d) = Some el" for d el
        using that o(2) [of d el] at none by (cases "d = length (dlgs s)") (simp_all add: sh rest)
    qed (use o(8-10) in \<open>simp_all add: rest oz\<close>)
  qed
  have e: "esc_ok t" using ok(3) at(2) by (auto simp: esc_ok_def rest less_SucI)
  have c: "create_dialog modal stack escape z auto s = (if auto then open_dialog (length (dlgs s)) t else t)"
    by (simp add: t_def create_dialog_def Let_def)
  show "zs_ok (create_dialog modal stack escape z auto s)" using z open_zs [of t] by (simp add: c at)
  show "ov_ok (create_dialog modal stack escape z auto s)" using o open_ov [of t] z by (simp add: c at)
  show "esc_ok (create_dialog modal stack escape z auto s)" using e esc_ok_ops(1) [of t] by (simp add: c at)
qed

lemma desk_reachable_ok: "desk_reachable s \<Longrightarrow> zs_ok s \<and> esc_ok s \<and> ov_ok s"
proof (induction rule: desk_reachable.induct)
  case Empty
  show ?case
    by (simp add: empty_desk_def zs_ok_def esc_ok_def ov_ok_def objects_ok_def floating_def shown_def overlay_of_def)
next
  case (Create s modal stack escape z auto)
  then show ?case using create_dialog_ok [of s modal stack escape z auto] by blast
next
  case (Open s d)
  then show ?case using open_zs [of s d] open_ov [of s d] esc_ok_ops(1) [of s d] by blast
next
  case (Close s d ok)
  then show ?case using close_zs [of s d ok] gone_ov(1) [of s d ok] esc_ok_ops(2) [of s d ok] by blast
next
  case (Destroy s d)
  moreover have "zs_ok (destroy_dialog d s)" if "zs_ok s" "d < length (dlgs s)"
    by (rule zs_ok_kept [OF that(1) destroy_dlgs(1) that(2) destroy_dlgs(2)]) simp
  ultimately show ?case using gone_ov(2) [of s d] esc_ok_ops(3) [of s d] by blast
next
  case (Press s d)
  then have "d < length (dlgs s)" by (simp add: shown_def)
  then show ?case using Press move_zs [of s d False] move_ov [of s d] esc_ok_ops(4) [of s d False] by blast
next
  case (Escape s focus ok)
  show ?case
  proof (cases "escape_closes focus s")
    case None
    then show ?thesis using Escape by (simp add: escape_key_def)
  next
    case (Some d)
    have "d < length (dlgs s)"
      using Some Escape.IH Escape.hyps(2)
      by (auto simp: escape_closes_def outer_escape_def esc_ok_def shown_def split: option.splits if_splits)
    then show ?thesis
      using Some Escape close_zs [of s d ok] gone_ov(1) [of s d ok] esc_ok_ops(2) [of s d ok] by (simp add: escape_key_def)
  qed
next
  case (Timer s)
  have r: "dlgs (guard_timer s) = dlgs s" "max_z (guard_timer s) = max_z s" "ov_z (guard_timer s) = ov_z s" "ov_el (guard_timer s) = ov_el s" "ov_live (guard_timer s) = ov_live s"
    "ov_old (guard_timer s) = ov_old s" "next_ov (guard_timer s) = next_ov s" "esc_to (guard_timer s) = esc_to s"
    "ov_max_z (guard_timer s) = ov_max_z s"
    by (simp_all add: guard_timer_def)
  have sh: "shown (guard_timer s) d = shown s d" "floating (guard_timer s) d = floating s d" "overlay_of (guard_timer s) d = overlay_of s d"
    "height_of (guard_timer s) d = height_of s d" for d
    by (simp_all add: shown_def floating_def overlay_of_def height_of_def r)
  have oz: "overlay_z (guard_timer s) = overlay_z s" by (simp add: overlay_z_def r fun_eq_iff)
  have "ov_ok (guard_timer s)" if ok: "ov_ok s"
  proof (rule ov_okI)
    show "guard_on (guard_timer s) \<or> 0 < guard_due (guard_timer s)" if "ov_live (guard_timer s) \<noteq> []"
      using ov_okD(9) [OF ok] that by (auto simp: guard_timer_def)
    show "\<not> guard_on (guard_timer s)" if "ov_live (guard_timer s) = []"
      using ov_okD(10) [OF ok] that by (auto simp: guard_timer_def)
  qed (use ov_okD(1-8) [OF ok] in \<open>simp_all add: r sh oz objects_ok_def\<close>)
  then show ?case using Timer.IH by (simp add: zs_ok_def esc_ok_def r sh)
next
  case (Change s d c b z)
  define X where "X = set_dialog c (dlgs s ! d)"
  have X: "dl_z X = dl_z (dlgs s ! d)" "dl_there X = dl_there (dlgs s ! d)" "dl_open X = dl_open (dlgs s ! d)"
    "dl_modal X = dl_modal (dlgs s ! d)" "dl_stack X = dl_stack (dlgs s ! d)" "dl_overlay X = dl_overlay (dlgs s ! d)"
    using Change.hyps(4) by (auto simp: X_def)
  have L: "dlgs (upd_dlg d (set_dialog c) s) = (dlgs s)[d := X]" by (simp add: X_def)
  have "zs_ok (upd_dlg d (set_dialog c) s)" if "zs_ok s"
    by (rule zs_ok_kept [OF that L Change.hyps(2)]) (simp_all add: X floating_def Change.hyps(3) height_of_def)
  moreover have "ov_ok (upd_dlg d (set_dialog c) s)" if "ov_ok s"
    by (rule same_ov [OF that L Change.hyps(2)]) (simp_all add: X height_of_def)
  ultimately show ?case using Change.IH Change.hyps(2) esc_ok_ops(6) by blast
next
  case (ChangeClosed s d c)
  define X where "X = set_dialog c (dlgs s ! d)"
  have X: "dl_there X = dl_there (dlgs s ! d)" "dl_open X = dl_open (dlgs s ! d)" "dl_overlay X = dl_overlay (dlgs s ! d)" by (cases c; simp add: X_def)+
  have L: "dlgs (upd_dlg d (set_dialog c) s) = (dlgs s)[d := X]" by (simp add: X_def)
  have h: "\<not> (dl_there X \<and> dl_open X)" using ChangeClosed.hyps(2,3) X by (simp add: shown_def)
  have "zs_ok (upd_dlg d (set_dialog c) s)" if "zs_ok s"
    by (rule zs_ok_kept [OF that L ChangeClosed.hyps(2)]) (use h in simp_all)
  moreover have "ov_ok (upd_dlg d (set_dialog c) s)" if "ov_ok s"
    by (rule same_ov [OF that L ChangeClosed.hyps(2) X(1,2) _ X(3)]) (use ChangeClosed.hyps(3) in simp_all)
  ultimately show ?case using ChangeClosed.IH ChangeClosed.hyps(2) esc_ok_ops(6) by blast
qed

section \<open>Properties\<close>

text \<open>C23: As soon as the timers of the overlays have run, events aimed at a dialog in sight are held back exactly if a modal dialog lies
  above it; so the topmost modal dialog and what lies above it can be used, and no dialog below it can.  The dialog asked about is
  modal or has the option \<open>stack\<close> (others keep the height of their option \<open>zIndex\<close>).  This holds however often and in whatever order dialogs are created, opened, closed and
  destroyed (also when closed already), pressed while in sight or closed by Escape, vetoed or not, with overlays used again; there are no animations, the options
  \<open>modal\<close> and \<open>stack\<close> change only while a dialog is closed, and handlers do not call the widget.
\<close>

theorem modal_holds_back_below:
  assumes "desk_reachable s" and "guard_due s = 0" and "floating s e"
  shows "held_back s (height_of s e) \<longleftrightarrow> (\<exists>d. shown s d \<and> dl_modal (dlgs s ! d) \<and> height_of s e < height_of s d)"
proof -
  have ok: "ov_ok s" "zs_ok s" using desk_reachable_ok [OF assms(1)] by simp_all
  note o = ov_okD [OF ok(1)]
  have pos: "1 \<le> height_of s e" using ok(2) assms(3) by (simp add: zs_ok_def)
  have modal: "shown s d \<and> dl_modal (dlgs s ! d) \<longleftrightarrow> (\<exists>el. overlay_of s d = Some el)" for d
    using o(3) [of d] by (auto simp: overlay_of_def)
  have above: "height_of s e < overlay_z s el \<longleftrightarrow> height_of s e < height_of s d" if "overlay_of s d = Some el" for d el
    using o(4) [OF that] o(7) [OF assms(3) that] by linarith
  have "held_back s (height_of s e) \<longleftrightarrow> (\<exists>el \<in> set (ov_live s). height_of s e < overlay_z s el)"
  proof (cases "ov_live s = []")
    case False
    then have "guard_on s" using o(9) assms(2) by simp
    then show ?thesis using o(8) pos by (simp add: held_back_def fold_max Max_gr_iff)
  qed (use o(10) in \<open>simp add: held_back_def\<close>)
  also have "\<dots> \<longleftrightarrow> (\<exists>d. (\<exists>el. overlay_of s d = Some el) \<and> height_of s e < height_of s d)"
    using o(4,5) above by metis
  finally show ?thesis using modal by blast
qed

text \<open>A dialog that is opened lies above every other dialog in sight, and if it is modal its overlay lies
  between it and them, whatever the page did before.\<close>

theorem opened_on_top:
  assumes "desk_reachable s" and "d < length (dlgs s)" and "dl_there (dlgs s ! d) \<and> \<not> dl_open (dlgs s ! d)"
    and "dl_stack (dlgs s ! d) \<or> dl_modal (dlgs s ! d)" and "floating s e"
  shows "shown (open_dialog d s) d \<and> height_of (open_dialog d s) e < height_of (open_dialog d s) d \<and>
    (dl_modal (dlgs s ! d) \<longrightarrow> height_of (open_dialog d s) e < ov_max_z (open_dialog d s) \<and>
      ov_max_z (open_dialog d s) < height_of (open_dialog d s) d)"
proof -
  have le: "height_of s e \<le> max_z s" using desk_reachable_ok [OF assms(1)] assms(5) by (simp add: zs_ok_def)
  have ne: "e \<noteq> d" using assms(3,5) by (auto simp: floating_def shown_def)
  show ?thesis
  proof (cases "dl_modal (dlgs s ! d)")
    case True
    note m = open_modal_effect [OF assms(2) _ True]
    show ?thesis using assms(2,3) le ne by (auto simp: m shown_def height_of_def max_def)
  next
    case False
    note p = open_plain_effect [OF assms(2) _ False]
    show ?thesis using assms(2-4) le ne False by (auto simp: p shown_def height_of_def max_def)
  qed
qed

section \<open>Sizes, positions, titles\<close>

datatype dialog_height = AutoHeight | FixedHeight int

record dialog_size =
  g_width :: int
  g_height :: dialog_height
  g_min_width :: int
  g_min_height :: int

definition min_height :: "dialog_size \<Rightarrow> int" where
  "min_height g = (case g_height g of AutoHeight \<Rightarrow> g_min_height g | FixedHeight h \<Rightarrow> min (g_min_height g) h)"

text \<open>
  \<open>_size\<close> gives the content a least height (when its height is \<open>auto\<close>; browsers without \<open>min-height\<close> are left aside) or a
  fixed one.  \<open>around\<close> is the height of everything else in the dialog at a width.
\<close>

datatype content_size = AtLeast int | Exactly int

definition size_dialog :: "(int \<Rightarrow> int) \<Rightarrow> dialog_size \<Rightarrow> dialog_size \<times> content_size" where
  "size_dialog around g =
     (let g1 = (if g_min_width g > g_width g then g\<lparr>g_width := g_min_width g\<rparr> else g);
          other = around (g_width g1);
          least = max 0 (g_min_height g1 - other)
      in (g1, case g_height g1 of AutoHeight \<Rightarrow> AtLeast least | FixedHeight h \<Rightarrow> Exactly (max (h - other) 0)))"

text \<open>The whole dialog has the height asked for, as far as its frame leaves room for the content.\<close>

lemma size_dialog_height:
  "size_dialog around g = (g', c) \<Longrightarrow> g_min_width g \<le> g_width g' \<and> g_width g \<le> g_width g' \<and>
     (case c of AtLeast m \<Rightarrow> g_height g = AutoHeight \<and> around (g_width g') + m = max (around (g_width g')) (g_min_height g)
      | Exactly h \<Rightarrow> (case g_height g of FixedHeight k \<Rightarrow> around (g_width g') + h = max (around (g_width g')) k | AutoHeight \<Rightarrow> False))"
  by (auto simp: size_dialog_def Let_def max_def split: dialog_height.splits if_splits)

text \<open>Which of the options given to \<open>_setOptions\<close> make it size the dialog again, and which go to the resizable.\<close>

definition size_related :: "string list" where
  "size_related = [''buttons'', ''height'', ''maxHeight'', ''maxWidth'', ''minHeight'', ''minWidth'', ''width'']"

definition resizable_related :: "string list" where
  "resizable_related = [''maxHeight'', ''maxWidth'', ''minHeight'', ''minWidth'']"

definition set_options_plan :: "(string \<times> 'v) list \<Rightarrow> bool \<times> (string \<times> 'v) list" where
  "set_options_plan os = (list_ex (\<lambda>(k, v). k \<in> set size_related) os, filter (\<lambda>(k, v). k \<in> set resizable_related) os)"

lemma resizable_options_resize: "snd (set_options_plan os) \<noteq> [] \<Longrightarrow> fst (set_options_plan os)"
  by (auto simp: set_options_plan_def size_related_def resizable_related_def list_ex_iff filter_empty_conv)

text \<open>
  The option \<open>position\<close> as words, or as an array whose first two elements are words or numbers: the words for \<open>my\<close> and
  \<open>at\<close>, and the offset.
\<close>

datatype pos_item = PosNum int | PosWord string

fun item_word :: "string \<Rightarrow> pos_item \<Rightarrow> string" where
  "item_word side (PosNum n) = side"
| "item_word side (PosWord w) = w"

fun item_offset :: "pos_item \<Rightarrow> int" where
  "item_offset (PosNum n) = n"
| "item_offset (PosWord w) = 0"

definition dialog_position :: "pos_item list \<Rightarrow> string \<times> string" where
  "dialog_position xs =
     (let ys = (if length xs = 1 then [hd xs, hd xs] else xs);
          words = item_word ''left'' (ys ! 0) # item_word ''top'' (ys ! 1) # map (item_word []) (drop 2 ys)
      in (concat (tl (concat (map (\<lambda>w. ['' '', w]) words))),
          show_int (item_offset (ys ! 0)) @ '' '' @ show_int (item_offset (ys ! 1))))"

lemma dialog_position_numbers: "dialog_position [PosNum x, PosNum y] = (''left top'', show_int x @ '' '' @ show_int y)"
  by (simp add: dialog_position_def)

lemma dialog_position_word: "dialog_position [PosWord w] = (w @ '' '' @ w, ''0 0'')"
  by (simp add: dialog_position_def show_int_def) code_simp

text \<open>\<open>getTitleId\<close> with the counter \<open>uuid\<close>.\<close>

definition title_id :: "string \<Rightarrow> nat \<Rightarrow> string \<times> nat" where
  "title_id own uuid = (let (i, u) = (if own = [] then (show_nat (uuid + 1), uuid + 1) else (own, uuid)) in (''ui-dialog-title-'' @ i, u))"

text \<open>The key Tab never leaves a modal dialog: it moves inside or is turned round at the ends.\<close>

lemma trap_tab_inside: "trap_tab xs t shift = Some u \<Longrightarrow> u \<in> set xs"
  by (auto simp: trap_tab_def split: if_splits)

lemma trap_tab_turns: "xs \<noteq> [] \<Longrightarrow> trap_tab xs (last xs) False = Some (hd xs) \<and> trap_tab xs (hd xs) True = Some (last xs)"
  by (simp add: trap_tab_def)

section \<open>Examples\<close>

text \<open>A dialog under a modal one, with the handlers bound.\<close>

definition desk_demo :: desk where
  "desk_demo = guard_timer (create_dialog True True True 1000 True (create_dialog False True True 1000 True empty_desk))"

lemma desk_demo_reachable: "desk_reachable desk_demo"
  unfolding desk_demo_def by (intro Timer Create Empty)

theorem modal_holds_back_below_witness:
  "held_back desk_demo (height_of desk_demo 0) \<and> \<not> held_back desk_demo (height_of desk_demo 1)"
proof -
  have f: "guard_due desk_demo = 0" "floating desk_demo 0" "floating desk_demo 1" by code_simp+
  have up: "shown desk_demo 1" "dl_modal (dlgs desk_demo ! 1)" "height_of desk_demo 0 < height_of desk_demo 1" by code_simp+
  have "d = 0 \<or> d = 1" if "shown desk_demo d" for d
  proof -
    have "length (dlgs desk_demo) = 2" by code_simp
    with that show ?thesis by (auto simp: shown_def)
  qed
  then have "\<not> (\<exists>d. shown desk_demo d \<and> dl_modal (dlgs desk_demo ! d) \<and> height_of desk_demo 1 < height_of desk_demo d)"
    using up(3) by (metis less_irrefl not_less_iff_gr_or_eq)
  then show ?thesis
    using modal_holds_back_below [OF desk_demo_reachable f(1,2)] modal_holds_back_below [OF desk_demo_reachable f(1,3)] up by blast
qed

theorem opened_on_top_witness:
  "height_of (open_dialog 2 (create_dialog True True True 500 False desk_demo)) 1 = 1003 \<and>
   height_of (open_dialog 2 (create_dialog True True True 500 False desk_demo)) 1 <
     height_of (open_dialog 2 (create_dialog True True True 500 False desk_demo)) 2"
proof -
  define s where "s = create_dialog True True True 500 False desk_demo"
  have r: "desk_reachable s" unfolding s_def by (intro Create desk_demo_reachable)
  have f: "2 < length (dlgs s)" "dl_there (dlgs s ! 2) \<and> \<not> dl_open (dlgs s ! 2)" "dl_stack (dlgs s ! 2) \<or> dl_modal (dlgs s ! 2)"
    "floating s 1" unfolding s_def by code_simp+
  have "height_of (open_dialog 2 s) 1 = 1003" unfolding s_def by code_simp
  with opened_on_top [OF r f] show ?thesis unfolding s_def by simp
qed

text \<open>
  Closing (or destroying) a modal dialog once more, after another has opened: the element of its overlay is the other's by then and is
  taken out of the document.  Events are still held back, but nothing is drawn over the page.  Each call of \<open>close\<close> raises its events again.
\<close>

definition desk_two :: desk where
  "desk_two = guard_timer (open_dialog 1 (close_dialog True 0
     (create_dialog True True True 1000 False (create_dialog True True True 1000 True empty_desk))))"

lemma close_twice_takes_overlay:
  "shown desk_two 1 \<and> held_back desk_two 0 \<and> ov_doc desk_two = [0] \<and>
   (let s = close_dialog True 0 desk_two in shown s 1 \<and> held_back s 0 \<and> ov_doc s = []) \<and>
   (let s = destroy_dialog 0 desk_two in shown s 1 \<and> held_back s 0 \<and> ov_doc s = [])"
  by code_simp

text \<open>
  Two modal dialogs: Escape with the focus outside of them closes the lower one, and so does Escape inside the upper one when that
  has \<open>closeOnEscape\<close> off.
\<close>

lemma escape_closes_lower:
  "let s = create_dialog True True False 1000 True (create_dialog True True True 1000 True empty_desk)
   in height_of s 0 < height_of s 1 \<and> escape_closes None s = Some 0 \<and> escape_closes (Some 1) s = Some 0"
  by code_simp

text \<open>The handler of Tab is bound at every opening, and closing unbinds another event.\<close>

lemma tab_traps_pile_up:
  "dl_tab_traps (dlgs (open_dialog 0 (close_dialog True 0 (create_dialog True True True 1000 True empty_desk))) ! 0) = 2"
  by code_simp

end
