(* ===== verification/Ui_Autocomplete.thy ===== *)
theory Ui_Autocomplete
  imports Js_Prelude "HOL-Library.Sublist"
begin

text \<open>
  Autocomplete and its menu, \<open>jquery.ui.autocomplete.js\<close>.  A page has several fields, which share the counter
  \<open>requestIndex\<close>; requests are answered by steps of their own, and so are timers.  The answers of the
  page to the events that can be vetoed are part of the state of a field.
\<close>

section \<open>Filtering\<close>

text \<open>Items of a source: a string, or an object with a \<open>label\<close> and a \<open>value\<close> that may be \<open>undefined\<close>.\<close>

datatype src_item = Text string | Obj "string option" "string option"

text \<open>The characters that \<open>escapeRegex\<close> quotes; blanks are \<open>\\s\<close>.\<close>

definition regex_special :: "char \<Rightarrow> bool" where
  "regex_special c \<longleftrightarrow> c \<in> set ''-[]{}()*+?.,^$|#'' \<or> c = CHR 92 \<or> is_blank c"

definition escape_regex :: "string \<Rightarrow> string" where
  "escape_regex s = concat (map (\<lambda>c. if regex_special c then [CHR 92, c] else [c]) s)"

text \<open>
  A regular expression that is a sequence of plain and quoted characters stands for these characters.  Others
  have no meaning here: an operator of regular expressions, a quoted letter or digit, or a lone quote.
\<close>

definition regex_operator :: "char \<Rightarrow> bool" where
  "regex_operator c \<longleftrightarrow> c \<in> set ''^$.*+?()[]{}|''"

fun read_literal :: "string \<Rightarrow> string option" where
  "read_literal [] = Some []"
| "read_literal [c] = (if c = CHR 92 \<or> regex_operator c then None else Some [c])"
| "read_literal (c # d # s) =
     (if c = CHR 92 then (if is_digit d \<or> d \<in> set ''abcdefghijklmnopqrstuvwxyzABCDEFGHIJKLMNOPQRSTUVWXYZ_'' then None
                          else map_option ((#) d) (read_literal s))
      else if regex_operator c then None else map_option ((#) c) (read_literal (d # s)))"

definition regex_test :: "string \<Rightarrow> string \<Rightarrow> bool" where
  "regex_test pat s = (case read_literal pat of Some lit \<Rightarrow> sublist (to_lower lit) (to_lower s) | None \<Rightarrow> False)"

text \<open>\<open>value.label || value.value || value\<close>, as text.\<close>

fun item_text :: "src_item \<Rightarrow> string" where
  "item_text (Text s) = s"
| "item_text (Obj l v) =
     (case l of Some (c # t) \<Rightarrow> c # t | _ \<Rightarrow> (case v of Some (c # t) \<Rightarrow> c # t | _ \<Rightarrow> ''[object Object]''))"

definition filter_items :: "src_item list \<Rightarrow> string \<Rightarrow> src_item list" where
  "filter_items xs t = filter (\<lambda>x. regex_test (escape_regex t) (item_text x)) xs"

text \<open>\<open>_normalize\<close>: items are taken as they are if the first one is complete.\<close>

fun full_text :: "string option \<Rightarrow> bool" where
  "full_text (Some s) = (s \<noteq> [])"
| "full_text None = False"

fun complete_item :: "src_item \<Rightarrow> bool" where
  "complete_item (Text s) = False"
| "complete_item (Obj l v) = (full_text l \<and> full_text v)"

fun normal_item :: "src_item \<Rightarrow> src_item" where
  "normal_item (Text s) = Obj (Some s) (Some s)"
| "normal_item (Obj l v) =
     Obj (if l = None then v else l) (if v = None then l else v)"

definition normalize :: "src_item list \<Rightarrow> src_item list" where
  "normalize xs = (if xs \<noteq> [] \<and> complete_item (hd xs) then xs else map normal_item xs)"

section \<open>A field and its menu\<close>

datatype ac_source = SourceArray "src_item list" | SourceUrl | SourceFun

datatype ac_event =
    AcSearch
  | AcOpen
  | AcClose
  | AcFocus src_item
  | AcSelect src_item
  | AcChange "src_item option"

record field =
  ac_value :: string
  ac_term :: "string option"
  ac_previous :: "string option"
  ac_selected :: "src_item option"
  ac_disabled :: bool
  ac_readonly :: bool
  ac_auto_focus :: bool
  ac_min_length :: nat
  ac_source :: ac_source
  ac_suppress :: bool
  ac_searching :: bool
  ac_closing :: bool
  ac_orphans :: nat
  ac_keep_due :: nat
  ac_watch_due :: nat
  ac_watching :: nat
  ac_pending :: int
  ac_loading :: bool
  ac_focused :: bool
  ac_reselect :: "(string option \<times> src_item) list"
  ac_items :: "src_item list"
  ac_visible :: bool
  ac_active :: "nat option"
  ac_vetoes :: "bool \<times> bool \<times> bool"
  ac_xhr :: "nat option"
  ac_log :: "ac_event list"

definition log_ac :: "ac_event \<Rightarrow> field \<Rightarrow> field" where
  "log_ac e a = a\<lparr>ac_log := ac_log a @ [e]\<rparr>"

text \<open>\<open>val (x)\<close>: \<open>undefined\<close> empties the field.\<close>

fun val_text :: "string option \<Rightarrow> string" where
  "val_text (Some s) = s"
| "val_text None = []"

fun item_value :: "src_item \<Rightarrow> string option" where
  "item_value (Obj l v) = v"
| "item_value (Text s) = None"

text \<open>The menu tells the field that an item loses or gets the focus; \<open>key\<close> says that a key event is the cause.\<close>

definition menu_blur :: "field \<Rightarrow> field" where
  "menu_blur a = (if ac_visible a \<and> Some (ac_value a) \<noteq> ac_term a then a\<lparr>ac_value := val_text (ac_term a)\<rparr> else a)"

definition deactivate :: "field \<Rightarrow> field" where
  "deactivate a = (if ac_active a = None then a else (menu_blur a)\<lparr>ac_active := None\<rparr>)"

definition menu_focus :: "bool \<Rightarrow> src_item \<Rightarrow> field \<Rightarrow> field" where
  "menu_focus key it a =
     (let a1 = log_ac (AcFocus it) a
      in if \<not> fst (snd (ac_vetoes a1)) \<and> key then a1\<lparr>ac_value := val_text (item_value it)\<rparr> else a1)"

definition activate :: "bool \<Rightarrow> nat \<Rightarrow> field \<Rightarrow> field" where
  "activate key i a = (let a1 = deactivate a in menu_focus key (ac_items a ! i) (a1\<lparr>ac_active := Some i\<rparr>))"

definition at_first :: "field \<Rightarrow> bool" where
  "at_first a \<longleftrightarrow> ac_active a = Some 0"

definition at_last :: "field \<Rightarrow> bool" where
  "at_last a \<longleftrightarrow> (case ac_active a of Some i \<Rightarrow> Suc i = length (ac_items a) | None \<Rightarrow> False)"

datatype direction = Next | Previous | NextPage | PreviousPage

text \<open>
  \<open>page\<close> is where a page further from the active item ends, for a menu that scrolls: the first item about a height away, if any.
\<close>

definition menu_move :: "bool \<Rightarrow> (nat \<Rightarrow> nat option) option \<Rightarrow> direction \<Rightarrow> field \<Rightarrow> field" where
  "menu_move key page d a =
     (let n = length (ac_items a); top = activate key 0 a; bottom = activate key (n - 1) a
      in case d of
        Next \<Rightarrow> (case ac_active a of None \<Rightarrow> top | Some i \<Rightarrow> if Suc i < n then activate key (Suc i) a else top)
      | Previous \<Rightarrow> (case ac_active a of None \<Rightarrow> bottom | Some i \<Rightarrow> if 0 < i then activate key (i - 1) a else bottom)
      | NextPage \<Rightarrow>
          (if ac_active a = None \<or> at_last a then top
           else case page of None \<Rightarrow> bottom
             | Some p \<Rightarrow> (case p (the (ac_active a)) of Some j \<Rightarrow> activate key j a | None \<Rightarrow> bottom))
      | PreviousPage \<Rightarrow>
          (if ac_active a = None \<or> at_first a then bottom
           else case page of None \<Rightarrow> top
             | Some p \<Rightarrow> (case p (the (ac_active a)) of Some j \<Rightarrow> activate key j a | None \<Rightarrow> top)))"

definition close_menu :: "field \<Rightarrow> field" where
  "close_menu a =
     (let a1 = a\<lparr>ac_closing := False\<rparr>
      in if ac_visible a1 then log_ac AcClose (deactivate (a1\<lparr>ac_visible := False\<rparr>)) else a1)"

definition change_field :: "field \<Rightarrow> field" where
  "change_field a = (if ac_previous a \<noteq> Some (ac_value a) then log_ac (AcChange (ac_selected a)) a else a)"

text \<open>\<open>search\<close>: the field, and the value to ask the source for, if it gets that far.\<close>

definition search_field :: "string option \<Rightarrow> field \<Rightarrow> field \<times> string option" where
  "search_field v a =
     (let value = (case v of Some s \<Rightarrow> s | None \<Rightarrow> ac_value a); a1 = a\<lparr>ac_term := Some (ac_value a)\<rparr>
      in if length value < ac_min_length a1 then (close_menu a1, None)
         else (let a2 = log_ac AcSearch (a1\<lparr>ac_closing := False\<rparr>)
               in if fst (ac_vetoes a2) then (a2, None) else (a2, Some value)))"

definition suggest :: "src_item list \<Rightarrow> field \<Rightarrow> field" where
  "suggest xs a =
     (let a1 = (deactivate (a\<lparr>ac_items := xs\<rparr>))\<lparr>ac_visible := True\<rparr>
      in if ac_auto_focus a1 then menu_move False None Next a1 else a1)"

definition respond :: "src_item list \<Rightarrow> field \<Rightarrow> field" where
  "respond content a =
     (let a1 = (if \<not> ac_disabled a \<and> content \<noteq> [] then log_ac AcOpen (suggest (normalize content) a) else close_menu a);
          a2 = a1\<lparr>ac_pending := ac_pending a1 - 1\<rparr>
      in if ac_pending a2 = 0 then a2\<lparr>ac_loading := False\<rparr> else a2)"

text \<open>
  The field gets and loses the focus.  The timer of a \<open>blur\<close> before the last one has no name any more: nothing can stop it.
\<close>

definition focus_field :: "field \<Rightarrow> field" where
  "focus_field a =
     (let a1 = a\<lparr>ac_focused := True\<rparr>
      in if ac_disabled a1 then a1 else a1\<lparr>ac_selected := None, ac_previous := Some (ac_value a1)\<rparr>)"

definition blur_field :: "field \<Rightarrow> field" where
  "blur_field a =
     (let a1 = a\<lparr>ac_focused := False\<rparr>
      in if ac_disabled a1 then a1
         else a1\<lparr>ac_searching := False, ac_orphans := (if ac_closing a1 then ac_orphans a1 + 1 else ac_orphans a1), ac_closing := True\<rparr>)"

definition close_and_change :: "field \<Rightarrow> field" where
  "close_and_change a = change_field (close_menu a)"

definition closing_timer :: "field \<Rightarrow> field" where
  "closing_timer a = (if ac_closing a then close_and_change (a\<lparr>ac_closing := False\<rparr>) else a)"

definition orphan_timer :: "field \<Rightarrow> field" where
  "orphan_timer a = (if ac_orphans a = 0 then a else close_and_change (a\<lparr>ac_orphans := ac_orphans a - 1\<rparr>))"

text \<open>
  A press on the menu starts a timer that keeps the menu open, and beside the items another that closes
  it at the next press elsewhere.
\<close>

definition menu_press :: "bool \<Rightarrow> field \<Rightarrow> field" where
  "menu_press on_item a =
     (let a1 = (if on_item then a else a\<lparr>ac_watch_due := ac_watch_due a + 1\<rparr>) in a1\<lparr>ac_keep_due := ac_keep_due a1 + 1\<rparr>)"

definition keep_timer :: "field \<Rightarrow> field" where
  "keep_timer a = (if ac_keep_due a = 0 then a else a\<lparr>ac_keep_due := ac_keep_due a - 1, ac_closing := False\<rparr>)"

definition watch_timer :: "field \<Rightarrow> field" where
  "watch_timer a = (if ac_watch_due a = 0 then a else a\<lparr>ac_watch_due := ac_watch_due a - 1, ac_watching := ac_watching a + 1\<rparr>)"

definition document_press :: "bool \<Rightarrow> field \<Rightarrow> field" where
  "document_press outside a =
     (if ac_watching a = 0 then a
      else (let a1 = a\<lparr>ac_watching := 0\<rparr> in if outside then close_menu a1 else a1))"

text \<open>An item is chosen; if the focus was elsewhere, a timer sets some data once more.\<close>

definition choose_item :: "nat \<Rightarrow> field \<Rightarrow> field" where
  "choose_item i a =
     (let it = ac_items a ! i; previous = ac_previous a;
          a1 = (if ac_focused a then a
                else (focus_field a)\<lparr>ac_previous := previous, ac_reselect := ac_reselect a @ [(previous, it)]\<rparr>);
          a2 = log_ac (AcSelect it) a1;
          a3 = (if snd (snd (ac_vetoes a2)) then a2 else a2\<lparr>ac_value := val_text (item_value it)\<rparr>);
          a4 = close_menu (a3\<lparr>ac_term := Some (ac_value a3)\<rparr>)
      in a4\<lparr>ac_selected := Some it\<rparr>)"

definition reselect_timer :: "field \<Rightarrow> field" where
  "reselect_timer a =
     (case ac_reselect a of [] \<Rightarrow> a
      | (previous, it) # rest \<Rightarrow> a\<lparr>ac_previous := previous, ac_selected := Some it, ac_reselect := rest\<rparr>)"

text \<open>A click on an item chooses the active one, whichever was clicked; without one, reading its data throws.\<close>

definition menu_click :: "field \<Rightarrow> field js_result" where
  "menu_click a = (case ac_active a of Some i \<Rightarrow> Inr (choose_item i a) | None \<Rightarrow> Inl TypeError)"

section \<open>Keys\<close>

definition move_field :: "(nat \<Rightarrow> nat option) option \<Rightarrow> direction \<Rightarrow> field \<Rightarrow> field \<times> string option" where
  "move_field page d a =
     (if \<not> ac_visible a then search_field None a
      else if at_first a \<and> d \<in> {Previous, PreviousPage} \<or> at_last a \<and> d \<in> {Next, NextPage}
      then (deactivate (a\<lparr>ac_value := val_text (ac_term a)\<rparr>), None)
      else (menu_move True page d a, None))"

datatype ac_key = PageUp | PageDown | KeyUp | KeyDown | KeyEnter | KeyTab | KeyEscape | OtherKey

definition key_field :: "(nat \<Rightarrow> nat option) option \<Rightarrow> ac_key \<Rightarrow> field \<Rightarrow> field \<times> string option" where
  "key_field page k a =
     (if ac_disabled a \<or> ac_readonly a then (a, None)
      else (let a1 = a\<lparr>ac_suppress := False\<rparr>
            in case k of
              PageUp \<Rightarrow> move_field page PreviousPage a1
            | PageDown \<Rightarrow> move_field page NextPage a1
            | KeyUp \<Rightarrow> move_field page Previous a1
            | KeyDown \<Rightarrow> move_field page Next a1
            | KeyEnter \<Rightarrow> (case ac_active a1 of Some i \<Rightarrow> (choose_item i (a1\<lparr>ac_suppress := True\<rparr>), None) | None \<Rightarrow> (a1, None))
            | KeyTab \<Rightarrow> (case ac_active a1 of Some i \<Rightarrow> (choose_item i a1, None) | None \<Rightarrow> (a1, None))
            | KeyEscape \<Rightarrow> (close_menu (a1\<lparr>ac_value := val_text (ac_term a1)\<rparr>), None)
            | OtherKey \<Rightarrow> (a1\<lparr>ac_searching := True\<rparr>, None)))"

text \<open>\<open>keypress\<close>; the answer says whether its default is prevented.\<close>

definition key_press :: "field \<Rightarrow> field \<times> bool" where
  "key_press a = (a\<lparr>ac_suppress := False\<rparr>, ac_suppress a)"

definition search_timer :: "field \<Rightarrow> field \<times> string option" where
  "search_timer a =
     (if \<not> ac_searching a then (a, None)
      else (let a1 = a\<lparr>ac_searching := False\<rparr>
            in if ac_term a1 \<noteq> Some (ac_value a1) then search_field None (a1\<lparr>ac_selected := None\<rparr>) else (a1, None)))"

section \<open>The page\<close>

text \<open>The fields, the counter they share, and the requests on their way: field and number.\<close>

record ac_page =
  ac_fields :: "field list"
  request_index :: nat
  requests :: "(nat \<times> nat) list"

definition upd_field :: "nat \<Rightarrow> (field \<Rightarrow> field) \<Rightarrow> ac_page \<Rightarrow> ac_page" where
  "upd_field i f p = p\<lparr>ac_fields := (ac_fields p)[i := f (ac_fields p ! i)]\<rparr>"

text \<open>A request ends, with items or (in an error or aborted) without; one that is not the latest of the page is ignored.\<close>

definition end_request :: "nat \<Rightarrow> src_item list \<Rightarrow> ac_page \<Rightarrow> ac_page" where
  "end_request k content p =
     (case find (\<lambda>r. snd r = k) (requests p) of
        None \<Rightarrow> p
      | Some (i, _) \<Rightarrow>
          (let p1 = p\<lparr>requests := filter (\<lambda>r. snd r \<noteq> k) (requests p)\<rparr>
           in if k = request_index p1 then upd_field i (respond content) p1 else p1))"

definition abort_request :: "nat \<Rightarrow> ac_page \<Rightarrow> ac_page" where
  "abort_request i p = (case ac_xhr (ac_fields p ! i) of None \<Rightarrow> p | Some k \<Rightarrow> end_request k [] p)"

text \<open>\<open>_search\<close> with the sources of \<open>_initSource\<close>; a source of the page's own answers later.\<close>

definition ask_source :: "nat \<Rightarrow> string \<Rightarrow> ac_page \<Rightarrow> ac_page" where
  "ask_source i v p =
     (case ac_source (ac_fields p ! i) of
        SourceArray xs \<Rightarrow> upd_field i (respond (filter_items xs v)) p
      | SourceUrl \<Rightarrow>
          (let p1 = abort_request i p; k = request_index p1 + 1
           in upd_field i (\<lambda>a. a\<lparr>ac_xhr := Some k\<rparr>) (p1\<lparr>request_index := k, requests := requests p1 @ [(i, k)]\<rparr>))
      | SourceFun \<Rightarrow> p)"

definition start_search :: "nat \<Rightarrow> string \<Rightarrow> ac_page \<Rightarrow> ac_page" where
  "start_search i v p = ask_source i v (upd_field i (\<lambda>a. a\<lparr>ac_pending := ac_pending a + 1, ac_loading := True\<rparr>) p)"

definition run_field :: "nat \<Rightarrow> (field \<Rightarrow> field \<times> string option) \<Rightarrow> ac_page \<Rightarrow> ac_page" where
  "run_field i f p =
     (let (a, v) = f (ac_fields p ! i); p1 = upd_field i (\<lambda>_. a) p in case v of None \<Rightarrow> p1 | Some s \<Rightarrow> start_search i s p1)"

definition set_disabled :: "nat \<Rightarrow> bool \<Rightarrow> ac_page \<Rightarrow> ac_page" where
  "set_disabled i b p = (let p1 = upd_field i (\<lambda>a. a\<lparr>ac_disabled := b\<rparr>) p in if b then abort_request i p1 else p1)"

definition set_source :: "nat \<Rightarrow> ac_source \<Rightarrow> ac_page \<Rightarrow> ac_page" where
  "set_source i src = upd_field i (\<lambda>a. a\<lparr>ac_source := src\<rparr>)"

section \<open>Filtering is a search without regard to case\<close>

lemma special_not_word:
  "regex_special c \<Longrightarrow> \<not> is_digit c \<and> c \<notin> set ''abcdefghijklmnopqrstuvwxyzABCDEFGHIJKLMNOPQRSTUVWXYZ_''"
  unfolding regex_special_def is_blank_def is_digit_def by auto

lemma operator_special: "regex_operator c \<Longrightarrow> regex_special c"
  by (auto simp: regex_operator_def regex_special_def)

lemma read_plain: "\<not> regex_special c \<Longrightarrow> read_literal (c # s) = map_option ((#) c) (read_literal s)"
  using operator_special [of c] by (cases s) (auto simp: regex_special_def)

lemma read_escaped: "read_literal (escape_regex t) = Some t"
proof (induction t)
  case (Cons c t)
  show ?case
  proof (cases "regex_special c")
    case True
    then show ?thesis using Cons special_not_word [OF True] by (simp add: escape_regex_def)
  next
    case False
    then show ?thesis using Cons by (simp add: escape_regex_def read_plain)
  qed
qed (simp add: escape_regex_def)

text \<open>C24: Filtering keeps, in their order, the items whose text contains the term without regard to case,
  whatever characters the term has: no character of it acts as an operator of regular expressions.\<close>

theorem filter_is_search:
  "filter_items xs t = filter (\<lambda>x. sublist (to_lower t) (to_lower (item_text x))) xs"
  by (simp add: filter_items_def regex_test_def read_escaped)

section \<open>Keys in the open menu\<close>

lemmas ac_defs = activate_def deactivate_def menu_blur_def menu_focus_def log_ac_def Let_def

text \<open>What the menu shows after some presses of the key Down, or Up, in it: no item, or the item at a place.\<close>

definition highlighted :: "src_item list \<Rightarrow> string \<Rightarrow> nat option \<Rightarrow> field \<Rightarrow> bool" where
  "highlighted xs v i a \<longleftrightarrow> ac_items a = xs \<and> ac_term a = Some v \<and> ac_visible a \<and> \<not> ac_disabled a \<and> \<not> ac_readonly a \<and>
     \<not> fst (snd (ac_vetoes a)) \<and> ac_active a = i \<and> ac_value a = (case i of None \<Rightarrow> v | Some j \<Rightarrow> val_text (item_value (xs ! j)))"

definition press_key :: "ac_key \<Rightarrow> field \<Rightarrow> field" where
  "press_key k a = fst (key_field None k a)"

definition step_down :: "nat \<Rightarrow> nat option \<Rightarrow> nat option" where
  "step_down n i = (case i of None \<Rightarrow> Some 0 | Some j \<Rightarrow> if Suc j < n then Some (Suc j) else None)"

definition step_up :: "nat \<Rightarrow> nat option \<Rightarrow> nat option" where
  "step_up n i = (case i of None \<Rightarrow> Some (n - 1) | Some j \<Rightarrow> if 0 < j then Some (j - 1) else None)"

lemma press_down:
  assumes "highlighted xs v i a" and "xs \<noteq> []" and "case i of Some j \<Rightarrow> j < length xs | None \<Rightarrow> True"
  shows "highlighted xs v (step_down (length xs) i) (press_key KeyDown a)"
proof (cases i)
  case None
  then show ?thesis
    using assms by (auto simp: highlighted_def press_key_def key_field_def move_field_def at_first_def at_last_def menu_move_def step_down_def ac_defs)
next
  case (Some j)
  then show ?thesis
    using assms
    by (auto simp: highlighted_def press_key_def key_field_def move_field_def at_first_def at_last_def menu_move_def step_down_def ac_defs)
qed

lemma press_up:
  assumes "highlighted xs v i a" and "xs \<noteq> []" and "case i of Some j \<Rightarrow> j < length xs | None \<Rightarrow> True"
  shows "highlighted xs v (step_up (length xs) i) (press_key KeyUp a)"
proof (cases i)
  case None
  then show ?thesis
    using assms by (auto simp: highlighted_def press_key_def key_field_def move_field_def at_first_def at_last_def menu_move_def step_up_def ac_defs)
next
  case (Some j)
  then show ?thesis
    using assms
    by (auto simp: highlighted_def press_key_def key_field_def move_field_def at_first_def at_last_def menu_move_def step_up_def ac_defs)
qed

text \<open>Places in the circle of the items and the field itself, which has place 0.\<close>

definition place :: "nat \<Rightarrow> nat \<Rightarrow> nat option" where
  "place n k = (if k mod (n + 1) = 0 then None else Some (k mod (n + 1) - 1))"

lemma place_less: "case place n k of Some j \<Rightarrow> j < n | None \<Rightarrow> True"
proof -
  define m where "m = k mod (n + 1)"
  have "m < n + 1" by (simp add: m_def)
  then show ?thesis unfolding place_def m_def [symmetric] by (cases m) simp_all
qed

lemma place_down: "step_down n (place n k) = place n (Suc k)" if "0 < n"
proof -
  define m where "m = k mod (n + 1)"
  have "m < n + 1" by (simp add: m_def)
  then show ?thesis using that unfolding step_down_def place_def mod_Suc m_def [symmetric] by (cases m) auto
qed

lemma place_up: "step_up n (place n (k * n)) = place n (Suc k * n)" if "0 < n"
proof -
  define m where "m = k * n mod (n + 1)"
  have "m < n + 1" by (simp add: m_def)
  have "Suc k * n mod (n + 1) = (m + n) mod (n + 1)" unfolding m_def mod_add_left_eq by (simp add: add.commute)
  also have "\<dots> = (case m of 0 \<Rightarrow> n | Suc j \<Rightarrow> j)"
  proof (cases m)
    case (Suc j)
    then have "(m + n) mod (n + 1) = (j + (n + 1)) mod (n + 1)" by simp
    also have "\<dots> = j" using Suc \<open>m < n + 1\<close> by (subst mod_add_self2) simp
    finally show ?thesis using Suc by simp
  qed simp
  finally show ?thesis using that unfolding step_up_def place_def m_def [symmetric] by (cases m) auto
qed

text \<open>C25: In the open menu of \<open>n\<close> items the keys Down and Up go round the circle of the items and the field: after \<open>k\<close>
  presses the active item and the text in the field are those at the place \<open>k\<close>, or \<open>- k\<close>, modulo \<open>n + 1\<close>,
  where the place 0 is the field with the term that was searched for.  At the start the menu is open with no active item and the text in
  the field is that term; the field is neither disabled nor read-only, and the page does not veto the event \<open>focus\<close> (a veto leaves the text as it is).
\<close>

theorem keys_go_round:
  assumes "highlighted xs v None a" and "xs \<noteq> []"
  shows "highlighted xs v (place (length xs) k) ((press_key KeyDown ^^ k) a) \<and>
    highlighted xs v (place (length xs) (k * length xs)) ((press_key KeyUp ^^ k) a)"
proof (induction k)
  case 0
  then show ?case using assms by (simp add: place_def)
next
  case (Suc k)
  have n: "0 < length xs" using assms(2) by simp
  show ?case
    using press_down [OF conjunct1 [OF Suc] assms(2) place_less] press_up [OF conjunct2 [OF Suc] assms(2) place_less]
    by (simp add: place_down [OF n] place_up [OF n] del: mult_Suc)
qed

section \<open>The menu and the requests of a field\<close>

text \<open>What the operations of the menu leave alone, and what holds of the menu.\<close>

definition conn :: "field \<Rightarrow> int \<times> bool \<times> nat option \<times> ac_source" where
  "conn a = (ac_pending a, ac_loading a, ac_xhr a, ac_source a)"

definition menu_ok :: "field \<Rightarrow> bool" where
  "menu_ok a \<longleftrightarrow> (ac_visible a \<longrightarrow> ac_items a \<noteq> []) \<and>
     (\<forall>i. ac_active a = Some i \<longrightarrow> ac_visible a \<and> i < length (ac_items a))"

lemma deactivate_fields [simp]:
  "conn (deactivate a) = conn a" "ac_items (deactivate a) = ac_items a" "ac_visible (deactivate a) = ac_visible a"
  "ac_active (deactivate a) = None"
  by (simp_all add: deactivate_def menu_blur_def conn_def)

lemma activate_fields [simp]:
  "conn (activate key i a) = conn a" "ac_items (activate key i a) = ac_items a" "ac_visible (activate key i a) = ac_visible a"
  "ac_active (activate key i a) = Some i"
  by (simp_all add: activate_def menu_focus_def log_ac_def Let_def conn_def) (simp_all add: deactivate_def menu_blur_def)

lemma log_ac_fields [simp]:
  "conn (log_ac e a) = conn a" "ac_items (log_ac e a) = ac_items a" "ac_visible (log_ac e a) = ac_visible a"
  "ac_active (log_ac e a) = ac_active a"
  by (simp_all add: log_ac_def conn_def)

definition page_inside :: "field \<Rightarrow> (nat \<Rightarrow> nat option) option \<Rightarrow> bool" where
  "page_inside a page \<longleftrightarrow> (\<forall>p i j. page = Some p \<and> p i = Some j \<longrightarrow> j < length (ac_items a))"

text \<open>An operation that keeps both.\<close>

definition keeps :: "field \<Rightarrow> field \<Rightarrow> bool" where
  "keeps a b \<longleftrightarrow> conn b = conn a \<and> (menu_ok a \<longrightarrow> menu_ok b)"

lemma keeps_trans: "keeps a b \<Longrightarrow> keeps b c \<Longrightarrow> keeps a c"
  by (simp add: keeps_def)

lemma keeps_same: "conn b = conn a \<Longrightarrow> ac_items b = ac_items a \<Longrightarrow> ac_visible b = ac_visible a \<Longrightarrow> ac_active b = ac_active a \<Longrightarrow> keeps a b"
  by (simp add: keeps_def menu_ok_def)

lemma menu_move_keeps: "page_inside a page \<Longrightarrow> ac_visible a \<Longrightarrow> keeps a (menu_move key page d a)"
  by (cases d) (auto simp: keeps_def menu_ok_def menu_move_def Let_def page_inside_def split: option.splits)

lemma close_keeps: "keeps a (close_menu a)"
  by (simp add: keeps_def close_menu_def Let_def menu_ok_def) (simp add: conn_def)

lemma close_active: "ac_active a = None \<or> ac_visible a \<Longrightarrow> ac_active (close_menu a) = None"
  by (auto simp: close_menu_def Let_def)

lemma search_keeps: "keeps a (fst (search_field v a))"
proof -
  define b where "b = a\<lparr>ac_term := Some (ac_value a)\<rparr>"
  have b: "keeps a b" "keeps a (b\<lparr>ac_closing := False\<rparr>)" by (simp_all add: b_def conn_def keeps_same)
  have "keeps a (log_ac AcSearch (b\<lparr>ac_closing := False\<rparr>))" by (rule keeps_trans [OF b(2)]) (simp add: keeps_same)
  then show ?thesis
    using keeps_trans [OF b(1) close_keeps] by (simp add: search_field_def Let_def b_def [symmetric])
qed

lemma suggest_keeps: "xs \<noteq> [] \<Longrightarrow> conn (suggest xs a) = conn a \<and> menu_ok (suggest xs a)"
proof -
  assume xs: "xs \<noteq> []"
  define b where "b = (deactivate (a\<lparr>ac_items := xs\<rparr>))\<lparr>ac_visible := True\<rparr>"
  have "conn b = conn a" using deactivate_fields(1) [of "a\<lparr>ac_items := xs\<rparr>"] by (simp add: b_def conn_def)
  moreover have "menu_ok b" using xs by (simp add: menu_ok_def b_def)
  moreover have "keeps b (menu_move False None Next b)" by (rule menu_move_keeps) (simp_all add: page_inside_def b_def)
  ultimately show ?thesis by (simp add: suggest_def Let_def b_def [symmetric] keeps_def)
qed

lemma choose_keeps: "keeps a (choose_item i a)"
proof -
  define b where "b = (if ac_focused a then a
    else (focus_field a)\<lparr>ac_previous := ac_previous a, ac_reselect := ac_reselect a @ [(ac_previous a, ac_items a ! i)]\<rparr>)"
  define c where "c = log_ac (AcSelect (ac_items a ! i)) b"
  define d where "d = (if snd (snd (ac_vetoes c)) then c else c\<lparr>ac_value := val_text (item_value (ac_items a ! i))\<rparr>)"
  have "keeps a b" by (simp add: b_def focus_field_def Let_def conn_def keeps_same)
  moreover have "keeps b (d\<lparr>ac_term := Some (ac_value d)\<rparr>)"
    by (rule keeps_same) (simp_all add: d_def c_def log_ac_def conn_def)
  ultimately have "keeps a (close_menu (d\<lparr>ac_term := Some (ac_value d)\<rparr>))" using close_keeps keeps_trans by blast
  moreover have "choose_item i a = (close_menu (d\<lparr>ac_term := Some (ac_value d)\<rparr>))\<lparr>ac_selected := Some (ac_items a ! i)\<rparr>"
    unfolding choose_item_def Let_def b_def [symmetric] c_def [symmetric] d_def [symmetric] ..
  moreover have "keeps x (x\<lparr>ac_selected := y\<rparr>)" for x y by (rule keeps_same) (simp_all add: conn_def)
  ultimately show ?thesis using keeps_trans by metis
qed

lemma key_keeps: "page_inside a page \<Longrightarrow> keeps a (fst (key_field page k a))"
proof -
  assume page: "page_inside a page"
  define b where "b = a\<lparr>ac_suppress := False\<rparr>"
  have b: "keeps a b" "page_inside b page" using page by (simp_all add: b_def conn_def keeps_same page_inside_def)
  have move: "keeps a (fst (move_field page d b))" for d
  proof -
    have "keeps b (deactivate (b\<lparr>ac_value := v\<rparr>))" for v
      using deactivate_fields(1) [of "b\<lparr>ac_value := v\<rparr>"] by (simp add: keeps_def menu_ok_def) (simp add: conn_def)
    then have "keeps b (fst (move_field page d b))"
      using search_keeps [of b None] menu_move_keeps [OF b(2)] by (simp add: move_field_def)
    then show ?thesis by (rule keeps_trans [OF b(1)])
  qed
  have pick: "keeps a (choose_item i b)" "keeps a (choose_item i (b\<lparr>ac_suppress := True\<rparr>))" for i
  proof -
    show "keeps a (choose_item i b)" by (rule keeps_trans [OF b(1) choose_keeps])
    have "keeps a (b\<lparr>ac_suppress := True\<rparr>)" by (simp add: b_def conn_def keeps_same)
    then show "keeps a (choose_item i (b\<lparr>ac_suppress := True\<rparr>))" by (rule keeps_trans [OF _ choose_keeps])
  qed
  have esc: "keeps a (close_menu (b\<lparr>ac_value := v\<rparr>))" for v
  proof -
    have "keeps a (b\<lparr>ac_value := v\<rparr>)" by (simp add: b_def conn_def keeps_same)
    then show ?thesis by (rule keeps_trans [OF _ close_keeps])
  qed
  have "keeps a a" "keeps a (b\<lparr>ac_searching := True\<rparr>)" by (simp_all add: b_def conn_def keeps_same)
  then show ?thesis
    using move pick esc b(1) by (cases k) (auto simp: key_field_def Let_def b_def [symmetric] split: option.split)
qed

lemma respond_effect:
  "conn (respond c a) = (ac_pending a - 1, ac_loading a \<and> ac_pending a \<noteq> 1, ac_xhr a, ac_source a) \<and> (menu_ok a \<longrightarrow> menu_ok (respond c a))"
proof -
  define b where "b = (if \<not> ac_disabled a \<and> c \<noteq> [] then log_ac AcOpen (suggest (normalize c) a) else close_menu a)"
  have "normalize c \<noteq> []" if "c \<noteq> []" using that by (simp add: normalize_def)
  then have b: "conn b = conn a" "menu_ok a \<longrightarrow> menu_ok b"
    using suggest_keeps [of "normalize c" a] close_keeps [of a] by (auto simp: b_def keeps_def menu_ok_def)
  have "respond c a = (let d = b\<lparr>ac_pending := ac_pending b - 1\<rparr> in if ac_pending d = 0 then d\<lparr>ac_loading := False\<rparr> else d)"
    by (simp add: respond_def Let_def b_def)
  then show ?thesis using b by (auto simp: Let_def conn_def menu_ok_def)
qed

text \<open>
  A page with one field whose source is not a function of the page: \<open>extra\<close> searches wait beside the request on its way.
\<close>

definition page_ok :: "int \<Rightarrow> ac_page \<Rightarrow> bool" where
  "page_ok extra p \<longleftrightarrow> (\<exists>a. ac_fields p = [a] \<and> menu_ok a \<and> ac_source a \<noteq> SourceFun \<and>
     (requests p = [] \<or> requests p = [(0, request_index p)] \<and> ac_xhr a = Some (request_index p)) \<and>
     (\<forall>k. ac_xhr a = Some k \<longrightarrow> k \<le> request_index p) \<and>
     ac_pending a = int (length (requests p)) + extra \<and> ac_loading a = (ac_pending a \<noteq> 0))"

lemma page_ok_upd:
  assumes "page_ok extra p" and "conn (f (ac_fields p ! 0)) = conn (ac_fields p ! 0)" and "menu_ok (ac_fields p ! 0) \<Longrightarrow> menu_ok (f (ac_fields p ! 0))"
  shows "page_ok extra (upd_field 0 f p)"
  using assms by (auto simp: page_ok_def upd_field_def conn_def)

lemma page_ok_keeps: "page_ok extra p \<Longrightarrow> keeps (ac_fields p ! 0) (f (ac_fields p ! 0)) \<Longrightarrow> page_ok extra (upd_field 0 f p)"
  by (rule page_ok_upd) (simp_all add: keeps_def)

lemma end_request_page:
  assumes "page_ok extra p" and "0 \<le> extra"
  shows "page_ok extra (end_request k c p)" "k = request_index p \<Longrightarrow> requests (end_request k c p) = []"
    "request_index (end_request k c p) = request_index p"
proof -
  obtain a where a: "ac_fields p = [a]" "menu_ok a" "ac_source a \<noteq> SourceFun"
    "requests p = [] \<or> requests p = [(0, request_index p)] \<and> ac_xhr a = Some (request_index p)" "\<forall>k. ac_xhr a = Some k \<longrightarrow> k \<le> request_index p"
    "ac_pending a = int (length (requests p)) + extra" "ac_loading a = (ac_pending a \<noteq> 0)"
    using assms(1) by (auto simp: page_ok_def)
  have r: "ac_pending (respond c a) = ac_pending a - 1" "ac_loading (respond c a) = (ac_loading a \<and> ac_pending a \<noteq> 1)"
    "ac_xhr (respond c a) = ac_xhr a" "ac_source (respond c a) = ac_source a" "menu_ok (respond c a)"
    using respond_effect [of c a] a(2) by (simp_all add: conn_def)
  show "page_ok extra (end_request k c p)" "k = request_index p \<Longrightarrow> requests (end_request k c p) = []"
    "request_index (end_request k c p) = request_index p"
  proof -
    have none: "end_request k c p = p" if "requests p = [] \<or> k \<noteq> request_index p"
      using that a(4) by (auto simp: end_request_def)
    have one: "end_request k c p = p\<lparr>requests := [], ac_fields := [respond c a]\<rparr>" if "\<not> (requests p = [] \<or> k \<noteq> request_index p)"
      using that a(1,4) by (auto simp: end_request_def upd_field_def Let_def)
    show "page_ok extra (end_request k c p)" "k = request_index p \<Longrightarrow> requests (end_request k c p) = []"
      "request_index (end_request k c p) = request_index p"
      using a r assms none one by (cases "requests p = [] \<or> k \<noteq> request_index p"; auto simp: page_ok_def)+
  qed
qed

lemma abort_page:
  assumes "page_ok extra p" and "0 \<le> extra"
  shows "page_ok extra (abort_request 0 p)" "requests (abort_request 0 p) = []"
proof -
  show "page_ok extra (abort_request 0 p)"
    using end_request_page(1) [OF assms] assms(1) by (simp add: abort_request_def split: option.split)
  show "requests (abort_request 0 p) = []"
    using assms(1) end_request_page(2) [OF assms] by (auto simp: page_ok_def abort_request_def end_request_def split: option.split)
qed

lemma start_search_page:
  assumes ok: "page_ok 0 p"
  shows "page_ok 0 (start_search 0 v p)"
proof -
  define q where "q = upd_field 0 (\<lambda>a. a\<lparr>ac_pending := ac_pending a + 1, ac_loading := True\<rparr>) p"
  have q: "page_ok 1 q" using ok by (auto simp: page_ok_def q_def upd_field_def menu_ok_def)
  obtain a where a: "ac_fields q = [a]" "ac_source a \<noteq> SourceFun" using q by (auto simp: page_ok_def)
  show ?thesis
  proof (cases "ac_source a")
    case (SourceArray xs)
    then have "start_search 0 v p = upd_field 0 (respond (filter_items xs v)) q"
      by (simp add: start_search_def q_def [symmetric] ask_source_def a)
    moreover have "page_ok 0 (upd_field 0 (respond c) q)" for c
      using q respond_effect [of c a] a by (auto simp: page_ok_def upd_field_def conn_def)
    ultimately show ?thesis by simp
  next
    case SourceUrl
    define r where "r = abort_request 0 q"
    have r: "page_ok 1 r" "requests r = []" using abort_page [OF q] by (simp_all add: r_def)
    have "start_search 0 v p = upd_field 0 (\<lambda>a. a\<lparr>ac_xhr := Some (request_index r + 1)\<rparr>)
        (r\<lparr>request_index := request_index r + 1, requests := requests r @ [(0, request_index r + 1)]\<rparr>)"
      by (simp add: start_search_def q_def [symmetric] ask_source_def a SourceUrl r_def [symmetric] Let_def)
    then show ?thesis using r by (auto simp: page_ok_def upd_field_def menu_ok_def)
  qed (use a in simp)
qed

lemma run_field_page:
  assumes "page_ok 0 p" and "keeps (ac_fields p ! 0) (fst (f (ac_fields p ! 0)))"
  shows "page_ok 0 (run_field 0 f p)"
proof -
  have "page_ok 0 (upd_field 0 (\<lambda>_. fst (f (ac_fields p ! 0))) p)" by (rule page_ok_keeps [OF assms(1)]) (rule assms(2))
  then show ?thesis using start_search_page by (simp add: run_field_def case_prod_beta Let_def split: option.split)
qed

section \<open>Every use of a field\<close>

text \<open>Operations that ask no source, except those on an item of the menu.\<close>

inductive quiet :: "(field \<Rightarrow> field) \<Rightarrow> bool" where
  "quiet focus_field" | "quiet blur_field" | "quiet closing_timer" | "quiet orphan_timer" | "quiet (menu_press b)"
| "quiet keep_timer" | "quiet watch_timer" | "quiet (document_press b)" | "quiet reselect_timer" | "quiet deactivate"
| "quiet close_menu" | "quiet (\<lambda>a. fst (key_press a))" | "quiet (\<lambda>a. a\<lparr>ac_value := v\<rparr>)" | "quiet (\<lambda>a. a\<lparr>ac_vetoes := w\<rparr>)"

inductive ac_reachable :: "ac_page \<Rightarrow> bool" where
  Start: "ac_pending a = 0 \<Longrightarrow> \<not> ac_loading a \<Longrightarrow> ac_xhr a = None \<Longrightarrow> \<not> ac_visible a \<Longrightarrow> ac_active a = None \<Longrightarrow>
    ac_source a \<noteq> SourceFun \<Longrightarrow> ac_reachable \<lparr>ac_fields = [a], request_index = n, requests = []\<rparr>"
| Key: "ac_reachable p \<Longrightarrow> page_inside (ac_fields p ! 0) page \<Longrightarrow> ac_reachable (run_field 0 (key_field page k) p)"
| Search: "ac_reachable p \<Longrightarrow> ac_reachable (run_field 0 (search_field v) p)"
| Delay: "ac_reachable p \<Longrightarrow> ac_reachable (run_field 0 search_timer p)"
| Quiet: "ac_reachable p \<Longrightarrow> quiet f \<Longrightarrow> ac_reachable (upd_field 0 f p)"
| Hover: "ac_reachable p \<Longrightarrow> ac_visible (ac_fields p ! 0) \<Longrightarrow> i < length (ac_items (ac_fields p ! 0)) \<Longrightarrow>
    ac_reachable (upd_field 0 (activate False i) p)"
| Click: "ac_reachable p \<Longrightarrow> menu_click (ac_fields p ! 0) = Inr a \<Longrightarrow> ac_reachable (upd_field 0 (\<lambda>_. a) p)"
| Answer: "ac_reachable p \<Longrightarrow> ac_reachable (end_request k content p)"
| Disable: "ac_reachable p \<Longrightarrow> ac_reachable (set_disabled 0 b p)"
| Source: "ac_reachable p \<Longrightarrow> src \<noteq> SourceFun \<Longrightarrow> ac_reachable (set_source 0 src p)"

lemma quiet_keeps: "quiet f \<Longrightarrow> keeps a (f a)"
proof (induction rule: quiet.induct)
  have c: "keeps a (close_and_change b)" if "keeps a b" for b
  proof -
    have "keeps x (change_field x)" for x by (simp add: change_field_def keeps_same)
    then show ?thesis using that close_keeps keeps_trans by (metis close_and_change_def)
  qed
  show "keeps a (closing_timer a)" by (auto simp: closing_timer_def intro!: c) (auto simp: conn_def intro!: keeps_same)
  show "keeps a (orphan_timer a)" by (auto simp: orphan_timer_def intro!: c) (auto simp: conn_def intro!: keeps_same)
  show "keeps a (document_press b a)" for b
  proof -
    have "keeps a (a\<lparr>ac_watching := 0\<rparr>)" by (simp add: conn_def keeps_same)
    then show ?thesis using keeps_trans [OF _ close_keeps] by (simp add: document_press_def Let_def keeps_same)
  qed
  show "keeps a (deactivate a)" by (simp add: keeps_def menu_ok_def)
  show "keeps a (close_menu a)" by (rule close_keeps)
qed (auto intro!: keeps_same simp: focus_field_def blur_field_def menu_press_def keep_timer_def watch_timer_def reselect_timer_def
  key_press_def conn_def Let_def split: list.split)

lemma ac_reachable_ok: "ac_reachable p \<Longrightarrow> page_ok 0 p"
proof (induction rule: ac_reachable.induct)
  case (Start a n)
  then show ?case by (simp add: page_ok_def menu_ok_def)
next
  case (Key p page k)
  then show ?case using run_field_page key_keeps by blast
next
  case (Search p v)
  then show ?case using run_field_page search_keeps by blast
next
  case (Delay p)
  have "keeps x (fst (search_timer x))" for x
  proof -
    have "keeps x (x\<lparr>ac_searching := False\<rparr>)" "keeps x (x\<lparr>ac_searching := False, ac_selected := None\<rparr>)" by (simp_all add: conn_def keeps_same)
    then show ?thesis using keeps_trans [OF _ search_keeps] by (simp add: search_timer_def Let_def keeps_same)
  qed
  then show ?case using run_field_page Delay.IH by blast
next
  case (Quiet p f)
  then show ?case using page_ok_keeps quiet_keeps by blast
next
  case (Hover p i)
  then show ?case by (intro page_ok_upd) (simp_all add: menu_ok_def)
next
  case (Click p a)
  then show ?case using choose_keeps by (intro page_ok_keeps) (auto simp: menu_click_def split: option.splits)
next
  case (Answer p k content)
  then show ?case using end_request_page(1) by simp
next
  case (Disable p b)
  have "page_ok 0 (upd_field 0 (\<lambda>a. a\<lparr>ac_disabled := b\<rparr>) p)"
    by (rule page_ok_keeps [OF Disable.IH]) (simp add: conn_def keeps_same)
  then show ?case using abort_page(1) by (cases b) (simp_all add: set_disabled_def Let_def)
next
  case (Source p src)
  then show ?case by (auto simp: set_source_def page_ok_def upd_field_def menu_ok_def)
qed

text \<open>C26: For a field whose source is an array or a URL, and which is the only one of the page: at most one request is on its way,
  \<open>pending\<close> counts it, the field has the class that says it is loading exactly then, the menu in sight
  is not empty, and an active item is one of a menu in sight.  This holds after any keys, searches, clicks and moves in the menu, timers, answers to requests in any order and with any content,
  changes of the text, vetoes of the page, enabling, disabling, and other sources of these two kinds.  Sources that are functions, which may leave several answers
  outstanding, \<open>destroy\<close>, and handlers that call the field are left out.
\<close>

theorem requests_in_step:
  assumes "ac_reachable p"
  shows "\<exists>a. ac_fields p = [a] \<and> length (requests p) \<le> 1 \<and> ac_pending a = int (length (requests p)) \<and>
    ac_loading a = (requests p \<noteq> []) \<and> (ac_visible a \<longrightarrow> ac_items a \<noteq> []) \<and>
    (\<forall>i. ac_active a = Some i \<longrightarrow> ac_visible a \<and> i < length (ac_items a))"
  using ac_reachable_ok [OF assms] by (auto simp: page_ok_def menu_ok_def)

section \<open>Examples\<close>

text \<open>A field as \<open>_create\<close> leaves it, and pages of one or two of them.\<close>

definition new_field :: "ac_source \<Rightarrow> bool \<Rightarrow> string \<Rightarrow> field" where
  "new_field src auto v =
     \<lparr>ac_value = v, ac_term = None, ac_previous = None, ac_selected = None, ac_disabled = False, ac_readonly = False,
      ac_auto_focus = auto, ac_min_length = 1, ac_source = src, ac_suppress = False, ac_searching = False, ac_closing = False,
      ac_orphans = 0, ac_keep_due = 0, ac_watch_due = 0, ac_watching = 0, ac_pending = 0, ac_loading = False, ac_focused = True,
      ac_reselect = [], ac_items = [], ac_visible = False, ac_active = None, ac_vetoes = (False, False, False), ac_xhr = None, ac_log = []\<rparr>"

definition new_page :: "field list \<Rightarrow> ac_page" where
  "new_page as = \<lparr>ac_fields = as, request_index = 0, requests = []\<rparr>"

definition ac_type :: "nat \<Rightarrow> string \<Rightarrow> ac_page \<Rightarrow> ac_page" where
  "ac_type i v p = run_field i search_timer (upd_field i (\<lambda>a. a\<lparr>ac_value := v, ac_searching := True\<rparr>) p)"

definition fruit_page :: ac_page where
  "fruit_page = ac_type 0 ''AP'' (new_page [new_field (SourceArray [Text ''apple'', Text ''pear'', Text ''grape'']) False []])"

theorem keys_go_round_witness:
  "ac_value ((press_key KeyDown ^^ 2) (ac_fields fruit_page ! 0)) = ''grape'' \<and>
   ac_active ((press_key KeyUp ^^ 3) (ac_fields fruit_page ! 0)) = None"
proof -
  define xs where "xs = [Obj (Some ''apple'') (Some ''apple''), Obj (Some ''grape'') (Some ''grape'')]"
  have h: "highlighted xs ''AP'' None (ac_fields fruit_page ! 0)" unfolding xs_def by code_simp
  show ?thesis
    using conjunct1 [OF keys_go_round [OF h, of 2]] conjunct2 [OF keys_go_round [OF h, of 3]]
    by (simp add: xs_def highlighted_def place_def)
qed

theorem requests_in_step_witness:
  "\<exists>a. ac_fields (ac_type 0 ''a'' (new_page [new_field SourceUrl False []])) = [a] \<and> ac_pending a = 1 \<and> ac_loading a"
proof -
  have start: "ac_reachable (new_page [new_field SourceUrl False []])"
    unfolding new_page_def by (rule Start) (simp_all add: new_field_def)
  have "ac_reachable (run_field 0 (key_field None OtherKey) (upd_field 0 (\<lambda>a. a\<lparr>ac_value := ''a''\<rparr>) (new_page [new_field SourceUrl False []])))"
    by (intro Key Quiet quiet.intros start) (simp add: page_inside_def)
  moreover have "run_field 0 (key_field None OtherKey) (upd_field 0 (\<lambda>a. a\<lparr>ac_value := ''a''\<rparr>) (new_page [new_field SourceUrl False []])) =
      upd_field 0 (\<lambda>a. a\<lparr>ac_value := ''a'', ac_searching := True\<rparr>) (new_page [new_field SourceUrl False []])"
    by (simp add: run_field_def key_field_def upd_field_def new_page_def new_field_def)
  ultimately have r: "ac_reachable (ac_type 0 ''a'' (new_page [new_field SourceUrl False []]))"
    unfolding ac_type_def by (metis Delay)
  have "requests (ac_type 0 ''a'' (new_page [new_field SourceUrl False []])) = [(0, 1)]" by code_simp
  with requests_in_step [OF r] show ?thesis by auto
qed

text \<open>
  Two fields with sources of their own: the second one's request makes the page ignore the answer for the first, which
  stays loading for ever and never shows its items.
\<close>

lemma other_field_drops_answer:
  "let p = end_request 1 [Text ''apple''] (ac_type 1 ''b'' (ac_type 0 ''a'' (new_page [new_field SourceUrl False [], new_field SourceUrl False []])));
       a = ac_fields p ! 0
   in requests p = [(1, 2)] \<and> ac_loading a \<and> ac_pending a = 1 \<and> \<not> ac_visible a"
  by code_simp

text \<open>
  The answer to a search opens the menu although the field has been emptied since, or left.
\<close>

lemma late_answer_opens_menu:
  "(let a = ac_fields (end_request 1 [Text ''apple''] (ac_type 0 [] (ac_type 0 ''a'' (new_page [new_field SourceUrl False []])))) ! 0
    in ac_value a = [] \<and> ac_visible a) \<and>
   (let a = ac_fields (end_request 1 [Text ''apple'']
        (upd_field 0 (\<lambda>a. closing_timer (blur_field a)) (ac_type 0 ''a'' (new_page [new_field SourceUrl False []])))) ! 0
    in \<not> ac_focused a \<and> ac_visible a)"
  by code_simp

text \<open>Escape sets the field to the last term, which is \<open>undefined\<close> before the first search: text that was there is lost.\<close>

lemma escape_empties_field:
  "ac_value (press_key KeyEscape (new_field SourceUrl False ''prefilled'')) = []"
  by code_simp

text \<open>
  With \<open>autoFocus\<close>, an answer that arrives while the user goes on typing puts the field back to the term it is the answer for, and
  the text typed since is not searched for later.
\<close>

definition ac_typed_on :: ac_page where
  "ac_typed_on = end_request 2 [Text ''abacus'']
     (upd_field 0 (\<lambda>a. a\<lparr>ac_value := ''abc'', ac_searching := True\<rparr>)
       (ac_type 0 ''ab'' (end_request 1 [Text ''abacus'', Text ''axis''] (ac_type 0 ''a'' (new_page [new_field SourceUrl True []])))))"

lemma answer_loses_typing:
  "ac_value (ac_fields ac_typed_on ! 0) = ''ab'' \<and> snd (search_timer (ac_fields ac_typed_on ! 0)) = None"
  by code_simp

end
