(* ===== verification/Ui_Accordion.thy ===== *)
theory Ui_Accordion
  imports Js_Prelude Exclusive_View
begin

text \<open>
  Accordion, \<open>jquery.ui.accordion.js\<close>, with the animation \<open>slide\<close> or none.  A part is a header with the panel after it.
  The end of an animation is a step of its own.  Clicks and keys have a header as their target; a
  selector given to \<open>activate\<close> matches at most one header, and a number is not negative.
  Handlers of the events do not call back into the widget.
\<close>

section \<open>State\<close>

text \<open>
  Of a header: the class \<open>ui-state-active\<close> (with its corners), the icon of an open part, \<open>aria-expanded\<close> (\<open>aria-selected\<close> is set
  with it) and \<open>tabIndex\<close> 0; of a panel: whether it is displayed, and the class \<open>ui-accordion-content-active\<close>.
\<close>

record part =
  h_active :: bool
  h_icon :: bool
  h_expanded :: bool
  h_tab :: bool
  p_shown :: bool
  p_class :: bool

datatype active_option = ActFalse | ActNumber nat | ActHeader "nat option"

datatype old_header = OldHeader "nat option" | OldOption active_option

text \<open>\<open>changestart\<close> and \<open>change\<close> with the new and the old header.\<close>

datatype acc_event = ChangeStart "nat option" old_header | Change "nat option" old_header

text \<open>The option \<open>icons\<close>: an object, \<open>false\<close> or \<open>null\<close>.\<close>

datatype icons_option = Icons | IconsFalse | IconsNull

text \<open>
  \<open>acc_data\<close>, \<open>to_show\<close> and \<open>to_hide\<close> are those of the last \<open>_toggle\<close>; \<open>acc_anims\<close> are the animations that have not ended, each with
  the panel it hides.  \<open>acc_seen\<close> says that all elements around the accordion are displayed: a panel is \<open>:visible\<close> if it is
  displayed itself (\<open>p_shown\<close>) and so are they.
\<close>

record accordion =
  parts :: "part list"
  acc_active :: "nat option"
  opt_active :: active_option
  acc_collapsible :: bool
  acc_disabled :: bool
  acc_animated :: bool
  acc_icons :: icons_option
  acc_running :: int
  to_show :: "nat option"
  to_hide :: "nat option"
  acc_data :: "nat option \<times> old_header"
  acc_anims :: "nat option list"
  acc_seen :: bool
  acc_log :: "acc_event list"

definition upd_part :: "nat option \<Rightarrow> (part \<Rightarrow> part) \<Rightarrow> accordion \<Rightarrow> accordion" where
  "upd_part i f s = (case i of None \<Rightarrow> s | Some k \<Rightarrow> s\<lparr>parts := (parts s)[k := f (parts s ! k)]\<rparr>)"

definition log_acc :: "acc_event \<Rightarrow> accordion \<Rightarrow> accordion" where
  "log_acc e s = s\<lparr>acc_log := acc_log s @ [e]\<rparr>"

section \<open>Toggling\<close>

definition completed :: "bool \<Rightarrow> accordion \<Rightarrow> accordion" where
  "completed cancel s =
     (let s1 = s\<lparr>acc_running := (if cancel then 0 else acc_running s - 1)\<rparr>
      in if acc_running s1 \<noteq> 0 then s1
         else (let s2 = upd_part (to_hide s1) (\<lambda>p. p\<lparr>p_class := False\<rparr>) s1
               in log_acc (Change (fst (acc_data s2)) (snd (acc_data s2))) s2))"

definition visible :: "nat \<Rightarrow> accordion \<Rightarrow> bool" where
  "visible k s \<longleftrightarrow> acc_seen s \<and> p_shown (parts s ! k)"

text \<open>\<open>slide\<close>: what is to be shown appears at once, what is to be hidden disappears at the end; nothing to hide that is visible ends it.\<close>

definition slide :: "nat option \<Rightarrow> nat option \<Rightarrow> accordion \<Rightarrow> accordion" where
  "slide show_panel hide_panel s =
     (case hide_panel of
        None \<Rightarrow>
          (case show_panel of
             None \<Rightarrow> s
           | Some k \<Rightarrow> if visible k s then completed False s
               else (upd_part (Some k) (\<lambda>p. p\<lparr>p_shown := True\<rparr>) s)\<lparr>acc_anims := acc_anims s @ [None]\<rparr>)
      | Some h \<Rightarrow>
          (let s1 = upd_part show_panel (\<lambda>p. p\<lparr>p_shown := True\<rparr>) s
           in if visible h s1 then s1\<lparr>acc_anims := acc_anims s1 @ [Some h]\<rparr> else completed False s1))"

text \<open>The first animation that has not ended does.\<close>

definition anim_ends :: "accordion \<Rightarrow> accordion" where
  "anim_ends s =
     (case acc_anims s of
        [] \<Rightarrow> s
      | h # rest \<Rightarrow> completed False (upd_part h (\<lambda>p. p\<lparr>p_shown := False\<rparr>) (s\<lparr>acc_anims := rest\<rparr>)))"

definition toggle :: "nat option \<Rightarrow> nat option \<Rightarrow> nat option \<times> old_header \<Rightarrow> bool \<Rightarrow> accordion \<Rightarrow> accordion" where
  "toggle show_panel hide_panel data clicked_active s =
     (let s1 = log_acc (ChangeStart (fst data) (snd data)) (s\<lparr>to_show := show_panel, to_hide := hide_panel, acc_data := data\<rparr>);
          s2 = s1\<lparr>acc_running := (if hide_panel = None then (if show_panel = None then 0 else 1) else 1)\<rparr>;
          closing = acc_collapsible s2 \<and> clicked_active;
          s3 = (if acc_animated s2 then slide (if closing then None else show_panel) hide_panel s2
                else (let t = (if closing then upd_part show_panel (\<lambda>p. p\<lparr>p_shown := \<not> (acc_seen s2 \<and> p_shown p)\<rparr>) s2
                               else upd_part show_panel (\<lambda>p. p\<lparr>p_shown := True\<rparr>)
                                      (upd_part hide_panel (\<lambda>p. p\<lparr>p_shown := False\<rparr>) s2))
                      in completed True t))
      in upd_part show_panel (\<lambda>p. p\<lparr>h_expanded := True, h_tab := True\<rparr>)
           (upd_part hide_panel (\<lambda>p. p\<lparr>h_expanded := False, h_tab := False\<rparr>) s3))"

section \<open>Activating\<close>

definition close_header :: "nat option \<Rightarrow> accordion \<Rightarrow> accordion" where
  "close_header i s = upd_part i (\<lambda>p. p\<lparr>h_active := False, h_icon := False\<rparr>) s"

definition open_header :: "nat \<Rightarrow> accordion \<Rightarrow> accordion" where
  "open_header k s = upd_part (Some k) (\<lambda>p. p\<lparr>h_active := True, h_icon := (acc_icons s = Icons), p_class := True\<rparr>) s"

text \<open>
  \<open>_clickHandler\<close> on a header, or on none; \<open>icons\<close> that are \<open>null\<close> make it throw when it gets to the icon of a header.
\<close>

definition click_handler :: "nat option \<Rightarrow> accordion \<Rightarrow> accordion js_result" where
  "click_handler target s =
     (if acc_disabled s then Inr s
      else case target of
        None \<Rightarrow>
          (if \<not> acc_collapsible s then Inr s
           else if acc_icons s = IconsNull then Inl TypeError
           else (let s1 = upd_part (acc_active s) (\<lambda>p. p\<lparr>p_class := True\<rparr>) (close_header (acc_active s) s)
                 in Inr (toggle None (acc_active s) (None, OldOption (opt_active s)) False (s1\<lparr>acc_active := None\<rparr>))))
      | Some c \<Rightarrow>
          (let own = (acc_active s = Some c);
               s1 = s\<lparr>opt_active := (if acc_collapsible s \<and> own then ActFalse else ActNumber c)\<rparr>
           in if acc_running s1 \<noteq> 0 \<or> (\<not> acc_collapsible s1 \<and> own) then Inr s1
              else (let old = acc_active s1;
                        new = (if own \<and> acc_collapsible s1 then None else Some c);
                        s2 = toggle (Some c) old (new, OldHeader old) own (s1\<lparr>acc_active := (if own then None else Some c)\<rparr>)
                    in if acc_icons s2 = IconsNull then Inl TypeError
                       else (let s3 = close_header old s2 in Inr (if own then s3 else open_header c s3)))))"

definition find_active :: "active_option \<Rightarrow> accordion \<Rightarrow> nat option" where
  "find_active a s =
     (case a of
        ActFalse \<Rightarrow> None
      | ActNumber n \<Rightarrow> if n < length (parts s) then Some n else None
      | ActHeader h \<Rightarrow> h)"

definition activate_part :: "active_option \<Rightarrow> accordion \<Rightarrow> accordion js_result" where
  "activate_part a s = click_handler (find_active a s) (s\<lparr>opt_active := a\<rparr>)"

text \<open>Creation with the header of the link that \<open>navigation\<close> finds, or else the option.\<close>

definition new_part :: "bool \<Rightarrow> bool \<Rightarrow> part" where
  "new_part active icons =
     \<lparr>h_active = active, h_icon = (active \<and> icons), h_expanded = active, h_tab = active, p_shown = active, p_class = active\<rparr>"

definition accordion_create :: "nat \<Rightarrow> nat option option \<Rightarrow> active_option \<Rightarrow> bool \<Rightarrow> bool \<Rightarrow> icons_option \<Rightarrow> accordion" where
  "accordion_create n nav opt collapsible animated icons =
     (let blank = \<lparr>parts = replicate n (new_part False (icons = Icons)), acc_active = None, opt_active = opt, acc_collapsible = collapsible,
            acc_disabled = False, acc_animated = animated, acc_icons = icons, acc_running = 0, to_show = None, to_hide = None,
            acc_data = (None, OldHeader None), acc_anims = [], acc_seen = True, acc_log = []\<rparr>;
          active = (case nav of Some h \<Rightarrow> h | None \<Rightarrow> find_active opt blank)
      in (upd_part (case active of None \<Rightarrow> if n = 0 then None else Some 0 | Some h \<Rightarrow> None) (\<lambda>p. p\<lparr>h_tab := True\<rparr>)
            (upd_part active (\<lambda>p. new_part True (icons = Icons)) blank))\<lparr>acc_active := active\<rparr>)"

datatype acc_change = SetActive active_option | SetIcons icons_option | SetDisabled bool | SetCollapsible bool | SetAnimated bool

definition accordion_set :: "acc_change \<Rightarrow> accordion \<Rightarrow> accordion js_result" where
  "accordion_set c s =
     (case c of
        SetActive a \<Rightarrow> activate_part a s
      | SetIcons ic \<Rightarrow>
          Inr (s\<lparr>acc_icons := ic, parts := map (\<lambda>i. (parts s ! i)\<lparr>h_icon := (ic = Icons \<and> acc_active s = Some i)\<rparr>) [0..<length (parts s)]\<rparr>)
      | SetDisabled b \<Rightarrow> Inr (s\<lparr>acc_disabled := b\<rparr>)
      | SetCollapsible b \<Rightarrow> Inr (s\<lparr>acc_collapsible := b\<rparr>)
      | SetAnimated b \<Rightarrow> Inr (s\<lparr>acc_animated := b\<rparr>))"

datatype acc_key = KeyForward | KeyBack | KeyOpen | KeyElse

text \<open>\<open>_keydown\<close> on a header: the header that gets the focus, if any.\<close>

definition acc_keydown :: "bool \<Rightarrow> acc_key \<Rightarrow> nat \<Rightarrow> accordion \<Rightarrow> (accordion \<times> nat option) js_result" where
  "acc_keydown with_alt_or_ctrl key i s =
     (if acc_disabled s \<or> with_alt_or_ctrl then Inr (s, None)
      else (let n = length (parts s);
                move = (\<lambda>j. Inr (upd_part (Some j) (\<lambda>p. p\<lparr>h_tab := True\<rparr>) (upd_part (Some i) (\<lambda>p. p\<lparr>h_tab := False\<rparr>) s), Some j))
            in case key of
              KeyForward \<Rightarrow> move ((i + 1) mod n)
            | KeyBack \<Rightarrow> move ((i + n - 1) mod n)
            | KeyOpen \<Rightarrow> js_bind (click_handler (Some i) s) (\<lambda>t. Inr (t, None))
            | KeyElse \<Rightarrow> Inr (s, None)))"

section \<open>Heights\<close>

text \<open>
  \<open>resize\<close>: heights of the contents of panels of which \<open>frame\<close> is the padding; with \<open>fillSpace\<close> an open panel fills the
  parent's height below all the headers, otherwise \<open>autoHeight\<close> gives them the height of the largest.
\<close>

definition fill_heights :: "int \<Rightarrow> int list \<Rightarrow> int list \<Rightarrow> int list" where
  "fill_heights parent headers frames = (let left = fold (\<lambda>h m. m - h) headers parent in map (\<lambda>f. max 0 (left - f)) frames)"

definition auto_heights :: "int list \<Rightarrow> int list" where
  "auto_heights hs = replicate (length hs) (fold (\<lambda>h m. max m h) hs 0)"

section \<open>What an accordion shows\<close>

definition acc_ok :: "accordion \<Rightarrow> bool" where
  "acc_ok s \<longleftrightarrow> (\<forall>k. acc_active s = Some k \<longrightarrow> k < length (parts s)) \<and> acc_running s = int (length (acc_anims s)) \<and>
     (acc_anims s = [] \<or> acc_anims s = [to_hide s]) \<and>
     (\<forall>k. Some k \<in> set (acc_anims s) \<longrightarrow> k < length (parts s) \<and> acc_active s \<noteq> Some k) \<and>
     (\<forall>i < length (parts s). h_active (parts s ! i) = (acc_active s = Some i) \<and>
        h_icon (parts s ! i) = (acc_active s = Some i \<and> acc_icons s = Icons) \<and>
        p_shown (parts s ! i) = (acc_active s = Some i \<or> Some i \<in> set (acc_anims s)) \<and> p_class (parts s ! i) = p_shown (parts s ! i))"

lemmas acc_defs = visible_def upd_part_def log_acc_def completed_def slide_def toggle_def close_header_def open_header_def Let_def

lemma click_ok:
  assumes ok: "acc_ok s" and c: "c < length (parts s)" and icons: "acc_icons s \<noteq> IconsNull" and seen: "acc_seen s"
  shows "\<exists>s'. click_handler (Some c) s = Inr s' \<and> acc_ok s' \<and> length (parts s') = length (parts s) \<and> acc_icons s' = acc_icons s \<and>
    acc_seen s' \<and> acc_disabled s' = acc_disabled s \<and> acc_collapsible s' = acc_collapsible s \<and>
    acc_active s' = (if acc_disabled s \<or> acc_anims s \<noteq> [] \<or> (acc_active s = Some c \<and> \<not> acc_collapsible s) then acc_active s
      else if acc_active s = Some c then None else Some c)"
proof (cases "acc_disabled s \<or> acc_anims s \<noteq> [] \<or> (acc_active s = Some c \<and> \<not> acc_collapsible s)")
  case True
  then show ?thesis using ok seen by (auto simp: click_handler_def acc_ok_def Let_def)
next
  case False
  then have f: "\<not> acc_disabled s" "acc_anims s = []" "acc_active s = Some c \<Longrightarrow> acc_collapsible s" by auto
  show ?thesis
  proof (cases "acc_active s = Some c")
    case True
    then show ?thesis using ok c icons seen f
      by (cases "acc_animated s") (simp_all add: click_handler_def acc_ok_def acc_defs nth_list_update)
  next
    case ne: False
    show ?thesis
    proof (cases "acc_active s")
      case None
      then show ?thesis using ok c icons seen f
        by (cases "acc_animated s") (auto simp: click_handler_def acc_ok_def acc_defs nth_list_update)
    next
      case (Some k)
      then show ?thesis using ok c icons seen f ne
        by (cases "acc_animated s") (auto simp: click_handler_def acc_ok_def acc_defs nth_list_update)
    qed
  qed
qed

lemma anim_ends_ok: "acc_ok s \<Longrightarrow> acc_ok (anim_ends s) \<and> acc_anims (anim_ends s) = [] \<and> acc_active (anim_ends s) = acc_active s \<and>
    length (parts (anim_ends s)) = length (parts s) \<and> acc_seen (anim_ends s) = acc_seen s \<and> acc_icons (anim_ends s) = acc_icons s \<and>
    acc_disabled (anim_ends s) = acc_disabled s \<and> acc_collapsible (anim_ends s) = acc_collapsible s"
proof -
  assume ok: "acc_ok s"
  then consider "acc_anims s = []" | "acc_anims s = [None]" "to_hide s = None"
    | h where "acc_anims s = [Some h]" "to_hide s = Some h" "h < length (parts s)" "acc_active s \<noteq> Some h"
    by (cases "to_hide s") (auto simp: acc_ok_def)
  then show ?thesis
  proof cases
    case 3
    then show ?thesis using ok by (auto simp: acc_ok_def anim_ends_def acc_defs nth_list_update)
  qed (use ok in \<open>auto simp: acc_ok_def anim_ends_def acc_defs\<close>)
qed

lemma close_all_ok:
  assumes ok: "acc_ok s" and idle: "acc_anims s = []" and icons: "acc_icons s \<noteq> IconsNull" and seen: "acc_seen s"
  shows "\<exists>s'. click_handler None s = Inr s' \<and> acc_ok s' \<and> length (parts s') = length (parts s) \<and> acc_icons s' = acc_icons s"
proof (cases "acc_active s")
  case None
  then show ?thesis using assms by (auto simp: click_handler_def acc_ok_def acc_defs)
next
  case (Some k)
  then show ?thesis using assms
    by (cases "acc_animated s") (auto simp: click_handler_def acc_ok_def acc_defs nth_list_update)
qed

lemma set_ok:
  assumes "acc_ok s" and "\<And>a. c \<noteq> SetActive a"
  shows "\<exists>s'. accordion_set c s = Inr s' \<and> acc_ok s'"
  using assms by (cases c) (auto simp: accordion_set_def acc_ok_def)

lemma create_acc_ok:
  assumes "\<And>h. nav = Some (Some h) \<Longrightarrow> h < n" "\<And>h. opt = ActHeader (Some h) \<Longrightarrow> h < n"
  shows "acc_ok (accordion_create n nav opt collapsible animated icons)"
proof -
  define blank where "blank = \<lparr>parts = replicate n (new_part False (icons = Icons)), acc_active = None, opt_active = opt, acc_collapsible = collapsible,
    acc_disabled = False, acc_animated = animated, acc_icons = icons, acc_running = 0, to_show = None, to_hide = None,
    acc_data = (None, OldHeader None), acc_anims = [], acc_seen = True, acc_log = []\<rparr>"
  define active where "active = (case nav of Some h \<Rightarrow> h | None \<Rightarrow> find_active opt blank)"
  have c: "accordion_create n nav opt collapsible animated icons =
      (upd_part (case active of None \<Rightarrow> if n = 0 then None else Some 0 | Some h \<Rightarrow> None) (\<lambda>p. p\<lparr>h_tab := True\<rparr>)
        (upd_part active (\<lambda>p. new_part True (icons = Icons)) blank))\<lparr>acc_active := active\<rparr>"
    unfolding accordion_create_def blank_def [symmetric] Let_def active_def [symmetric] ..
  have lt: "k < n" if "active = Some k" for k
    using that assms by (cases nav; cases opt; auto simp: active_def find_active_def blank_def split: if_splits)
  show ?thesis
  proof (cases active)
    case None
    then show ?thesis unfolding c by (cases "n = 0") (auto simp: acc_ok_def upd_part_def blank_def new_part_def nth_list_update)
  next
    case (Some k)
    then show ?thesis using lt [OF Some] unfolding c by (auto simp: acc_ok_def upd_part_def blank_def new_part_def nth_list_update)
  qed
qed

lemma key_ok:
  assumes "acc_ok s" and "i < length (parts s)" and "acc_icons s \<noteq> IconsNull" and "acc_seen s"
  shows "\<exists>s' f. acc_keydown b key i s = Inr (s', f) \<and> acc_ok s' \<and> length (parts s') = length (parts s) \<and> acc_icons s' = acc_icons s"
proof -
  have "acc_ok (upd_part (Some j) (\<lambda>p. p\<lparr>h_tab := True\<rparr>) (upd_part (Some i) (\<lambda>p. p\<lparr>h_tab := False\<rparr>) s))" if "j < length (parts s)" for j
    using assms(1,2) that by (auto simp: acc_ok_def upd_part_def nth_list_update)
  moreover have "0 < length (parts s)" using assms(2) by (rule le_less_trans [OF le0])
  then have "(i + 1) mod length (parts s) < length (parts s)" "(i + length (parts s) - 1) mod length (parts s) < length (parts s)"
    by (rule mod_less_divisor)+
  ultimately show ?thesis
    using click_ok [OF assms] assms(1) by (cases key) (auto simp: acc_keydown_def Let_def upd_part_def)
qed

section \<open>Every use of an accordion\<close>

text \<open>
  Uses in which everything is closed by a call only while no animation runs, and parts are opened and closed only while the elements around the
  accordion are displayed; they may come and go in between.  \<open>may_close\<close> is false if parts can never be closed.
\<close>

inductive acc_reachable :: "bool \<Rightarrow> accordion \<Rightarrow> bool" for may_close where
  Created: "icons \<noteq> IconsNull \<Longrightarrow> (\<And>h. nav = Some (Some h) \<Longrightarrow> h < n) \<Longrightarrow> (\<And>h. opt = ActHeader (Some h) \<Longrightarrow> h < n) \<Longrightarrow>
    (collapsible \<Longrightarrow> may_close) \<Longrightarrow> acc_reachable may_close (accordion_create n nav opt collapsible animated icons)"
| Clicked: "acc_reachable may_close s \<Longrightarrow> acc_seen s \<Longrightarrow> c < length (parts s) \<Longrightarrow> click_handler (Some c) s = Inr s' \<Longrightarrow> acc_reachable may_close s'"
| Activated: "acc_reachable may_close s \<Longrightarrow> acc_seen s \<Longrightarrow> (\<And>h. find_active a s = Some h \<Longrightarrow> h < length (parts s)) \<Longrightarrow>
    (find_active a s = None \<Longrightarrow> acc_anims s = []) \<Longrightarrow> activate_part a s = Inr s' \<Longrightarrow> acc_reachable may_close s'"
| Pressed: "acc_reachable may_close s \<Longrightarrow> acc_seen s \<Longrightarrow> i < length (parts s) \<Longrightarrow> acc_keydown b key i s = Inr (s', f) \<Longrightarrow> acc_reachable may_close s'"
| Around: "acc_reachable may_close s \<Longrightarrow> acc_reachable may_close (s\<lparr>acc_seen := b\<rparr>)"
| Ended: "acc_reachable may_close s \<Longrightarrow> acc_reachable may_close (anim_ends s)"
| Changed: "acc_reachable may_close s \<Longrightarrow> (\<And>a. c \<noteq> SetActive a) \<Longrightarrow> c \<noteq> SetIcons IconsNull \<Longrightarrow> (c = SetCollapsible True \<Longrightarrow> may_close) \<Longrightarrow>
    accordion_set c s = Inr s' \<Longrightarrow> acc_reachable may_close s'"

text \<open>\<open>aria-expanded\<close> is right as long as parts are not closed.\<close>

definition aria_ok :: "accordion \<Rightarrow> bool" where
  "aria_ok s \<longleftrightarrow> \<not> acc_collapsible s \<and> (\<forall>i < length (parts s). h_expanded (parts s ! i) = (acc_active s = Some i))"

lemma aria_click:
  assumes "acc_ok s" "aria_ok s" "c < length (parts s)" "click_handler (Some c) s = Inr s'"
  shows "aria_ok s'"
proof (cases "acc_disabled s \<or> acc_anims s \<noteq> [] \<or> acc_active s = Some c")
  case True
  then have "s' = s \<or> s' = s\<lparr>opt_active := ActNumber c\<rparr>"
    using assms by (auto simp: click_handler_def acc_ok_def aria_ok_def Let_def split: if_splits)
  then show ?thesis using assms(2) by (auto simp: aria_ok_def)
next
  case False
  show ?thesis
  proof (cases "acc_active s")
    case None
    then show ?thesis using assms False
      by (cases "acc_animated s") (auto simp: click_handler_def acc_ok_def aria_ok_def acc_defs nth_list_update split: if_splits)
  next
    case (Some k)
    then show ?thesis using assms False
      by (cases "acc_animated s") (auto simp: click_handler_def acc_ok_def aria_ok_def acc_defs nth_list_update split: if_splits)
  qed
qed

lemma aria_same: "aria_ok s \<Longrightarrow> acc_collapsible s' = acc_collapsible s \<Longrightarrow> acc_active s' = acc_active s \<Longrightarrow>
    map h_expanded (parts s') = map h_expanded (parts s) \<Longrightarrow> aria_ok s'"
  by (auto simp: aria_ok_def dest: map_eq_imp_length_eq) (metis (mono_tags, lifting) length_map nth_map)+

lemma map_expanded [simp]:
  "(\<And>p. h_expanded (f p) = h_expanded p) \<Longrightarrow> map h_expanded (parts (upd_part i f s)) = map h_expanded (parts s)"
proof (cases i)
  case (Some j)
  assume "\<And>p. h_expanded (f p) = h_expanded p"
  then show ?thesis
    using Some by (cases "j < length (parts s)") (simp_all add: upd_part_def map_update list_update_same_conv list_update_beyond)
qed (simp add: upd_part_def)

lemma expanded_anim_ends: "map h_expanded (parts (anim_ends s)) = map h_expanded (parts s)"
  by (simp add: anim_ends_def completed_def log_acc_def Let_def split: list.split)

lemma acc_reachable_ok: "acc_reachable m s \<Longrightarrow> acc_ok s \<and> acc_icons s \<noteq> IconsNull \<and> (\<not> m \<longrightarrow> aria_ok s)"
proof (induction rule: acc_reachable.induct)
  case (Created icons nav n opt collapsible animated)
  let ?s = "accordion_create n nav opt collapsible animated icons"
  have "acc_icons ?s = icons" by (simp add: accordion_create_def Let_def upd_part_def split: option.split)
  moreover have ok: "acc_ok ?s" by (rule create_acc_ok) (use Created in auto)
  moreover have "aria_ok ?s" if "\<not> m"
  proof -
    have "map h_expanded (parts ?s) = map h_active (parts ?s)"
      by (rule nth_equalityI)
        (use Created(2,3) in \<open>auto simp: accordion_create_def Let_def upd_part_def new_part_def nth_list_update find_active_def split: option.splits active_option.splits if_splits\<close>)
    moreover have "acc_collapsible ?s = collapsible" by (simp add: accordion_create_def Let_def upd_part_def split: option.split)
    ultimately show ?thesis using ok that Created(4) unfolding aria_ok_def acc_ok_def by (metis nth_map)
  qed
  ultimately show ?case using Created(1) by simp
next
  case (Clicked s c s')
  then show ?case using click_ok [of s c] aria_click [of s c s'] by auto
next
  case (Activated s a s')
  define t where "t = s\<lparr>opt_active := a\<rparr>"
  have t: "acc_ok t" "acc_seen t" "acc_icons t = acc_icons s" "aria_ok t = aria_ok s" "length (parts t) = length (parts s)" "acc_anims t = acc_anims s"
    using Activated.IH Activated.hyps(2) by (simp_all add: t_def acc_ok_def aria_ok_def)
  have s': "click_handler (find_active a s) t = Inr s'" using Activated.hyps(5) by (simp add: activate_part_def t_def)
  show ?case
  proof (cases "find_active a s")
    case None
    have "aria_ok s'" if "aria_ok t" using s' None that by (auto simp: click_handler_def aria_ok_def split: if_splits)
    then show ?thesis using close_all_ok [of t] None s' t Activated.IH Activated.hyps(4) by auto
  next
    case (Some c)
    then show ?thesis using click_ok [of t c] aria_click [of t c s'] s' t Activated.IH Activated.hyps(3) by auto
  qed
next
  case (Pressed s i b key s' f)
  have "aria_ok s'" if "aria_ok s"
  proof -
    have move: "aria_ok (upd_part (Some j) (\<lambda>p. p\<lparr>h_tab := True\<rparr>) (upd_part (Some i) (\<lambda>p. p\<lparr>h_tab := False\<rparr>) s))" for j
    proof (rule aria_same [OF that])
      show "map h_expanded (parts (upd_part (Some j) (\<lambda>p. p\<lparr>h_tab := True\<rparr>) (upd_part (Some i) (\<lambda>p. p\<lparr>h_tab := False\<rparr>) s))) =
        map h_expanded (parts s)" by simp
    qed (simp_all add: upd_part_def)
    show ?thesis
      using Pressed.hyps(4) move that aria_click [OF _ that Pressed.hyps(3)] Pressed.IH
      by (cases key) (auto simp: acc_keydown_def Let_def js_bind_Inr_iff split: if_splits)
  qed
  then show ?case using key_ok [of s i b key] Pressed by auto
next
  case (Around s b)
  then show ?case by (simp add: acc_ok_def aria_ok_def)
next
  case (Ended s)
  have "aria_ok (anim_ends s)" if "aria_ok s"
    using anim_ends_ok [of s] Ended.IH by (intro aria_same [OF that]) (simp_all add: expanded_anim_ends)
  then show ?case using Ended.IH anim_ends_ok [of s] by simp
next
  case (Changed s c s')
  have "acc_icons s' \<noteq> IconsNull" using Changed by (cases c) (auto simp: accordion_set_def)
  moreover have "aria_ok s'" if "aria_ok s" "\<not> m"
    using Changed that by (cases c) (auto simp: accordion_set_def aria_ok_def)
  ultimately show ?case using set_ok [of s c] Changed by auto
qed

section \<open>One of several panels\<close>

text \<open>An accordion at rest that never closes its parts is a view that shows one panel: a click, and the end of its animation.\<close>

definition plain_accordion :: "accordion \<Rightarrow> bool" where
  "plain_accordion s \<longleftrightarrow> acc_ok s \<and> acc_anims s = [] \<and> acc_seen s \<and> \<not> acc_disabled s \<and> \<not> acc_collapsible s \<and> acc_icons s \<noteq> IconsNull"

definition pick_part :: "nat \<Rightarrow> accordion \<Rightarrow> accordion" where
  "pick_part k s = (case click_handler (Some k) s of Inr s' \<Rightarrow> anim_ends s' | Inl e \<Rightarrow> s)"

definition panels_shown :: "accordion \<Rightarrow> nat set" where
  "panels_shown s = {i. i < length (parts s) \<and> p_shown (parts s ! i)}"

definition panels_of :: "accordion \<Rightarrow> nat set" where
  "panels_of s = (if plain_accordion s then {..<length (parts s)} else {})"

lemma pick_plain:
  assumes "k \<in> panels_of s"
  shows "plain_accordion (pick_part k s)" "length (parts (pick_part k s)) = length (parts s)" "acc_active (pick_part k s) = Some k"
proof -
  have p: "plain_accordion s" "k < length (parts s)" using assms by (auto simp: panels_of_def split: if_splits)
  then obtain s' where c: "click_handler (Some k) s = Inr s'" "acc_ok s'" "length (parts s') = length (parts s)"
    "acc_seen s'" "acc_icons s' = acc_icons s" "acc_disabled s' = acc_disabled s" "acc_collapsible s' = acc_collapsible s" "acc_active s' = Some k"
    using click_ok [of s k] by (auto simp: plain_accordion_def split: if_splits)
  show "plain_accordion (pick_part k s)" "length (parts (pick_part k s)) = length (parts s)" "acc_active (pick_part k s) = Some k"
    using anim_ends_ok [OF c(2)] c p by (simp_all add: pick_part_def plain_accordion_def)
qed

lemma shown_at_rest: "acc_ok s \<Longrightarrow> acc_anims s = [] \<Longrightarrow> panels_shown s = set_option (acc_active s)"
  by (auto simp: panels_shown_def acc_ok_def)

interpretation av: exclusive_view pick_part panels_shown panels_of
proof unfold_locales
  fix k s assume k: "k \<in> panels_of s"
  then have "plain_accordion s" by (auto simp: panels_of_def split: if_splits)
  then show "panels_of (pick_part k s) = panels_of s" using pick_plain [OF k] by (simp add: panels_of_def)
  show "panels_shown (pick_part k s) = {k}"
    using pick_plain [OF k] shown_at_rest [of "pick_part k s"] by (simp add: plain_accordion_def)
qed

section \<open>Properties\<close>


text \<open>After any clicks, each given the time to end, the panel of the last one alone is in sight.\<close>

lemma last_part_shown: "plain_accordion s \<Longrightarrow> ks \<noteq> [] \<Longrightarrow> set ks \<subseteq> {..<length (parts s)} \<Longrightarrow> panels_shown (fold pick_part ks s) = {last ks}"
  using av.shown_fold_last [of ks s] by (simp add: panels_of_def)

text \<open>With \<open>fillSpace\<close> an open panel and the headers have the height of the parent, if that is enough for them.\<close>

lemma fill_heights_sum: "f \<in> set frames \<Longrightarrow> sum_list headers + f \<le> parent \<Longrightarrow>
  \<exists>h \<in> set (fill_heights parent headers frames). sum_list headers + f + h = parent"
proof -
  have "fold (\<lambda>h m. m - h) hs m = m - sum_list hs" for hs and m :: int by (induction hs arbitrary: m) simp_all
  then show "f \<in> set frames \<Longrightarrow> sum_list headers + f \<le> parent \<Longrightarrow> ?thesis"
    by (intro bexI [of _ "max 0 (parent - sum_list headers - f)"]) (auto simp: fill_heights_def intro!: image_eqI [of _ _ f])
qed

section \<open>Examples\<close>

definition acc_demo :: "bool \<Rightarrow> bool \<Rightarrow> accordion" where
  "acc_demo collapsible animated = accordion_create 3 None (ActNumber 0) collapsible animated Icons"

definition acc_click :: "nat \<Rightarrow> accordion \<Rightarrow> accordion" where
  "acc_click k s = (case click_handler (Some k) s of Inr t \<Rightarrow> t | Inl e \<Rightarrow> s)"

definition acc_activate :: "active_option \<Rightarrow> accordion \<Rightarrow> accordion" where
  "acc_activate a s = (case activate_part a s of Inr t \<Rightarrow> t | Inl e \<Rightarrow> s)"


text \<open>
  Closing everything by \<open>activate (false)\<close> while an animation runs: the second end counts \<open>running\<close> down to \<open>-1\<close>, and every click after
  that is ignored.
\<close>

lemma close_while_running_sticks:
  "let s = anim_ends (anim_ends (acc_activate ActFalse (acc_click 1 (acc_demo True True))))
   in acc_running s = -1 \<and> acc_anims s = [] \<and> acc_active (acc_click 2 s) = None \<and> \<not> p_shown (parts (acc_click 2 s) ! 2)"
  by code_simp

text \<open>
  Closing the open part by a click on its header leaves \<open>aria-expanded\<close> true, for good: later two headers claim to be open.
\<close>

lemma closed_part_stays_expanded:
  "let s = acc_click 0 (acc_demo True False) in panels_shown s = {} \<and> h_expanded (parts s ! 0) \<and>
     h_expanded (parts (acc_click 1 s) ! 0) \<and> h_expanded (parts (acc_click 1 s) ! 1)"
  by (simp add: panels_shown_def) code_simp

text \<open>
  The option \<open>active\<close> is set by calls and clicks that are ignored: here the accordion cannot be closed, and here a click comes during an
  animation.  The event of \<open>activate (false)\<close> has that option for its old header.
\<close>

lemma option_active_wrong:
  "(let s = acc_activate ActFalse (acc_demo False False) in opt_active s = ActFalse \<and> acc_active s = Some 0) \<and>
   (let s = acc_click 2 (acc_click 1 (acc_demo False True)) in opt_active s = ActNumber 2 \<and> acc_active s = Some 1) \<and>
   ChangeStart None (OldOption ActFalse) \<in> set (acc_log (acc_activate ActFalse (acc_demo True False)))"
  by code_simp

text \<open>
  In an accordion that is not in sight, say in a tab that is closed, no panel is \<open>:visible\<close>: with an animation the panel to hide is not
  hidden, without one the panel of a header that closes is shown again.
\<close>

lemma hidden_accordion_shows_two:
  "panels_shown (acc_activate (ActNumber 1) ((acc_demo False True)\<lparr>acc_seen := False\<rparr>)) = {0, 1} \<and>
   panels_shown (acc_click 0 ((acc_demo True False)\<lparr>acc_seen := False\<rparr>)) = {0}"
proof -
  have p: "panels_shown s = set (filter (\<lambda>i. p_shown (parts s ! i)) [0..<length (parts s)])" for s by (auto simp: panels_shown_def)
  show ?thesis unfolding p by code_simp
qed

text \<open>Closing everything takes every header out of the tab order.\<close>

lemma no_tab_stop: "list_all (\<lambda>p. \<not> h_tab p) (parts (acc_activate ActFalse (acc_demo True False)))"
  by code_simp

end
