(* ===== verification/Ui_Widget.thy ===== *)
theory Ui_Widget
  imports Js_Prelude
begin

text \<open>
  The widget factory, \<open>jquery.ui.widget.js\<close>, with \<open>jQuery.extend\<close>, which merges the options.  Values are
  those of options: objects are lists of their own fields in order, functions are names.  Values that contain
  themselves are left aside.
\<close>

section \<open>jQuery.extend\<close>

datatype js_val =
    JUndef
  | JNull
  | JBool bool
  | JNum int
  | JStr string
  | JFun nat
  | JArr "js_val list"
  | JObj "(string \<times> js_val) list"

fun truthy :: "js_val \<Rightarrow> bool" where
  "truthy JUndef = False"
| "truthy JNull = False"
| "truthy (JBool b) = b"
| "truthy (JNum n) = (n \<noteq> 0)"
| "truthy (JStr s) = (s \<noteq> [])"
| "truthy (JFun f) = True"
| "truthy (JArr vs) = True"
| "truthy (JObj fs) = True"

definition get_key :: "string \<Rightarrow> (string \<times> js_val) list \<Rightarrow> js_val" where
  "get_key k fs = (case map_of fs k of Some v \<Rightarrow> v | None \<Rightarrow> JUndef)"

fun set_key :: "string \<Rightarrow> js_val \<Rightarrow> (string \<times> js_val) list \<Rightarrow> (string \<times> js_val) list" where
  "set_key k v [] = [(k, v)]"
| "set_key k v ((j, u) # fs) = (if j = k then (k, v) # fs else (j, u) # set_key k v fs)"

fun fields_of :: "js_val \<Rightarrow> (string \<times> js_val) list" where
  "fields_of (JObj fs) = fs"
| "fields_of v = []"

fun items_of :: "js_val \<Rightarrow> js_val list" where
  "items_of (JArr vs) = vs"
| "items_of v = []"

text \<open>
  \<open>extend (true, target, options)\<close>, for the fields of an object, and for an array, whose elements are taken
  place by place; \<open>deep_val\<close> is what a field becomes that had a value and gets another.
\<close>

fun deep_val :: "js_val \<Rightarrow> js_val \<Rightarrow> js_val"
  and deep_fields :: "(string \<times> js_val) list \<Rightarrow> (string \<times> js_val) list \<Rightarrow> (string \<times> js_val) list"
  and deep_items :: "js_val list \<Rightarrow> js_val list \<Rightarrow> js_val list"
where
  "deep_val old (JObj fs) = JObj (deep_fields (fields_of old) fs)"
| "deep_val old (JArr vs) = JArr (deep_items (items_of old) vs)"
| "deep_val old v = v"
| "deep_fields t [] = t"
| "deep_fields t ((k, v) # fs) = deep_fields (if v = JUndef then t else set_key k (deep_val (get_key k t) v) t) fs"
| "deep_items t [] = t"
| "deep_items (u # t) (v # vs) = (if v = JUndef then u else deep_val u v) # deep_items t vs"
| "deep_items [] (v # vs) =
     (let rest = deep_items [] vs in if v = JUndef then (if rest = [] then [] else JUndef # rest) else deep_val JUndef v # rest)"

section \<open>Instances\<close>

text \<open>An instance: its options, how often \<open>_init\<close> ran, and whether it has the classes of a disabled widget.\<close>

record widget =
  w_options :: "(string \<times> js_val) list"
  w_inits :: nat
  w_disabled :: bool

definition create_widget :: "(string \<times> js_val) list \<Rightarrow> (string \<times> js_val) list \<Rightarrow> (string \<times> js_val) list \<Rightarrow> widget" where
  "create_widget defaults meta given =
     \<lparr>w_options = deep_fields (deep_fields (deep_fields [] defaults) meta) given, w_inits = 1, w_disabled = False\<rparr>"

definition set_option :: "string \<Rightarrow> js_val \<Rightarrow> widget \<Rightarrow> widget" where
  "set_option k v w =
     (let w1 = w\<lparr>w_options := set_key k v (w_options w)\<rparr> in if k = ''disabled'' then w1\<lparr>w_disabled := truthy v\<rparr> else w1)"

definition set_options :: "(string \<times> js_val) list \<Rightarrow> widget \<Rightarrow> widget" where
  "set_options fs w = fold (\<lambda>(k, v). set_option k v) fs w"

text \<open>What a method answers: the instance (or \<open>undefined\<close>), for chaining, or another value.\<close>

datatype answer = Chain | Value js_val

text \<open>\<open>option\<close> with its arguments: none, a name, a name and a value (\<open>undefined\<close> is no value), or a hash.\<close>

datatype option_args = NoArgs | Name string | NameValue string js_val | Hash "(string \<times> js_val) list"

definition option_call :: "option_args \<Rightarrow> widget \<Rightarrow> widget \<times> js_val option" where
  "option_call a w =
     (case a of
        NoArgs \<Rightarrow> (w, Some (JObj (filter (\<lambda>(k, v). v \<noteq> JUndef) (w_options w))))
      | Name k \<Rightarrow> (w, Some (get_key k (w_options w)))
      | NameValue k v \<Rightarrow> if v = JUndef then (w, Some (get_key k (w_options w))) else (set_options [(k, v)] w, None)
      | Hash fs \<Rightarrow> (set_options fs w, None))"

definition enable_widget :: "widget \<Rightarrow> widget" where
  "enable_widget = set_option ''disabled'' (JBool False)"

definition disable_widget :: "widget \<Rightarrow> widget" where
  "disable_widget = set_option ''disabled'' (JBool True)"

section \<open>The bridge\<close>

text \<open>
  A call of the plugin on elements, each with or without an instance: of a method by its name, where \<open>methods\<close> are those of the widget and
  \<open>None\<close> is the answer that the collection itself is returned; or with hashes of options.
\<close>

fun call_each :: "(widget \<Rightarrow> widget \<times> answer) option \<Rightarrow> widget option list \<Rightarrow> widget option list \<times> js_val option" where
  "call_each m [] = ([], None)"
| "call_each m (None # es) = (let (es', r) = call_each m es in (None # es', r))"
| "call_each None (Some w # es) = (let (es', r) = call_each None es in (Some w # es', r))"
| "call_each (Some f) (Some w # es) =
     (case f w of
        (w', Value v) \<Rightarrow> if v = JUndef then (let (es', r) = call_each (Some f) es in (Some w' # es', r)) else (Some w' # es, Some v)
      | (w', Chain) \<Rightarrow> (let (es', r) = call_each (Some f) es in (Some w' # es', r)))"

definition bridge_method ::
  "(string \<Rightarrow> (widget \<Rightarrow> widget \<times> answer) option) \<Rightarrow> string \<Rightarrow> widget option list \<Rightarrow> widget option list \<times> js_val option" where
  "bridge_method methods name es = (if take 1 name = ''_'' then (es, None) else call_each (methods name) es)"

text \<open>The hashes of a call, merged into the first.\<close>

definition given_options :: "(string \<times> js_val) list list \<Rightarrow> (string \<times> js_val) list" where
  "given_options hashes = (case hashes of [] \<Rightarrow> [] | h # hs \<Rightarrow> foldl deep_fields h hs)"

definition bridge_init ::
  "(string \<times> js_val) list \<Rightarrow> (string \<times> js_val) list list \<Rightarrow> widget option list \<Rightarrow> widget option list" where
  "bridge_init defaults hashes es =
     (let given = given_options hashes
      in map (\<lambda>e. case e of
           Some w \<Rightarrow> Some (let w1 = set_options given w in w1\<lparr>w_inits := w_inits w1 + 1\<rparr>)
         | None \<Rightarrow> Some (create_widget defaults [] given)) es)"

text \<open>\<open>_trigger\<close>: the name of the event, and the answer: whether no one vetoed.\<close>

definition event_type :: "string \<Rightarrow> string \<Rightarrow> string" where
  "event_type prefix type = to_lower (if type = prefix then type else prefix @ type)"

definition trigger_answer :: "bool \<Rightarrow> bool option \<Rightarrow> bool" where
  "trigger_answer prevented callback = (\<not> (callback = Some False \<or> prevented))"

section \<open>Options\<close>

lemma map_of_set_key: "map_of (set_key k v fs) j = (if j = k then Some v else map_of fs j)"
  by (induction k v fs rule: set_key.induct) auto

lemma get_set_key [simp]: "get_key j (set_key k v fs) = (if j = k then v else get_key j fs)"
  by (simp add: get_key_def map_of_set_key)

lemma get_key_Cons: "get_key j ((k, v) # fs) = (if j = k then v else get_key j fs)"
  by (simp add: get_key_def)

text \<open>A field of merged options: what is given, merged into what was there; what is not given, or \<open>undefined\<close>, stays.\<close>

lemma get_deep_fields:
  "distinct (map fst fs) \<Longrightarrow>
   get_key k (deep_fields t fs) = (if get_key k fs = JUndef then get_key k t else deep_val (get_key k t) (get_key k fs))"
proof (induction fs arbitrary: t)
  case (Cons f fs)
  obtain j v where f: "f = (j, v)" by (cases f)
  have "get_key j fs = JUndef" using Cons.prems f by (auto simp: get_key_def dest: map_of_SomeD split: option.split) (force dest: map_of_SomeD)
  then show ?case using Cons f by (simp add: get_key_Cons)
qed (simp add: get_key_def)

lemma keys_set_key: "set (map fst (set_key k v fs)) = insert k (set (map fst fs))"
  "distinct (map fst fs) \<Longrightarrow> distinct (map fst (set_key k v fs))"
proof -
  show a: "set (map fst (set_key k v fs)) = insert k (set (map fst fs))" for k v fs by (induction k v fs rule: set_key.induct) auto
  show "distinct (map fst fs) \<Longrightarrow> distinct (map fst (set_key k v fs))"
    by (induction k v fs rule: set_key.induct) (use a in \<open>auto simp del: set_map\<close>)
qed

text \<open>Well-formed values: no object has a field twice.\<close>

fun val_ok :: "js_val \<Rightarrow> bool" and fields_ok :: "(string \<times> js_val) list \<Rightarrow> bool" and vals_ok :: "js_val list \<Rightarrow> bool" where
  "val_ok (JObj fs) = fields_ok fs"
| "val_ok (JArr vs) = vals_ok vs"
| "val_ok v = True"
| "fields_ok [] = True"
| "fields_ok ((k, v) # fs) = (k \<notin> fst ` set fs \<and> val_ok v \<and> fields_ok fs)"
| "vals_ok [] = True"
| "vals_ok (v # vs) = (val_ok v \<and> vals_ok vs)"

text \<open>The value at a path of fields.\<close>

fun at_path :: "string list \<Rightarrow> js_val \<Rightarrow> js_val" where
  "at_path [] v = v"
| "at_path (k # p) v = at_path p (get_key k (fields_of v))"

definition leaf :: "js_val \<Rightarrow> bool" where
  "leaf v \<longleftrightarrow> (case v of JUndef \<Rightarrow> False | JObj fs \<Rightarrow> False | JArr vs \<Rightarrow> False | _ \<Rightarrow> True)"

lemma fields_ok_distinct: "fields_ok fs \<Longrightarrow> distinct (map fst fs)"
  by (induction fs) force+

lemma fields_ok_get: "fields_ok fs \<Longrightarrow> val_ok (get_key k fs)"
  by (induction fs) (auto simp: get_key_Cons, simp add: get_key_def)

lemma leaf_deep_val: "leaf v \<Longrightarrow> deep_val old v = v"
  by (cases v) (simp_all add: leaf_def)

lemma at_path_undef: "fields_of v = [] \<Longrightarrow> at_path (k # p) v = JUndef"
proof -
  have "at_path q JUndef = JUndef" for q by (induction q) (simp_all add: get_key_def)
  then show "fields_of v = [] \<Longrightarrow> ?thesis" by (simp add: get_key_def)
qed

text \<open>A value says nothing about a path: it is \<open>undefined\<close> there, and an object on the way.\<close>

fun silent :: "string list \<Rightarrow> js_val \<Rightarrow> bool" where
  "silent [] v = (v = JUndef)"
| "silent (k # p) v = (case v of JUndef \<Rightarrow> True | JObj fs \<Rightarrow> silent p (get_key k fs) | _ \<Rightarrow> False)"

text \<open>C28: The options of a widget are the defaults overridden by what is given, at every depth: along a path of fields that
  ends in a plain value of what is given, the merged options have that value; along a path about which what
  is given is silent they have what the defaults have.\<close>

theorem options_merge:
  assumes "fields_ok given"
  shows "(leaf (at_path (k # p) (JObj given)) \<longrightarrow>
      at_path (k # p) (JObj (deep_fields defaults given)) = at_path (k # p) (JObj given)) \<and>
    (silent (k # p) (JObj given) \<longrightarrow> at_path (k # p) (JObj (deep_fields defaults given)) = at_path (k # p) (JObj defaults))"
  using assms
proof (induction p arbitrary: k given defaults)
  case Nil
  have "get_key k (deep_fields defaults given) =
      (if get_key k given = JUndef then get_key k defaults else deep_val (get_key k defaults) (get_key k given))"
    by (rule get_deep_fields [OF fields_ok_distinct [OF Nil]])
  then show ?case by (auto simp: leaf_deep_val) (auto simp: leaf_def)
next
  case (Cons j p)
  have g: "get_key k (deep_fields defaults given) =
      (if get_key k given = JUndef then get_key k defaults else deep_val (get_key k defaults) (get_key k given))"
    by (rule get_deep_fields [OF fields_ok_distinct [OF Cons.prems]])
  show ?case
  proof (cases "get_key k given")
    case (JObj fs)
    have "fields_ok fs" using fields_ok_get [OF Cons.prems, of k] JObj by simp
    from Cons.IH [OF this, of j "fields_of (get_key k defaults)"] show ?thesis using g JObj by simp
  next
    case JUndef
    have "at_path q JUndef = JUndef" for q by (induction q) (simp_all add: get_key_def)
    then show ?thesis using g JUndef by (simp add: leaf_def get_key_def)
  qed (use g in \<open>auto simp: leaf_def get_key_def at_path_undef\<close>)
qed

section \<open>Calls of a method\<close>

definition ends_call :: "(widget \<Rightarrow> widget \<times> answer) \<Rightarrow> widget option \<Rightarrow> bool" where
  "ends_call f e = (case e of None \<Rightarrow> False | Some w \<Rightarrow> (case snd (f w) of Value v \<Rightarrow> v \<noteq> JUndef | Chain \<Rightarrow> False))"

text \<open>A method is called on the elements in turn, on those that have an instance, until one answers with a value
  that is neither \<open>undefined\<close> nor the instance; that value is the result, and the elements after it
  are left alone.  If none does, all are called and the collection is the result.\<close>

theorem bridge_stops_at_value:
  assumes "take 1 name \<noteq> ''_''" and "methods name = Some f"
  shows "bridge_method methods name es =
    (let before = takeWhile (\<lambda>e. \<not> ends_call f e) es; rest = dropWhile (\<lambda>e. \<not> ends_call f e) es; call = map_option (\<lambda>w. fst (f w))
     in (map call before @ map call (take 1 rest) @ drop 1 rest,
         case rest of Some w # _ \<Rightarrow> (case snd (f w) of Value v \<Rightarrow> Some v | Chain \<Rightarrow> None) | _ \<Rightarrow> None))"
proof -
  have "call_each (Some f) es =
    (let before = takeWhile (\<lambda>e. \<not> ends_call f e) es; rest = dropWhile (\<lambda>e. \<not> ends_call f e) es; call = map_option (\<lambda>w. fst (f w))
     in (map call before @ map call (take 1 rest) @ drop 1 rest,
         case rest of Some w # _ \<Rightarrow> (case snd (f w) of Value v \<Rightarrow> Some v | Chain \<Rightarrow> None) | _ \<Rightarrow> None))"
  proof (induction es)
    case (Cons e es)
    show ?case
    proof (cases e)
      case None
      then show ?thesis using Cons by (simp add: ends_call_def Let_def)
    next
      case (Some w)
      then show ?thesis using Cons by (cases "f w") (auto simp: ends_call_def Let_def split: answer.split)
    qed
  qed simp
  then show ?thesis using assms by (simp add: bridge_method_def)
qed

text \<open>Private methods are not called, nor methods that are not there.\<close>

lemma bridge_ignores: "take 1 name = ''_'' \<or> methods name = None \<Longrightarrow> bridge_method methods name es = (es, None)"
proof -
  have "call_each None es = (es, None)" by (induction "None :: (widget \<Rightarrow> widget \<times> answer) option" es rule: call_each.induct) simp_all
  then show "take 1 name = ''_'' \<or> methods name = None \<Longrightarrow> ?thesis" by (auto simp: bridge_method_def)
qed

text \<open>A call with options leaves every element with an instance, and runs \<open>_init\<close> once on each.\<close>

lemma bridge_init_each:
  "i < length es \<Longrightarrow> \<exists>w. bridge_init defaults hashes es ! i = Some w \<and>
     w_inits w = (case es ! i of None \<Rightarrow> 1 | Some u \<Rightarrow> w_inits u + 1)"
proof -
  have "w_inits (set_options fs w) = w_inits w" for fs w
    by (induction fs arbitrary: w) (auto simp: set_options_def set_option_def Let_def)
  then show "i < length es \<Longrightarrow> ?thesis" by (auto simp: bridge_init_def Let_def create_widget_def split: option.split)
qed

section \<open>Examples\<close>

theorem options_merge_witness:
  "at_path [''position'', ''at''] (JObj (deep_fields [(''position'', JObj [(''my'', JStr ''center''), (''at'', JStr ''center'')])]
     [(''position'', JObj [(''my'', JStr ''left'')])])) = JStr ''center''"
  using options_merge [of "[(''position'', JObj [(''my'', JStr ''left'')])]" "''position''" "[''at'']"
      "[(''position'', JObj [(''my'', JStr ''center''), (''at'', JStr ''center'')])]"]
  by (simp add: get_key_def)

definition option_method :: "string \<Rightarrow> widget \<Rightarrow> widget \<times> answer" where
  "option_method k w = (w\<lparr>w_inits := 9\<rparr>, Value (get_key k (w_options w)))"

theorem bridge_stops_at_value_witness:
  "snd (bridge_method (\<lambda>n. if n = ''get'' then Some (option_method ''a'') else None) ''get''
     [None, Some \<lparr>w_options = [], w_inits = 1, w_disabled = False\<rparr>, Some \<lparr>w_options = [(''a'', JNum 3)], w_inits = 1, w_disabled = False\<rparr>,
      Some \<lparr>w_options = [(''a'', JNum 4)], w_inits = 1, w_disabled = False\<rparr>]) = Some (JNum 3)"
  by (subst bridge_stops_at_value [where f = "option_method ''a''"]) (simp_all add: ends_call_def option_method_def get_key_def Let_def)

text \<open>An array that is given is merged with the default one place by place.\<close>

lemma arrays_merge_by_place: "deep_val (JArr [JNum 1, JNum 2]) (JArr [JNum 9]) = JArr [JNum 9, JNum 2]"
  by simp

text \<open>The class of a disabled widget comes with the option, not with its creation.\<close>

lemma created_disabled_without_class:
  "let w = create_widget [(''disabled'', JBool False)] [] [(''disabled'', JBool True)]
   in get_key ''disabled'' (w_options w) = JBool True \<and> \<not> w_disabled w \<and> w_disabled (disable_widget w)"
  by code_simp

end
