(* ===== verification/Ui_Button.thy ===== *)
theory Ui_Button
  imports Exclusive_View
begin

text \<open>
  Buttons and button sets, \<open>jquery.ui.button.js\<close>.  The state is a page of buttons together with the four
  variables that the script shares between all of them.  What the browser does with a click that no handler held back, and
  with the keyboard on a checkbox or radio button, is part of the model: the input changes its \<open>checked\<close> and raises
  \<open>change\<close>.  A label is not around its input.
\<close>

section \<open>The buttons of a page\<close>

datatype kind = Checkbox | Radio | Input | Button

text \<open>A button: what it is made of (with its name and form), the input's \<open>checked\<close>, the value a reset gives that, and \<open>disabled\<close>, the option, the
  classes of its visible element, and its \<open>aria-pressed\<close>.\<close>

record button =
  b_kind :: kind
  b_name :: string
  b_form :: "nat option"
  b_checked :: bool
  b_default :: bool
  b_disabled :: bool
  b_off :: bool
  b_active :: bool
  b_hover :: bool
  b_focus :: bool
  b_pressed :: "bool option"

text \<open>The page: its buttons, and \<open>lastActive\<close>, \<open>startXPos\<close> with \<open>startYPos\<close>, and \<open>clickDragged\<close>.\<close>

record buttons =
  all :: "button list"
  last_active :: "nat option"
  start_pos :: "(int \<times> int) option"
  click_dragged :: bool

definition button_type :: "bool \<Rightarrow> bool \<Rightarrow> bool \<Rightarrow> kind" where
  "button_type is_checkbox is_radio is_input =
     (if is_checkbox then Checkbox else if is_radio then Radio else if is_input then Input else Button)"

definition toggles :: "button \<Rightarrow> bool" where
  "toggles b = (b_kind b = Checkbox \<or> b_kind b = Radio)"

definition looks :: "bool \<Rightarrow> button \<Rightarrow> button" where
  "looks v b = b\<lparr>b_active := v, b_pressed := Some v\<rparr>"

definition set_off :: "bool \<Rightarrow> button \<Rightarrow> button" where
  "set_off v b = b\<lparr>b_off := v, b_disabled := v\<rparr>"

text \<open>\<open>_create\<close>: the option wins over the attribute, and the look of a toggle is that of its input.\<close>

definition create_button :: "bool option \<Rightarrow> button \<Rightarrow> button" where
  "create_button given b =
     (let b1 = (case given of None \<Rightarrow> b\<lparr>b_off := b_disabled b\<rparr> | Some d \<Rightarrow> b\<lparr>b_off := d, b_disabled := d\<rparr>);
          b2 = (if toggles b1 then b1\<lparr>b_active := b_active b1 \<or> b_checked b1, b_pressed := Some (b_checked b1)\<rparr> else b1)
      in set_off (b_off b2) b2)"

text \<open>The inputs that share name and form with a radio button, whatever they are; none if it has no name.\<close>

definition in_group :: "button \<Rightarrow> button \<Rightarrow> bool" where
  "in_group r b = (b_name r \<noteq> [] \<and> b_name b = b_name r \<and> b_form b = b_form r)"

definition map_nth :: "(nat \<Rightarrow> 'a \<Rightarrow> 'a) \<Rightarrow> 'a list \<Rightarrow> 'a list" where
  "map_nth f xs = map (\<lambda>j. f j (xs ! j)) [0..<length xs]"

definition at_button :: "nat \<Rightarrow> (button \<Rightarrow> button) \<Rightarrow> buttons \<Rightarrow> buttons" where
  "at_button i f s = s\<lparr>all := map_nth (\<lambda>j b. if j = i then f b else b) (all s)\<rparr>"

section \<open>Handlers\<close>

definition mouse_enter :: "nat \<Rightarrow> buttons \<Rightarrow> buttons" where
  "mouse_enter i s =
     at_button i (\<lambda>b. if b_off b then b else b\<lparr>b_hover := True, b_active := b_active b \<or> last_active s = Some i\<rparr>) s"

definition mouse_leave :: "nat \<Rightarrow> buttons \<Rightarrow> buttons" where
  "mouse_leave i s =
     at_button i (\<lambda>b. if b_off b then b else b\<lparr>b_hover := False, b_active := (b_active b \<and> toggles b)\<rparr>) s"

definition focus_button :: "nat \<Rightarrow> buttons \<Rightarrow> buttons" where
  "focus_button i = at_button i (b_focus_update (\<lambda>_. True))"

definition blur_button :: "nat \<Rightarrow> buttons \<Rightarrow> buttons" where
  "blur_button i = at_button i (b_focus_update (\<lambda>_. False))"

definition press_button :: "nat \<Rightarrow> int \<times> int \<Rightarrow> buttons \<Rightarrow> buttons" where
  "press_button i p s =
     (let b = all s ! i
      in if b_off b then s
         else if toggles b then s\<lparr>click_dragged := False, start_pos := Some p\<rparr>
         else (at_button i (b_active_update (\<lambda>_. True)) s)\<lparr>last_active := Some i\<rparr>)"

text \<open>The mouse button comes up over a button, and then, unless that is held back, the document hears of it.\<close>

definition release_button :: "nat \<Rightarrow> int \<times> int \<Rightarrow> buttons \<Rightarrow> buttons \<times> bool" where
  "release_button i p s =
     (let b = all s ! i
      in if toggles b then (if \<not> b_off b \<and> start_pos s \<noteq> Some p then s\<lparr>click_dragged := True\<rparr> else s, True)
         else if b_off b then (s, False)
         else (at_button i (b_active_update (\<lambda>_. False)) s, True))"

definition document_mouseup :: "buttons \<Rightarrow> buttons" where
  "document_mouseup s = s\<lparr>last_active := None\<rparr>"

definition mouse_up :: "nat option \<Rightarrow> int \<times> int \<Rightarrow> buttons \<Rightarrow> buttons" where
  "mouse_up at p s =
     (case at of
        None \<Rightarrow> document_mouseup s
      | Some i \<Rightarrow> (case release_button i p s of (s', bubbles) \<Rightarrow> if bubbles then document_mouseup s' else s'))"

definition key_down :: "nat \<Rightarrow> int \<Rightarrow> buttons \<Rightarrow> buttons" where
  "key_down i k = at_button i (\<lambda>b. if \<not> toggles b \<and> \<not> b_off b \<and> (k = 32 \<or> k = 13) then b\<lparr>b_active := True\<rparr> else b)"

text \<open>The key comes up; a link is clicked by the space key.\<close>

definition key_up :: "nat \<Rightarrow> buttons \<Rightarrow> buttons" where
  "key_up i = at_button i (\<lambda>b. if toggles b then b else b\<lparr>b_active := False\<rparr>)"

definition key_clicks :: "bool \<Rightarrow> int \<Rightarrow> bool" where
  "key_clicks is_link k = (is_link \<and> k = 32)"

text \<open>The handlers of a click on the visible element; the answer is whether the click goes through.\<close>

definition click_checkbox :: "nat \<Rightarrow> buttons \<Rightarrow> buttons \<times> bool" where
  "click_checkbox i s =
     (if b_off (all s ! i) \<or> click_dragged s then (s, False)
      else (at_button i (\<lambda>b. b\<lparr>b_active := \<not> b_active b, b_pressed := Some (b_checked b)\<rparr>) s, True))"

definition click_radio :: "nat \<Rightarrow> buttons \<Rightarrow> buttons \<times> bool" where
  "click_radio i s =
     (if b_off (all s ! i) \<or> click_dragged s then (s, False)
      else (s\<lparr>all := map_nth (\<lambda>j b. if j = i then looks True b else if in_group (all s ! i) b then looks False b else b) (all s)\<rparr>, True))"

definition click_button :: "nat \<Rightarrow> buttons \<Rightarrow> buttons \<times> bool" where
  "click_button i s =
     (case b_kind (all s ! i) of
        Checkbox \<Rightarrow> click_checkbox i s
      | Radio \<Rightarrow> click_radio i s
      | _ \<Rightarrow> (s, \<not> b_off (all s ! i)))"

definition refresh_button :: "nat \<Rightarrow> buttons \<Rightarrow> buttons" where
  "refresh_button i s =
     (let b = all s ! i;
          s1 = (if b_disabled b \<noteq> b_off b then at_button i (set_off (b_disabled b)) s else s)
      in case b_kind b of
           Radio \<Rightarrow> s1\<lparr>all := map (\<lambda>c. if in_group b c then looks (b_checked c) c else c) (all s1)\<rparr>
         | Checkbox \<Rightarrow> at_button i (\<lambda>c. looks (b_checked c) c) s1
         | _ \<Rightarrow> s1)"

definition change_button :: "nat \<Rightarrow> buttons \<Rightarrow> buttons" where
  "change_button i s = (if click_dragged s then s else refresh_button i s)"

definition disable_button :: "nat \<Rightarrow> bool \<Rightarrow> buttons \<Rightarrow> buttons" where
  "disable_button i v = at_button i (set_off v)"

text \<open>
  The reset of a form: the browser gives each input its default (checking a radio button takes the check from the others of its name),
  and a timer of one millisecond, in which nothing else happens here, refreshes every button in the form.
\<close>

definition check_input :: "nat \<Rightarrow> bool \<Rightarrow> buttons \<Rightarrow> buttons" where
  "check_input i v s =
     (let b = all s ! i
      in s\<lparr>all := map_nth (\<lambda>j c. if j = i then c\<lparr>b_checked := v\<rparr>
           else if v \<and> b_kind b = Radio \<and> b_kind c = Radio \<and> in_group b c then c\<lparr>b_checked := False\<rparr> else c) (all s)\<rparr>)"

definition in_form :: "nat \<Rightarrow> buttons \<Rightarrow> nat list" where
  "in_form f s = filter (\<lambda>i. b_form (all s ! i) = Some f) [0..<length (all s)]"

definition reset_inputs :: "nat \<Rightarrow> buttons \<Rightarrow> buttons" where
  "reset_inputs f s = fold (\<lambda>i t. check_input i (toggles (all t ! i) \<and> b_default (all t ! i)) t) (in_form f s) s"

definition form_reset :: "nat \<Rightarrow> buttons \<Rightarrow> buttons" where
  "form_reset f s = (let t = reset_inputs f s in fold refresh_button (in_form f t) t)"

section \<open>What the browser does\<close>

text \<open>An input that is not disabled is activated: a checkbox changes; a radio button becomes the one that is checked of those
  with its name; \<open>change\<close> is raised if anything changed.\<close>

definition activate_input :: "nat \<Rightarrow> buttons \<Rightarrow> buttons" where
  "activate_input i s =
     (let b = all s ! i
      in if b_disabled b then s
         else case b_kind b of
           Checkbox \<Rightarrow> change_button i (at_button i (\<lambda>c. c\<lparr>b_checked := \<not> b_checked c\<rparr>) s)
         | Radio \<Rightarrow>
             if b_checked b then s
             else change_button i (s\<lparr>all := map_nth (\<lambda>j c. if j = i then c\<lparr>b_checked := True\<rparr>
                 else if b_kind c = Radio \<and> in_group b c then c\<lparr>b_checked := False\<rparr> else c) (all s)\<rparr>)
         | _ \<Rightarrow> s)"

definition user_clicks :: "nat \<Rightarrow> buttons \<Rightarrow> buttons" where
  "user_clicks i s = (case click_button i s of (s', through) \<Rightarrow> if through then activate_input i s' else s')"

datatype button_event =
    Enter nat | Leave nat | Focus nat | Blur nat
  | Down nat "int \<times> int" | Up "nat option" "int \<times> int" | Click nat
  | KeyDown nat int | KeyUp nat | KeyToggle nat
  | Disable nat bool | Refresh nat | FormReset nat

definition button_step :: "button_event \<Rightarrow> buttons \<Rightarrow> buttons" where
  "button_step e s =
     (case e of
        Enter i \<Rightarrow> mouse_enter i s
      | Leave i \<Rightarrow> mouse_leave i s
      | Focus i \<Rightarrow> focus_button i s
      | Blur i \<Rightarrow> blur_button i s
      | Down i p \<Rightarrow> press_button i p s
      | Up at p \<Rightarrow> mouse_up at p s
      | Click i \<Rightarrow> user_clicks i s
      | KeyDown i k \<Rightarrow> key_down i k s
      | KeyUp i \<Rightarrow> key_up i s
      | KeyToggle i \<Rightarrow> activate_input i s
      | Disable i v \<Rightarrow> disable_button i v s
      | Refresh i \<Rightarrow> refresh_button i s
      | FormReset f \<Rightarrow> form_reset f s)"

section \<open>The face of a button\<close>

text \<open>\<open>_resetButton\<close>: an input gets its label as value; another button gets its label in a span between its icons, classes
  that say what it shows, and its text as title if the text is not shown.  An icon that is not set is empty.\<close>

record face_options =
  f_text :: bool
  f_label :: string
  f_primary :: string
  f_secondary :: string

datatype piece = IconPrimary string | Words string | IconSecondary string

record face =
  f_value :: string
  f_pieces :: "piece list"
  f_classes :: "string list"
  f_title :: "string option"

definition type_classes :: "string list" where
  "type_classes = [''ui-button-icons-only'', ''ui-button-icon-only'', ''ui-button-text-icons'', ''ui-button-text-icon-primary'',
     ''ui-button-text-icon-secondary'', ''ui-button-text-only'']"

definition face_classes :: "face_options \<Rightarrow> string list" where
  "face_classes opts =
     (let p = (f_primary opts \<noteq> []); q = (f_secondary opts \<noteq> [])
      in if p \<or> q
         then (if f_text opts then [''ui-button-text-icon'' @ (if p \<and> q then ''s'' else if p then ''-primary'' else ''-secondary'')] else [])
            @ (if \<not> f_text opts then [if p \<and> q then ''ui-button-icons-only'' else ''ui-button-icon-only''] else [])
         else [''ui-button-text-only''])"

definition reset_face :: "kind \<Rightarrow> bool \<Rightarrow> (string \<Rightarrow> string) \<Rightarrow> face_options \<Rightarrow> face \<Rightarrow> face" where
  "reset_face k has_title text_of opts f =
     (if k = Input then (if f_label opts \<noteq> [] then f\<lparr>f_value := f_label opts\<rparr> else f)
      else
        let p = (f_primary opts \<noteq> []); q = (f_secondary opts \<noteq> [])
        in f\<lparr>f_pieces := (if p then [IconPrimary (f_primary opts)] else []) @ [Words (f_label opts)]
               @ (if q then [IconSecondary (f_secondary opts)] else []),
             f_classes := filter (\<lambda>c. c \<notin> set type_classes) (f_classes f) @ face_classes opts,
             f_title := (if (p \<or> q) \<and> \<not> f_text opts \<and> \<not> has_title then Some (text_of (f_label opts)) else f_title f)\<rparr>)"

text \<open>A set of buttons: the corners of each that are round, and the option \<open>disabled\<close> handed on to each.\<close>

definition set_corners :: "bool \<Rightarrow> nat \<Rightarrow> nat \<Rightarrow> string list" where
  "set_corners rtl n i =
     (if i = 0 then [if rtl then ''ui-corner-right'' else ''ui-corner-left''] else [])
     @ (if Suc i = n then [if rtl then ''ui-corner-left'' else ''ui-corner-right''] else [])"

definition refresh_set :: "nat list \<Rightarrow> buttons \<Rightarrow> buttons" where
  "refresh_set items s = fold refresh_button items s"

definition disable_set :: "nat list \<Rightarrow> bool \<Rightarrow> buttons \<Rightarrow> buttons" where
  "disable_set items v s = fold (\<lambda>i. disable_button i v) items s"

section \<open>What stays as it is\<close>

lemma length_map_nth [simp]: "length (map_nth f xs) = length xs"
  by (simp add: map_nth_def)

lemma nth_map_nth [simp]: "j < length xs \<Longrightarrow> map_nth f xs ! j = f j (xs ! j)"
  by (simp add: map_nth_def)

lemma all_at_button [simp]: "all (at_button i f s) = map_nth (\<lambda>j b. if j = i then f b else b) (all s)"
  "last_active (at_button i f s) = last_active s" "click_dragged (at_button i f s) = click_dragged s"
  by (simp_all add: at_button_def)

lemma in_group_trans: "in_group a b \<Longrightarrow> in_group a c \<Longrightarrow> in_group b c"
  by (simp add: in_group_def)

text \<open>A toggle looks as its input is; the page is in order.\<close>

definition in_sync :: "button \<Rightarrow> bool" where
  "in_sync b \<longleftrightarrow> (toggles b \<longrightarrow> b_active b = b_checked b \<and> b_pressed b = Some (b_checked b))"

definition names_ok :: "button list \<Rightarrow> bool" where
  "names_ok bs \<longleftrightarrow> (\<forall>i < length bs. b_kind (bs ! i) = Radio \<longrightarrow>
     b_name (bs ! i) \<noteq> [] \<and> (\<forall>j < length bs. in_group (bs ! i) (bs ! j) \<longrightarrow> b_kind (bs ! j) = Radio))"

definition one_checked :: "button list \<Rightarrow> bool" where
  "one_checked bs \<longleftrightarrow> (\<forall>i < length bs. \<forall>j < length bs. b_kind (bs ! i) = Radio \<longrightarrow> in_group (bs ! i) (bs ! j) \<longrightarrow>
     b_checked (bs ! i) \<longrightarrow> b_checked (bs ! j) \<longrightarrow> i = j)"

lemma group_namesD:
  "names_ok bs \<Longrightarrow> b_kind (bs ! i) = Radio \<Longrightarrow> in_group (bs ! i) (bs ! j) \<Longrightarrow> i < length bs \<Longrightarrow> j < length bs \<Longrightarrow> b_kind (bs ! j) = Radio"
  "names_ok bs \<Longrightarrow> b_kind (bs ! i) = Radio \<Longrightarrow> i < length bs \<Longrightarrow> b_name (bs ! i) \<noteq> []"
  unfolding names_ok_def by blast+

lemma one_checkedD:
  "one_checked bs \<Longrightarrow> b_kind (bs ! i) = Radio \<Longrightarrow> in_group (bs ! i) (bs ! j) \<Longrightarrow> b_checked (bs ! i) \<Longrightarrow> b_checked (bs ! j) \<Longrightarrow>
   i < length bs \<Longrightarrow> j < length bs \<Longrightarrow> i = j"
  unfolding one_checked_def by blast

definition buttons_ok :: "buttons \<Rightarrow> bool" where
  "buttons_ok s \<longleftrightarrow> names_ok (all s) \<and> one_checked (all s) \<and>
     (\<forall>i < length (all s). in_sync (all s ! i) \<and> b_off (all s ! i) = b_disabled (all s ! i)) \<and>
     (\<forall>i < length (all s). last_active s = Some i \<longrightarrow> \<not> toggles (all s ! i))"

text \<open>What is neither checked nor named is kept by a change of single buttons.\<close>

definition same_input :: "button \<Rightarrow> button \<Rightarrow> bool" where
  "same_input b c \<longleftrightarrow> b_kind c = b_kind b \<and> b_name c = b_name b \<and> b_form c = b_form b"

lemma same_input_group: "same_input b b' \<Longrightarrow> same_input c c' \<Longrightarrow> in_group b' c' = in_group b c"
  by (simp add: same_input_def in_group_def)

lemma names_ok_map:
  assumes "\<And>j b. same_input b (g j b)"
  shows "names_ok (map_nth g bs) = names_ok bs"
proof -
  have k: "b_kind (g j b) = b_kind b" "b_name (g j b) = b_name b" for j b using assms [of b j] by (auto simp: same_input_def)
  have "in_group (g i b) (g j c) = in_group b c" for i j b c using assms by (rule same_input_group) (rule assms)
  then show ?thesis by (simp add: names_ok_def k)
qed

lemma one_checked_map:
  assumes "\<And>j b. same_input b (g j b) \<and> b_checked (g j b) = b_checked b"
  shows "one_checked (map_nth g bs) = one_checked bs"
proof -
  have k: "b_kind (g j b) = b_kind b" "b_checked (g j b) = b_checked b" for j b using assms [of b j] by (auto simp: same_input_def)
  have "in_group (g i b) (g j c) = in_group b c" for i j b c using assms by (intro same_input_group) auto
  then show ?thesis by (simp add: one_checked_def k)
qed

text \<open>A page with the same buttons, but for their looks, is in order if each of them is.\<close>

definition button_ok :: "button \<Rightarrow> bool" where
  "button_ok b \<longleftrightarrow> in_sync b \<and> b_off b = b_disabled b"

lemma buttons_ok_button: "buttons_ok s \<Longrightarrow> i < length (all s) \<Longrightarrow> button_ok (all s ! i)"
  by (simp add: buttons_ok_def button_ok_def)

lemma buttons_ok_map:
  assumes "buttons_ok s" and "all s' = map_nth g (all s)"
    and "\<And>j b. same_input b (g j b) \<and> b_checked (g j b) = b_checked b"
    and "\<And>j. j < length (all s) \<Longrightarrow> button_ok (g j (all s ! j))"
    and "\<And>i. last_active s' = Some i \<Longrightarrow> last_active s = Some i \<or> \<not> toggles (all s ! i)"
  shows "buttons_ok s'"
proof -
  have n: "names_ok (map_nth g (all s)) = names_ok (all s)" by (rule names_ok_map) (use assms(3) in blast)
  have o: "one_checked (map_nth g (all s)) = one_checked (all s)" by (rule one_checked_map) (rule assms(3))
  have t: "toggles (g j b) = toggles b" for j b using assms(3) by (simp add: toggles_def same_input_def)
  have "names_ok (all s')" "one_checked (all s')" using n o assms(1) by (simp_all only: assms(2) buttons_ok_def)
  then show ?thesis using assms(1,4,5) by (auto simp: buttons_ok_def button_ok_def assms(2) t)
qed

lemmas button_facts = same_input_def in_sync_def toggles_def button_ok_def

lemma buttons_ok_cong: "all s' = all s \<Longrightarrow> last_active s' \<in> {None, last_active s} \<Longrightarrow> buttons_ok s \<Longrightarrow> buttons_ok s'"
  by (auto simp: buttons_ok_def)

lemma at_button_ok:
  assumes "buttons_ok s"
    and "\<And>b. same_input b (f b) \<and> b_checked (f b) = b_checked b"
    and "i < length (all s) \<Longrightarrow> button_ok (all s ! i) \<Longrightarrow> button_ok (f (all s ! i))"
  shows "buttons_ok (at_button i f s)"
proof (rule buttons_ok_map [OF assms(1)])
  show "all (at_button i f s) = map_nth (\<lambda>j b. if j = i then f b else b) (all s)" by simp
  show "same_input b (if j = i then f b else b) \<and> b_checked (if j = i then f b else b) = b_checked b" for j b
    using assms(2) [of b] by (auto simp: same_input_def)
  show "button_ok (if j = i then f (all s ! j) else all s ! j)" if "j < length (all s)" for j
    using that assms(3) buttons_ok_button [OF assms(1) that] by (cases "j = i") auto
qed simp

section \<open>Every handler keeps the page in order\<close>

lemma mouse_enter_ok: "buttons_ok s \<Longrightarrow> buttons_ok (mouse_enter i s)"
  unfolding mouse_enter_def
  by (rule at_button_ok, assumption) (auto simp: button_facts buttons_ok_def)

lemma mouse_leave_ok: "buttons_ok s \<Longrightarrow> buttons_ok (mouse_leave i s)"
  unfolding mouse_leave_def by (erule at_button_ok) (auto simp: button_facts)

lemma focus_ok: "buttons_ok s \<Longrightarrow> buttons_ok (focus_button i s)" "buttons_ok s \<Longrightarrow> buttons_ok (blur_button i s)"
  unfolding focus_button_def blur_button_def by (erule at_button_ok; auto simp: button_facts)+

lemma btn_key_ok: "buttons_ok s \<Longrightarrow> buttons_ok (key_down i k s)" "buttons_ok s \<Longrightarrow> buttons_ok (key_up i s)"
  unfolding key_down_def key_up_def by (erule at_button_ok; auto simp: button_facts)+

lemma btn_disable_ok: "buttons_ok s \<Longrightarrow> buttons_ok (disable_button i v s)"
  unfolding disable_button_def by (erule at_button_ok) (auto simp: button_facts set_off_def)

lemma press_ok: "buttons_ok s \<Longrightarrow> buttons_ok (press_button i p s)"
proof -
  assume ok: "buttons_ok s"
  have "buttons_ok (at_button i (b_active_update (\<lambda>_. True)) s)" if "\<not> toggles (all s ! i)"
    by (rule at_button_ok [OF ok]) (use that in \<open>auto simp: button_facts\<close>)
  then show ?thesis using ok by (auto simp: press_button_def Let_def buttons_ok_def toggles_def)
qed

lemma release_ok: "buttons_ok s \<Longrightarrow> buttons_ok (fst (release_button i p s))"
proof -
  assume ok: "buttons_ok s"
  have "buttons_ok (at_button i (b_active_update (\<lambda>_. False)) s)" if "\<not> toggles (all s ! i)"
    by (rule at_button_ok [OF ok]) (use that in \<open>auto simp: button_facts\<close>)
  then show ?thesis using ok by (auto simp: release_button_def Let_def buttons_ok_def)
qed

lemma mouse_up_ok: "buttons_ok s \<Longrightarrow> buttons_ok (mouse_up at p s)"
proof -
  assume ok: "buttons_ok s"
  have d: "buttons_ok (document_mouseup t)" if "buttons_ok t" for t
    by (rule buttons_ok_cong [OF _ _ that]) (simp_all add: document_mouseup_def)
  show ?thesis
  proof (cases at)
    case None
    then show ?thesis using d [OF ok] by (simp add: mouse_up_def)
  next
    case (Some i)
    then show ?thesis using d release_ok [OF ok, of i p] by (cases "release_button i p s") (simp add: mouse_up_def)
  qed
qed

lemma looks_id: "b_active b = v \<Longrightarrow> b_pressed b = Some v \<Longrightarrow> looks v b = b"
  by (cases b) (simp add: looks_def)

lemma refresh_button_all:
  assumes ok: "buttons_ok s" and i: "i < length (all s)"
  shows "all (refresh_button i s) = all s" and "last_active (refresh_button i s) = last_active s"
proof -
  have o: "b_disabled (all s ! i) = b_off (all s ! i)" using buttons_ok_button [OF ok i] by (simp add: button_ok_def)
  have s: "looks (b_checked (all s ! j)) (all s ! j) = all s ! j" if "j < length (all s)" "toggles (all s ! j)" for j
    using buttons_ok_button [OF ok that(1)] that(2) by (intro looks_id) (auto simp: button_facts)
  have g: "toggles (all s ! j)" if "j < length (all s)" "b_kind (all s ! i) = Radio" "in_group (all s ! i) (all s ! j)" for j
    using group_namesD(1) [OF _ that(2,3) i that(1)] ok by (simp add: buttons_ok_def toggles_def)
  show "all (refresh_button i s) = all s"
  proof (cases "b_kind (all s ! i)")
    case Checkbox
    then have "toggles (all s ! i)" by (simp add: toggles_def)
    then show ?thesis using Checkbox o s [OF i] by (auto simp: refresh_button_def Let_def intro!: nth_equalityI)
  next
    case Radio
    then show ?thesis using o s g by (auto simp: refresh_button_def Let_def intro!: nth_equalityI)
  qed (use o in \<open>auto simp: refresh_button_def Let_def\<close>)
  show "last_active (refresh_button i s) = last_active s" by (simp add: refresh_button_def Let_def split: kind.split)
qed

lemma btn_refresh_ok: "buttons_ok s \<Longrightarrow> i < length (all s) \<Longrightarrow> buttons_ok (refresh_button i s)"
  by (rule buttons_ok_cong) (simp_all add: refresh_button_all)

text \<open>A page in order but for the looks of some of its buttons, and for forms that stay as they are.\<close>

definition synced_but :: "nat set \<Rightarrow> nat option list \<Rightarrow> buttons \<Rightarrow> bool" where
  "synced_but T forms s \<longleftrightarrow> names_ok (all s) \<and> one_checked (all s) \<and> map b_form (all s) = forms \<and>
     (\<forall>i < length (all s). (i \<notin> T \<longrightarrow> in_sync (all s ! i)) \<and> b_off (all s ! i) = b_disabled (all s ! i)) \<and>
     (\<forall>i < length (all s). last_active s = Some i \<longrightarrow> \<not> toggles (all s ! i))"

lemma synced_all: "buttons_ok s \<longleftrightarrow> synced_but {} (map b_form (all s)) s"
  by (simp add: buttons_ok_def synced_but_def)

lemma synced_mono: "synced_but T forms s \<Longrightarrow> T \<subseteq> U \<Longrightarrow> synced_but U forms s"
  by (auto simp: synced_but_def)

lemma synced_refresh:
  assumes ok: "synced_but T forms s" and i: "i < length (all s)"
  shows "synced_but (T - {i}) forms (refresh_button i s)"
proof -
  define g where "g = (\<lambda>j c. if b_kind (all s ! i) = Radio \<and> in_group (all s ! i) c \<or> b_kind (all s ! i) = Checkbox \<and> j = i
    then looks (b_checked c) c else c)"
  note a = ok [unfolded synced_but_def]
  have "b_disabled (all s ! i) = b_off (all s ! i)" using a i by simp
  then have e: "all (refresh_button i s) = map_nth g (all s)" "last_active (refresh_button i s) = last_active s"
    by (auto simp: refresh_button_def Let_def g_def intro!: nth_equalityI split: kind.split)
  have g: "same_input c (g j c) \<and> b_checked (g j c) = b_checked c" "toggles (g j c) = toggles c" "b_off (g j c) = b_off c"
    "b_disabled (g j c) = b_disabled c" "in_sync c \<Longrightarrow> in_sync (g j c)" "b_form (g j c) = b_form c" for j c
    by (simp_all add: g_def looks_def button_facts)
  have "in_sync (g i (all s ! i))"
    using group_namesD(2) [of "all s" i] a i by (auto simp: g_def looks_def in_sync_def toggles_def in_group_def)
  moreover have "names_ok (map_nth g (all s))" "one_checked (map_nth g (all s))"
    using names_ok_map [of g "all s"] one_checked_map [of g "all s"] g(1) a by blast+
  moreover have "map b_form (map_nth g (all s)) = forms" using a g(6) by (auto intro!: nth_equalityI)
  ultimately show ?thesis using a g(2-5) unfolding synced_but_def e by auto
qed

lemma synced_refreshes:
  "synced_but T forms s \<Longrightarrow> set is \<subseteq> {..<length forms} \<Longrightarrow> synced_but (T - set is) forms (fold refresh_button is s)"
proof (induction "is" arbitrary: s T)
  case (Cons i "is")
  then have "length (all s) = length forms" by (auto simp: synced_but_def)
  then have "synced_but (T - {i}) forms (refresh_button i s)" using Cons.prems by (intro synced_refresh) simp_all
  then have "synced_but (T - {i} - set is) forms (fold refresh_button is (refresh_button i s))" using Cons by simp
  then show ?case by (simp add: set_diff_eq Diff_insert2 [symmetric] Diff_insert)
qed simp

lemma check_keeps_one:
  assumes n: "names_ok (all s)" and o: "one_checked (all s)" and i: "i < length (all s)"
  shows "one_checked (all (check_input i v s))"
proof -
  define g where "g = (\<lambda>j c. if j = i then c\<lparr>b_checked := v\<rparr>
    else if v \<and> b_kind (all s ! i) = Radio \<and> b_kind c = Radio \<and> in_group (all s ! i) c then c\<lparr>b_checked := False\<rparr> else c)"
  have e: "all (check_input i v s) = map_nth g (all s)" by (simp add: check_input_def Let_def g_def)
  have g: "b_kind (g j c) = b_kind c" "in_group (g j c) (g k d) = in_group c d" for j k c d
    by (simp_all add: g_def in_group_def)
  have "j = k" if j: "j < length (all s)" "k < length (all s)" "b_kind (all s ! j) = Radio" "in_group (all s ! j) (all s ! k)"
    "b_checked (g j (all s ! j))" "b_checked (g k (all s ! k))" for j k
  proof (rule ccontr)
    assume ne: "j \<noteq> k"
    have k: "b_kind (all s ! k) = Radio" by (rule group_namesD(1) [OF n j(3,4,1,2)])
    have old: "\<not> (b_checked (all s ! j) \<and> b_checked (all s ! k))" using one_checkedD [OF o j(3,4) _ _ j(1,2)] ne by blast
    have "in_group (all s ! k) (all s ! j)" using j(4) by (auto simp: in_group_def)
    then show False using j(3-6) k ne old by (auto simp: g_def split: if_splits)
  qed
  then show ?thesis unfolding e one_checked_def by (simp add: g)
qed

lemma synced_check:
  assumes ok: "synced_but T forms s" and i: "i < length (all s)"
    and T: "\<And>j. j < length (all s) \<Longrightarrow> b_form (all s ! j) = b_form (all s ! i) \<Longrightarrow> j \<in> T"
  shows "synced_but T forms (check_input i v s)"
proof -
  define g where "g = (\<lambda>j c. if j = i then c\<lparr>b_checked := v\<rparr>
    else if v \<and> b_kind (all s ! i) = Radio \<and> b_kind c = Radio \<and> in_group (all s ! i) c then c\<lparr>b_checked := False\<rparr> else c)"
  have e: "all (check_input i v s) = map_nth g (all s)" "last_active (check_input i v s) = last_active s"
    by (simp_all add: check_input_def Let_def g_def)
  note a = ok [unfolded synced_but_def]
  have g: "same_input c (g j c)" "toggles (g j c) = toggles c" "b_off (g j c) = b_off c" "b_disabled (g j c) = b_disabled c"
    "b_form (g j c) = b_form c" for j c
    by (simp_all add: g_def button_facts)
  have "in_sync (g j (all s ! j))" if "j < length (all s)" "j \<notin> T" for j
  proof -
    have "j \<noteq> i" "\<not> in_group (all s ! i) (all s ! j)" using T that i by (auto simp: in_group_def)
    then show ?thesis using a that by (simp add: g_def)
  qed
  moreover have "names_ok (map_nth g (all s))" using names_ok_map [of g "all s"] g(1) a by blast
  moreover have "one_checked (map_nth g (all s))" using check_keeps_one [of s i v] a i by (simp add: e)
  moreover have "map b_form (map_nth g (all s)) = forms" using a g(5) by (auto intro!: nth_equalityI)
  ultimately show ?thesis using a g(2-4) unfolding synced_but_def e by simp
qed

lemma synced_checks:
  "synced_but T forms s \<Longrightarrow> T = {j. j < length forms \<and> forms ! j = Some f} \<Longrightarrow> set is \<subseteq> T \<Longrightarrow>
   synced_but T forms (fold (\<lambda>i t. check_input i (v i t) t) is s)"
proof (induction "is" arbitrary: s)
  case (Cons i "is")
  have "map b_form (all s) = forms" using Cons.prems(1) by (simp add: synced_but_def)
  then have "length (all s) = length forms" "\<And>j. j < length forms \<Longrightarrow> b_form (all s ! j) = forms ! j" by auto
  then have "synced_but T forms (check_input i (v i s) s)" using Cons.prems by (intro synced_check) auto
  then show ?case using Cons by simp
qed simp

lemma form_reset_ok: "buttons_ok s \<Longrightarrow> buttons_ok (form_reset f s)"
proof -
  assume ok: "buttons_ok s"
  define forms where "forms = map b_form (all s)"
  define T where "T = {j. j < length forms \<and> forms ! j = Some f}"
  have set: "set (in_form f t) = T" if "map b_form (all t) = forms" for t
    using that by (auto simp: in_form_def T_def)
  have "synced_but T forms s" using ok synced_mono [of "{}"] by (simp add: synced_all forms_def)
  then have r: "synced_but T forms (reset_inputs f s)"
    unfolding reset_inputs_def by (rule synced_checks [OF _ T_def]) (simp add: set forms_def)
  then have "set (in_form f (reset_inputs f s)) = T" by (intro set) (simp add: synced_but_def)
  then have "synced_but {} forms (form_reset f s)"
    using synced_refreshes [OF r, of "in_form f (reset_inputs f s)"] by (auto simp: form_reset_def Let_def T_def)
  then show ?thesis by (simp add: synced_all) (simp add: synced_but_def)
qed

text \<open>After a reset the checkboxes of the form have their defaults.\<close>

lemma reset_checkbox:
  assumes "i < length (all s)" and "b_kind (all s ! i) = Checkbox" and "b_form (all s ! i) = Some f"
  shows "b_checked (all (reset_inputs f s) ! i) = b_default (all s ! i)"
proof -
  let ?c = "\<lambda>i t. check_input i (toggles (all t ! i) \<and> b_default (all t ! i)) t"
  have step: "b_kind (all (check_input j v t) ! i) = b_kind (all t ! i) \<and> b_default (all (check_input j v t) ! i) = b_default (all t ! i) \<and>
      length (all (check_input j v t)) = length (all t) \<and>
      (b_kind (all t ! i) = Checkbox \<longrightarrow> b_checked (all (check_input j v t) ! i) = (if j = i then v else b_checked (all t ! i)))"
    if "i < length (all t)" for j v t
    using that by (simp add: check_input_def Let_def)
  have "b_checked (all (fold ?c is t) ! i) = (if i \<in> set is then b_default (all t ! i) else b_checked (all t ! i))"
    if "i < length (all t)" "b_kind (all t ! i) = Checkbox" for "is" t
    using that
  proof (induction "is" arbitrary: t)
    case (Cons j "is")
    then show ?case using step [of t j "toggles (all t ! j) \<and> b_default (all t ! j)"] by (auto simp: toggles_def)
  qed simp
  moreover have "i \<in> set (in_form f s)" using assms by (simp add: in_form_def)
  ultimately show ?thesis using assms(1,2) by (simp add: reset_inputs_def)
qed

section \<open>Clicks\<close>

text \<open>The inputs after \<open>activate_input\<close>, and the page when \<open>change\<close> has been handled.\<close>

definition activated :: "nat \<Rightarrow> button \<Rightarrow> nat \<Rightarrow> button \<Rightarrow> button" where
  "activated i b j c =
     (if j = i then looks (b_kind b = Radio \<or> \<not> b_checked c) (c\<lparr>b_checked := (b_kind b = Radio \<or> \<not> b_checked c)\<rparr>)
      else if b_kind b = Radio \<and> in_group b c then looks False (c\<lparr>b_checked := False\<rparr>) else c)"

lemma activate_input_all:
  assumes n: "names_ok (all s)" and i: "i < length (all s)" and t: "toggles (all s ! i)"
    and d: "\<not> click_dragged s" "b_off (all s ! i) = b_disabled (all s ! i)" "\<not> b_disabled (all s ! i)"
    and c: "b_kind (all s ! i) = Checkbox \<or> \<not> b_checked (all s ! i)"
  shows "all (activate_input i s) = map_nth (activated i (all s ! i)) (all s)"
    and "last_active (activate_input i s) = last_active s"
proof -
  have k: "b_kind (all s ! i) = Checkbox \<or> b_kind (all s ! i) = Radio" using t by (auto simp: toggles_def)
  then show "last_active (activate_input i s) = last_active s"
    by (auto simp: activate_input_def Let_def change_button_def refresh_button_def split: kind.split)
  show "all (activate_input i s) = map_nth (activated i (all s ! i)) (all s)"
    using k
  proof
    assume k: "b_kind (all s ! i) = Checkbox"
    show ?thesis using i d k
      by (intro nth_equalityI) (auto simp: activate_input_def Let_def change_button_def refresh_button_def activated_def)
  next
    assume k: "b_kind (all s ! i) = Radio"
    have g: "b_kind (all s ! j) = Radio" if "j < length (all s)" "in_group (all s ! i) (all s ! j)" for j
      by (rule group_namesD(1) [OF n k that(2) i that(1)])
    have n: "b_name (all s ! i) \<noteq> []" by (rule group_namesD(2) [OF n k i])
    let ?m = "map_nth (\<lambda>j c. if j = i then c\<lparr>b_checked := True\<rparr>
        else if b_kind c = Radio \<and> in_group (all s ! i) c then c\<lparr>b_checked := False\<rparr> else c) (all s)"
    have a: "activate_input i s = refresh_button i (s\<lparr>all := ?m\<rparr>)"
      using k c d(1,3) by (simp add: activate_input_def Let_def change_button_def)
    have m: "?m ! i = (all s ! i)\<lparr>b_checked := True\<rparr>" using i by simp
    have r: "refresh_button i (s\<lparr>all := ?m\<rparr>) = s\<lparr>all := map (\<lambda>c. if in_group (all s ! i) c then looks (b_checked c) c else c) ?m\<rparr>"
      unfolding refresh_button_def Let_def using m k d(2) by (simp add: in_group_def)
    have h: "in_group (all s ! i) (c\<lparr>b_checked := v\<rparr>) = in_group (all s ! i) c" for c v by (simp add: in_group_def)
    have u: "in_group (all s ! i) (all s ! i)" using n by (simp add: in_group_def)
    show ?thesis unfolding a r
    proof (rule nth_equalityI)
      fix j assume "j < length (all (s\<lparr>all := map (\<lambda>c. if in_group (all s ! i) c then looks (b_checked c) c else c) ?m\<rparr>))"
      then have j: "j < length (all s)" by simp
      then show "all (s\<lparr>all := map (\<lambda>c. if in_group (all s ! i) c then looks (b_checked c) c else c) ?m\<rparr>) ! j =
          map_nth (activated i (all s ! i)) (all s) ! j"
        using k u g [OF j] by (cases "j = i") (simp_all add: activated_def h looks_def)
    qed simp
  qed
qed

lemma activated_ok:
  assumes n: "names_ok (all s)" and o: "one_checked (all s)" and i: "i < length (all s)" and t: "toggles (all s ! i)"
    and b: "\<And>j. j < length (all s) \<Longrightarrow> b_off (all s ! j) = b_disabled (all s ! j)"
    and y: "\<And>j. j < length (all s) \<Longrightarrow> j \<noteq> i \<Longrightarrow> \<not> in_group (all s ! i) (all s ! j) \<or> b_kind (all s ! i) = Checkbox \<Longrightarrow> in_sync (all s ! j)"
    and l: "\<And>j. j < length (all s) \<Longrightarrow> last_active s = Some j \<Longrightarrow> \<not> toggles (all s ! j)"
    and s': "all s' = map_nth (activated i (all s ! i)) (all s)" "last_active s' = last_active s"
  shows "buttons_ok s'"
proof -
  let ?g = "activated i (all s ! i)"
  have g: "same_input c (?g j c)" for j c by (simp add: activated_def same_input_def looks_def)
  then have n': "names_ok (all s')" unfolding s' using n by (simp add: names_ok_map)
  have h: "in_group (?g j c) (?g k e) = in_group c e" for j k c e using g by (intro same_input_group)
  have k: "b_kind (?g j c) = b_kind c" "toggles (?g j c) = toggles c" for j c using g by (auto simp: same_input_def toggles_def)
  have c: "b_checked (?g j c) = (if j = i then b_kind (all s ! i) = Radio \<or> \<not> b_checked c
      else b_checked c \<and> \<not> (b_kind (all s ! i) = Radio \<and> in_group (all s ! i) c))" for j c
    by (simp add: activated_def looks_def)
  have "one_checked (all s')"
  proof -
    have "j = k" if j: "j < length (all s)" "k < length (all s)" "b_kind (all s ! j) = Radio" "in_group (all s ! j) (all s ! k)"
      "b_checked (?g j (all s ! j))" "b_checked (?g k (all s ! k))" for j k
    proof -
      have r: "b_kind (all s ! k) = Radio" by (rule group_namesD(1) [OF n j(3,4,1,2)])
      have e: "j = k" if "b_checked (all s ! j)" "b_checked (all s ! k)" by (rule one_checkedD [OF o j(3,4) that j(1,2)])
      have f: "in_group (all s ! i) (all s ! j)" if "k = i" using j(4) that by (auto simp: in_group_def)
      have g: "in_group (all s ! i) (all s ! k)" if "j = i" using j(4) that by simp
      show ?thesis
      proof (cases "j = i \<or> k = i")
        case True
        then show ?thesis using j(3,5,6) r f g by (auto simp: c split: if_splits)
      next
        case False
        then show ?thesis using j(5,6) e by (simp add: c)
      qed
    qed
    then show ?thesis by (simp add: one_checked_def s' h k)
  qed
  moreover have "in_sync (?g j (all s ! j)) \<and> b_off (?g j (all s ! j)) = b_disabled (?g j (all s ! j))" if "j < length (all s)" for j
  proof -
    have "in_sync (?g j (all s ! j))"
    proof (cases "j = i \<or> (b_kind (all s ! i) = Radio \<and> in_group (all s ! i) (all s ! j))")
      case True
      then show ?thesis by (auto simp: activated_def in_sync_def looks_def toggles_def)
    next
      case False
      then have "?g j (all s ! j) = all s ! j" by (auto simp: activated_def)
      moreover have "in_sync (all s ! j)" using y [OF that] False t by (auto simp: toggles_def)
      ultimately show ?thesis by simp
    qed
    moreover have "b_off (?g j c) = b_off c" "b_disabled (?g j c) = b_disabled c" for c by (simp_all add: activated_def looks_def)
    ultimately show ?thesis using b [OF that] by simp
  qed
  moreover have "\<not> toggles (?g j (all s ! j))" if "j < length (all s)" "last_active s = Some j" for j
    using l [OF that] by (simp add: k)
  ultimately show ?thesis using n' by (simp add: buttons_ok_def s')
qed

lemma activate_ok:
  assumes ok: "buttons_ok s" and i: "i < length (all s)" and d: "\<not> click_dragged s"
  shows "buttons_ok (activate_input i s)"
proof -
  have o: "b_off (all s ! i) = b_disabled (all s ! i)" using buttons_ok_button [OF ok i] by (simp add: button_ok_def)
  show ?thesis
  proof (cases "toggles (all s ! i) \<and> \<not> b_disabled (all s ! i) \<and> (b_kind (all s ! i) = Checkbox \<or> \<not> b_checked (all s ! i))")
    case True
    have n: "names_ok (all s)" "one_checked (all s)" using ok by (simp_all add: buttons_ok_def)
    show ?thesis
      by (rule activated_ok [OF n i])
        (use True activate_input_all [OF n(1) i _ d o] ok in \<open>auto simp: buttons_ok_def\<close>)
  next
    case False
    then have "activate_input i s = s" by (auto simp: activate_input_def Let_def toggles_def split: kind.split)
    then show ?thesis using ok by simp
  qed
qed

lemma click_checkbox_ok:
  assumes ok: "buttons_ok s" and i: "i < length (all s)" and k: "b_kind (all s ! i) = Checkbox"
  shows "buttons_ok (user_clicks i s)"
proof (cases "b_off (all s ! i) \<or> click_dragged s")
  case True
  then show ?thesis using ok k by (simp add: user_clicks_def click_button_def click_checkbox_def)
next
  case False
  let ?f = "\<lambda>b. b\<lparr>b_active := \<not> b_active b, b_pressed := Some (b_checked b)\<rparr>"
  let ?t = "at_button i ?f s"
  have u: "user_clicks i s = activate_input i ?t" using False k by (simp add: user_clicks_def click_button_def click_checkbox_def)
  have n: "names_ok (all ?t)" "one_checked (all ?t)"
    using names_ok_map [of "\<lambda>j b. if j = i then ?f b else b" "all s"] one_checked_map [of "\<lambda>j b. if j = i then ?f b else b" "all s"] ok
    by (simp_all add: same_input_def buttons_ok_def)
  have o: "b_off (all s ! i) = b_disabled (all s ! i)" using buttons_ok_button [OF ok i] by (simp add: button_ok_def)
  have a: "all (activate_input i ?t) = map_nth (activated i (all ?t ! i)) (all ?t)" "last_active (activate_input i ?t) = last_active ?t"
    by (rule activate_input_all [OF n(1)]; use i k False o in \<open>simp add: toggles_def\<close>)+
  show ?thesis unfolding u
  proof (rule activated_ok [OF n _ _ _ _ _ a])
    show "in_sync (all ?t ! j)" if "j < length (all ?t)" "j \<noteq> i" for j
      using ok that by (simp add: buttons_ok_def)
    show "b_off (all ?t ! j) = b_disabled (all ?t ! j)" if "j < length (all ?t)" for j
      using buttons_ok_button [OF ok, of j] that by (auto simp: button_ok_def)
    show "\<not> toggles (all ?t ! j)" if "j < length (all ?t)" "last_active ?t = Some j" for j
      using ok that by (auto simp: buttons_ok_def toggles_def)
  qed (use i k in \<open>simp_all add: toggles_def\<close>)
qed

lemma click_radio_ok:
  assumes ok: "buttons_ok s" and i: "i < length (all s)" and k: "b_kind (all s ! i) = Radio"
  shows "buttons_ok (user_clicks i s)"
proof (cases "b_off (all s ! i) \<or> click_dragged s")
  case True
  then show ?thesis using ok k by (simp add: user_clicks_def click_button_def click_radio_def)
next
  case False
  let ?f = "\<lambda>j b. if j = i then looks True b else if in_group (all s ! i) b then looks False b else b"
  let ?t = "s\<lparr>all := map_nth ?f (all s)\<rparr>"
  have u: "user_clicks i s = activate_input i ?t" using False k by (simp add: user_clicks_def click_button_def click_radio_def)
  have s: "same_input b (?f j b) \<and> b_checked (?f j b) = b_checked b" for j b by (simp add: same_input_def looks_def)
  have n: "names_ok (all ?t)" "one_checked (all ?t)"
    using names_ok_map [of ?f "all s"] one_checked_map [of ?f "all s"] s ok by (simp_all add: buttons_ok_def)
  have o: "b_off (all s ! i) = b_disabled (all s ! i)" using buttons_ok_button [OF ok i] by (simp add: button_ok_def)
  have g: "in_group (all ?t ! i) = in_group (all s ! i)" using i by (simp add: in_group_def looks_def fun_eq_iff)
  have sync: "in_sync (all s ! j)" if "j < length (all s)" for j using buttons_ok_button [OF ok that] by (simp add: button_ok_def)
  show ?thesis
  proof (cases "b_checked (all s ! i)")
    case True
    have "activate_input i ?t = ?t" using i True k False o by (simp add: activate_input_def Let_def looks_def)
    moreover have "all ?t = all s"
    proof (rule nth_equalityI)
      fix j assume "j < length (all ?t)"
      then have j: "j < length (all s)" by simp
      have "\<not> b_checked (all s ! j)" if "j \<noteq> i" "in_group (all s ! i) (all s ! j)"
        using one_checkedD [of "all s" i j] ok k that True i j by (auto simp: buttons_ok_def)
      moreover have "toggles (all s ! j)" if "in_group (all s ! i) (all s ! j)"
        using group_namesD(1) [OF _ k that i j] ok by (simp add: buttons_ok_def toggles_def)
      ultimately have "?f j (all s ! j) = all s ! j" using sync [OF j] True k by (auto intro!: looks_id simp: in_sync_def toggles_def)
      then show "all ?t ! j = all s ! j" using j by simp
    qed simp
    ultimately show ?thesis using buttons_ok_cong [of ?t s] ok by (simp add: u)
  next
    case c: False
    have a: "all (activate_input i ?t) = map_nth (activated i (all ?t ! i)) (all ?t)" "last_active (activate_input i ?t) = last_active ?t"
      by (rule activate_input_all [OF n(1)]; use i k False o c in \<open>simp add: toggles_def looks_def\<close>)+
    show ?thesis unfolding u
    proof (rule activated_ok [OF n _ _ _ _ _ a])
      show "in_sync (all ?t ! j)" if j: "j < length (all ?t)" "j \<noteq> i"
        "\<not> in_group (all ?t ! i) (all ?t ! j) \<or> b_kind (all ?t ! i) = Checkbox" for j
      proof -
        have "\<not> in_group (all s ! i) (all s ! j)" using j i k by (auto simp: in_group_def looks_def)
        then show ?thesis using j sync by simp
      qed
      show "b_off (all ?t ! j) = b_disabled (all ?t ! j)" if "j < length (all ?t)" for j
        using buttons_ok_button [OF ok, of j] that by (auto simp: button_ok_def looks_def)
      show "\<not> toggles (all ?t ! j)" if "j < length (all ?t)" "last_active ?t = Some j" for j
        using ok that by (auto simp: buttons_ok_def toggles_def looks_def)
    qed (use i k in \<open>simp_all add: toggles_def looks_def\<close>)
  qed
qed

lemma user_clicks_ok: "buttons_ok s \<Longrightarrow> i < length (all s) \<Longrightarrow> buttons_ok (user_clicks i s)"
proof (cases "b_kind (all s ! i)")
  case Checkbox
  then show "buttons_ok s \<Longrightarrow> i < length (all s) \<Longrightarrow> ?thesis" using click_checkbox_ok by blast
next
  case Radio
  then show "buttons_ok s \<Longrightarrow> i < length (all s) \<Longrightarrow> ?thesis" using click_radio_ok by blast
qed (simp_all add: user_clicks_def click_button_def activate_input_def Let_def)

section \<open>Pages that are used\<close>

text \<open>Any events on a page of new buttons, but the keyboard does not change an input while \<open>clickDragged\<close> is set.\<close>

fun event_allowed :: "button_event \<Rightarrow> buttons \<Rightarrow> bool" where
  "event_allowed (Click i) s = (i < length (all s))"
| "event_allowed (KeyToggle i) s = (i < length (all s) \<and> \<not> click_dragged s)"
| "event_allowed (Refresh i) s = (i < length (all s))"
| "event_allowed _ s = True"

inductive button_reachable :: "buttons \<Rightarrow> bool" where
  Start: "names_ok bs \<Longrightarrow> one_checked bs \<Longrightarrow> \<not> list_ex b_active bs \<Longrightarrow> length gs = length bs \<Longrightarrow>
    button_reachable \<lparr>all = map2 create_button gs bs, last_active = None, start_pos = None, click_dragged = False\<rparr>"
| Step: "button_reachable s \<Longrightarrow> event_allowed e s \<Longrightarrow> button_reachable (button_step e s)"

lemma create_button_facts:
  "same_input b (create_button g b)" "b_checked (create_button g b) = b_checked b"
  "\<not> b_active b \<Longrightarrow> button_ok (create_button g b)"
  by (cases g; simp add: create_button_def same_input_def Let_def set_off_def button_ok_def in_sync_def toggles_def)+

lemma start_buttons_ok:
  assumes "names_ok bs" "one_checked bs" "\<not> list_ex b_active bs" "length gs = length bs" "all s = map2 create_button gs bs" "last_active s = None"
  shows "buttons_ok s"
proof -
  have m: "map2 create_button gs bs = map_nth (\<lambda>j b. create_button (gs ! j) b) bs"
    using assms(4) by (intro nth_equalityI) simp_all
  have "names_ok (all s)" "one_checked (all s)"
    using assms(1,2) names_ok_map [of "\<lambda>j. create_button (gs ! j)" bs] one_checked_map [of "\<lambda>j. create_button (gs ! j)" bs]
    by (simp_all add: assms(5) m create_button_facts)
  moreover have "button_ok (all s ! j)" if "j < length bs" for j
    using assms(3,4) that by (simp add: assms(5) create_button_facts(3) list_ex_iff)
  ultimately show ?thesis using assms(4,5,6) by (simp add: buttons_ok_def button_ok_def)
qed

lemma button_step_ok: "buttons_ok s \<Longrightarrow> event_allowed e s \<Longrightarrow> buttons_ok (button_step e s)"
  by (cases e) (simp_all add: button_step_def mouse_enter_ok mouse_leave_ok focus_ok press_ok mouse_up_ok user_clicks_ok btn_key_ok
    activate_ok btn_disable_ok btn_refresh_ok form_reset_ok)

lemma button_reachable_ok: "button_reachable s \<Longrightarrow> buttons_ok s"
  by (induction rule: button_reachable.induct) (auto intro: button_step_ok start_buttons_ok)


section \<open>Radio buttons as a view\<close>

text \<open>A click with the mouse on a radio button, and the radio buttons of a name that look pressed.\<close>

definition pick_radio :: "nat \<Rightarrow> buttons \<Rightarrow> buttons" where
  "pick_radio i s = user_clicks i (press_button i (0, 0) s)"

definition radios_of :: "string \<Rightarrow> nat option \<Rightarrow> buttons \<Rightarrow> nat set" where
  "radios_of n f s = (if buttons_ok s
     then {i. i < length (all s) \<and> b_kind (all s ! i) = Radio \<and> b_name (all s ! i) = n \<and> b_form (all s ! i) = f \<and> \<not> b_off (all s ! i)} else {})"

definition radios_shown :: "string \<Rightarrow> nat option \<Rightarrow> buttons \<Rightarrow> nat set" where
  "radios_shown n f s =
     {i. i < length (all s) \<and> b_kind (all s ! i) = Radio \<and> b_name (all s ! i) = n \<and> b_form (all s ! i) = f \<and> b_active (all s ! i)}"

lemma pick_radio_all:
  assumes ok: "buttons_ok s" and i: "i < length (all s)" and k: "b_kind (all s ! i) = Radio" and d: "\<not> b_off (all s ! i)"
  shows "length (all (pick_radio i s)) = length (all s)" and "buttons_ok (pick_radio i s)"
    and "j < length (all s) \<Longrightarrow> same_input (all s ! j) (all (pick_radio i s) ! j) \<and> b_off (all (pick_radio i s) ! j) = b_off (all s ! j)"
    and "b_checked (all (pick_radio i s) ! i)"
proof -
  let ?s = "press_button i (0, 0) s"
  have p: "all ?s = all s" "\<not> click_dragged ?s" using k d by (auto simp: press_button_def Let_def toggles_def)
  have o: "\<not> b_disabled (all s ! i)" using buttons_ok_button [OF ok i] d by (simp add: button_ok_def)
  let ?f = "\<lambda>j b. if j = i then looks True b else if in_group (all s ! i) b then looks False b else b"
  let ?t = "?s\<lparr>all := map_nth ?f (all s)\<rparr>"
  have "click_radio i ?s = (?t, True)" unfolding click_radio_def p(1) using p(2) d by simp
  then have u: "pick_radio i s = activate_input i ?t"
    using k by (simp add: pick_radio_def user_clicks_def click_button_def p(1))
  show "buttons_ok (pick_radio i s)" unfolding pick_radio_def using press_ok [OF ok] by (rule user_clicks_ok) (simp add: p i)
  have t: "same_input b (?f j b) \<and> b_off (?f j b) = b_off b" for j b by (simp add: same_input_def looks_def)
  have a: "same_input b (activated i r j b) \<and> b_off (activated i r j b) = b_off b" for r j b
    by (simp add: activated_def same_input_def looks_def)
  have "length (all (activate_input i ?t)) = length (all s) \<and> b_checked (all (activate_input i ?t) ! i) \<and>
    (j < length (all s) \<longrightarrow> same_input (all s ! j) (all (activate_input i ?t) ! j) \<and> b_off (all (activate_input i ?t) ! j) = b_off (all s ! j))" for j
  proof (cases "b_checked (all s ! i)")
    case True
    then have "activate_input i ?t = ?t" using i k o by (simp add: activate_input_def Let_def looks_def)
    then show ?thesis using True i t by (simp add: looks_def)
  next
    case False
    have "names_ok (all ?t)" using names_ok_map [of ?f "all s"] t ok by (simp add: buttons_ok_def)
    then have "all (activate_input i ?t) = map_nth (activated i (all ?t ! i)) (all ?t)"
      by (rule activate_input_all) (use i k d o p False in \<open>simp_all add: toggles_def looks_def\<close>)
    moreover have "b_kind (all ?t ! i) = Radio" using i k by (simp add: looks_def)
    ultimately show ?thesis using i t a by (auto simp: same_input_def activated_def looks_def)
  qed
  then show "length (all (pick_radio i s)) = length (all s)" "b_checked (all (pick_radio i s) ! i)"
    "j < length (all s) \<Longrightarrow> same_input (all s ! j) (all (pick_radio i s) ! j) \<and> b_off (all (pick_radio i s) ! j) = b_off (all s ! j)"
    using u by simp_all
qed

interpretation rv: exclusive_view pick_radio "radios_shown n f" "radios_of n f" for n f
proof unfold_locales
  fix k s assume "k \<in> radios_of n f s"
  then have k: "buttons_ok s" "k < length (all s)" "b_kind (all s ! k) = Radio" "\<not> b_off (all s ! k)" "b_name (all s ! k) = n" "b_form (all s ! k) = f"
    by (auto simp: radios_of_def split: if_splits)
  let ?t = "pick_radio k s"
  note f = pick_radio_all [OF k(1-4)]
  have s: "b_kind (all ?t ! j) = b_kind (all s ! j)" "b_name (all ?t ! j) = b_name (all s ! j)" "b_form (all ?t ! j) = b_form (all s ! j)"
    "b_off (all ?t ! j) = b_off (all s ! j)" if "j < length (all s)" for j
    using f(3) [OF that] by (simp_all add: same_input_def)
  show "radios_of n f ?t = radios_of n f s" using k(1) f(1,2) s by (auto simp: radios_of_def)
  have n: "names_ok (all ?t)" "one_checked (all ?t)" using f(2) by (simp_all add: buttons_ok_def)
  have c: "b_active (all ?t ! j) = b_checked (all ?t ! j)" if "j < length (all s)" "b_kind (all s ! j) = Radio" for j
    using buttons_ok_button [OF f(2), of j] that s(1) [OF that(1)] f(1) by (simp add: button_facts)
  have "j = k" if j: "j < length (all s)" "b_kind (all s ! j) = Radio" "b_name (all s ! j) = n" "b_form (all s ! j) = f" "b_checked (all ?t ! j)" for j
  proof -
    have "in_group (all ?t ! k) (all ?t ! j)"
      using s [OF k(2)] s [OF j(1)] k j group_namesD(2) [OF n(1), of k] f(1) by (simp add: in_group_def)
    then show ?thesis using one_checkedD [OF n(2), of k j] s(1) [OF k(2)] k j f by simp
  qed
  then show "radios_shown n f ?t = {k}" using k f(1,4) s c by (auto simp: radios_shown_def)
qed

text \<open>After any clicks on the radio buttons of a name, on a page in order, the one that was clicked last alone looks pressed.\<close>

theorem last_radio_pressed:
  assumes "ks \<noteq> []" and "set ks \<subseteq> radios_of n f s"
  shows "radios_shown n f (fold pick_radio ks s) = {last ks}"
  by (rule rv.shown_fold_last [OF assms])

section \<open>Resets and faces\<close>

text \<open>A refresh puts a checkbox in order whatever happened to it; the reset of a form therefore puts its checkboxes in order.\<close>

lemma refresh_checkbox:
  "i < length (all s) \<Longrightarrow> b_kind (all s ! i) = Checkbox \<Longrightarrow> button_ok (all (refresh_button i s) ! i)"
  by (simp add: refresh_button_def Let_def button_facts looks_def set_off_def)

text \<open>The classes of a face are among those that the next face takes away, so that only the last face counts.\<close>

lemma face_classes_known: "set (face_classes opts) \<subseteq> set type_classes"
  by (auto simp: face_classes_def type_classes_def Let_def)

lemma reset_face_last:
  assumes "k \<noteq> Input"
  shows "f_pieces (reset_face k h t b (reset_face k h t a f)) = f_pieces (reset_face k h t b f)"
    and "f_classes (reset_face k h t b (reset_face k h t a f)) = f_classes (reset_face k h t b f)"
proof -
  have "filter (\<lambda>c. c \<notin> set type_classes) (face_classes a) = []" using face_classes_known [of a] by (auto simp: filter_empty_conv)
  then show "f_classes (reset_face k h t b (reset_face k h t a f)) = f_classes (reset_face k h t b f)"
    using assms by (simp add: reset_face_def Let_def)
  show "f_pieces (reset_face k h t b (reset_face k h t a f)) = f_pieces (reset_face k h t b f)"
    using assms by (simp add: reset_face_def Let_def)
qed

lemma set_corners_ends: "i < n \<Longrightarrow> (set_corners rtl n i = []) = (0 < i \<and> i < n - 1)"
  by (auto simp: set_corners_def)

section \<open>Examples\<close>

definition new_toggle :: "kind \<Rightarrow> string \<Rightarrow> button" where
  "new_toggle k n = \<lparr>b_kind = k, b_name = n, b_form = None, b_checked = False, b_default = False, b_disabled = False, b_off = False, b_active = False,
     b_hover = False, b_focus = False, b_pressed = None\<rparr>"

definition new_page :: "button list \<Rightarrow> buttons" where
  "new_page bs = \<lparr>all = map2 create_button (map (\<lambda>b. None) bs) bs, last_active = None, start_pos = None, click_dragged = False\<rparr>"

lemma radio_page: "button_reachable (new_page [new_toggle Radio ''r'', new_toggle Radio ''r''])"
  unfolding new_page_def
  by (rule Start) (simp_all add: names_ok_def one_checked_def less_Suc_eq numeral_2_eq_2 new_toggle_def)


theorem last_radio_pressed_witness:
  "radios_shown ''r'' None (fold pick_radio [0, 1, 0] (new_page [new_toggle Radio ''r'', new_toggle Radio ''r''])) = {0}"
proof -
  have "{0, 1, 0} \<subseteq> radios_of ''r'' None (new_page [new_toggle Radio ''r'', new_toggle Radio ''r''])"
    using button_reachable_ok [OF radio_page] by (simp add: radios_of_def new_page_def new_toggle_def create_button_def set_off_def Let_def toggles_def)
  then show ?thesis using last_radio_pressed [of "[0, 1, 0]" "''r''" None] by simp
qed

text \<open>After a drag, the keyboard changes the checkbox and the button does not follow.\<close>

lemma drag_blinds_keyboard:
  "let s = fold button_step [Down 0 (1, 1), Up (Some 0) (9, 1), KeyToggle 0] (new_page [new_toggle Checkbox ''c''])
   in click_dragged s \<and> b_checked (all s ! 0) \<and> \<not> b_active (all s ! 0) \<and> b_pressed (all s ! 0) = Some False"
  by code_simp

text \<open>The flag is shared: the drag may have been over another button.\<close>

lemma drag_blinds_others:
  "let s = fold button_step [Down 0 (1, 1), Up (Some 0) (9, 1), KeyToggle 1] (new_page [new_toggle Checkbox ''c'', new_toggle Checkbox ''d''])
   in b_checked (all s ! 1) \<and> \<not> b_active (all s ! 1)"
  by code_simp

text \<open>A radio button without a name is not refreshed.\<close>

lemma nameless_radio_stale:
  "let s = button_step (KeyToggle 0) (new_page [new_toggle Radio []]) in b_checked (all s ! 0) \<and> \<not> b_active (all s ! 0)"
  by code_simp

text \<open>A checkbox that shares the name of radio buttons loses its look when one of them is clicked that is chosen already.\<close>

lemma checkbox_in_group_stale:
  "let s = fold button_step [Click 0, Click 1, Click 0] (new_page [new_toggle Radio ''r'', new_toggle Checkbox ''r''])
   in b_checked (all s ! 1) \<and> \<not> b_active (all s ! 1)"
  by code_simp

text \<open>A button that is disabled while it is held stays pressed, and takes the next mouse that enters for one that is held.\<close>

lemma disabled_while_held:
  "let s = fold button_step [Down 0 (1, 1), Disable 0 True, Up (Some 0) (1, 1), Disable 0 False, Leave 0, Enter 0] (new_page [new_toggle Button []])
   in last_active s = Some 0 \<and> b_active (all s ! 0)"
  by code_simp

text \<open>The focus leaves while a key is held: the button stays pressed.\<close>

lemma focus_leaves_held_key:
  "b_active (all (fold button_step [Focus 0, KeyDown 0 32, Blur 0] (new_page [new_toggle Button []])) ! 0)"
  by code_simp

text \<open>A button that shows its text again keeps the title that replaced it.\<close>

lemma title_survives:
  "f_title (reset_face Button False (\<lambda>h. h) \<lparr>f_text = True, f_label = ''a'', f_primary = ''i'', f_secondary = []\<rparr>
     (reset_face Button False (\<lambda>h. h) \<lparr>f_text = False, f_label = ''a'', f_primary = ''i'', f_secondary = []\<rparr>
       \<lparr>f_value = [], f_pieces = [], f_classes = [], f_title = None\<rparr>)) = Some ''a''"
  by code_simp

end
