(* ===== verification/Ui_Drag_Geometry.thy ===== *)
theory Ui_Drag_Geometry
  imports Bounded_Value Js_Prelude
begin

text \<open>
  Where a dragged element may go, from \<open>jquery.ui.draggable.js\<close>: the offsets of a drag, the containment, the
  grid, snapping, and scrolling.  The code treats \<open>left\<close> and \<open>top\<close> alike, one after the other; the definitions are
  for one of them and are used for both.  Pixels are whole numbers.  What the document measures comes as arguments.
\<close>

section \<open>Offsets\<close>

text \<open>Of one axis: where the mouse holds the element, the offset between an element that is positioned
  relatively and its parent, the offset of the parent, and what is added for scrolling.\<close>

record axis_offset =
  ax_click :: int
  ax_relative :: int
  ax_parent :: int
  ax_scroll :: int

definition scroll_term :: "bool \<Rightarrow> bool \<Rightarrow> bool \<Rightarrow> int \<Rightarrow> int \<Rightarrow> int" where
  "scroll_term old_safari fixed root parent_scroll scroll =
     (if old_safari \<and> fixed then 0 else if fixed then - parent_scroll else if root then 0 else scroll)"

definition parent_offset :: "bool \<Rightarrow> bool \<Rightarrow> int \<Rightarrow> int \<Rightarrow> int \<Rightarrow> int" where
  "parent_offset scrolled_inside is_root off scroll border =
     (if is_root then 0 else if scrolled_inside then off + scroll else off) + border"

definition relative_offset :: "bool \<Rightarrow> int \<Rightarrow> int \<Rightarrow> int \<Rightarrow> int" where
  "relative_offset relative pos css scroll = (if relative then pos - css + scroll else 0)"

text \<open>\<open>cursorAt\<close>: the near edge, then the far one, which wins.\<close>

definition adjust_click :: "int option \<Rightarrow> int option \<Rightarrow> int \<Rightarrow> int \<Rightarrow> axis_offset \<Rightarrow> axis_offset" where
  "adjust_click near far len margin a =
     (let a1 = (case near of Some n \<Rightarrow> a\<lparr>ax_click := n + margin\<rparr> | None \<Rightarrow> a)
      in case far of Some f \<Rightarrow> a1\<lparr>ax_click := len - f + margin\<rparr> | None \<Rightarrow> a1)"

definition convert_to :: "bool \<Rightarrow> axis_offset \<Rightarrow> int \<Rightarrow> int" where
  "convert_to absolute a pos =
     (let m = (if absolute then 1 else -1) in pos + ax_relative a * m + ax_parent a * m - ax_scroll a * m)"

section \<open>Containment and grid\<close>

definition clamp_page :: "int \<times> int \<Rightarrow> int \<Rightarrow> int \<Rightarrow> int" where
  "clamp_page lim click p =
     (let p1 = (if p - click < fst lim then fst lim + click else p)
      in if p - click > snd lim then snd lim + click else p1)"

definition round_by :: "int \<Rightarrow> int \<Rightarrow> int" where
  "round_by n d = (if d < 0 then js_round_div (- n) (- d) else js_round_div n d)"

definition grid_page :: "(int \<times> int) option \<Rightarrow> int \<Rightarrow> int \<Rightarrow> int \<Rightarrow> int \<Rightarrow> int" where
  "grid_page lim click orig g p =
     (let s = (if g \<noteq> 0 then orig + round_by (p - orig) g * g else orig)
      in case lim of
           None \<Rightarrow> s
         | Some (lo, hi) \<Rightarrow> if \<not> (s - click < lo \<or> s - click > hi) then s else if \<not> (s - click < lo) then s - g else s + g)"

text \<open>\<open>_generatePosition\<close>, of one axis: the position as a style, and before that the place on the page.\<close>

definition constrain_page :: "bool \<Rightarrow> (int \<times> int) option \<Rightarrow> int option \<Rightarrow> int \<Rightarrow> axis_offset \<Rightarrow> int \<Rightarrow> int" where
  "constrain_page dragging lim grid orig a p =
     (if \<not> dragging then p
      else let p1 = (case lim of None \<Rightarrow> p | Some l \<Rightarrow> clamp_page l (ax_click a) p)
           in case grid of None \<Rightarrow> p1 | Some g \<Rightarrow> grid_page lim (ax_click a) orig g p1)"

definition generate_position :: "bool \<Rightarrow> (int \<times> int) option \<Rightarrow> int option \<Rightarrow> int \<Rightarrow> axis_offset \<Rightarrow> int \<Rightarrow> int" where
  "generate_position dragging lim grid orig a p =
     constrain_page dragging lim grid orig a p - ax_click a - ax_relative a - ax_parent a + ax_scroll a"

text \<open>The containment of one axis.  An element around it gives limits that are counted from its own place.\<close>

record box_measures =
  bx_border :: int
  bx_pad_before :: int
  bx_pad_after :: int
  bx_offset_size :: int
  bx_scroll_size :: int
  bx_hidden :: bool

definition document_limits :: "int \<Rightarrow> int \<Rightarrow> int \<Rightarrow> int \<times> int" where
  "document_limits doc_size len margin = (0, 0 + doc_size - len - margin)"

definition window_limits :: "axis_offset \<Rightarrow> int \<Rightarrow> int \<Rightarrow> int \<Rightarrow> int \<Rightarrow> int \<times> int" where
  "window_limits a scrolled win_size len margin =
     (scrolled - ax_relative a - ax_parent a, scrolled + win_size - len - margin)"

definition box_limits :: "box_measures \<Rightarrow> int \<Rightarrow> int \<Rightarrow> int \<Rightarrow> int \<times> int" where
  "box_limits b len margin margin_after =
     (bx_border b + bx_pad_before b,
      (if bx_hidden b then bx_offset_size b else max (bx_scroll_size b) (bx_offset_size b))
        - bx_border b - bx_pad_after b - len - margin - margin_after)"

definition shift_limits :: "int \<Rightarrow> int \<times> int \<Rightarrow> int \<times> int" where
  "shift_limits off lim = (fst lim + off, snd lim + off)"

section \<open>Scrolling\<close>

text \<open>The new scroll position of a container, or of the document, if the mouse is near an end of it.\<close>

definition scroll_container :: "int \<Rightarrow> int \<Rightarrow> int \<Rightarrow> int \<Rightarrow> int \<Rightarrow> int \<Rightarrow> int option" where
  "scroll_container sens speed off len scrolled page =
     (if off + len - page < sens then Some (scrolled + speed)
      else if page - off < sens then Some (scrolled - speed) else None)"

definition scroll_document :: "int \<Rightarrow> int \<Rightarrow> int \<Rightarrow> int \<Rightarrow> int \<Rightarrow> int option" where
  "scroll_document sens speed win scrolled page =
     (if page - scrolled < sens then Some (scrolled - speed)
      else if win - (page - scrolled) < sens then Some (scrolled + speed) else None)"

section \<open>Snapping\<close>

datatype snap_mode = Inner | Outer | Both

record snap_item =
  sn_left :: int
  sn_top :: int
  sn_width :: int
  sn_height :: int
  sn_snapping :: bool

record snap_env =
  sv_mode :: snap_mode
  sv_tolerance :: int
  sv_width :: int
  sv_height :: int
  sv_margin_left :: int
  sv_margin_top :: int
  sv_x :: axis_offset
  sv_y :: axis_offset
  sv_left :: int
  sv_top :: int

datatype snap_call = Snap nat | Release nat

text \<open>What the loop carries from item to item: the position that is being changed, the four variables
  \<open>ts\<close>, \<open>bs\<close>, \<open>ls\<close>, \<open>rs\<close>, which belong to the function and not to the turn, and the calls of the options.\<close>

record snap_state =
  st_left :: int
  st_top :: int
  st_vars :: "bool \<times> bool \<times> bool \<times> bool"
  st_calls :: "snap_call list"

definition snap_near :: "snap_env \<Rightarrow> snap_item \<Rightarrow> bool" where
  "snap_near v i =
     (let d = sv_tolerance v; x1 = sv_left v; x2 = x1 + sv_width v; y1 = sv_top v; y2 = y1 + sv_height v;
          l = sn_left i; r = l + sn_width i; t = sn_top i; b = t + sn_height i
      in (l - d < x1 \<and> x1 < r + d \<and> t - d < y1 \<and> y1 < b + d) \<or> (l - d < x1 \<and> x1 < r + d \<and> t - d < y2 \<and> y2 < b + d) \<or>
         (l - d < x2 \<and> x2 < r + d \<and> t - d < y1 \<and> y1 < b + d) \<or> (l - d < x2 \<and> x2 < r + d \<and> t - d < y2 \<and> y2 < b + d))"

definition snap_top :: "snap_env \<Rightarrow> bool \<Rightarrow> int \<Rightarrow> snap_state \<Rightarrow> snap_state" where
  "snap_top v on y s = (if on then s\<lparr>st_top := convert_to False (sv_y v) y - sv_margin_top v\<rparr> else s)"

definition snap_left :: "snap_env \<Rightarrow> bool \<Rightarrow> int \<Rightarrow> snap_state \<Rightarrow> snap_state" where
  "snap_left v on x s = (if on then s\<lparr>st_left := convert_to False (sv_x v) x - sv_margin_left v\<rparr> else s)"

definition snap_outer :: "snap_env \<Rightarrow> snap_item \<Rightarrow> snap_state \<Rightarrow> snap_state" where
  "snap_outer v i s =
     (let d = sv_tolerance v; x1 = sv_left v; x2 = x1 + sv_width v; y1 = sv_top v; y2 = y1 + sv_height v;
          l = sn_left i; r = l + sn_width i; t = sn_top i; b = t + sn_height i;
          ts = (\<bar>t - y2\<bar> \<le> d); bs = (\<bar>b - y1\<bar> \<le> d); ls = (\<bar>l - x2\<bar> \<le> d); rs = (\<bar>r - x1\<bar> \<le> d)
      in (snap_left v rs r (snap_left v ls (l - sv_width v) (snap_top v bs b (snap_top v ts (t - sv_height v) s))))
           \<lparr>st_vars := (ts, bs, ls, rs)\<rparr>)"

definition snap_inner :: "snap_env \<Rightarrow> snap_item \<Rightarrow> snap_state \<Rightarrow> snap_state" where
  "snap_inner v i s =
     (let d = sv_tolerance v; x1 = sv_left v; x2 = x1 + sv_width v; y1 = sv_top v; y2 = y1 + sv_height v;
          l = sn_left i; r = l + sn_width i; t = sn_top i; b = t + sn_height i;
          ts = (\<bar>t - y1\<bar> \<le> d); bs = (\<bar>b - y2\<bar> \<le> d); ls = (\<bar>l - x1\<bar> \<le> d); rs = (\<bar>r - x2\<bar> \<le> d)
      in (snap_left v rs (r - sv_width v) (snap_left v ls l (snap_top v bs (b - sv_height v) (snap_top v ts t s))))
           \<lparr>st_vars := (ts, bs, ls, rs)\<rparr>)"

definition any_of :: "bool \<times> bool \<times> bool \<times> bool \<Rightarrow> bool" where
  "any_of q = (case q of (ts, bs, ls, rs) \<Rightarrow> ts \<or> bs \<or> ls \<or> rs)"

definition snap_one :: "snap_env \<Rightarrow> nat \<Rightarrow> snap_item \<Rightarrow> snap_state \<Rightarrow> snap_item \<times> snap_state" where
  "snap_one v k i s =
     (if \<not> snap_near v i
      then (i\<lparr>sn_snapping := False\<rparr>, if sn_snapping i then s\<lparr>st_calls := st_calls s @ [Release k]\<rparr> else s)
      else
        let s1 = (if sv_mode v \<noteq> Inner then snap_outer v i s else s);
            first = any_of (st_vars s1);
            s2 = (if sv_mode v \<noteq> Outer then snap_inner v i s1 else s1);
            on = (any_of (st_vars s2) \<or> first)
        in (i\<lparr>sn_snapping := on\<rparr>, if \<not> sn_snapping i \<and> on then s2\<lparr>st_calls := st_calls s2 @ [Snap k]\<rparr> else s2))"

text \<open>The loop goes from the last item to the first.\<close>

fun snap_items :: "snap_env \<Rightarrow> nat \<Rightarrow> snap_item list \<Rightarrow> snap_state \<Rightarrow> snap_item list \<times> snap_state" where
  "snap_items v k [] s = ([], s)"
| "snap_items v k (i # items) s =
     (let (items', s1) = snap_items v (Suc k) items s; (i', s2) = snap_one v k i s1 in (i' # items', s2))"

definition snap_drag :: "snap_env \<Rightarrow> int \<times> int \<Rightarrow> snap_item list \<Rightarrow> snap_item list \<times> snap_state" where
  "snap_drag v pos items =
     snap_items v 0 items \<lparr>st_left = fst pos, st_top = snd pos, st_vars = (False, False, False, False), st_calls = []\<rparr>"

section \<open>Places\<close>

lemma convert_round_trip: "convert_to absolute a (convert_to (\<not> absolute) a p) = p"
  by (simp add: convert_to_def Let_def)

text \<open>A position that was generated, seen from the page again, is where the mouse is allowed to hold the element.\<close>

lemma generate_absolute:
  "convert_to True a (generate_position dragging lim grid orig a p) = constrain_page dragging lim grid orig a p - ax_click a"
  by (simp add: convert_to_def generate_position_def)

definition keep_within :: "int \<times> int \<Rightarrow> int \<Rightarrow> int" where
  "keep_within lim = clamp_page lim 0"

lemma clamp_page_keep: "clamp_page lim c p - c = keep_within lim (p - c)"
  by (simp add: clamp_page_def keep_within_def Let_def)

interpretation drag: bounded_value keep_within "\<lambda>lim v. fst lim \<le> v \<and> v \<le> snd lim"
  by unfold_locales (auto simp: keep_within_def clamp_page_def Let_def)

lemma round_by_near:
  assumes g: "0 < g"
  shows "2 * \<bar>n - round_by n g * g\<bar> \<le> g"
proof -
  define r where "r = (2 * n + g) mod (2 * g)"
  define P where "P = round_by n g * g"
  have "(2 * n + g) div (2 * g) * (2 * g) + r = 2 * n + g" unfolding r_def by (rule div_mult_mod_eq)
  moreover have "(2 * n + g) div (2 * g) * (2 * g) = 2 * P" using g by (simp add: P_def round_by_def js_round_div_def)
  ultimately have "2 * P + r = 2 * n + g" by simp
  moreover have "0 \<le> r" "r < 2 * g" using g by (simp_all add: r_def)
  ultimately show ?thesis unfolding P_def [symmetric] by (cases "P \<le> n") auto
qed

text \<open>With limits: a grid step that fits between them keeps the place within them.\<close>

lemma grid_page_within:
  assumes "lo \<le> p - c" "p - c \<le> hi" "0 < g" "g \<le> hi - lo"
  shows "lo \<le> grid_page (Some (lo, hi)) c orig g p - c \<and> grid_page (Some (lo, hi)) c orig g p - c \<le> hi"
proof -
  have "2 * \<bar>p - (orig + round_by (p - orig) g * g)\<bar> \<le> g" using round_by_near [OF assms(3), of "p - orig"] by (simp add: algebra_simps)
  then show ?thesis using assms by (auto simp: grid_page_def Let_def)
qed

lemma grid_page_steps: "\<exists>k. grid_page lim c orig g p = orig + k * g"
proof -
  let ?k = "if g \<noteq> 0 then round_by (p - orig) g else 0"
  have s: "(if g \<noteq> 0 then orig + round_by (p - orig) g * g else orig) = orig + ?k * g" by simp
  have "grid_page lim c orig g p \<in> {orig + ?k * g, orig + (?k - 1) * g, orig + (?k + 1) * g}"
    unfolding grid_page_def s Let_def by (auto simp: algebra_simps split: option.split)
  then show ?thesis by blast
qed

section \<open>Properties\<close>

text \<open>C30: A dragged element stays in its containment: for every place of the mouse, the place on the page
  that the new style gives the element is within the limits, if a step of the grid fits between them;
  without a grid it is the place closest to the mouse, and with a grid it is whole steps away from where the drag began.\<close>

theorem drag_stays_contained:
  assumes "lo \<le> hi" and "case grid of None \<Rightarrow> True | Some g \<Rightarrow> 0 < g \<and> g \<le> hi - lo"
  shows "let x = convert_to True a (generate_position True (Some (lo, hi)) grid orig a p)
    in lo \<le> x \<and> x \<le> hi \<and>
       (case grid of None \<Rightarrow> x = max lo (min hi (p - ax_click a)) | Some g \<Rightarrow> \<exists>k. x = orig - ax_click a + k * g)"
proof (cases grid)
  case None
  then show ?thesis using assms(1)
    by (auto simp: generate_absolute constrain_page_def clamp_page_def Let_def)
next
  case (Some g)
  let ?q = "clamp_page (lo, hi) (ax_click a) p"
  have "lo \<le> ?q - ax_click a" "?q - ax_click a \<le> hi" using assms(1) by (auto simp: clamp_page_def Let_def)
  then have "lo \<le> grid_page (Some (lo, hi)) (ax_click a) orig g ?q - ax_click a \<and> grid_page (Some (lo, hi)) (ax_click a) orig g ?q - ax_click a \<le> hi"
    using assms(2) Some by (intro grid_page_within) auto
  moreover obtain k where "grid_page (Some (lo, hi)) (ax_click a) orig g ?q = orig + k * g" using grid_page_steps by blast
  ultimately show ?thesis using Some by (auto simp: generate_absolute constrain_page_def Let_def intro!: exI [of _ k])
qed

text \<open>What a page place is as a style, and a style as a place on the page, undo each other.\<close>

theorem position_round_trip:
  "convert_to True a (convert_to False a p) = p \<and> convert_to False a (convert_to True a p) = p \<and>
   convert_to False a (p - ax_click a) = generate_position False lim grid orig a p"
  using convert_round_trip [of True a p] convert_round_trip [of False a p] by (simp add: convert_to_def generate_position_def constrain_page_def)

text \<open>In an element whose two borders are the same and whose contents do not scroll, the box of a dragged element with its margins
  stays inside the padding; \<open>off\<close> is the place of the containing element.\<close>

theorem drag_stays_in_box:
  assumes "bx_hidden b \<or> bx_scroll_size b \<le> bx_offset_size b"
    and "2 * bx_border b + bx_pad_before b + bx_pad_after b + margin + len + margin_after \<le> bx_offset_size b"
  shows "let x = convert_to True a (generate_position True (Some (shift_limits off (box_limits b len margin margin_after))) None orig a p)
    in off + bx_border b + bx_pad_before b \<le> x \<and> x + margin + len + margin_after \<le> off + bx_offset_size b - bx_border b - bx_pad_after b"
proof -
  have "(if bx_hidden b then bx_offset_size b else max (bx_scroll_size b) (bx_offset_size b)) = bx_offset_size b"
    using assms(1) by auto
  then show ?thesis using assms(2) by (simp add: generate_absolute constrain_page_def clamp_page_def shift_limits_def box_limits_def Let_def)
qed

text \<open>The edges that an element at a place may have in line with an item, outside of it and inside.\<close>

definition beside :: "int \<Rightarrow> int \<Rightarrow> int \<Rightarrow> int \<Rightarrow> bool" where
  "beside len pos w x \<longleftrightarrow> x + len = pos \<or> x = pos + w"

definition inside :: "int \<Rightarrow> int \<Rightarrow> int \<Rightarrow> int \<Rightarrow> bool" where
  "inside len pos w x \<longleftrightarrow> x = pos \<or> x + len = pos + w"

definition place_x :: "snap_env \<Rightarrow> snap_state \<Rightarrow> int" where
  "place_x v s = convert_to True (sv_x v) (st_left s) + sv_margin_left v"

definition place_y :: "snap_env \<Rightarrow> snap_state \<Rightarrow> int" where
  "place_y v s = convert_to True (sv_y v) (st_top s) + sv_margin_top v"

lemma snap_axis_simps:
  "place_x v (snap_left v on x s) = (if on then x else place_x v s)" "place_y v (snap_left v on x s) = place_y v s"
  "place_y v (snap_top v on y s) = (if on then y else place_y v s)" "place_x v (snap_top v on y s) = place_x v s"
  "place_x v (s\<lparr>st_vars := q\<rparr>) = place_x v s" "place_y v (s\<lparr>st_vars := q\<rparr>) = place_y v s"
  "place_x v (s\<lparr>st_calls := c\<rparr>) = place_x v s" "place_y v (s\<lparr>st_calls := c\<rparr>) = place_y v s"
  by (simp_all add: place_x_def place_y_def snap_left_def snap_top_def convert_to_def)

text \<open>Each of the two parts of a turn puts an axis in line or leaves it as it was.\<close>

lemma snap_outer_axes:
  "(place_x v (snap_outer v i s) = place_x v s \<or> beside (sv_width v) (sn_left i) (sn_width i) (place_x v (snap_outer v i s))) \<and>
   (place_y v (snap_outer v i s) = place_y v s \<or> beside (sv_height v) (sn_top i) (sn_height i) (place_y v (snap_outer v i s)))"
  "any_of (st_vars (snap_outer v i s)) \<Longrightarrow>
   beside (sv_width v) (sn_left i) (sn_width i) (place_x v (snap_outer v i s)) \<or> beside (sv_height v) (sn_top i) (sn_height i) (place_y v (snap_outer v i s))"
  by (simp_all add: snap_outer_def Let_def snap_axis_simps beside_def any_of_def) (auto split: if_splits)

lemma snap_inner_axes:
  "(place_x v (snap_inner v i s) = place_x v s \<or> inside (sv_width v) (sn_left i) (sn_width i) (place_x v (snap_inner v i s))) \<and>
   (place_y v (snap_inner v i s) = place_y v s \<or> inside (sv_height v) (sn_top i) (sn_height i) (place_y v (snap_inner v i s)))"
  "any_of (st_vars (snap_inner v i s)) \<Longrightarrow>
   inside (sv_width v) (sn_left i) (sn_width i) (place_x v (snap_inner v i s)) \<or> inside (sv_height v) (sn_top i) (sn_height i) (place_y v (snap_inner v i s))"
  by (simp_all add: snap_inner_def Let_def snap_axis_simps inside_def any_of_def) (auto split: if_splits)

text \<open>When a turn of the snap loop leaves an item in the state of snapping, an edge
  of the dragged element (its margin counted in) is in line with an edge of the item: outside, inside or either, as the mode says;
  for the mode \<open>inner\<close>, if the variables of the loop come in unset.\<close>

theorem snap_aligns:
  assumes "sn_snapping (fst (snap_one v k i s))" and "sv_mode v = Inner \<longrightarrow> \<not> any_of (st_vars s)"
  shows "let s' = snap_one v k i s; x = place_x v (snd s'); y = place_y v (snd s')
    in (sv_mode v \<noteq> Inner \<and> (beside (sv_width v) (sn_left i) (sn_width i) x \<or> beside (sv_height v) (sn_top i) (sn_height i) y)) \<or>
       (sv_mode v \<noteq> Outer \<and> (inside (sv_width v) (sn_left i) (sn_width i) x \<or> inside (sv_height v) (sn_top i) (sn_height i) y))"
proof -
  have near: "snap_near v i" using assms(1) by (auto simp: snap_one_def split: if_splits)
  note outer = snap_outer_axes [of v i s] and inner = snap_inner_axes [of v i]
  show ?thesis
  proof (cases "sv_mode v")
    case Inner
    then show ?thesis using assms near inner [of s] by (auto simp: snap_one_def snap_axis_simps Let_def)
  next
    case Outer
    then show ?thesis using assms near outer by (auto simp: snap_one_def snap_axis_simps Let_def)
  next
    case Both
    let ?s = "snap_inner v i (snap_outer v i s)"
    have "snap_one v k i s = (fst (snap_one v k i s), snd (snap_one v k i s))" by simp
    have p: "place_x v (snd (snap_one v k i s)) = place_x v ?s" "place_y v (snd (snap_one v k i s)) = place_y v ?s"
      using Both near by (simp_all add: snap_one_def snap_axis_simps Let_def)
    have "any_of (st_vars ?s) \<or> any_of (st_vars (snap_outer v i s))" using assms(1) Both near by (auto simp: snap_one_def Let_def)
    then show ?thesis using outer inner [of "snap_outer v i s"] Both unfolding Let_def p by fastforce
  qed
qed

section \<open>Examples\<close>

theorem drag_stays_contained_witness:
  "let x = convert_to True \<lparr>ax_click = 5, ax_relative = 2, ax_parent = 3, ax_scroll = 4\<rparr>
      (generate_position True (Some (0, 100)) (Some 30) 10 \<lparr>ax_click = 5, ax_relative = 2, ax_parent = 3, ax_scroll = 4\<rparr> 500)
   in 0 \<le> x \<and> x \<le> 100"
  using drag_stays_contained [of 0 100 "Some 30" "\<lparr>ax_click = 5, ax_relative = 2, ax_parent = 3, ax_scroll = 4\<rparr>" 10 500]
  by (simp add: Let_def)

theorem drag_stays_in_box_witness:
  "let x = convert_to True \<lparr>ax_click = 5, ax_relative = 0, ax_parent = 3, ax_scroll = 0\<rparr>
      (generate_position True (Some (shift_limits 50 (box_limits
         \<lparr>bx_border = 1, bx_pad_before = 2, bx_pad_after = 2, bx_offset_size = 200, bx_scroll_size = 200, bx_hidden = False\<rparr> 20 0 0))) None 10
         \<lparr>ax_click = 5, ax_relative = 0, ax_parent = 3, ax_scroll = 0\<rparr> 500)
   in 53 \<le> x \<and> x + 20 \<le> 247"
  using drag_stays_in_box [of "\<lparr>bx_border = 1, bx_pad_before = 2, bx_pad_after = 2, bx_offset_size = 200, bx_scroll_size = 200, bx_hidden = False\<rparr>"
    0 20 0 "\<lparr>ax_click = 5, ax_relative = 0, ax_parent = 3, ax_scroll = 0\<rparr>" 50 10 500]
  by (simp add: Let_def)

definition still :: axis_offset where
  "still = \<lparr>ax_click = 0, ax_relative = 0, ax_parent = 0, ax_scroll = 0\<rparr>"

definition snap_at :: "snap_mode \<Rightarrow> int \<times> int \<Rightarrow> snap_env" where
  "snap_at m p = \<lparr>sv_mode = m, sv_tolerance = 20, sv_width = 10, sv_height = 10, sv_margin_left = 0, sv_margin_top = 0,
     sv_x = still, sv_y = still, sv_left = fst p, sv_top = snd p\<rparr>"

definition snap_box :: "int \<Rightarrow> int \<Rightarrow> int \<Rightarrow> int \<Rightarrow> snap_item" where
  "snap_box l t w h = \<lparr>sn_left = l, sn_top = t, sn_width = w, sn_height = h, sn_snapping = False\<rparr>"

theorem snap_aligns_witness:
  "let s = snap_one (snap_at Outer (105, 50)) 0 (snap_box 0 0 100 100) \<lparr>st_left = 105, st_top = 50, st_vars = (False, False, False, False), st_calls = []\<rparr>
   in beside 10 0 100 (place_x (snap_at Outer (105, 50)) (snd s)) \<or> beside 10 0 100 (place_y (snap_at Outer (105, 50)) (snd s))"
proof -
  let ?s = "\<lparr>st_left = 105, st_top = 50, st_vars = (False, False, False, False), st_calls = []\<rparr>"
  have "sn_snapping (fst (snap_one (snap_at Outer (105, 50)) 0 (snap_box 0 0 100 100) ?s))" by code_simp
  from snap_aligns [OF this] show ?thesis by (simp add: Let_def snap_at_def snap_box_def)
qed

text \<open>A grid step wider than the room takes the element out of its containment.\<close>

lemma wide_grid_escapes:
  "convert_to True still (generate_position True (Some (0, 40)) (Some 30) 30 still 40) = 30 \<and>
   convert_to True still (generate_position True (Some (0, 40)) (Some 100) (-20) still 40) = -20"
  by code_simp

text \<open>The near limit of the window is off by the offsets of the element, the far one is not.\<close>

lemma window_limit_off:
  "let a = \<lparr>ax_click = 0, ax_relative = 0, ax_parent = 100, ax_scroll = 0\<rparr>
   in convert_to True a (generate_position True (Some (window_limits a 0 500 10 0)) None 0 a (-80)) = -80"
  by code_simp

text \<open>A containing element with a far border that is wider than the near one lets the element over the padding's edge.\<close>

lemma far_border_ignored: "snd (box_limits \<lparr>bx_border = 0, bx_pad_before = 0, bx_pad_after = 0, bx_offset_size = 110, bx_scroll_size = 100, bx_hidden = True\<rparr> 20 0 0) = 90"
  by (simp add: box_limits_def)

text \<open>In the mode \<open>inner\<close> an item takes over the variables of the item before it in the loop, so it counts as
  snapping, and its callback is called, although the element only passes it.\<close>

lemma inner_snap_stale:
  "let r = snap_drag (snap_at Inner (50, 50)) (50, 50) [snap_box 0 0 100 100, snap_box 45 45 30 30]
   in map sn_snapping (fst r) = [True, True] \<and> st_calls (snd r) = [Snap 1, Snap 0] \<and>
      map sn_snapping (fst (snap_drag (snap_at Inner (50, 50)) (50, 50) [snap_box 0 0 100 100])) = [False]"
  by code_simp

end
