(* ===== verification/Ui_Draggable.thy ===== *)
theory Ui_Draggable
  imports Ui_Drag_Geometry
begin

text \<open>
  The life of a drag, \<open>jquery.ui.draggable.js\<close>: the hooks that the mouse calls, the events, revert, and the plugins
  that set the order of elements and that keep a style for the time of the drag.  \<open>dg_started\<close> is the
  variable of the mouse that says that a gesture is under way.
\<close>

section \<open>State\<close>

type_synonym point = "int \<times> int"

datatype revert = NoRevert | AlwaysRevert | RevertInvalid | RevertValid | RevertBy "bool \<Rightarrow> bool"

datatype drag_log = DragStarted bool | DragMoved | DragStopped bool

record drag_widget =
  dg_disabled :: bool
  dg_axis :: "string option"
  dg_grid :: "point option"
  dg_revert :: revert
  dg_original_helper :: bool
  dg_helper :: bool
  dg_marked :: bool
  dg_started :: bool
  dg_reverting :: bool
  dg_outside :: bool
  dg_original :: "point option"
  dg_position :: point
  dg_page :: point
  dg_x :: axis_offset
  dg_y :: axis_offset
  dg_limits :: "((int \<times> int) \<times> (int \<times> int)) option"
  dg_around :: "nat option"
  dg_style :: point
  dg_log :: "drag_log list"

text \<open>What the option \<open>containment\<close> names, with its measures; an element that is not found is \<open>None\<close>.\<close>

datatype around =
    NoContainment
  | AroundDocument point
  | AroundWindow point point
  | AroundBox "(nat \<times> box_measures \<times> box_measures) option"
  | AroundLimits "int \<times> int" "int \<times> int"

text \<open>What is measured when a drag starts; \<open>ev_place\<close> is where an element is now.\<close>

record drag_env =
  en_offset :: point
  en_margin :: point
  en_margin_after :: point
  en_len :: point
  en_relative :: point
  en_parent :: point
  en_scroll :: point
  en_around :: around
  en_cursor_x :: "int option \<times> int option"
  en_cursor_y :: "int option \<times> int option"
  en_place :: "nat \<Rightarrow> point"

definition new_draggable :: "bool \<Rightarrow> string option \<Rightarrow> point option \<Rightarrow> revert \<Rightarrow> bool \<Rightarrow> drag_widget" where
  "new_draggable disabled axis grid rv orig =
     \<lparr>dg_disabled = disabled, dg_axis = axis, dg_grid = grid, dg_revert = rv, dg_original_helper = orig,
      dg_helper = False, dg_marked = False, dg_started = False, dg_reverting = False, dg_outside = False, dg_original = None,
      dg_position = (0, 0), dg_page = (0, 0), dg_x = \<lparr>ax_click = 0, ax_relative = 0, ax_parent = 0, ax_scroll = 0\<rparr>,
      dg_y = \<lparr>ax_click = 0, ax_relative = 0, ax_parent = 0, ax_scroll = 0\<rparr>, dg_limits = None, dg_around = None,
      dg_style = (0, 0), dg_log = []\<rparr>"

section \<open>Operations\<close>

text \<open>A press is on a handle if there are none in the element, or if it is on one or inside of one.\<close>

definition get_handle :: "nat list \<Rightarrow> (nat \<Rightarrow> nat list) \<Rightarrow> nat \<Rightarrow> bool" where
  "get_handle handles descendants target = (handles = [] \<or> (\<exists>h \<in> set handles. target = h \<or> target \<in> set (descendants h)))"

definition drag_capture :: "bool \<Rightarrow> bool \<Rightarrow> drag_widget \<Rightarrow> bool" where
  "drag_capture on_resizer on_handle d = (\<not> (dg_helper d \<or> dg_disabled d \<or> on_resizer) \<and> on_handle)"

definition clear_drag :: "drag_widget \<Rightarrow> drag_widget" where
  "clear_drag d = d\<lparr>dg_marked := False, dg_helper := False\<rparr>"

definition current_limits :: "(nat \<Rightarrow> point) \<Rightarrow> drag_widget \<Rightarrow> ((int \<times> int) \<times> (int \<times> int)) option" where
  "current_limits place d =
     (case dg_limits d of
        None \<Rightarrow> None
      | Some (lx, ly) \<Rightarrow> (case dg_around d of
            None \<Rightarrow> Some (lx, ly)
          | Some c \<Rightarrow> Some (shift_limits (fst (place c)) lx, shift_limits (snd (place c)) ly)))"

definition position_at :: "(nat \<Rightarrow> point) \<Rightarrow> point \<Rightarrow> drag_widget \<Rightarrow> point" where
  "position_at place p d =
     (let lim = current_limits place d; on = (dg_original d \<noteq> None)
      in (generate_position on (map_option fst lim) (map_option fst (dg_grid d)) (fst (dg_page d)) (dg_x d) (fst p),
          generate_position on (map_option snd lim) (map_option snd (dg_grid d)) (snd (dg_page d)) (dg_y d) (snd p)))"

definition set_containment :: "drag_env \<Rightarrow> drag_widget \<Rightarrow> drag_widget" where
  "set_containment e d =
     (case en_around e of
        NoContainment \<Rightarrow> d
      | AroundDocument sz \<Rightarrow> d\<lparr>dg_limits := Some (document_limits (fst sz) (fst (en_len e)) (fst (en_margin e)),
            document_limits (snd sz) (snd (en_len e)) (snd (en_margin e)))\<rparr>
      | AroundWindow sc sz \<Rightarrow> d\<lparr>dg_limits := Some (window_limits (dg_x d) (fst sc) (fst sz) (fst (en_len e)) (fst (en_margin e)),
            window_limits (dg_y d) (snd sc) (snd sz) (snd (en_len e)) (snd (en_margin e)))\<rparr>
      | AroundBox None \<Rightarrow> d
      | AroundBox (Some (c, bx, by)) \<Rightarrow>
          d\<lparr>dg_limits := Some (box_limits bx (fst (en_len e)) (fst (en_margin e)) (fst (en_margin_after e)),
              box_limits by (snd (en_len e)) (snd (en_margin e)) (snd (en_margin_after e))), dg_around := Some c\<rparr>
      | AroundLimits lx ly \<Rightarrow> d\<lparr>dg_limits := Some (lx, ly)\<rparr>)"

text \<open>The style is written but along an axis to which the drag is not confined.\<close>

definition write_style :: "drag_widget \<Rightarrow> drag_widget" where
  "write_style d = d\<lparr>dg_style :=
     (if dg_axis d \<noteq> Some ''y'' then fst (dg_position d) else fst (dg_style d),
      if dg_axis d \<noteq> Some ''x'' then snd (dg_position d) else snd (dg_style d))\<rparr>"

definition wants_revert :: "bool \<Rightarrow> drag_widget \<Rightarrow> bool" where
  "wants_revert dropped d =
     (case dg_revert d of
        NoRevert \<Rightarrow> False | AlwaysRevert \<Rightarrow> True | RevertInvalid \<Rightarrow> \<not> dropped | RevertValid \<Rightarrow> dropped | RevertBy f \<Rightarrow> f dropped)"

text \<open>The event \<open>stop\<close>; a handler that answers \<open>false\<close> keeps the helper.\<close>

definition trigger_stop :: "bool \<Rightarrow> drag_widget \<Rightarrow> drag_widget" where
  "trigger_stop veto d = (let d1 = d\<lparr>dg_log := dg_log d @ [DragStopped veto]\<rparr> in if veto then d1 else clear_drag d1)"

text \<open>\<open>_mouseStop\<close>: what the manager says was dropped counts, or what came from a sortable.  An element that was removed is left alone.\<close>

definition stop_drag :: "bool \<Rightarrow> bool \<Rightarrow> bool \<Rightarrow> drag_widget \<Rightarrow> drag_widget" where
  "stop_drag dropped removed veto d =
     (let dr = (if dg_outside d then True else dropped); d1 = d\<lparr>dg_outside := False\<rparr>
      in if removed \<and> dg_original_helper d1 then d1
         else if wants_revert dr d1 then d1\<lparr>dg_reverting := True\<rparr>
         else trigger_stop veto d1)"

definition drag_mouse_up :: "bool \<Rightarrow> bool \<Rightarrow> bool \<Rightarrow> drag_widget \<Rightarrow> drag_widget" where
  "drag_mouse_up dropped removed veto d = (if dg_started d then stop_drag dropped removed veto (d\<lparr>dg_started := False\<rparr>) else d)"

text \<open>The animation of a revert ends: the helper is where it was when the drag began.\<close>

definition revert_done :: "bool \<Rightarrow> drag_widget \<Rightarrow> drag_widget" where
  "revert_done veto d =
     trigger_stop veto (d\<lparr>dg_reverting := False, dg_style := (case dg_original d of Some p \<Rightarrow> p | None \<Rightarrow> dg_style d)\<rparr>)"

definition offsets_at :: "drag_env \<Rightarrow> point \<Rightarrow> drag_widget \<Rightarrow> drag_widget" where
  "offsets_at e p d =
     d\<lparr>dg_x := \<lparr>ax_click = fst p - (fst (en_offset e) - fst (en_margin e)), ax_relative = fst (en_relative e),
          ax_parent = fst (en_parent e), ax_scroll = fst (en_scroll e)\<rparr>,
       dg_y := \<lparr>ax_click = snd p - (snd (en_offset e) - snd (en_margin e)), ax_relative = snd (en_relative e),
          ax_parent = snd (en_parent e), ax_scroll = snd (en_scroll e)\<rparr>\<rparr>"

definition cursor_at :: "drag_env \<Rightarrow> drag_widget \<Rightarrow> drag_widget" where
  "cursor_at e d =
     d\<lparr>dg_x := adjust_click (fst (en_cursor_x e)) (snd (en_cursor_x e)) (fst (en_len e)) (fst (en_margin e)) (dg_x d),
       dg_y := adjust_click (fst (en_cursor_y e)) (snd (en_cursor_y e)) (snd (en_len e)) (snd (en_margin e)) (dg_y d)\<rparr>"

definition start_drag :: "drag_env \<Rightarrow> point \<Rightarrow> bool \<Rightarrow> drag_widget \<Rightarrow> drag_widget" where
  "start_drag e p veto d =
     (let d1 = offsets_at e p (d\<lparr>dg_helper := True\<rparr>);
          q = position_at (en_place e) p d1;
          d2 = set_containment e (cursor_at e (d1\<lparr>dg_position := q, dg_original := Some q, dg_page := p\<rparr>));
          d3 = d2\<lparr>dg_log := dg_log d2 @ [DragStarted veto]\<rparr>
      in if veto then clear_drag d3
         else let d4 = d3\<lparr>dg_marked := True\<rparr>
              in (write_style (d4\<lparr>dg_position := position_at (en_place e) p d4\<rparr>))\<lparr>dg_started := True\<rparr>)"

text \<open>\<open>_mouseDrag\<close>: the handlers may change the position, or answer \<open>false\<close>, which ends the drag at once.\<close>

definition move_drag :: "(nat \<Rightarrow> point) \<Rightarrow> point \<Rightarrow> bool \<Rightarrow> (point \<Rightarrow> point) \<Rightarrow> bool \<Rightarrow> bool \<Rightarrow> bool \<Rightarrow> drag_widget \<Rightarrow> drag_widget" where
  "move_drag place p veto change dropped removed stop_veto d =
     (let q = position_at place p d; d1 = d\<lparr>dg_position := q, dg_log := dg_log d @ [DragMoved]\<rparr>
      in if veto then drag_mouse_up dropped removed stop_veto d1 else write_style (d1\<lparr>dg_position := change q\<rparr>))"

text \<open>\<open>cancel\<close> reads the helper, which may not be there.\<close>

definition cancel_drag :: "bool \<Rightarrow> bool \<Rightarrow> bool \<Rightarrow> drag_widget \<Rightarrow> drag_widget js_result" where
  "cancel_drag dropped removed stop_veto d =
     (if \<not> dg_helper d then Inl TypeError
      else Inr (if dg_marked d then drag_mouse_up dropped removed stop_veto d else clear_drag d))"

section \<open>Everything that can happen\<close>

inductive drag_step :: "drag_widget \<Rightarrow> drag_widget \<Rightarrow> bool" where
  begin_step: "drag_capture on_resizer on_handle d \<Longrightarrow> \<not> dg_started d \<Longrightarrow> drag_step d (start_drag e p veto d)"
| move_step: "dg_started d \<Longrightarrow> drag_step d (move_drag place p veto change dropped removed stop_veto d)"
| up_step: "drag_step d (drag_mouse_up dropped removed veto d)"
| revert_step: "dg_reverting d \<Longrightarrow> drag_step d (revert_done veto d)"
| cancel_step: "cancel_drag dropped removed veto d = Inr d' \<Longrightarrow> drag_step d d'"
| outside_step: "drag_step d (d\<lparr>dg_outside := v\<rparr>)"
| option_step: "drag_step d (d\<lparr>dg_disabled := a, dg_axis := b, dg_grid := g, dg_revert := r\<rparr>)"

inductive_cases drag_stepE: "drag_step d d'"

inductive drag_reachable :: "drag_widget \<Rightarrow> bool" where
  "drag_reachable (new_draggable a b g r h)"
| "drag_reachable d \<Longrightarrow> drag_step d d' \<Longrightarrow> drag_reachable d'"

section \<open>Plugins\<close>

text \<open>\<open>cursor\<close>, \<open>opacity\<close>, \<open>zIndex\<close>: the style that is kept in the options for the time of the drag.\<close>

definition keep_style :: "string \<Rightarrow> string \<times> string option \<Rightarrow> string \<times> string option" where
  "keep_style new st = (case st of (cur, kept) \<Rightarrow> (new, if cur \<noteq> [] then Some cur else kept))"

definition restore_style :: "string \<times> string option \<Rightarrow> string \<times> string option" where
  "restore_style st = (case st of (cur, kept) \<Rightarrow> (case kept of Some k \<Rightarrow> if k \<noteq> [] then (k, kept) else (cur, kept) | None \<Rightarrow> (cur, kept)))"

text \<open>\<open>stack\<close>: the elements of the group with their \<open>z-index\<close>, computed and in the style; the sort keeps the order of equal ones.\<close>

record stacked =
  sk_elem :: nat
  sk_css :: int
  sk_style :: int

definition stack_drag :: "nat \<Rightarrow> stacked list \<Rightarrow> (nat \<Rightarrow> int) \<Rightarrow> nat \<Rightarrow> int" where
  "stack_drag elem members z =
     (let g = sort_key sk_css members
      in case g of
           [] \<Rightarrow> z
         | first # _ \<Rightarrow>
             (let low = sk_style first
              in (fold (\<lambda>(i, k) f. f(sk_elem k := low + int i)) (enumerate 0 g) z)(elem := low + int (length g))))"

section \<open>The order of events\<close>

text \<open>Whether a drag is under way after some events; \<open>None\<close> if they are out of order.\<close>

fun next_phase :: "bool option \<Rightarrow> drag_log \<Rightarrow> bool option" where
  "next_phase (Some False) (DragStarted veto) = Some (\<not> veto)"
| "next_phase (Some True) DragMoved = Some True"
| "next_phase (Some True) (DragStopped veto) = Some False"
| "next_phase _ _ = None"

definition phase_of :: "drag_log list \<Rightarrow> bool option" where
  "phase_of = foldl next_phase (Some False)"

lemma phase_snoc [simp]: "phase_of (es @ [e]) = next_phase (phase_of es) e" "phase_of [] = Some False"
  by (simp_all add: phase_of_def)

definition drag_ok :: "drag_widget \<Rightarrow> bool" where
  "drag_ok d \<longleftrightarrow> dg_marked d = dg_helper d \<and> \<not> (dg_started d \<and> dg_reverting d) \<and>
     (if dg_started d \<or> dg_reverting d then phase_of (dg_log d) = Some True else phase_of (dg_log d) \<in> {Some True, Some False}) \<and>
     (phase_of (dg_log d) = Some True \<longrightarrow> dg_helper d)"

lemma clear_drag_simps [simp]:
  "dg_log (clear_drag d) = dg_log d" "dg_started (clear_drag d) = dg_started d" "dg_reverting (clear_drag d) = dg_reverting d"
  "dg_helper (clear_drag d) = False" "dg_marked (clear_drag d) = False"
  by (simp_all add: clear_drag_def)

lemma set_containment_simps [simp]:
  "dg_log (set_containment e d) = dg_log d" "dg_started (set_containment e d) = dg_started d"
  "dg_reverting (set_containment e d) = dg_reverting d" "dg_helper (set_containment e d) = dg_helper d"
  "dg_marked (set_containment e d) = dg_marked d" "dg_original (set_containment e d) = dg_original d"
  "dg_x (set_containment e d) = dg_x d" "dg_y (set_containment e d) = dg_y d" "dg_revert (set_containment e d) = dg_revert d"
  "dg_outside (set_containment e d) = dg_outside d"
  by (auto simp: set_containment_def split: around.split option.split)

lemma stop_drag_ok: "drag_ok d \<Longrightarrow> dg_started d \<Longrightarrow> drag_ok (stop_drag dropped removed veto (d\<lparr>dg_started := False\<rparr>))"
  by (auto simp: stop_drag_def trigger_stop_def drag_ok_def Let_def)

lemma mouse_up_drag_ok: "drag_ok d \<Longrightarrow> drag_ok (drag_mouse_up dropped removed veto d)"
  by (simp add: drag_mouse_up_def stop_drag_ok)

lemma start_drag_ok: "drag_ok d \<Longrightarrow> \<not> dg_helper d \<Longrightarrow> \<not> dg_started d \<Longrightarrow> drag_ok (start_drag e p veto d)"
proof -
  assume a: "drag_ok d" "\<not> dg_helper d" "\<not> dg_started d"
  then have "phase_of (dg_log d) = Some False" "\<not> dg_reverting d" by (auto simp: drag_ok_def split: if_splits)
  then show ?thesis using a(3) by (auto simp: start_drag_def drag_ok_def Let_def write_style_def offsets_at_def cursor_at_def)
qed

lemma move_drag_ok: "drag_ok d \<Longrightarrow> dg_started d \<Longrightarrow> drag_ok (move_drag place p veto change dropped removed stop_veto d)"
proof -
  assume a: "drag_ok d" "dg_started d"
  let ?d = "d\<lparr>dg_position := position_at place p d, dg_log := dg_log d @ [DragMoved]\<rparr>"
  have "drag_ok ?d" using a by (simp add: drag_ok_def)
  moreover have "drag_ok (write_style (?d\<lparr>dg_position := q\<rparr>)) = drag_ok ?d" for q by (simp add: drag_ok_def write_style_def)
  ultimately show ?thesis by (simp add: move_drag_def Let_def mouse_up_drag_ok )
qed

lemma revert_done_ok: "drag_ok d \<Longrightarrow> dg_reverting d \<Longrightarrow> drag_ok (revert_done veto d)"
  by (auto simp: revert_done_def trigger_stop_def drag_ok_def Let_def)

lemma drag_step_ok: "drag_step d d' \<Longrightarrow> drag_ok d \<Longrightarrow> drag_ok d'"
proof (induction rule: drag_step.induct)
  case (cancel_step dropped removed veto d d')
  then show ?case by (auto simp: cancel_drag_def drag_ok_def [of d] mouse_up_drag_ok split: if_splits)
qed (auto simp: start_drag_ok move_drag_ok mouse_up_drag_ok revert_done_ok drag_capture_def, auto simp: drag_ok_def split: if_splits)

text \<open>C31: The events of a draggable element come in order: a \<open>start\<close>, which may be
  vetoed, any number of \<open>drag\<close>, one \<open>stop\<close>; a drag is under way while the mouse drags or a revert runs, never both, and for as long there is a helper,
  so that no second drag can begin.  This holds for presses, moves and releases of the mouse, ends of reverts, changes of options and calls of \<open>cancel\<close> in any order and whatever vetoes the handlers
  answer (a vetoed \<open>drag\<close> ends the gesture).  Handlers that call the widget, such as a \<open>cancel\<close> inside \<open>start\<close>, and \<open>destroy\<close> are left out.
\<close>

theorem drag_events_in_order:
  assumes "drag_reachable d"
  shows "phase_of (dg_log d) \<noteq> None \<and> \<not> (dg_started d \<and> dg_reverting d) \<and>
    ((dg_started d \<or> dg_reverting d) \<longrightarrow> phase_of (dg_log d) = Some True) \<and>
    (phase_of (dg_log d) = Some True \<longrightarrow> \<not> drag_capture on_resizer on_handle d)"
proof -
  have "drag_ok d" using assms
    by (induction rule: drag_reachable.induct) (auto intro: drag_step_ok, simp add: drag_ok_def new_draggable_def)
  then show ?thesis by (auto simp: drag_ok_def drag_capture_def split: if_splits)
qed

text \<open>A handler of \<open>stop\<close> that answers \<open>false\<close> leaves an element that cannot be dragged again, whatever happens.\<close>

definition drag_stuck :: "drag_widget \<Rightarrow> bool" where
  "drag_stuck d \<longleftrightarrow> dg_helper d \<and> dg_marked d \<and> \<not> dg_started d \<and> \<not> dg_reverting d"

lemma stuck_for_good: "drag_stuck d \<Longrightarrow> drag_step d d' \<Longrightarrow> drag_stuck d' \<and> \<not> drag_capture r h d"
  by (auto simp: drag_stuck_def drag_capture_def cancel_drag_def drag_mouse_up_def elim!: drag_stepE)

lemma vetoed_stop_sticks:
  "drag_ok d \<Longrightarrow> dg_started d \<Longrightarrow> dg_revert d = NoRevert \<Longrightarrow> drag_stuck (drag_mouse_up dropped removed True d)"
  by (simp add: drag_ok_def drag_mouse_up_def stop_drag_def trigger_stop_def wants_revert_def drag_stuck_def Let_def)

section \<open>Revert\<close>

lemma move_drag_keeps:
  "dg_original (move_drag place p False change a b c d) = dg_original d" "dg_started (move_drag place p False change a b c d) = dg_started d"
  "dg_revert (move_drag place p False change a b c d) = dg_revert d" "dg_outside (move_drag place p False change a b c d) = dg_outside d"
  by (simp_all add: move_drag_def Let_def write_style_def)

lemma fold_move_keeps:
  "dg_original (fold (\<lambda>(q, f). move_drag place q False f False False False) ms d) = dg_original d \<and>
   dg_started (fold (\<lambda>(q, f). move_drag place q False f False False False) ms d) = dg_started d \<and>
   dg_revert (fold (\<lambda>(q, f). move_drag place q False f False False False) ms d) = dg_revert d \<and>
   dg_outside (fold (\<lambda>(q, f). move_drag place q False f False False False) ms d) = dg_outside d"
  by (induction ms arbitrary: d) (auto simp: move_drag_keeps split: prod.split)

text \<open>An element that was never dragged goes back when it reverts: after any moves, the style at the end of the
  animation is the one that puts it where it was on the page when the drag began, whatever the grid, the containment and the handlers did.\<close>

theorem revert_returns:
  assumes "dg_original d = None" and "\<not> dg_outside d" and "wants_revert dropped d"
  shows "let d1 = start_drag e p False d;
      d2 = drag_mouse_up dropped False v (fold (\<lambda>(q, f). move_drag place q False f False False False) ms d1);
      d3 = revert_done v d2
    in dg_reverting d2 \<and>
       convert_to True (dg_x d1) (fst (dg_style d3)) = fst (en_offset e) - fst (en_margin e) \<and>
       convert_to True (dg_y d1) (snd (dg_style d3)) = snd (en_offset e) - snd (en_margin e)"
proof -
  let ?d1 = "start_drag e p False d"
  let ?d2 = "fold (\<lambda>(q, f). move_drag place q False f False False False) ms ?d1"
  have x: "ax_relative (dg_x ?d1) = fst (en_relative e)" "ax_parent (dg_x ?d1) = fst (en_parent e)" "ax_scroll (dg_x ?d1) = fst (en_scroll e)"
    "ax_relative (dg_y ?d1) = snd (en_relative e)" "ax_parent (dg_y ?d1) = snd (en_parent e)" "ax_scroll (dg_y ?d1) = snd (en_scroll e)"
    by (simp_all add: start_drag_def Let_def write_style_def cursor_at_def offsets_at_def adjust_click_def split: option.split)
  have "dg_original ?d1 = Some (position_at (en_place e) p (offsets_at e p (d\<lparr>dg_helper := True\<rparr>)))"
    by (simp add: start_drag_def Let_def write_style_def cursor_at_def offsets_at_def)
  then have o: "dg_original ?d1 = Some (fst (en_offset e) - fst (en_margin e) - fst (en_relative e) - fst (en_parent e) + fst (en_scroll e),
      snd (en_offset e) - snd (en_margin e) - snd (en_relative e) - snd (en_parent e) + snd (en_scroll e))"
    using assms(1) by (simp add: position_at_def offsets_at_def generate_position_def constrain_page_def Let_def)
  have k: "dg_started ?d1" "dg_revert ?d1 = dg_revert d" "dg_outside ?d1 = dg_outside d"
    by (simp_all add: start_drag_def Let_def write_style_def cursor_at_def offsets_at_def)
  have m: "dg_original ?d2 = dg_original ?d1" "dg_started ?d2" "dg_revert ?d2 = dg_revert d" "\<not> dg_outside ?d2"
    using fold_move_keeps [of place ms ?d1] k assms(2) by simp_all
  have u: "drag_mouse_up dropped False v ?d2 = ?d2\<lparr>dg_started := False, dg_outside := False, dg_reverting := True\<rparr>"
    using m assms(3) by (simp add: drag_mouse_up_def stop_drag_def Let_def wants_revert_def)
  have "dg_style (revert_done v (drag_mouse_up dropped False v ?d2)) = the (dg_original ?d1)"
    unfolding u by (simp add: revert_done_def trigger_stop_def Let_def clear_drag_def m(1) o)
  then show ?thesis using x by (simp add: Let_def o u convert_to_def)
qed

section \<open>The order of stacked elements\<close>

lemma fold_stack_other:
  "e \<notin> sk_elem ` set g \<Longrightarrow> fold (\<lambda>(i, k) f. f(sk_elem k := low + int i)) (enumerate n g) z e = z e"
  by (induction g arbitrary: n z) simp_all

lemma fold_stack:
  "distinct (map sk_elem g) \<Longrightarrow> j < length g \<Longrightarrow>
   fold (\<lambda>(i, k) f. f(sk_elem k := low + int i)) (enumerate n g) z (sk_elem (g ! j)) = low + int (n + j)"
proof (induction g arbitrary: n j z)
  case (Cons k g)
  have "sk_elem k \<notin> sk_elem ` set g" using Cons.prems(1) by simp
  then show ?case using Cons fold_stack_other [of "sk_elem k" g low "Suc n" "z(sk_elem k := low + int n)"]
    by (cases j) (simp_all del: fun_upd_apply, simp)
qed simp

text \<open>A drag with the option \<open>stack\<close> puts the dragged element above every other of its group, and leaves the others
  in the order they had.\<close>

theorem stack_puts_on_top:
  assumes "distinct (map sk_elem members)" and "a \<in> set members" and "sk_elem a \<noteq> elem"
  shows "stack_drag elem members z (sk_elem a) < stack_drag elem members z elem \<and>
    (\<forall>b \<in> set members. sk_elem b \<noteq> elem \<longrightarrow> sk_css a < sk_css b \<longrightarrow>
      stack_drag elem members z (sk_elem a) < stack_drag elem members z (sk_elem b))"
proof -
  let ?g = "sort_key sk_css members"
  have "distinct (map sk_elem ?g)"
    using assms(1) by (simp add: distinct_map)
  then have f: "fold (\<lambda>(i, k) f. f(sk_elem k := low + int i)) (enumerate 0 ?g) z (sk_elem (?g ! j)) = low + int j" if "j < length ?g" for low j
    using fold_stack [of ?g j low 0 z] that by simp
  have "?g \<noteq> []" using assms(2) by (metis list.set(1) set_sort empty_iff)
  then obtain k g' where g: "?g = k # g'" by (cases ?g) auto
  have s: "stack_drag elem members z e =
      (if e = elem then sk_style k + int (length ?g) else fold (\<lambda>(i, c) f. f(sk_elem c := sk_style k + int i)) (enumerate 0 ?g) z e)" for e
    by (simp add: stack_drag_def Let_def g del: fold_simps enumerate_simps)
  have p: "stack_drag elem members z (sk_elem (?g ! j)) = sk_style k + int j" if "j < length ?g" "sk_elem (?g ! j) \<noteq> elem" for j
    unfolding s using f [OF that(1)] that(2) by simp
  have e: "stack_drag elem members z elem = sk_style k + int (length ?g)" unfolding s by simp
  have "a \<in> set ?g" using assms(2) by simp
  then obtain i where i: "i < length ?g" "?g ! i = a" unfolding in_set_conv_nth by blast
  have "stack_drag elem members z (sk_elem a) < stack_drag elem members z (sk_elem b)" if "b \<in> set members" "sk_elem b \<noteq> elem" "sk_css a < sk_css b" for b
  proof -
    have "b \<in> set ?g" using that(1) by simp
    then obtain j where j: "j < length ?g" "?g ! j = b" unfolding in_set_conv_nth by blast
    have "i < j"
    proof (rule ccontr)
      assume "\<not> i < j"
      then have "sk_css (?g ! j) \<le> sk_css (?g ! i)"
        using sorted_nth_mono [of "map sk_css ?g" j i] i(1) j(1) by simp
      then show False using i j that(3) by simp
    qed
    then show ?thesis using p [OF i(1)] p [OF j(1)] i j assms(3) that(2) by simp
  qed
  then show ?thesis using p [OF i(1)] e i assms(3) by auto
qed

lemma style_comes_back: "cur \<noteq> [] \<Longrightarrow> fst (restore_style (keep_style new (cur, kept))) = cur"
  by (simp add: keep_style_def restore_style_def)

section \<open>Examples\<close>

definition here :: "around \<Rightarrow> point \<Rightarrow> drag_env" where
  "here a off = \<lparr>en_offset = off, en_margin = (0, 0), en_margin_after = (0, 0), en_len = (10, 10), en_relative = (0, 0), en_parent = (0, 0),
     en_scroll = (0, 0), en_around = a, en_cursor_x = (None, None), en_cursor_y = (None, None), en_place = (\<lambda>c. (500, 500))\<rparr>"

definition reverting_widget :: "point option \<Rightarrow> drag_widget" where
  "reverting_widget grid = new_draggable False None grid AlwaysRevert True"

theorem drag_events_in_order_witness:
  "\<not> drag_capture False True (start_drag (here NoContainment (0, 0)) (5, 5) False (reverting_widget None))"
proof -
  have "drag_reachable (reverting_widget None)" unfolding reverting_widget_def by (rule drag_reachable.intros(1))
  moreover have "drag_step (reverting_widget None) (start_drag (here NoContainment (0, 0)) (5, 5) False (reverting_widget None))"
    by (rule begin_step [of False True]) (simp_all add: reverting_widget_def new_draggable_def drag_capture_def)
  ultimately have r: "drag_reachable (start_drag (here NoContainment (0, 0)) (5, 5) False (reverting_widget None))"
    by (rule drag_reachable.intros(2))
  have "dg_started (start_drag (here NoContainment (0, 0)) (5, 5) False (reverting_widget None))" by (simp add: start_drag_def Let_def)
  then show ?thesis using drag_events_in_order [OF r] by blast
qed

theorem revert_returns_witness:
  "let e = here (AroundLimits (0, 100) (0, 100)) (20, 30); d1 = start_drag e (25, 35) False (reverting_widget (Some (50, 50)));
      d3 = revert_done False (drag_mouse_up True False False (fold (\<lambda>(q, f). move_drag (\<lambda>c. (0, 0)) q False f False False False) [((80, 90), \<lambda>q. q)] d1))
   in convert_to True (dg_x d1) (fst (dg_style d3)) = 20"
  using revert_returns [of "reverting_widget (Some (50, 50))" True "here (AroundLimits (0, 100) (0, 100)) (20, 30)" "(25, 35)" False "\<lambda>c. (0, 0)" "[((80, 90), \<lambda>q. q)]"]
  by (simp add: Let_def reverting_widget_def new_draggable_def wants_revert_def here_def)

theorem stack_puts_on_top_witness:
  "stack_drag 7 [\<lparr>sk_elem = 7, sk_css = 0, sk_style = 0\<rparr>, \<lparr>sk_elem = 8, sk_css = 1, sk_style = 1\<rparr>] (\<lambda>i. 0) 8 <
   stack_drag 7 [\<lparr>sk_elem = 7, sk_css = 0, sk_style = 0\<rparr>, \<lparr>sk_elem = 8, sk_css = 1, sk_style = 1\<rparr>] (\<lambda>i. 0) 7"
  using stack_puts_on_top [of "[\<lparr>sk_elem = 7, sk_css = 0, sk_style = 0\<rparr>, \<lparr>sk_elem = 8, sk_css = 1, sk_style = 1\<rparr>]"
    "\<lparr>sk_elem = 8, sk_css = 1, sk_style = 1\<rparr>" 7 "\<lambda>i. 0"] by simp

text \<open>The comment in \<open>_generatePosition\<close> says that options do not count before a drag; from the second drag on they do: the
  element is at 50, is taken at 70, and what \<open>_mouseStart\<close> keeps as its original position is 30.\<close>

definition dragged_once :: "around \<Rightarrow> point option \<Rightarrow> drag_widget" where
  "dragged_once a grid = drag_mouse_up True False False (move_drag (\<lambda>c. (0, 0)) (50, 0) False (\<lambda>q. q) False False False
     (start_drag (here a (0, 0)) (0, 0) False (new_draggable False None grid NoRevert True)))"

lemma second_drag_reverts_elsewhere:
  "dg_style (dragged_once NoContainment (Some (50, 50))) = (50, 0) \<and>
   dg_original (start_drag (here NoContainment (50, 0)) (70, 0) False (dragged_once NoContainment (Some (50, 50)))) = Some (30, 0)"
  by code_simp

text \<open>A containment stays in force when the option is cleared, and limits that are given later are counted from the container that was there before.\<close>

lemma containment_outlives_option:
  "let d = start_drag (here NoContainment (50, 0)) (50, 0) False (dragged_once (AroundLimits (0, 60) (0, 60)) None)
   in dg_style (move_drag (\<lambda>c. (500, 500)) (300, 0) False (\<lambda>q. q) False False False d) = (60, 0)"
  by code_simp

definition plain_box :: box_measures where
  "plain_box = \<lparr>bx_border = 0, bx_pad_before = 0, bx_pad_after = 0, bx_offset_size = 100, bx_scroll_size = 100, bx_hidden = False\<rparr>"

lemma container_outlives_option:
  "let d = start_drag (here (AroundLimits (0, 60) (0, 60)) (50, 0)) (50, 0) False (dragged_once (AroundBox (Some (0, plain_box, plain_box))) None)
   in dg_style (move_drag (\<lambda>c. (500, 500)) (10, 0) False (\<lambda>q. q) False False False d) = (500, 500)"
  by code_simp

text \<open>\<open>cancel\<close> on an element that is not being dragged throws.\<close>

lemma cancel_idle_throws: "cancel_drag False False False (new_draggable a b g r h) = Inl TypeError"
  by (simp add: cancel_drag_def new_draggable_def)

end
