(* ===== verification/Ui_Resizable.thy ===== *)
theory Ui_Resizable
  imports Complex_Main Js_Prelude
begin

text \<open>
  Resizing by handles, \<open>jquery.ui.resizable.js\<close>: what a move of the mouse does to size and position, with the limits, the
  aspect ratio, the grid, the containment, and the elements that are resized along.  Sizes are rational numbers, since the
  ratio makes fractions of them; a field that is not there or is \<open>null\<close> is \<open>None\<close>.
\<close>

section \<open>State\<close>

datatype handle = HN | HE | HS | HW | HSE | HSW | HNE | HNW

type_synonym pair = "rat \<times> rat"

text \<open>The changes a move asks for.\<close>

record change =
  ch_left :: "rat option"
  ch_top :: "rat option"
  ch_width :: "rat option"
  ch_height :: "rat option"

text \<open>The option \<open>aspectRatio\<close>.\<close>

datatype ratio_option = NoRatio | OwnRatio | Ratio rat

record resizer =
  rz_handle :: handle
  rz_option :: ratio_option
  rz_min :: "rat option \<times> rat option"
  rz_max :: "rat option \<times> rat option"
  rz_ratio :: rat
  rz_size :: pair
  rz_pos :: pair
  rz_size0 :: pair
  rz_pos0 :: pair
  rz_shown_size :: pair
  rz_shown_pos :: pair

definition west :: "handle \<Rightarrow> bool" where
  "west a = (a \<in> {HSW, HNW, HW})"

definition north :: "handle \<Rightarrow> bool" where
  "north a = (a \<in> {HNW, HNE, HN})"

definition keeps_ratio :: "resizer \<Rightarrow> bool" where
  "keeps_ratio r = (case rz_option r of NoRatio \<Rightarrow> False | OwnRatio \<Rightarrow> True | Ratio q \<Rightarrow> q \<noteq> 0)"

text \<open>The ratio when a gesture starts: the number of the option, or that of the element, 1 if that is 0 or not a number.
  An element with a width but no height has an infinite ratio, which is left aside.\<close>

definition start_ratio :: "ratio_option \<Rightarrow> pair \<Rightarrow> rat option" where
  "start_ratio opt sz =
     (case opt of
        Ratio q \<Rightarrow> Some q
      | _ \<Rightarrow> if snd sz = 0 then (if fst sz = 0 then Some 1 else None)
             else Some (if fst sz = 0 then 1 else fst sz / snd sz))"

definition start_resize :: "handle \<Rightarrow> pair \<Rightarrow> pair \<Rightarrow> resizer \<Rightarrow> resizer option" where
  "start_resize a pos sz r =
     (case start_ratio (rz_option r) sz of
        None \<Rightarrow> None
      | Some q \<Rightarrow> Some (r\<lparr>rz_handle := a, rz_ratio := q, rz_size := sz, rz_pos := pos, rz_size0 := sz, rz_pos0 := pos,
          rz_shown_size := sz, rz_shown_pos := pos\<rparr>))"

section \<open>A move of the mouse\<close>

definition no_change :: change where
  "no_change = \<lparr>ch_left = None, ch_top = None, ch_width = None, ch_height = None\<rparr>"

definition change_e :: "resizer \<Rightarrow> rat \<Rightarrow> rat \<Rightarrow> change \<Rightarrow> change" where
  "change_e r dx dy c = c\<lparr>ch_width := Some (fst (rz_size0 r) + dx)\<rparr>"

definition change_w :: "resizer \<Rightarrow> rat \<Rightarrow> rat \<Rightarrow> change \<Rightarrow> change" where
  "change_w r dx dy c = c\<lparr>ch_left := Some (fst (rz_pos0 r) + dx), ch_width := Some (fst (rz_size0 r) - dx)\<rparr>"

definition change_n :: "resizer \<Rightarrow> rat \<Rightarrow> rat \<Rightarrow> change \<Rightarrow> change" where
  "change_n r dx dy c = c\<lparr>ch_top := Some (snd (rz_pos0 r) + dy), ch_height := Some (snd (rz_size0 r) - dy)\<rparr>"

definition change_s :: "resizer \<Rightarrow> rat \<Rightarrow> rat \<Rightarrow> change \<Rightarrow> change" where
  "change_s r dx dy c = c\<lparr>ch_height := Some (snd (rz_size0 r) + dy)\<rparr>"

text \<open>The corners do both: what the second gives extends what the first gives.\<close>

definition change_of :: "resizer \<Rightarrow> rat \<Rightarrow> rat \<Rightarrow> change" where
  "change_of r dx dy =
     (case rz_handle r of
        HE \<Rightarrow> change_e r dx dy no_change
      | HW \<Rightarrow> change_w r dx dy no_change
      | HN \<Rightarrow> change_n r dx dy no_change
      | HS \<Rightarrow> change_s r dx dy no_change
      | HSE \<Rightarrow> change_e r dx dy (change_s r dx dy no_change)
      | HSW \<Rightarrow> change_w r dx dy (change_s r dx dy no_change)
      | HNE \<Rightarrow> change_e r dx dy (change_n r dx dy no_change)
      | HNW \<Rightarrow> change_w r dx dy (change_n r dx dy no_change))"

text \<open>The limits; no upper limit is \<open>None\<close>.  With a ratio each is raised or lowered to what the other one asks for.\<close>

record limits =
  lm_min_w :: rat
  lm_max_w :: "rat option"
  lm_min_h :: rat
  lm_max_h :: "rat option"

definition less_max :: "rat option \<Rightarrow> rat option \<Rightarrow> bool" where
  "less_max a b = (case a of None \<Rightarrow> False | Some x \<Rightarrow> (case b of None \<Rightarrow> True | Some y \<Rightarrow> x < y))"

definition virtual_limits :: "bool \<Rightarrow> resizer \<Rightarrow> limits" where
  "virtual_limits shift r =
     (let b = \<lparr>lm_min_w = (case fst (rz_min r) of Some m \<Rightarrow> m | None \<Rightarrow> 0), lm_max_w = fst (rz_max r),
               lm_min_h = (case snd (rz_min r) of Some m \<Rightarrow> m | None \<Rightarrow> 0), lm_max_h = snd (rz_max r)\<rparr>
      in if keeps_ratio r \<or> shift
         then let min_w = lm_min_h b * rz_ratio r; min_h = lm_min_w b / rz_ratio r;
                  max_w = map_option (\<lambda>m. m * rz_ratio r) (lm_max_h b); max_h = map_option (\<lambda>m. m / rz_ratio r) (lm_max_w b)
              in \<lparr>lm_min_w = (if min_w > lm_min_w b then min_w else lm_min_w b), lm_max_w = (if less_max max_w (lm_max_w b) then max_w else lm_max_w b),
                  lm_min_h = (if min_h > lm_min_h b then min_h else lm_min_h b), lm_max_h = (if less_max max_h (lm_max_h b) then max_h else lm_max_h b)\<rparr>
         else b)"

definition update_ratio :: "resizer \<Rightarrow> change \<Rightarrow> change" where
  "update_ratio r c =
     (let c1 = (case ch_height c of
                  Some h \<Rightarrow> c\<lparr>ch_width := Some (h * rz_ratio r)\<rparr>
                | None \<Rightarrow> (case ch_width c of Some w \<Rightarrow> c\<lparr>ch_height := Some (w / rz_ratio r)\<rparr> | None \<Rightarrow> c));
          left = fst (rz_pos r) + (fst (rz_size r) - (case ch_width c1 of Some w \<Rightarrow> w | None \<Rightarrow> 0));
          top = snd (rz_pos r) + (snd (rz_size r) - (case ch_height c1 of Some h \<Rightarrow> h | None \<Rightarrow> 0))
      in case rz_handle r of
           HSW \<Rightarrow> c1\<lparr>ch_left := Some left, ch_top := None\<rparr>
         | HNW \<Rightarrow> c1\<lparr>ch_top := Some top, ch_left := Some left\<rparr>
         | _ \<Rightarrow> c1)"

definition is_zero :: "rat option \<Rightarrow> bool" where
  "is_zero v = (v = None \<or> v = Some 0)"

text \<open>A limit of 0 does not count.\<close>

definition too_small :: "rat \<Rightarrow> rat option \<Rightarrow> bool" where
  "too_small m v = (case v of None \<Rightarrow> False | Some x \<Rightarrow> m \<noteq> 0 \<and> m > x)"

definition too_big :: "rat option \<Rightarrow> rat option \<Rightarrow> bool" where
  "too_big m v = (case v of None \<Rightarrow> False | Some x \<Rightarrow> (case m of None \<Rightarrow> False | Some y \<Rightarrow> y \<noteq> 0 \<and> y < x))"

definition limit_len :: "rat \<Rightarrow> rat option \<Rightarrow> rat option \<Rightarrow> rat option" where
  "limit_len lo hi v = (if too_big hi v then hi else if too_small lo v then Some lo else v)"

definition respect_len :: "bool \<Rightarrow> rat \<Rightarrow> rat \<Rightarrow> rat option \<Rightarrow> rat option \<Rightarrow> rat option \<Rightarrow> rat option" where
  "respect_len near edge lo hi v p =
     (if too_big hi v \<and> near then Some (edge - the hi) else if too_small lo v \<and> near then Some (edge - lo) else p)"

definition respect_size :: "limits \<Rightarrow> resizer \<Rightarrow> change \<Rightarrow> change" where
  "respect_size b r c =
     (let w = limit_len (lm_min_w b) (lm_max_w b) (ch_width c);
          h = limit_len (lm_min_h b) (lm_max_h b) (ch_height c);
          left = respect_len (west (rz_handle r)) (fst (rz_pos0 r) + fst (rz_size0 r)) (lm_min_w b) (lm_max_w b) (ch_width c) (ch_left c);
          top = respect_len (north (rz_handle r)) (snd (rz_pos r) + snd (rz_size r)) (lm_min_h b) (lm_max_h b) (ch_height c) (ch_top c);
          c1 = \<lparr>ch_left = left, ch_top = top, ch_width = w, ch_height = h\<rparr>
      in if is_zero w \<and> is_zero h \<and> is_zero left \<and> \<not> is_zero top then c1\<lparr>ch_top := None\<rparr>
         else if is_zero w \<and> is_zero h \<and> is_zero top \<and> \<not> is_zero left then c1\<lparr>ch_left := None\<rparr>
         else c1)"

definition update_cache :: "change \<Rightarrow> resizer \<Rightarrow> resizer" where
  "update_cache c r =
     r\<lparr>rz_pos := (case ch_left c of Some v \<Rightarrow> v | None \<Rightarrow> fst (rz_pos r), case ch_top c of Some v \<Rightarrow> v | None \<Rightarrow> snd (rz_pos r)),
       rz_size := (case ch_width c of Some v \<Rightarrow> v | None \<Rightarrow> fst (rz_size r), case ch_height c of Some v \<Rightarrow> v | None \<Rightarrow> snd (rz_size r))\<rparr>"

definition resize_change :: "bool \<Rightarrow> rat \<Rightarrow> rat \<Rightarrow> resizer \<Rightarrow> change" where
  "resize_change shift dx dy r =
     (let c = change_of r dx dy; c1 = (if keeps_ratio r \<or> shift then update_ratio r c else c)
      in respect_size (virtual_limits shift r) r c1)"

text \<open>\<open>_mouseDrag\<close>: the plugins change size and position, which are then shown, and only then updated.\<close>

definition show_resizer :: "resizer \<Rightarrow> resizer" where
  "show_resizer r = r\<lparr>rz_shown_size := rz_size r, rz_shown_pos := rz_pos r\<rparr>"

definition resize_drag :: "(bool \<Rightarrow> resizer \<Rightarrow> resizer) \<Rightarrow> bool \<Rightarrow> rat \<Rightarrow> rat \<Rightarrow> resizer \<Rightarrow> resizer" where
  "resize_drag plugins shift dx dy r =
     (let c = resize_change shift dx dy r in update_cache c (show_resizer (plugins shift r)))"

section \<open>Plugins\<close>

definition round_rat :: "rat \<Rightarrow> rat" where
  "round_rat x = of_int \<lfloor>x + 1 / 2\<rfloor>"

text \<open>A grid step of 0 counts as 1.\<close>

definition grid_steps :: "rat \<Rightarrow> rat \<Rightarrow> rat" where
  "grid_steps g d = (let s = (if g = 0 then 1 else g) in round_rat (d / s) * s)"

definition grid_resize :: "pair \<Rightarrow> resizer \<Rightarrow> resizer" where
  "grid_resize g r =
     (let ox = grid_steps (fst g) (fst (rz_size r) - fst (rz_size0 r)); oy = grid_steps (snd g) (snd (rz_size r) - snd (rz_size0 r));
          r1 = r\<lparr>rz_size := (fst (rz_size0 r) + ox, snd (rz_size0 r) + oy)\<rparr>;
          left = fst (rz_pos0 r) - ox; top = snd (rz_pos0 r) - oy
      in case rz_handle r of
           HSE \<Rightarrow> r1 | HS \<Rightarrow> r1 | HE \<Rightarrow> r1
         | HNE \<Rightarrow> r1\<lparr>rz_pos := (fst (rz_pos r1), top)\<rparr>
         | HSW \<Rightarrow> r1\<lparr>rz_pos := (left, snd (rz_pos r1))\<rparr>
         | _ \<Rightarrow> r1\<lparr>rz_pos := (left, top)\<rparr>)"

text \<open>The option \<open>aspectRatio\<close> as a number, by which some lines divide: \<open>true\<close> counts as 1, \<open>false\<close> as 0.\<close>

definition option_number :: "ratio_option \<Rightarrow> rat" where
  "option_number opt = (case opt of NoRatio \<Rightarrow> 0 | OwnRatio \<Rightarrow> 1 | Ratio q \<Rightarrow> q)"

record container =
  ct_static :: bool
  ct_offset :: pair
  ct_size :: pair
  ct_is_parent :: bool
  ct_positioned :: bool

text \<open>The containment: the near edges, then the far ones.  \<open>helper\<close> is the option, \<open>has_helper\<close> says that there is a helper, of
  the option or for animation.  \<open>None\<close> if a size comes out infinite.\<close>

definition contain_left :: "container \<Rightarrow> bool \<Rightarrow> bool \<Rightarrow> bool \<Rightarrow> resizer \<Rightarrow> resizer option" where
  "contain_left k helper has_helper ratio r =
     (let cop = (if ct_static k then fst (ct_offset k) else 0); co = fst (ct_offset k)
      in if fst (rz_pos r) < (if has_helper then co else 0)
         then let w = fst (rz_size r) + (if has_helper then fst (rz_pos r) - co else fst (rz_pos r) - cop)
              in if ratio \<and> option_number (rz_option r) = 0 then None
                 else Some (r\<lparr>rz_size := (w, if ratio then w / option_number (rz_option r) else snd (rz_size r)),
                              rz_pos := (if helper then co else 0, snd (rz_pos r))\<rparr>)
         else Some r)"

definition contain_top :: "container \<Rightarrow> bool \<Rightarrow> bool \<Rightarrow> resizer \<Rightarrow> resizer" where
  "contain_top k has_helper ratio r =
     (let co = snd (ct_offset k)
      in if snd (rz_pos r) < (if has_helper then co else 0)
         then let h = snd (rz_size r) + (if has_helper then snd (rz_pos r) - co else snd (rz_pos r))
              in r\<lparr>rz_size := (if ratio then h * option_number (rz_option r) else fst (rz_size r), h),
                   rz_pos := (fst (rz_pos r), if has_helper then co else 0)\<rparr>
         else r)"

definition contain_far :: "container \<Rightarrow> pair \<Rightarrow> bool \<Rightarrow> bool \<Rightarrow> resizer \<Rightarrow> resizer" where
  "contain_far k diff has_helper ratio r =
     (let cop = (if ct_static k then fst (ct_offset k) else 0); cop_top = (if ct_static k \<or> \<not> has_helper then snd (ct_offset k) else 0);
          woset0 = \<bar>fst (ct_offset k) + fst (rz_pos r) - cop + fst diff\<bar>;
          hoset = \<bar>snd (ct_offset k) + snd (rz_pos r) - cop_top + snd diff\<bar>;
          woset = (if ct_is_parent k \<and> ct_positioned k then woset0 - fst (ct_offset k) else woset0);
          r1 = (if woset + fst (rz_size r) \<ge> fst (ct_size k)
                then let w = fst (ct_size k) - woset in r\<lparr>rz_size := (w, if ratio then w / rz_ratio r else snd (rz_size r))\<rparr> else r)
      in if hoset + snd (rz_size r1) \<ge> snd (ct_size k)
         then let h = snd (ct_size k) - hoset in r1\<lparr>rz_size := (if ratio then h * rz_ratio r1 else fst (rz_size r1), h)\<rparr>
         else r1)"

definition contain_resize :: "container \<Rightarrow> pair \<Rightarrow> bool \<Rightarrow> bool \<Rightarrow> bool \<Rightarrow> resizer \<Rightarrow> resizer option" where
  "contain_resize k diff helper has_helper ratio r =
     map_option (\<lambda>r1. contain_far k diff has_helper ratio (contain_top k has_helper ratio r1)) (contain_left k helper has_helper ratio r)"

text \<open>\<open>alsoResize\<close>: what is written of a side of another element, if anything.\<close>

definition also_resize :: "rat option \<Rightarrow> rat \<Rightarrow> rat option" where
  "also_resize start delta = (let s = (case start of Some v \<Rightarrow> v | None \<Rightarrow> 0) + delta in if s > 0 then Some s else None)"

text \<open>The end, with a helper and without animation: the size of the element, and what is written of its \<open>left\<close> or \<open>top\<close>; a
  style of \<open>null\<close> is not written.\<close>

definition final_place :: "rat option \<Rightarrow> rat \<Rightarrow> rat \<Rightarrow> rat option" where
  "final_place css pos pos0 = (case css of None \<Rightarrow> None | Some v \<Rightarrow> let p = v + (pos - pos0) in if p = 0 then None else Some p)"

definition inner_size :: "rat \<Rightarrow> rat \<Rightarrow> rat \<Rightarrow> rat" where
  "inner_size len near far = len - near - far"

section \<open>Limits and ratio\<close>

lemma limit_len_within:
  "0 < lo \<Longrightarrow> (case hi of None \<Rightarrow> True | Some y \<Rightarrow> lo \<le> y) \<Longrightarrow> limit_len lo hi (Some x) = Some z \<Longrightarrow>
   lo \<le> z \<and> (case hi of None \<Rightarrow> True | Some y \<Rightarrow> z \<le> y)"
  by (cases hi) (auto simp: limit_len_def too_big_def too_small_def split: if_splits)

lemma limit_len_nonzero: "0 < lo \<Longrightarrow> limit_len lo hi (Some x) \<noteq> Some 0"
  by (cases hi) (auto simp: limit_len_def too_big_def too_small_def)

lemma limit_len_None [simp]: "limit_len lo hi None = None"
  by (simp add: limit_len_def too_big_def too_small_def)

lemma limit_len_Some: "\<exists>z. limit_len lo hi (Some x) = Some z"
  by (cases hi) (auto simp: limit_len_def too_big_def too_small_def)

lemma respect_size_len:
  "ch_width (respect_size b r c) = limit_len (lm_min_w b) (lm_max_w b) (ch_width c)"
  "ch_height (respect_size b r c) = limit_len (lm_min_h b) (lm_max_h b) (ch_height c)"
  by (simp_all add: respect_size_def Let_def)

text \<open>Whatever the mouse does, a new width and a new height are within the limits, if these are positive and do not contradict each other.\<close>

theorem resize_within_limits:
  assumes "b = virtual_limits shift r" and "0 < lm_min_w b" and "0 < lm_min_h b"
    and "case lm_max_w b of None \<Rightarrow> True | Some y \<Rightarrow> lm_min_w b \<le> y" and "case lm_max_h b of None \<Rightarrow> True | Some y \<Rightarrow> lm_min_h b \<le> y"
  shows "(case ch_width (resize_change shift dx dy r) of None \<Rightarrow> True
            | Some w \<Rightarrow> lm_min_w b \<le> w \<and> (case lm_max_w b of None \<Rightarrow> True | Some y \<Rightarrow> w \<le> y)) \<and>
    (case ch_height (resize_change shift dx dy r) of None \<Rightarrow> True
            | Some h \<Rightarrow> lm_min_h b \<le> h \<and> (case lm_max_h b of None \<Rightarrow> True | Some y \<Rightarrow> h \<le> y))"
proof -
  let ?c = "if keeps_ratio r \<or> shift then update_ratio r (change_of r dx dy) else change_of r dx dy"
  have l: "ch_width (resize_change shift dx dy r) = limit_len (lm_min_w b) (lm_max_w b) (ch_width ?c)"
    "ch_height (resize_change shift dx dy r) = limit_len (lm_min_h b) (lm_max_h b) (ch_height ?c)"
    by (simp_all add: resize_change_def Let_def respect_size_len assms(1))
  have "case limit_len lo hi v of None \<Rightarrow> True | Some z \<Rightarrow> lo \<le> z \<and> (case hi of None \<Rightarrow> True | Some y \<Rightarrow> z \<le> y)"
    if "0 < lo" "case hi of None \<Rightarrow> True | Some y \<Rightarrow> lo \<le> y" for lo hi v
    using limit_len_within [OF that] by (cases v) (auto split: option.split)
  then show ?thesis unfolding l using assms(2-5) by blast
qed

text \<open>With a ratio, each limit of the width is the ratio times that of the height.\<close>

lemma virtual_limits_ratio:
  assumes "keeps_ratio r \<or> shift" and "0 < rz_ratio r"
  shows "lm_min_w (virtual_limits shift r) = lm_min_h (virtual_limits shift r) * rz_ratio r \<and>
    lm_max_w (virtual_limits shift r) = map_option (\<lambda>m. m * rz_ratio r) (lm_max_h (virtual_limits shift r))"
proof -
  have lt: "(m < w / rz_ratio r) = (m * rz_ratio r < w)" "(w / rz_ratio r < m) = (w < m * rz_ratio r)" for m w
    using assms(2) by (simp_all add: pos_less_divide_eq pos_divide_less_eq)
  have q: "w / rz_ratio r * rz_ratio r = w" for w using assms(2) by simp
  have "rz_ratio r \<noteq> 0" using assms(2) by simp
  then show ?thesis using assms(1)
    by (cases "fst (rz_max r)"; cases "snd (rz_max r)") (simp_all add: virtual_limits_def Let_def less_max_def lt q)
qed

lemma limit_len_scale:
  assumes "0 < q"
  shows "limit_len (lo * q) (map_option (\<lambda>m. m * q) hi) (Some (x * q)) = map_option (\<lambda>z. z * q) (limit_len lo hi (Some x))"
  using assms by (cases hi) (auto simp: limit_len_def too_big_def too_small_def)

lemma change_of_some: "ch_width (change_of r dx dy) \<noteq> None \<or> ch_height (change_of r dx dy) \<noteq> None"
  by (simp add: change_of_def change_e_def change_w_def change_n_def change_s_def split: handle.split)

lemma update_ratio_scaled:
  assumes "0 < rz_ratio r" and "ch_width c \<noteq> None \<or> ch_height c \<noteq> None"
  shows "\<exists>h. ch_height (update_ratio r c) = Some h \<and> ch_width (update_ratio r c) = Some (h * rz_ratio r)"
  using assms by (cases "ch_height c"; cases "ch_width c"; cases "rz_handle r") (simp_all add: update_ratio_def Let_def)

text \<open>With a ratio, of the option or by the shift key, every move asks for a width that is the ratio times the height,
  also where a limit cuts it.\<close>

theorem resize_keeps_ratio:
  assumes "keeps_ratio r \<or> shift" and "0 < rz_ratio r"
  shows "\<exists>h. ch_height (resize_change shift dx dy r) = Some h \<and> ch_width (resize_change shift dx dy r) = Some (h * rz_ratio r)"
proof -
  obtain h where h: "ch_height (update_ratio r (change_of r dx dy)) = Some h"
    "ch_width (update_ratio r (change_of r dx dy)) = Some (h * rz_ratio r)"
    using update_ratio_scaled [OF assms(2) change_of_some] by blast
  let ?b = "virtual_limits shift r"
  obtain z where z: "limit_len (lm_min_h ?b) (lm_max_h ?b) (Some h) = Some z" using limit_len_Some by blast
  have "limit_len (lm_min_w ?b) (lm_max_w ?b) (Some (h * rz_ratio r)) = Some (z * rz_ratio r)"
    using limit_len_scale [OF assms(2)] virtual_limits_ratio [OF assms] z by simp
  then show ?thesis using assms(1) h z by (simp add: resize_change_def Let_def respect_size_len)
qed

section \<open>The edge opposite to the handle\<close>

definition edges_ok :: "resizer \<Rightarrow> bool" where
  "edges_ok r \<longleftrightarrow>
     (if west (rz_handle r) then fst (rz_pos r) + fst (rz_size r) = fst (rz_pos0 r) + fst (rz_size0 r) else fst (rz_pos r) = fst (rz_pos0 r)) \<and>
     (if north (rz_handle r) then snd (rz_pos r) + snd (rz_size r) = snd (rz_pos0 r) + snd (rz_size0 r) else snd (rz_pos r) = snd (rz_pos0 r))"

text \<open>A change leaves an edge: of one axis, with the sum of position and size that it has to keep.\<close>

definition keeps_edge :: "bool \<Rightarrow> rat \<Rightarrow> rat option \<Rightarrow> rat option \<Rightarrow> bool" where
  "keeps_edge near edge p v \<longleftrightarrow> p = (if near then map_option (\<lambda>x. edge - x) v else None)"

lemma keeps_edge_respect:
  "keeps_edge near edge p v \<Longrightarrow> keeps_edge near edge (respect_len near edge lo hi v p) (limit_len lo hi v)"
  by (cases v; cases hi) (auto simp: keeps_edge_def respect_len_def limit_len_def too_small_def too_big_def)

lemma change_edges:
  assumes "edges_ok r" and "c = (if ratio then update_ratio r (change_of r dx dy) else change_of r dx dy)"
  shows "keeps_edge (west (rz_handle r)) (fst (rz_pos0 r) + fst (rz_size0 r)) (ch_left c) (ch_width c) \<and>
    (keeps_edge (north (rz_handle r)) (snd (rz_pos r) + snd (rz_size r)) (ch_top c) (ch_height c))"
  using assms
  by (cases "rz_handle r"; cases ratio)
    (simp_all add: edges_ok_def west_def north_def keeps_edge_def update_ratio_def change_of_def change_e_def change_w_def change_n_def
      change_s_def no_change_def Let_def algebra_simps)

lemma resize_change_edges:
  assumes ok: "edges_ok r" and m: "0 < lm_min_w (virtual_limits shift r)" "0 < lm_min_h (virtual_limits shift r)"
  shows "keeps_edge (west (rz_handle r)) (fst (rz_pos0 r) + fst (rz_size0 r)) (ch_left (resize_change shift dx dy r)) (ch_width (resize_change shift dx dy r))"
    and "keeps_edge (north (rz_handle r)) (snd (rz_pos r) + snd (rz_size r)) (ch_top (resize_change shift dx dy r)) (ch_height (resize_change shift dx dy r))"
proof -
  let ?b = "virtual_limits shift r"
  let ?c = "if keeps_ratio r \<or> shift then update_ratio r (change_of r dx dy) else change_of r dx dy"
  have e: "keeps_edge (west (rz_handle r)) (fst (rz_pos0 r) + fst (rz_size0 r)) (ch_left ?c) (ch_width ?c)"
    "keeps_edge (north (rz_handle r)) (snd (rz_pos r) + snd (rz_size r)) (ch_top ?c) (ch_height ?c)"
    using change_edges [OF ok refl, of "keeps_ratio r \<or> shift" dx dy] by blast+
  have "ch_width ?c \<noteq> None \<or> ch_height ?c \<noteq> None"
    using change_of_some [of r dx dy] by (auto simp: update_ratio_def Let_def split: handle.split option.split)
  then have "\<not> (is_zero (limit_len (lm_min_w ?b) (lm_max_w ?b) (ch_width ?c)) \<and> is_zero (limit_len (lm_min_h ?b) (lm_max_h ?b) (ch_height ?c)))"
    using limit_len_nonzero [OF m(1)] limit_len_nonzero [OF m(2)] limit_len_Some by (metis is_zero_def option.distinct(1) option.exhaust)
  then have "ch_left (resize_change shift dx dy r) = respect_len (west (rz_handle r)) (fst (rz_pos0 r) + fst (rz_size0 r)) (lm_min_w ?b) (lm_max_w ?b) (ch_width ?c) (ch_left ?c)"
    "ch_top (resize_change shift dx dy r) = respect_len (north (rz_handle r)) (snd (rz_pos r) + snd (rz_size r)) (lm_min_h ?b) (lm_max_h ?b) (ch_height ?c) (ch_top ?c)"
    unfolding resize_change_def respect_size_def Let_def by auto
  moreover have "ch_width (resize_change shift dx dy r) = limit_len (lm_min_w ?b) (lm_max_w ?b) (ch_width ?c)"
    "ch_height (resize_change shift dx dy r) = limit_len (lm_min_h ?b) (lm_max_h ?b) (ch_height ?c)"
    by (simp_all add: resize_change_def Let_def respect_size_len)
  ultimately show "keeps_edge (west (rz_handle r)) (fst (rz_pos0 r) + fst (rz_size0 r)) (ch_left (resize_change shift dx dy r)) (ch_width (resize_change shift dx dy r))"
    "keeps_edge (north (rz_handle r)) (snd (rz_pos r) + snd (rz_size r)) (ch_top (resize_change shift dx dy r)) (ch_height (resize_change shift dx dy r))"
    using keeps_edge_respect [OF e(1)] keeps_edge_respect [OF e(2)] by simp_all
qed

lemma update_cache_edges:
  assumes "edges_ok r" and "keeps_edge (west (rz_handle r)) (fst (rz_pos0 r) + fst (rz_size0 r)) (ch_left c) (ch_width c)"
    and "keeps_edge (north (rz_handle r)) (snd (rz_pos r) + snd (rz_size r)) (ch_top c) (ch_height c)"
  shows "edges_ok (update_cache c r)"
  using assms by (cases "ch_width c"; cases "ch_height c") (auto simp: edges_ok_def keeps_edge_def update_cache_def split: if_splits)

definition same_gesture :: "resizer \<Rightarrow> resizer \<Rightarrow> bool" where
  "same_gesture r r' \<longleftrightarrow> rz_handle r' = rz_handle r \<and> rz_option r' = rz_option r \<and> rz_min r' = rz_min r \<and> rz_max r' = rz_max r \<and>
     rz_ratio r' = rz_ratio r \<and> rz_pos0 r' = rz_pos0 r \<and> rz_size0 r' = rz_size0 r"

lemma same_gesture_limits: "same_gesture r r' \<Longrightarrow> virtual_limits s r' = virtual_limits s r"
  by (simp add: same_gesture_def virtual_limits_def keeps_ratio_def Let_def)

lemma limits_positive: "0 < a \<Longrightarrow> 0 < b \<Longrightarrow> rz_min r = (Some a, Some b) \<Longrightarrow> 0 < lm_min_w (virtual_limits s r) \<and> 0 < lm_min_h (virtual_limits s r)"
  by (auto simp: virtual_limits_def Let_def)

text \<open>One step: the plugins may change anything but the gesture and the edge.\<close>

lemma resize_drag_edges:
  assumes "edges_ok r" and "0 < lm_min_w (virtual_limits s r)" "0 < lm_min_h (virtual_limits s r)"
  shows "edges_ok (resize_drag (\<lambda>_ r. r) s dx dy r) \<and> same_gesture r (resize_drag (\<lambda>_ r. r) s dx dy r)"
proof -
  have "edges_ok (update_cache (resize_change s dx dy r) (show_resizer r))"
    by (rule update_cache_edges) (use resize_change_edges [OF assms] assms(1) in \<open>simp_all add: show_resizer_def edges_ok_def\<close>)
  then show ?thesis by (simp add: resize_drag_def Let_def same_gesture_def update_cache_def show_resizer_def)
qed

text \<open>C32: Through a whole gesture, with the shift key pressed or not at any time, the edge or corner opposite to the handle stays where
  it was, also when a maximum, a minimum or the ratio cuts the size.  This is for a resizable without the plug-ins that change its size or place (\<open>grid\<close> and \<open>containment\<close>, among
  others), with positive minimum width and height, and a start at which its ratio can be computed.
\<close>

theorem opposite_edge_fixed:
  assumes "start_resize a pos sz r0 = Some r" and "rz_min r0 = (Some m, Some n)" and "0 < m" and "0 < n"
  shows "let r' = fold (\<lambda>(s, dx, dy). resize_drag (\<lambda>_ r. r) s dx dy) moves r
    in (if west a then fst (rz_pos r') + fst (rz_size r') = fst pos + fst sz else fst (rz_pos r') = fst pos) \<and>
       (if north a then snd (rz_pos r') + snd (rz_size r') = snd pos + snd sz else snd (rz_pos r') = snd pos)"
proof -
  have g: "edges_ok r \<Longrightarrow> rz_min r = (Some m, Some n) \<Longrightarrow>
      edges_ok (fold (\<lambda>(s, dx, dy). resize_drag (\<lambda>_ r. r) s dx dy) moves r) \<and>
      same_gesture r (fold (\<lambda>(s, dx, dy). resize_drag (\<lambda>_ r. r) s dx dy) moves r)" for r
  proof (induction moves arbitrary: r)
    case (Cons mv moves)
    obtain s dx dy where mv: "mv = (s, dx, dy)" by (cases mv)
    have l: "0 < lm_min_w (virtual_limits s r)" "0 < lm_min_h (virtual_limits s r)"
      using limits_positive [OF assms(3,4) Cons.prems(2)] by blast+
    let ?r = "resize_drag (\<lambda>_ r. r) s dx dy r"
    have "edges_ok ?r" "same_gesture r ?r" using resize_drag_edges [OF Cons.prems(1) l] by blast+
    moreover have "rz_min ?r = (Some m, Some n)" using calculation(2) Cons.prems(2) by (simp add: same_gesture_def)
    ultimately show ?case using Cons.IH [of ?r] by (auto simp: mv same_gesture_def)
  qed (simp add: same_gesture_def)
  have i: "edges_ok r" "rz_min r = (Some m, Some n)" "rz_handle r = a" "rz_pos0 r = pos" "rz_size0 r = sz"
    using assms(1,2) by (auto simp: start_resize_def edges_ok_def split: option.splits)
  let ?r = "fold (\<lambda>(s, dx, dy). resize_drag (\<lambda>_ r. r) s dx dy) moves r"
  have "edges_ok ?r" "same_gesture r ?r" using g [OF i(1,2)] by blast+
  then show ?thesis using i(3-5) by (simp only: Let_def edges_ok_def same_gesture_def)
qed

text \<open>The grid moves that edge only by the steps that it adds to a size the handle does not change.\<close>

lemma grid_keeps_corner: "edges_ok r \<Longrightarrow> rz_handle r \<in> {HE, HS, HSE, HNE, HSW, HNW} \<Longrightarrow> edges_ok (grid_resize g r)"
  by (cases "rz_handle r") (simp_all add: edges_ok_def grid_resize_def Let_def west_def north_def)

text \<open>In the element that is its parent and is positioned, an element without helper and ratio is kept inside: after the plugin \<open>containment\<close> it does
  not begin before the container, and it does not end after it.\<close>

theorem resize_stays_in_container:
  assumes "contain_resize k diff helper False False r = Some r'" and "ct_is_parent k" "ct_positioned k" "\<not> ct_static k"
    and "0 \<le> fst (ct_offset k)" "0 \<le> fst diff" "0 \<le> snd diff"
  shows "0 \<le> snd (rz_pos r') \<and> (helper \<or> 0 \<le> fst (rz_pos r')) \<and>
    (0 \<le> fst (rz_pos r') \<longrightarrow> fst (rz_pos r') + fst diff + fst (rz_size r') \<le> fst (ct_size k)) \<and>
    snd (rz_pos r') + snd diff + snd (rz_size r') \<le> snd (ct_size k)"
proof -
  obtain r1 where r1: "contain_left k helper False False r = Some r1" "r' = contain_far k diff False False (contain_top k False False r1)"
    using assms(1) by (auto simp: contain_resize_def)
  let ?r2 = "contain_top k False False r1"
  have l: "helper \<or> 0 \<le> fst (rz_pos r1)" using r1(1) by (auto simp: contain_left_def Let_def split: if_splits)
  have t: "0 \<le> snd (rz_pos ?r2)" "fst (rz_pos ?r2) = fst (rz_pos r1)" by (simp_all add: contain_top_def Let_def)
  have p: "rz_pos r' = rz_pos ?r2" unfolding r1(2) by (simp add: contain_far_def Let_def)
  let ?w = "\<bar>fst (ct_offset k) + fst (rz_pos ?r2) + fst diff\<bar> - fst (ct_offset k)"
  let ?h = "\<bar>snd (rz_pos ?r2) + snd diff\<bar>"
  have "?w + fst (rz_size r') \<le> fst (ct_size k)" unfolding r1(2) using assms(2-4) by (auto simp: contain_far_def Let_def)
  moreover have "?h + snd (rz_size r') \<le> snd (ct_size k)" unfolding r1(2) using assms(2-4) by (auto simp: contain_far_def Let_def)
  ultimately show ?thesis using l t p assms(5-7) by auto
qed

section \<open>Examples\<close>

definition rz_box :: "ratio_option \<Rightarrow> rat option \<Rightarrow> resizer" where
  "rz_box opt mx = \<lparr>rz_handle = HSE, rz_option = opt, rz_min = (Some 10, Some 10), rz_max = (mx, mx), rz_ratio = 1, rz_size = (0, 0), rz_pos = (0, 0),
     rz_size0 = (0, 0), rz_pos0 = (0, 0), rz_shown_size = (0, 0), rz_shown_pos = (0, 0)\<rparr>"

definition rz_at :: "handle \<Rightarrow> ratio_option \<Rightarrow> rat option \<Rightarrow> pair \<Rightarrow> pair \<Rightarrow> resizer" where
  "rz_at a opt mx pos sz = the (start_resize a pos sz (rz_box opt mx))"

theorem resize_within_limits_witness:
  "case ch_width (resize_change False 90 0 (rz_at HE NoRatio (Some 100) (0, 0) (50, 50))) of None \<Rightarrow> True | Some w \<Rightarrow> 10 \<le> w \<and> w \<le> 100"
proof -
  let ?r = "rz_at HE NoRatio (Some 100) (0, 0) (50, 50)"
  have b: "virtual_limits False ?r = \<lparr>lm_min_w = 10, lm_max_w = Some 100, lm_min_h = 10, lm_max_h = Some 100\<rparr>" by code_simp
  show ?thesis using resize_within_limits [OF b [symmetric], of 90 0] by (auto split: option.splits)
qed

theorem resize_keeps_ratio_witness:
  "\<exists>h. ch_height (resize_change False 90 0 (rz_at HE OwnRatio (Some 100) (0, 0) (60, 30))) = Some h \<and>
     ch_width (resize_change False 90 0 (rz_at HE OwnRatio (Some 100) (0, 0) (60, 30))) = Some (h * 2)"
proof -
  let ?r = "rz_at HE OwnRatio (Some 100) (0, 0) (60, 30)"
  have q: "rz_ratio ?r = 2" "keeps_ratio ?r" by code_simp+
  show ?thesis using resize_keeps_ratio [of ?r False 90 0] q by simp
qed

theorem opposite_edge_fixed_witness:
  "let r' = fold (\<lambda>(s, dx, dy). resize_drag (\<lambda>_ r. r) s dx dy) [(False, 30, 5), (True, 90, 70)] (rz_at HNW NoRatio None (100, 200) (60, 30))
   in fst (rz_pos r') + fst (rz_size r') = 160 \<and> snd (rz_pos r') + snd (rz_size r') = 230"
proof -
  let ?r = "rz_at HNW NoRatio None (100, 200) (60, 30)"
  have s: "start_resize HNW (100, 200) (60, 30) (rz_box NoRatio None) = Some ?r" by (simp add: rz_at_def start_resize_def start_ratio_def rz_box_def)
  show ?thesis using opposite_edge_fixed [OF s, of 10 10 "[(False, 30, 5), (True, 90, 70)]"]
    by (simp only: Let_def west_def north_def rz_box_def) simp
qed

definition rz_parent :: container where
  "rz_parent = \<lparr>ct_static = False, ct_offset = (500, 500), ct_size = (100, 100), ct_is_parent = True, ct_positioned = True\<rparr>"

theorem resize_stays_in_container_witness:
  "let r = the (contain_resize rz_parent (2, 2) False False False (rz_at HSE NoRatio None (-5, 60) (200, 200)))
   in fst (rz_pos r) + 2 + fst (rz_size r) \<le> 100 \<and> snd (rz_pos r) + 2 + snd (rz_size r) \<le> 100"
proof -
  let ?r = "rz_at HSE NoRatio None (-5, 60) (200, 200)"
  have "contain_resize rz_parent (2, 2) False False False ?r = Some (the (contain_resize rz_parent (2, 2) False False False ?r))"
    by (simp add: contain_resize_def contain_left_def Let_def)
  from resize_stays_in_container [OF this] show ?thesis by (simp add: rz_parent_def Let_def)
qed

text \<open>What is shown lags behind: it is what the move before asked for.\<close>

lemma shown_one_move_late:
  "let r = resize_drag (\<lambda>_ r. r) False 40 0 (resize_drag (\<lambda>_ r. r) False 30 0 (rz_at HE NoRatio None (0, 0) (50, 50)))
   in rz_size r = (90, 50) \<and> rz_shown_size r = (80, 50)"
  by code_simp

text \<open>The grid rounds a size that a limit cut up to one beyond the limit.\<close>

lemma grid_exceeds_max:
  "let r = resize_drag (\<lambda>_. grid_resize (50, 50)) False 90 0 (resize_drag (\<lambda>_. grid_resize (50, 50)) False 90 0 (rz_at HE NoRatio (Some 130) (0, 0) (50, 50)))
   in rz_shown_size r = (150, 50)"
  by code_simp

text \<open>The left edge of a container makes an element with the option \<open>aspectRatio: true\<close> a square, and one that is resized with
  the shift key infinitely high.\<close>

lemma left_edge_squares:
  "map_option rz_size (contain_resize rz_parent (0, 0) False False True (rz_at HW OwnRatio None (-10, 0) (60, 30))) = Some (50, 50)"
  by code_simp

lemma left_edge_infinite:
  "contain_resize rz_parent (0, 0) False False True (rz_at HW NoRatio None (-10, 0) (60, 30)) = None"
  by code_simp

text \<open>With a helper for animation only, the left edge puts the helper at the edge of the page, not of the container.\<close>

lemma left_edge_wrong_helper:
  "map_option (\<lambda>r. rz_pos r) (contain_resize rz_parent (0, 0) False True False (rz_at HW NoRatio None (490, 500) (60, 30))) = Some (0, 500)"
  by code_simp

text \<open>Sides that come to 0 are not written: of elements that are resized along, and of the element when a helper is put away.\<close>

lemma zero_not_written: "also_resize (Some 30) (- 30) = None" "final_place (Some 30) 70 100 = None" "final_place (Some 30) 71 100 = Some 1"
  by code_simp+

text \<open>A lower limit of 0 lets a size become negative.\<close>

lemma no_minimum_negative:
  "ch_width (resize_change False (- 60) 0 ((rz_at HE NoRatio None (0, 0) (50, 50))\<lparr>rz_min := (Some 0, Some 0)\<rparr>)) = Some (- 10)"
  by code_simp

end
