(* ===== verification/Ui_Sortable.thy ===== *)
theory Ui_Sortable
  imports Complex_Main Ui_Drag_Geometry
begin

text \<open>
  Sorting by dragging, \<open>jquery.ui.sortable.js\<close>.  Elements are numbers, and so are the parents of items and the containers; the document is
  the list of children of every parent, with the placeholder in one of them while an item is dragged.  Geometry that
  is not computed by the script comes as arguments.
\<close>

section \<open>The document\<close>

datatype node = Elem nat | Holder

type_synonym kids = "nat \<Rightarrow> node list"

fun put_before :: "node \<Rightarrow> node \<Rightarrow> node list \<Rightarrow> node list" where
  "put_before ref x [] = []"
| "put_before ref x (y # ys) = (if y = ref then x # y # ys else y # put_before ref x ys)"

fun put_after :: "node \<Rightarrow> node \<Rightarrow> node list \<Rightarrow> node list" where
  "put_after ref x [] = []"
| "put_after ref x (y # ys) = (if y = ref then y # x # ys else y # put_after ref x ys)"

fun prev_of :: "node \<Rightarrow> node list \<Rightarrow> node option" where
  "prev_of x [] = None"
| "prev_of x [y] = None"
| "prev_of x (y # z # zs) = (if z = x then Some y else prev_of x (z # zs))"

fun next_of :: "node \<Rightarrow> node list \<Rightarrow> node option" where
  "next_of x [] = None"
| "next_of x (y # ys) = (if y = x then (case ys of [] \<Rightarrow> None | z # zs \<Rightarrow> Some z) else next_of x ys)"

definition take_out :: "node \<Rightarrow> kids \<Rightarrow> kids" where
  "take_out x k = (\<lambda>c. removeAll x (k c))"

definition insert_before :: "node \<Rightarrow> node \<Rightarrow> kids \<Rightarrow> kids" where
  "insert_before ref x k = (\<lambda>c. put_before ref x (take_out x k c))"

definition insert_after :: "node \<Rightarrow> node \<Rightarrow> kids \<Rightarrow> kids" where
  "insert_after ref x k = (\<lambda>c. put_after ref x (take_out x k c))"

definition append_to :: "nat \<Rightarrow> node \<Rightarrow> kids \<Rightarrow> kids" where
  "append_to p x k = (\<lambda>c. take_out x k c @ (if c = p then [x] else []))"

definition prepend_to :: "nat \<Rightarrow> node \<Rightarrow> kids \<Rightarrow> kids" where
  "prepend_to p x k = (\<lambda>c. (if c = p then [x] else []) @ take_out x k c)"

section \<open>State\<close>

datatype sort_event =
    Started | Activate nat | Changed "nat option" | Over nat | Out nat | Sorting
  | BeforeStop | Receive nat | Update nat | Removed | Deactivate nat | Stopped

record sorter =
  so_kids :: kids
  so_own :: nat
  so_containers :: "nat list"
  so_current :: nat
  so_prev :: "node option"
  so_parent :: nat
  so_into :: nat
  so_down :: bool
  so_over :: "nat \<Rightarrow> bool"
  so_dragging :: bool
  so_reverting :: bool
  so_helper :: bool
  so_placeholder :: bool
  so_events :: "sort_event list"

definition sort_log :: "sort_event list \<Rightarrow> sorter \<Rightarrow> sorter" where
  "sort_log es s = s\<lparr>so_events := so_events s @ es\<rparr>"

section \<open>Geometry\<close>

record box =
  bo_left :: rat
  bo_top :: rat
  bo_width :: rat
  bo_height :: rat

definition is_over_axis :: "rat \<Rightarrow> rat \<Rightarrow> rat \<Rightarrow> bool" where
  "is_over_axis x ref len = (x > ref \<and> x < ref + len)"

text \<open>The helper: where it is, where it was, its size, and where the mouse holds it.\<close>

record pointer =
  po_left :: rat
  po_top :: rat
  po_last_left :: rat
  po_last_top :: rat
  po_width :: rat
  po_height :: rat
  po_click_left :: rat
  po_click_top :: rat

datatype vertical = Up | Down
datatype horizontal = ToLeft | ToRight

definition vertical_direction :: "pointer \<Rightarrow> vertical option" where
  "vertical_direction p = (let d = po_top p - po_last_top p in if d \<noteq> 0 then Some (if d > 0 then Down else Up) else None)"

definition horizontal_direction :: "pointer \<Rightarrow> horizontal option" where
  "horizontal_direction p = (let d = po_left p - po_last_left p in if d \<noteq> 0 then Some (if d > 0 then ToRight else ToLeft) else None)"

definition intersects_with :: "bool \<Rightarrow> bool \<Rightarrow> bool \<Rightarrow> pointer \<Rightarrow> box \<Rightarrow> bool" where
  "intersects_with tolerance_pointer force_pointer floating p b =
     (let x1 = po_left p; x2 = x1 + po_width p; y1 = po_top p; y2 = y1 + po_height p;
          l = bo_left b; r = l + bo_width b; t = bo_top b; bt = t + bo_height b;
          over = (y1 + po_click_top p > t \<and> y1 + po_click_top p < bt \<and> x1 + po_click_left p > l \<and> x1 + po_click_left p < r)
      in if tolerance_pointer \<or> force_pointer \<or> (if floating then po_width p > bo_width b else po_height p > bo_height b) then over
         else l < x1 + po_width p / 2 \<and> x2 - po_width p / 2 < r \<and> t < y1 + po_height p / 2 \<and> y2 - po_height p / 2 < bt)"

text \<open>The pointer is over an item: \<open>Some True\<close> if it comes from before it (2 in the code), \<open>Some False\<close> from after it (1).\<close>

definition intersects_pointer :: "bool \<Rightarrow> pointer \<Rightarrow> box \<Rightarrow> bool option" where
  "intersects_pointer floating p b =
     (if \<not> (is_over_axis (po_top p + po_click_top p) (bo_top b) (bo_height b) \<and> is_over_axis (po_left p + po_click_left p) (bo_left b) (bo_width b)) then None
      else if floating then Some (horizontal_direction p = Some ToRight \<or> vertical_direction p = Some Down)
      else map_option (\<lambda>d. d = Down) (vertical_direction p))"

definition intersects_sides :: "bool \<Rightarrow> pointer \<Rightarrow> box \<Rightarrow> bool" where
  "intersects_sides floating p b =
     (let bottom = is_over_axis (po_top p + po_click_top p) (bo_top b + bo_height b / 2) (bo_height b);
          right = is_over_axis (po_left p + po_click_left p) (bo_left b + bo_width b / 2) (bo_width b)
      in case (if floating then horizontal_direction p else None) of
           Some h \<Rightarrow> (h = ToRight \<and> right) \<or> (h = ToLeft \<and> \<not> right)
         | None \<Rightarrow> (case vertical_direction p of None \<Rightarrow> False | Some v \<Rightarrow> (v = Down \<and> bottom) \<or> (v = Up \<and> \<not> bottom)))"

text \<open>The position is generated as for a draggable, but a grid step of 0 gives no number; the limits are counted otherwise.\<close>

definition sort_position :: "bool \<Rightarrow> (int \<times> int) option \<Rightarrow> int option \<Rightarrow> int \<Rightarrow> axis_offset \<Rightarrow> int \<Rightarrow> int option" where
  "sort_position dragging lims grid orig a p =
     (if dragging \<and> grid = Some 0 then None else Some (generate_position dragging lims grid orig a p))"

definition sort_window_limits :: "axis_offset \<Rightarrow> int \<Rightarrow> int \<Rightarrow> int \<Rightarrow> int \<times> int" where
  "sort_window_limits a win len margin = (0 - ax_relative a - ax_parent a, win - len - margin)"

definition sort_box_limits :: "int \<Rightarrow> box_measures \<Rightarrow> int \<Rightarrow> int \<Rightarrow> int \<times> int" where
  "sort_box_limits off b len margin =
     (off + bx_border b + bx_pad_before b - margin,
      off + (if bx_hidden b then bx_offset_size b else max (bx_scroll_size b) (bx_offset_size b)) - bx_border b - bx_pad_after b - len - margin)"

section \<open>The items\<close>

text \<open>The containers are the own one and the connected ones that are not disabled, the items theirs, last container first.\<close>

definition refresh_items :: "bool \<Rightarrow> nat \<Rightarrow> nat list list \<Rightarrow> (nat \<Rightarrow> bool) \<Rightarrow> (nat \<Rightarrow> nat list) \<Rightarrow> nat list \<times> (nat \<times> nat) list" where
  "refresh_items ready own conns enabled items =
     (let cs = own # (if ready then concat (map (\<lambda>q. filter (\<lambda>c. c \<noteq> own \<and> enabled c) (rev q)) (rev conns)) else [])
      in (cs, concat (map (\<lambda>c. map (\<lambda>i. (i, c)) (items c)) (rev cs))))"

text \<open>The items inside the dragged one are removed while the list is walked through; the inner loop reads \<open>items[i]\<close> again
  after a removal.\<close>

fun remove_inner :: "nat list \<Rightarrow> nat \<Rightarrow> nat list \<Rightarrow> nat list js_result" where
  "remove_inner [] i items = Inr items"
| "remove_inner (x # xs) i items =
     (if i < length items then remove_inner xs i (if items ! i = x then remove_at i items else items) else Inl TypeError)"

lemma remove_inner_length: "remove_inner xs i items = Inr items' \<Longrightarrow> length items' \<le> length items"
proof (induction xs i items rule: remove_inner.induct)
  case (2 x xs i items)
  then show ?case by (force simp: remove_at_def split: if_splits)
qed simp

function remove_currents :: "nat list \<Rightarrow> nat \<Rightarrow> nat list \<Rightarrow> nat list js_result" where
  "remove_currents inner i items =
     (if i < length items then (case remove_inner inner i items of Inl e \<Rightarrow> Inl e | Inr items' \<Rightarrow> remove_currents inner (Suc i) items')
      else Inr items)"
  by pat_completeness auto
termination by (relation "measure (\<lambda>(inner, i, items). length items - i)") (auto dest: remove_inner_length)

section \<open>Dragging\<close>

text \<open>The press: the closest sortable item around the target counts, the target itself most of all.\<close>

definition sort_capture :: "bool \<Rightarrow> bool \<Rightarrow> nat option \<Rightarrow> nat list \<Rightarrow> (nat \<Rightarrow> bool) \<Rightarrow> bool \<Rightarrow> sorter \<Rightarrow> nat option" where
  "sort_capture disabled static target parents is_item on_handle s =
     (if so_reverting s \<or> disabled \<or> static then None
      else let found = (case target of Some t \<Rightarrow> if is_item t then Some t else List.find is_item parents | None \<Rightarrow> List.find is_item parents)
           in case found of None \<Rightarrow> None | Some i \<Rightarrow> if on_handle then Some i else None)"

definition parent_of :: "node \<Rightarrow> nat list \<Rightarrow> kids \<Rightarrow> nat option" where
  "parent_of x parents k = List.find (\<lambda>c. x \<in> set (k c)) parents"

definition sort_start :: "nat \<Rightarrow> nat \<Rightarrow> bool \<Rightarrow> sorter \<Rightarrow> sorter" where
  "sort_start i p no_activation s =
     sort_log ([Started] @ (if no_activation then [] else map Activate (rev (so_containers s))))
       (s\<lparr>so_current := i, so_prev := prev_of (Elem i) (so_kids s p), so_parent := p, so_into := so_own s, so_helper := True, so_placeholder := True, so_dragging := True,
          so_kids := insert_after (Elem i) Holder (so_kids s)\<rparr>)"

text \<open>\<open>_rearrange\<close>: next to an item, or at the end of a container.\<close>

definition rearrange :: "nat \<Rightarrow> sorter \<Rightarrow> sorter" where
  "rearrange i s =
     s\<lparr>so_kids := (if so_down s then insert_before (Elem i) Holder (so_kids s) else insert_after (Elem i) Holder (so_kids s))\<rparr>"

definition rearrange_into :: "nat \<Rightarrow> sorter \<Rightarrow> sorter" where
  "rearrange_into c s = s\<lparr>so_kids := append_to c Holder (so_kids s)\<rparr>"

text \<open>The first item from the end that the pointer is over and that counts: the turn ends there, with or without a change.\<close>

fun find_target :: "(nat \<Rightarrow> bool option) \<Rightarrow> (nat \<Rightarrow> bool) \<Rightarrow> (nat \<Rightarrow> bool) \<Rightarrow> nat list \<Rightarrow> (nat \<times> bool) option" where
  "find_target hit counts sides [] = None"
| "find_target hit counts sides (i # is) =
     (case hit i of
        None \<Rightarrow> find_target hit counts sides is
      | Some after \<Rightarrow> if counts i then (if sides i then Some (i, after) else None) else find_target hit counts sides is)"

definition neighbour :: "bool \<Rightarrow> node list \<Rightarrow> node option" where
  "neighbour after ks = (if after then prev_of Holder ks else next_of Holder ks)"

record sort_options =
  op_pointer :: bool
  op_floating :: bool
  op_drop_on_empty :: bool
  op_semi :: bool

definition sort_move ::
  "sort_options \<Rightarrow> (nat \<Rightarrow> box) \<Rightarrow> pointer \<Rightarrow> (nat \<Rightarrow> bool) \<Rightarrow> (nat \<Rightarrow> bool) \<Rightarrow> nat \<Rightarrow> nat list \<Rightarrow> sorter \<Rightarrow> sorter" where
  "sort_move opts boxes p in_holder in_own holder_parent items s =
     (let hit = (\<lambda>i. intersects_pointer (op_floating opts) p (boxes i));
          counts = (\<lambda>i. i \<noteq> so_current s \<and> neighbour (hit i = Some True) (so_kids s holder_parent) \<noteq> Some (Elem i) \<and> \<not> in_holder i \<and>
             (op_semi opts \<longrightarrow> \<not> in_own i));
          sides = (\<lambda>i. op_pointer opts \<or> intersects_sides (op_floating opts) p (boxes i))
      in case find_target hit counts sides (rev items) of
           None \<Rightarrow> s
         | Some (i, after) \<Rightarrow> sort_log [Changed None] (rearrange i (s\<lparr>so_down := \<not> after\<rparr>)))"

section \<open>Containers\<close>

text \<open>What is measured of the containers: which ones the helper meets, which are inside which, which are inside the dragged item.\<close>

record contact =
  co_hit :: "nat \<Rightarrow> bool"
  co_contains :: "nat \<Rightarrow> nat \<Rightarrow> bool"
  co_in_item :: "nat \<Rightarrow> bool"

fun innermost :: "contact \<Rightarrow> nat list \<Rightarrow> nat option \<Rightarrow> sorter \<Rightarrow> nat option \<times> sorter" where
  "innermost k [] found s = (found, s)"
| "innermost k (c # cs) found s =
     (if co_in_item k c then innermost k cs found s
      else if co_hit k c
        then innermost k cs (case found of Some d \<Rightarrow> if co_contains k c d then found else Some c | None \<Rightarrow> Some c) s
      else innermost k cs found
        (if so_over s c then (sort_log [Out c] s)\<lparr>so_over := (so_over s)(c := False)\<rparr> else s))"

text \<open>The item of a container that is closest to the helper along its axis, from the end of the list, if any is closer than 10000 pixels.\<close>

fun nearest :: "rat \<Rightarrow> (nat \<Rightarrow> rat) \<Rightarrow> rat \<Rightarrow> nat option \<Rightarrow> nat list \<Rightarrow> nat option" where
  "nearest base place far best [] = best"
| "nearest base place far best (i # is) =
     (if \<bar>place i - base\<bar> < far then nearest base place \<bar>place i - base\<bar> (Some i) is else nearest base place far best is)"

definition enter_over :: "nat \<Rightarrow> sorter \<Rightarrow> sorter" where
  "enter_over c s = (sort_log [Over c] s)\<lparr>so_over := (so_over s)(c := True)\<rparr>"

definition contact_containers :: "contact \<Rightarrow> bool \<Rightarrow> rat \<Rightarrow> (nat \<Rightarrow> rat) \<Rightarrow> (nat \<Rightarrow> nat list) \<Rightarrow> sorter \<Rightarrow> sorter" where
  "contact_containers k drop_on_empty base place items_in s =
     (case innermost k (rev (so_containers s)) None s of
        (None, s1) \<Rightarrow> s1
      | (Some c, s1) \<Rightarrow>
          if length (so_containers s1) = 1 then enter_over c s1
          else if so_into s1 = c then s1
          else (case nearest base place 10000 None (rev (items_in c)) of
              None \<Rightarrow> if \<not> drop_on_empty then s1
                else enter_over c (sort_log [Changed None, Changed (Some c)] (rearrange_into c (s1\<lparr>so_into := c\<rparr>)))
            | Some i \<Rightarrow> enter_over c (sort_log [Changed None, Changed (Some c)] (rearrange i (s1\<lparr>so_into := c\<rparr>)))))"

section \<open>The end\<close>

text \<open>The item goes where the placeholder is.\<close>

definition drop_item :: "kids \<Rightarrow> nat \<Rightarrow> kids" where
  "drop_item k i = take_out Holder (insert_before Holder (Elem i) k)"

text \<open>\<open>_clear\<close>; \<open>parents\<close> are the parents the item may be in, \<open>encl c p\<close> says that the children of \<open>p\<close> are inside
  the container \<open>c\<close>.\<close>

definition sort_clear :: "(nat \<Rightarrow> nat \<Rightarrow> bool) \<Rightarrow> nat list \<Rightarrow> bool \<Rightarrow> bool \<Rightarrow> sorter \<Rightarrow> sorter js_result" where
  "sort_clear encl parents outside quiet s =
     (if \<not> so_helper s then Inl TypeError
      else
        let i = so_current s; k = drop_item (so_kids s) i;
            p = (case parent_of (Elem i) parents k of Some q \<Rightarrow> q | None \<Rightarrow> so_parent s);
            moved = (outside \<or> so_prev s \<noteq> prev_of (Elem i) (k p) \<or> so_parent s \<noteq> p);
            rcs = rev (so_containers s);
            delayed = (if outside then [Receive (so_own s)] else []) @ (if moved then [Update (so_own s)] else []) @
              (if encl (so_own s) p then []
               else [Removed] @ concat (map (\<lambda>c. [Receive c, Update c]) (filter (\<lambda>c. encl c p) rcs))) @
              concat (map (\<lambda>c. [Deactivate c] @ (if so_over s c then [Out c] else [])) rcs);
            s1 = s\<lparr>so_kids := k, so_reverting := False, so_dragging := False, so_helper := False,
                   so_over := (\<lambda>c. so_over s c \<and> c \<notin> set rcs)\<rparr>
        in Inr (if quiet then s1 else sort_log ([BeforeStop] @ delayed @ [Stopped]) s1))"

definition sort_stop :: "bool \<Rightarrow> (nat \<Rightarrow> nat \<Rightarrow> bool) \<Rightarrow> nat list \<Rightarrow> bool \<Rightarrow> sorter \<Rightarrow> sorter js_result" where
  "sort_stop revert encl parents outside s =
     (if revert then Inr (s\<lparr>so_reverting := True\<rparr>) else sort_clear encl parents outside False s)"

text \<open>\<open>cancel\<close>: if an item is being dragged the mouse is let go first; then the item goes back to where the last drag began, also
  after it was dropped.\<close>

definition put_back :: "sorter \<Rightarrow> sorter" where
  "put_back s =
     s\<lparr>so_kids := (case so_prev s of
         Some r \<Rightarrow> insert_after r (Elem (so_current s)) (take_out Holder (so_kids s))
       | None \<Rightarrow> prepend_to (so_parent s) (Elem (so_current s)) (take_out Holder (so_kids s))),
       so_helper := False, so_dragging := False, so_reverting := False\<rparr>"

definition cancel_events :: "sorter \<Rightarrow> sorter" where
  "cancel_events s =
     (let rcs = rev (so_containers s)
      in (sort_log (concat (map (\<lambda>c. [Deactivate c] @ (if so_over s c then [Out c] else [])) rcs)) s)
           \<lparr>so_over := (\<lambda>c. so_over s c \<and> c \<notin> set rcs)\<rparr>)"

definition sort_cancel :: "bool \<Rightarrow> (nat \<Rightarrow> nat \<Rightarrow> bool) \<Rightarrow> nat list \<Rightarrow> bool \<Rightarrow> sorter \<Rightarrow> sorter js_result" where
  "sort_cancel revert encl parents outside s =
     js_bind (if so_dragging s then js_bind (sort_stop revert encl parents outside s) (\<lambda>s1. Inr (cancel_events s1)) else Inr s)
       (\<lambda>s1. Inr (if so_placeholder s1 then put_back s1 else s1))"

section \<open>Serializing\<close>

definition is_separator :: "char \<Rightarrow> bool" where
  "is_separator c = (c \<in> set ''-=_'')"

text \<open>The pattern \<open>(.+)[-=_](.+)\<close>: the last separator that has something on both sides.\<close>

fun split_id :: "string \<Rightarrow> string \<Rightarrow> (string \<times> string) option" where
  "split_id pre [] = None"
| "split_id pre (c # cs) =
     (case split_id (pre @ [c]) cs of
        Some r \<Rightarrow> Some r
      | None \<Rightarrow> if is_separator c \<and> pre \<noteq> [] \<and> cs \<noteq> [] then Some (pre, cs) else None)"

definition serialize_one :: "string option \<Rightarrow> string \<Rightarrow> string list" where
  "serialize_one key ident =
     (case split_id [] ident of
        None \<Rightarrow> []
      | Some (a, b) \<Rightarrow> [(case key of Some k \<Rightarrow> k | None \<Rightarrow> a @ ''[]'') @ ''='' @ b])"

fun join_and :: "string list \<Rightarrow> string" where
  "join_and [] = []"
| "join_and [x] = x"
| "join_and (x # y # ys) = x @ ''&'' @ join_and (y # ys)"

definition serialize_ids :: "string option \<Rightarrow> string list \<Rightarrow> string" where
  "serialize_ids key ids =
     (let strs = concat (map (serialize_one key) ids)
      in join_and (if strs = [] then (case key of Some k \<Rightarrow> [k @ ''=''] | None \<Rightarrow> []) else strs))"

section \<open>Lists of children\<close>

lemma put_absent: "ref \<notin> set ks \<Longrightarrow> put_before ref x ks = ks" "ref \<notin> set ks \<Longrightarrow> put_after ref x ks = ks"
  by (induction ks) auto

lemma put_split:
  "ref \<notin> set xs \<Longrightarrow> put_before ref x (xs @ ref # ys) = xs @ x # ref # ys"
  "ref \<notin> set xs \<Longrightarrow> put_after ref x (xs @ ref # ys) = xs @ ref # x # ys"
  by (induction xs) auto

lemma remove_put:
  "x \<noteq> ref \<Longrightarrow> removeAll x (put_before ref x ks) = removeAll x ks" "x \<noteq> ref \<Longrightarrow> removeAll x (put_after ref x ks) = removeAll x ks"
  by (induction ks) auto

lemma removeAll_idem: "removeAll x (removeAll x ks) = removeAll x ks"
  by (induction ks) simp_all

lemma removeAll_swap: "removeAll x (removeAll y ks) = removeAll y (removeAll x ks)"
  by (induction ks) auto

lemma prev_of_absent: "x \<notin> set (tl ks) \<Longrightarrow> prev_of x ks = None"
  by (induction x ks rule: prev_of.induct) auto

lemma prev_of_split: "x \<notin> set xs \<Longrightarrow> x \<notin> set ys \<Longrightarrow> prev_of x (xs @ x # ys) = (if xs = [] then None else Some (last xs))"
proof (induction xs)
  case (Cons a xs)
  show ?case using Cons by (cases xs) auto
qed (simp add: prev_of_absent)

text \<open>The document has every element once.\<close>

definition kids_ok :: "kids \<Rightarrow> bool" where
  "kids_ok k \<longleftrightarrow> (\<forall>c. distinct (k c) \<and> Holder \<notin> set (k c)) \<and> (\<forall>c d. c \<noteq> d \<longrightarrow> set (k c) \<inter> set (k d) = {})"

text \<open>The placeholder is in one place, and without it the document is as it was.\<close>

definition holder_in :: "kids \<Rightarrow> kids \<Rightarrow> nat \<Rightarrow> node list \<Rightarrow> node list \<Rightarrow> bool" where
  "holder_in k0 k c xs ys \<longleftrightarrow> k c = xs @ Holder # ys \<and> k0 c = xs @ ys \<and> (\<forall>d. d \<noteq> c \<longrightarrow> k d = k0 d)"

lemma holder_take_out: "kids_ok k0 \<Longrightarrow> holder_in k0 k c xs ys \<Longrightarrow> take_out Holder k = k0"
proof
  fix d assume a: "kids_ok k0" "holder_in k0 k c xs ys"
  have "Holder \<notin> set (k0 d)" using a(1) by (simp add: kids_ok_def)
  then show "take_out Holder k d = k0 d" using a(2) by (cases "d = c") (auto simp: take_out_def holder_in_def)
qed

lemma once_split:
  assumes "kids_ok k0" and "Elem j \<in> set (k0 c)"
  obtains xs ys where "k0 c = xs @ Elem j # ys" "Elem j \<notin> set xs" "Elem j \<notin> set ys" "\<And>d. d \<noteq> c \<Longrightarrow> Elem j \<notin> set (k0 d)"
proof -
  from assms(2) obtain xs ys where s: "k0 c = xs @ Elem j # ys" by (meson split_list)
  have "distinct (k0 c)" using assms(1) by (simp add: kids_ok_def)
  moreover have "Elem j \<notin> set (k0 d)" if "d \<noteq> c" for d using assms that by (auto simp: kids_ok_def)
  ultimately show thesis using that [OF s] s by auto
qed

lemma insert_holder:
  assumes "kids_ok k0" and "take_out Holder k = k0" and "Elem j \<in> set (k0 c)"
  shows "\<exists>xs ys. holder_in k0 (insert_before (Elem j) Holder k) c xs ys" and "\<exists>xs ys. holder_in k0 (insert_after (Elem j) Holder k) c xs ys"
proof -
  obtain xs ys where s: "k0 c = xs @ Elem j # ys" "Elem j \<notin> set xs" "Elem j \<notin> set ys" "\<And>d. d \<noteq> c \<Longrightarrow> Elem j \<notin> set (k0 d)"
    by (rule once_split [OF assms(1,3)]) blast
  have "holder_in k0 (insert_before (Elem j) Holder k) c xs (Elem j # ys)"
    using s by (simp add: holder_in_def insert_before_def assms(2) put_split put_absent)
  moreover have "holder_in k0 (insert_after (Elem j) Holder k) c (xs @ [Elem j]) ys"
    using s by (simp add: holder_in_def insert_after_def assms(2) put_split put_absent)
  ultimately show "\<exists>xs ys. holder_in k0 (insert_before (Elem j) Holder k) c xs ys" "\<exists>xs ys. holder_in k0 (insert_after (Elem j) Holder k) c xs ys"
    by blast+
qed

lemma append_holder: "take_out Holder k = k0 \<Longrightarrow> holder_in k0 (append_to c Holder k) c (k0 c) []"
  by (simp add: holder_in_def append_to_def)

section \<open>A drag\<close>

text \<open>From the start of a drag, any moves of the mouse over any items and containers.\<close>

inductive sorting :: "kids \<Rightarrow> sorter \<Rightarrow> bool" for k0 where
  Begin: "kids_ok k0 \<Longrightarrow> so_kids s = k0 \<Longrightarrow> Elem i \<in> set (k0 p) \<Longrightarrow> sorting k0 (sort_start i p quiet s)"
| Move: "sorting k0 s \<Longrightarrow> list_all (\<lambda>i. \<exists>c. Elem i \<in> set (k0 c)) items \<Longrightarrow>
    sorting k0 (sort_move opts boxes pt in_holder in_own hp items s)"
| Contact: "sorting k0 s \<Longrightarrow> (\<And>c. list_all (\<lambda>i. \<exists>c. Elem i \<in> set (k0 c)) (items_in c)) \<Longrightarrow>
    sorting k0 (contact_containers k drop_on_empty base place items_in s)"

definition sorting_ok :: "kids \<Rightarrow> sorter \<Rightarrow> bool" where
  "sorting_ok k0 s \<longleftrightarrow> kids_ok k0 \<and> (\<exists>c xs ys. holder_in k0 (so_kids s) c xs ys) \<and> Elem (so_current s) \<in> set (k0 (so_parent s)) \<and>
     so_prev s = prev_of (Elem (so_current s)) (k0 (so_parent s)) \<and> so_helper s \<and> so_placeholder s"

lemma rearrange_ok: "sorting_ok k0 s \<Longrightarrow> Elem j \<in> set (k0 c) \<Longrightarrow> sorting_ok k0 (rearrange j s)"
proof -
  assume a: "sorting_ok k0 s" "Elem j \<in> set (k0 c)"
  then have k: "kids_ok k0" "take_out Holder (so_kids s) = k0" using holder_take_out by (auto simp: sorting_ok_def)
  show ?thesis using insert_holder [OF k a(2)] a(1) by (auto simp: sorting_ok_def rearrange_def)
qed

lemma rearrange_into_ok: "sorting_ok k0 s \<Longrightarrow> sorting_ok k0 (rearrange_into c s)"
proof -
  assume a: "sorting_ok k0 s"
  then have "take_out Holder (so_kids s) = k0" using holder_take_out by (auto simp: sorting_ok_def)
  then have "\<exists>d xs ys. holder_in k0 (append_to c Holder (so_kids s)) d xs ys" using append_holder by blast
  then show ?thesis using a by (simp add: sorting_ok_def rearrange_into_def)
qed

lemma sorting_ok_frame [simp]:
  "sorting_ok k0 (sort_log es s) = sorting_ok k0 s" "sorting_ok k0 (s\<lparr>so_down := d\<rparr>) = sorting_ok k0 s"
  "sorting_ok k0 (s\<lparr>so_over := v\<rparr>) = sorting_ok k0 s" "sorting_ok k0 (s\<lparr>so_into := c\<rparr>) = sorting_ok k0 s"
  "sorting_ok k0 (enter_over c s) = sorting_ok k0 s"
  by (simp_all add: sorting_ok_def sort_log_def enter_over_def)

lemma find_target_in: "find_target hit counts sides is = Some (i, after) \<Longrightarrow> i \<in> set is"
  by (induction "is") (auto split: option.splits if_splits)

lemma nearest_in: "nearest base place far best is = Some i \<Longrightarrow> i \<in> set is \<or> best = Some i"
  by (induction "is" arbitrary: far best) (simp_all split: if_splits, blast+)

lemma innermost_ok: "innermost k cs found s = (r, s') \<Longrightarrow> sorting_ok k0 s \<Longrightarrow> sorting_ok k0 s'"
  by (induction k cs found s rule: innermost.induct) (auto split: if_splits option.splits)

lemma sort_move_ok:
  assumes "sorting_ok k0 s" and "list_all (\<lambda>i. \<exists>c. Elem i \<in> set (k0 c)) items"
  shows "sorting_ok k0 (sort_move opts boxes pt in_holder in_own hp items s)"
proof -
  have "sorting_ok k0 (sort_log [Changed None] (rearrange i (s\<lparr>so_down := d\<rparr>)))" if "i \<in> set (rev items)" for i d
  proof -
    have "\<exists>c. Elem i \<in> set (k0 c)" using assms(2) that by (simp add: list_all_iff)
    then obtain c where "Elem i \<in> set (k0 c)" ..
    then show ?thesis using assms(1) by (simp add: rearrange_ok)
  qed
  then show ?thesis unfolding sort_move_def Let_def using assms(1) by (auto dest: find_target_in split: option.split)
qed

lemma contact_ok:
  assumes "sorting_ok k0 s" and "\<And>c. list_all (\<lambda>i. \<exists>c. Elem i \<in> set (k0 c)) (items_in c)"
  shows "sorting_ok k0 (contact_containers k drop_on_empty base place items_in s)"
proof (cases "innermost k (rev (so_containers s)) None s")
  case (Pair r s1)
  have s1: "sorting_ok k0 s1" using innermost_ok [OF Pair assms(1)] .
  have "sorting_ok k0 (rearrange i (s1\<lparr>so_into := c\<rparr>))" if "nearest base place 10000 None (rev (items_in c)) = Some i" for i c
  proof -
    have "i \<in> set (items_in c)" using nearest_in [OF that] by simp
    then have "\<exists>d. Elem i \<in> set (k0 d)" using assms(2) [of c] by (simp add: list_all_iff)
    then obtain d where "Elem i \<in> set (k0 d)" ..
    then show ?thesis using s1 by (simp add: rearrange_ok)
  qed
  then show ?thesis using s1 by (auto simp: contact_containers_def Pair rearrange_into_ok split: option.split)
qed

lemma sort_start_ok:
  assumes "kids_ok k0" "so_kids s = k0" "Elem i \<in> set (k0 p)"
  shows "sorting_ok k0 (sort_start i p quiet s)"
proof -
  have "take_out Holder k0 = k0" using assms(1) by (simp add: take_out_def kids_ok_def)
  from insert_holder(2) [OF assms(1) this assms(3)] have "\<exists>c xs ys. holder_in k0 (insert_after (Elem i) Holder k0) c xs ys" by blast
  then show ?thesis using assms by (simp add: sort_start_def sorting_ok_def sort_log_def)
qed

lemma sorting_sorting_ok: "sorting k0 s \<Longrightarrow> sorting_ok k0 s"
  by (induction rule: sorting.induct) (auto intro: sort_start_ok sort_move_ok contact_ok)

section \<open>Dropping and going back\<close>

lemma drop_shape:
  assumes "kids_ok k0" and "holder_in k0 k c xs ys"
  shows "drop_item k i c = removeAll (Elem i) xs @ Elem i # removeAll (Elem i) ys" and "d \<noteq> c \<Longrightarrow> drop_item k i d = removeAll (Elem i) (k0 d)"
proof -
  have h: "Holder \<notin> set (k0 e)" for e using assms(1) by (simp add: kids_ok_def)
  have x: "Holder \<notin> set xs" "Holder \<notin> set ys" using h [of c] assms(2) by (auto simp: holder_in_def)
  have "put_before Holder (Elem i) (removeAll (Elem i) xs @ Holder # removeAll (Elem i) ys) = removeAll (Elem i) xs @ Elem i # Holder # removeAll (Elem i) ys"
    by (rule put_split) (use x in simp)
  then show "drop_item k i c = removeAll (Elem i) xs @ Elem i # removeAll (Elem i) ys"
    using assms(2) x by (simp add: drop_item_def take_out_def insert_before_def holder_in_def removeAll_idem removeAll_swap)
  show "drop_item k i d = removeAll (Elem i) (k0 d)" if "d \<noteq> c"
    using assms(2) h [of d] that by (simp add: drop_item_def take_out_def insert_before_def holder_in_def put_absent)
qed

text \<open>The document with one element somewhere else.\<close>

definition moved_only :: "kids \<Rightarrow> nat \<Rightarrow> kids \<Rightarrow> bool" where
  "moved_only k0 i k \<longleftrightarrow> (\<forall>c. removeAll (Elem i) (k c) = removeAll (Elem i) (k0 c)) \<and> kids_ok k \<and> (\<exists>c. Elem i \<in> set (k c))"

lemma drop_moved_only:
  assumes "sorting_ok k0 s"
  shows "moved_only k0 (so_current s) (drop_item (so_kids s) (so_current s))"
proof -
  let ?i = "so_current s"
  let ?k = "drop_item (so_kids s) ?i"
  obtain c xs ys where h: "kids_ok k0" "holder_in k0 (so_kids s) c xs ys" using assms by (auto simp: sorting_ok_def)
  note d = drop_shape [OF h, where i = ?i]
  have k0: "k0 c = xs @ ys" using h(2) by (simp add: holder_in_def)
  have r: "removeAll (Elem ?i) (?k e) = removeAll (Elem ?i) (k0 e)" for e
    by (cases "e = c") (simp_all add: d k0 removeAll_idem)
  have s: "set (?k e) \<subseteq> (if e = c then insert (Elem ?i) (set (k0 e)) else set (k0 e) - {Elem ?i})" for e
    by (cases "e = c") (auto simp: d k0)
  have "distinct (?k e) \<and> Holder \<notin> set (?k e)" for e
  proof -
    have "distinct (k0 e)" "Holder \<notin> set (k0 e)" using h(1) by (simp_all add: kids_ok_def)
    then show ?thesis by (cases "e = c") (auto simp: d k0 distinct_removeAll)
  qed
  moreover have "set (?k e) \<inter> set (?k f) = {}" if "e \<noteq> f" for e f
  proof -
    have "set (k0 e) \<inter> set (k0 f) = {}" using h(1) that by (simp add: kids_ok_def)
    then show ?thesis using s [of e] s [of f] that by (auto split: if_splits)
  qed
  ultimately have "kids_ok ?k" by (simp add: kids_ok_def)
  moreover have "Elem ?i \<in> set (?k c)" by (simp add: d)
  ultimately show ?thesis using r unfolding moved_only_def by blast
qed

lemma last_eq_prefix:
  assumes "distinct (us @ vs)" and "us @ vs = xs @ ys" and "us \<noteq> []" "xs \<noteq> []" "last us = last xs"
  shows "us = xs"
proof -
  let ?l = "us @ vs"
  have n: "?l ! (length us - 1) = last us" using assms(3) by (simp add: last_conv_nth nth_append)
  have m: "?l ! (length xs - 1) = last xs" using assms(4) by (simp add: assms(2) last_conv_nth nth_append)
  have "length us - 1 < length ?l" using assms(3) by (cases us) auto
  moreover have "length xs - 1 < length ?l" unfolding assms(2) using assms(4) by (cases xs) auto
  ultimately have b: "length us - 1 < length ?l" "length xs - 1 < length ?l" .
  have "length us - 1 = length xs - 1" using nth_eq_iff_index_eq [OF assms(1) b] n m assms(5) by simp
  then have "length us = length xs" using assms(3,4) by (cases us; cases xs) auto
  then show ?thesis using assms(2) by simp
qed

text \<open>An element that was moved is where it was exactly if its parent and the element before it are the same.\<close>

lemma moved_back:
  assumes k0: "kids_ok k0" and m: "moved_only k0 i k" and p: "Elem i \<in> set (k0 p)" and q: "Elem i \<in> set (k q)"
  shows "(prev_of (Elem i) (k0 p) = prev_of (Elem i) (k q) \<and> p = q) = (k = k0)"
proof
  have kk: "kids_ok k" using m by (simp add: moved_only_def)
  obtain us vs where u: "k0 p = us @ Elem i # vs" "Elem i \<notin> set us" "Elem i \<notin> set vs" "\<And>d. d \<noteq> p \<Longrightarrow> Elem i \<notin> set (k0 d)"
    by (rule once_split [OF k0 p]) blast
  obtain xs ys where x: "k q = xs @ Elem i # ys" "Elem i \<notin> set xs" "Elem i \<notin> set ys" "\<And>d. d \<noteq> q \<Longrightarrow> Elem i \<notin> set (k d)"
    by (rule once_split [OF kk q]) blast
  show "prev_of (Elem i) (k0 p) = prev_of (Elem i) (k q) \<and> p = q" if "k = k0"
  proof -
    have "p = q" using u(4) [of q] q that by auto
    then show ?thesis using that by simp
  qed
  assume a: "prev_of (Elem i) (k0 p) = prev_of (Elem i) (k q) \<and> p = q"
  have e: "us @ vs = xs @ ys" using m a u x by (auto simp: moved_only_def dest: spec [of _ q])
  have "distinct (k0 p)" using k0 by (simp add: kids_ok_def)
  then have d: "distinct (us @ vs)" using u(1) by simp
  have "(us = [] \<and> xs = []) \<or> (us \<noteq> [] \<and> xs \<noteq> [] \<and> last us = last xs)"
    using a prev_of_split [OF u(2,3)] prev_of_split [OF x(2,3)] u(1) x(1) by (simp split: if_splits)
  then have us: "us = xs" using last_eq_prefix [OF d e] by blast
  show "k = k0"
  proof
    fix c
    show "k c = k0 c"
    proof (cases "c = q")
      case True
      then show ?thesis using a u(1) x(1) us e by simp
    next
      case False
      then have "Elem i \<notin> set (k c)" "Elem i \<notin> set (k0 c)" using x(4) u(4) a by auto
      moreover have "removeAll (Elem i) (k c) = removeAll (Elem i) (k0 c)" using m by (simp add: moved_only_def)
      ultimately show ?thesis by simp
    qed
  qed
qed

text \<open>C33: Sorting moves the dragged item and nothing else: after any moves of the mouse over items and connected containers, when the item is dropped, every element is once in
  the document, the others are where they were and in the order they were in, and the placeholder is gone.\<close>

theorem sort_moves_one_item:
  assumes "sorting k0 s" and "sort_clear encl parents outside quiet s = Inr s'"
  shows "moved_only k0 (so_current s) (so_kids s')"
proof -
  have "so_kids s' = drop_item (so_kids s) (so_current s)"
    using assms(2) by (auto simp: sort_clear_def Let_def sort_log_def split: if_splits)
  then show ?thesis using drop_moved_only [OF sorting_sorting_ok [OF assms(1)]] by simp
qed

lemma sort_clear_ends: "sorting k0 s \<Longrightarrow> \<exists>s'. sort_clear encl parents outside quiet s = Inr s'"
proof -
  assume "sorting k0 s"
  then have "so_helper s" using sorting_sorting_ok by (simp only: sorting_ok_def)
  then show ?thesis by (simp add: sort_clear_def Let_def)
qed

lemma find_the: "c \<in> set ps \<Longrightarrow> P c \<Longrightarrow> (\<And>q. P q \<Longrightarrow> q = c) \<Longrightarrow> List.find P ps = Some c"
proof (induction ps)
  case Nil
  from Nil.prems(1) show ?case by simp
next
  case (Cons a ps)
  show ?case
  proof (cases "P a")
    case True
    then have "a = c" by (rule Cons.prems(3))
    then show ?thesis using True by simp
  next
    case False
    then have "a \<noteq> c" using Cons.prems(2) by blast
    then have "c \<in> set ps" using Cons.prems(1) by simp
    then show ?thesis using False Cons.IH [OF _ Cons.prems(2,3)] by simp
  qed
qed

text \<open>C34: When an item of the own list is dropped, \<open>update\<close> is raised exactly if the document is not what it was when the drag began.\<close>

theorem update_iff_moved:
  assumes "sorting k0 s" and "\<And>c. c \<notin> set parents \<Longrightarrow> so_kids s c = []" and "sort_clear encl parents False False s = Inr s'"
  shows "(Update (so_own s) \<in> set (drop (length (so_events s)) (so_events s'))) = (so_kids s' \<noteq> k0)"
proof -
  note ok = sorting_sorting_ok [OF assms(1)]
  let ?i = "so_current s"
  let ?k = "drop_item (so_kids s) ?i"
  note m = drop_moved_only [OF ok]
  obtain c xs ys where h: "kids_ok k0" "holder_in k0 (so_kids s) c xs ys" using ok by (auto simp: sorting_ok_def)
  have ic: "Elem ?i \<in> set (?k c)" by (simp add: drop_shape [OF h])
  have "so_kids s c \<noteq> []" using h(2) by (simp add: holder_in_def)
  then have "c \<in> set parents" using assms(2) by blast
  moreover have "q = c" if "Elem ?i \<in> set (?k q)" for q
    using m ic that unfolding moved_only_def kids_ok_def by blast
  ultimately have p: "parent_of (Elem ?i) parents ?k = Some c"
    unfolding parent_of_def by (rule find_the [where P = "\<lambda>c. Elem ?i \<in> set (?k c)", OF _ ic])
  let ?moved = "so_prev s \<noteq> prev_of (Elem ?i) (?k c) \<or> so_parent s \<noteq> c"
  have "?moved = (?k \<noteq> k0)"
    using moved_back [OF h(1) m _ ic, of "so_parent s"] ok by (auto simp: sorting_ok_def)
  moreover have "(Update (so_own s) \<in> set (drop (length (so_events s)) (so_events s'))) = ?moved \<and> so_kids s' = ?k"
  proof -
    have "so_helper s" using ok by (simp only: sorting_ok_def)
    then show ?thesis using assms(3) unfolding sort_clear_def Let_def p by (auto simp: sort_log_def split: if_splits)
  qed
  ultimately show ?thesis by simp
qed

text \<open>C35: \<open>cancel\<close> undoes a drag: called during it, without a revert that is animated, or after the drop, it leaves the document
  as it was when the drag began.\<close>

theorem cancel_restores:
  assumes "sorting k0 s" and "s1 = s \<or> sort_clear encl parents outside quiet s = Inr s1" and "sort_cancel False encl' parents' outside' s1 = Inr s'"
  shows "so_kids s' = k0"
proof -
  note ok = sorting_sorting_ok [OF assms(1)]
  let ?i = "so_current s"
  have kept: "so_current t' = so_current t \<and> so_prev t' = so_prev t \<and> so_parent t' = so_parent t \<and> so_placeholder t' = so_placeholder t \<and>
      so_kids t' = drop_item (so_kids t) (so_current t) \<and> \<not> so_dragging t'"
    if "sort_clear e p ou q t = Inr t'" for e p ou q t t'
    using that by (auto simp: sort_clear_def Let_def sort_log_def split: if_splits)
  have m: "moved_only k0 ?i (drop_item (so_kids s) ?i)" by (rule drop_moved_only [OF ok])
  have r: "take_out (Elem ?i) (take_out Holder k) c = removeAll (Elem ?i) (k0 c)" if "k \<in> {so_kids s, drop_item (so_kids s) ?i}" for k c
  proof -
    have "take_out Holder (so_kids s) = k0" using ok holder_take_out by (auto simp: sorting_ok_def)
    moreover have "Holder \<notin> set (drop_item (so_kids s) ?i c)" using m by (simp add: moved_only_def kids_ok_def)
    ultimately show ?thesis using that m by (auto simp: take_out_def moved_only_def fun_eq_iff)
  qed
  have undone: "so_kids (put_back t) = k0"
    if t: "so_kids t \<in> {so_kids s, drop_item (so_kids s) ?i}" "so_current t = ?i" "so_prev t = so_prev s" "so_parent t = so_parent s" for t
  proof -
    have k0: "kids_ok k0" "Elem ?i \<in> set (k0 (so_parent s))" "so_prev s = prev_of (Elem ?i) (k0 (so_parent s))" using ok by (auto simp: sorting_ok_def)
    obtain us vs where u: "k0 (so_parent s) = us @ Elem ?i # vs" "Elem ?i \<notin> set us" "Elem ?i \<notin> set vs" "\<And>d. d \<noteq> so_parent s \<Longrightarrow> Elem ?i \<notin> set (k0 d)"
      by (rule once_split [OF k0(1,2)]) blast
    note pr = prev_of_split [OF u(2,3)]
    show ?thesis
    proof
      fix c
      show "so_kids (put_back t) c = k0 c"
      proof (cases us rule: rev_cases)
        case Nil
        then show ?thesis using t r [OF t(1)] u pr k0(3) by (cases "c = so_parent s") (simp_all add: put_back_def prepend_to_def)
      next
        case (snoc ws w)
        have "distinct (k0 (so_parent s))" using k0(1) by (simp add: kids_ok_def)
        then have w: "w \<notin> set ws" using u(1) snoc by simp
        have "w \<in> set (k0 (so_parent s))" using u(1) snoc by simp
        then have wd: "w \<notin> set (k0 d)" if "d \<noteq> so_parent s" for d using k0(1) that by (auto simp: kids_ok_def)
        have "so_kids (put_back t) c = put_after w (Elem ?i) (removeAll (Elem ?i) (k0 c))"
          using t r [OF t(1)] snoc u(1) pr k0(3) by (simp add: put_back_def insert_after_def)
        then show ?thesis using u snoc w wd by (cases "c = so_parent s") (simp_all add: put_split put_absent)
      qed
    qed
  qed
  show ?thesis
  proof (cases "so_dragging s1")
    case True
    then have s1: "s1 = s" using assms(2) kept by blast
    obtain s2 where s2: "sort_clear encl' parents' outside' False s = Inr s2" "s' = (if so_placeholder (cancel_events s2) then put_back (cancel_events s2) else cancel_events s2)"
      using assms(3) True s1 by (auto simp: sort_cancel_def sort_stop_def js_bind_Inr_iff)
    show ?thesis using s2(2) kept [OF s2(1)] ok undone [of "cancel_events s2"] by (simp add: cancel_events_def sort_log_def Let_def sorting_ok_def)
  next
    case False
    then have s': "s' = (if so_placeholder s1 then put_back s1 else s1)" using assms(3) by (simp add: sort_cancel_def)
    show ?thesis
      using assms(2)
    proof
      assume "s1 = s"
      then show ?thesis using s' ok undone [of s] by (simp add: sorting_ok_def)
    next
      assume "sort_clear encl parents outside quiet s = Inr s1"
      from kept [OF this] show ?thesis using s' ok undone [of s1] by (simp add: sorting_ok_def)
    qed
  qed
qed

section \<open>Over and out\<close>

text \<open>Whether the last event of a container was \<open>over\<close>; \<open>None\<close> if an \<open>out\<close> came without one.\<close>

fun over_phase :: "nat \<Rightarrow> bool option \<Rightarrow> sort_event \<Rightarrow> bool option" where
  "over_phase c ph (Over d) = (if d = c then map_option (\<lambda>_. True) ph else ph)"
| "over_phase c ph (Out d) = (if d = c then (if ph = Some True then Some False else None) else ph)"
| "over_phase c ph _ = ph"

definition phase_after :: "nat \<Rightarrow> bool \<Rightarrow> sort_event list \<Rightarrow> bool option" where
  "phase_after c before es = foldl (over_phase c) (Some before) es"

definition over_ok :: "nat \<Rightarrow> bool \<Rightarrow> sorter \<Rightarrow> bool" where
  "over_ok c before s \<longleftrightarrow> phase_after c before (so_events s) = Some (so_over s c)"

lemma phase_append: "phase_after c before (es @ fs) = foldl (over_phase c) (phase_after c before es) fs"
  by (simp add: phase_after_def)

lemma innermost_over: "innermost k cs found s = (r, s') \<Longrightarrow> over_ok c before s \<Longrightarrow> over_ok c before s'"
proof (induction k cs found s arbitrary: r s' rule: innermost.induct)
  case (2 k d cs found s)
  have "over_ok c before ((sort_log [Out d] s)\<lparr>so_over := (so_over s)(d := False)\<rparr>)" if "so_over s d"
    using 2(5) that by (cases "d = c") (simp_all add: over_ok_def sort_log_def phase_append)
  then show ?case using 2 by (auto split: if_splits)
qed simp

lemma enter_over_ok: "over_ok c before s \<Longrightarrow> over_ok c before (enter_over d s)"
  by (simp add: over_ok_def enter_over_def sort_log_def phase_append)

lemma over_ok_frame:
  "over_ok c before (sort_log [Changed a, Changed b] s) = over_ok c before s" "over_ok c before (rearrange i s) = over_ok c before s"
  "over_ok c before (rearrange_into d s) = over_ok c before s" "over_ok c before (s\<lparr>so_into := d\<rparr>) = over_ok c before s"
  by (simp_all add: over_ok_def sort_log_def phase_append rearrange_def rearrange_into_def)

text \<open>An \<open>out\<close> of a container is raised only after an \<open>over\<close>, and only once for it.\<close>

lemma contact_over: "over_ok c before s \<Longrightarrow> over_ok c before (contact_containers k on_empty base place items_in s)"
proof (cases "innermost k (rev (so_containers s)) None s")
  case (Pair r s1)
  then show "over_ok c before s \<Longrightarrow> ?thesis"
    using innermost_over [OF Pair, of c before]
    by (auto simp: contact_containers_def enter_over_ok over_ok_frame split: option.split)
qed

section \<open>Serialized names\<close>

lemma split_id_plain: "list_all (\<lambda>c. \<not> is_separator c) b \<Longrightarrow> split_id a b = None"
  by (induction b arbitrary: a) auto

lemma split_id_last:
  "a \<noteq> [] \<Longrightarrow> b \<noteq> [] \<Longrightarrow> is_separator c \<Longrightarrow> list_all (\<lambda>c. \<not> is_separator c) b \<Longrightarrow> split_id [] (a @ c # b) = Some (a, b)"
proof -
  assume h: "a \<noteq> []" "b \<noteq> []" "is_separator c" "list_all (\<lambda>c. \<not> is_separator c) b"
  have "split_id pre (a @ c # b) = Some (pre @ a, b)" for pre
    using h(1)
  proof (induction a arbitrary: pre)
    case (Cons x a)
    show ?case
    proof (cases a)
      case Nil
      then show ?thesis using h by (simp add: split_id_plain)
    next
      case (Cons y l)
      then show ?thesis using Cons.IH [of "pre @ [x]"] by simp
    qed
  qed simp
  then show ?thesis by simp
qed

section \<open>Examples\<close>

definition two_lists :: kids where
  "two_lists c = (if c = 0 then [Elem 1, Elem 2, Elem 3] else if c = 5 then [Elem 7] else [])"

definition idle_sorter :: "nat list \<Rightarrow> sorter" where
  "idle_sorter cs = \<lparr>so_kids = two_lists, so_own = 0, so_containers = cs, so_current = 0, so_prev = None, so_parent = 0, so_into = 0, so_down = False,
     so_over = (\<lambda>c. False), so_dragging = False, so_reverting = False, so_helper = False, so_placeholder = False, so_events = []\<rparr>"

definition hits :: "nat list \<Rightarrow> contact" where
  "hits cs = \<lparr>co_hit = (\<lambda>c. c \<in> set cs), co_contains = (\<lambda>c d. False), co_in_item = (\<lambda>c. False)\<rparr>"

definition at_five :: "nat list \<Rightarrow> sorter \<Rightarrow> sorter" where
  "at_five hit s = contact_containers (hits hit) True 0 (\<lambda>i. 0) (\<lambda>c. if c = 5 then [7] else []) s"

definition dragged :: sorter where
  "dragged = at_five [5] (sort_start 1 0 False (idle_sorter [0, 5]))"

definition same_parent :: "nat \<Rightarrow> nat \<Rightarrow> bool" where
  "same_parent c p = (c = p)"

lemma two_lists_ok: "kids_ok two_lists"
  by (auto simp: kids_ok_def two_lists_def)

lemma dragged_sorting: "sorting two_lists dragged"
proof -
  have "sorting two_lists (sort_start 1 0 False (idle_sorter [0, 5]))"
    by (rule Begin [OF two_lists_ok]) (simp_all add: idle_sorter_def two_lists_def)
  then show ?thesis unfolding dragged_def at_five_def
  proof (rule Contact)
    show "list_all (\<lambda>i. \<exists>c. Elem i \<in> set (two_lists c)) (if c = 5 then [7] else [])" for c :: nat
      by (simp add: exI [of _ 5] two_lists_def)
  qed
qed

theorem sort_moves_one_item_witness:
  "\<exists>s'. sort_clear same_parent [0, 5] False False dragged = Inr s' \<and> moved_only two_lists (so_current dragged) (so_kids s')"
proof -
  obtain s' where s': "sort_clear same_parent [0, 5] False False dragged = Inr s'" using sort_clear_ends [OF dragged_sorting] by blast
  then show ?thesis using sort_moves_one_item [OF dragged_sorting s'] by blast
qed

lemma dragged_kids: "so_kids dragged c = (if c = 0 then [Elem 1, Elem 2, Elem 3] else if c = 5 then [Elem 7, Holder] else [])"
proof -
  have "so_kids dragged c = []" if "c \<noteq> 0" "c \<noteq> 5"
    using that by (simp add: dragged_def at_five_def contact_containers_def hits_def sort_start_def idle_sorter_def sort_log_def enter_over_def rearrange_def
      insert_after_def insert_before_def take_out_def two_lists_def)
  moreover have "so_kids dragged 0 = [Elem 1, Elem 2, Elem 3]" "so_kids dragged 5 = [Elem 7, Holder]" by code_simp+
  ultimately show ?thesis by (cases "c = 0"; cases "c = 5") simp_all
qed

theorem update_iff_moved_witness:
  "\<exists>s'. sort_clear same_parent [0, 5] False False dragged = Inr s' \<and> Update (so_own dragged) \<in> set (drop (length (so_events dragged)) (so_events s')) \<and>
     so_kids s' 5 = [Elem 7, Elem 1]"
proof -
  obtain s' where s': "sort_clear same_parent [0, 5] False False dragged = Inr s'" using sort_clear_ends [OF dragged_sorting] by blast
  have "so_kids dragged c = []" if "c \<notin> set [0, 5]" for c using that by (simp add: dragged_kids)
  note u = update_iff_moved [OF dragged_sorting this s']
  have "so_kids (projr (sort_clear same_parent [0, 5] False False dragged)) 5 = [Elem 7, Elem 1]" by code_simp
  then have k: "so_kids s' 5 = [Elem 7, Elem 1]" by (simp add: s')
  then have "so_kids s' \<noteq> two_lists" by (auto simp: two_lists_def)
  then show ?thesis using u s' k by blast
qed

theorem cancel_restores_witness:
  "\<exists>s'. sort_cancel False same_parent [0, 5] False dragged = Inr s' \<and> so_kids s' = two_lists"
proof -
  obtain s1 where s1: "sort_clear same_parent [0, 5] False False dragged = Inr s1" using sort_clear_ends [OF dragged_sorting] by blast
  then have "\<exists>s'. sort_cancel False same_parent [0, 5] False dragged = Inr s'" by (simp add: sort_cancel_def sort_stop_def)
  then obtain s' where s': "sort_cancel False same_parent [0, 5] False dragged = Inr s'" ..
  then show ?thesis using cancel_restores [OF dragged_sorting _ s'] by blast
qed

text \<open>A drag that is cancelled raises \<open>update\<close> and \<open>stop\<close> all the same, and \<open>deactivate\<close> twice.\<close>

lemma cancel_raises_update:
  "drop (length (so_events dragged)) (so_events (projr (sort_cancel False same_parent [0, 5] False dragged))) =
   [BeforeStop, Update 0, Removed, Receive 5, Update 5, Deactivate 5, Out 5, Deactivate 0, Stopped, Deactivate 5, Deactivate 0]"
  by code_simp

text \<open>If the drop is animated, \<open>cancel\<close> does not stop the animation, whose end then throws.\<close>

lemma cancel_then_revert_throws:
  "(case sort_cancel True same_parent [0, 5] False dragged of Inl e \<Rightarrow> False
    | Inr s \<Rightarrow> (case sort_clear same_parent [0, 5] False False s of Inl e \<Rightarrow> e = TypeError | Inr s' \<Rightarrow> False))"
  by code_simp

text \<open>A list on its own raises \<open>over\<close> with every move.\<close>

lemma over_every_move:
  "drop 2 (so_events (at_five [0] (at_five [0] (sort_start 1 0 False (idle_sorter [0]))))) = [Over 0, Over 0]"
  by code_simp

text \<open>A helper that comes back to the connected list it left last raises no \<open>over\<close>, and no \<open>out\<close> when it leaves again.\<close>

lemma reenter_no_over:
  "drop (length (so_events dragged)) (so_events (at_five [] (at_five [5] (at_five [] dragged)))) = [Out 5]"
  by code_simp

text \<open>Removing the items inside the dragged one reads past the end of the list if the item holds items of other lists as well.\<close>

lemma remove_currents_throws: "remove_currents [8, 9] 0 [1, 8] = Inl TypeError"
  by (simp add: remove_currents.simps remove_at_def)

lemma serialize_example: "serialize_ids None [''item_1'', ''item-2'', ''none''] = ''item[]=1&item[]=2''"
  by code_simp

end
