(* ===== verification/Jq_Event_Names.thy ===== *)
theory Jq_Event_Names
  imports Jq_Callbacks "HOL-Library.Char_ord" "HOL-Library.List_Lexorder" "HOL-Library.Multiset" "HOL-Library.Sublist"
begin

text \<open>
  The strings of \<open>jQuery.event\<close> in \<open>jquery-1.7.1.js\<close>: the list of types of \<open>on\<close> and \<open>off\<close>, a type with its
  namespaces, and the regular expressions that compare namespaces.  A name stands for itself in
  these expressions: names with characters that mean something in an expression are not modelled.
  The main theorem: one list of namespaces is found in another exactly when it is contained in it as
  a multiset.
\<close>

section \<open>Lists of types\<close>

text \<open>\<open>jQuery.trim\<close>, and \<open>split\<close> and \<open>join\<close> with a separator of one character.\<close>

definition trim_blanks :: "string \<Rightarrow> string" where
  "trim_blanks s = rev (dropWhile is_blank (rev (dropWhile is_blank s)))"

fun split_by :: "char \<Rightarrow> string \<Rightarrow> string list" where
  "split_by d [] = [[]]"
| "split_by d (c # cs) =
     (if c = d then [] # split_by d cs
      else (case split_by d cs of [] \<Rightarrow> [[c]] | w # ws \<Rightarrow> (c # w) # ws))"

fun join_by :: "char \<Rightarrow> string list \<Rightarrow> string" where
  "join_by d [] = []"
| "join_by d [w] = w"
| "join_by d (w # v # ws) = w @ d # join_by d (v # ws)"

definition is_word :: "char \<Rightarrow> bool" where
  "is_word c \<longleftrightarrow> (let n = (of_char c :: nat)
                   in (48 \<le> n \<and> n \<le> 57) \<or> (65 \<le> n \<and> n \<le> 90) \<or> (97 \<le> n \<and> n \<le> 122) \<or> n = 95)"

definition newline :: "char \<Rightarrow> bool" where
  "newline c \<longleftrightarrow> (of_char c :: nat) \<in> {10, 13}"

fun strip_prefix :: "string \<Rightarrow> string \<Rightarrow> string option" where
  "strip_prefix [] s = Some s"
| "strip_prefix (p # ps) [] = None"
| "strip_prefix (p # ps) (c # cs) = (if p = c then strip_prefix ps cs else None)"

text \<open>
  \<open>hoverHack\<close>: the first match of \<open>rhoverHack\<close> becomes two types.  \<open>hover_end\<close> is the rest of the expression after
  \<open>hover\<close>: a point and as many non-blanks as end at a word boundary, else nothing.
\<close>

definition boundary :: "char option \<Rightarrow> string \<Rightarrow> bool" where
  "boundary p s \<longleftrightarrow> ((case p of None \<Rightarrow> False | Some c \<Rightarrow> is_word c) \<noteq> (case s of [] \<Rightarrow> False | c # _ \<Rightarrow> is_word c))"

fun group_end :: "nat \<Rightarrow> string \<Rightarrow> (string \<times> string) option" where
  "group_end 0 s = None"
| "group_end (Suc n) s =
     (if boundary (Some (s ! n)) (drop (Suc n) s) then Some (take (Suc n) s, drop (Suc n) s) else group_end n s)"

definition hover_end :: "string \<Rightarrow> (string \<times> string) option" where
  "hover_end s =
     (case (case s of [] \<Rightarrow> None
            | c # r \<Rightarrow> if c = CHR ''.''
                      then map_option (\<lambda>(g, t). (c # g, t)) (group_end (length (takeWhile (\<lambda>x. \<not> is_blank x) r)) r)
                      else None) of
        Some m \<Rightarrow> Some m
      | None \<Rightarrow> if boundary (Some (CHR ''r'')) s then Some ([], s) else None)"

definition hover_here :: "char option \<Rightarrow> string \<Rightarrow> (string \<times> string) option" where
  "hover_here p s =
     (if boundary p s then (case strip_prefix ''hover'' s of None \<Rightarrow> None | Some r \<Rightarrow> hover_end r) else None)"

fun hover_from :: "char option \<Rightarrow> string \<Rightarrow> string" where
  "hover_from p [] = []"
| "hover_from p (c # cs) =
     (case hover_here p (c # cs) of
        Some (g, r) \<Rightarrow> ''mouseenter'' @ g @ '' mouseleave'' @ g @ r
      | None \<Rightarrow> c # hover_from (Some c) cs)"

definition hover_hack :: "string \<Rightarrow> string" where
  "hover_hack = hover_from None"

definition pieces :: "string \<Rightarrow> string list" where
  "pieces types = split_by (CHR '' '') (trim_blanks (hover_hack types))"

text \<open>
  \<open>rtypenamespace.exec\<close>: what is before the first point and what is behind it.  An empty part is
  undefined in the source, and so are both when the expression does not match, as in \<open>click.\<close>; here it
  is the empty string.
\<close>

definition parse_tns :: "string \<Rightarrow> string \<times> string" where
  "parse_tns s =
     (let t = takeWhile (\<lambda>c. c \<noteq> CHR ''.'') s
      in case dropWhile (\<lambda>c. c \<noteq> CHR ''.'') s of
           [] \<Rightarrow> (t, [])
         | _ # ns \<Rightarrow> if ns = [] \<or> list_ex newline ns then ([], []) else (t, ns))"

definition sort_names :: "string \<Rightarrow> string list" where
  "sort_names ns = sort (split_by (CHR ''.'') ns)"

section \<open>Namespaces\<close>

text \<open>
  The expression built from the sorted names: \<open>ns_here\<close> matches the names from the start of the string,
  with any characters in between that end with a point; \<open>ns_test\<close> tries the start of the string and every place behind a point.
\<close>

fun after_dots :: "string \<Rightarrow> string list" where
  "after_dots [] = []"
| "after_dots (c # cs) =
     (if newline c then [] else if c = CHR ''.'' then cs # after_dots cs else after_dots cs)"

fun after_any :: "string \<Rightarrow> string list" where
  "after_any [] = []"
| "after_any (c # cs) = (if c = CHR ''.'' then cs # after_any cs else after_any cs)"

fun ns_here :: "string list \<Rightarrow> string \<Rightarrow> bool" where
  "ns_here [] s \<longleftrightarrow> (case s of [] \<Rightarrow> True | c # _ \<Rightarrow> c = CHR ''.'')"
| "ns_here [n] s \<longleftrightarrow>
     (case strip_prefix n s of
        None \<Rightarrow> False
      | Some r \<Rightarrow> (case r of [] \<Rightarrow> True | c # _ \<Rightarrow> c = CHR ''.''))"
| "ns_here (n # m # ns) s \<longleftrightarrow>
     (case strip_prefix n s of
        None \<Rightarrow> False
      | Some r \<Rightarrow> (case r of [] \<Rightarrow> False
                   | c # t \<Rightarrow> c = CHR ''.'' \<and> list_ex (ns_here (m # ns)) (t # after_dots t)))"

definition ns_test :: "string list \<Rightarrow> string \<Rightarrow> bool" where
  "ns_test names s \<longleftrightarrow> list_ex (ns_here names) (s # after_any s)"

section \<open>Namespaces as multisets\<close>

abbreviation plain_name :: "string \<Rightarrow> bool" where
  "plain_name w \<equiv> CHR ''.'' \<notin> set w \<and> \<not> list_ex newline w"

lemma split_by_nonempty [simp]: "split_by d s \<noteq> []"
  by (induction s) (auto split: list.splits)

lemma join_split [simp]: "join_by d (split_by d s) = s"
proof (induction s)
  case (Cons c cs)
  then show ?case by (cases "split_by d cs" rule: list.exhaust) (auto, (case_tac x22; simp)+)
qed simp

lemma split_by_parts: "w \<in> set (split_by d s) \<Longrightarrow> d \<notin> set w \<and> set w \<subseteq> set s"
proof (induction s arbitrary: w)
  case (Cons c cs)
  then show ?case by (auto split: if_splits list.splits) blast
qed simp

lemma split_by_plain: "d \<notin> set w \<Longrightarrow> split_by d w = [w]"
  by (induction w) auto

lemma split_by_append: "d \<notin> set w \<Longrightarrow> split_by d (w @ d # s) = w # split_by d s"
  by (induction w) (auto split: list.splits)

lemma split_join: "ws \<noteq> [] \<Longrightarrow> (\<And>w. w \<in> set ws \<Longrightarrow> d \<notin> set w) \<Longrightarrow> split_by d (join_by d ws) = ws"
proof (induction ws rule: induct_list012)
  case (3 x y zs)
  then show ?case by (simp add: split_by_append)
qed (simp_all add: split_by_plain)

lemma strip_prefix_Some [simp]: "strip_prefix p s = Some r \<longleftrightarrow> s = p @ r"
  by (induction p s rule: strip_prefix.induct) auto

lemma strip_prefix_None [simp]: "strip_prefix p s = None \<longleftrightarrow> (\<forall>r. s \<noteq> p @ r)"
  by (induction p s rule: strip_prefix.induct) auto

lemma join_Cons: "join_by d (w # ws) = (if ws = [] then w else w @ d # join_by d ws)"
  by (cases ws) auto

lemma after_any_append: "CHR ''.'' \<notin> set w \<Longrightarrow> after_any (w @ s) = after_any s"
  by (induction w) auto

lemma after_dots_append: "plain_name w \<Longrightarrow> after_dots (w @ s) = after_dots s"
  by (induction w) auto

text \<open>The places behind a point in a joined list are the joins of its tails.\<close>

lemma after_any_join:
  assumes "\<And>w. w \<in> set ws \<Longrightarrow> CHR ''.'' \<notin> set w"
  shows "after_any (join_by (CHR ''.'') ws) = map (\<lambda>k. join_by (CHR ''.'') (drop k ws)) [1..<length ws]"
  using assms
proof (induction ws rule: induct_list012)
  case (2 x)
  then show ?case using after_any_append [of x "[]"] by simp
next
  case (3 x y zs)
  have "map (\<lambda>k. join_by (CHR ''.'') (drop k (x # y # zs))) [1..<length (x # y # zs)]
      = map (\<lambda>k. join_by (CHR ''.'') (drop k (y # zs))) [0..<length (y # zs)]"
    by (simp add: map_Suc_upt [symmetric] del: upt_Suc drop_Suc_Cons join_by.simps)
       (simp del: upt_Suc)
  also have "[0..<length (y # zs)] = 0 # [1..<length (y # zs)]" by (subst upt_conv_Cons) simp_all
  finally show ?case using 3 by (simp add: after_any_append del: upt_Suc)
qed simp

lemma after_dots_join:
  assumes "\<And>w. w \<in> set ws \<Longrightarrow> plain_name w"
  shows "after_dots (join_by (CHR ''.'') ws) = after_any (join_by (CHR ''.'') ws)"
  using assms
proof (induction ws rule: induct_list012)
  case (2 x)
  then show ?case using after_any_append [of x "[]"] after_dots_append [of x "[]"] by simp
next
  case (3 x y zs)
  then have "plain_name x" by simp
  with 3 show ?case by (simp add: after_any_append after_dots_append) (simp add: newline_def)
qed simp

lemma subseq_drop_iff:
  "subseq (n # ns) hs \<longleftrightarrow> (\<exists>k<length hs. hs ! k = n \<and> subseq ns (drop (Suc k) hs))"
proof (induction hs)
  case (Cons h hs)
  show ?case
  proof
    assume l: "subseq (n # ns) (h # hs)"
    show "\<exists>k<length (h # hs). (h # hs) ! k = n \<and> subseq ns (drop (Suc k) (h # hs))"
    proof (cases "n = h \<and> subseq ns hs")
      case True
      then show ?thesis by (intro exI [of _ 0]) simp
    next
      case False
      with l have "subseq (n # ns) hs" by (auto dest: subseq_Cons')
      with Cons.IH obtain k where "k < length hs" "hs ! k = n" "subseq ns (drop (Suc k) hs)" by blast
      then show ?thesis by (intro exI [of _ "Suc k"]) simp
    qed
  next
    assume "\<exists>k<length (h # hs). (h # hs) ! k = n \<and> subseq ns (drop (Suc k) (h # hs))"
    then obtain k where k: "k < length (h # hs)" "(h # hs) ! k = n" "subseq ns (drop (Suc k) (h # hs))" by blast
    show "subseq (n # ns) (h # hs)"
    proof (cases k)
      case 0
      with k show ?thesis by simp
    next
      case (Suc j)
      with k Cons.IH have "subseq (n # ns) hs" by auto
      then show ?thesis by blast
    qed
  qed
qed simp

definition clean_names :: "string list \<Rightarrow> bool" where
  "clean_names ws \<longleftrightarrow> list_all plain_name ws"

lemma clean_names_simps [simp]:
  "clean_names []"
  "clean_names (w # ws) \<longleftrightarrow> plain_name w \<and> clean_names ws"
  by (simp_all add: clean_names_def)

lemma clean_names_drop: "clean_names ws \<Longrightarrow> clean_names (drop k ws)"
  by (auto simp: clean_names_def list_all_iff dest: in_set_dropD)

lemma places_of_join:
  assumes "clean_names ws" and "ws \<noteq> []"
  shows "join_by (CHR ''.'') ws # after_any (join_by (CHR ''.'') ws)
           = map (\<lambda>k. join_by (CHR ''.'') (drop k ws)) [0..<length ws]"
    and "join_by (CHR ''.'') ws # after_dots (join_by (CHR ''.'') ws)
           = map (\<lambda>k. join_by (CHR ''.'') (drop k ws)) [0..<length ws]"
proof -
  have w: "w \<in> set ws \<Longrightarrow> plain_name w" for w using assms(1) by (simp add: clean_names_def list_all_iff)
  have "[0..<length ws] = 0 # [1..<length ws]" using assms(2) by (subst upt_conv_Cons) simp_all
  with w show "join_by (CHR ''.'') ws # after_any (join_by (CHR ''.'') ws)
           = map (\<lambda>k. join_by (CHR ''.'') (drop k ws)) [0..<length ws]"
    by (subst after_any_join) simp_all
  with w show "join_by (CHR ''.'') ws # after_dots (join_by (CHR ''.'') ws)
           = map (\<lambda>k. join_by (CHR ''.'') (drop k ws)) [0..<length ws]"
    by (subst after_dots_join) simp_all
qed

lemma takeWhile_dot:
  assumes "CHR ''.'' \<notin> set n"
  shows "takeWhile (\<lambda>c. c \<noteq> CHR ''.'') (n @ CHR ''.'' # r) = n"
    and "takeWhile (\<lambda>c. c \<noteq> CHR ''.'') n = n"
  using assms by (induction n) auto

lemma first_name:
  assumes "CHR ''.'' \<notin> set n" and "clean_names (h # hs)"
    and "join_by (CHR ''.'') (h # hs) = n @ r" and "r = [] \<or> hd r = CHR ''.''"
  shows "n = h \<and> r = (if hs = [] then [] else CHR ''.'' # join_by (CHR ''.'') hs)"
proof -
  have "takeWhile (\<lambda>c. c \<noteq> CHR ''.'') (join_by (CHR ''.'') (h # hs)) = h"
    using assms(2) by (simp add: join_Cons takeWhile_dot)
  moreover have "takeWhile (\<lambda>c. c \<noteq> CHR ''.'') (n @ r) = n"
    using assms(1,4) by (cases r) (auto simp: takeWhile_dot)
  ultimately have "n = h" using assms(3) by simp
  with assms(3) show ?thesis by (simp add: join_Cons split: if_splits)
qed

lemma ns_here_join:
  assumes "clean_names (n # ns)" and "clean_names (h # hs)"
  shows "ns_here (n # ns) (join_by (CHR ''.'') (h # hs)) \<longleftrightarrow> n = h \<and> subseq ns hs"
  using assms
proof (induction ns arbitrary: n h hs)
  case Nil
  show ?case
  proof
    assume "ns_here [n] (join_by (CHR ''.'') (h # hs))"
    then obtain r where "join_by (CHR ''.'') (h # hs) = n @ r" "r = [] \<or> hd r = CHR ''.''"
      by (auto split: option.splits list.splits)
    with first_name [of n h hs r] Nil show "n = h \<and> subseq [] hs" by simp
  next
    assume "n = h \<and> subseq [] hs"
    then show "ns_here [n] (join_by (CHR ''.'') (h # hs))"
      by (cases hs) (auto split: option.splits list.splits)
  qed
next
  case (Cons m ns)
  have rest: "list_ex (ns_here (m # ns)) (join_by (CHR ''.'') hs # after_dots (join_by (CHR ''.'') hs))
                \<longleftrightarrow> subseq (m # ns) hs" if "hs \<noteq> []"
  proof -
    have "ns_here (m # ns) (join_by (CHR ''.'') (drop k hs)) \<longleftrightarrow> hs ! k = m \<and> subseq ns (drop (Suc k) hs)"
      if "k < length hs" for k
    proof -
      have "drop k hs = hs ! k # drop (Suc k) hs" using that by (simp add: Cons_nth_drop_Suc)
      moreover have "clean_names (drop k hs)" using Cons.prems by (simp add: clean_names_drop)
      ultimately show ?thesis using Cons.IH [of m "hs ! k" "drop (Suc k) hs"] Cons.prems by auto
    qed
    then show ?thesis
      using that Cons.prems by (subst places_of_join, simp, simp) (auto simp: list_ex_iff subseq_drop_iff)
  qed
  show ?case
  proof
    assume "ns_here (n # m # ns) (join_by (CHR ''.'') (h # hs))"
    then obtain t where t: "join_by (CHR ''.'') (h # hs) = n @ CHR ''.'' # t"
      and l: "list_ex (ns_here (m # ns)) (t # after_dots t)"
      by (auto split: option.splits list.splits)
    from first_name [OF _ _ t] Cons.prems have "n = h" "hs \<noteq> []" "t = join_by (CHR ''.'') hs"
      by (auto split: if_splits)
    with l rest show "n = h \<and> subseq (m # ns) hs" by simp
  next
    assume a: "n = h \<and> subseq (m # ns) hs"
    then have "hs \<noteq> []" by auto
    with a rest show "ns_here (n # m # ns) (join_by (CHR ''.'') (h # hs))"
      by (auto simp: join_Cons split: option.splits list.splits)
  qed
qed

lemma ns_test_join:
  assumes "clean_names names" and "names \<noteq> []" and "clean_names hs" and "hs \<noteq> []"
  shows "ns_test names (join_by (CHR ''.'') hs) \<longleftrightarrow> subseq names hs"
proof -
  obtain n ns where n: "names = n # ns" using assms(2) by (cases names) auto
  have "ns_here names (join_by (CHR ''.'') (drop k hs)) \<longleftrightarrow> hs ! k = n \<and> subseq ns (drop (Suc k) hs)"
    if "k < length hs" for k
  proof -
    have "drop k hs = hs ! k # drop (Suc k) hs" using that by (simp add: Cons_nth_drop_Suc)
    moreover have "clean_names (drop k hs)" using assms(3) by (simp add: clean_names_drop)
    ultimately show ?thesis using ns_here_join [of n ns "hs ! k" "drop (Suc k) hs"] assms(1) n by auto
  qed
  then show ?thesis
    using assms n unfolding ns_test_def
    by (subst places_of_join, simp, simp) (auto simp: list_ex_iff subseq_drop_iff)
qed

lemma sorted_subseq_iff:
  "sorted xs \<Longrightarrow> sorted ys \<Longrightarrow> subseq xs ys \<longleftrightarrow> mset xs \<subseteq># mset (ys :: 'a::linorder list)"
proof (induction ys arbitrary: xs)
  case (Cons y ys)
  show ?case
  proof (cases xs)
    case xs: (Cons x xs')
    show ?thesis
    proof (cases "x = y")
      case True
      with xs Cons show ?thesis by simp
    next
      case False
      have "mset xs \<subseteq># mset (y # ys) \<longleftrightarrow> mset xs \<subseteq># mset ys"
      proof
        assume l: "mset xs \<subseteq># mset (y # ys)"
        have "y \<notin># mset xs"
        proof
          assume "y \<in># mset xs"
          with xs False Cons.prems(1) have "x < y" by (auto simp: order.strict_iff_order)
          moreover have "x \<in># mset (y # ys)" using l xs by (meson list.set_intros(1) mset_subset_eqD set_mset_mset in_multiset_in_set)
          ultimately show False using Cons.prems(2) by auto
        qed
        show "mset xs \<subseteq># mset ys"
        proof (rule mset_subset_eqI)
          fix a
          show "count (mset xs) a \<le> count (mset ys) a"
          proof (cases "a = y")
            case True
            with \<open>y \<notin># mset xs\<close> have "count (mset xs) a = 0" by (simp only: count_eq_zero_iff) simp
            then show ?thesis by linarith
          next
            case False
            then show ?thesis using mset_subset_eq_count [OF l, of a] by simp
          qed
        qed
      qed (auto intro: subset_mset.order_trans)
      with False xs Cons show ?thesis by simp
    qed
  qed simp
next
  case Nil
  then show ?case by (cases xs) auto
qed

section \<open>Properties\<close>

lemma sort_names_clean: "\<not> list_ex newline ns \<Longrightarrow> clean_names (sort_names ns) \<and> sort_names ns \<noteq> [] \<and> sorted (sort_names ns)"
proof -
  assume "\<not> list_ex newline ns"
  then have "w \<in> set (split_by (CHR ''.'') ns) \<Longrightarrow> plain_name w" for w
    using split_by_parts [of w "CHR ''.''" ns] by (auto simp: list_ex_iff)
  then have "clean_names (sort_names ns)" unfolding clean_names_def sort_names_def list_all_iff by simp
  moreover have "length (sort_names ns) \<noteq> 0" by (simp add: sort_names_def)
  then have "sort_names ns \<noteq> []" by (simp only: length_0_conv) simp
  ultimately show ?thesis by (simp add: sort_names_def)
qed

text \<open>C40: The expression \<open>jQuery.event\<close> builds from the namespaces of a call finds them in the namespaces of a
  handler, which \<open>add\<close> has sorted and joined, exactly when every name of the call occurs in the
  handler's, and as often as there: containment of multisets, whatever the order the names were given in.
\<close>

theorem namespaces_submultiset:
  assumes "\<not> list_ex newline called" and "\<not> list_ex newline bound"
  shows "ns_test (sort_names called) (join_by (CHR ''.'') (sort_names bound))
           \<longleftrightarrow> mset (split_by (CHR ''.'') called) \<subseteq># mset (split_by (CHR ''.'') bound)"
proof -
  note c = sort_names_clean [OF assms(1)] and b = sort_names_clean [OF assms(2)]
  have "ns_test (sort_names called) (join_by (CHR ''.'') (sort_names bound))
          \<longleftrightarrow> mset (sort_names called) \<subseteq># mset (sort_names bound)"
    using ns_test_join sorted_subseq_iff c b by metis
  then show ?thesis by (simp add: sort_names_def)
qed

lemma namespaces_submultiset_witness:
  "ns_test (sort_names ''ui.tabs'') (join_by (CHR ''.'') (sort_names ''tabs.main.ui''))
   \<and> \<not> ns_test (sort_names ''ui.ui'') (join_by (CHR ''.'') (sort_names ''tabs.main.ui''))"
  by (subst (1 2) namespaces_submultiset) (simp_all add: newline_def insert_subset_eq_iff)

text \<open>
  A space too many makes an empty type, and a type that ends with a point is none.
\<close>

lemma odd_types:
  "pieces ''click  keyup'' = [''click'', [], ''keyup'']"
  "parse_tns ''click.'' = ([], [])"
  "parse_tns ''click.ui.tabs'' = (''click'', ''ui.tabs'')"
  "pieces '' hover.ui '' = [''mouseenter.ui'', ''mouseleave.ui'']"
  by code_simp+

end
