(* ===== verification/Jq_Events.thy ===== *)
theory Jq_Events
  imports Jq_Event_Names "HOL-Library.AList"
begin

text \<open>
  \<open>jQuery.event\<close> of \<open>jquery-1.7.1.js\<close>: binding, removing, dispatching and triggering.  Elements are numbers; the
  document and the selector engine are the parameter \<open>page\<close>; functions are numbers as well, and what
  a handler does is the parameter \<open>body\<close>, which may change the handlers of any element.
  The special events are those of a browser that has bubbling \<open>submit\<close> and \<open>change\<close> but no
  \<open>focusin\<close>.  Types that every JavaScript object has as a property (\<open>constructor\<close>) are not modelled.
\<close>

section \<open>The document\<close>

record page =
  parents :: "nat \<Rightarrow> nat list"
  node_name :: "nat \<Rightarrow> string"
  attr_id :: "nat \<Rightarrow> string option"
  attr_class :: "nat \<Rightarrow> string option"
  sizzle :: "string \<Rightarrow> nat \<Rightarrow> bool"
  disabled :: "nat \<Rightarrow> bool"
  char_data :: "nat \<Rightarrow> bool"
  no_data :: "nat \<Rightarrow> bool"
  is_window :: "nat \<Rightarrow> bool"
  owner_doc :: "nat \<Rightarrow> nat option"
  window_of :: "nat \<Rightarrow> nat"
  inline :: "nat \<Rightarrow> string \<Rightarrow> nat option"
  has_method :: "nat \<Rightarrow> string \<Rightarrow> bool"
  zero_width :: "nat \<Rightarrow> bool"

text \<open>
  \<open>quickParse\<close> and \<open>quickIs\<close>: a selector of a tag, an id and a class is decided without the
  engine.  An element without a class is tested with the text \<open>undefined\<close>.
\<close>

definition name_char :: "char \<Rightarrow> bool" where
  "name_char c \<longleftrightarrow> is_word c \<or> c = CHR ''-''"

definition quick_part :: "char \<Rightarrow> string \<Rightarrow> string option \<times> string" where
  "quick_part d s =
     (case s of [] \<Rightarrow> (None, [])
      | c # r \<Rightarrow> if c = d \<and> takeWhile name_char r \<noteq> [] then (Some (takeWhile name_char r), dropWhile name_char r)
                else (None, s))"

definition quick_parse :: "string \<Rightarrow> (string \<times> string option \<times> string option) option" where
  "quick_parse s =
     (let (i, r) = quick_part (CHR ''#'') (dropWhile is_word s); (c, r') = quick_part (CHR ''.'') r
      in if r' = [] then Some (to_lower (takeWhile is_word s), i, c) else None)"

definition quick_is :: "page \<Rightarrow> nat \<Rightarrow> string \<times> string option \<times> string option \<Rightarrow> bool" where
  "quick_is P e m =
     (case m of (tag, i, c) \<Rightarrow>
        (tag = [] \<or> to_lower (node_name P e) = tag) \<and>
        (case i of None \<Rightarrow> True | Some x \<Rightarrow> attr_id P e = Some x) \<and>
        (case c of None \<Rightarrow> True
         | Some x \<Rightarrow> x \<in> set (words_of (case attr_class P e of None \<Rightarrow> ''undefined'' | Some v \<Rightarrow> v))))"

definition selects :: "page \<Rightarrow> string \<Rightarrow> nat \<Rightarrow> bool" where
  "selects P s e = (case quick_parse s of Some m \<Rightarrow> quick_is P e m | None \<Rightarrow> sizzle P s e)"

section \<open>Special events\<close>

definition delegate_type :: "string \<Rightarrow> string" where
  "delegate_type t =
     (if t = ''focus'' then ''focusin'' else if t = ''blur'' then ''focusout''
      else if t = ''mouseenter'' then ''mouseover'' else if t = ''mouseleave'' then ''mouseout'' else [])"

definition bind_type :: "string \<Rightarrow> string" where
  "bind_type t = (if t = ''mouseenter'' then ''mouseover'' else if t = ''mouseleave'' then ''mouseout'' else [])"

definition mapped_type :: "string \<Rightarrow> string \<Rightarrow> string" where
  "mapped_type sel t =
     (let m = (if sel \<noteq> [] then delegate_type t else bind_type t) in if m \<noteq> [] then m else t)"

text \<open>The name of the property for the type of a handler, which may be undefined.\<close>

definition key_of :: "string \<Rightarrow> string" where
  "key_of t = (if t = [] then ''undefined'' else t)"

section \<open>Handlers\<close>

text \<open>
  A handler is a function or the function that \<open>one\<close> wraps around one.  \<open>h_sel\<close> is empty for a handler
  bound directly; \<open>h_type\<close> is the type it is kept under and \<open>h_orig\<close> the type it was bound for.
\<close>

datatype handler = Plain nat | Once nat

fun fn_of :: "handler \<Rightarrow> nat" where
  "fn_of (Plain f) = f"
| "fn_of (Once f) = f"

record hobj =
  h_type :: string
  h_orig :: string
  h_data :: "string option"
  h_fn :: handler
  h_guid :: nat
  h_sel :: string
  h_ns :: string

record hqueue =
  q_list :: "hobj list"
  q_count :: int

text \<open>
  The data of the elements (\<open>events\<close> and \<open>handle\<close>), the types the browser has been asked for at an element, \<open>jQuery.event.global\<close>,
  the numbers given to functions (\<open>0\<close> for none yet), the counters \<open>attaches\<close> of \<open>focusin\<close> and \<open>focusout\<close>, whether
  \<open>onbeforeunload\<close> is set, and \<open>jQuery.event.triggered\<close>.
\<close>

record store =
  s_events :: "nat \<Rightarrow> (string \<times> hqueue) list option"
  s_handle :: "nat \<Rightarrow> bool"
  s_listen :: "nat \<Rightarrow> string list"
  s_global :: "string list"
  s_guid :: "nat \<Rightarrow> nat"
  s_next :: nat
  s_attaches :: "string \<Rightarrow> int"
  s_unload :: "nat \<Rightarrow> bool"
  s_triggered :: "string option"

definition start_store :: store where
  "start_store =
     \<lparr>s_events = (\<lambda>_. None), s_handle = (\<lambda>_. False), s_listen = (\<lambda>_. []), s_global = [], s_guid = (\<lambda>_. 0),
      s_next = 1, s_attaches = (\<lambda>_. 0), s_unload = (\<lambda>_. False), s_triggered = None\<rparr>"

definition queue_at :: "nat \<Rightarrow> string \<Rightarrow> store \<Rightarrow> hqueue option" where
  "queue_at e k st = (case s_events st e of None \<Rightarrow> None | Some evs \<Rightarrow> map_of evs k)"

definition put_queue :: "nat \<Rightarrow> string \<Rightarrow> hqueue \<Rightarrow> store \<Rightarrow> store" where
  "put_queue e k q st =
     st\<lparr>s_events := (s_events st)(e := map_option (AList.update k q) (s_events st e))\<rparr>"

definition drop_queue :: "nat \<Rightarrow> string \<Rightarrow> store \<Rightarrow> store" where
  "drop_queue e k st = st\<lparr>s_events := (s_events st)(e := map_option (AList.delete k) (s_events st e))\<rparr>"

definition listen :: "nat \<Rightarrow> string \<Rightarrow> store \<Rightarrow> store" where
  "listen e k st = st\<lparr>s_listen := (s_listen st)(e := List.insert k (s_listen st e))\<rparr>"

definition unlisten :: "nat \<Rightarrow> string \<Rightarrow> store \<Rightarrow> store" where
  "unlisten e k st = st\<lparr>s_listen := (s_listen st)(e := removeAll k (s_listen st e))\<rparr>"

text \<open>\<open>special.setup\<close> and \<open>special.teardown\<close>; the browser is asked where there is none.\<close>

definition own_setup :: "string \<Rightarrow> bool" where
  "own_setup t \<longleftrightarrow> t \<in> {''ready'', ''beforeunload'', ''focusin'', ''focusout''}"

definition own_teardown :: "string \<Rightarrow> bool" where
  "own_teardown t \<longleftrightarrow> t \<in> {''beforeunload'', ''focusin'', ''focusout''}"

definition set_up :: "page \<Rightarrow> nat \<Rightarrow> string \<Rightarrow> store \<Rightarrow> store" where
  "set_up P e t st =
     (if t = ''focusin'' \<or> t = ''focusout'' then st\<lparr>s_attaches := (s_attaches st)(t := s_attaches st t + 1)\<rparr>
      else if t = ''beforeunload'' then (if is_window P e then st\<lparr>s_unload := (s_unload st)(e := True)\<rparr> else st)
      else if own_setup t then st
      else listen e (key_of t) st)"

text \<open>The teardown of \<open>beforeunload\<close> compares the handler in place with an argument it is not given.\<close>

definition tear_down :: "nat \<Rightarrow> string \<Rightarrow> string \<Rightarrow> store \<Rightarrow> store" where
  "tear_down e special t st =
     (if special = ''focusin'' \<or> special = ''focusout'' then st\<lparr>s_attaches := (s_attaches st)(special := s_attaches st special - 1)\<rparr>
      else if own_teardown special then st
      else unlisten e (key_of t) st)"

section \<open>Binding\<close>

text \<open>\<open>xs.splice(n, 0, x)\<close>.\<close>

definition splice_in :: "int \<Rightarrow> 'a \<Rightarrow> 'a list \<Rightarrow> 'a list" where
  "splice_in n x xs =
     (let k = (if n < 0 then nat (max 0 (int (length xs) + n)) else nat n) in take k xs @ x # drop k xs)"

definition insert_handler :: "string \<Rightarrow> hobj \<Rightarrow> hqueue \<Rightarrow> hqueue" where
  "insert_handler sel h q =
     (if sel \<noteq> [] then q\<lparr>q_list := splice_in (q_count q) h (q_list q), q_count := q_count q + 1\<rparr>
      else q\<lparr>q_list := q_list q @ [h]\<rparr>)"

text \<open>One piece of \<open>types\<close>; \<open>given\<close> is the handler object passed in lieu of a function.\<close>

definition add_piece :: "page \<Rightarrow> nat \<Rightarrow> string option \<Rightarrow> handler \<Rightarrow> nat \<Rightarrow> string \<Rightarrow> hobj option \<Rightarrow> string \<Rightarrow> store \<Rightarrow> store" where
  "add_piece P e data fn guid sel given piece st =
     (let (orig, ns) = parse_tns piece;
          t = mapped_type sel orig;
          h0 = \<lparr>h_type = t, h_orig = orig, h_data = data, h_fn = fn, h_guid = guid, h_sel = sel,
                h_ns = join_by (CHR ''.'') (sort_names ns)\<rparr>;
          h = (case given of None \<Rightarrow> h0
               | Some g \<Rightarrow> g\<lparr>h_type := if h_type g = [] then t else h_type g, h_orig := if h_orig g = [] then orig else h_orig g\<rparr>);
          (q, st1) = (case queue_at e (key_of t) st of
                        Some q \<Rightarrow> (q, st)
                      | None \<Rightarrow> (\<lparr>q_list = [], q_count = 0\<rparr>, set_up P e t st));
          st2 = put_queue e (key_of t) (insert_handler sel h q) st1
      in st2\<lparr>s_global := List.insert (key_of t) (s_global st2)\<rparr>)"

definition number_fn :: "nat \<Rightarrow> store \<Rightarrow> store" where
  "number_fn f st =
     (if s_guid st f = 0 then st\<lparr>s_guid := (s_guid st)(f := s_next st), s_next := s_next st + 1\<rparr> else st)"

definition open_events :: "nat \<Rightarrow> store \<Rightarrow> store" where
  "open_events e st =
     (case s_events st e of
        None \<Rightarrow> st\<lparr>s_events := (s_events st)(e := Some []), s_handle := (s_handle st)(e := True)\<rparr>
      | Some _ \<Rightarrow> st\<lparr>s_handle := (s_handle st)(e := True)\<rparr>)"

definition add_event :: "page \<Rightarrow> nat \<Rightarrow> string \<Rightarrow> handler \<Rightarrow> string option \<Rightarrow> string \<Rightarrow> store \<Rightarrow> store" where
  "add_event P e types fn data sel st =
     (if char_data P e \<or> no_data P e \<or> types = [] then st
      else (let st1 = number_fn (fn_of fn) st
            in fold (add_piece P e data fn (s_guid st1 (fn_of fn)) sel None) (pieces types) (open_events e st1)))"

text \<open>\<open>add\<close> with a handler object, as \<open>cloneCopyEvent\<close> calls it, without a selector.\<close>

definition add_given :: "page \<Rightarrow> nat \<Rightarrow> string \<Rightarrow> hobj \<Rightarrow> store \<Rightarrow> store" where
  "add_given P e types g st =
     (if char_data P e \<or> no_data P e \<or> types = [] then st
      else fold (add_piece P e (h_data g) (h_fn g) (h_guid g) [] (Some g)) (pieces types) (open_events e st))"

definition clone_events :: "page \<Rightarrow> nat \<Rightarrow> nat \<Rightarrow> store \<Rightarrow> store" where
  "clone_events P src dest st =
     (case s_events st src of
        None \<Rightarrow> st
      | Some evs \<Rightarrow>
          fold (\<lambda>(k, q). fold (\<lambda>h. add_given P dest (k @ (if h_ns h = [] then [] else ''.'') @ h_ns h) h) (q_list q)) evs
            (st\<lparr>s_events := (s_events st)(dest := Some []), s_handle := (s_handle st)(dest := False)\<rparr>))"

section \<open>Removing\<close>

definition removable :: "bool \<Rightarrow> string \<Rightarrow> nat option \<Rightarrow> string \<Rightarrow> string \<Rightarrow> hobj \<Rightarrow> bool" where
  "removable mapped orig guid ns sel h \<longleftrightarrow>
     (mapped \<or> orig = h_orig h) \<and>
     (case guid of None \<Rightarrow> True | Some g \<Rightarrow> g = h_guid h) \<and>
     (ns = [] \<or> ns_test (sort_names ns) (h_ns h)) \<and>
     (sel = [] \<or> sel = h_sel h \<or> (sel = ''**'' \<and> h_sel h \<noteq> []))"

text \<open>\<open>special\<close> is looked up before the type is mapped, and not again.\<close>

definition remove_named :: "nat \<Rightarrow> string \<Rightarrow> string \<Rightarrow> nat option \<Rightarrow> string \<Rightarrow> bool \<Rightarrow> store \<Rightarrow> store" where
  "remove_named e orig ns guid sel mapped st =
     (let t = mapped_type sel orig
      in case queue_at e t st of
           None \<Rightarrow> st
         | Some q \<Rightarrow>
             (let m = removable mapped orig guid ns sel;
                  left = filter (\<lambda>h. \<not> m h) (q_list q);
                  gone = length (filter (\<lambda>h. m h \<and> h_sel h \<noteq> []) (q_list q))
              in if left = [] \<and> q_list q \<noteq> [] then drop_queue e t (tear_down e orig t st)
                 else put_queue e t (q\<lparr>q_list := left, q_count := q_count q - int gone\<rparr>) st))"

definition close_events :: "nat \<Rightarrow> store \<Rightarrow> store" where
  "close_events e st =
     (if s_events st e = Some []
      then st\<lparr>s_events := (s_events st)(e := None), s_handle := (s_handle st)(e := False)\<rparr> else st)"

primrec try_all :: "('a \<Rightarrow> 's \<Rightarrow> 's option) \<Rightarrow> 'a list \<Rightarrow> 's \<Rightarrow> 's option" where
  "try_all f [] s = Some s"
| "try_all f (x # xs) s = (case f x s of None \<Rightarrow> None | Some t \<Rightarrow> try_all f xs t)"

text \<open>
  \<open>remove\<close>.  A piece without a type is removed from every type there is, by a call for each.
  The fuel bounds the depth of these calls; \<open>None\<close> means that it was not enough.
\<close>

fun remove_event :: "nat \<Rightarrow> nat \<Rightarrow> string \<Rightarrow> nat option \<Rightarrow> string \<Rightarrow> bool \<Rightarrow> store \<Rightarrow> store option" where
  "remove_event 0 e types guid sel mapped st = None"
| "remove_event (Suc n) e types guid sel mapped st =
     (case s_events st e of
        None \<Rightarrow> Some st
      | Some _ \<Rightarrow>
          map_option (close_events e)
            (try_all
               (\<lambda>piece st1.
                  case parse_tns piece of (orig, ns) \<Rightarrow>
                    if orig = []
                    then try_all
                           (\<lambda>k st2. if queue_at e k st2 = None then Some st2 else remove_event n e (k @ piece) guid sel True st2)
                           (case s_events st1 e of None \<Rightarrow> [] | Some evs \<Rightarrow> map fst evs) st1
                    else Some (remove_named e orig ns guid sel mapped st1))
               (pieces types) st))"

section \<open>Arguments of on and off\<close>

text \<open>
  Arguments that may be left out or in another order: \<open>Missing\<close> is \<open>undefined\<close> or \<open>null\<close>, \<open>Other\<close> some data.
  The result of \<open>on_args\<close> is the selector, the data and the function, \<open>None\<close> when there is no function.  \<open>false\<close> is
  short for the function \<open>0\<close>, \<open>returnFalse\<close>.  Text or data in the place of the function and the form with an object of
  types, which calls \<open>on\<close> or \<open>off\<close> for each, are left out.
\<close>

datatype arg = Missing | Text string | Fn nat | FalseArg | Other string

fun arg_fn :: "arg \<Rightarrow> nat option" where
  "arg_fn (Fn f) = Some f"
| "arg_fn FalseArg = Some 0"
| "arg_fn _ = None"

fun arg_text :: "arg \<Rightarrow> string" where
  "arg_text (Text s) = s"
| "arg_text _ = []"

fun arg_data :: "arg \<Rightarrow> string option" where
  "arg_data (Text s) = Some s"
| "arg_data (Other s) = Some s"
| "arg_data _ = None"

definition on_args :: "arg \<Rightarrow> arg \<Rightarrow> arg \<Rightarrow> (string \<times> string option \<times> nat) option" where
  "on_args sel data fn =
     (let (s, d, f) =
        (if data = Missing \<and> fn = Missing then (Missing, Missing, sel)
         else if fn = Missing then
           (case sel of Text _ \<Rightarrow> (sel, Missing, data) | _ \<Rightarrow> (Missing, sel, data))
         else (sel, data, fn))
      in map_option (\<lambda>g. (arg_text s, arg_data d, g)) (arg_fn f))"

definition jq_on :: "page \<Rightarrow> nat \<Rightarrow> string \<Rightarrow> arg \<Rightarrow> arg \<Rightarrow> arg \<Rightarrow> bool \<Rightarrow> store \<Rightarrow> store" where
  "jq_on P e types sel data fn once st =
     (case on_args sel data fn of
        None \<Rightarrow> st
      | Some (s, d, f) \<Rightarrow>
          if once then add_event P e types (Once f) d s (number_fn f st)
          else add_event P e types (Plain f) d s st)"

definition off_args :: "arg \<Rightarrow> arg \<Rightarrow> string \<times> nat option" where
  "off_args sel fn =
     (case sel of
        FalseArg \<Rightarrow> ([], Some 0)
      | Fn f \<Rightarrow> ([], Some f)
      | _ \<Rightarrow> (arg_text sel, arg_fn fn))"

text \<open>Two levels of calls are enough for every list of proper types: \<open>off_returns\<close> of \<open>Jq_Event_Store\<close>.\<close>

definition jq_off :: "nat \<Rightarrow> string \<Rightarrow> arg \<Rightarrow> arg \<Rightarrow> store \<Rightarrow> store option" where
  "jq_off e types sel fn st =
     (case off_args sel fn of (s, f) \<Rightarrow> remove_event 2 e types (map_option (s_guid st) f) s False st)"

definition jq_bind :: "page \<Rightarrow> nat \<Rightarrow> string \<Rightarrow> arg \<Rightarrow> arg \<Rightarrow> store \<Rightarrow> store" where
  "jq_bind P e types data fn = jq_on P e types Missing data fn False"

definition jq_unbind :: "nat \<Rightarrow> string \<Rightarrow> arg \<Rightarrow> store \<Rightarrow> store option" where
  "jq_unbind e types fn = jq_off e types Missing fn"

definition jq_delegate :: "page \<Rightarrow> nat \<Rightarrow> string \<Rightarrow> string \<Rightarrow> arg \<Rightarrow> arg \<Rightarrow> store \<Rightarrow> store" where
  "jq_delegate P e sel types data fn = jq_on P e types (Text sel) data fn False"

definition jq_die :: "nat \<Rightarrow> string \<Rightarrow> string \<Rightarrow> arg \<Rightarrow> store \<Rightarrow> store option" where
  "jq_die doc sel types fn = jq_off doc types (Text (if sel = [] then ''**'' else sel)) fn"

section \<open>Events\<close>

datatype ret = Undefined | RFalse | RValue string

record event =
  e_type :: string
  e_target :: nat
  e_related :: "nat option"
  e_button :: nat
  e_ns :: string
  e_exclusive :: bool
  e_prevented :: bool
  e_stopped :: bool
  e_immediate :: bool
  e_result :: ret
  e_current :: nat
  e_delegate :: nat
  e_data :: "string option"
  e_obj :: "hobj option"

text \<open>What a handler answers, and which methods of the event it has called.\<close>

record outcome =
  o_ret :: ret
  o_prevent :: bool
  o_stop :: bool
  o_stop_now :: bool

type_synonym body = "nat \<Rightarrow> nat \<Rightarrow> event \<Rightarrow> store \<Rightarrow> outcome \<times> store"

record run =
  r_event :: event
  r_store :: store
  r_calls :: "((nat \<times> hobj) \<times> outcome) list"

definition prevent_default :: "event \<Rightarrow> event" where
  "prevent_default ev = ev\<lparr>e_prevented := True\<rparr>"

definition stop_propagation :: "event \<Rightarrow> event" where
  "stop_propagation ev = ev\<lparr>e_stopped := True\<rparr>"

definition stop_immediate :: "event \<Rightarrow> event" where
  "stop_immediate ev = stop_propagation (ev\<lparr>e_immediate := True\<rparr>)"

definition handler_acts :: "outcome \<Rightarrow> event \<Rightarrow> event" where
  "handler_acts r ev =
     (let ev1 = (if o_prevent r then prevent_default ev else ev);
          ev2 = (if o_stop r then stop_propagation ev1 else ev1)
      in if o_stop_now r then stop_immediate ev2 else ev2)"

definition take_result :: "ret \<Rightarrow> event \<Rightarrow> event" where
  "take_result r ev =
     (case r of
        Undefined \<Rightarrow> ev
      | RFalse \<Rightarrow> stop_propagation (prevent_default (ev\<lparr>e_result := RFalse\<rparr>))
      | RValue v \<Rightarrow> ev\<lparr>e_result := RValue v\<rparr>)"

section \<open>Dispatching\<close>

text \<open>\<open>for (i = 0; i < n && !halted; i++)\<close> over a list made before the loop.\<close>

fun until_halted :: "('s \<Rightarrow> bool) \<Rightarrow> ('a \<Rightarrow> 's \<Rightarrow> 's) \<Rightarrow> 'a list \<Rightarrow> 's \<Rightarrow> 's" where
  "until_halted halted step [] s = s"
| "until_halted halted step (x # xs) s = (if halted s then s else until_halted halted step xs (step x s))"

text \<open>\<open>mouseenter\<close> and \<open>mouseleave\<close> are run only when the mouse comes from, or goes, outside.\<close>

definition crosses :: "page \<Rightarrow> nat \<Rightarrow> event \<Rightarrow> bool" where
  "crosses P this ev =
     (case e_related ev of None \<Rightarrow> True | Some r \<Rightarrow> r \<noteq> this \<and> this \<notin> set (parents P r))"

definition wanted :: "event \<Rightarrow> hobj \<Rightarrow> bool" where
  "wanted ev h \<longleftrightarrow>
     (\<not> e_exclusive ev \<and> e_ns ev = []) \<or> (e_ns ev = [] \<and> h_ns h = []) \<or>
     (e_ns ev \<noteq> [] \<and> ns_test (sort_names (e_ns ev)) (h_ns h))"

definition runs :: "page \<Rightarrow> event \<Rightarrow> nat \<times> hobj \<Rightarrow> bool" where
  "runs P ev x \<longleftrightarrow> wanted ev (snd x) \<and> (bind_type (h_orig (snd x)) \<noteq> [] \<longrightarrow> crosses P (fst x) ev)"

text \<open>\<open>off(event)\<close>: the handler object of the event is removed where it was bound.\<close>

definition off_event :: "event \<Rightarrow> store \<Rightarrow> store option" where
  "off_event ev st =
     (case e_obj ev of
        None \<Rightarrow> Some st
      | Some h \<Rightarrow>
          remove_event 2 (e_delegate ev) (if h_ns h = [] then h_type h else key_of (h_type h) @ ''.'' @ h_ns h)
            (Some (h_guid h)) (h_sel h) False st)"

definition call_handler :: "body \<Rightarrow> nat \<Rightarrow> event \<Rightarrow> hobj \<Rightarrow> store \<Rightarrow> outcome \<times> store" where
  "call_handler body this ev h st =
     (case h_fn h of
        Plain f \<Rightarrow> body f this ev st
      | Once f \<Rightarrow> body f this ev (case off_event ev st of None \<Rightarrow> st | Some st' \<Rightarrow> st'))"

definition fire_one :: "page \<Rightarrow> body \<Rightarrow> nat \<Rightarrow> hobj \<Rightarrow> run \<Rightarrow> run" where
  "fire_one P body this h r =
     (if \<not> wanted (r_event r) h then r
      else (let ev = (r_event r)\<lparr>e_data := h_data h, e_obj := Some h\<rparr>
            in if bind_type (h_orig h) \<noteq> []
               then (if crosses P this ev
                     then (case call_handler body this (ev\<lparr>e_type := h_orig h\<rparr>) h (r_store r) of (out, st) \<Rightarrow>
                             \<lparr>r_event = take_result (o_ret out) (handler_acts out (ev\<lparr>e_type := bind_type (h_orig h)\<rparr>)),
                              r_store = st, r_calls = r_calls r @ [((this, h), out)]\<rparr>)
                     else r\<lparr>r_event := ev\<rparr>)
               else (case call_handler body this ev h (r_store r) of (out, st) \<Rightarrow>
                       \<lparr>r_event = take_result (o_ret out) (handler_acts out ev),
                        r_store = st, r_calls = r_calls r @ [((this, h), out)]\<rparr>)))"

definition fire_matched :: "page \<Rightarrow> body \<Rightarrow> nat \<times> hobj list \<Rightarrow> run \<Rightarrow> run" where
  "fire_matched P body m r =
     until_halted (\<lambda>r. e_immediate (r_event r)) (fire_one P body (fst m)) (snd m)
       (r\<lparr>r_event := (r_event r)\<lparr>e_current := fst m\<rparr>\<rparr>)"

text \<open>\<open>handlers.slice(n)\<close>: from the end for a negative count.\<close>

definition slice_from :: "int \<Rightarrow> 'a list \<Rightarrow> 'a list" where
  "slice_from n xs = drop (if n < 0 then nat (max 0 (int (length xs) + n)) else nat n) xs"

definition handler_queue :: "page \<Rightarrow> nat \<Rightarrow> event \<Rightarrow> hqueue \<Rightarrow> (nat \<times> hobj list) list" where
  "handler_queue P this ev q =
     (if q_count q \<noteq> 0 \<and> \<not> disabled P (e_target ev) \<and> \<not> (e_button ev \<noteq> 0 \<and> e_type ev = ''click'')
      then filter (\<lambda>m. snd m \<noteq> [])
             (map (\<lambda>cur. (cur, filter (\<lambda>h. selects P (h_sel h) cur) (take (nat (q_count q)) (q_list q))))
                (takeWhile (\<lambda>cur. cur \<noteq> this) (e_target ev # parents P (e_target ev))))
      else []) @
     (if int (length (q_list q)) > q_count q then [(this, slice_from (q_count q) (q_list q))] else [])"

definition dispatch :: "page \<Rightarrow> body \<Rightarrow> nat \<Rightarrow> run \<Rightarrow> run" where
  "dispatch P body this r =
     (let ev = (r_event r)\<lparr>e_delegate := this\<rparr>;
          q = (case queue_at this (e_type ev) (r_store r) of
                 Some q \<Rightarrow> handler_queue P this ev q
               | None \<Rightarrow> [])
      in until_halted (\<lambda>r. e_stopped (r_event r)) (fire_matched P body) q (r\<lparr>r_event := ev\<rparr>))"

text \<open>The function the browser calls: the second event of a \<open>trigger\<close> is discarded.\<close>

definition event_handle :: "page \<Rightarrow> body \<Rightarrow> nat \<Rightarrow> run \<Rightarrow> run" where
  "event_handle P body e r =
     (if s_triggered (r_store r) = Some (e_type (r_event r)) then r else dispatch P body e r)"

section \<open>Triggering\<close>

definition no_bubble :: "string \<Rightarrow> bool" where
  "no_bubble t \<longleftrightarrow> t = ''load''"

definition focus_morph :: "string \<Rightarrow> bool" where
  "focus_morph s \<longleftrightarrow> s = ''focusinfocus'' \<or> s = ''focusoutblur''"

definition event_path :: "page \<Rightarrow> nat \<Rightarrow> string \<Rightarrow> bool \<Rightarrow> (nat \<times> string) list" where
  "event_path P e t only =
     (e, mapped_type [] t) #
     (if \<not> only \<and> \<not> no_bubble t \<and> \<not> is_window P e
      then (let bubble = (if delegate_type t \<noteq> [] then delegate_type t else t);
                up = (if focus_morph (bubble @ t) then e # parents P e else parents P e)
            in map (\<lambda>c. (c, bubble)) up @
               (if up \<noteq> [] \<and> owner_doc P e = Some (last up) then [(window_of P (last up), bubble)] else []))
      else [])"

definition fire_at :: "page \<Rightarrow> body \<Rightarrow> string \<Rightarrow> nat \<times> string \<Rightarrow> run \<Rightarrow> run" where
  "fire_at P body ontype c r =
     (let r1 = r\<lparr>r_event := (r_event r)\<lparr>e_type := snd c\<rparr>\<rparr>;
          r2 = (if queue_at (fst c) (snd c) (r_store r1) \<noteq> None \<and> s_handle (r_store r1) (fst c)
                then event_handle P body (fst c) r1 else r1)
      in case (if ontype = [] then None else inline P (fst c) ontype) of
           None \<Rightarrow> r2
         | Some f \<Rightarrow>
             if no_data P (fst c) then r2
             else (case body f (fst c) (r_event r2) (r_store r2) of (out, st) \<Rightarrow>
                     (let ev = handler_acts out (r_event r2)
                      in r2\<lparr>r_store := st, r_event := if o_ret out = RFalse then prevent_default ev else ev\<rparr>)))"

text \<open>
  The name of the event: \<open>!\<close> makes it exclusive and takes off the last character, namespaces follow the first point.
\<close>

definition trigger_name :: "string \<Rightarrow> string \<times> string \<times> bool" where
  "trigger_name s =
     (let exclusive = (CHR ''!'' \<in> set s);
          t = (if exclusive then butlast s else s)
      in if CHR ''.'' \<in> set t
         then (takeWhile (\<lambda>c. c \<noteq> CHR ''.'') t,
               join_by (CHR ''.'') (sort_names (tl (dropWhile (\<lambda>c. c \<noteq> CHR ''.'') t))), exclusive)
         else (t, [], exclusive))"

definition custom_event :: "string \<Rightarrow> bool" where
  "custom_event t \<longleftrightarrow> t \<in> {''getData'', ''setData'', ''changeData''}"

text \<open>
  \<open>trigger\<close> with the name of a type, at an element.  The second part of the result is the native method
  that is called at the end, as the default action; \<open>native\<close> is what it does.
\<close>

definition default_action :: "page \<Rightarrow> nat \<Rightarrow> string \<Rightarrow> string \<Rightarrow> (store \<Rightarrow> store) \<Rightarrow> run \<Rightarrow> run \<times> string option" where
  "default_action P e t ontype native r =
     (if \<not> e_prevented (r_event r) \<and> \<not> (t = ''click'' \<and> to_lower (node_name P e) = ''a'') \<and> \<not> no_data P e \<and>
         ontype \<noteq> [] \<and> has_method P e t \<and>
         ((t \<noteq> ''focus'' \<and> t \<noteq> ''blur'') \<or> \<not> zero_width P (e_target (r_event r))) \<and> \<not> is_window P e
      then (let st = native ((r_store r)\<lparr>s_triggered := Some t\<rparr>)
            in (r\<lparr>r_store := st\<lparr>s_triggered := None\<rparr>\<rparr>, Some t))
      else (r, None))"

definition new_event :: "string \<Rightarrow> string \<Rightarrow> bool \<Rightarrow> nat \<Rightarrow> event" where
  "new_event t ns exclusive target =
     \<lparr>e_type = t, e_target = target, e_related = None, e_button = 0, e_ns = ns, e_exclusive = exclusive,
      e_prevented = False, e_stopped = False, e_immediate = False, e_result = Undefined, e_current = target,
      e_delegate = target, e_data = None, e_obj = None\<rparr>"

definition trigger :: "page \<Rightarrow> body \<Rightarrow> (store \<Rightarrow> store) \<Rightarrow> string \<Rightarrow> nat \<Rightarrow> bool \<Rightarrow> store \<Rightarrow> run \<times> string option" where
  "trigger P body native name e only st =
     (let (t, ns, exclusive) = trigger_name name;
          r = \<lparr>r_event = new_event t ns exclusive e, r_store = st, r_calls = []\<rparr>;
          ontype = (if CHR '':'' \<in> set t then [] else ''on'' @ t)
      in if char_data P e \<or> focus_morph (name @ (case s_triggered st of None \<Rightarrow> ''undefined'' | Some x \<Rightarrow> x)) \<or>
            (custom_event t \<and> t \<notin> set (s_global st))
         then (r, None)
         else (let r1 = until_halted (\<lambda>r. e_stopped (r_event r)) (fire_at P body ontype) (event_path P e t only) r;
                   r2 = r1\<lparr>r_event := (r_event r1)\<lparr>e_type := t\<rparr>\<rparr>
               in if only then (r2, None) else default_action P e t ontype native r2))"

end
