(* ===== verification/Jq_Dispatch.thy ===== *)
theory Jq_Dispatch
  imports Jq_Events
begin

text \<open>
  In which order the handlers of an element are called.  The two nested loops of \<open>dispatch\<close> and the loop of \<open>trigger\<close>
  end early when the event has been stopped; what such a loop does is a locale, interpreted for each of them.
\<close>

section \<open>Loops that may be halted\<close>

text \<open>
  A step emits a list, planned for it; it emits less only when it breaks off, and then the loop halts.
\<close>

locale halting_loop =
  fixes halted :: "'s \<Rightarrow> bool"
    and step :: "'a \<Rightarrow> 's \<Rightarrow> 's"
    and emitted :: "'s \<Rightarrow> 't list"
    and plan :: "'a \<Rightarrow> 't list"
    and broken :: "'s \<Rightarrow> bool"
    and good :: "'s \<Rightarrow> bool"
  assumes emits: "good s \<Longrightarrow> \<exists>ts. emitted (step x s) = emitted s @ ts \<and> prefix ts (plan x) \<and> (ts = plan x \<or> broken (step x s))"
    and good_step: "good s \<Longrightarrow> good (step x s)"
    and broken_halts: "good s \<Longrightarrow> broken s \<Longrightarrow> halted s"
begin

lemma good_loop: "good s \<Longrightarrow> good (until_halted halted step xs s)"
  by (induction xs arbitrary: s) (simp_all add: good_step)

lemma halted_loop: "halted s \<Longrightarrow> until_halted halted step xs s = s"
  by (cases xs) simp_all

text \<open>The loop emits the beginning of what is planned, in order: all of it unless halted, whole steps unless broken off.\<close>

lemma loop_emits:
  assumes "good s"
  shows "\<exists>us k. emitted (until_halted halted step xs s) = emitted s @ us \<and>
           prefix us (concat (map plan xs)) \<and>
           (us = concat (map plan xs) \<or> halted (until_halted halted step xs s)) \<and>
           (us = concat (map plan (take k xs)) \<or> broken (until_halted halted step xs s))"
  using assms
proof (induction xs arbitrary: s)
  case Nil
  then show ?case by simp
next
  case (Cons x xs)
  show ?case
  proof (cases "halted s")
    case True
    then show ?thesis by (intro exI [of _ "[]"] exI [of _ 0]) simp
  next
    case False
    from emits [OF Cons.prems, of x] obtain ts
      where ts: "emitted (step x s) = emitted s @ ts" "prefix ts (plan x)" "ts = plan x \<or> broken (step x s)" by blast
    show ?thesis
    proof (cases "ts = plan x")
      case True
      from Cons.IH [OF good_step [OF Cons.prems, of x]] obtain us k
        where us: "emitted (until_halted halted step xs (step x s)) = emitted (step x s) @ us"
          "prefix us (concat (map plan xs))"
          "us = concat (map plan xs) \<or> halted (until_halted halted step xs (step x s))"
          "us = concat (map plan (take k xs)) \<or> broken (until_halted halted step xs (step x s))" by blast
      show ?thesis
        using us ts(1) True False by (intro exI [of _ "ts @ us"] exI [of _ "Suc k"]) auto
    next
      case broke: False
      with ts(3) have b: "broken (step x s)" by simp
      have h: "halted (step x s)" by (rule broken_halts [OF good_step [OF Cons.prems] b])
      then have "until_halted halted step (x # xs) s = step x s" using False by (simp add: halted_loop)
      moreover have "prefix ts (concat (map plan (x # xs)))" using ts(2) by (simp add: prefix_def) auto
      ultimately show ?thesis using ts(1) b h by (intro exI [of _ ts] exI [of _ 0]) simp
    qed
  qed
qed

end

section \<open>The loops of dispatch\<close>

text \<open>What decides whether a handler runs is the same in two states of an event.\<close>

definition same_kind :: "event \<Rightarrow> event \<Rightarrow> bool" where
  "same_kind ev ev' \<longleftrightarrow> e_ns ev' = e_ns ev \<and> e_exclusive ev' = e_exclusive ev \<and> e_related ev' = e_related ev"

definition consistent :: "event \<Rightarrow> run \<Rightarrow> bool" where
  "consistent ev r \<longleftrightarrow> same_kind ev (r_event r) \<and> (e_immediate (r_event r) \<longrightarrow> e_stopped (r_event r))"

lemmas acts_defs = handler_acts_def take_result_def prevent_default_def stop_propagation_def stop_immediate_def

lemma runs_same_kind: "same_kind ev ev' \<Longrightarrow> runs P ev' x \<longleftrightarrow> runs P ev x"
  by (simp add: same_kind_def runs_def wanted_def crosses_def)

lemma same_kind_acts [simp]:
  "same_kind ev (take_result r ev') \<longleftrightarrow> same_kind ev ev'"
  "same_kind ev (handler_acts out ev') \<longleftrightarrow> same_kind ev ev'"
  by (auto simp: acts_defs same_kind_def Let_def split: ret.splits)

lemma immediate_acts:
  "(e_immediate ev \<longrightarrow> e_stopped ev) \<Longrightarrow>
   e_immediate (take_result r (handler_acts out ev)) \<longrightarrow> e_stopped (take_result r (handler_acts out ev))"
  by (auto simp: acts_defs Let_def split: ret.splits)

lemma same_kind_updates [simp]:
  "same_kind ev (ev'\<lparr>e_data := d, e_obj := h\<rparr>) \<longleftrightarrow> same_kind ev ev'"
  "same_kind ev (ev'\<lparr>e_type := t\<rparr>) \<longleftrightarrow> same_kind ev ev'"
  "same_kind ev (ev'\<lparr>e_current := c\<rparr>) \<longleftrightarrow> same_kind ev ev'"
  "same_kind ev (ev'\<lparr>e_delegate := c\<rparr>) \<longleftrightarrow> same_kind ev ev'"
  by (simp_all add: same_kind_def)

lemma fire_one_consistent: "consistent ev r \<Longrightarrow> consistent ev (fire_one P body this h r)"
  by (auto simp: fire_one_def consistent_def Let_def immediate_acts split: prod.splits)

abbreviation called :: "run \<Rightarrow> (nat \<times> hobj) list" where
  "called r \<equiv> map fst (r_calls r)"

lemma fire_one_calls:
  assumes "consistent ev r"
  shows "called (fire_one P body this h r) = called r @ (if runs P ev (this, h) then [(this, h)] else [])"
proof -
  have "runs P (r_event r) (this, h) \<longleftrightarrow> runs P ev (this, h)"
    using assms by (simp add: consistent_def runs_same_kind)
  then show ?thesis by (auto simp: fire_one_def runs_def crosses_def Let_def split: prod.splits)
qed

interpretation one_element: halting_loop "\<lambda>r. e_immediate (r_event r)" "fire_one P body this" called
    "\<lambda>h. if runs P ev (this, h) then [(this, h)] else []" "\<lambda>r. e_immediate (r_event r)" "consistent ev"
  for P body this ev
  by unfold_locales (auto simp: fire_one_calls fire_one_consistent)

definition group_plan :: "page \<Rightarrow> event \<Rightarrow> nat \<times> hobj list \<Rightarrow> (nat \<times> hobj) list" where
  "group_plan P ev m = filter (runs P ev) (map (Pair (fst m)) (snd m))"

lemma group_plan_concat: "group_plan P ev m = concat (map (\<lambda>h. if runs P ev (fst m, h) then [(fst m, h)] else []) (snd m))"
proof -
  have "filter (runs P ev) (map (Pair c) hs) = concat (map (\<lambda>h. if runs P ev (c, h) then [(c, h)] else []) hs)" for c hs
    by (induction hs) auto
  then show ?thesis by (simp add: group_plan_def)
qed

lemma consistent_current: "consistent ev r \<Longrightarrow> consistent ev (r\<lparr>r_event := (r_event r)\<lparr>e_current := c\<rparr>\<rparr>)"
  by (simp add: consistent_def)

lemma consistent_stopped: "consistent ev r \<Longrightarrow> e_immediate (r_event r) \<Longrightarrow> e_stopped (r_event r)"
  by (simp add: consistent_def)

lemma fire_matched_consistent: "consistent ev r \<Longrightarrow> consistent ev (fire_matched P body m r)"
  unfolding fire_matched_def by (intro one_element.good_loop consistent_current)

lemma fire_matched_calls:
  assumes "consistent ev r"
  shows "\<exists>ts. called (fire_matched P body m r) = called r @ ts \<and> prefix ts (group_plan P ev m) \<and>
           (ts = group_plan P ev m \<or> e_immediate (r_event (fire_matched P body m r)))"
  using one_element.loop_emits [OF consistent_current [OF assms, of "fst m"], where P = P and body = body and this = "fst m" and xs = "snd m"]
  unfolding fire_matched_def group_plan_concat by auto

interpretation all_elements: halting_loop "\<lambda>r. e_stopped (r_event r)" "fire_matched P body" called
    "group_plan P ev" "\<lambda>r. e_immediate (r_event r)" "consistent ev"
  for P body ev
  by unfold_locales (simp_all add: fire_matched_calls fire_matched_consistent consistent_stopped)

section \<open>The order of the calls\<close>

text \<open>
  What \<open>delegateCount\<close> is meant to be: the handlers with a selector come first, and it counts them.
\<close>

abbreviation delegated :: "hobj list \<Rightarrow> hobj list" where
  "delegated \<equiv> filter (\<lambda>h. h_sel h \<noteq> [])"

abbreviation direct :: "hobj list \<Rightarrow> hobj list" where
  "direct \<equiv> filter (\<lambda>h. h_sel h = [])"

definition queue_ok :: "hqueue \<Rightarrow> bool" where
  "queue_ok q \<longleftrightarrow> q_list q \<noteq> [] \<and> q_list q = delegated (q_list q) @ direct (q_list q) \<and>
     q_count q = int (length (delegated (q_list q)))"

lemma queue_ok_parts:
  assumes "queue_ok q"
  shows "take (nat (q_count q)) (q_list q) = delegated (q_list q)"
    and "slice_from (q_count q) (q_list q) = direct (q_list q)"
    and "int (length (q_list q)) > q_count q \<longleftrightarrow> direct (q_list q) \<noteq> []"
    and "q_count q = 0 \<longleftrightarrow> delegated (q_list q) = []"
proof -
  obtain ds rs where r: "ds = delegated (q_list q)" "rs = direct (q_list q)" by blast
  with assms have l: "q_list q = ds @ rs" and c: "q_count q = int (length ds)" by (simp_all add: queue_ok_def)
  from r show "take (nat (q_count q)) (q_list q) = delegated (q_list q)" unfolding r(1) [symmetric] using l c by simp
  from r show "slice_from (q_count q) (q_list q) = direct (q_list q)"
    unfolding r(2) [symmetric] using l c by (simp add: slice_from_def)
  from r show "int (length (q_list q)) > q_count q \<longleftrightarrow> direct (q_list q) \<noteq> []"
    unfolding r(2) [symmetric] using l c by simp
  from r show "q_count q = 0 \<longleftrightarrow> delegated (q_list q) = []"
    unfolding r(1) [symmetric] using c by simp
qed

text \<open>
  The plan in terms of the handlers that are bound, in the order they were bound: for every element from the
  target up to the one dispatched at, the handlers bound there for a selector that element matches; then
  the ones bound directly.
\<close>

definition call_groups :: "page \<Rightarrow> nat \<Rightarrow> event \<Rightarrow> hobj list \<Rightarrow> (nat \<times> hobj list) list" where
  "call_groups P this ev hs =
     map (\<lambda>c. (c, filter (\<lambda>h. h_sel h \<noteq> [] \<and> selects P (h_sel h) c) hs))
       (takeWhile (\<lambda>c. c \<noteq> this) (e_target ev # parents P (e_target ev))) @
     [(this, direct hs)]"

definition calls_of :: "page \<Rightarrow> event \<Rightarrow> (nat \<times> hobj list) list \<Rightarrow> (nat \<times> hobj) list" where
  "calls_of P ev gs = concat (map (group_plan P ev) gs)"

lemma calls_of_nonempty: "calls_of P ev (filter (\<lambda>m. snd m \<noteq> []) gs) = calls_of P ev gs"
  by (induction gs) (auto simp: calls_of_def group_plan_def)

lemma calls_of_take_nonempty: "\<exists>j. calls_of P ev (take k (filter (\<lambda>m. snd m \<noteq> []) gs)) = calls_of P ev (take j gs)"
proof (induction gs arbitrary: k)
  case (Cons g gs)
  show ?case
  proof (cases "snd g = []")
    case True
    from Cons.IH [of k] obtain j where "calls_of P ev (take k (filter (\<lambda>m. snd m \<noteq> []) gs)) = calls_of P ev (take j gs)" ..
    with True show ?thesis by (intro exI [of _ "Suc j"]) (simp add: calls_of_def group_plan_def)
  next
    case False
    show ?thesis
    proof (cases k)
      case 0
      then show ?thesis by (intro exI [of _ 0]) simp
    next
      case (Suc i)
      from Cons.IH [of i] obtain j where "calls_of P ev (take i (filter (\<lambda>m. snd m \<noteq> []) gs)) = calls_of P ev (take j gs)" ..
      with False Suc show ?thesis by (intro exI [of _ "Suc j"]) (simp add: calls_of_def)
    qed
  qed
qed simp

lemma handler_queue_groups:
  assumes "queue_ok q" and "\<not> disabled P (e_target ev)" and "e_button ev = 0 \<or> e_type ev \<noteq> ''click''"
  shows "handler_queue P this ev q = filter (\<lambda>m. snd m \<noteq> []) (call_groups P this ev (q_list q))"
proof -
  note parts = queue_ok_parts [OF assms(1)]
  have f: "filter (\<lambda>h. selects P (h_sel h) c) (delegated (q_list q))
             = filter (\<lambda>h. h_sel h \<noteq> [] \<and> selects P (h_sel h) c) (q_list q)" for c
    by (simp add: conj_commute)
  have none: "filter (\<lambda>m. snd m \<noteq> []) (map (\<lambda>c. (c, filter (\<lambda>h. h_sel h \<noteq> [] \<and> selects P (h_sel h) c) (q_list q))) cs) = []"
    if "delegated (q_list q) = []" for cs
  proof -
    have "filter (\<lambda>h. h_sel h \<noteq> [] \<and> selects P (h_sel h) c) (q_list q) = []" for c
      using that by (auto simp: filter_empty_conv)
    then show ?thesis by (simp add: filter_empty_conv)
  qed
  show ?thesis
    unfolding handler_queue_def call_groups_def filter_append parts f
    using assms(2,3) none by auto
qed

section \<open>Stopping\<close>

definition stops :: "outcome \<Rightarrow> bool" where
  "stops out \<longleftrightarrow> o_stop out \<or> o_stop_now out \<or> o_ret out = RFalse"

text \<open>After a call that stops at once there is no other; after one that stops, only calls for the same element.\<close>

definition stops_in_time :: "((nat \<times> hobj) \<times> outcome) list \<Rightarrow> bool" where
  "stops_in_time = sorted_wrt (\<lambda>x y. \<not> o_stop_now (snd x) \<and> (stops (snd x) \<longrightarrow> fst (fst x) = fst (fst y)))"

text \<open>The flags of the event say what the calls have answered.\<close>

definition flags_tell :: "run \<Rightarrow> bool" where
  "flags_tell r \<longleftrightarrow>
     (e_stopped (r_event r) \<longleftrightarrow> list_ex (\<lambda>x. stops (snd x)) (r_calls r)) \<and>
     (e_immediate (r_event r) \<longleftrightarrow> list_ex (\<lambda>x. o_stop_now (snd x)) (r_calls r)) \<and> stops_in_time (r_calls r)"

definition stops_at :: "nat \<Rightarrow> run \<Rightarrow> bool" where
  "stops_at c r \<longleftrightarrow> list_all (\<lambda>x. stops (snd x) \<longrightarrow> fst (fst x) = c) (r_calls r)"

lemma until_halted_guarded:
  assumes "\<And>x s. I s \<Longrightarrow> \<not> halted s \<Longrightarrow> I (step x s)" and "I s"
  shows "I (until_halted halted step xs s)"
  using assms(2) by (induction xs arbitrary: s) (simp_all add: assms(1))

lemma acts_flags:
  "e_stopped (take_result (o_ret out) (handler_acts out ev)) \<longleftrightarrow> e_stopped ev \<or> stops out"
  "e_immediate (take_result (o_ret out) (handler_acts out ev)) \<longleftrightarrow> e_immediate ev \<or> o_stop_now out"
  by (auto simp: acts_defs stops_def Let_def split: ret.splits)

lemma one_more_call:
  assumes "flags_tell r" and "stops_at c r" and "\<not> e_immediate (r_event r)"
    and "e_stopped ev = (e_stopped (r_event r) \<or> stops out)" and "e_immediate ev = (e_immediate (r_event r) \<or> o_stop_now out)"
  shows "flags_tell \<lparr>r_event = ev, r_store = st, r_calls = r_calls r @ [((c, h), out)]\<rparr> \<and>
    stops_at c \<lparr>r_event = ev, r_store = st, r_calls = r_calls r @ [((c, h), out)]\<rparr>"
  using assms
  by (auto simp: flags_tell_def stops_at_def stops_in_time_def sorted_wrt_append list_ex_iff list_all_iff)

lemma fire_one_flags:
  assumes "flags_tell r \<and> stops_at c r" and "\<not> e_immediate (r_event r)"
  shows "flags_tell (fire_one P body c h r) \<and> stops_at c (fire_one P body c h r)"
  unfolding fire_one_def Let_def
  using assms by (auto simp: acts_flags one_more_call split: prod.splits) (simp_all add: flags_tell_def stops_at_def)

lemma fire_matched_flags:
  assumes "flags_tell r" and "\<not> e_stopped (r_event r)"
  shows "flags_tell (fire_matched P body m r)"
proof -
  let ?r = "r\<lparr>r_event := (r_event r)\<lparr>e_current := fst m\<rparr>\<rparr>"
  have "flags_tell ?r \<and> stops_at (fst m) ?r"
    using assms by (simp add: flags_tell_def stops_at_def list_ex_iff list_all_iff)
  then have "flags_tell (fire_matched P body m r) \<and> stops_at (fst m) (fire_matched P body m r)"
    unfolding fire_matched_def by (rule until_halted_guarded [rotated]) (rule fire_one_flags)
  then show ?thesis ..
qed

definition fresh :: "event \<Rightarrow> bool" where
  "fresh ev \<longleftrightarrow> \<not> e_stopped ev \<and> \<not> e_immediate ev"

text \<open>C36: For an event that no handler has stopped yet, whose target is not disabled and which is no click of another than the left
  button, \<open>dispatch\<close> calls the handlers bound for the type in the order of the plan: delegated before direct,
  delegated from the target outwards, and otherwise as they were bound.  It calls all of them unless one of them stops
  the propagation, and finishes the element it is at even then, unless one stops it at once; no handler is called
  after one that stops at once, and none of another element after one that stops.  What the
  handlers bind or remove meanwhile changes nothing in this.  The list of handlers must be in order, the delegated ones in front and counted, as it is for every element but
  clones: those may skip handlers (\<open>clone_skips_handlers\<close>), and for a disabled target or another button the delegated ones are not called.
\<close>

theorem dispatch_in_order:
  assumes "queue_at this (e_type ev) st = Some q" and "queue_ok q" and "fresh ev"
    and "\<not> disabled P (e_target ev)" and "e_button ev = 0 \<or> e_type ev \<noteq> ''click''"
    and "r = dispatch P body this \<lparr>r_event = ev, r_store = st, r_calls = []\<rparr>"
  shows "prefix (map fst (r_calls r)) (calls_of P ev (call_groups P this ev (q_list q))) \<and>
    (map fst (r_calls r) = calls_of P ev (call_groups P this ev (q_list q)) \<or> list_ex (\<lambda>x. stops (snd x)) (r_calls r)) \<and>
    ((\<exists>k. map fst (r_calls r) = calls_of P ev (take k (call_groups P this ev (q_list q))))
       \<or> list_ex (\<lambda>x. o_stop_now (snd x)) (r_calls r)) \<and>
    stops_in_time (r_calls r)"
proof -
  define ev' where "ev' = ev\<lparr>e_delegate := this\<rparr>"
  define r0 where "r0 = \<lparr>r_event = ev', r_store = st, r_calls = [] :: ((nat \<times> hobj) \<times> outcome) list\<rparr>"
  define gs where "gs = call_groups P this ev (q_list q)"
  have "handler_queue P this ev' q = filter (\<lambda>m. snd m \<noteq> []) gs"
    using handler_queue_groups [OF assms(2), of P ev' this] assms(4,5)
    by (simp add: ev'_def gs_def call_groups_def)
  then have r: "r = until_halted (\<lambda>r. e_stopped (r_event r)) (fire_matched P body) (filter (\<lambda>m. snd m \<noteq> []) gs) r0"
    using assms(1,6) by (simp add: dispatch_def Let_def ev'_def r0_def)
  have "consistent ev r0" using assms(3) by (simp add: consistent_def r0_def ev'_def same_kind_def fresh_def)
  from all_elements.loop_emits [OF this, of P body "filter (\<lambda>m. snd m \<noteq> []) gs", folded r calls_of_def]
  have "prefix (called r) (calls_of P ev gs)"
    and "called r = calls_of P ev gs \<or> e_stopped (r_event r)"
    and "(\<exists>k. called r = calls_of P ev (take k (filter (\<lambda>m. snd m \<noteq> []) gs))) \<or> e_immediate (r_event r)"
    by (auto simp: r0_def calls_of_nonempty)
  moreover have "\<exists>j. calls_of P ev (take k (filter (\<lambda>m. snd m \<noteq> []) gs)) = calls_of P ev (take j gs)" for k
    by (rule calls_of_take_nonempty)
  moreover have "flags_tell r"
  proof -
    have "flags_tell r0" using assms(3) by (simp add: flags_tell_def r0_def ev'_def fresh_def stops_in_time_def)
    then show ?thesis unfolding r by (rule until_halted_guarded [rotated]) (rule fire_matched_flags)
  qed
  ultimately show ?thesis unfolding gs_def flags_tell_def by metis
qed

text \<open>A list item \<open>2\<close> with a child \<open>3\<close> in a list \<open>1\<close>; function \<open>2\<close> returns \<open>false\<close>.\<close>

definition list_page :: page where
  "list_page =
     \<lparr>parents = (\<lambda>e. if e = 3 then [2, 1] else if e = 2 then [1] else []),
      node_name = (\<lambda>e. if e = 2 then ''LI'' else if e = 3 then ''A'' else ''UL''), attr_id = (\<lambda>e. if e = 3 then Some ''x'' else None),
      attr_class = (\<lambda>_. None), sizzle = (\<lambda>_ _. False), disabled = (\<lambda>_. False), char_data = (\<lambda>_. False),
      no_data = (\<lambda>_. False), is_window = (\<lambda>_. False), owner_doc = (\<lambda>_. None), window_of = (\<lambda>e. e),
      inline = (\<lambda>_ _. None), has_method = (\<lambda>_ _. False), zero_width = (\<lambda>_. False)\<rparr>"

definition list_body :: body where
  "list_body f e ev st =
     (\<lparr>o_ret = if f = 2 then RFalse else Undefined, o_prevent = False, o_stop = False, o_stop_now = False\<rparr>, st)"

definition list_store :: store where
  "list_store =
     fold (\<lambda>(s, f). jq_on list_page 1 ''click'' s Missing (Fn f) False)
       [(Missing, 1), (Text ''li'', 2), (Text ''#x'', 3), (Missing, 4)] start_store"

definition list_queue :: hqueue where
  "list_queue = (case queue_at 1 ''click'' list_store of Some q \<Rightarrow> q | None \<Rightarrow> \<lparr>q_list = [], q_count = 0\<rparr>)"

definition list_run :: run where
  "list_run = dispatch list_page list_body 1 \<lparr>r_event = new_event ''click'' [] False 3, r_store = list_store, r_calls = []\<rparr>"

lemma list_run_calls: "map (\<lambda>((c, h), _). (c, fn_of (h_fn h))) (r_calls list_run) = [(3, 3), (2, 2)]"
  by code_simp

lemma list_queue_found: "queue_at 1 ''click'' list_store = Some list_queue" "queue_ok list_queue"
   by code_simp+

lemma dispatch_in_order_witness:
  "prefix (map fst (r_calls list_run)) (calls_of list_page (new_event ''click'' [] False 3)
      (call_groups list_page 1 (new_event ''click'' [] False 3) (q_list list_queue))) \<and>
   stops_in_time (r_calls list_run)"
  using dispatch_in_order [of 1 "new_event ''click'' [] False 3" list_store list_queue list_page list_run list_body]
    list_queue_found
  by (simp add: list_run_def new_event_def fresh_def list_page_def)

end
