(* ===== verification/Jq_Event_Store.thy ===== *)
theory Jq_Event_Store
  imports Jq_Dispatch
begin

text \<open>
  What holds of the handlers of all elements whatever is bound, removed and triggered; that \<open>off\<close> undoes
  \<open>on\<close>; for which types \<open>remove\<close> returns; and where the handlers do not end up as they should.
\<close>

section \<open>The handlers of an element\<close>

named_theorems store_simps \<open>the queues after the elementary updates of the store\<close>

definition queue_fits :: "store \<Rightarrow> string \<Rightarrow> hqueue \<Rightarrow> bool" where
  "queue_fits st k q \<longleftrightarrow>
     k \<noteq> [] \<and> queue_ok q \<and>
     (\<forall>h\<in>set (q_list q). key_of (h_type h) = k \<and> h_type h = mapped_type (h_sel h) (h_orig h) \<and> 0 < h_guid h \<and> h_guid h < s_next st)"

text \<open>
  Every queue is in order, the types the browser has been asked for are those with handlers, and the
  numbers of functions are not used twice.  An element \<open>e0\<close> that is being worked at may have no types for the moment.
\<close>

definition events_ok :: "nat \<Rightarrow> store \<Rightarrow> bool" where
  "events_ok e0 st \<longleftrightarrow>
     (\<forall>e evs. s_events st e = Some evs \<longrightarrow> (evs \<noteq> [] \<or> e = e0) \<and> distinct (map fst evs) \<and> s_handle st e) \<and>
     (\<forall>e k q. queue_at e k st = Some q \<longrightarrow> queue_fits st k q) \<and>
     (\<forall>e k. k \<in> set (s_listen st e) \<longleftrightarrow> queue_at e k st \<noteq> None \<and> \<not> own_setup k) \<and>
     (\<forall>f. s_guid st f < s_next st)"

definition store_ok :: "store \<Rightarrow> bool" where
  "store_ok st \<longleftrightarrow> (\<forall>e. s_events st e \<noteq> Some []) \<and> (\<exists>e. events_ok e st)"

lemma store_ok_at: "store_ok st \<longleftrightarrow> events_ok e st \<and> s_events st e \<noteq> Some []"
  unfolding store_ok_def events_ok_def by (rule iffI) (force, metis)

lemma queue_at_put [store_simps]:
  "s_events st e \<noteq> None \<Longrightarrow>
   queue_at e' k' (put_queue e k q st) = (if e' = e \<and> k' = k then Some q else queue_at e' k' st)"
  by (auto simp: queue_at_def put_queue_def update_conv')

lemma queue_at_drop [store_simps]:
  "queue_at e' k' (drop_queue e k st) = (if e' = e \<and> k' = k then None else queue_at e' k' st)"
  by (auto simp: queue_at_def drop_queue_def delete_conv' split: option.splits)

lemma queue_at_other [store_simps]:
  "queue_at e' k' (listen e k st) = queue_at e' k' st"
  "queue_at e' k' (unlisten e k st) = queue_at e' k' st"
  "queue_at e' k' (set_up P e t st) = queue_at e' k' st"
  "queue_at e' k' (tear_down e s t st) = queue_at e' k' st"
  "queue_at e' k' (st\<lparr>s_global := g\<rparr>) = queue_at e' k' st"
  "queue_at e' k' (number_fn f st) = queue_at e' k' st"
  "queue_at e' k' (open_events e st) = queue_at e' k' st"
  "queue_at e' k' (close_events e st) = queue_at e' k' st"
  by (auto simp: queue_at_def listen_def unlisten_def set_up_def tear_down_def number_fn_def open_events_def close_events_def
      split: option.splits)

lemma store_fields [store_simps]:
  "s_events (listen e k st) = s_events st" "s_events (unlisten e k st) = s_events st"
  "s_events (set_up P e t st) = s_events st" "s_events (tear_down e s t st) = s_events st"
  "s_events (number_fn f st) = s_events st"
  "s_handle (listen e k st) = s_handle st" "s_handle (unlisten e k st) = s_handle st"
  "s_handle (set_up P e t st) = s_handle st" "s_handle (tear_down e s t st) = s_handle st"
  "s_handle (number_fn f st) = s_handle st" "s_handle (put_queue e k q st) = s_handle st" "s_handle (drop_queue e k st) = s_handle st"
  "s_next (listen e k st) = s_next st" "s_next (unlisten e k st) = s_next st"
  "s_next (set_up P e t st) = s_next st" "s_next (tear_down e s t st) = s_next st"
  "s_next (put_queue e k q st) = s_next st" "s_next (drop_queue e k st) = s_next st"
  "s_next (open_events e st) = s_next st" "s_next (close_events e st) = s_next st"
  "s_guid (listen e k st) = s_guid st" "s_guid (unlisten e k st) = s_guid st"
  "s_guid (set_up P e t st) = s_guid st" "s_guid (tear_down e s t st) = s_guid st"
  "s_guid (put_queue e k q st) = s_guid st" "s_guid (drop_queue e k st) = s_guid st"
  "s_guid (open_events e st) = s_guid st" "s_guid (close_events e st) = s_guid st"
  "s_listen (put_queue e k q st) = s_listen st" "s_listen (drop_queue e k st) = s_listen st"
  "s_listen (number_fn f st) = s_listen st"
  "s_listen (open_events e st) = s_listen st" "s_listen (close_events e st) = s_listen st"
  by (auto simp: listen_def unlisten_def set_up_def tear_down_def number_fn_def put_queue_def drop_queue_def open_events_def
      close_events_def split: option.splits)

lemma listening_set_up [store_simps]:
  "k \<in> set (s_listen (set_up P e t st) e') \<longleftrightarrow> k \<in> set (s_listen st e') \<or> (e' = e \<and> k = key_of t \<and> \<not> own_setup t)"
  by (auto simp: set_up_def listen_def own_setup_def)

lemma own_teardown_setup: "own_teardown t \<Longrightarrow> own_setup t"
  by (auto simp: own_teardown_def own_setup_def)

lemma events_put [store_simps]:
  "s_events (put_queue e k q st) e' = (if e' = e then map_option (AList.update k q) (s_events st e) else s_events st e')"
  by (simp add: put_queue_def)

lemma events_drop [store_simps]:
  "s_events (drop_queue e k st) e' = (if e' = e then map_option (AList.delete k) (s_events st e) else s_events st e')"
  by (simp add: drop_queue_def)

lemma update_nonempty [simp]: "AList.update k q evs \<noteq> []"
  by (cases evs) auto

lemma own_setup_key [simp]: "own_setup (key_of t) = own_setup t" "key_of t \<noteq> []"
  by (simp_all add: key_of_def own_setup_def)

section \<open>Binding keeps the order\<close>

lemma queue_ok_insert:
  assumes "queue_ok q \<or> q = \<lparr>q_list = [], q_count = 0\<rparr>"
  shows "queue_ok (insert_handler (h_sel h) h q)"
proof -
  obtain ds rs where r: "ds = delegated (q_list q)" "rs = direct (q_list q)" by blast
  have l: "q_list q = ds @ rs" "q_count q = int (length ds)"
    and s: "delegated ds = ds" "delegated rs = []" "direct ds = []" "direct rs = rs"
    using assms r by (auto simp: queue_ok_def filter_empty_conv)
  then show ?thesis by (auto simp: queue_ok_def insert_handler_def splice_in_def)
qed

lemma set_insert: "set (q_list (insert_handler s h q)) = insert h (set (q_list q))"
proof -
  have "set (splice_in n h xs) = insert h (set xs)" for n xs
    unfolding splice_in_def Let_def set_append list.set(2)
    by (subst append_take_drop_id [symmetric, of xs "if n < 0 then nat (max 0 (int (length xs) + n)) else nat n"])
       (simp only: set_append Un_insert_right)
  then show ?thesis by (simp add: insert_handler_def)
qed

text \<open>The handler object of one piece.\<close>

definition piece_obj :: "string option \<Rightarrow> handler \<Rightarrow> nat \<Rightarrow> string \<Rightarrow> string \<Rightarrow> hobj" where
  "piece_obj data fn guid sel piece =
     (case parse_tns piece of (orig, ns) \<Rightarrow>
        \<lparr>h_type = mapped_type sel orig, h_orig = orig, h_data = data, h_fn = fn, h_guid = guid, h_sel = sel,
         h_ns = join_by (CHR ''.'') (sort_names ns)\<rparr>)"

definition piece_key :: "string \<Rightarrow> string \<Rightarrow> string" where
  "piece_key sel piece = key_of (mapped_type sel (fst (parse_tns piece)))"

lemma piece_obj_simps [simp]:
  "h_guid (piece_obj data fn guid sel piece) = guid"
  "h_sel (piece_obj data fn guid sel piece) = sel"
  "key_of (mapped_type sel (h_orig (piece_obj data fn guid sel piece))) = piece_key sel piece"
  "piece_key sel piece \<noteq> []"
  "h_type (piece_obj data fn guid sel piece) = mapped_type sel (h_orig (piece_obj data fn guid sel piece))"
  by (simp_all add: piece_obj_def piece_key_def split: prod.splits)

definition old_queue :: "nat \<Rightarrow> string \<Rightarrow> store \<Rightarrow> hqueue" where
  "old_queue e k st = (case queue_at e k st of Some q \<Rightarrow> q | None \<Rightarrow> \<lparr>q_list = [], q_count = 0\<rparr>)"

lemma add_piece_queues:
  assumes "s_events st e \<noteq> None"
  shows "queue_at e' k (add_piece P e data fn guid sel None piece st) =
     (if e' = e \<and> k = piece_key sel piece
      then Some (insert_handler sel (piece_obj data fn guid sel piece) (old_queue e k st))
      else queue_at e' k st)"
  using assms
  by (auto simp: add_piece_def Let_def piece_key_def piece_obj_def old_queue_def store_simps split: prod.splits option.splits)

lemma add_piece_fields:
  "s_next (add_piece P e data fn guid sel None piece st) = s_next st"
  "s_guid (add_piece P e data fn guid sel None piece st) = s_guid st"
  "s_handle (add_piece P e data fn guid sel None piece st) = s_handle st"
  "k \<in> set (s_listen (add_piece P e data fn guid sel None piece st) e') \<longleftrightarrow>
     k \<in> set (s_listen st e') \<or> (e' = e \<and> k = piece_key sel piece \<and> queue_at e k st = None \<and> \<not> own_setup k)"
  "\<exists>q. s_events (add_piece P e data fn guid sel None piece st) e'
        = (if e' = e then map_option (AList.update (piece_key sel piece) q) (s_events st e) else s_events st e')"
  by (auto simp: add_piece_def Let_def piece_key_def store_simps split: prod.splits option.splits)

lemma events_okI:
  assumes "\<And>e' evs. s_events st e' = Some evs \<Longrightarrow> (evs \<noteq> [] \<or> e' = e) \<and> distinct (map fst evs) \<and> s_handle st e'"
    and "\<And>e' k q. queue_at e' k st = Some q \<Longrightarrow> queue_fits st k q"
    and "\<And>e' k. k \<in> set (s_listen st e') \<longleftrightarrow> queue_at e' k st \<noteq> None \<and> \<not> own_setup k"
    and "\<And>f. s_guid st f < s_next st"
  shows "events_ok e st"
  using assms unfolding events_ok_def by blast

lemma events_okD:
  assumes "events_ok e st"
  shows "s_events st e' = Some evs \<Longrightarrow> (evs \<noteq> [] \<or> e' = e) \<and> distinct (map fst evs) \<and> s_handle st e'"
    and "queue_at e' k st = Some q \<Longrightarrow> queue_fits st k q"
    and "k \<in> set (s_listen st e') \<longleftrightarrow> queue_at e' k st \<noteq> None \<and> \<not> own_setup k"
    and "s_guid st f < s_next st"
  using assms unfolding events_ok_def by blast+

lemma queue_fits_next: "queue_fits st k q \<Longrightarrow> s_next st \<le> s_next st' \<Longrightarrow> queue_fits st' k q"
  unfolding queue_fits_def by (meson order_less_le_trans)

lemma add_piece_ok:
  fixes P data fn sel piece
  assumes "events_ok e st" and "s_events st e \<noteq> None" and "0 < guid" and "guid < s_next st"
  defines "st' \<equiv> add_piece P e data fn guid sel None piece st"
  shows "events_ok e st' \<and> (\<exists>evs. s_events st' e = Some evs \<and> evs \<noteq> [])"
proof
  note f = add_piece_fields [where P = P and e = e and data = data and fn = fn and guid = guid and sel = sel and piece = piece and st = st, folded st'_def]
  note q = add_piece_queues [OF assms(2), where P = P and data = data and fn = fn and guid = guid and sel = sel and piece = piece, folded st'_def]
  from f(5) obtain qu where ev: "s_events st' e' = (if e' = e then map_option (AList.update (piece_key sel piece) qu) (s_events st e) else s_events st e')"
    if "e' = e" for e' by (metis (lifting))
  show "\<exists>evs. s_events st' e = Some evs \<and> evs \<noteq> []" using ev [of e] assms(2) by auto
  show "events_ok e st'"
  proof (rule events_okI)
    fix e' evs assume s: "s_events st' e' = Some evs"
    obtain qu' where ev': "s_events st' e' = (if e' = e then map_option (AList.update (piece_key sel piece) qu') (s_events st e) else s_events st e')"
      using f(5) by blast
    show "(evs \<noteq> [] \<or> e' = e) \<and> distinct (map fst evs) \<and> s_handle st' e'"
      using s ev' events_okD(1) [OF assms(1), of e'] by (auto simp: f(3) distinct_update split: if_splits)
  next
    fix e' k qu assume "queue_at e' k st' = Some qu"
    moreover have "queue_fits st' k (insert_handler sel (piece_obj data fn guid sel piece) (old_queue e k st))"
      if k: "k = piece_key sel piece"
    proof (cases "queue_at e k st")
      case None
      then show ?thesis using assms(3,4) k
        using queue_ok_insert [of "old_queue e k st" "piece_obj data fn guid sel piece"]
        by (simp add: old_queue_def queue_fits_def set_insert f(1))
    next
      case (Some qq)
      then show ?thesis using assms(3,4) k events_okD(2) [OF assms(1) Some]
        using queue_ok_insert [of "old_queue e k st" "piece_obj data fn guid sel piece"]
        by (auto simp: old_queue_def queue_fits_def set_insert f(1))
    qed
    moreover have "queue_at e' k st = Some qu \<Longrightarrow> queue_fits st' k qu"
      by (rule queue_fits_next [OF events_okD(2) [OF assms(1)]]) (simp_all add: f(1))
    ultimately show "queue_fits st' k qu" by (auto simp: q split: if_splits)
  next
    fix e' k show "k \<in> set (s_listen st' e') \<longleftrightarrow> queue_at e' k st' \<noteq> None \<and> \<not> own_setup k"
      using events_okD(3) [OF assms(1), of k e'] by (auto simp: f(4) q)
  next
    fix g show "s_guid st' g < s_next st'" using events_okD(4) [OF assms(1)] by (simp add: f)
  qed
qed

lemma add_pieces_ok:
  assumes "events_ok e st" and "s_events st e \<noteq> None" and "0 < guid" and "guid < s_next st" and "ps \<noteq> []"
  shows "store_ok (fold (add_piece P e data fn guid sel None) ps st)"
proof -
  have "events_ok e (fold (add_piece P e data fn guid sel None) ps st) \<and>
        (ps \<noteq> [] \<longrightarrow> s_events (fold (add_piece P e data fn guid sel None) ps st) e \<noteq> Some [])"
    if "events_ok e st" "s_events st e \<noteq> None" "guid < s_next st" for ps st
    using that
  proof (induction ps arbitrary: st)
    case (Cons p ps)
    note a = add_piece_ok [OF Cons.prems(1,2) assms(3) Cons.prems(3), of P data fn sel p]
    then have "s_events (add_piece P e data fn guid sel None p st) e \<noteq> None" by auto
    with a Cons.IH [of "add_piece P e data fn guid sel None p st"] Cons.prems(3) show ?case
      by (cases ps) (auto simp: add_piece_fields)
  qed simp
  then show ?thesis using assms by (auto simp: store_ok_at [of _ e])
qed

lemma s_next_number: "s_next st \<le> s_next (number_fn f st)"
  by (simp add: number_fn_def)

lemma number_fn_ok: "events_ok e st \<Longrightarrow> events_ok e (number_fn f st)"
proof (rule events_okI)
  assume ok: "events_ok e st"
  show "s_guid (number_fn f st) g < s_next (number_fn f st)" for g
    using events_okD(4) [OF ok, of g] by (auto simp: number_fn_def)
  show "queue_at e' k (number_fn f st) = Some q \<Longrightarrow> queue_fits (number_fn f st) k q" for e' k q
    using events_okD(2) [OF ok, of e' k q] queue_fits_next [OF _ s_next_number] by (simp add: store_simps)
qed (simp_all add: store_simps events_okD, simp add: events_ok_def)

lemma number_fn_guid: "events_ok e st \<Longrightarrow> 0 < s_next st \<Longrightarrow> 0 < s_guid (number_fn f st) f \<and> s_guid (number_fn f st) f < s_next (number_fn f st)"
  by (auto simp: number_fn_def events_ok_def)

lemma s_next_pos: "events_ok e st \<Longrightarrow> 0 < s_next st"
  using events_okD(4) by (metis not_less_zero neq0_conv)

lemma open_events_ok:
  assumes "store_ok st"
  shows "events_ok e (open_events e st) \<and> s_events (open_events e st) e \<noteq> None"
proof -
  have ok: "events_ok e st" "s_events st e \<noteq> Some []" using assms store_ok_at [of st e] by simp_all
  have "queue_fits (open_events e st) k q \<longleftrightarrow> queue_fits st k q" for k q
    by (simp add: queue_fits_def store_simps)
  then have "events_ok e (open_events e st)"
    using events_okD [OF ok(1)]
    by (intro events_okI) (simp_all add: store_simps, auto simp: open_events_def split: option.splits if_splits)
  then show ?thesis by (auto simp: open_events_def split: option.splits)
qed

lemma number_fn_store: "store_ok st \<Longrightarrow> store_ok (number_fn f st)"
  by (auto simp: store_ok_def store_simps intro: number_fn_ok)

lemma add_event_ok:
  assumes "store_ok st"
  shows "store_ok (add_event P e types fn data sel st)"
proof -
  let ?st = "number_fn (fn_of fn) st"
  have ok: "events_ok e st" using assms store_ok_at [of st e] by simp
  note n = number_fn_store [OF assms, of "fn_of fn"]
  note g = number_fn_guid [OF ok s_next_pos [OF ok], of "fn_of fn"]
  have "pieces types \<noteq> []" by (simp add: pieces_def)
  then show ?thesis
    using add_pieces_ok [of e "open_events e ?st"] open_events_ok [OF n, of e] g assms
    by (simp add: add_event_def Let_def store_simps)
qed

section \<open>Removing keeps the order\<close>

lemma mapped_nonempty: "orig \<noteq> [] \<Longrightarrow> mapped_type sel orig \<noteq> []"
  by (simp add: mapped_type_def Let_def)

lemma queue_ok_filter:
  assumes "queue_ok q" and "filter (\<lambda>h. \<not> m h) (q_list q) \<noteq> []"
  shows "queue_ok (q\<lparr>q_list := filter (\<lambda>h. \<not> m h) (q_list q),
                    q_count := q_count q - int (length (filter (\<lambda>h. m h \<and> h_sel h \<noteq> []) (q_list q)))\<rparr>)"
proof -
  obtain ds rs where r: "ds = delegated (q_list q)" "rs = direct (q_list q)" by blast
  have l: "q_list q = ds @ rs" "q_count q = int (length ds)"
    and s: "\<forall>h\<in>set ds. h_sel h \<noteq> []" "\<forall>h\<in>set rs. h_sel h = []"
    using assms r by (auto simp: queue_ok_def)
  have f: "filter (\<lambda>h. p h \<and> h_sel h \<noteq> []) ds = filter p ds" "filter (\<lambda>h. p h \<and> h_sel h \<noteq> []) rs = []"
    "filter (\<lambda>h. h_sel h \<noteq> [] \<and> p h) ds = filter p ds" "filter (\<lambda>h. h_sel h \<noteq> [] \<and> p h) rs = []"
    "filter (\<lambda>h. p h \<and> h_sel h = []) ds = []" "filter (\<lambda>h. p h \<and> h_sel h = []) rs = filter p rs"
    "filter (\<lambda>h. h_sel h = [] \<and> p h) ds = []" "filter (\<lambda>h. h_sel h = [] \<and> p h) rs = filter p rs" for p
    using s by (auto simp: filter_empty_conv intro: filter_cong)
  have "length ds = length (filter m ds) + length (filter (\<lambda>h. \<not> m h) ds)" by (simp add: sum_length_filter_compl)
  then show ?thesis using assms(2) l by (simp add: queue_ok_def f)
qed

text \<open>What a queue becomes when the handlers of \<open>m\<close> are removed.\<close>

definition without :: "(hobj \<Rightarrow> bool) \<Rightarrow> hqueue \<Rightarrow> hqueue option" where
  "without m q =
     (let left = filter (\<lambda>h. \<not> m h) (q_list q)
      in if left = [] then None
         else Some (q\<lparr>q_list := left, q_count := q_count q - int (length (filter (\<lambda>h. m h \<and> h_sel h \<noteq> []) (q_list q)))\<rparr>))"

lemma queue_ok_without: "queue_ok q \<Longrightarrow> without m q = Some q' \<Longrightarrow> queue_ok q'"
  using queue_ok_filter [of q m] by (auto simp: without_def Let_def split: if_splits)

lemma set_without: "without m q = Some q' \<Longrightarrow> set (q_list q') = {h \<in> set (q_list q). \<not> m h}"
  by (auto simp: without_def Let_def split: if_splits)

lemma queue_at_events: "queue_at e k st = Some q \<Longrightarrow> s_events st e \<noteq> None"
  by (auto simp: queue_at_def split: option.splits)

lemma remove_named_queues:
  assumes "events_ok e0 st"
  shows "queue_at e' k (remove_named e orig ns guid sel mapped st) =
     (if e' = e \<and> k = mapped_type sel orig
      then (case queue_at e k st of None \<Rightarrow> None | Some q \<Rightarrow> without (removable mapped orig guid ns sel) q)
      else queue_at e' k st)"
proof (cases "queue_at e (mapped_type sel orig) st")
  case None
  then show ?thesis by (simp add: remove_named_def Let_def)
next
  case (Some q)
  then have "s_events st e \<noteq> None" by (rule queue_at_events)
  moreover have "q_list q \<noteq> []" using events_okD(2) [OF assms Some] by (simp add: queue_fits_def queue_ok_def)
  ultimately show ?thesis using Some by (auto simp: remove_named_def Let_def without_def store_simps)
qed

lemma listening_tear_down:
  "k \<in> set (s_listen (tear_down e orig t st) e') \<longleftrightarrow>
     k \<in> set (s_listen st e') \<and> (e' = e \<and> k = key_of t \<longrightarrow> own_teardown orig)"
  by (auto simp: tear_down_def unlisten_def own_teardown_def)

lemma mapped_own: "own_teardown orig \<Longrightarrow> mapped_type sel orig = orig"
  by (auto simp: own_teardown_def mapped_type_def bind_type_def delegate_type_def)

lemma remove_named_fields:
  "s_next (remove_named e orig ns guid sel mapped st) = s_next st"
  "s_guid (remove_named e orig ns guid sel mapped st) = s_guid st"
  "s_handle (remove_named e orig ns guid sel mapped st) = s_handle st"
  "e' \<noteq> e \<Longrightarrow> s_events (remove_named e orig ns guid sel mapped st) e' = s_events st e'"
  "e' \<noteq> e \<Longrightarrow> k \<in> set (s_listen (remove_named e orig ns guid sel mapped st) e') \<longleftrightarrow> k \<in> set (s_listen st e')"
  by (auto simp: remove_named_def Let_def store_simps listening_tear_down split: option.splits)

lemma remove_named_distinct:
  assumes "distinct (map fst evs)" and "s_events st e = Some evs"
  shows "\<exists>evs'. s_events (remove_named e orig ns guid sel mapped st) e = Some evs' \<and> distinct (map fst evs')"
  using assms by (auto simp: remove_named_def Let_def store_simps distinct_update distinct_delete split: option.splits)

lemma remove_named_none: "s_events st e = None \<Longrightarrow> remove_named e orig ns guid sel mapped st = st"
  by (simp add: remove_named_def Let_def queue_at_def)

lemma remove_named_listen:
  assumes "events_ok e0 st" and "orig \<noteq> []"
  shows "k \<in> set (s_listen (remove_named e orig ns guid sel mapped st) e) \<longleftrightarrow>
           queue_at e k (remove_named e orig ns guid sel mapped st) \<noteq> None \<and> \<not> own_setup k"
proof (cases "queue_at e (mapped_type sel orig) st")
  case None
  then show ?thesis using events_okD(3) [OF assms(1)] by (simp add: remove_named_def Let_def)
next
  case (Some q)
  have q: "q_list q \<noteq> []" "s_events st e \<noteq> None"
    using events_okD(2) [OF assms(1) Some] queue_at_events [OF Some] by (auto simp: queue_fits_def queue_ok_def)
  have k: "key_of (mapped_type sel orig) = mapped_type sel orig"
    using mapped_nonempty [OF assms(2)] by (simp add: key_of_def)
  have own: "own_teardown orig \<Longrightarrow> own_setup (mapped_type sel orig)"
    by (simp add: mapped_own own_teardown_setup)
  show ?thesis
    using Some q own k events_okD(3) [OF assms(1), of k e]
    by (auto simp: remove_named_def Let_def store_simps listening_tear_down)
qed

lemma remove_named_ok:
  assumes "events_ok e st" and "orig \<noteq> []"
  shows "events_ok e (remove_named e orig ns guid sel mapped st)"
proof (rule events_okI)
  let ?st = "remove_named e orig ns guid sel mapped st"
  show "(evs \<noteq> [] \<or> e' = e) \<and> distinct (map fst evs) \<and> s_handle ?st e'" if "s_events ?st e' = Some evs" for e' evs
  proof (cases "e' = e")
    case True
    show ?thesis
    proof (cases "s_events st e")
      case None
      with that True show ?thesis by (simp add: remove_named_none)
    next
      case (Some evs0)
      with events_okD(1) [OF assms(1) Some] remove_named_distinct [of evs0 st e orig ns guid sel mapped] that True
      show ?thesis by (auto simp: remove_named_fields)
    qed
  next
    case False
    with that events_okD(1) [OF assms(1), of e' evs] show ?thesis by (simp add: remove_named_fields)
  qed
  show "queue_fits ?st k q" if found: "queue_at e' k ?st = Some q" for e' k q
  proof -
    obtain q0 where q0: "queue_at e' k st = Some q0" "q = q0 \<or> without (removable mapped orig guid ns sel) q0 = Some q"
      using found by (auto simp: remove_named_queues [OF assms(1)] split: if_splits option.splits)
    from events_okD(2) [OF assms(1) q0(1)] have f: "queue_fits st k q0" .
    have "set (q_list q) \<subseteq> set (q_list q0)" using q0(2) set_without by (metis (no_types, lifting) mem_Collect_eq subsetI)
    moreover have "queue_ok q" using q0(2) f queue_ok_without by (auto simp: queue_fits_def)
    ultimately show ?thesis using f unfolding queue_fits_def remove_named_fields by blast
  qed
  show "k \<in> set (s_listen ?st e') \<longleftrightarrow> queue_at e' k ?st \<noteq> None \<and> \<not> own_setup k" for e' k
  proof (cases "e' = e")
    case True
    then show ?thesis using remove_named_listen [OF assms] by simp
  next
    case False
    then show ?thesis using events_okD(3) [OF assms(1), of k e'] by (simp add: remove_named_fields remove_named_queues [OF assms(1)])
  qed
  show "s_guid ?st f < s_next ?st" for f using events_okD(4) [OF assms(1)] by (simp add: remove_named_fields)
qed

lemma try_all_keeps:
  assumes "\<And>x s t. I s \<Longrightarrow> f x s = Some t \<Longrightarrow> I t" and "I s" and "try_all f xs s = Some t"
  shows "I t"
  using assms(2,3)
proof (induction xs arbitrary: s)
  case (Cons x xs)
  then show ?case using assms(1) by (auto split: option.splits)
qed simp

lemma close_events_ok:
  assumes ok: "events_ok e st"
  shows "events_ok e (close_events e st) \<and> s_events (close_events e st) e \<noteq> Some []"
proof (cases "s_events st e = Some []")
  case True
  have c: "s_events (close_events e st) = (s_events st)(e := None)" "s_handle (close_events e st) = (s_handle st)(e := False)"
    using True by (simp_all add: close_events_def)
  have "events_ok e (close_events e st)"
  proof (rule events_okI)
    show "(evs \<noteq> [] \<or> e' = e) \<and> distinct (map fst evs) \<and> s_handle (close_events e st) e'"
      if "s_events (close_events e st) e' = Some evs" for e' evs
      using that events_okD(1) [OF ok, of e' evs] by (simp add: c split: if_splits)
    show "queue_fits (close_events e st) k q" if "queue_at e' k (close_events e st) = Some q" for e' k q
      using that queue_fits_next [OF events_okD(2) [OF ok, of e' k q]] by (simp add: store_simps)
  qed (simp_all only: store_simps events_okD [OF ok])
  then show ?thesis by (simp add: c)
next
  case False
  with ok show ?thesis by (simp add: close_events_def)
qed

text \<open>The treatment of one piece, as a function of its own.\<close>

definition remove_piece :: "nat \<Rightarrow> nat \<Rightarrow> nat option \<Rightarrow> string \<Rightarrow> bool \<Rightarrow> string \<Rightarrow> store \<Rightarrow> store option" where
  "remove_piece n e guid sel mapped piece st =
     (case parse_tns piece of (orig, ns) \<Rightarrow>
        if orig = []
        then try_all
               (\<lambda>k st2. if queue_at e k st2 = None then Some st2 else remove_event n e (k @ piece) guid sel True st2)
               (case s_events st e of None \<Rightarrow> [] | Some evs \<Rightarrow> map fst evs) st
        else Some (remove_named e orig ns guid sel mapped st))"

lemma remove_event_Suc:
  "remove_event (Suc n) e types guid sel mapped st =
     (case s_events st e of
        None \<Rightarrow> Some st
      | Some _ \<Rightarrow> map_option (close_events e) (try_all (remove_piece n e guid sel mapped) (pieces types) st))"
  unfolding remove_event.simps remove_piece_def [abs_def] ..

lemma remove_event_events:
  "remove_event n e types guid sel mapped st = Some st' \<Longrightarrow> events_ok e st \<Longrightarrow>
   events_ok e st' \<and> (s_events st e \<noteq> Some [] \<longrightarrow> s_events st' e \<noteq> Some [])"
proof (induction n arbitrary: types mapped st st')
  case (Suc n)
  have piece: "events_ok e s2" if ok: "events_ok e s1" and r: "remove_piece n e guid sel mapped p s1 = Some s2" for p s1 s2
  proof (cases "fst (parse_tns p) = []")
    case True
    with r have a: "try_all (\<lambda>k st2. if queue_at e k st2 = None then Some st2 else remove_event n e (k @ p) guid sel True st2)
                   (case s_events s1 e of None \<Rightarrow> [] | Some evs \<Rightarrow> map fst evs) s1 = Some s2"
      by (simp add: remove_piece_def case_prod_beta)
    show ?thesis
      by (rule try_all_keeps [where I = "events_ok e", OF _ ok a]) (auto dest: Suc.IH split: if_splits)
  next
    case False
    with r ok show ?thesis by (auto simp: remove_piece_def case_prod_beta remove_named_ok)
  qed
  show ?case
  proof (cases "s_events st e")
    case None
    with Suc.prems show ?thesis by simp
  next
    case (Some evs)
    with Suc.prems(1) obtain s where s: "st' = close_events e s"
      and t: "try_all (remove_piece n e guid sel mapped) (pieces types) st = Some s"
      by (auto simp: remove_event_Suc simp del: remove_event.simps)
    have "events_ok e s"
      by (rule try_all_keeps [where I = "events_ok e", OF _ Suc.prems(2) t]) (rule piece)
    then show ?thesis using close_events_ok s by simp
  qed
qed simp

lemma remove_event_ok: "remove_event n e types guid sel mapped st = Some st' \<Longrightarrow> store_ok st \<Longrightarrow> store_ok st'"
  using remove_event_events store_ok_at by metis

lemma jq_on_ok: "store_ok st \<Longrightarrow> store_ok (jq_on P e types sel data fn once st)"
  by (auto simp: jq_on_def add_event_ok number_fn_store split: option.splits)

lemma jq_off_ok: "jq_off e types sel fn st = Some st' \<Longrightarrow> store_ok st \<Longrightarrow> store_ok st'"
  by (auto simp: jq_off_def remove_event_ok split: prod.splits)

section \<open>Running handlers keeps the order\<close>

definition body_keeps :: "body \<Rightarrow> bool" where
  "body_keeps body \<longleftrightarrow> (\<forall>f e ev st. store_ok st \<longrightarrow> store_ok (snd (body f e ev st)))"

lemma until_halted_keeps:
  assumes "\<And>x s. I s \<Longrightarrow> I (step x s)" and "I s"
  shows "I (until_halted halted step xs s)"
  using assms(2) by (induction xs arbitrary: s) (simp_all add: assms(1))

lemma off_event_ok: "off_event ev st = Some st' \<Longrightarrow> store_ok st \<Longrightarrow> store_ok st'"
  by (auto simp: off_event_def remove_event_ok split: option.splits)

lemma call_handler_ok: "body_keeps body \<Longrightarrow> store_ok st \<Longrightarrow> store_ok (snd (call_handler body this ev h st))"
  by (auto simp: call_handler_def body_keeps_def off_event_ok split: handler.splits option.splits)

lemma fire_one_ok: "body_keeps body \<Longrightarrow> store_ok (r_store r) \<Longrightarrow> store_ok (r_store (fire_one P body this h r))"
  using call_handler_ok [of body "r_store r" this]
  by (auto simp: fire_one_def Let_def split: prod.splits) (metis snd_conv)+

lemma fire_matched_ok: "body_keeps body \<Longrightarrow> store_ok (r_store r) \<Longrightarrow> store_ok (r_store (fire_matched P body m r))"
  unfolding fire_matched_def by (rule until_halted_keeps) (simp_all add: fire_one_ok)

lemma dispatch_ok: "body_keeps body \<Longrightarrow> store_ok (r_store r) \<Longrightarrow> store_ok (r_store (dispatch P body e r))"
  unfolding dispatch_def Let_def by (rule until_halted_keeps) (simp_all add: fire_matched_ok)

lemma event_handle_ok: "body_keeps body \<Longrightarrow> store_ok (r_store r) \<Longrightarrow> store_ok (r_store (event_handle P body e r))"
  by (simp add: event_handle_def dispatch_ok)

lemma fire_at_ok: "body_keeps body \<Longrightarrow> store_ok (r_store r) \<Longrightarrow> store_ok (r_store (fire_at P body ontype c r))"
proof -
  assume b: "body_keeps body" and ok: "store_ok (r_store r)"
  define r1 where "r1 = r\<lparr>r_event := (r_event r)\<lparr>e_type := snd c\<rparr>\<rparr>"
  define r2 where "r2 = (if queue_at (fst c) (snd c) (r_store r1) \<noteq> None \<and> s_handle (r_store r1) (fst c)
                then event_handle P body (fst c) r1 else r1)"
  have "store_ok (r_store r2)" using b ok by (simp add: r1_def r2_def event_handle_ok)
  moreover have "store_ok (snd (body f e ev (r_store r2)))" for f e ev
    using b calculation by (simp add: body_keeps_def)
  moreover have "fire_at P body ontype c r = (case (if ontype = [] then None else inline P (fst c) ontype) of
      None \<Rightarrow> r2
    | Some f \<Rightarrow>
        if no_data P (fst c) then r2
        else (case body f (fst c) (r_event r2) (r_store r2) of (out, st) \<Rightarrow>
                (let ev = handler_acts out (r_event r2)
                 in r2\<lparr>r_store := st, r_event := if o_ret out = RFalse then prevent_default ev else ev\<rparr>)))"
    by (simp only: fire_at_def Let_def r1_def r2_def)
  ultimately show ?thesis by (simp add: Let_def case_prod_beta split: option.split)
qed

lemma store_ok_triggered: "store_ok (st\<lparr>s_triggered := t\<rparr>) \<longleftrightarrow> store_ok st"
  by (simp add: store_ok_def events_ok_def queue_at_def queue_fits_def)

lemma trigger_keeps_ok:
  assumes "body_keeps body" and "\<And>st. store_ok st \<Longrightarrow> store_ok (native st)" and "store_ok st"
  shows "store_ok (r_store (fst (trigger P body native name e only st)))"
proof -
  have "store_ok (r_store (until_halted (\<lambda>r. e_stopped (r_event r)) (fire_at P body ontype) cs r))"
    if "store_ok (r_store r)" for ontype cs r
    by (rule until_halted_keeps) (use that assms in \<open>simp_all add: fire_at_ok\<close>)
  with assms show ?thesis
    by (simp add: trigger_def Let_def default_action_def store_ok_triggered split: prod.splits)
qed

section \<open>Every reachable store is in order\<close>

text \<open>
  Handlers, and the native methods of the document, change the handlers by calls of \<open>on\<close> and \<open>off\<close>; events they trigger in turn
  change them in the same way.
\<close>

inductive bind_step :: "page \<Rightarrow> store \<Rightarrow> store \<Rightarrow> bool" for P where
  bound: "bind_step P st (jq_on P e types sel data fn once st)"
| removed: "jq_off e types sel fn st = Some st' \<Longrightarrow> bind_step P st st'"

definition binds_only :: "page \<Rightarrow> body \<Rightarrow> (store \<Rightarrow> store) \<Rightarrow> bool" where
  "binds_only P body native \<longleftrightarrow>
     (\<forall>f e ev st. (bind_step P)\<^sup>*\<^sup>* st (snd (body f e ev st))) \<and> (\<forall>st. (bind_step P)\<^sup>*\<^sup>* st (native st))"

inductive event_step :: "page \<Rightarrow> body \<Rightarrow> (store \<Rightarrow> store) \<Rightarrow> store \<Rightarrow> store \<Rightarrow> bool" for P body native where
  binds: "bind_step P st st' \<Longrightarrow> event_step P body native st st'"
| triggered: "event_step P body native st (r_store (fst (trigger P body native name e only st)))"
| raised: "event_step P body native st (r_store (event_handle P body e \<lparr>r_event = ev, r_store = st, r_calls = []\<rparr>))"

inductive_simps bind_step_iff: "bind_step P st st'"

lemma bind_steps_ok: "(bind_step P)\<^sup>*\<^sup>* st st' \<Longrightarrow> store_ok st \<Longrightarrow> store_ok st'"
  by (induction rule: rtranclp_induct) (auto simp: bind_step_iff jq_on_ok jq_off_ok)

lemma binds_only_keeps:
  assumes "binds_only P body native"
  shows "body_keeps body" and "store_ok st \<Longrightarrow> store_ok (native st)"
  using assms bind_steps_ok unfolding binds_only_def body_keeps_def by blast+

lemma event_step_ok:
  assumes "event_step P body native st st'" and "binds_only P body native" and "store_ok st"
  shows "store_ok st'"
  using assms(1)
proof cases
  case binds
  then show ?thesis using bind_steps_ok assms(3) by blast
next
  case triggered
  then show ?thesis using trigger_keeps_ok binds_only_keeps [OF assms(2)] assms(3) by blast
next
  case raised
  then show ?thesis using event_handle_ok binds_only_keeps(1) [OF assms(2)] assms(3) by fastforce
qed

lemma start_store_ok: "store_ok start_store"
  by (simp add: store_ok_def events_ok_def start_store_def queue_at_def)

lemma reachable_store_ok:
  "(event_step P body native)\<^sup>*\<^sup>* start_store st \<Longrightarrow> binds_only P body native \<Longrightarrow> store_ok st"
  by (induction rule: rtranclp_induct) (auto simp: start_store_ok event_step_ok)

text \<open>C37: Whatever is bound, removed, triggered and raised, by scripts and by handlers while they run:
  in the list of every type the delegated handlers come first and \<open>delegateCount\<close> is their number; no list is empty; every handler
  is in the list of the type it is bound to; and the browser has been asked for exactly the types
  that have handlers, but for those with a setup of their own.
\<close>

theorem delegates_in_front:
  assumes "(event_step P body native)\<^sup>*\<^sup>* start_store st" and "binds_only P body native"
  shows "(\<forall>q. queue_at e k st = Some q \<longrightarrow>
            q_list q \<noteq> [] \<and> q_list q = delegated (q_list q) @ direct (q_list q) \<and>
            q_count q = int (length (delegated (q_list q))) \<and> (\<forall>h\<in>set (q_list q). key_of (h_type h) = k)) \<and>
         (k \<in> set (s_listen st e) \<longleftrightarrow> queue_at e k st \<noteq> None \<and> \<not> own_setup k)"
proof -
  have ok: "events_ok e st" using reachable_store_ok [OF assms] store_ok_at by blast
  show ?thesis
    using events_okD(2) [OF ok, of e k] events_okD(3) [OF ok, of k e]
    unfolding queue_fits_def queue_ok_def by blast
qed

lemma list_store_reachable: "(event_step list_page list_body (\<lambda>st. st))\<^sup>*\<^sup>* start_store list_store"
proof -
  have "(event_step list_page list_body (\<lambda>st. st))\<^sup>*\<^sup>* st
          (fold (\<lambda>(s, f). jq_on list_page 1 ''click'' s Missing (Fn f) False) xs st)" for xs st
  proof (induction xs arbitrary: st)
    case (Cons x xs)
    have "event_step list_page list_body (\<lambda>st. st) st (jq_on list_page 1 ''click'' (fst x) Missing (Fn (snd x)) False st)"
      by (rule binds) (rule bound)
    with Cons show ?case by (auto simp: case_prod_beta intro: converse_rtranclp_into_rtranclp)
  qed simp
  then show ?thesis unfolding list_store_def .
qed

lemma delegates_in_front_witness:
  "q_count list_queue = 2 \<and> ''click'' \<in> set (s_listen list_store 1)"
proof -
  have "binds_only list_page list_body (\<lambda>st. st)" by (simp add: binds_only_def list_body_def)
  from delegates_in_front [OF list_store_reachable this, of 1 "''click''"] list_queue_found(1)
  have "q_count list_queue = int (length (delegated (q_list list_queue)))" "''click'' \<in> set (s_listen list_store 1)"
    by (simp_all add: own_setup_def)
  moreover have "length (delegated (q_list list_queue)) = 2" by code_simp
  ultimately show ?thesis by simp
qed

section \<open>Unbinding undoes binding\<close>

definition bound_at :: "nat \<Rightarrow> string \<Rightarrow> store \<Rightarrow> hobj list" where
  "bound_at e k st = (case queue_at e k st of None \<Rightarrow> [] | Some q \<Rightarrow> q_list q)"

abbreviation others :: "nat \<Rightarrow> hobj list \<Rightarrow> hobj list" where
  "others g \<equiv> filter (\<lambda>h. h_guid h \<noteq> g)"

lemma queue_of_bound:
  assumes "events_ok e0 st"
  shows "queue_at e k st =
    (if bound_at e k st = [] then None
     else Some \<lparr>q_list = bound_at e k st, q_count = int (length (delegated (bound_at e k st)))\<rparr>)"
  using events_okD(2) [OF assms, of e k]
  by (auto simp: bound_at_def queue_fits_def queue_ok_def split: option.splits)

lemma same_bound_same_queue:
  assumes "store_ok st" and "store_ok st'" and "bound_at e k st = bound_at e k st'"
  shows "queue_at e k st = queue_at e k st'"
  using assms queue_of_bound store_ok_at by metis

lemma others_splice: "h_guid h = g \<Longrightarrow> others g (splice_in n h xs) = others g xs"
proof -
  assume "h_guid h = g"
  then have "others g (take k xs @ h # drop k xs) = others g (take k xs @ drop k xs)" for k by (simp only: filter_append) simp
  then show ?thesis unfolding splice_in_def Let_def by (simp only: append_take_drop_id)
qed

lemma others_insert: "h_guid h = g \<Longrightarrow> others g (q_list (insert_handler sel h q)) = others g (q_list q)"
  by (simp add: insert_handler_def others_splice)

lemma add_piece_bound:
  assumes "s_events st e \<noteq> None"
  shows "others g (bound_at e' k (add_piece P e data fn g sel None p st)) = others g (bound_at e' k st)"
    and "set (bound_at e' k (add_piece P e data fn g sel None p st))
           = set (bound_at e' k st) \<union> (if e' = e \<and> k = piece_key sel p then {piece_obj data fn g sel p} else {})"
  using assms
  by (auto simp: bound_at_def add_piece_queues old_queue_def others_insert set_insert split: option.splits)

lemma add_piece_other:
  assumes "s_events st e \<noteq> None" and "e' \<noteq> e"
  shows "bound_at e' k (add_piece P e data fn g sel None p st) = bound_at e' k st"
  using assms by (simp add: bound_at_def add_piece_queues)

lemma add_piece_open: "s_events st e \<noteq> None \<Longrightarrow> s_events (add_piece P e data fn g sel None p st) e \<noteq> None"
  using add_piece_fields(5) [of P e data fn g sel p st e] by auto

lemma add_pieces_bound:
  assumes "s_events st e \<noteq> None"
  shows "others g (bound_at e' k (fold (add_piece P e data fn g sel None) ps st)) = others g (bound_at e' k st) \<and>
         set (bound_at e k (fold (add_piece P e data fn g sel None) ps st))
           = set (bound_at e k st) \<union> {piece_obj data fn g sel p |p. p \<in> set ps \<and> k = piece_key sel p} \<and>
         (e' \<noteq> e \<longrightarrow> bound_at e' k (fold (add_piece P e data fn g sel None) ps st) = bound_at e' k st)"
  using assms
proof (induction ps arbitrary: st)
  case (Cons p ps)
  note a = Cons.IH [OF add_piece_open [OF Cons.prems, of P data fn g sel p]]
  show ?case using a add_piece_bound [OF Cons.prems] add_piece_other [OF Cons.prems, of e'] by auto
qed simp

lemma bound_at_simps [store_simps]:
  "bound_at e' k' (number_fn f st) = bound_at e' k' st"
  "bound_at e' k' (open_events e st) = bound_at e' k' st"
  "bound_at e' k' (close_events e st) = bound_at e' k' st"
  by (simp_all add: bound_at_def store_simps)

lemma guid_number_fn: "s_guid st f \<noteq> 0 \<Longrightarrow> number_fn f st = st"
  by (simp add: number_fn_def)

text \<open>What \<open>on\<close> has bound: \<open>g\<close> is the number of the function afterwards.\<close>

lemma jq_on_bound:
  fixes P e types sel data f once
  assumes "store_ok st"
  defines "st1 \<equiv> jq_on P e types (Text sel) data (Fn f) once st"
  defines "g \<equiv> s_guid st1 f"
  shows "others g (bound_at e' k st1) = others g (bound_at e' k st) \<and>
    (\<forall>h\<in>set (bound_at e k st1). h \<in> set (bound_at e k st) \<or>
       (\<exists>d fn p. h = piece_obj d fn g sel p \<and> p \<in> set (pieces types) \<and> k = piece_key sel p)) \<and>
    (e' \<noteq> e \<longrightarrow> bound_at e' k st1 = bound_at e' k st) \<and>
    (g = s_guid st f \<or> g = s_next st)"
proof -
  define fn where "fn = (if once then Once f else Plain f)"
  define d where "d = (if data = Missing then None else arg_data data)"
  have fn: "fn_of fn = f" by (simp add: fn_def)
  have d: "d = arg_data data" by (cases data) (simp_all add: d_def)
  have on: "st1 = add_event P e types fn d sel (if once then number_fn f st else st)"
    by (simp add: st1_def jq_on_def on_args_def fn_def d)
  have twice: "number_fn f (number_fn f st) = number_fn f st"
    using s_next_pos [of e st] assms(1) store_ok_at [of st e] by (auto simp: number_fn_def)
  show ?thesis
  proof (cases "char_data P e \<or> no_data P e \<or> types = []")
    case True
    then have s: "st1 = (if once then number_fn f st else st)" by (simp add: on add_event_def)
    then have b: "bound_at e' k st1 = bound_at e' k st" for e' k by (simp add: store_simps)
    moreover have "g = s_guid st f \<or> g = s_next st"
      using s by (auto simp: g_def number_fn_def split: if_splits)
    ultimately show ?thesis by simp
  next
    case False
    let ?st = "number_fn f st"
    have st1: "st1 = fold (add_piece P e d fn (s_guid ?st f) sel None) (pieces types) (open_events e ?st)"
      using False by (simp add: on add_event_def fn twice Let_def)
    have "s_guid (fold (add_piece P e d fn x sel None) ps s) = s_guid s" for x ps s
      by (induction ps arbitrary: s) (simp_all add: add_piece_fields)
    then have g: "g = s_guid ?st f" by (simp add: g_def st1 store_simps)
    have o: "s_events (open_events e ?st) e \<noteq> None" by (auto simp: open_events_def split: option.splits)
    have "g = s_guid st f \<or> g = s_next st" by (auto simp: g number_fn_def)
    then show ?thesis
      using add_pieces_bound [OF o, of g e' k P d fn sel "pieces types"]
      unfolding st1 g [symmetric] store_simps by blast
  qed
qed

lemma removable_guid: "removable mapped orig (Some g) ns sel h \<Longrightarrow> h_guid h = g"
  by (simp add: removable_def)

lemma others_without: "others g (filter (\<lambda>h. \<not> removable mapped orig (Some g) ns sel h) hs) = others g hs"
  by (auto simp: removable_def intro!: filter_cong)

lemma remove_named_bound:
  assumes "events_ok e0 st"
  shows "bound_at e' k (remove_named e orig ns guid sel mapped st) =
     (if e' = e \<and> k = mapped_type sel orig then filter (\<lambda>h. \<not> removable mapped orig guid ns sel h) (bound_at e k st)
      else bound_at e' k st)"
  by (auto simp: bound_at_def remove_named_queues [OF assms] without_def Let_def split: option.splits)

text \<open>A piece removes what it has bound: its namespaces are among themselves.\<close>

lemma parse_tns_newline: "parse_tns p = (orig, ns) \<Longrightarrow> \<not> list_ex newline ns"
  by (auto simp: parse_tns_def Let_def split: list.splits if_splits)

lemma removable_own:
  assumes "parse_tns p = (orig, ns)"
  shows "removable False orig (Some g) ns sel (piece_obj d fn g sel p)"
proof -
  note c = sort_names_clean [OF parse_tns_newline [OF assms]]
  then have "ns_test (sort_names ns) (join_by (CHR ''.'') (sort_names ns))" using ns_test_join by blast
  with assms show ?thesis by (simp add: removable_def piece_obj_def)
qed

lemma remove_typed:
  assumes "\<And>p. p \<in> set ps \<Longrightarrow> fst (parse_tns p) \<noteq> []"
  shows "try_all (remove_piece n e guid sel False) ps st
           = Some (fold (\<lambda>p. remove_named e (fst (parse_tns p)) (snd (parse_tns p)) guid sel False) ps st)"
  using assms by (induction ps arbitrary: st) (simp_all add: remove_piece_def case_prod_beta)

lemma remove_pieces_bound:
  assumes "events_ok e st" and "\<And>p. p \<in> set ps \<Longrightarrow> fst (parse_tns p) \<noteq> []"
    and "\<And>k h. h \<in> set (bound_at e k st) \<Longrightarrow> h_guid h = g \<Longrightarrow>
           \<exists>d fn p. h = piece_obj d fn g sel p \<and> p \<in> set ps \<and> k = piece_key sel p"
  defines "st' \<equiv> fold (\<lambda>p. remove_named e (fst (parse_tns p)) (snd (parse_tns p)) (Some g) sel False) ps st"
  shows "bound_at e k st' = others g (bound_at e k st) \<and> (e' \<noteq> e \<longrightarrow> bound_at e' k st' = bound_at e' k st)"
  using assms(1-3) unfolding st'_def
proof (induction ps arbitrary: st)
  case Nil
  then have "\<forall>h\<in>set (bound_at e k st). h_guid h \<noteq> g" by auto
  then have "others g (bound_at e k st) = bound_at e k st" by (simp add: filter_id_conv)
  then show ?case by simp
next
  case (Cons p ps)
  let ?s = "remove_named e (fst (parse_tns p)) (snd (parse_tns p)) (Some g) sel False st"
  note b = remove_named_bound [OF Cons.prems(1), of _ _ e "fst (parse_tns p)" "snd (parse_tns p)" "Some g" sel False]
  have typed: "fst (parse_tns p) \<noteq> []" using Cons.prems(2) by simp
  have key: "piece_key sel p = mapped_type sel (fst (parse_tns p))"
    using mapped_nonempty [OF typed] by (simp add: piece_key_def key_of_def)
  have ok: "events_ok e ?s" by (rule remove_named_ok [OF Cons.prems(1) typed])
  have left: "\<exists>d fn p'. h = piece_obj d fn g sel p' \<and> p' \<in> set ps \<and> k = piece_key sel p'"
    if h: "h \<in> set (bound_at e k ?s)" "h_guid h = g" for k h
  proof -
    have "h \<in> set (bound_at e k st)" using h(1) b by (auto split: if_splits)
    from Cons.prems(3) [OF this h(2)] obtain d fn p' where p': "h = piece_obj d fn g sel p'" "p' \<in> set (p # ps)" "k = piece_key sel p'" by blast
    have "p' \<noteq> p"
    proof
      assume "p' = p"
      with p' have "removable False (fst (parse_tns p)) (Some g) (snd (parse_tns p)) sel h"
        using removable_own [of p "fst (parse_tns p)" "snd (parse_tns p)"] by simp
      with h(1) b p'(3) \<open>p' = p\<close> key show False by simp
    qed
    with p' show ?thesis by auto
  qed
  have "others g (bound_at e k ?s) = others g (bound_at e k st)" and "e' \<noteq> e \<Longrightarrow> bound_at e' k ?s = bound_at e' k st"
    using b others_without by auto
  with Cons.IH [OF ok _ left] Cons.prems(2) show ?case by simp
qed

text \<open>C38: \<open>off\<close> undoes \<open>on\<close>, and \<open>one\<close>: for any list of types with namespaces, in any order, of which each has a type, and with
  the same selector and function, a function not bound at the element before; every list of handlers of
  every element is then as it was, and the browser is asked for the same types.
\<close>

theorem off_undoes_on:
  assumes "store_ok st"
    and typed: "\<And>p. p \<in> set (pieces types) \<Longrightarrow> fst (parse_tns p) \<noteq> []"
    and unbound: "\<And>k q h. queue_at e k st = Some q \<Longrightarrow> h \<in> set (q_list q) \<Longrightarrow> h_guid h \<noteq> s_guid st f"
  shows "\<exists>st'. jq_off e types (Text sel) (Fn f) (jq_on P e types (Text sel) data (Fn f) once st) = Some st' \<and>
           (\<forall>k. queue_at e' k st' = queue_at e' k st) \<and> set (s_listen st' e') = set (s_listen st e')"
proof -
  define st1 where "st1 = jq_on P e types (Text sel) data (Fn f) once st"
  define g where "g = s_guid st1 f"
  have ok1: "store_ok st1" unfolding st1_def by (rule jq_on_ok [OF assms(1)])
  have ok: "events_ok e st" "events_ok e st1" using assms(1) ok1 store_ok_at by blast+
  note on = jq_on_bound [OF assms(1), of P e types sel data f once, folded st1_def, folded g_def]
  have free: "h_guid h \<noteq> g" if here: "h \<in> set (bound_at e k st)" for h k
  proof -
    obtain q where q: "queue_at e k st = Some q" "h \<in> set (q_list q)"
      using here by (cases "queue_at e k st") (auto simp: bound_at_def)
    with events_okD(2) [OF ok(1) q(1)] unbound [OF q] on show ?thesis by (auto simp: queue_fits_def)
  qed
  then have all: "others g (bound_at e k st) = bound_at e k st" for k by (simp add: filter_id_conv)
  define s where "s = fold (\<lambda>p. remove_named e (fst (parse_tns p)) (snd (parse_tns p)) (Some g) sel False) (pieces types) st1"
  define st' where "st' = (if s_events st1 e = None then st1 else close_events e s)"
  have off: "jq_off e types (Text sel) (Fn f) st1 = Some st'"
    using typed by (auto simp: jq_off_def off_args_def numeral_2_eq_2 remove_event_Suc remove_typed g_def [symmetric] st'_def s_def
        simp del: remove_event.simps split: option.splits)
  have "\<exists>d fn p. h = piece_obj d fn g sel p \<and> p \<in> set (pieces types) \<and> k = piece_key sel p"
    if "h \<in> set (bound_at e k st1)" "h_guid h = g" for h k
    using that on free by blast
  note r = remove_pieces_bound [OF ok(2) typed this, folded s_def]
  have bound: "bound_at e' k st' = bound_at e' k st" for e' k
  proof (cases "e' = e")
    case True
    have "bound_at e k st' = others g (bound_at e k st1)"
    proof (cases "s_events st1 e")
      case None
      then have "bound_at e k st1 = []" by (simp add: bound_at_def queue_at_def)
      with None show ?thesis by (simp add: st'_def)
    next
      case (Some evs)
      then show ?thesis using r [of k] by (simp add: st'_def store_simps)
    qed
    then show ?thesis using True on all by simp
  next
    case False
    then show ?thesis using r [of k e'] on by (simp add: st'_def store_simps)
  qed
  have ok': "store_ok st'" by (rule jq_off_ok [OF off ok1])
  have q: "queue_at e' k st' = queue_at e' k st" for e' k
    by (rule same_bound_same_queue [OF ok' assms(1) bound])
  have "events_ok e st'" using ok' store_ok_at by blast
  then have "k \<in> set (s_listen st' e') \<longleftrightarrow> k \<in> set (s_listen st e')" for k
    using events_okD(3) [OF ok(1), of k e'] events_okD(3) [of e st' k e'] by (simp add: q)
  then have "set (s_listen st' e') = set (s_listen st e')" by blast
  with off q show ?thesis unfolding st1_def by blast
qed

lemma off_undoes_on_witness:
  "\<exists>st'. jq_off 1 ''click.ui hover'' (Text ''li'') (Fn 9)
           (jq_on list_page 1 ''click.ui hover'' (Text ''li'') Missing (Fn 9) True list_store) = Some st' \<and>
         queue_at 1 ''click'' st' = Some list_queue \<and> set (s_listen st' 1) = {''click''}"
proof -
  have ok: "store_ok list_store"
    by (rule reachable_store_ok [OF list_store_reachable]) (simp add: binds_only_def list_body_def)
  have g: "s_guid list_store 9 = 0" by code_simp
  have p: "pieces ''click.ui hover'' = [''click.ui'', ''mouseenter'', ''mouseleave'']" by code_simp
  have l: "s_listen list_store 1 = [''click'']" by code_simp
  have n: "h_guid h \<noteq> s_guid list_store 9" if q: "queue_at 1 k list_store = Some q" and h: "h \<in> set (q_list q)" for k q h
    using events_okD(2) [OF _ q, of 1] ok store_ok_at [of list_store 1] h g by (auto simp: queue_fits_def)
  have t: "fst (parse_tns p) \<noteq> []" if "p \<in> set (pieces ''click.ui hover'')" for p
    using that unfolding p by (auto simp: parse_tns_def newline_def)
  show ?thesis
    using off_undoes_on [OF ok, of "''click.ui hover''" 1 9 "''li''" list_page Missing True 1] t n list_queue_found(1) l
    by auto
qed

section \<open>When removing returns\<close>

definition type_name :: "string \<Rightarrow> bool" where
  "type_name k \<longleftrightarrow> k \<noteq> [] \<and> list_all is_word k \<and> \<not> sublist ''hover'' k"

definition names_at :: "nat \<Rightarrow> store \<Rightarrow> bool" where
  "names_at e st \<longleftrightarrow> (case s_events st e of None \<Rightarrow> True | Some evs \<Rightarrow> list_all (\<lambda>x. type_name (fst x)) evs)"

text \<open>A piece that \<open>off\<close> can take: with a type, or nothing, or namespaces alone.\<close>

definition proper_piece :: "string \<Rightarrow> bool" where
  "proper_piece p \<longleftrightarrow>
     fst (parse_tns p) \<noteq> [] \<or> p = [] \<or>
     (hd p = CHR ''.'' \<and> tl p \<noteq> [] \<and> list_all (\<lambda>c. \<not> is_blank c) (tl p) \<and> \<not> sublist ''hover'' (tl p))"

lemma hover_from_free: "\<not> sublist ''hover'' s \<Longrightarrow> hover_from p s = s"
proof (induction s arbitrary: p)
  case (Cons c cs)
  have "hover_here p (c # cs) = None"
  proof (cases "strip_prefix ''hover'' (c # cs)")
    case (Some r)
    then have "c # cs = ''hover'' @ r" by (simp only: strip_prefix_Some)
    then have "prefix ''hover'' (c # cs)" by (rule prefixI)
    then have "sublist ''hover'' (c # cs)" by (rule prefix_imp_sublist)
    with Cons.prems show ?thesis by simp
  qed (simp only: hover_here_def option.case if_cancel)
  moreover have "\<not> sublist ''hover'' cs" using Cons.prems by (auto simp: sublist_Cons_right)
  ultimately show ?case using Cons.IH by simp
qed simp

lemma is_word_facts: "is_word c \<Longrightarrow> \<not> is_blank c \<and> c \<noteq> CHR ''.'' \<and> \<not> newline c \<and> c \<noteq> CHR '' ''"
  by (auto simp: is_word_def is_blank_def newline_def Let_def)

lemma trim_free: "list_all (\<lambda>c. \<not> is_blank c) s \<Longrightarrow> trim_blanks s = s"
proof -
  have d: "dropWhile is_blank s = s" if "list_all (\<lambda>c. \<not> is_blank c) s" for s using that by (cases s) auto
  assume "list_all (\<lambda>c. \<not> is_blank c) s"
  then show ?thesis using d [of s] d [of "rev s"] by (simp add: trim_blanks_def list_all_rev)
qed

lemma pieces_single:
  assumes "list_all (\<lambda>c. \<not> is_blank c) s" and "hover_hack s = s"
  shows "pieces s = [s]"
proof -
  have "CHR '' '' \<notin> set s" using assms(1) by (auto simp: list_all_iff is_blank_def)
  with assms show ?thesis by (simp add: pieces_def trim_free split_by_plain)
qed

lemma type_name_no_dot: "type_name k \<Longrightarrow> CHR ''.'' \<notin> set k"
  by (auto simp: type_name_def list_all_iff dest: is_word_facts)

lemma dropWhile_dot:
  assumes "CHR ''.'' \<notin> set k"
  shows "dropWhile (\<lambda>c. c \<noteq> CHR ''.'') (k @ CHR ''.'' # r) = CHR ''.'' # r"
    and "dropWhile (\<lambda>c. c \<noteq> CHR ''.'') k = []"
  using assms by (induction k) auto

lemma parse_at_dot: "CHR ''.'' \<notin> set k \<Longrightarrow> ns \<noteq> [] \<Longrightarrow> \<not> list_ex newline ns \<Longrightarrow> parse_tns (k @ CHR ''.'' # ns) = (k, ns)"
  by (simp add: parse_tns_def takeWhile_dot dropWhile_dot)

lemma parse_no_dot: "CHR ''.'' \<notin> set k \<Longrightarrow> parse_tns k = (k, [])"
  by (simp add: parse_tns_def takeWhile_dot dropWhile_dot)

lemma hover_across: "\<not> sublist ''hover'' k \<Longrightarrow> \<not> sublist ''hover'' ns \<Longrightarrow> \<not> sublist ''hover'' (k @ CHR ''.'' # ns)"
proof
  assume n: "\<not> sublist ''hover'' k" "\<not> sublist ''hover'' ns" and s: "sublist ''hover'' (k @ CHR ''.'' # ns)"
  have "\<not> sublist ''hover'' (CHR ''.'' # ns)" using n(2) by (auto simp: sublist_Cons_right)
  with n(1) s obtain xs ys where x: "''hover'' = xs @ ys" "suffix xs k" "prefix ys (CHR ''.'' # ns)"
    by (auto simp: sublist_append)
  have "ys = []"
  proof (rule ccontr)
    assume "ys \<noteq> []"
    with x(3) have "CHR ''.'' \<in> set ys" by (cases ys) auto
    then have "CHR ''.'' \<in> set ''hover''" unfolding x(1) by simp
    then show False by simp
  qed
  with x n(1) show False by (metis append_Nil2 suffix_imp_sublist)
qed

lemma nested_pieces:
  assumes "type_name k" and "proper_piece p" and "fst (parse_tns p) = []"
  shows "pieces (k @ p) = [k @ p] \<and> fst (parse_tns (k @ p)) \<noteq> []"
proof -
  have k: "list_all (\<lambda>c. \<not> is_blank c) k" "\<not> sublist ''hover'' k" "k \<noteq> []"
    using assms(1) by (auto simp: type_name_def list_all_iff dest: is_word_facts)
  note d = type_name_no_dot [OF assms(1)]
  show ?thesis
  proof (cases "p = []")
    case True
    with k d show ?thesis by (simp add: pieces_single hover_hack_def hover_from_free parse_no_dot)
  next
    case False
    with assms(2,3) obtain ns where p: "p = CHR ''.'' # ns" "ns \<noteq> []" "list_all (\<lambda>c. \<not> is_blank c) ns" "\<not> sublist ''hover'' ns"
      by (cases p) (auto simp: proper_piece_def)
    have "\<not> list_ex newline ns" using p(3) by (auto simp: list_all_iff list_ex_iff newline_def is_blank_def)
    moreover have "list_all (\<lambda>c. \<not> is_blank c) (k @ p)" using k(1) p by (simp add: is_blank_def)
    moreover have "hover_hack (k @ p) = k @ p"
      using hover_across [OF k(2) p(4)] p(1) by (simp add: hover_hack_def hover_from_free)
    ultimately show ?thesis using p k(3) d by (simp add: pieces_single parse_at_dot)
  qed
qed

lemma set_update_keys: "fst ` set (AList.update k v xs) = insert k (fst ` set xs)"
  by (induction xs) auto

lemma remove_named_names: "names_at e st \<Longrightarrow> names_at e (remove_named e orig ns guid sel mapped st)"
proof (cases "queue_at e (mapped_type sel orig) st")
  case (Some q)
  assume n: "names_at e st"
  obtain evs where evs: "s_events st e = Some evs" using queue_at_events [OF Some] by auto
  have m: "mapped_type sel orig \<in> fst ` set evs" using map_of_SomeD [of evs "mapped_type sel orig" q] Some evs by (force simp: queue_at_def)
  have n': "\<forall>k\<in>fst ` set evs. type_name k" using n evs by (auto simp: names_at_def list_all_iff)
  then have "\<forall>k\<in>fst ` set (AList.update (mapped_type sel orig) v evs). type_name k"
    and "\<forall>k\<in>fst ` set (AList.delete (mapped_type sel orig) evs). type_name k" for v
    using m set_update_keys [of "mapped_type sel orig" v evs] delete_keys [of "mapped_type sel orig" evs]
    by (auto simp flip: set_map)
  then show ?thesis using Some evs
    by (auto simp: names_at_def list_all_iff remove_named_def Let_def store_simps)
qed (simp add: remove_named_def Let_def)

lemma close_events_names: "names_at e st \<Longrightarrow> names_at e (close_events e st)"
  by (simp add: names_at_def close_events_def)

lemma try_all_returns:
  assumes "\<And>x s. x \<in> set xs \<Longrightarrow> I s \<Longrightarrow> \<exists>t. f x s = Some t \<and> I t" and "I s"
  shows "\<exists>t. try_all f xs s = Some t \<and> I t"
  using assms
proof (induction xs arbitrary: s)
  case (Cons x xs)
  obtain t where "f x s = Some t" "I t" using Cons.prems by force
  with Cons.IH [OF Cons.prems(1)] show ?case by force
qed simp

lemma remove_typed_returns:
  assumes "\<And>p. p \<in> set (pieces types) \<Longrightarrow> fst (parse_tns p) \<noteq> []" and "names_at e st"
  shows "\<exists>st'. remove_event (Suc n) e types guid sel mapped st = Some st' \<and> names_at e st'"
proof -
  have "\<exists>t. try_all (remove_piece n e guid sel mapped) (pieces types) st = Some t \<and> names_at e t"
    by (rule try_all_returns [where I = "names_at e", OF _ assms(2)])
       (use assms(1) in \<open>auto simp: remove_piece_def case_prod_beta remove_named_names\<close>)
  then show ?thesis
    using assms(2) close_events_names by (auto simp: remove_event_Suc simp del: remove_event.simps split: option.splits)
qed

text \<open>C39: \<open>off\<close> returns, without recursing deeper than one level, for every list of types whose pieces are proper: each
  has a type, or is empty, or has namespaces alone; the types bound at the element have plain names.
\<close>

theorem off_returns:
  assumes "names_at e st" and "list_all proper_piece (pieces types)"
  shows "\<exists>st'. jq_off e types sel fn st = Some st' \<and> names_at e st'"
proof -
  obtain s g where a: "off_args sel fn = (s, g)" by (cases "off_args sel fn")
  define guid where "guid = map_option (s_guid st) g"
  have piece: "\<exists>t. remove_piece (Suc 0) e guid s False p st1 = Some t \<and> names_at e t"
    if "p \<in> set (pieces types)" "names_at e st1" for p st1
  proof (cases "fst (parse_tns p) = []")
    case False
    with that(2) show ?thesis by (simp add: remove_piece_def case_prod_beta remove_named_names)
  next
    case True
    have proper: "proper_piece p" using assms(2) that(1) by (simp add: list_all_iff)
    have "\<exists>t. try_all (\<lambda>k st2. if queue_at e k st2 = None then Some st2 else remove_event (Suc 0) e (k @ p) guid s True st2)
                (case s_events st1 e of None \<Rightarrow> [] | Some evs \<Rightarrow> map fst evs) st1 = Some t \<and> names_at e t"
    proof (rule try_all_returns [where I = "names_at e", OF _ that(2)])
      fix k st2
      assume k: "k \<in> set (case s_events st1 e of None \<Rightarrow> [] | Some evs \<Rightarrow> map fst evs)" and n: "names_at e st2"
      have "type_name k" using k that(2) by (auto simp: names_at_def list_all_iff split: option.splits)
      from nested_pieces [OF this proper True]
      show "\<exists>t. (if queue_at e k st2 = None then Some st2 else remove_event (Suc 0) e (k @ p) guid s True st2) = Some t \<and> names_at e t"
        using remove_typed_returns [of "k @ p" e st2 0 guid s True] n by simp
    qed
    with True show ?thesis by (simp add: remove_piece_def case_prod_beta)
  qed
  have "\<exists>t. try_all (remove_piece (Suc 0) e guid s False) (pieces types) st = Some t \<and> names_at e t"
    by (rule try_all_returns [where I = "names_at e", OF piece assms(1)])
  then show ?thesis
    using assms(1) close_events_names
    by (auto simp: jq_off_def a guid_def numeral_2_eq_2 remove_event_Suc simp del: remove_event.simps split: option.splits)
qed

lemma off_returns_witness:
  "\<exists>st'. jq_off 1 ''click.ui .tabs'' Missing Missing list_store = Some st' \<and> names_at 1 st'"
  by (rule off_returns) code_simp+

section \<open>Where it goes wrong\<close>

lemma hover_hack_no_v: "CHR ''v'' \<notin> set s \<Longrightarrow> hover_hack s = s"
proof -
  assume v: "CHR ''v'' \<notin> set s"
  have "\<not> sublist ''hover'' s"
  proof
    assume "sublist ''hover'' s"
    then have "set ''hover'' \<subseteq> set s" by (rule set_mono_sublist)
    with v show False by simp
  qed
  then show ?thesis by (simp add: hover_hack_def hover_from_free)
qed

text \<open>A type that ends with a point is no type, and neither is what the calls for every type make of it.\<close>

lemma off_never_returns:
  assumes "s_events st e = Some ((k, q) # evs)" and "list_all is_word k" and "CHR ''v'' \<notin> set k"
    and "list_all is_word w" and "CHR ''v'' \<notin> set w"
  shows "remove_event n e (w @ ''.'') guid sel mapped st = None"
  using assms(4,5)
proof (induction n arbitrary: w mapped)
  case (Suc n)
  have "\<not> is_blank (CHR ''.'')" by (simp add: is_blank_def)
  then have b: "list_all (\<lambda>c. \<not> is_blank c) (w @ ''.'')" using Suc.prems(1) by (auto simp: list_all_iff dest: is_word_facts)
  have d: "CHR ''.'' \<notin> set w" using Suc.prems(1) by (auto simp: list_all_iff dest: is_word_facts)
  have p: "pieces (w @ ''.'') = [w @ ''.'']"
    by (rule pieces_single [OF b hover_hack_no_v]) (use Suc.prems(2) in simp)
  have t: "parse_tns (w @ ''.'') = ([], [])"
    using dropWhile_dot(1) [OF d, of "[]"] by (simp add: parse_tns_def)
  have "remove_event n e ((k @ w) @ ''.'') guid sel True st = None"
    by (rule Suc.IH) (use assms Suc.prems in simp_all)
  then have "remove_piece n e guid sel mapped (w @ ''.'') st = None"
    using assms(1) by (simp add: remove_piece_def t queue_at_def)
  then show ?case using assms(1) by (simp add: remove_event_Suc p del: remove_event.simps)
qed simp

lemma off_click_point: "remove_event n 1 ''click.'' None [] False list_store = None"
proof -
  have s: "s_events list_store 1 = Some [(''click'', list_queue)]" by code_simp
  have "list_all is_word ''click''" by code_simp
  with off_never_returns [OF s, of "''click''" n None "[]" False] show ?thesis by simp
qed

text \<open>A blank too many takes every handler away.\<close>

lemma off_two_blanks:
  "map_option (\<lambda>st. queue_at 1 ''click'' st) (jq_off 1 ''keydown  keyup'' Missing Missing list_store) = Some None"
  by code_simp

text \<open>A namespace \<open>hover\<close> is taken for the type.\<close>

lemma hover_namespace: "pieces ''click.hover'' = [''click.mouseenter'', ''mouseleave'']"
  by code_simp

text \<open>\<open>one\<close> with \<open>mouseenter\<close>: the handler is bound to another type than the one it is removed from, and stays.\<close>

lemma one_mouseenter_stays:
  "(let st = jq_on list_page 1 ''mouseenter'' Missing Missing (Fn 9) True start_store;
        r = dispatch list_page list_body 1 \<lparr>r_event = new_event ''mouseover'' [] False 1, r_store = st, r_calls = []\<rparr>
    in map (\<lambda>((c, h), _). fn_of (h_fn h)) (r_calls r) = [9] \<and> bound_at 1 ''mouseover'' (r_store r) \<noteq> [])"
  by code_simp

text \<open>\<open>one\<close> takes the same function away where it was bound by \<open>on\<close> as well.\<close>

lemma one_takes_both:
  "(let st = jq_on list_page 1 ''click'' Missing Missing (Fn 9) True
               (jq_on list_page 1 ''click'' Missing Missing (Fn 9) False start_store);
        r = dispatch list_page list_body 1 \<lparr>r_event = new_event ''click'' [] False 1, r_store = st, r_calls = []\<rparr>
    in bound_at 1 ''click'' (r_store r) = [])"
  by code_simp

text \<open>
  A clone has the delegated handlers among the direct ones: the function is called for a click on the clone itself, which no
  selector matches.  Removing it there makes the count negative, and then all but the last direct handler are skipped.
\<close>

definition cloned_list :: store where
  "cloned_list = clone_events list_page 1 5 list_store"

lemma clone_loses_delegation:
  "map_option q_count (queue_at 5 ''click'' cloned_list) = Some 0"
  "map (\<lambda>h. h_sel h) (bound_at 5 ''click'' cloned_list) = [''li'', ''#x'', [], []]"
  "map (\<lambda>((c, h), _). (c, fn_of (h_fn h)))
     (r_calls (dispatch list_page list_body 5 \<lparr>r_event = new_event ''click'' [] False 5, r_store = cloned_list, r_calls = []\<rparr>))
   = [(5, 2), (5, 3), (5, 1), (5, 4)]"
  by code_simp+

lemma clone_skips_handlers:
  "(case jq_off 5 ''click'' (Text ''li'') Missing cloned_list of
      None \<Rightarrow> False
    | Some st \<Rightarrow>
        map (\<lambda>((c, h), _). fn_of (h_fn h))
          (r_calls (dispatch list_page list_body 5 \<lparr>r_event = new_event ''click'' [] False 5, r_store = st, r_calls = []\<rparr>)) = [4])"
  by code_simp

text \<open>Delegated \<open>focus\<close> handlers leave the capturing handler of the document behind, and \<open>onbeforeunload\<close> is never reset.\<close>

lemma delegated_focus_leaks:
  "map_option (\<lambda>st. (s_events st 1, s_attaches st ''focusin''))
     (jq_off 1 ''focus'' (Text ''li'') Missing (jq_on list_page 1 ''focus'' (Text ''li'') Missing (Fn 9) False start_store))
   = Some (None, 1)"
  by code_simp

lemma beforeunload_stays:
  "map_option (\<lambda>st. (s_events st 1, s_unload st 1))
     (jq_off 1 ''beforeunload'' Missing Missing
        (jq_on (list_page\<lparr>is_window := (\<lambda>e. e = 1)\<rparr>) 1 ''beforeunload'' Missing Missing (Fn 9) False start_store))
   = Some (None, True)"
  by code_simp

text \<open>An element without a class is taken to have the class \<open>undefined\<close>.\<close>

lemma undefined_class: "selects list_page ''.undefined'' 2"
  by code_simp

end
