(* ===== verification/Spec2Isabelle.thy ===== *)
theory Spec2Isabelle
  imports Report_Figures Dp_Popup Slider_Values Jq_Deferred Ui_Position Ui_Progressbar Ui_Selectable Ui_Droppable Ui_Tabs Ui_Dialog
    Ui_Autocomplete Ui_Accordion Ui_Widget Ui_Button Ui_Draggable Ui_Resizable Ui_Sortable Jq_Event_Store
begin

text \<open>
  Verification of the JavaScript that Web Polygraph ships with its HTML reports: the script
  \<open>src/loganalyzers/ReportFigures.js\<close>, written for the reports, and the parts of the libraries
  under \<open>import/\<close> it is delivered with (jQuery 1.7.1 and the widgets of jQuery UI 1.8.18) that have
  logic of their own.  Every definition follows one function or a stretch of one function of the
  source; the theorems say what the code guarantees, and the ones named at the end of the parts
  below show where it does not do what it means to.

  The library.  \<open>Js_Prelude\<close> has the results of operations that may throw and the functions of
  the JavaScript library that the code calls (numbers, strings, \<open>parseInt\<close>, arrays).  The
  interfaces are locales: \<open>Exclusive_View\<close> (of several views one is shown; provided by the figures of a report, the tabs, the accordion and radio buttons), \<open>Bounded_Value\<close> (a
  value forced into limits; provided by the date picker, the positions and the progress bar) and, in \<open>Ui_Mouse\<close>,
  \<open>mouse_client\<close> with its extension \<open>gesture_client\<close> (what the hooks of a widget keep, every
  reachable state keeps; provided by the slider and the lasso), and in \<open>Jq_Dispatch\<close> \<open>halting_loop\<close>.

  Reports.  \<open>Report_Figures\<close> models \<open>ReportFigures.js\<close> as it is: the page as a state, one
  function per handler, \<open>$.jqplot\<close> and \<open>plot.replot\<close> as parameters.  Its theorems: one type of
  every figure is shown; plots have targets of their own; the options given to \<open>$.jqplot\<close>; when building
  a plot throws; only figure scripts are requested; resizing replots; help opens.

  Date picker, \<open>jquery.ui.datepicker.js\<close>.  \<open>Js_Date\<close> is the part of \<open>Date\<close> it relies on, for
  any time zone that a table of offsets describes; \<open>Dp_Format\<close> has \<open>formatDate\<close>, \<open>parseDate\<close>, \<open>iso8601Week\<close>
  and the other functions of dates; \<open>Dp_Dates\<close> and \<open>Dp_Roundtrip\<close> prove the calendar facts
  and that parsing undoes formatting for every unambiguous format.  \<open>Dp_Settings\<close> and
  \<open>Dp_Instance\<close> have the settings and the operations on one picker, \<open>Dp_Moves\<close> their
  theorems; \<open>Dp_Grid\<close> has the drawing of the months and \<open>Dp_Calendar\<close> shows that the
  grid is the calendar; \<open>Dp_Manager\<close> has the manager with its one popup and animation queue,
  \<open>Dp_Popup\<close> what holds of it in every reachable state.

  Mouse and slider.  \<open>Ui_Mouse\<close> has the gestures of \<open>jquery.ui.mouse.js\<close>, with the hooks of the
  widget as parameters (which may end a gesture themselves), and the order in which the hooks are called.  \<open>Ui_Slider\<close> and
  \<open>Slider_Values\<close> have \<open>jquery.ui.slider.js\<close>: values on the grid of steps, the order of two
  handles, the events of a gesture.

  Callbacks.  \<open>Jq_Callbacks\<close> has \<open>jQuery.Callbacks\<close> as a machine with a stack of frames, since a
  callback may change the list that is calling it; \<open>Cb_Safety\<close> shows that firing stays inside
  the list; \<open>Jq_Deferred\<close> has \<open>jQuery.Deferred\<close> and shows that it settles once.

  Events.  \<open>Jq_Event_Names\<close> has the lists of types and namespaces of \<open>jQuery.event\<close> and shows when namespaces match;
  \<open>Jq_Events\<close> has \<open>add\<close>, \<open>remove\<close>, \<open>dispatch\<close>, \<open>trigger\<close>, \<open>on\<close>, \<open>off\<close> and \<open>one\<close> on a store of the handlers of all
  elements.  What a handler does is a parameter, which may change that store.  \<open>Jq_Dispatch\<close> shows in which order handlers
  are called, by the locale \<open>halting_loop\<close> (a loop that may be stopped) interpreted for both loops of \<open>dispatch\<close>;
  \<open>Jq_Event_Store\<close> shows what holds of the store in every reachable state, that \<open>off\<close> undoes \<open>on\<close> and when it returns.

  Other widgets.  \<open>Ui_Position\<close> (\<open>jquery.ui.position.js\<close>: fitting and flipping),
  \<open>Ui_Progressbar\<close> (the bar shows its value), \<open>Ui_Selectable\<close> (what the lasso selects),
  \<open>Ui_Droppable\<close> (\<open>jquery.ui.droppable.js\<close> with \<open>$.ui.ddmanager\<close>: what a drop raises, and
  that \<open>over\<close> and \<open>out\<close> take turns), \<open>Ui_Tabs\<close> (\<open>jquery.ui.tabs.js\<close> with the order of its panels in the document: the panels, options and
  classes agree in every reachable state, and the widget refines what its user sees),
  \<open>Ui_Dialog\<close> (\<open>jquery.ui.dialog.js\<close>: heights, and overlays as jQuery objects that share elements; what modal dialogs hold back),
  \<open>Ui_Autocomplete\<close> (\<open>jquery.ui.autocomplete.js\<close> with its menu: filtering, keys, requests),
  \<open>Ui_Accordion\<close> (\<open>jquery.ui.accordion.js\<close>: the panel in sight, during and after animations), \<open>Ui_Widget\<close> (\<open>jquery.ui.widget.js\<close> and \<open>jQuery.extend\<close>: merging of
  options, calls of methods), \<open>Ui_Button\<close> (\<open>jquery.ui.button.js\<close>: toggle buttons look as their inputs are),
  \<open>Ui_Drag_Geometry\<close> and \<open>Ui_Draggable\<close> (\<open>jquery.ui.draggable.js\<close>: containment, grid and snapping; the order
  of the events of a drag, revert, stacking), \<open>Ui_Resizable\<close> (\<open>jquery.ui.resizable.js\<close>: limits, ratio, and
  the edge that stays), \<open>Ui_Sortable\<close> (\<open>jquery.ui.sortable.js\<close>: only the dragged item moves, \<open>update\<close> says so, \<open>cancel\<close> undoes it).

  Handlers of a page.  jQuery's own loops (callbacks, deferreds, events) call functions that may do anything.  In the widgets
  the handlers of a page answer, veto and change what they are given, but do not call the widget back while it is calling them, except where a
  lemma shows what becomes of that (\<open>on_close_shows_another\<close>, \<open>up_in_start_sticks\<close>).  The text before each property states the
  conditions it has.

  Loops and bounds.  Loops of the source are recursions whose termination is proved; where a loop
  of the source might not end (\<open>generateHTML\<close>, \<open>parseDate\<close>) a theorem says that it does.
  \<open>jQuery.event.remove\<close> calls itself and has fuel for the depth: two levels are enough where \<open>off_returns\<close> says that it
  returns, and for some arguments no fuel is enough (\<open>off_never_returns\<close>).
  The machine of callbacks is a step relation, and \<open>cb_run\<close> runs it with fuel on closed examples only.
  Numbers of JavaScript are integers where the code uses them as
  counts and dates, and rationals where it computes fractions: rounding errors of floating point and
  numbers beyond \<open>2 ^ 53\<close> are not modelled; \<open>NaN\<close> and \<open>undefined\<close> are, as options, where the
  code can meet them.

  Limits.  Ignoring case in \<open>Ui_Autocomplete\<close> is that of ASCII, and the namespaces of events are names without characters that
  mean something in a regular expression.

  Not modelled.  The document itself: selectors, markup, styles, animations as seen, and the measures of boxes, which
  come as arguments.  The rest of jQuery (Sizzle, the document, requests) is the interface to the
  browser.  Not modelled of jQuery UI: the effects.  jqPlot draws on a canvas and is a
  parameter.  The script \<open>jquery-ui-1.8.18.custom.js\<close> joins the files modelled here.  The
  benchmark's programs are C++ and outside the language of this development.
\<close>

end
